(* ===== verification/Picotm_Prelude.thy ===== *)
theory Picotm_Prelude
  imports Main "HOL-Library.Word"
begin

text \<open>
  Shared vocabulary of the development: the machine types of picotm's C code, the collections of
  simplification rules that the component theories extend, and the generic lemmas on lists that
  more than one component uses.

  A C function that reports failures through a \<open>struct picotm_error*\<close> parameter is modelled as a
  function that takes the error record and returns it next to its result; the early returns of
  the code are the branches on \<open>picotm_error_is_set\<close>.
\<close>

unbundle bit_operations_syntax

type_synonym u8 = "8 word"
type_synonym u16 = "16 word"
type_synonym u64 = "64 word"
type_synonym pointer = "64 word"

named_theorems lock_simps \<open>facts about the lock word\<close>
named_theorems tx_simps \<open>facts about the transaction state\<close>
named_theorems heap_simps \<open>facts about linked structures\<close>
named_theorems tm_simps \<open>facts about transactional memory pages\<close>

subsection \<open>Lists\<close>

lemma sorted_wrt_insert_between:
  "sorted_wrt R (xs @ ys) \<Longrightarrow> (\<forall>x\<in>set xs. R x a) \<Longrightarrow> (\<forall>y\<in>set ys. R a y) \<Longrightarrow>
   sorted_wrt R (xs @ a # ys)"
  by (auto simp: sorted_wrt_append)

lemma takeWhile_dropWhile_split:
  "takeWhile P xs @ dropWhile P xs = xs"
  by simp

lemma list_update_split:
  "i < length xs \<Longrightarrow> xs[i := y] = take i xs @ y # drop (Suc i) xs"
  by (simp add: upd_conv_take_nth_drop)

lemma fold_invariant:
  assumes "P s" and "\<And>x s. x \<in> set xs \<Longrightarrow> P s \<Longrightarrow> P (f x s)"
  shows "P (fold f xs s)"
  using assms by (induction xs arbitrary: s) auto

end
