(* ===== verification/Picotm_Error.thy ===== *)
theory Picotm_Error
  imports Picotm_Prelude
begin

text \<open>
  The error record of picotm (\<open>include/picotm/picotm-error.h\<close>, \<open>picotm-error-base.h\<close>,
  \<open>src/picotm-error.c\<close>).  The status field of the C struct is an enum whose value 0 stands for
  no error; here it is an option.  The union of the struct is a datatype with one constructor for
  each of its members.
\<close>

datatype picotm_error_code =
    PICOTM_GENERAL_ERROR
  | PICOTM_OUT_OF_MEMORY
  | PICOTM_INVALID_FENV
  | PICOTM_OUT_OF_BOUNDS

datatype picotm_error_status =
    PICOTM_CONFLICTING
  | PICOTM_REVOCABLE
  | PICOTM_ERROR_CODE
  | PICOTM_ERRNO
  | PICOTM_KERN_RETURN_T
  | PICOTM_SIGINFO_T

datatype picotm_error_value =
    No_value
  | Conflicting_lock pointer
  | Error_hint picotm_error_code
  | Errno_hint int
  | Kern_return_t_value int
  | Siginfo_t_info pointer

record picotm_error =
  err_status :: "picotm_error_status option"
  is_non_recoverable :: bool
  description :: "string option"
  err_value :: picotm_error_value

definition PICOTM_ERROR_INITIALIZER :: picotm_error where
  "PICOTM_ERROR_INITIALIZER =
     \<lparr>err_status = None, is_non_recoverable = False, description = None, err_value = No_value\<rparr>"

definition picotm_error_is_set :: "picotm_error \<Rightarrow> bool" where
  "picotm_error_is_set e \<longleftrightarrow> err_status e \<noteq> None"

definition picotm_error_clear :: "picotm_error \<Rightarrow> picotm_error" where
  "picotm_error_clear e =
     e\<lparr>err_status := None, is_non_recoverable := False, description := None\<rparr>"

definition picotm_error_set_conflicting :: "picotm_error \<Rightarrow> pointer \<Rightarrow> picotm_error" where
  "picotm_error_set_conflicting e lock =
     e\<lparr>err_status := Some PICOTM_CONFLICTING, is_non_recoverable := False,
       description := None, err_value := Conflicting_lock lock\<rparr>"

definition picotm_error_set_revocable :: "picotm_error \<Rightarrow> picotm_error" where
  "picotm_error_set_revocable e =
     e\<lparr>err_status := Some PICOTM_REVOCABLE, is_non_recoverable := False, description := None\<rparr>"

definition picotm_error_set_error_code :: "picotm_error \<Rightarrow> picotm_error_code \<Rightarrow> picotm_error" where
  "picotm_error_set_error_code e c =
     e\<lparr>err_status := Some PICOTM_ERROR_CODE, is_non_recoverable := False,
       description := None, err_value := Error_hint c\<rparr>"

definition picotm_error_set_errno :: "picotm_error \<Rightarrow> int \<Rightarrow> picotm_error" where
  "picotm_error_set_errno e n =
     e\<lparr>err_status := Some PICOTM_ERRNO, is_non_recoverable := False,
       description := None, err_value := Errno_hint n\<rparr>"

definition picotm_error_set_kern_return_t :: "picotm_error \<Rightarrow> int \<Rightarrow> picotm_error" where
  "picotm_error_set_kern_return_t e n =
     e\<lparr>err_status := Some PICOTM_KERN_RETURN_T, is_non_recoverable := False,
       description := None, err_value := Kern_return_t_value n\<rparr>"

definition picotm_error_set_siginfo_t :: "picotm_error \<Rightarrow> pointer \<Rightarrow> picotm_error" where
  "picotm_error_set_siginfo_t e info =
     e\<lparr>err_status := Some PICOTM_SIGINFO_T, is_non_recoverable := False,
       description := None, err_value := Siginfo_t_info info\<rparr>"

definition picotm_error_is_conflicting :: "picotm_error \<Rightarrow> bool" where
  "picotm_error_is_conflicting e \<longleftrightarrow> err_status e = Some PICOTM_CONFLICTING"

definition picotm_error_is_revocable :: "picotm_error \<Rightarrow> bool" where
  "picotm_error_is_revocable e \<longleftrightarrow> err_status e = Some PICOTM_REVOCABLE"

definition picotm_error_is_error :: "picotm_error \<Rightarrow> bool" where
  "picotm_error_is_error e \<longleftrightarrow> picotm_error_is_set e \<and> \<not> picotm_error_is_conflicting e"

definition picotm_error_mark_as_non_recoverable :: "picotm_error \<Rightarrow> picotm_error" where
  "picotm_error_mark_as_non_recoverable e = e\<lparr>is_non_recoverable := True\<rparr>"

definition picotm_error_set_description :: "picotm_error \<Rightarrow> string option \<Rightarrow> picotm_error" where
  "picotm_error_set_description e d = e\<lparr>description := d\<rparr>"

definition picotm_error_get_description :: "picotm_error \<Rightarrow> string option" where
  "picotm_error_get_description e = description e"

named_theorems error_simps \<open>how the error operations act on the status\<close>

lemma error_initializer_not_set [simp]: "\<not> picotm_error_is_set PICOTM_ERROR_INITIALIZER"
  by (simp add: picotm_error_is_set_def PICOTM_ERROR_INITIALIZER_def)

lemma error_clear_not_set [simp]: "\<not> picotm_error_is_set (picotm_error_clear e)"
  by (simp add: picotm_error_is_set_def picotm_error_clear_def)

lemma error_setters_set [simp]:
  "picotm_error_is_set (picotm_error_set_conflicting e l)"
  "picotm_error_is_set (picotm_error_set_revocable e)"
  "picotm_error_is_set (picotm_error_set_error_code e c)"
  "picotm_error_is_set (picotm_error_set_errno e n)"
  "picotm_error_is_set (picotm_error_set_kern_return_t e n)"
  "picotm_error_is_set (picotm_error_set_siginfo_t e l)"
  by (simp_all add: picotm_error_is_set_def picotm_error_set_conflicting_def
        picotm_error_set_revocable_def picotm_error_set_error_code_def picotm_error_set_errno_def
        picotm_error_set_kern_return_t_def picotm_error_set_siginfo_t_def)

lemma error_setters_recoverable [error_simps]:
  "\<not> is_non_recoverable (picotm_error_set_conflicting e l)"
  "\<not> is_non_recoverable (picotm_error_set_revocable e)"
  "\<not> is_non_recoverable (picotm_error_set_error_code e c)"
  "\<not> is_non_recoverable (picotm_error_set_errno e n)"
  by (simp_all add: picotm_error_set_conflicting_def
        picotm_error_set_revocable_def picotm_error_set_error_code_def picotm_error_set_errno_def)

lemma mark_non_recoverable_status [simp]:
  "picotm_error_is_set (picotm_error_mark_as_non_recoverable e) = picotm_error_is_set e"
  "err_status (picotm_error_mark_as_non_recoverable e) = err_status e"
  "is_non_recoverable (picotm_error_mark_as_non_recoverable e)"
  by (simp_all add: picotm_error_is_set_def picotm_error_mark_as_non_recoverable_def)

lemma error_status_conflicting [error_simps]:
  "err_status (picotm_error_set_conflicting e l) = Some PICOTM_CONFLICTING"
  "err_value (picotm_error_set_conflicting e l) = Conflicting_lock l"
  by (simp_all add: picotm_error_set_conflicting_def)

lemma error_status_error_code [error_simps]:
  "err_status (picotm_error_set_error_code e c) = Some PICOTM_ERROR_CODE"
  "err_value (picotm_error_set_error_code e c) = Error_hint c"
  by (simp_all add: picotm_error_set_error_code_def)

end
