(* ===== verification/Picotm_Table.thy ===== *)
theory Picotm_Table
  imports Picotm_Error
begin

text \<open>
  Table helpers (\<open>src/table.c\<close>, exported by \<open>src/picotm-lib-tab.c\<close>): rounding of allocation
  sizes to powers of two, resizing, forward and backward walks with a call-back that decides how
  far to advance, and the removal of adjacent duplicates.

  A table is addressed by element index.  The walks take the call-back as a function of the index,
  a state and the error; the state carries the table and whatever else the call-back changes.  A
  call-back that never advances keeps the C loop running for ever, so the walks are partial
  functions: \<open>None\<close> means that the walk does not return.
\<close>

subsection \<open>Rounding up to a power of two\<close>

function rndpow2_loop :: "nat \<Rightarrow> u64 \<Rightarrow> u64" where
  "rndpow2_loop i val =
     (if 0 < i \<and> i < 64 then rndpow2_loop (i * 2) (val OR drop_bit i val) else val)"
  by pat_completeness auto
termination
  by (relation "measure (\<lambda>(i, _). 64 - i)") auto

declare rndpow2_loop.simps [simp del]

definition rndpow2 :: "u64 \<Rightarrow> u64" where
  "rndpow2 val = rndpow2_loop 1 (val - 1) + 1"

lemma rndpow2_loop_unrolled:
  "rndpow2_loop 1 v =
     (let v1 = v OR drop_bit 1 v; v2 = v1 OR drop_bit 2 v1; v3 = v2 OR drop_bit 4 v2;
          v4 = v3 OR drop_bit 8 v3; v5 = v4 OR drop_bit 16 v4
      in v5 OR drop_bit 32 v5)"
  by (simp add: rndpow2_loop.simps Let_def)

lemma smear_step:
  assumes "\<And>j. bit (v::u64) j \<longleftrightarrow> (\<exists>k<n. bit w (j + k))"
  shows "bit (v OR drop_bit n v) j \<longleftrightarrow> (\<exists>k<2 * n. bit w (j + k))"
proof -
  have "(\<exists>k<2 * n. bit w (j + k)) \<longleftrightarrow> (\<exists>k<n. bit w (j + k)) \<or> (\<exists>k<n. bit w (j + n + k))"
  proof
    assume "\<exists>k<2 * n. bit w (j + k)"
    then obtain k where k: "k < 2 * n" "bit w (j + k)" by blast
    show "(\<exists>k<n. bit w (j + k)) \<or> (\<exists>k<n. bit w (j + n + k))"
    proof (cases "k < n")
      case False
      with k have "k - n < n" "bit w (j + n + (k - n))" by auto
      then show ?thesis by blast
    qed (use k in blast)
  next
    assume "(\<exists>k<n. bit w (j + k)) \<or> (\<exists>k<n. bit w (j + n + k))"
    then show "\<exists>k<2 * n. bit w (j + k)"
    proof (elim disjE exE conjE)
      fix k assume "k < n" "bit w (j + n + k)"
      then show ?thesis by (intro exI [of _ "n + k"]) (simp add: add.assoc)
    qed (intro exI conjI, auto)
  qed
  with assms show ?thesis by (simp add: bit_or_iff bit_drop_bit_eq add.commute add.left_commute)
qed

lemma bit_rndpow2_loop: "bit (rndpow2_loop 1 v) j \<longleftrightarrow> (\<exists>k<64. bit v (j + k))"
proof -
  have s1: "bit v j \<longleftrightarrow> (\<exists>k<1. bit v (j + k))" for j by simp
  note s2 = smear_step [OF s1, simplified]
  note s4 = smear_step [OF s2, simplified]
  note s8 = smear_step [OF s4, simplified]
  note s16 = smear_step [OF s8, simplified]
  note s32 = smear_step [OF s16, simplified]
  note s64 = smear_step [OF s32, simplified]
  show ?thesis unfolding rndpow2_loop_unrolled Let_def using s64 by simp
qed

lemma rndpow2_loop_mask:
  assumes "v \<noteq> 0"
  obtains t where "t < 64" "rndpow2_loop 1 v = mask (Suc t)" "2 ^ t \<le> unat v" "unat v < 2 ^ Suc t"
proof -
  have ex: "\<exists>j. bit v j" using assms by (metis bit_0_eq bit_eq_iff bot_apply bot_bool_def)
  have bound: "\<And>j. bit v j \<Longrightarrow> j < 64" using bit_imp_le_length by force
  define t where "t = Max {j. bit v j}"
  have fin: "finite {j. bit v j}" using bound by (rule_tac finite_subset [of _ "{..<64}"]) auto
  have t: "bit v t" using Max_in [OF fin] ex by (auto simp: t_def)
  have le_t: "j \<le> t" if "bit v j" for j using Max_ge [OF fin] that by (auto simp: t_def)
  have t64: "t < 64" using bound t by blast
  have "bit (rndpow2_loop 1 v) j \<longleftrightarrow> bit (mask (Suc t) :: u64) j" for j
  proof (cases "j \<le> t")
    case True
    then have "t - j < 64" "bit v (j + (t - j))" using t64 t by auto
    then have "\<exists>k<64. bit v (j + k)" by blast
    then show ?thesis using True t64 unfolding bit_rndpow2_loop by (simp add: bit_mask_iff)
  next
    case False
    then have "\<not> bit v (j + k)" for k using le_t by fastforce
    then show ?thesis using False unfolding bit_rndpow2_loop by (simp add: bit_mask_iff)
  qed
  then have m: "rndpow2_loop 1 v = mask (Suc t)" by (rule bit_word_eqI)
  have "take_bit (Suc t) v = v"
    by (rule bit_word_eqI) (auto simp: bit_take_bit_iff less_Suc_eq_le dest: le_t)
  then have lt: "unat v < 2 ^ Suc t"
    by (metis take_bit_nat_less_exp unsigned_take_bit_eq)
  have "odd (unat v div 2 ^ t)" using t by (simp add: bit_unsigned_iff bit_iff_odd [symmetric])
  then have "unat v div 2 ^ t \<noteq> 0" by (metis even_zero)
  then have "2 ^ t \<le> unat v" by (metis div_less linorder_not_less)
  with t64 m lt show thesis using that by blast
qed

lemma rndpow2_0: "rndpow2 0 = 0"
proof -
  have "rndpow2_loop 1 (- 1) = - 1" unfolding rndpow2_loop_unrolled by (simp add: Let_def)
  then show ?thesis by (simp add: rndpow2_def)
qed

lemma rndpow2_power:
  assumes "0 < unat v" and "unat v \<le> 2 ^ 63"
  shows "\<exists>k\<le>63. unat (rndpow2 v) = 2 ^ k \<and> unat v \<le> 2 ^ k \<and> 2 ^ k < 2 * unat v"
proof (cases "v = 1")
  case True
  have "rndpow2_loop 1 0 = 0" unfolding rndpow2_loop_unrolled by (simp add: Let_def)
  with True show ?thesis by (intro exI [of _ 0]) (simp add: rndpow2_def)
next
  case False
  have pred: "unat (v - 1) = unat v - 1"
    using assms(1) by (simp add: unat_minus_one unat_gt_0)
  have "v - 1 \<noteq> 0" using False by simp
  then obtain t where t: "t < 64" "rndpow2_loop 1 (v - 1) = mask (Suc t)"
      "2 ^ t \<le> unat (v - 1)" "unat (v - 1) < 2 ^ Suc t"
    by (rule rndpow2_loop_mask)
  have "(2::nat) ^ t < 2 ^ 63" using t(3) pred assms by linarith
  then have t63: "t < 63" by (rule power_less_imp_less_exp [rotated]) simp
  have "mask (Suc t) + 1 = (2 :: u64) ^ Suc t" by (simp add: mask_eq_exp_minus_1)
  then have "rndpow2 v = 2 ^ Suc t" using t(2) by (simp add: rndpow2_def)
  moreover have "unat ((2 :: u64) ^ Suc t) = 2 ^ Suc t"
  proof -
    have "(2::nat) ^ Suc t < 2 ^ LENGTH(64)" using t63 by (intro power_strict_increasing) auto
    then have "unat (word_of_nat (2 ^ Suc t) :: u64) = 2 ^ Suc t"
      unfolding unat_of_nat by (rule mod_less)
    then show ?thesis by simp
  qed
  ultimately show ?thesis
    using t t63 pred assms by (intro exI [of _ "Suc t"]) auto
qed

subsection \<open>Resizing\<close>

text \<open>
  \<open>realloc\<close> and \<open>errno\<close> belong to the C library.  The allocator is a function from its own state,
  the old block and the byte count to the new block (\<open>None\<close> for a null pointer), the value of
  \<open>errno\<close> and the allocator's next state.  \<open>s_lowmem\<close> is the static flag of \<open>tabresize\<close>: once an
  allocation of a rounded size has failed, tables grow linearly.
\<close>

definition ENOMEM :: int where "ENOMEM = 12"

type_synonym ('b, 'a) allocator = "'a \<Rightarrow> 'b option \<Rightarrow> u64 \<Rightarrow> 'b option \<times> int \<times> 'a"

definition tabresize_attempt ::
  "('b, 'a) allocator \<Rightarrow> bool \<Rightarrow> 'a \<Rightarrow> 'b option \<Rightarrow> u64 \<Rightarrow> u64 \<Rightarrow> u64 \<Rightarrow> int \<Rightarrow> 'b option \<times> int \<times> 'a"
where
  "tabresize_attempt realloc s_lowmem a base nelems newnelems siz errno =
     (if \<not> s_lowmem then
        (let nelems2 = rndpow2 nelems; newnelems2 = rndpow2 newnelems
         in if nelems2 \<noteq> newnelems2 then realloc a base (newnelems2 * siz) else (base, errno, a))
      else realloc a base (newnelems * siz))"

definition tabresize ::
  "('b, 'a) allocator \<Rightarrow> bool \<Rightarrow> 'a \<Rightarrow> int \<Rightarrow> 'b option \<Rightarrow> u64 \<Rightarrow> u64 \<Rightarrow> u64 \<Rightarrow> picotm_error \<Rightarrow>
   bool \<times> 'a \<times> int \<times> 'b option \<times> picotm_error"
where
  "tabresize realloc s_lowmem a errno base nelems newnelems siz error =
     (let (mem, errno1, a1) = tabresize_attempt realloc s_lowmem a base nelems newnelems siz errno
      in if mem = None \<and> newnelems \<noteq> 0 then
           (if errno1 = ENOMEM \<and> \<not> s_lowmem then
              (let (mem2, errno2, a2) =
                     tabresize_attempt realloc True a1 base nelems newnelems siz errno1
               in if mem2 = None then
                    (True, a2, errno2, mem2, picotm_error_set_errno error errno2)
                  else (True, a2, errno2, mem2, error))
            else (s_lowmem, a1, errno1, mem, picotm_error_set_errno error errno1))
         else (s_lowmem, a1, errno1, mem, error))"

lemma tabresize_None_error:
  assumes "tabresize realloc lm a en base n m siz e = (lm', a', en', mem, e')"
    and "mem = None" and "m \<noteq> 0"
  shows "picotm_error_is_set e'"
  using assms unfolding tabresize_def by (auto simp: Let_def split: prod.splits if_splits)

lemma tabresize_Some_error:
  assumes "tabresize realloc lm a en base n m siz e = (lm', a', en', Some b, e')"
  shows "e' = e"
  using assms unfolding tabresize_def by (auto simp: Let_def split: prod.splits if_splits)

text \<open>
  An allocator that always serves the request, as witness for the hypotheses: a block is its size
  in bytes.
\<close>

definition exact_realloc :: "(u64, unit) allocator" where
  "exact_realloc = (\<lambda>_ _ bytes. (Some bytes, 0, ()))"

text \<open>An allocator that refuses rounded requests beyond a limit with \<open>ENOMEM\<close>.\<close>

definition limited_realloc :: "u64 \<Rightarrow> (u64, unit) allocator" where
  "limited_realloc lim = (\<lambda>_ _ bytes. if bytes \<le> lim then (Some bytes, 0, ()) else (None, ENOMEM, ()))"

subsection \<open>Walks\<close>

partial_function (option) tabwalk_1 ::
  "(nat \<Rightarrow> 's \<Rightarrow> picotm_error \<Rightarrow> nat \<times> 's \<times> picotm_error) \<Rightarrow> nat \<Rightarrow> nat \<Rightarrow> 's \<Rightarrow> picotm_error \<Rightarrow>
   (nat \<times> 's \<times> picotm_error) option"
where
  "tabwalk_1 walk nelems pos s error =
     (if pos < nelems then
        (case walk pos s error of (inc, s', error') \<Rightarrow>
           if picotm_error_is_set error' then Some (pos, s', error')
           else tabwalk_1 walk nelems (pos + inc) s' error')
      else Some (pos, s, error))"

definition tabwalk_2 ::
  "(nat \<Rightarrow> 'd \<Rightarrow> 's \<Rightarrow> picotm_error \<Rightarrow> nat \<times> 's \<times> picotm_error) \<Rightarrow> nat \<Rightarrow> nat \<Rightarrow> 'd \<Rightarrow> 's \<Rightarrow>
   picotm_error \<Rightarrow> (nat \<times> 's \<times> picotm_error) option"
where
  "tabwalk_2 walk nelems pos d s error = tabwalk_1 (\<lambda>i. walk i d) nelems pos s error"

definition tabwalk_3 ::
  "(nat \<Rightarrow> 'd \<Rightarrow> 'c \<Rightarrow> 's \<Rightarrow> picotm_error \<Rightarrow> nat \<times> 's \<times> picotm_error) \<Rightarrow> nat \<Rightarrow> nat \<Rightarrow> 'd \<Rightarrow> 'c \<Rightarrow> 's \<Rightarrow>
   picotm_error \<Rightarrow> (nat \<times> 's \<times> picotm_error) option"
where
  "tabwalk_3 walk nelems pos d c s error = tabwalk_1 (\<lambda>i. walk i d c) nelems pos s error"

text \<open>
  The backward walk keeps \<open>end\<close> as the index of the current element; it stops when the index falls
  below the first element.
\<close>

partial_function (option) tabrwalk_loop ::
  "(nat \<Rightarrow> 's \<Rightarrow> picotm_error \<Rightarrow> nat \<times> 's \<times> picotm_error) \<Rightarrow> int \<Rightarrow> nat \<Rightarrow> 's \<Rightarrow> picotm_error \<Rightarrow>
   (nat \<times> 's \<times> picotm_error) option"
where
  "tabrwalk_loop walk end pos s error =
     (if 0 \<le> end then
        (case walk (nat end) s error of (dec, s', error') \<Rightarrow>
           if picotm_error_is_set error' then Some (pos, s', error')
           else tabrwalk_loop walk (end - int dec) (pos + dec) s' error')
      else Some (pos, s, error))"

definition tabrwalk_1 ::
  "(nat \<Rightarrow> 's \<Rightarrow> picotm_error \<Rightarrow> nat \<times> 's \<times> picotm_error) \<Rightarrow> nat \<Rightarrow> 's \<Rightarrow> picotm_error \<Rightarrow>
   (nat \<times> 's \<times> picotm_error) option"
where
  "tabrwalk_1 walk nelems s error = tabrwalk_loop walk (int nelems - 1) 0 s error"

definition tabrwalk_2 ::
  "(nat \<Rightarrow> 'd \<Rightarrow> 's \<Rightarrow> picotm_error \<Rightarrow> nat \<times> 's \<times> picotm_error) \<Rightarrow> nat \<Rightarrow> 'd \<Rightarrow> 's \<Rightarrow> picotm_error \<Rightarrow>
   (nat \<times> 's \<times> picotm_error) option"
where
  "tabrwalk_2 walk nelems d s error = tabrwalk_loop (\<lambda>i. walk i d) (int nelems - 1) 0 s error"

text \<open>
  Call-backs of picotm return 0 when they set an error and 1 otherwise.  Such a call-back visits
  the elements in order until the first error: \<open>walk_elems\<close> is that reference.
\<close>

fun walk_elems ::
  "(nat \<Rightarrow> 's \<Rightarrow> picotm_error \<Rightarrow> 's \<times> picotm_error) \<Rightarrow> nat list \<Rightarrow> 's \<Rightarrow> picotm_error \<Rightarrow>
   nat \<times> 's \<times> picotm_error"
where
  "walk_elems f [] s e = (0, s, e)"
| "walk_elems f (i # is) s e =
     (case f i s e of (s', e') \<Rightarrow>
        if picotm_error_is_set e' then (0, s', e')
        else (case walk_elems f is s' e' of (n, s'', e'') \<Rightarrow> (Suc n, s'', e'')))"

definition one_step ::
  "(nat \<Rightarrow> 's \<Rightarrow> picotm_error \<Rightarrow> 's \<times> picotm_error) \<Rightarrow> nat \<Rightarrow> 's \<Rightarrow> picotm_error \<Rightarrow>
   nat \<times> 's \<times> picotm_error"
where
  "one_step f i s e =
     (case f i s e of (s', e') \<Rightarrow> (if picotm_error_is_set e' then 0 else 1, s', e'))"

lemma tabwalk_1_one_step_from:
  "pos \<le> n \<Longrightarrow>
   tabwalk_1 (one_step f) n pos s e =
     (case walk_elems f [pos..<n] s e of (k, s', e') \<Rightarrow> Some (pos + k, s', e'))"
proof (induction "n - pos" arbitrary: pos s e)
  case 0
  then show ?case by (simp add: tabwalk_1.simps)
next
  case (Suc m)
  then have lt: "pos < n" by simp
  obtain s' e' where f: "f pos s e = (s', e')" by fastforce
  show ?case
  proof (cases "picotm_error_is_set e'")
    case True
    with lt f show ?thesis
      by (simp add: tabwalk_1.simps [of _ n pos] one_step_def upt_conv_Cons)
  next
    case False
    have "tabwalk_1 (one_step f) n (Suc pos) s' e' =
        (case walk_elems f [Suc pos..<n] s' e' of (k, s'', e'') \<Rightarrow> Some (Suc pos + k, s'', e''))"
      using Suc.hyps(2) lt by (intro Suc.hyps(1)) auto
    with False lt f show ?thesis
      by (simp add: tabwalk_1.simps [of _ n pos] one_step_def upt_conv_Cons split: prod.splits)
  qed
qed

lemma tabwalk_1_one_step:
  "tabwalk_1 (one_step f) n 0 s e = Some (walk_elems f [0..<n] s e)"
  by (simp add: tabwalk_1_one_step_from split: prod.splits)

lemma walk_elems_no_error_count:
  "walk_elems f is s e = (k, s', e') \<Longrightarrow> k \<le> length is \<and> (\<not> picotm_error_is_set e' \<longrightarrow> k = length is)"
  by (induction "is" arbitrary: s e k) (auto split: prod.splits if_splits)

lemma walk_elems_append:
  "walk_elems f (is @ js) s e =
     (case walk_elems f is s e of (k, s', e') \<Rightarrow>
        if is \<noteq> [] \<and> picotm_error_is_set e' then (k, s', e')
        else (case walk_elems f js s' e' of (l, s'', e'') \<Rightarrow> (k + l, s'', e'')))"
  by (induction "is" arbitrary: s e) (auto split: prod.splits)

subsection \<open>Removal of adjacent duplicates\<close>

text \<open>
  \<open>skip_equal\<close> is the inner \<open>do\<close> loop of \<open>tabuniq\<close> after its first increment.  The outer loop keeps
  the indices \<open>beg\<close> (last kept element) and \<open>next\<close> and the number of kept elements; it returns the
  changed table with the count.
\<close>

function skip_equal :: "('e \<Rightarrow> 'e \<Rightarrow> int) \<Rightarrow> 'e list \<Rightarrow> nat \<Rightarrow> nat \<Rightarrow> nat" where
  "skip_equal compare tab beg next =
     (if next < length tab \<and> compare (tab ! beg) (tab ! next) = 0
      then skip_equal compare tab beg (next + 1) else next)"
  by pat_completeness auto
termination
  by (relation "measure (\<lambda>(_, tab, _, next). length tab - next)") auto

declare skip_equal.simps [simp del]

lemma skip_equal_ge: "next \<le> skip_equal compare tab beg next"
proof (induction compare tab beg "next" rule: skip_equal.induct)
  case (1 compare tab beg "next")
  then show ?case by (subst skip_equal.simps) (auto split: if_splits)
qed

function tabuniq_loop ::
  "('e \<Rightarrow> 'e \<Rightarrow> int) \<Rightarrow> 'e list \<Rightarrow> nat \<Rightarrow> nat \<Rightarrow> nat \<Rightarrow> nat \<times> 'e list"
where
  "tabuniq_loop compare tab beg next uniqelems =
     (if next < length tab then
        (let next' = skip_equal compare tab beg (next + 1) in
         if next' \<noteq> length tab then
           if next' - beg = 1 then tabuniq_loop compare tab (beg + 1) next' (uniqelems + 1)
           else tabuniq_loop compare (tab[beg + 1 := tab ! next']) (beg + 1) next' (uniqelems + 1)
         else tabuniq_loop compare tab beg next' (uniqelems + 1))
      else (uniqelems, tab))"
  by pat_completeness auto
termination
proof (relation "measure (\<lambda>(_, tab, _, next, _). length tab - next)", goal_cases)
  case (2 compare tab beg "next" uniqelems x)
  then show ?case using skip_equal_ge [of "next + 1" compare tab beg] by simp
next
  case (3 compare tab beg "next" uniqelems x)
  then show ?case using skip_equal_ge [of "next + 1" compare tab beg] by simp
next
  case (4 compare tab beg "next" uniqelems x)
  then show ?case using skip_equal_ge [of "next + 1" compare tab beg] by simp
qed simp

declare tabuniq_loop.simps [simp del]

definition tabuniq :: "('e \<Rightarrow> 'e \<Rightarrow> int) \<Rightarrow> 'e list \<Rightarrow> nat \<times> 'e list" where
  "tabuniq compare tab = tabuniq_loop compare tab 0 0 0"

lemma skip_equal_spec:
  assumes "\<And>x y. compare x y = 0 \<longleftrightarrow> x = y" and "next \<le> length tab"
  shows "skip_equal compare tab beg next \<le> length tab \<and>
         (\<forall>i. next \<le> i \<and> i < skip_equal compare tab beg next \<longrightarrow> tab ! i = tab ! beg) \<and>
         (skip_equal compare tab beg next < length tab \<longrightarrow>
            tab ! skip_equal compare tab beg next \<noteq> tab ! beg)"
  using assms
proof (induction compare tab beg "next" rule: skip_equal.induct)
  case (1 compare tab beg "next")
  show ?case
  proof (cases "next < length tab \<and> compare (tab ! beg) (tab ! next) = 0")
    case True
    then have eq: "skip_equal compare tab beg next = skip_equal compare tab beg (next + 1)"
      by (subst skip_equal.simps) simp
    have "tab ! next = tab ! beg" using True "1.prems"(1) by metis
    then show ?thesis
      using True "1.IH" [OF True "1.prems"(1)] unfolding eq
      by (metis Suc_eq_plus1 Suc_leI le_neq_implies_less)
  next
    case False
    then have "skip_equal compare tab beg next = next" by (subst skip_equal.simps) auto
    then show ?thesis using False "1.prems" by (metis le_less less_le_not_le)
  qed
qed

lemma drop_run:
  assumes "a \<le> b" "b \<le> length xs" "\<And>i. a \<le> i \<Longrightarrow> i < b \<Longrightarrow> xs ! i = x"
  shows "drop a xs = replicate (b - a) x @ drop b xs"
  using assms
proof (induction "b - a" arbitrary: a)
  case (Suc m)
  then have "a < length xs" "xs ! a = x" by auto
  moreover have "drop (Suc a) xs = replicate (b - Suc a) x @ drop b xs"
    using Suc.hyps(2) Suc.prems by (intro Suc.hyps(1)) auto
  moreover have "b - a = Suc (b - Suc a)" using Suc.hyps(2) by simp
  ultimately show ?case by (simp add: Cons_nth_drop_Suc [symmetric])
qed simp

lemma remdups_adj_run:
  "remdups_adj (replicate (Suc n) x @ ys) =
     (if ys = [] then [x] else if hd ys = x then remdups_adj ys else x # remdups_adj ys)"
  by (induction n) (cases ys; auto)+

lemma tabuniq_loop_spec:
  assumes "\<And>x y. compare x y = 0 \<longleftrightarrow> x = y"
    and "beg \<le> next" "next < length tab" "tab ! beg = tab ! next" "uniq = beg"
    and "tabuniq_loop compare tab beg next uniq = (n, tab')"
  shows "take n tab' = take beg tab @ remdups_adj (drop next tab) \<and> length tab' = length tab \<and>
         n \<le> length tab'"
  using assms
proof (induction compare tab beg "next" uniq arbitrary: n tab' rule: tabuniq_loop.induct)
  case (1 compare tab beg "next" uniq)
  define m where "m = skip_equal compare tab beg (next + 1)"
  have spec: "m \<le> length tab" "\<And>i. next \<le> i \<Longrightarrow> i < m \<Longrightarrow> tab ! i = tab ! beg"
    "m < length tab \<Longrightarrow> tab ! m \<noteq> tab ! beg"
    using skip_equal_spec [OF "1.prems"(1), of "next + 1" tab beg] "1.prems"(3,4)
    unfolding m_def by (auto, (metis Suc_leI le_neq_implies_less)+)
  have ge: "next < m" using skip_equal_ge [of "next + 1" compare tab beg] by (simp add: m_def)
  have run: "drop next tab = replicate (m - next) (tab ! beg) @ drop m tab"
    using spec ge by (intro drop_run) auto
  obtain k where k: "m - next = Suc k" using ge by (metis Suc_diff_Suc)
  note unfold = tabuniq_loop.simps [of compare tab beg "next" uniq, folded m_def]
  show ?case
  proof (cases "m = length tab")
    case True
    have "remdups_adj (drop next tab) = [tab ! beg]"
      unfolding run k remdups_adj_run using True by simp
    moreover have "tabuniq_loop compare tab beg next uniq = (uniq + 1, tab)"
      using True "1.prems"(3)
      by (simp add: unfold Let_def tabuniq_loop.simps [of compare tab beg "length tab"])
    moreover have "beg < length tab" using "1.prems" by simp
    ultimately show ?thesis
      using "1.prems"(5,6) by (auto simp: take_Suc_conv_app_nth)
  next
    case False
    then have ml: "m < length tab" using spec by simp
    have hd: "hd (drop m tab) = tab ! m" "drop m tab \<noteq> []" using ml by (auto simp: hd_drop_conv_nth)
    have rem: "remdups_adj (drop next tab) = tab ! beg # remdups_adj (drop m tab)"
      unfolding run k remdups_adj_run using hd spec(3) [OF ml] by auto
    show ?thesis
    proof (cases "m - beg = 1")
      case one: True
      then have meq: "m = beg + 1" using ge "1.prems"(2) by simp
      have "take n tab' = take (beg + 1) tab @ remdups_adj (drop m tab) \<and> length tab' = length tab \<and>
          n \<le> length tab'"
      proof (rule "1.IH"(1) [OF "1.prems"(3) m_def False one])
        show "tabuniq_loop compare tab (beg + 1) m (uniq + 1) = (n, tab')"
          using "1.prems"(3,6) False one unfolding unfold by (simp add: Let_def)
      qed (use "1.prems" ml meq in auto)
      then show ?thesis
        unfolding rem using "1.prems"(2,3) by (simp add: take_Suc_conv_app_nth)
    next
      case more: False
      let ?t = "tab[beg + 1 := tab ! m]"
      have bm: "beg + 1 < m" using more ge "1.prems"(2) by simp
      have "take n tab' = take (beg + 1) ?t @ remdups_adj (drop m ?t) \<and> length tab' = length ?t \<and>
          n \<le> length tab'"
      proof (rule "1.IH"(2) [OF "1.prems"(3) m_def False more])
        show "tabuniq_loop compare ?t (beg + 1) m (uniq + 1) = (n, tab')"
          using "1.prems"(3,6) False more unfolding unfold by (simp add: Let_def)
      qed (use "1.prems" ml bm in auto)
      then show ?thesis
        unfolding rem using "1.prems"(2,3) bm by (simp add: take_Suc_conv_app_nth)
    qed
  qed
qed

lemma tabuniq_Nil: "tabuniq compare [] = (0, [])"
  by (simp add: tabuniq_def tabuniq_loop.simps)

end
