(* ===== verification/Picotm_Grow.thy ===== *)
theory Picotm_Grow
  imports Picotm_Table
begin

text \<open>
  Growing tables: what \<open>tabresize\<close> promises to the tables that grow through it, for elements of any
  size.  The block of a table is a list that may be longer than the number of elements in use; its
  length is the allocation size, rounded up to a power of two while memory is not low.
\<close>

abbreviation block_of :: "'e list option \<Rightarrow> 'e list" where
  "block_of b \<equiv> (case b of None \<Rightarrow> [] | Some t \<Rightarrow> t)"

text \<open>
  What the C library promises of \<open>realloc\<close> for elements of \<open>s\<close> bytes: the new block has the requested size
  and starts with the contents of the old one.
\<close>

definition realloc_keeps :: "nat \<Rightarrow> ('e list, 'a) allocator \<Rightarrow> bool" where
  "realloc_keeps s realloc \<longleftrightarrow>
     (\<forall>a b bytes b' en a'. realloc a b bytes = (Some b', en, a') \<longrightarrow>
        unat bytes div s \<le> length b' \<and>
        take (min (length (block_of b)) (unat bytes div s)) b' = take (unat bytes div s) (block_of b))"

text \<open>The block is large enough for a table of the given size.\<close>

definition block_fits :: "bool \<Rightarrow> 'e list option \<Rightarrow> u64 \<Rightarrow> bool" where
  "block_fits lowmem b siz \<longleftrightarrow> unat (if lowmem then siz else rndpow2 siz) \<le> length (block_of b)"

lemma rndpow2_ge: "unat v \<le> 2 ^ 63 \<Longrightarrow> unat v \<le> unat (rndpow2 v)"
  using rndpow2_power [of v] by (cases "unat v = 0") auto

lemma rndpow2_le:
  assumes "unat v \<le> 2 ^ n" and "n \<le> 63" shows "unat (rndpow2 v) \<le> 2 ^ n"
proof (cases "unat v = 0")
  case False
  have "(2::nat) ^ n \<le> 2 ^ 63" using assms(2) by (intro power_increasing) auto
  then obtain k where k: "unat (rndpow2 v) = 2 ^ k" "2 ^ k < 2 * unat v"
    using rndpow2_power [of v] assms(1) False by force
  then have "(2::nat) ^ k < 2 ^ Suc n" using assms(1) by simp
  then have "k < Suc n" by (rule power_less_imp_less_exp [rotated]) simp
  then have "(2::nat) ^ k \<le> 2 ^ n" by (intro power_increasing) auto
  with k show ?thesis by simp
qed (simp add: unat_eq_0 rndpow2_0)

lemma block_fits_mono:
  "block_fits lm b siz \<Longrightarrow> lm' = lm \<or> lm' \<Longrightarrow> unat siz \<le> 2 ^ 63 \<Longrightarrow> block_fits lm' b siz"
  using rndpow2_ge [of siz] by (auto simp: block_fits_def split: if_splits)

lemma block_fits_length: "block_fits lm b siz \<Longrightarrow> unat siz \<le> 2 ^ 63 \<Longrightarrow> unat siz \<le> length (block_of b)"
  using rndpow2_ge [of siz] by (auto simp: block_fits_def split: if_splits)

lemma tabresize_lowmem:
  "tabresize realloc lm a errno b n m siz e = (lm', a', en, mem, e') \<Longrightarrow> lm' = lm \<or> lm'"
  by (auto simp: tabresize_def Let_def split: prod.splits if_splits)

lemma errno_set: "picotm_error_is_set (picotm_error_set_errno e n)"
  by (simp add: picotm_error_is_set_def picotm_error_set_errno_def)

text \<open>Elements of one size, and the number of them up to which sizes in bytes do not wrap around.\<close>

locale element_size =
  fixes s :: u64 and k :: nat
  assumes size_pos: "0 < unat s" and size_bound: "2 ^ k * unat s \<le> 2 ^ 63" and exp_bound: "k \<le> 63"
begin

lemma unat_bytes: "unat v \<le> 2 ^ k \<Longrightarrow> unat (v * s) = unat v * unat s"
proof -
  assume "unat v \<le> 2 ^ k"
  then have "unat v * unat s \<le> 2 ^ 63" using size_bound mult_le_mono1 [of "unat v" "2 ^ k" "unat s"] by linarith
  then show ?thesis by (subst unat_mult_lem [THEN iffD1]) simp_all
qed

lemma realloc_prefix:
  assumes "realloc_keeps (unat s) realloc" and "realloc a b (c * s) = (Some b', en, a')"
    and "unat c \<le> 2 ^ k" and "j \<le> unat c" and "j \<le> length (block_of b)"
  shows "unat c \<le> length b' \<and> take j b' = take j (block_of b)"
proof -
  have c: "unat (c * s) div unat s = unat c" using unat_bytes [OF assms(3)] size_pos by simp
  have "unat c \<le> length b'"
    "take (min (length (block_of b)) (unat c)) b' = take (unat c) (block_of b)"
    using assms(1,2) unfolding realloc_keeps_def by (metis c)+
  moreover have "take j (take (min (length (block_of b)) (unat c)) b') = take j b'"
    using assms(4,5) by (simp add: min_absorb1 min_absorb2)
  moreover have "take j (take (unat c) (block_of b)) = take j (block_of b)"
    using assms(4) by (simp add: min_absorb1)
  ultimately show ?thesis by metis
qed

lemma bound_63: "unat v \<le> 2 ^ k \<Longrightarrow> unat v \<le> 2 ^ 63" for v :: u64
  using power_increasing [OF exp_bound, of "2 :: nat"] by simp

lemma attempt_block:
  assumes "realloc_keeps (unat s) realloc" and "tabresize_attempt realloc lm a b n m s errno = (Some t, en, a')"
    and "unat n \<le> unat m" and "unat m \<le> 2 ^ k" and "block_fits lm b n"
  shows "unat (if lm then m else rndpow2 m) \<le> length t \<and> take (unat n) t = take (unat n) (block_of b)"
proof (cases lm)
  case True
  with assms(2) have "realloc a b (m * s) = (Some t, en, a')" by (simp add: tabresize_attempt_def)
  with True assms(3-5) show ?thesis
    by (auto dest!: realloc_prefix [OF assms(1), where j = "unat n"] simp: block_fits_def)
next
  case False
  have le: "unat n \<le> unat (rndpow2 n)" "unat n \<le> unat (rndpow2 m)"
    using rndpow2_ge [of n] rndpow2_ge [of m] assms(3) bound_63 [OF assms(4)] by simp_all
  show ?thesis
  proof (cases "rndpow2 n = rndpow2 m")
    case True
    with False assms(2) have "b = Some t" by (simp add: tabresize_attempt_def)
    with False True assms(5) show ?thesis by (simp add: block_fits_def)
  next
    case ne: False
    with False assms(2) have "realloc a b (rndpow2 m * s) = (Some t, en, a')"
      by (simp add: tabresize_attempt_def Let_def)
    from realloc_prefix [OF assms(1) this rndpow2_le [OF assms(4) exp_bound] le(2)] False le(1) assms(5)
    show ?thesis by (simp add: block_fits_def)
  qed
qed

text \<open>Growing a table keeps its elements and makes room for the new size.\<close>

theorem tabresize_keeps:
  assumes "realloc_keeps (unat s) realloc"
    and "tabresize realloc lm a errno b n m s e = (lm', a', en, mem, e')"
    and "\<not> picotm_error_is_set e'" and "m \<noteq> 0" and "unat n \<le> unat m" and "unat m \<le> 2 ^ k" and "block_fits lm b n"
  shows "(\<exists>t. mem = Some t) \<and> block_fits lm' mem m \<and>
    take (unat n) (block_of mem) = take (unat n) (block_of b)"
proof -
  obtain mem1 en1 a1 where att: "tabresize_attempt realloc lm a b n m s errno = (mem1, en1, a1)"
    by (rule prod_cases3)
  have low: "block_fits True b n"
    using block_fits_mono [OF assms(7), of True] bound_63 [OF assms(6)] assms(5) by simp
  show ?thesis
  proof (cases mem1)
    case (Some t)
    with att assms(2) have "lm' = lm" "mem = Some t" by (simp_all add: tabresize_def)
    with att Some show ?thesis
      using attempt_block [OF assms(1) _ assms(5-7)] by (simp add: block_fits_def)
  next
    case None
    obtain mem2 en2 a2 where att2: "tabresize_attempt realloc True a1 b n m s en1 = (mem2, en2, a2)"
      by (rule prod_cases3)
    from None att att2 assms(2,3,4) obtain t where "lm' = True" "mem = Some t" "mem2 = Some t"
      by (cases mem2) (auto simp: tabresize_def errno_set split: if_splits)
    with att2 show ?thesis
      using attempt_block [OF assms(1) _ assms(5,6) low] by (simp add: block_fits_def)
  qed
qed

end

end
