(* ===== verification/Picotm_Log.thy ===== *)
theory Picotm_Log
  imports Picotm_Grow
begin

text \<open>
  Events and the event log of a transaction (\<open>src/picotm_event.c\<close>, \<open>src/picotm_log.c\<close>).  The table of
  events is the block that \<open>tabresize\<close> last returned: a list that may be longer than the number of
  entries in use.  The state of the allocator, \<open>errno\<close> and the static flag \<open>s_lowmem\<close> are the record
  \<open>heap_env\<close>.
\<close>

record picotm_event =
  ev_module :: u16
  ev_head :: u16
  ev_tail :: u64

definition PICOTM_EVENT_INITIALIZER :: "u64 \<Rightarrow> u16 \<Rightarrow> u64 \<Rightarrow> picotm_event" where
  "PICOTM_EVENT_INITIALIZER module head tail =
     \<lparr>ev_module = ucast module, ev_head = head, ev_tail = tail\<rparr>"

record 'a heap_env =
  he_alloc :: 'a
  he_errno :: int
  he_lowmem :: bool

record picotm_log =
  eventtab :: "picotm_event list option"
  eventtablen :: u64
  eventtabsiz :: u64

definition sizeof_picotm_event :: u64 where "sizeof_picotm_event = 16"

definition picotm_log_init :: picotm_log where
  "picotm_log_init = \<lparr>eventtab = None, eventtablen = 0, eventtabsiz = 0\<rparr>"

definition picotm_log_clear :: "picotm_log \<Rightarrow> picotm_log" where
  "picotm_log_clear self = self\<lparr>eventtablen := 0\<rparr>"

definition picotm_log_end_alloc ::
  "(picotm_event list, 'a) allocator \<Rightarrow> picotm_log \<Rightarrow> 'a heap_env \<Rightarrow> picotm_error \<Rightarrow>
   picotm_log \<times> 'a heap_env \<times> picotm_error"
where
  "picotm_log_end_alloc realloc self env error =
     (let neweventtabsiz = eventtablen self + 1 in
      if neweventtabsiz \<le> eventtabsiz self then (self, env, error)
      else
        (let (lowmem, a, errno, tmp, error) =
               tabresize realloc (he_lowmem env) (he_alloc env) (he_errno env) (eventtab self)
                 (eventtabsiz self) neweventtabsiz sizeof_picotm_event error;
             env = \<lparr>he_alloc = a, he_errno = errno, he_lowmem = lowmem\<rparr>
         in if picotm_error_is_set error then (self, env, error)
            else (self\<lparr>eventtab := tmp, eventtabsiz := neweventtabsiz\<rparr>, env, error)))"

definition picotm_log_end_seal :: "picotm_log \<Rightarrow> picotm_log" where
  "picotm_log_end_seal self = self\<lparr>eventtablen := eventtablen self + 1\<rparr>"

definition picotm_log_append ::
  "(picotm_event list, 'a) allocator \<Rightarrow> picotm_log \<Rightarrow> picotm_event \<Rightarrow> 'a heap_env \<Rightarrow> picotm_error \<Rightarrow>
   picotm_log \<times> 'a heap_env \<times> picotm_error"
where
  "picotm_log_append realloc self event env error =
     (let (self, env, error) = picotm_log_end_alloc realloc self env error in
      if picotm_error_is_set error then (self, env, error)
      else
        (let self = self\<lparr>eventtab :=
               map_option (\<lambda>tab. tab[unat (eventtablen self) := event]) (eventtab self)\<rparr>
         in (picotm_log_end_seal self, env, error)))"

text \<open>The events in use, from \<open>picotm_log_begin\<close> to \<open>picotm_log_end\<close>.\<close>

definition log_events :: "picotm_log \<Rightarrow> picotm_event list" where
  "log_events self = take (unat (eventtablen self)) (case eventtab self of None \<Rightarrow> [] | Some t \<Rightarrow> t)"

subsection \<open>Appending keeps the events\<close>

text \<open>
  What the C library promises of \<open>realloc\<close>: the new block has the requested size and starts with
  the contents of the old one.
\<close>

definition realloc_ok :: "(picotm_event list, 'a) allocator \<Rightarrow> bool" where
  "realloc_ok realloc \<longleftrightarrow>
     (\<forall>a b bytes b' en a'. realloc a b bytes = (Some b', en, a') \<longrightarrow>
        unat bytes div 16 \<le> length b' \<and>
        take (min (length (case b of None \<Rightarrow> [] | Some t \<Rightarrow> t)) (unat bytes div 16)) b' =
        take (unat bytes div 16) (case b of None \<Rightarrow> [] | Some t \<Rightarrow> t))"

text \<open>
  The block is as long as the allocation size says, rounded up to a power of two while memory is
  not low.
\<close>

definition log_ok :: "bool \<Rightarrow> picotm_log \<Rightarrow> bool" where
  "log_ok lowmem self \<longleftrightarrow>
     eventtablen self \<le> eventtabsiz self \<and> unat (eventtabsiz self) \<le> 2 ^ 59 \<and>
     unat (if lowmem then eventtabsiz self else rndpow2 (eventtabsiz self)) \<le>
       length (case eventtab self of None \<Rightarrow> [] | Some t \<Rightarrow> t)"

lemma log_ok_init: "log_ok lowmem picotm_log_init"
  by (simp add: log_ok_def picotm_log_init_def rndpow2_0)

lemma log_ok_clear: "log_ok lowmem self \<Longrightarrow> log_ok lowmem (picotm_log_clear self)"
  by (auto simp: log_ok_def picotm_log_clear_def)

lemma log_events_clear [simp]: "log_events (picotm_log_clear self) = []"
  by (simp add: log_events_def picotm_log_clear_def)

text \<open>Events have 16 bytes, so that up to \<open>2 ^ 59\<close> of them have a size that does not wrap around.\<close>

interpretation event_size: element_size 16 59
  by unfold_locales simp_all

lemma realloc_ok_keeps: "realloc_ok realloc = realloc_keeps 16 realloc"
  by (simp add: realloc_ok_def realloc_keeps_def)

lemma tabresize_block:
  assumes "realloc_ok realloc"
    and "tabresize realloc lm a errno b n m 16 e = (lm', a', en, mem, e')"
    and "\<not> picotm_error_is_set e'" and "m \<noteq> 0" and "unat n \<le> unat m" and "unat m \<le> 2 ^ 59"
    and "unat (if lm then n else rndpow2 n) \<le> length (block_of b)"
  shows "(\<exists>t. mem = Some t) \<and> unat (if lm' then m else rndpow2 m) \<le> length (block_of mem) \<and>
    take (unat n) (block_of mem) = take (unat n) (block_of b)"
  using event_size.tabresize_keeps [of realloc lm a errno b n m e lm' a' en mem e'] assms
  by (simp add: realloc_ok_keeps block_fits_def)

lemma unat_plus_one_59: "unat v < 2 ^ 59 \<Longrightarrow> unat (v + 1) = unat v + 1" for v :: u64
  by (simp add: unat_word_ariths)

lemma log_ok_lowmem: "log_ok lm self \<Longrightarrow> lm' = lm \<or> lm' \<Longrightarrow> log_ok lm' self"
  using rndpow2_ge [of "eventtabsiz self"] by (auto simp: log_ok_def split: if_splits)

lemma log_end_alloc:
  assumes "picotm_log_end_alloc realloc self env e = (self', env', e')" and "realloc_ok realloc"
    and "log_ok (he_lowmem env) self" and "\<not> picotm_error_is_set e"
    and "unat (eventtablen self) < 2 ^ 59"
  shows "log_ok (he_lowmem env') self' \<and> log_events self' = log_events self \<and>
    eventtablen self' = eventtablen self \<and>
    (\<not> picotm_error_is_set e' \<longrightarrow> (\<exists>t. eventtab self' = Some t \<and> unat (eventtablen self) < length t) \<and>
       eventtablen self' + 1 \<le> eventtabsiz self')"
proof (cases "eventtablen self + 1 \<le> eventtabsiz self")
  case True
  then have same: "self' = self" "env' = env" "e' = e"
    using assms(1) by (simp_all add: picotm_log_end_alloc_def)
  have "unat (eventtablen self) + 1 \<le> unat (eventtabsiz self)"
    using True unat_plus_one_59 [OF assms(5)] by (simp only: word_le_nat_alt)
  moreover have "unat (eventtabsiz self) \<le> length (block_of (eventtab self))"
    using log_ok_lowmem [OF assms(3), of True] by (simp add: log_ok_def)
  ultimately have "\<exists>t. eventtab self = Some t \<and> unat (eventtablen self) < length t"
    by (cases "eventtab self") auto
  with same True assms(3) show ?thesis by simp
next
  case False
  define m where "m = eventtablen self + 1"
  have m: "unat m = unat (eventtablen self) + 1"
    unfolding m_def by (rule unat_plus_one_59 [OF assms(5)])
  have len: "eventtabsiz self = eventtablen self"
    using False m assms(3) by (auto simp: m_def [symmetric] log_ok_def word_le_nat_alt word_unat_eq_iff)
  obtain lm a en mem e1 where res: "tabresize realloc (he_lowmem env) (he_alloc env) (he_errno env)
      (eventtab self) (eventtabsiz self) m 16 e = (lm, a, en, mem, e1)"
    by (rule prod_cases5)
  have env': "he_lowmem env' = lm" "e' = e1"
    "self' = (if picotm_error_is_set e1 then self else self\<lparr>eventtab := mem, eventtabsiz := m\<rparr>)"
    using assms(1) False res
    by (auto simp: picotm_log_end_alloc_def m_def sizeof_picotm_event_def Let_def split: if_splits)
  show ?thesis
  proof (cases "picotm_error_is_set e1")
    case True
    with env' log_ok_lowmem [OF assms(3) tabresize_lowmem [OF res]] show ?thesis by simp
  next
    case ok: False
    have "m \<noteq> 0" using m by auto
    then have blk: "(\<exists>t. mem = Some t)" "unat (if lm then m else rndpow2 m) \<le> length (block_of mem)"
      "take (unat (eventtabsiz self)) (block_of mem) =
        take (unat (eventtabsiz self)) (block_of (eventtab self))"
      using tabresize_block [OF assms(2) res ok] m assms(3,5) len by (auto simp: log_ok_def)
    have "unat m \<le> length (block_of mem)"
      using blk(2) rndpow2_ge [of m] m assms(5) by (simp split: if_splits)
    with blk env' ok m len assms(5) show ?thesis
      by (auto simp: log_ok_def log_events_def word_le_nat_alt m_def [symmetric])
  qed
qed

theorem log_append_events:
  assumes "picotm_log_append realloc self ev env e = (self', env', e')" and "realloc_ok realloc"
    and "log_ok (he_lowmem env) self" and "\<not> picotm_error_is_set e"
    and "unat (eventtablen self) < 2 ^ 59"
  shows "log_ok (he_lowmem env') self' \<and>
    log_events self' = (if picotm_error_is_set e' then log_events self else log_events self @ [ev])"
proof -
  obtain self1 env1 e1 where alloc: "picotm_log_end_alloc realloc self env e = (self1, env1, e1)"
    by (rule prod_cases3)
  note spec = log_end_alloc [OF alloc assms(2-5)]
  show ?thesis
  proof (cases "picotm_error_is_set e1")
    case True
    with alloc assms(1) spec show ?thesis by (auto simp: picotm_log_append_def)
  next
    case False
    then obtain t where t: "eventtab self1 = Some t" "unat (eventtablen self1) < length t"
      using spec by auto
    have eqs: "env' = env1" "e' = e1" "self' = self1\<lparr>
        eventtab := Some (t[unat (eventtablen self1) := ev]), eventtablen := eventtablen self1 + 1\<rparr>"
      using assms(1) alloc False t(1) by (simp_all add: picotm_log_append_def picotm_log_end_seal_def)
    have len: "unat (eventtablen self1 + 1) = Suc (unat (eventtablen self1))"
      using spec unat_plus_one_59 [OF assms(5)] by simp
    have "log_events self' = log_events self1 @ [ev]"
      using t by (simp add: eqs log_events_def len take_Suc_conv_app_nth)
    with False spec t eqs show ?thesis by (auto simp: log_ok_def)
  qed
qed

text \<open>An allocator that copies the old block, for the witnesses of the properties.\<close>

definition empty_event :: picotm_event where
  "empty_event = \<lparr>ev_module = 0, ev_head = 0, ev_tail = 0\<rparr>"

definition copy_realloc :: "(picotm_event list, unit) allocator" where
  "copy_realloc a b bytes =
     (let n = unat bytes div 16; old = block_of b
      in (Some (take n old @ replicate (n - length old) empty_event), 0, ()))"

lemma copy_realloc_ok: "realloc_ok copy_realloc"
  by (auto simp: realloc_ok_def copy_realloc_def Let_def min_def split: option.splits)

end
