(* ===== verification/Picotm_Timespec.thy ===== *)
theory Picotm_Timespec
  imports Picotm_Error
begin

text \<open>
  Time arithmetic of the lock manager (\<open>src/picotm_os_timespec.c\<close>).  \<open>tv_sec\<close> and \<open>tv_nsec\<close> are
  signed C integers, modelled as \<open>int\<close>; the comparison converts them to \<open>unsigned long long\<close>.
\<close>

record timespec =
  tv_sec :: int
  tv_nsec :: int

definition MAX_NSEC :: int where "MAX_NSEC = 999999999"

text \<open>\<open>clock_gettime\<close> is a library call: its result and \<open>errno\<close> are an argument.\<close>

definition picotm_os_get_timespec :: "int \<times> timespec \<times> int \<Rightarrow> timespec \<Rightarrow> picotm_error \<Rightarrow> timespec \<times> picotm_error"
where
  "picotm_os_get_timespec clock self error =
     (case clock of (res, now, errno) \<Rightarrow>
        if res < 0 then (self, picotm_error_set_errno error errno) else (now, error))"

definition picotm_os_add_timespec :: "timespec \<Rightarrow> timespec \<Rightarrow> timespec" where
  "picotm_os_add_timespec lhs rhs =
     (let carry = (if MAX_NSEC - tv_nsec rhs < tv_nsec lhs then 1 else 0) :: int;
          lhs = lhs\<lparr>tv_sec := tv_sec lhs + (tv_sec rhs + carry)\<rparr>;
          lhs = lhs\<lparr>tv_nsec := tv_nsec lhs + tv_nsec rhs\<rparr>
      in lhs\<lparr>tv_nsec := tv_nsec lhs - (MAX_NSEC + 1) * (if carry \<noteq> 0 then 1 else 0)\<rparr>)"

definition picotm_os_sub_timespec :: "timespec \<Rightarrow> timespec \<Rightarrow> timespec" where
  "picotm_os_sub_timespec lhs rhs =
     (let carry = (if tv_nsec rhs > tv_nsec lhs then 1 else 0) :: int;
          lhs = lhs\<lparr>tv_sec := tv_sec lhs - (tv_sec rhs - carry)\<rparr>;
          lhs = lhs\<lparr>tv_nsec := tv_nsec lhs - tv_nsec rhs\<rparr>
      in lhs\<lparr>tv_nsec := tv_nsec lhs + (MAX_NSEC + 1) * (if carry \<noteq> 0 then 1 else 0)\<rparr>)"

definition ulonglong_cmp :: "u64 \<Rightarrow> u64 \<Rightarrow> int" where
  "ulonglong_cmp lhs rhs = (if lhs > rhs then 1 else 0) - (if lhs < rhs then 1 else 0)"

definition picotm_os_timespec_compare :: "timespec \<Rightarrow> timespec \<Rightarrow> int" where
  "picotm_os_timespec_compare lhs rhs =
     (let cmp = ulonglong_cmp (word_of_int (tv_sec lhs)) (word_of_int (tv_sec rhs)) in
      if cmp \<noteq> 0 then cmp
      else ulonglong_cmp (word_of_int (tv_nsec lhs)) (word_of_int (tv_nsec rhs)))"

text \<open>
  The normal form of a time value, and the number of nanoseconds it stands for: the specification
  against which the arithmetic is judged.
\<close>

definition timespec_normal :: "timespec \<Rightarrow> bool" where
  "timespec_normal t \<longleftrightarrow> 0 \<le> tv_nsec t \<and> tv_nsec t \<le> MAX_NSEC"

definition nanoseconds :: "timespec \<Rightarrow> int" where
  "nanoseconds t = tv_sec t * (MAX_NSEC + 1) + tv_nsec t"

lemma add_timespec_nanoseconds:
  assumes "timespec_normal lhs" and "timespec_normal rhs"
  shows "timespec_normal (picotm_os_add_timespec lhs rhs)"
    and "nanoseconds (picotm_os_add_timespec lhs rhs) = nanoseconds lhs + nanoseconds rhs"
  using assms
  by (auto simp: timespec_normal_def nanoseconds_def picotm_os_add_timespec_def MAX_NSEC_def Let_def
        algebra_simps)

lemma sub_timespec_nanoseconds:
  assumes "timespec_normal lhs" and "timespec_normal rhs"
  shows "timespec_normal (picotm_os_sub_timespec lhs rhs)"
    and "nanoseconds (picotm_os_sub_timespec lhs rhs) = nanoseconds lhs - nanoseconds rhs +
           (if tv_nsec rhs > tv_nsec lhs then 2 * (MAX_NSEC + 1) else 0)"
  using assms
  by (auto simp: timespec_normal_def nanoseconds_def picotm_os_sub_timespec_def MAX_NSEC_def Let_def
        algebra_simps)

lemma ulonglong_cmp_sign:
  assumes "0 \<le> a" "a < 2 ^ 63" "0 \<le> b" "b < 2 ^ 63"
  shows "ulonglong_cmp (word_of_int a) (word_of_int b) = sgn (a - b)"
  using assms by (auto simp: ulonglong_cmp_def word_less_def uint_word_of_int take_bit_eq_mod sgn_if)

lemma timespec_compare_nanoseconds:
  assumes "timespec_normal lhs" "timespec_normal rhs"
    and "0 \<le> tv_sec lhs" "tv_sec lhs < 2 ^ 63" "0 \<le> tv_sec rhs" "tv_sec rhs < 2 ^ 63"
  shows "picotm_os_timespec_compare lhs rhs = sgn (nanoseconds lhs - nanoseconds rhs)"
proof -
  have ns: "ulonglong_cmp (word_of_int (tv_nsec lhs)) (word_of_int (tv_nsec rhs)) =
      sgn (tv_nsec lhs - tv_nsec rhs)"
    using assms(1,2) by (intro ulonglong_cmp_sign) (auto simp: timespec_normal_def MAX_NSEC_def)
  have sec: "ulonglong_cmp (word_of_int (tv_sec lhs)) (word_of_int (tv_sec rhs)) =
      sgn (tv_sec lhs - tv_sec rhs)"
    using assms(3-) by (intro ulonglong_cmp_sign) auto
  show ?thesis
    using assms(1,2) unfolding picotm_os_timespec_compare_def ns sec
    by (auto simp: timespec_normal_def nanoseconds_def MAX_NSEC_def sgn_if)
qed

end
