(* ===== verification/Picotm_Lock_Owner.thy ===== *)
theory Picotm_Lock_Owner
  imports Picotm_Timespec
begin

text \<open>
  Lock owners (\<open>src/picotm_lock_owner.c\<close>): one per transaction.  The word \<open>flags\<close> packs the owner's
  index in bits 0 to 9, the index of the next waiter in bits 10 to 19 and the three flags WT
  (waiting), RD and WR.  The mutex and the condition variable come from the operating system; the
  functions here act on the owner's own fields, and the lock manager keeps track of the mutexes.
\<close>

record picotm_lock_owner =
  lo_flags :: u64
  lo_next :: "pointer option"
  lo_timestamp :: timespec

definition LOCK_OWNER_WT :: u64 where "LOCK_OWNER_WT = push_bit 29 1"
definition LOCK_OWNER_RD :: u64 where "LOCK_OWNER_RD = push_bit 30 1"
definition LOCK_OWNER_WR :: u64 where "LOCK_OWNER_WR = push_bit 31 1"

text \<open>The fields that \<open>picotm_lock_owner_init\<close> sets once its mutex and condition exist.\<close>

definition lock_owner_clear :: "picotm_lock_owner \<Rightarrow> picotm_lock_owner" where
  "lock_owner_clear self = self\<lparr>lo_flags := 0, lo_next := None\<rparr>"

definition picotm_lock_owner_set_index :: "picotm_lock_owner \<Rightarrow> u64 \<Rightarrow> picotm_lock_owner" where
  "picotm_lock_owner_set_index self index =
     self\<lparr>lo_flags := (lo_flags self AND NOT 0x3ff) OR (index AND 0x3ff)\<rparr>"

definition picotm_lock_owner_get_index :: "picotm_lock_owner \<Rightarrow> u64" where
  "picotm_lock_owner_get_index self = lo_flags self AND 0x3ff"

definition picotm_lock_owner_set_next :: "picotm_lock_owner \<Rightarrow> u64 \<Rightarrow> picotm_lock_owner" where
  "picotm_lock_owner_set_next self nxt =
     self\<lparr>lo_flags := (lo_flags self AND NOT 0xffc00) OR push_bit 10 (nxt AND 0x3ff)\<rparr>"

definition picotm_lock_owner_get_next :: "picotm_lock_owner \<Rightarrow> u64" where
  "picotm_lock_owner_get_next self = drop_bit 10 (lo_flags self) AND 0x3ff"

definition picotm_lock_owner_get_timestamp :: "picotm_lock_owner \<Rightarrow> timespec" where
  "picotm_lock_owner_get_timestamp self = lo_timestamp self"

definition picotm_lock_owner_reset_timestamp ::
  "int \<times> timespec \<times> int \<Rightarrow> picotm_lock_owner \<Rightarrow> picotm_error \<Rightarrow> picotm_lock_owner \<times> picotm_error"
where
  "picotm_lock_owner_reset_timestamp clock self error =
     (case picotm_os_get_timespec clock (lo_timestamp self) error of (t, error') \<Rightarrow>
        (self\<lparr>lo_timestamp := t\<rparr>, error'))"

definition owner_has :: "u64 \<Rightarrow> picotm_lock_owner \<Rightarrow> bool" where
  "owner_has flag lo \<longleftrightarrow> lo_flags lo AND flag \<noteq> 0"

definition owner_set :: "u64 \<Rightarrow> picotm_lock_owner \<Rightarrow> picotm_lock_owner" where
  "owner_set flag lo = lo\<lparr>lo_flags := lo_flags lo OR flag\<rparr>"

definition owner_clear :: "u64 \<Rightarrow> picotm_lock_owner \<Rightarrow> picotm_lock_owner" where
  "owner_clear flag lo = lo\<lparr>lo_flags := lo_flags lo AND NOT flag\<rparr>"

subsection \<open>The bit fields do not overlap\<close>

lemma index_mask: "(0x3ff :: u64) = mask 10"
  by (simp add: mask_eq_exp_minus_1)

lemma next_mask: "(0xffc00 :: u64) = push_bit 10 (mask 10)"
  by (simp add: mask_eq_exp_minus_1 push_bit_eq_mult)

lemma bit_owner_fields:
  "bit (lo_flags (picotm_lock_owner_set_index lo i)) j \<longleftrightarrow>
     (if j < 10 then bit i j else bit (lo_flags lo) j)"
  "bit (lo_flags (picotm_lock_owner_set_next lo i)) j \<longleftrightarrow>
     (if 10 \<le> j \<and> j < 20 then bit i (j - 10) else bit (lo_flags lo) j)"
  "bit (picotm_lock_owner_get_index lo) j \<longleftrightarrow> j < 10 \<and> bit (lo_flags lo) j"
  "bit (picotm_lock_owner_get_next lo) j \<longleftrightarrow> j < 10 \<and> bit (lo_flags lo) (10 + j)"
  unfolding picotm_lock_owner_set_index_def picotm_lock_owner_set_next_def
    picotm_lock_owner_get_index_def picotm_lock_owner_get_next_def index_mask next_mask
  by (auto simp: bit_simps dest: bit_imp_le_length)

lemma owner_has_bit:
  "owner_has LOCK_OWNER_WT lo \<longleftrightarrow> bit (lo_flags lo) 29"
  "owner_has LOCK_OWNER_RD lo \<longleftrightarrow> bit (lo_flags lo) 30"
  "owner_has LOCK_OWNER_WR lo \<longleftrightarrow> bit (lo_flags lo) 31"
proof -
  have *: "w AND push_bit k 1 \<noteq> 0 \<longleftrightarrow> bit w k" if "k < 64" for w :: u64 and k
  proof -
    have "bit (w AND push_bit k 1) j \<longleftrightarrow> j = k \<and> bit w k" for j
      using that by (auto simp: bit_and_iff bit_push_bit_iff bit_1_iff bit_exp_iff dest: bit_imp_le_length)
    then show ?thesis using that unfolding bit_eq_iff [of _ 0] by auto
  qed
  show "owner_has LOCK_OWNER_WT lo \<longleftrightarrow> bit (lo_flags lo) 29"
    "owner_has LOCK_OWNER_RD lo \<longleftrightarrow> bit (lo_flags lo) 30"
    "owner_has LOCK_OWNER_WR lo \<longleftrightarrow> bit (lo_flags lo) 31"
    unfolding owner_has_def LOCK_OWNER_WT_def LOCK_OWNER_RD_def LOCK_OWNER_WR_def
    by (rule *; simp)+
qed

lemma bit_owner_clear:
  "bit (lo_flags (owner_clear LOCK_OWNER_WT lo)) j \<longleftrightarrow> j \<noteq> 29 \<and> bit (lo_flags lo) j"
  "bit (lo_flags (owner_clear LOCK_OWNER_RD lo)) j \<longleftrightarrow> j \<noteq> 30 \<and> bit (lo_flags lo) j"
  "bit (lo_flags (owner_clear LOCK_OWNER_WR lo)) j \<longleftrightarrow> j \<noteq> 31 \<and> bit (lo_flags lo) j"
proof -
  have *: "bit (w AND NOT (push_bit k 1)) j \<longleftrightarrow> j \<noteq> k \<and> bit w j" for w :: u64 and k
    by (auto simp: bit_and_iff bit_not_iff bit_push_bit_iff bit_1_iff bit_exp_iff dest: bit_imp_le_length)
  have flags: "lo_flags (owner_clear f lo) = lo_flags lo AND NOT f" for f
    by (simp add: owner_clear_def)
  show "bit (lo_flags (owner_clear LOCK_OWNER_WT lo)) j \<longleftrightarrow> j \<noteq> 29 \<and> bit (lo_flags lo) j"
    "bit (lo_flags (owner_clear LOCK_OWNER_RD lo)) j \<longleftrightarrow> j \<noteq> 30 \<and> bit (lo_flags lo) j"
    "bit (lo_flags (owner_clear LOCK_OWNER_WR lo)) j \<longleftrightarrow> j \<noteq> 31 \<and> bit (lo_flags lo) j"
    unfolding flags LOCK_OWNER_WT_def LOCK_OWNER_RD_def LOCK_OWNER_WR_def by (rule *)+
qed

lemma owner_clear_has [simp]:
  "\<not> owner_has LOCK_OWNER_WT (owner_clear LOCK_OWNER_WT lo)"
  "owner_has LOCK_OWNER_RD (owner_clear LOCK_OWNER_WT lo) = owner_has LOCK_OWNER_RD lo"
  "owner_has LOCK_OWNER_WR (owner_clear LOCK_OWNER_WT lo) = owner_has LOCK_OWNER_WR lo"
  "lo_next (owner_clear f lo) = lo_next lo" "lo_timestamp (owner_clear f lo) = lo_timestamp lo"
  by (simp_all add: owner_has_bit bit_owner_clear) (simp_all add: owner_clear_def)

lemma unat_get_index_set_index:
  "unat (picotm_lock_owner_get_index (picotm_lock_owner_set_index lo i)) = unat i mod 1024"
proof -
  have "picotm_lock_owner_get_index (picotm_lock_owner_set_index lo i) = take_bit 10 i"
    by (rule bit_word_eqI) (auto simp: bit_owner_fields bit_take_bit_iff)
  then have "unat (picotm_lock_owner_get_index (picotm_lock_owner_set_index lo i)) = take_bit 10 (unat i)"
    by (simp only: unsigned_take_bit_eq)
  then show ?thesis by (simp add: take_bit_eq_mod)
qed

lemma get_next_set_next:
  "unat (picotm_lock_owner_get_next (picotm_lock_owner_set_next lo i)) = unat i mod 1024"
proof -
  have "picotm_lock_owner_get_next (picotm_lock_owner_set_next lo i) = take_bit 10 i"
    by (rule bit_word_eqI) (auto simp: bit_owner_fields bit_take_bit_iff)
  then have "unat (picotm_lock_owner_get_next (picotm_lock_owner_set_next lo i)) = take_bit 10 (unat i)"
    by (simp only: unsigned_take_bit_eq)
  then show ?thesis by (simp add: take_bit_eq_mod)
qed

lemma owner_fields_independent:
  "picotm_lock_owner_get_next (picotm_lock_owner_set_index lo i) = picotm_lock_owner_get_next lo"
  "picotm_lock_owner_get_index (picotm_lock_owner_set_next lo i) = picotm_lock_owner_get_index lo"
  "owner_has LOCK_OWNER_WT (picotm_lock_owner_set_next lo i) = owner_has LOCK_OWNER_WT lo"
  "owner_has LOCK_OWNER_RD (picotm_lock_owner_set_next lo i) = owner_has LOCK_OWNER_RD lo"
  "owner_has LOCK_OWNER_WR (picotm_lock_owner_set_next lo i) = owner_has LOCK_OWNER_WR lo"
  by (auto simp: owner_has_bit bit_owner_fields intro!: bit_word_eqI)

lemma bit_flag: "bit (push_bit k 1 :: u64) j \<Longrightarrow> j = k"
  by (auto simp: bit_push_bit_iff bit_1_iff bit_exp_iff)

lemma high_flag_fields:
  assumes "20 \<le> k"
  shows "picotm_lock_owner_get_index (owner_set (push_bit k 1) lo) = picotm_lock_owner_get_index lo"
    and "picotm_lock_owner_get_index (owner_clear (push_bit k 1) lo) = picotm_lock_owner_get_index lo"
    and "picotm_lock_owner_get_next (owner_set (push_bit k 1) lo) = picotm_lock_owner_get_next lo"
    and "picotm_lock_owner_get_next (owner_clear (push_bit k 1) lo) = picotm_lock_owner_get_next lo"
proof -
  have bit: "\<not> bit (push_bit k 1 :: u64) j" if "j < 20" for j
    using assms that bit_flag [of k j] by auto
  have "bit (lo_flags (owner_set (push_bit k 1) lo)) j = bit (lo_flags lo) j"
    "bit (lo_flags (owner_clear (push_bit k 1) lo)) j = bit (lo_flags lo) j" if "j < 20" for j
    using bit [OF that] bit_imp_le_length [of "lo_flags lo" j]
    by (auto simp: owner_set_def owner_clear_def bit_or_iff bit_and_iff bit_not_iff)
  then show "picotm_lock_owner_get_index (owner_set (push_bit k 1) lo) = picotm_lock_owner_get_index lo"
    "picotm_lock_owner_get_index (owner_clear (push_bit k 1) lo) = picotm_lock_owner_get_index lo"
    "picotm_lock_owner_get_next (owner_set (push_bit k 1) lo) = picotm_lock_owner_get_next lo"
    "picotm_lock_owner_get_next (owner_clear (push_bit k 1) lo) = picotm_lock_owner_get_next lo"
    by (auto intro!: bit_word_eqI simp: bit_owner_fields)
qed

lemma owner_flag_fields [lock_simps]:
  assumes "flag \<in> {LOCK_OWNER_WT, LOCK_OWNER_RD, LOCK_OWNER_WR}"
  shows "picotm_lock_owner_get_index (owner_set flag lo) = picotm_lock_owner_get_index lo"
    and "picotm_lock_owner_get_index (owner_clear flag lo) = picotm_lock_owner_get_index lo"
    and "picotm_lock_owner_get_next (owner_set flag lo) = picotm_lock_owner_get_next lo"
    and "picotm_lock_owner_get_next (owner_clear flag lo) = picotm_lock_owner_get_next lo"
proof -
  obtain k where "flag = push_bit k 1" "20 \<le> k"
    using assms by (auto simp only: insert_iff empty_iff LOCK_OWNER_WT_def LOCK_OWNER_RD_def
        LOCK_OWNER_WR_def intro: that)
  then show "picotm_lock_owner_get_index (owner_set flag lo) = picotm_lock_owner_get_index lo"
    "picotm_lock_owner_get_index (owner_clear flag lo) = picotm_lock_owner_get_index lo"
    "picotm_lock_owner_get_next (owner_set flag lo) = picotm_lock_owner_get_next lo"
    "picotm_lock_owner_get_next (owner_clear flag lo) = picotm_lock_owner_get_next lo"
    by (simp_all only: high_flag_fields)
qed

lemma get_index_bound: "unat (picotm_lock_owner_get_index lo) < 1024"
proof -
  have "picotm_lock_owner_get_index lo = take_bit 10 (lo_flags lo)"
    by (rule bit_word_eqI) (auto simp: bit_owner_fields bit_take_bit_iff)
  then have "unat (picotm_lock_owner_get_index lo) = take_bit 10 (unat (lo_flags lo))"
    by (simp only: unsigned_take_bit_eq)
  then show ?thesis by (simp add: take_bit_eq_mod)
qed

end
