(* ===== verification/Picotm_Rwlock.thy ===== *)
theory Picotm_Rwlock
  imports Picotm_Error
begin

text \<open>
  The reader/writer lock (\<open>src/picotm-lib-rwlock.c\<close>).  A lock is one atomic byte: the low four bits
  count the readers, with 15 standing for a writer, and the high four bits hold the index of the
  first waiting lock owner, with 0 standing for none.

  Every loop of the code works on a local copy \<open>n\<close> of the byte and ends with a compare-and-exchange.
  One turn of a loop is a function of \<open>n\<close> and of the byte that the compare-and-exchange finds in
  memory; other threads may change the byte between two turns.  The theory \<open>Picotm_Rwlock_Conc\<close> runs
  these turns interleaved; the functions of this theory run them without interference.
\<close>

subsection \<open>The two fields of the lock byte\<close>

definition INDEX_BIT_SHIFT :: nat where "INDEX_BIT_SHIFT = 4"

definition COUNTER_BIT_MASK :: u64 where "COUNTER_BIT_MASK = push_bit INDEX_BIT_SHIFT 1 - 1"

definition INDEX_BIT_MASK :: u8 where "INDEX_BIT_MASK = NOT (ucast COUNTER_BIT_MASK)"

definition WRITER_COUNTER :: u8 where "WRITER_COUNTER = ucast COUNTER_BIT_MASK"

definition rw_counter_bits :: "u64 \<Rightarrow> u8" where
  "rw_counter_bits value = ucast (value AND COUNTER_BIT_MASK)"

definition rw_counter :: "u8 \<Rightarrow> u64" where
  "rw_counter n = ucast n AND COUNTER_BIT_MASK"

definition rw_index_bits :: "u64 \<Rightarrow> u8" where
  "rw_index_bits value = ucast (push_bit INDEX_BIT_SHIFT value AND ucast INDEX_BIT_MASK)"

definition rw_index :: "u8 \<Rightarrow> u8" where
  "rw_index n = drop_bit INDEX_BIT_SHIFT (n AND INDEX_BIT_MASK)"

lemma COUNTER_BIT_MASK_mask: "COUNTER_BIT_MASK = mask 4"
  by (simp add: COUNTER_BIT_MASK_def INDEX_BIT_SHIFT_def mask_eq_exp_minus_1 push_bit_eq_mult)

lemma WRITER_COUNTER_15 [lock_simps]: "WRITER_COUNTER = 15"
  by (simp add: WRITER_COUNTER_def COUNTER_BIT_MASK_def INDEX_BIT_SHIFT_def)

lemma INDEX_BIT_MASK_push: "INDEX_BIT_MASK = push_bit 4 (mask 4)"
  by (simp add: INDEX_BIT_MASK_def COUNTER_BIT_MASK_def INDEX_BIT_SHIFT_def mask_eq_exp_minus_1)

lemma unat_rw_counter [lock_simps]: "unat (rw_counter n) = unat n mod 16"
proof -
  have "rw_counter n = take_bit 4 (ucast n)"
    by (simp add: rw_counter_def COUNTER_BIT_MASK_mask take_bit_eq_mask)
  then have "unat (rw_counter n) = take_bit 4 (unat (ucast n :: u64))"
    by (simp only: unsigned_take_bit_eq)
  also have "unat (ucast n :: u64) = unat n"
    by (simp add: unsigned_ucast_eq take_bit_nat_eq_self_iff order_less_le_trans [OF unsigned_less])
  finally show ?thesis by (simp add: take_bit_eq_mod)
qed

lemma unat_rw_counter_bits [lock_simps]: "unat (rw_counter_bits v) = unat v mod 16"
proof -
  have "rw_counter_bits v = ucast (take_bit 4 v)"
    by (simp add: rw_counter_bits_def COUNTER_BIT_MASK_mask take_bit_eq_mask)
  then have "unat (rw_counter_bits v) = take_bit 8 (take_bit 4 (unat v))"
    by (simp only: unsigned_ucast_eq unsigned_take_bit_eq) simp
  then show ?thesis by (simp add: take_bit_eq_mod)
qed

lemma unat_rw_index [lock_simps]: "unat (rw_index n) = unat n div 16"
proof -
  have "n AND push_bit 4 (mask 4) = push_bit 4 (drop_bit 4 n)"
    by (rule bit_word_eqI) (auto simp: bit_simps)
  then have "rw_index n = drop_bit 4 (push_bit 4 (drop_bit 4 n))"
    unfolding rw_index_def INDEX_BIT_MASK_push INDEX_BIT_SHIFT_def by simp
  also have "\<dots> = drop_bit 4 n"
    by (rule bit_word_eqI) (auto simp: bit_simps dest: bit_imp_le_length)
  finally have "rw_index n = drop_bit 4 n" .
  then have "unat (rw_index n) = drop_bit 4 (unat n)" by (simp only: unat_drop_bit_eq)
  then show ?thesis by (simp add: drop_bit_eq_div)
qed

lemma rw_index_bits_push: "rw_index_bits v = ucast (push_bit 4 (take_bit 4 v))"
proof -
  have "push_bit 4 v AND ucast (push_bit 4 (mask 4) :: u8) = push_bit 4 (take_bit 4 v)"
    by (rule bit_word_eqI) (auto simp: bit_simps)
  then show ?thesis by (simp add: rw_index_bits_def INDEX_BIT_MASK_push INDEX_BIT_SHIFT_def)
qed

lemma unat_rw_index_bits [lock_simps]: "unat (rw_index_bits v) = unat v mod 16 * 16"
proof -
  have "unat (push_bit 4 (take_bit 4 v)) = unat v mod 16 * 16"
    by (simp add: push_bit_eq_mult unat_word_ariths unsigned_take_bit_eq take_bit_eq_mod)
  then show ?thesis
    by (simp add: rw_index_bits_push unsigned_ucast_eq take_bit_eq_mod)
qed

lemma unat_rw_join [lock_simps]:
  "unat (rw_index_bits i OR rw_counter_bits c) = unat i mod 16 * 16 + unat c mod 16"
  "unat (rw_counter_bits c OR rw_index_bits i) = unat i mod 16 * 16 + unat c mod 16"
proof -
  have "rw_index_bits i AND rw_counter_bits c = 0"
    by (rule bit_word_eqI)
      (auto simp: rw_index_bits_push rw_counter_bits_def COUNTER_BIT_MASK_mask bit_simps)
  then have "rw_index_bits i OR rw_counter_bits c = rw_index_bits i + rw_counter_bits c"
    by (simp add: disjunctive_add_eq_or)
  then show "unat (rw_index_bits i OR rw_counter_bits c) = unat i mod 16 * 16 + unat c mod 16"
    by (simp add: unat_word_ariths unat_rw_index_bits unat_rw_counter_bits)
  then show "unat (rw_counter_bits c OR rw_index_bits i) = unat i mod 16 * 16 + unat c mod 16"
    by (simp add: or.commute)
qed

text \<open>Equality of words through their values, in the form in which the proofs below decide it.\<close>

lemma rw_counter_eq [lock_simps]:
  "rw_counter n = rw_counter m \<longleftrightarrow> unat n mod 16 = unat m mod 16"
  "rw_counter n = 0 \<longleftrightarrow> unat n mod 16 = 0"
  "rw_counter n = 1 \<longleftrightarrow> unat n mod 16 = 1"
  "rw_counter n = 15 \<longleftrightarrow> unat n mod 16 = 15"
  "rw_counter n = 14 \<longleftrightarrow> unat n mod 16 = 14"
  by (simp_all add: word_unat_eq_iff unat_rw_counter)

lemma rw_index_eq [lock_simps]:
  "rw_index n = rw_index m \<longleftrightarrow> unat n div 16 = unat m div 16"
  "rw_index n = 0 \<longleftrightarrow> unat n div 16 = 0"
  by (simp_all add: word_unat_eq_iff unat_rw_index)

lemma u8_bound: "unat (n :: u8) < 256"
  using unsigned_less [of n] by simp

subsection \<open>Atomic operations\<close>

text \<open>
  \<open>atomic_compare_exchange_strong\<close>: success flag, the byte in memory afterwards and the updated
  \<open>expected\<close>.
\<close>

definition compare_exchange :: "u8 \<Rightarrow> u8 \<Rightarrow> u8 \<Rightarrow> bool \<times> u8 \<times> u8" where
  "compare_exchange mem expected desired =
     (if mem = expected then (True, desired, expected) else (False, mem, mem))"

datatype 'r turn = Return 'r | Again u8

definition picotm_rwlock_init :: u8 where "picotm_rwlock_init = 0"

definition try_rdlock_turn :: "u8 \<Rightarrow> u8 \<Rightarrow> bool turn \<times> u8" where
  "try_rdlock_turn n mem =
     (if rw_counter n = ucast WRITER_COUNTER then (Return False, mem)
      else if rw_counter n = ucast WRITER_COUNTER - 1 then (Return False, mem)
      else if rw_index n \<noteq> 0 then (Return False, mem)
      else
        (let expected = rw_counter_bits (rw_counter n);
             desired = rw_counter_bits (rw_counter n + 1)
         in case compare_exchange mem expected desired of (succ, mem', expected') \<Rightarrow>
              if succ then (Return True, mem') else (Again expected', mem')))"

definition try_wrlock_turn :: "u8 \<Rightarrow> u8 \<Rightarrow> bool turn \<times> u8" where
  "try_wrlock_turn n mem =
     (if rw_counter n \<noteq> 0 then (Return False, mem)
      else if rw_index n \<noteq> 0 then (Return False, mem)
      else
        (let expected = rw_counter_bits 0;
             desired = rw_counter_bits (ucast WRITER_COUNTER)
         in case compare_exchange mem expected desired of (succ, mem', expected') \<Rightarrow>
              if succ then (Return True, mem') else (Again expected', mem')))"

definition try_uplock_turn :: "u8 \<Rightarrow> u8 \<Rightarrow> bool turn \<times> u8" where
  "try_uplock_turn n mem =
     (if rw_counter n \<noteq> 1 then (Return False, mem)
      else
        (let expected = rw_index_bits (ucast (rw_index n)) OR rw_counter_bits 1;
             desired = rw_index_bits (ucast (rw_index n)) OR
                       rw_counter_bits (ucast WRITER_COUNTER)
         in case compare_exchange mem expected desired of (succ, mem', expected') \<Rightarrow>
              if succ then (Return True, mem')
              else if rw_counter n = rw_counter expected' then (Again expected', mem')
              else (Return False, mem')))"

definition cmpxchg_index_turn :: "u64 \<Rightarrow> u64 \<Rightarrow> u8 \<Rightarrow> u8 \<Rightarrow> u64 turn \<times> u8" where
  "cmpxchg_index_turn expected_index desired_index n mem =
     (if ucast (rw_index n) \<noteq> expected_index then (Return (ucast (rw_index n)), mem)
      else
        (let expected = rw_counter_bits (rw_counter n) OR rw_index_bits expected_index;
             desired = rw_counter_bits (rw_counter n) OR rw_index_bits desired_index
         in case compare_exchange mem expected desired of (succ, mem', expected') \<Rightarrow>
              if succ then (Return (ucast (rw_index expected')), mem')
              else if rw_index expected' \<noteq> rw_index n then
                (Return (ucast (rw_index expected')), mem')
              else (Again expected', mem')))"

text \<open>
  \<open>picotm_rwlock_unlock\<close> loads the byte once and then subtracts atomically; the amount and the
  decision to wake waiters depend on the loaded copy \<open>n\<close>.
\<close>

definition unlock_sub :: "u8 \<Rightarrow> u8 \<Rightarrow> u8" where
  "unlock_sub n mem = (if rw_counter n = ucast WRITER_COUNTER then mem - WRITER_COUNTER else mem - 1)"

definition unlock_wakes :: "u8 \<Rightarrow> bool" where
  "unlock_wakes n \<longleftrightarrow> rw_index n \<noteq> 0"

subsection \<open>The loops without interference\<close>

partial_function (option) run_turns :: "(u8 \<Rightarrow> u8 \<Rightarrow> 'r turn \<times> u8) \<Rightarrow> u8 \<Rightarrow> u8 \<Rightarrow> ('r \<times> u8) option" where
  "run_turns turn n mem =
     (case turn n mem of
        (Return r, mem') \<Rightarrow> Some (r, mem')
      | (Again n', mem') \<Rightarrow> run_turns turn n' mem')"

definition try_rdlock :: "u8 \<Rightarrow> (bool \<times> u8) option" where
  "try_rdlock mem = run_turns try_rdlock_turn mem mem"

definition try_wrlock :: "u8 \<Rightarrow> (bool \<times> u8) option" where
  "try_wrlock mem = run_turns try_wrlock_turn mem mem"

definition try_uplock :: "u8 \<Rightarrow> (bool \<times> u8) option" where
  "try_uplock mem = run_turns try_uplock_turn mem mem"

definition picotm_rwlock_get_index :: "u8 \<Rightarrow> u64" where
  "picotm_rwlock_get_index mem = ucast (rw_index mem)"

definition picotm_rwlock_cmpxchg_index :: "u64 \<Rightarrow> u64 \<Rightarrow> u8 \<Rightarrow> (u64 \<times> u8) option" where
  "picotm_rwlock_cmpxchg_index expected_index desired_index mem =
     run_turns (cmpxchg_index_turn expected_index desired_index) mem mem"

partial_function (option) set_index_loop :: "u64 \<Rightarrow> u64 \<Rightarrow> u8 \<Rightarrow> (u64 \<times> u8) option" where
  "set_index_loop desired_index expected_index mem =
     (case picotm_rwlock_cmpxchg_index expected_index desired_index mem of
        None \<Rightarrow> None
      | Some (current_index, mem') \<Rightarrow>
          if current_index = expected_index then Some (current_index, mem')
          else set_index_loop desired_index current_index mem')"

definition picotm_rwlock_set_index :: "u64 \<Rightarrow> u8 \<Rightarrow> (u64 \<times> u8) option" where
  "picotm_rwlock_set_index desired_index mem =
     set_index_loop desired_index (picotm_rwlock_get_index mem) mem"

definition picotm_rwlock_unlock :: "u8 \<Rightarrow> bool \<times> u8" where
  "picotm_rwlock_unlock mem = (unlock_wakes mem, unlock_sub mem mem)"

subsection \<open>What one turn does\<close>

text \<open>
  Each turn either leaves the byte as it is or moves the counter as its operation says, with the
  other field untouched.  These are the facts that the sequential and the interleaved proofs share.
\<close>

lemma try_rdlock_turn_True [lock_simps]:
  "try_rdlock_turn n mem = (Return True, mem') \<longleftrightarrow>
     unat n < 14 \<and> mem = n \<and> mem' = n + 1"
proof -
  have *: "rw_counter_bits (rw_counter n) = n"
    "rw_counter_bits (rw_counter n + 1) = n + 1" if "unat n < 14"
    using that
    by (simp_all add: word_unat_eq_iff lock_simps unat_word_ariths)
  have "unat n div 16 = 0 \<and> unat n mod 16 < 14 \<longleftrightarrow> unat n < 14" by auto
  with * show ?thesis
    using u8_bound [of n]
    by (auto simp: try_rdlock_turn_def Let_def compare_exchange_def lock_simps split: if_splits)
qed

lemma try_wrlock_turn_True [lock_simps]:
  "try_wrlock_turn n mem = (Return True, mem') \<longleftrightarrow> n = 0 \<and> mem = 0 \<and> mem' = 15"
proof -
  have "rw_counter_bits 0 = 0" "rw_counter_bits 15 = 15"
    by (simp_all add: word_unat_eq_iff lock_simps)
  moreover have "unat n mod 16 = 0 \<and> unat n div 16 = 0 \<longleftrightarrow> n = 0"
    by (auto simp: word_unat_eq_iff)
  ultimately show ?thesis
    by (auto simp: try_wrlock_turn_def Let_def compare_exchange_def lock_simps split: if_splits)
qed

lemma try_uplock_turn_True [lock_simps]:
  "try_uplock_turn n mem = (Return True, mem') \<longleftrightarrow>
     unat n mod 16 = 1 \<and> mem = n \<and> mem' = n + 14"
proof -
  have *: "rw_index_bits (ucast (rw_index n)) OR rw_counter_bits 1 = n"
    "rw_index_bits (ucast (rw_index n)) OR rw_counter_bits 15 = n + 14"
    if "unat n mod 16 = 1"
  proof -
    have n: "unat n = unat n div 16 * 16 + 1" using that by presburger
    have idx: "unat (ucast (rw_index n) :: u64) mod 16 = unat n div 16"
      using u8_bound [of n] by (simp add: unsigned_ucast_eq take_bit_nat_def lock_simps)
    show "rw_index_bits (ucast (rw_index n)) OR rw_counter_bits 1 = n"
      using n by (simp add: word_unat_eq_iff lock_simps idx)
    have "unat n + 14 < 256" using that u8_bound [of n] by presburger
    then show "rw_index_bits (ucast (rw_index n)) OR rw_counter_bits 15 = n + 14"
      using n by (simp add: word_unat_eq_iff lock_simps idx unat_word_ariths)
  qed
  then show ?thesis
    by (auto simp: try_uplock_turn_def Let_def compare_exchange_def lock_simps split: if_splits)
qed

lemma turn_not_True_mem:
  "try_rdlock_turn n mem = (r, mem') \<Longrightarrow> r \<noteq> Return True \<Longrightarrow> mem' = mem"
  "try_wrlock_turn n mem = (r, mem') \<Longrightarrow> r \<noteq> Return True \<Longrightarrow> mem' = mem"
  "try_uplock_turn n mem = (r, mem') \<Longrightarrow> r \<noteq> Return True \<Longrightarrow> mem' = mem"
  by (auto simp: try_rdlock_turn_def try_wrlock_turn_def try_uplock_turn_def Let_def
        compare_exchange_def split: if_splits)

lemma turn_same:
  "try_rdlock_turn n n = (Return (unat n < 14), if unat n < 14 then n + 1 else n)"
  "try_wrlock_turn n n = (Return (n = 0), if n = 0 then 15 else n)"
  "try_uplock_turn n n = (Return (unat n mod 16 = 1), if unat n mod 16 = 1 then n + 14 else n)"
proof -
  have "unat n < 14" if "unat n mod 16 \<noteq> 15" "unat n mod 16 \<noteq> 14" "unat n div 16 = 0"
    using that by presburger
  then show "try_rdlock_turn n n = (Return (unat n < 14), if unat n < 14 then n + 1 else n)"
    using try_rdlock_turn_True [of n n "n + 1"]
    by (cases "unat n < 14") (auto simp: try_rdlock_turn_def lock_simps)
  have "n = 0" if "unat n mod 16 = 0" "unat n div 16 = 0"
    using that by (auto simp: word_unat_eq_iff)
  then show "try_wrlock_turn n n = (Return (n = 0), if n = 0 then 15 else n)"
    using try_wrlock_turn_True [of n n 15]
    by (cases "n = 0") (auto simp: try_wrlock_turn_def lock_simps)
  show "try_uplock_turn n n = (Return (unat n mod 16 = 1), if unat n mod 16 = 1 then n + 14 else n)"
    using try_uplock_turn_True [of n n "n + 14"]
    by (cases "unat n mod 16 = 1") (auto simp: try_uplock_turn_def lock_simps)
qed

lemma turn_Again_mem:
  "try_rdlock_turn n mem = (Again n', mem') \<Longrightarrow> n' = mem \<and> mem \<noteq> n"
  "try_wrlock_turn n mem = (Again n', mem') \<Longrightarrow> n' = mem \<and> mem \<noteq> n"
  "try_uplock_turn n mem = (Again n', mem') \<Longrightarrow> n' = mem \<and> mem \<noteq> n"
  using turn_same [of n]
  by (auto simp: try_rdlock_turn_def try_wrlock_turn_def try_uplock_turn_def Let_def
        compare_exchange_def split: if_splits)

text \<open>The uncontended results: each loop ends in its first turn.\<close>

lemma try_lock_eq [lock_simps]:
  "try_rdlock mem = Some (unat mem < 14, if unat mem < 14 then mem + 1 else mem)"
  "try_wrlock mem = Some (mem = 0, if mem = 0 then 15 else mem)"
  "try_uplock mem = Some (unat mem mod 16 = 1, if unat mem mod 16 = 1 then mem + 14 else mem)"
  by (simp_all add: try_rdlock_def try_wrlock_def try_uplock_def run_turns.simps turn_same)

lemma cmpxchg_index_turn_counter:
  assumes "cmpxchg_index_turn i j n mem = (r, mem')"
  shows "unat mem' mod 16 = unat mem mod 16"
  using assms
  by (auto simp: cmpxchg_index_turn_def Let_def compare_exchange_def lock_simps split: if_splits)

lemma cmpxchg_index_turn_same:
  "cmpxchg_index_turn i j n n =
     (Return (ucast (rw_index n)),
      if ucast (rw_index n) = i then rw_counter_bits (rw_counter n) OR rw_index_bits j else n)"
proof -
  have "rw_counter_bits (rw_counter n) OR rw_index_bits (ucast (rw_index n)) = n"
    using u8_bound [of n]
    by (simp add: word_unat_eq_iff lock_simps unsigned_ucast_eq take_bit_nat_def)
  then show ?thesis
    by (auto simp: cmpxchg_index_turn_def compare_exchange_def)
qed

lemma picotm_rwlock_cmpxchg_index_eq [lock_simps]:
  "picotm_rwlock_cmpxchg_index i j mem =
     Some (picotm_rwlock_get_index mem,
           if picotm_rwlock_get_index mem = i
           then rw_counter_bits (rw_counter mem) OR rw_index_bits j else mem)"
  by (simp add: picotm_rwlock_cmpxchg_index_def picotm_rwlock_get_index_def run_turns.simps
        cmpxchg_index_turn_same)

lemma picotm_rwlock_set_index_eq [lock_simps]:
  "picotm_rwlock_set_index j mem =
     Some (picotm_rwlock_get_index mem, rw_counter_bits (rw_counter mem) OR rw_index_bits j)"
  by (simp add: picotm_rwlock_set_index_def set_index_loop.simps picotm_rwlock_cmpxchg_index_eq)

lemma unat_get_index [lock_simps]: "unat (picotm_rwlock_get_index mem) = unat mem div 16"
  using u8_bound [of mem]
  by (simp add: picotm_rwlock_get_index_def unsigned_ucast_eq take_bit_nat_def lock_simps)

text \<open>
  Setting the waiter index keeps the counter and stores the index modulo 16: indices of lock
  owners from 16 on do not fit into the four bits.
\<close>

lemma set_index_fields:
  assumes "picotm_rwlock_set_index j mem = Some (old, mem')"
  shows "unat mem' mod 16 = unat mem mod 16"
    and "unat (picotm_rwlock_get_index mem') = unat j mod 16"
    and "old = picotm_rwlock_get_index mem"
  using assms by (auto simp: lock_simps)

subsection \<open>Locking with one wait\<close>

text \<open>
  \<open>try_lock_or_wait\<close>: a failed attempt is followed by one wait at the lock manager, during which
  the lock may change in any way, and by one more attempt.  The wait is the argument \<open>wait\<close>, from
  the byte and the error to the byte after the wait and the error; \<open>sleep\<close> is the short sleep that
  the code takes while \<open>nretries\<close>, which starts at 0, is positive.
\<close>

function try_lock_loop ::
  "(u8 \<Rightarrow> (bool \<times> u8) option) \<Rightarrow> (u8 \<Rightarrow> picotm_error \<Rightarrow> u8 \<times> picotm_error) \<Rightarrow>
   (u8 \<Rightarrow> picotm_error \<Rightarrow> u8 \<times> picotm_error) \<Rightarrow> pointer \<Rightarrow> bool \<Rightarrow> nat \<Rightarrow> u8 \<Rightarrow> picotm_error \<Rightarrow>
   (u8 \<times> picotm_error) option"
where
  "try_lock_loop try_lock wait sleep self waiter nretries mem error =
     (case try_lock mem of
        None \<Rightarrow> None
      | Some (succ, mem1) \<Rightarrow>
          if succ then Some (mem1, error)
          else if waiter then Some (mem1, picotm_error_set_conflicting error self)
          else if nretries \<noteq> 0 then
            (let (mem2, error') = sleep mem1 error in
             if picotm_error_is_set error' then Some (mem2, error')
             else try_lock_loop try_lock wait sleep self waiter (nretries - 1) mem2 error')
          else
            (let (mem2, error') = wait mem1 error in
             if picotm_error_is_set error' then Some (mem2, error')
             else try_lock_loop try_lock wait sleep self True nretries mem2 error'))"
  by pat_completeness auto
termination
  by (relation "measures [\<lambda>(_, _, _, _, waiter, _). if waiter then 0 else 1,
                          \<lambda>(_, _, _, _, _, nretries, _). nretries]") auto

declare try_lock_loop.simps [simp del]

definition try_lock_or_wait ::
  "(u8 \<Rightarrow> (bool \<times> u8) option) \<Rightarrow> (u8 \<Rightarrow> picotm_error \<Rightarrow> u8 \<times> picotm_error) \<Rightarrow>
   (u8 \<Rightarrow> picotm_error \<Rightarrow> u8 \<times> picotm_error) \<Rightarrow> pointer \<Rightarrow> u8 \<Rightarrow> picotm_error \<Rightarrow>
   (u8 \<times> picotm_error) option"
where
  "try_lock_or_wait try_lock wait sleep self mem error =
     try_lock_loop try_lock wait sleep self False 0 mem error"

definition picotm_rwlock_try_rdlock where
  "picotm_rwlock_try_rdlock wait sleep self mem error =
     try_lock_or_wait try_rdlock wait sleep self mem error"

definition picotm_rwlock_try_wrlock where
  "picotm_rwlock_try_wrlock wait sleep self mem upgrade error =
     try_lock_or_wait (if upgrade then try_uplock else try_wrlock) wait sleep self mem error"

lemma try_lock_or_wait_eq:
  assumes "\<And>m. try_lock m = Some (ok m, nxt m)"
  shows "try_lock_or_wait try_lock wait sleep self mem e =
    Some (if ok mem then (nxt mem, e)
          else (let (mem2, e2) = wait (nxt mem) e in
                if picotm_error_is_set e2 then (mem2, e2)
                else if ok mem2 then (nxt mem2, e2)
                else (nxt mem2, picotm_error_set_conflicting e2 self)))"
  by (simp add: try_lock_or_wait_def try_lock_loop.simps assms Let_def split: prod.splits)

end
