(* ===== verification/Picotm_Lock_Manager.thy ===== *)
theory Picotm_Lock_Manager
  imports Picotm_Lock_Owner Picotm_Rwlock "HOL-Library.Monad_Syntax"
begin

text \<open>
  The lock manager (\<open>src/picotm_lock_manager.c\<close>) with the operating-system locks it calls
  (\<open>picotm_os_mutex.c\<close>, \<open>picotm_os_cond.c\<close>, \<open>picotm_os_rwlock.c\<close>).

  The state \<open>lm_world\<close> is what one thread sees: the fields of \<open>struct picotm_lock_manager\<close>, the lock
  owners by address, the mutexes and reader/writer locks that the thread holds, the lock list on
  which it operates (\<open>lm_slist\<close>, the type of which is left to the lock implementation), and the
  owners whose condition variables have been signalled.  The POSIX calls may fail: \<open>lm_rcs\<close> lists
  the results of the next fallible calls, and calls beyond the list succeed.  \<open>lm_fault\<close> records
  undefined behaviour of the C program: access through a null pointer, locking a mutex twice or
  unlocking one that the thread does not hold.
\<close>

subsection \<open>Operating-system locks\<close>

datatype os_rwlock_mode = Rdlocked | Wrlocked

record 's lm_world =
  lm_owner :: "pointer \<Rightarrow> picotm_lock_owner"
  lm_mutexes :: "pointer set"
  lm_lo_rwlock :: "os_rwlock_mode option"
  lm_lo :: "pointer option list"
  lm_exclusive_lo_lock :: "os_rwlock_mode option"
  lm_exclusive_lo :: "pointer option"
  lm_slist :: 's
  lm_woken :: "pointer list"
  lm_rcs :: "int list"
  lm_fault :: bool

definition os_call :: "'s lm_world \<Rightarrow> int \<times> 's lm_world" where
  "os_call w = (case lm_rcs w of [] \<Rightarrow> (0, w) | rc # rcs \<Rightarrow> (rc, w\<lparr>lm_rcs := rcs\<rparr>))"

definition os_fault :: "'s lm_world \<Rightarrow> 's lm_world" where
  "os_fault w = w\<lparr>lm_fault := True\<rparr>"

text \<open>\<open>picotm_os_mutex_lock\<close> and \<open>picotm_os_mutex_unlock\<close>, reached through the lock owner.\<close>

definition picotm_os_mutex_lock ::
  "pointer \<Rightarrow> 's lm_world \<Rightarrow> picotm_error \<Rightarrow> 's lm_world \<times> picotm_error"
where
  "picotm_os_mutex_lock m w error =
     (let (err, w) = os_call w in
      if err \<noteq> 0 then (w, picotm_error_set_errno error err)
      else if m \<in> lm_mutexes w then (os_fault w, error)
      else (w\<lparr>lm_mutexes := insert m (lm_mutexes w)\<rparr>, error))"

definition picotm_os_mutex_unlock :: "pointer \<Rightarrow> 's lm_world \<Rightarrow> 's lm_world" where
  "picotm_os_mutex_unlock m w =
     (if m \<in> lm_mutexes w then w\<lparr>lm_mutexes := lm_mutexes w - {m}\<rparr> else os_fault w)"

definition picotm_os_cond_wake_up ::
  "pointer \<Rightarrow> 's lm_world \<Rightarrow> picotm_error \<Rightarrow> 's lm_world \<times> picotm_error"
where
  "picotm_os_cond_wake_up c w error =
     (let (err, w) = os_call w in
      if err \<noteq> 0 then (w, picotm_error_set_errno error err)
      else (w\<lparr>lm_woken := lm_woken w @ [c]\<rparr>, error))"

definition ETIMEDOUT :: int where "ETIMEDOUT = 110"

text \<open>
  \<open>pthread_cond_timedwait\<close> releases the mutex, lets other threads run, and takes the mutex again;
  it is the argument \<open>timedwait\<close>, with the world at its return.
\<close>

definition picotm_os_cond_wait_until ::
  "(pointer \<Rightarrow> timespec \<Rightarrow> 's lm_world \<Rightarrow> int \<times> 's lm_world) \<Rightarrow> pointer \<Rightarrow> timespec \<Rightarrow> 's lm_world \<Rightarrow>
   picotm_error \<Rightarrow> bool \<times> 's lm_world \<times> picotm_error"
where
  "picotm_os_cond_wait_until timedwait c timeout w error =
     (let (err, w) = timedwait c timeout w in
      if err \<noteq> 0 \<and> err \<noteq> ETIMEDOUT then (False, w, picotm_error_set_errno error err)
      else (err \<noteq> ETIMEDOUT, w, error))"

definition lo_rwlock_lock ::
  "os_rwlock_mode \<Rightarrow> 's lm_world \<Rightarrow> picotm_error \<Rightarrow> 's lm_world \<times> picotm_error"
where
  "lo_rwlock_lock mode w error =
     (let (err, w) = os_call w in
      if err \<noteq> 0 then (w, picotm_error_set_errno error err)
      else if lm_lo_rwlock w \<noteq> None then (os_fault w, error)
      else (w\<lparr>lm_lo_rwlock := Some mode\<rparr>, error))"

definition lo_rwlock_unlock :: "'s lm_world \<Rightarrow> 's lm_world" where
  "lo_rwlock_unlock w =
     (if lm_lo_rwlock w = None then os_fault w else w\<lparr>lm_lo_rwlock := None\<rparr>)"

definition exclusive_lo_lock_lock ::
  "os_rwlock_mode \<Rightarrow> 's lm_world \<Rightarrow> picotm_error \<Rightarrow> 's lm_world \<times> picotm_error"
where
  "exclusive_lo_lock_lock mode w error =
     (let (err, w) = os_call w in
      if err \<noteq> 0 then (w, picotm_error_set_errno error err)
      else if lm_exclusive_lo_lock w \<noteq> None then (os_fault w, error)
      else (w\<lparr>lm_exclusive_lo_lock := Some mode\<rparr>, error))"

definition exclusive_lo_lock_unlock :: "'s lm_world \<Rightarrow> 's lm_world" where
  "exclusive_lo_lock_unlock w =
     (if lm_exclusive_lo_lock w = None then os_fault w else w\<lparr>lm_exclusive_lo_lock := None\<rparr>)"

subsection \<open>Operations of a lock owner that use its mutex\<close>

definition lm_update_owner ::
  "pointer \<Rightarrow> (picotm_lock_owner \<Rightarrow> picotm_lock_owner) \<Rightarrow> 's lm_world \<Rightarrow> 's lm_world"
where
  "lm_update_owner p f w = w\<lparr>lm_owner := (lm_owner w)(p := f (lm_owner w p))\<rparr>"

text \<open>
  The mutex and then the condition variable are initialised; \<open>picotm_os_cond_init\<close> makes up to three
  calls, of which the first that fails decides.
\<close>

definition picotm_os_mutex_init :: "'s lm_world \<Rightarrow> picotm_error \<Rightarrow> 's lm_world \<times> picotm_error" where
  "picotm_os_mutex_init w error =
     (let (err, w) = os_call w in
      if err \<noteq> 0 then (w, picotm_error_set_errno error err) else (w, error))"

definition picotm_os_cond_init :: "'s lm_world \<Rightarrow> picotm_error \<Rightarrow> 's lm_world \<times> picotm_error" where
  "picotm_os_cond_init w error =
     (let (err, w) = os_call w in
      if err \<noteq> 0 then (w, picotm_error_set_errno error err)
      else
        (let (err, w) = os_call w in
         if err \<noteq> 0 then (w, picotm_error_set_errno error err)
         else
           (let (err, w) = os_call w in
            if err \<noteq> 0 then (w, picotm_error_set_errno error err) else (w, error))))"

definition picotm_lock_owner_init ::
  "pointer \<Rightarrow> 's lm_world \<Rightarrow> picotm_error \<Rightarrow> 's lm_world \<times> picotm_error"
where
  "picotm_lock_owner_init self w error =
     (let (w, error) = picotm_os_mutex_init w error in
      if picotm_error_is_set error then (w, error)
      else
        (let (w, error) = picotm_os_cond_init w error in
         if picotm_error_is_set error then (w, error)
         else (lm_update_owner self lock_owner_clear w, error)))"

definition picotm_lock_owner_lock ::
  "pointer \<Rightarrow> 's lm_world \<Rightarrow> picotm_error \<Rightarrow> 's lm_world \<times> picotm_error"
where
  "picotm_lock_owner_lock self w error = picotm_os_mutex_lock self w error"

definition picotm_lock_owner_unlock :: "pointer \<Rightarrow> 's lm_world \<Rightarrow> 's lm_world" where
  "picotm_lock_owner_unlock self w = picotm_os_mutex_unlock self w"

partial_function (option) wait_until_loop ::
  "(pointer \<Rightarrow> timespec \<Rightarrow> 's lm_world \<Rightarrow> int \<times> 's lm_world) \<Rightarrow> pointer \<Rightarrow> timespec \<Rightarrow> 's lm_world \<Rightarrow>
   picotm_error \<Rightarrow> (bool \<times> 's lm_world \<times> picotm_error) option"
where
  "wait_until_loop timedwait self timeout w error =
     (let (woken_up, w, error) = picotm_os_cond_wait_until timedwait self timeout w error in
      if picotm_error_is_set error then
        Some (False, lm_update_owner self (owner_clear LOCK_OWNER_WT) w, error)
      else if woken_up \<and> owner_has LOCK_OWNER_WT (lm_owner w self) then
        wait_until_loop timedwait self timeout w error
      else if \<not> woken_up then
        Some (woken_up, lm_update_owner self (owner_clear LOCK_OWNER_WT) w, error)
      else Some (woken_up, w, error))"

definition picotm_lock_owner_wait_until ::
  "(pointer \<Rightarrow> timespec \<Rightarrow> 's lm_world \<Rightarrow> int \<times> 's lm_world) \<Rightarrow> pointer \<Rightarrow> timespec \<Rightarrow> 's lm_world \<Rightarrow>
   picotm_error \<Rightarrow> (bool \<times> 's lm_world \<times> picotm_error) option"
where
  "picotm_lock_owner_wait_until timedwait self timeout w error =
     wait_until_loop timedwait self timeout (lm_update_owner self (owner_set LOCK_OWNER_WT) w) error"

definition picotm_lock_owner_wake_up ::
  "pointer \<Rightarrow> 's lm_world \<Rightarrow> picotm_error \<Rightarrow> 's lm_world \<times> picotm_error"
where
  "picotm_lock_owner_wake_up self w error =
     picotm_os_cond_wake_up self (lm_update_owner self (owner_clear LOCK_OWNER_WT) w) error"

subsection \<open>The table of lock owners\<close>

text \<open>
  \<open>tabresize\<close> is modelled in \<open>Picotm_Table\<close>; here its outcome is one of the results of \<open>lm_rcs\<close>,
  an \<open>errno\<close> value or 0.
\<close>

definition grow_lo_array :: "'s lm_world \<Rightarrow> picotm_error \<Rightarrow> 's lm_world \<times> picotm_error" where
  "grow_lo_array w error =
     (let nlos = length (lm_lo w);
          new_nlos = (if nlos = 0 then 1 else 0) + nlos + 1;
          (err, w) = os_call w
      in if err \<noteq> 0 then (w, picotm_error_set_errno error err)
         else (w\<lparr>lm_lo := lm_lo w @ replicate (new_nlos - nlos) None\<rparr>, error))"

fun lfind_null :: "pointer option list \<Rightarrow> nat \<Rightarrow> nat option" where
  "lfind_null [] _ = None"
| "lfind_null (x # xs) pos = (if x = None then Some pos else lfind_null xs (Suc pos))"

definition find_lo :: "'s lm_world \<Rightarrow> picotm_error \<Rightarrow> nat option \<times> 's lm_world \<times> picotm_error" where
  "find_lo w error =
     (let nlos = length (lm_lo w) - (if length (lm_lo w) = 0 then 0 else 1);
          off = (if nlos = 0 then 0 else 1)
      in case lfind_null (take nlos (drop off (lm_lo w))) off of
           Some pos \<Rightarrow> (Some pos, w, error)
         | None \<Rightarrow>
             (let nlos = length (lm_lo w);
                  (w, error) = grow_lo_array w error
              in if picotm_error_is_set error then (None, w, error)
                 else (Some ((if nlos = 0 then 1 else 0) + nlos), w, error)))"

definition picotm_lock_manager_register_owner ::
  "pointer \<Rightarrow> 's lm_world \<Rightarrow> picotm_error \<Rightarrow> 's lm_world \<times> picotm_error"
where
  "picotm_lock_manager_register_owner lo w error =
     (let (w, error) = lo_rwlock_lock Wrlocked w error in
      if picotm_error_is_set error then (w, error)
      else
        (case find_lo w error of
           (Some pos, w, error) \<Rightarrow>
             if picotm_error_is_set error then (lo_rwlock_unlock w, error)
             else
               (let w = w\<lparr>lm_lo := (lm_lo w)[pos := Some lo]\<rparr>;
                    w = lm_update_owner lo (\<lambda>o'. picotm_lock_owner_set_index o' (of_nat pos)) w
                in (lo_rwlock_unlock w, error))
         | (None, w, error) \<Rightarrow> (lo_rwlock_unlock w, error)))"

text \<open>
  \<open>picotm_recover_from_error\<close> leaves the function by a long jump into the transaction's recovery
  code; \<open>Inl error\<close> is this exit.
\<close>

definition picotm_lock_manager_unregister_owner ::
  "pointer \<Rightarrow> 's lm_world \<Rightarrow> picotm_error + 's lm_world"
where
  "picotm_lock_manager_unregister_owner lo w =
     (let (w, error) = lo_rwlock_lock Wrlocked w PICOTM_ERROR_INITIALIZER in
      if picotm_error_is_set error then Inl (picotm_error_mark_as_non_recoverable error)
      else
        (let i = unat (picotm_lock_owner_get_index (lm_owner w lo));
             w = (if i < length (lm_lo w) then w\<lparr>lm_lo := (lm_lo w)[i := None]\<rparr> else os_fault w)
         in Inr (lo_rwlock_unlock w)))"

subsection \<open>Irrevocability\<close>

definition picotm_lock_manager_make_irrevocable ::
  "pointer \<Rightarrow> 's lm_world \<Rightarrow> picotm_error \<Rightarrow> 's lm_world \<times> picotm_error"
where
  "picotm_lock_manager_make_irrevocable exclusive_lo w error =
     (let (w, error) = exclusive_lo_lock_lock Wrlocked w error in
      if picotm_error_is_set error then (w, error)
      else (w\<lparr>lm_exclusive_lo := Some exclusive_lo\<rparr>, error))"

definition picotm_lock_manager_wait_irrevocable ::
  "'s lm_world \<Rightarrow> picotm_error \<Rightarrow> 's lm_world \<times> picotm_error"
where
  "picotm_lock_manager_wait_irrevocable w error = exclusive_lo_lock_lock Rdlocked w error"

definition picotm_lock_manager_release_irrevocability ::
  "pointer \<Rightarrow> 's lm_world \<Rightarrow> 's lm_world"
where
  "picotm_lock_manager_release_irrevocability lo w =
     exclusive_lo_lock_unlock
       (if lm_exclusive_lo w = Some lo then w\<lparr>lm_exclusive_lo := None\<rparr> else w)"

subsection \<open>The lists of waiting lock owners\<close>

text \<open>
  \<open>struct picotm_lock_slist_funcs\<close>: the call-back functions through which the lock manager reads
  and exchanges the index of the first waiter in the lock.
\<close>

record 's picotm_lock_slist_funcs =
  get_first_index :: "'s \<Rightarrow> u64"
  cmpxchg_first_index :: "'s \<Rightarrow> u64 \<Rightarrow> u64 \<Rightarrow> u64 \<times> 's"

text \<open>\<open>self->lo[index]\<close>; a read outside of the table is undefined behaviour.\<close>

definition lo_at :: "u64 \<Rightarrow> 's lm_world \<Rightarrow> pointer option \<times> 's lm_world" where
  "lo_at i w =
     (if unat i < length (lm_lo w) then (lm_lo w ! unat i, w) else (None, os_fault w))"

definition slist_cmpxchg ::
  "'s picotm_lock_slist_funcs \<Rightarrow> u64 \<Rightarrow> u64 \<Rightarrow> 's lm_world \<Rightarrow> u64 \<times> 's lm_world"
where
  "slist_cmpxchg funcs old new w =
     (let (cur, s) = cmpxchg_first_index funcs (lm_slist w) old new in (cur, w\<lparr>lm_slist := s\<rparr>))"

partial_function (option) prepend_loop ::
  "'s picotm_lock_slist_funcs \<Rightarrow> pointer \<Rightarrow> u64 \<Rightarrow> u64 \<Rightarrow> 's lm_world \<Rightarrow> 's lm_world option"
where
  "prepend_loop funcs waiter index first_index w =
     (let (first_waiter, w) = lo_at first_index w;
          w = lm_update_owner waiter (\<lambda>o'. picotm_lock_owner_set_next o' first_index) w;
          w = lm_update_owner waiter (\<lambda>o'. o'\<lparr>lo_next := first_waiter\<rparr>) w;
          (old_first_index, w) = slist_cmpxchg funcs first_index index w
      in if old_first_index \<noteq> first_index then prepend_loop funcs waiter index old_first_index w
         else Some w)"

definition lock_and_prepend_waiter ::
  "'s picotm_lock_slist_funcs \<Rightarrow> pointer \<Rightarrow> 's lm_world \<Rightarrow> picotm_error \<Rightarrow>
   ('s lm_world \<times> picotm_error) option"
where
  "lock_and_prepend_waiter funcs waiter w error =
     (let (w, error) = lo_rwlock_lock Rdlocked w error in
      if picotm_error_is_set error then Some (w, error)
      else
        (let (w, error) = picotm_lock_owner_lock waiter w error in
         if picotm_error_is_set error then Some (lo_rwlock_unlock w, error)
         else
           (case prepend_loop funcs waiter (picotm_lock_owner_get_index (lm_owner w waiter))
                   (get_first_index funcs (lm_slist w)) w of
              None \<Rightarrow> None
            | Some w \<Rightarrow> Some (lo_rwlock_unlock w, error))))"

text \<open>
  \<open>get_first_waiter\<close>: the code locks the owner it finds in the table before it tests the pointer.
\<close>

definition lock_owner_pointer ::
  "pointer option \<Rightarrow> 's lm_world \<Rightarrow> picotm_error \<Rightarrow> 's lm_world \<times> picotm_error"
where
  "lock_owner_pointer p w error =
     (case p of None \<Rightarrow> (os_fault w, error) | Some lo \<Rightarrow> picotm_lock_owner_lock lo w error)"

partial_function (option) get_first_waiter_loop ::
  "'s picotm_lock_slist_funcs \<Rightarrow> u64 \<Rightarrow> 's lm_world \<Rightarrow> picotm_error \<Rightarrow>
   (pointer option \<times> 's lm_world \<times> picotm_error) option"
where
  "get_first_waiter_loop funcs first_index w error =
     (if first_index = 0 then Some (None, w, error)
      else
        (let (first_waiter, w) = lo_at first_index w;
             (w, error) = lock_owner_pointer first_waiter w error
         in if picotm_error_is_set error then Some (None, w, error)
            else
              (let first_index = get_first_index funcs (lm_slist w) in
               case first_waiter of
                 None \<Rightarrow> get_first_waiter_loop funcs first_index w error
               | Some lo \<Rightarrow>
                   if picotm_lock_owner_get_index (lm_owner w lo) \<noteq> first_index
                   then get_first_waiter_loop funcs first_index (picotm_lock_owner_unlock lo w) error
                   else Some (Some lo, w, error))))"

definition get_first_waiter ::
  "'s picotm_lock_slist_funcs \<Rightarrow> 's lm_world \<Rightarrow> picotm_error \<Rightarrow>
   (pointer option \<times> 's lm_world \<times> picotm_error) option"
where
  "get_first_waiter funcs w error =
     get_first_waiter_loop funcs (get_first_index funcs (lm_slist w)) w error"

text \<open>
  \<open>find_prec_waiter\<close>, after its early return.  \<open>None\<close> in the result of the walk stands for the
  null pointer \<open>prec_waiter\<close>, which the code then dereferences.
\<close>

partial_function (option) prec_waiter_loop ::
  "pointer \<Rightarrow> pointer \<Rightarrow> 's lm_world \<Rightarrow> picotm_error \<Rightarrow>
   (pointer option \<times> 's lm_world \<times> picotm_error) option"
where
  "prec_waiter_loop waiter first_waiter w error =
     (case lo_next (lm_owner w first_waiter) of
        None \<Rightarrow> Some (None, w, error)
      | Some next_waiter \<Rightarrow>
          if next_waiter = waiter then Some (Some first_waiter, w, error)
          else
            (let (w, error) = picotm_lock_owner_lock next_waiter w error in
             if picotm_error_is_set error
             then Some (None, picotm_lock_owner_unlock first_waiter w, error)
             else prec_waiter_loop waiter next_waiter (picotm_lock_owner_unlock first_waiter w) error))"

definition find_prec_waiter ::
  "pointer \<Rightarrow> pointer option \<Rightarrow> 's lm_world \<Rightarrow> picotm_error \<Rightarrow>
   (picotm_error + (pointer option \<times> 's lm_world \<times> picotm_error)) option"
where
  "find_prec_waiter waiter first_waiter w error =
     (if first_waiter = Some waiter then Some (Inr (None, w, error))
      else case first_waiter of
        None \<Rightarrow> Some (Inr (None, os_fault w, error))
      | Some first \<Rightarrow>
          (case prec_waiter_loop waiter first w error of
             None \<Rightarrow> None
           | Some (None, w, error) \<Rightarrow> Some (Inr (None, os_fault w, error))
           | Some (Some prec, w, error) \<Rightarrow>
               (let (w, err) =
                      lock_owner_pointer (lo_next (lm_owner w prec)) w PICOTM_ERROR_INITIALIZER
                in if picotm_error_is_set err
                   then Some (Inl (picotm_error_mark_as_non_recoverable err))
                   else Some (Inr (Some prec, w, error)))))"

partial_function (option) remove_waiter_loop ::
  "'s picotm_lock_slist_funcs \<Rightarrow> pointer \<Rightarrow> pointer option \<Rightarrow> 's lm_world \<Rightarrow>
   (picotm_error + pointer option \<times> 's lm_world) option"
where
  "remove_waiter_loop funcs waiter prec_waiter w =
     (let (removed, w) =
        (case prec_waiter of
           None \<Rightarrow>
             (let index = picotm_lock_owner_get_index (lm_owner w waiter);
                  next_index = picotm_lock_owner_get_next (lm_owner w waiter);
                  (old_first_index, w) = slist_cmpxchg funcs index next_index w
              in (old_first_index = index, w))
         | Some prec \<Rightarrow>
             if lo_next (lm_owner w prec) = Some waiter then
               (let next_index = picotm_lock_owner_get_next (lm_owner w waiter);
                    w = lm_update_owner prec (\<lambda>o'. picotm_lock_owner_set_next o' next_index) w;
                    w = lm_update_owner prec
                          (\<lambda>o'. o'\<lparr>lo_next := lo_next (lm_owner w waiter)\<rparr>) w
                in (True, w))
             else (False, picotm_lock_owner_unlock prec w))
      in if removed then Some (Inr (prec_waiter, lo_rwlock_unlock w))
         else
           (case get_first_waiter funcs (picotm_lock_owner_unlock waiter w)
                   PICOTM_ERROR_INITIALIZER of
              None \<Rightarrow> None
            | Some (first_waiter, w, error) \<Rightarrow>
                if picotm_error_is_set error
                then Some (Inl (picotm_error_mark_as_non_recoverable error))
                else
                  (case find_prec_waiter waiter first_waiter w PICOTM_ERROR_INITIALIZER of
                     None \<Rightarrow> None
                   | Some (Inl error) \<Rightarrow> Some (Inl error)
                   | Some (Inr (prec_waiter, w, error)) \<Rightarrow>
                       if picotm_error_is_set error
                       then Some (Inl (picotm_error_mark_as_non_recoverable error))
                       else remove_waiter_loop funcs waiter prec_waiter w)))"

definition remove_waiter ::
  "'s picotm_lock_slist_funcs \<Rightarrow> pointer \<Rightarrow> pointer option \<Rightarrow> 's lm_world \<Rightarrow>
   (picotm_error + pointer option \<times> 's lm_world) option"
where
  "remove_waiter funcs waiter prec_waiter w =
     (let (w, error) = lo_rwlock_lock Rdlocked w PICOTM_ERROR_INITIALIZER in
      if picotm_error_is_set error then Some (Inl (picotm_error_mark_as_non_recoverable error))
      else remove_waiter_loop funcs waiter prec_waiter w)"

subsection \<open>Waiting\<close>

definition compute_timeout ::
  "int \<times> timespec \<times> int \<Rightarrow> picotm_lock_owner \<Rightarrow> timespec \<Rightarrow> picotm_error \<Rightarrow>
   bool \<times> timespec \<times> picotm_error"
where
  "compute_timeout clock waiter timeout error =
     (let (timeout, error) = picotm_os_get_timespec clock timeout error in
      if picotm_error_is_set error then (False, timeout, error)
      else
        (let timediff = picotm_os_sub_timespec timeout (picotm_lock_owner_get_timestamp waiter);
             cmp = picotm_os_timespec_compare timediff \<lparr>tv_sec = 1, tv_nsec = 0\<rparr>
         in if cmp < 0 then (False, timeout, error)
            else
              (let timediff = timediff\<lparr>tv_sec := 0, tv_nsec := 1000\<rparr>
               in (True, picotm_os_add_timespec timeout timediff, error))))"

definition owner_wait_flag :: "bool \<Rightarrow> u64" where
  "owner_wait_flag wr = (if wr then LOCK_OWNER_WR else LOCK_OWNER_RD)"

definition picotm_lock_manager_wait ::
  "int \<times> timespec \<times> int \<Rightarrow> (pointer \<Rightarrow> timespec \<Rightarrow> 's lm_world \<Rightarrow> int \<times> 's lm_world) \<Rightarrow>
   's picotm_lock_slist_funcs \<Rightarrow> pointer \<Rightarrow> bool \<Rightarrow> 's lm_world \<Rightarrow> picotm_error \<Rightarrow>
   (picotm_error + bool \<times> 's lm_world \<times> picotm_error) option"
where
  "picotm_lock_manager_wait clock timedwait funcs waiter wr w error =
     (let (do_wait, timeout, error) =
            compute_timeout clock (lm_owner w waiter) \<lparr>tv_sec = 0, tv_nsec = 0\<rparr> error
      in if picotm_error_is_set error then Some (Inr (False, w, error))
         else if \<not> do_wait then Some (Inr (False, w, error))
         else
           (case lock_and_prepend_waiter funcs waiter w error of
              None \<Rightarrow> None
            | Some (w, error) \<Rightarrow>
                if picotm_error_is_set error then Some (Inr (False, w, error))
                else
                  (case picotm_lock_owner_wait_until timedwait waiter timeout
                          (lm_update_owner waiter (owner_set (owner_wait_flag wr)) w) error of
                     None \<Rightarrow> None
                   | Some (woken_up, w, error) \<Rightarrow>
                       (case remove_waiter funcs waiter None w of
                          None \<Rightarrow> None
                        | Some (Inl err) \<Rightarrow> Some (Inl err)
                        | Some (Inr (prec_waiter, w)) \<Rightarrow>
                            (let w = (case prec_waiter of None \<Rightarrow> w
                                      | Some prec \<Rightarrow> picotm_lock_owner_unlock prec w);
                                 w = lm_update_owner waiter (owner_clear (owner_wait_flag wr)) w;
                                 w = picotm_lock_owner_unlock waiter w
                             in Some (Inr (if picotm_error_is_set error then False else woken_up,
                                           w, error)))))))"

subsection \<open>Waking up\<close>

partial_function (option) pick_waiter_loop ::
  "(picotm_lock_owner \<Rightarrow> picotm_lock_owner \<Rightarrow> int) \<Rightarrow> pointer \<Rightarrow> pointer option \<Rightarrow> pointer option \<Rightarrow>
   's lm_world \<Rightarrow> picotm_error \<Rightarrow> (pointer option \<times> 's lm_world \<times> picotm_error) option"
where
  "pick_waiter_loop compare_waiters first_waiter waiter picked_waiter w error =
     (case waiter of
        None \<Rightarrow> Some (picked_waiter, w, error)
      | Some lo \<Rightarrow>
          (let (picked_waiter, w) =
             (if owner_has LOCK_OWNER_WT (lm_owner w lo) then
                (case picked_waiter of
                   None \<Rightarrow> (Some lo, w)
                 | Some picked \<Rightarrow>
                     if compare_waiters (lm_owner w picked) (lm_owner w lo) > 0
                     then (Some lo, if picked \<noteq> first_waiter
                                    then picotm_lock_owner_unlock picked w else w)
                     else (picked_waiter, w))
              else (picked_waiter, w));
             next_waiter = lo_next (lm_owner w lo);
             (w, error) =
               (case next_waiter of None \<Rightarrow> (w, error)
                | Some nxt \<Rightarrow> picotm_lock_owner_lock nxt w error)
           in if next_waiter \<noteq> None \<and> picotm_error_is_set error then
                (let w = (if lo \<noteq> first_waiter then picotm_lock_owner_unlock lo w else w);
                     w = (case picked_waiter of None \<Rightarrow> w
                          | Some picked \<Rightarrow>
                              if picked \<noteq> first_waiter \<and> picked \<noteq> lo
                              then picotm_lock_owner_unlock picked w else w)
                 in Some (None, w, error))
              else
                (let w = (if Some lo \<noteq> picked_waiter \<and> lo \<noteq> first_waiter
                          then picotm_lock_owner_unlock lo w else w)
                 in pick_waiter_loop compare_waiters first_waiter next_waiter picked_waiter w error)))"

definition pick_waiter ::
  "pointer \<Rightarrow> (picotm_lock_owner \<Rightarrow> picotm_lock_owner \<Rightarrow> int) \<Rightarrow> 's lm_world \<Rightarrow> picotm_error \<Rightarrow>
   (pointer option \<times> 's lm_world \<times> picotm_error) option"
where
  "pick_waiter first_waiter compare_waiters w error =
     pick_waiter_loop compare_waiters first_waiter (Some first_waiter) None w error"

definition compare_longest_waiting :: "picotm_lock_owner \<Rightarrow> picotm_lock_owner \<Rightarrow> int" where
  "compare_longest_waiting old_waiter new_waiter = 1"

definition compare_longest_running :: "picotm_lock_owner \<Rightarrow> picotm_lock_owner \<Rightarrow> int" where
  "compare_longest_running old_waiter new_waiter =
     picotm_os_timespec_compare (picotm_lock_owner_get_timestamp old_waiter)
       (picotm_lock_owner_get_timestamp new_waiter)"

definition compare_shortest_waiting :: "picotm_lock_owner \<Rightarrow> picotm_lock_owner \<Rightarrow> int" where
  "compare_shortest_waiting old_waiter new_waiter = 0"

definition compare_waiters :: "(picotm_lock_owner \<Rightarrow> picotm_lock_owner \<Rightarrow> int) list" where
  "compare_waiters = [compare_longest_waiting, compare_longest_running, compare_shortest_waiting]"

text \<open>
  The loop that wakes up all waiting readers.  On its error exits the code releases the locks it
  believes to hold.
\<close>

partial_function (option) wake_up_readers_loop ::
  "pointer option \<Rightarrow> pointer option \<Rightarrow> 's lm_world \<Rightarrow> picotm_error \<Rightarrow>
   ('s lm_world \<times> picotm_error) option"
where
  "wake_up_readers_loop prec_waiter waiter w error =
     (case waiter of
        None \<Rightarrow> Some (lo_rwlock_unlock w, error)
      | Some lo \<Rightarrow>
          (let wakes = (owner_has LOCK_OWNER_RD (lm_owner w lo)
                        \<and> owner_has LOCK_OWNER_WT (lm_owner w lo));
               (w, error) = (if wakes then picotm_lock_owner_wake_up lo w error else (w, error))
           in if wakes \<and> picotm_error_is_set error then
                (let w = (case prec_waiter of None \<Rightarrow> w
                          | Some prec \<Rightarrow> picotm_lock_owner_unlock prec w);
                     w = picotm_lock_owner_unlock lo w
                 in Some (lo_rwlock_unlock w, error))
              else
                (case lo_next (lm_owner w lo) of
                   None \<Rightarrow> wake_up_readers_loop (Some lo) None (picotm_lock_owner_unlock lo w) error
                 | Some nxt \<Rightarrow>
                     (let (w, error) = picotm_lock_owner_lock nxt w error in
                      if picotm_error_is_set error
                      then Some (lo_rwlock_unlock (picotm_lock_owner_unlock lo w), error)
                      else wake_up_readers_loop (Some lo) (Some nxt)
                             (picotm_lock_owner_unlock lo w) error))))"

definition picotm_lock_manager_wake_up ::
  "bool \<Rightarrow> 's picotm_lock_slist_funcs \<Rightarrow> 's lm_world \<Rightarrow> picotm_error \<Rightarrow>
   ('s lm_world \<times> picotm_error) option"
where
  "picotm_lock_manager_wake_up concurrent_readers_supported funcs w error =
     (let (w, error) = lo_rwlock_lock Rdlocked w error in
      if picotm_error_is_set error then Some (w, error)
      else
        (case get_first_waiter funcs w error of
           None \<Rightarrow> None
         | Some (first_waiter, w, error) \<Rightarrow>
             if picotm_error_is_set error then Some (lo_rwlock_unlock w, error)
             else
               (case first_waiter of
                  None \<Rightarrow> Some (lo_rwlock_unlock w, error)
                | Some first \<Rightarrow>
                    (case pick_waiter first (compare_waiters ! 0) w error of
                       None \<Rightarrow> None
                     | Some (picked_waiter, w, error) \<Rightarrow>
                         if picotm_error_is_set error
                         then Some (lo_rwlock_unlock (picotm_lock_owner_unlock first w), error)
                         else
                           (case picked_waiter of
                              None \<Rightarrow>
                                Some (lo_rwlock_unlock (picotm_lock_owner_unlock first w), error)
                            | Some picked \<Rightarrow>
                                (let (w, error) = picotm_lock_owner_wake_up picked w error in
                                 if picotm_error_is_set error then
                                   Some (lo_rwlock_unlock (picotm_lock_owner_unlock first
                                           (picotm_lock_owner_unlock picked w)), error)
                                 else
                                   (let wake_up_all_readers =
                                          (concurrent_readers_supported
                                           \<and> owner_has LOCK_OWNER_RD (lm_owner w picked));
                                        w = (if picked \<noteq> first
                                             then picotm_lock_owner_unlock picked w else w)
                                    in if wake_up_all_readers
                                       then wake_up_readers_loop None (Some first) w error
                                       else Some (lo_rwlock_unlock
                                                    (picotm_lock_owner_unlock first w), error))))))))"

subsection \<open>What the elementary operations do\<close>

definition next_rc :: "'s lm_world \<Rightarrow> int" where
  "next_rc w = (case lm_rcs w of [] \<Rightarrow> 0 | rc # _ \<Rightarrow> rc)"

lemma os_call_eq: "os_call w = (next_rc w, w\<lparr>lm_rcs := tl (lm_rcs w)\<rparr>)"
  by (cases "lm_rcs w") (simp_all add: os_call_def next_rc_def)

lemma errno_is_set [error_simps]: "picotm_error_is_set (picotm_error_set_errno e n)"
  by (simp add: picotm_error_is_set_def picotm_error_set_errno_def)

lemma owner_lock_eq [lock_simps]:
  "m \<notin> lm_mutexes w \<Longrightarrow>
   picotm_lock_owner_lock m w e =
     (if next_rc w = 0
      then (w\<lparr>lm_mutexes := insert m (lm_mutexes w), lm_rcs := tl (lm_rcs w)\<rparr>, e)
      else (w\<lparr>lm_rcs := tl (lm_rcs w)\<rparr>, picotm_error_set_errno e (next_rc w)))"
  by (simp add: picotm_lock_owner_lock_def picotm_os_mutex_lock_def os_call_eq)

lemma owner_unlock_eq [lock_simps]:
  "m \<in> lm_mutexes w \<Longrightarrow> picotm_lock_owner_unlock m w = w\<lparr>lm_mutexes := lm_mutexes w - {m}\<rparr>"
  by (simp add: picotm_lock_owner_unlock_def picotm_os_mutex_unlock_def)

lemma lo_rwlock_lock_eq [lock_simps]:
  "lm_lo_rwlock w = None \<Longrightarrow>
   lo_rwlock_lock mode w e =
     (if next_rc w = 0 then (w\<lparr>lm_lo_rwlock := Some mode, lm_rcs := tl (lm_rcs w)\<rparr>, e)
      else (w\<lparr>lm_rcs := tl (lm_rcs w)\<rparr>, picotm_error_set_errno e (next_rc w)))"
  by (simp add: lo_rwlock_lock_def os_call_eq)

lemma lo_rwlock_unlock_eq [lock_simps]:
  "lm_lo_rwlock w \<noteq> None \<Longrightarrow> lo_rwlock_unlock w = w\<lparr>lm_lo_rwlock := None\<rparr>"
  by (auto simp: lo_rwlock_unlock_def)

lemma lm_mutexes_same: "lm_mutexes w = M \<Longrightarrow> w\<lparr>lm_mutexes := M\<rparr> = w"
  by (cases w) simp

subsection \<open>The chain of waiters\<close>

text \<open>
  \<open>waiter_list f p xs\<close>: following the \<open>next\<close> pointers from \<open>p\<close> visits exactly the owners \<open>xs\<close>.
\<close>

fun waiter_list :: "(pointer \<Rightarrow> picotm_lock_owner) \<Rightarrow> pointer option \<Rightarrow> pointer list \<Rightarrow> bool" where
  "waiter_list f p [] \<longleftrightarrow> p = None"
| "waiter_list f p (x # xs) \<longleftrightarrow> p = Some x \<and> waiter_list f (lo_next (f x)) xs"

text \<open>The waiter that \<open>pick_waiter\<close> is to select, as a function of the chain.\<close>

fun pick_from ::
  "(picotm_lock_owner \<Rightarrow> picotm_lock_owner \<Rightarrow> int) \<Rightarrow> (pointer \<Rightarrow> picotm_lock_owner) \<Rightarrow>
   pointer option \<Rightarrow> pointer list \<Rightarrow> pointer option"
where
  "pick_from cmp f picked [] = picked"
| "pick_from cmp f picked (x # xs) =
     pick_from cmp f
       (if owner_has LOCK_OWNER_WT (f x) then
          (case picked of None \<Rightarrow> Some x
           | Some p \<Rightarrow> if cmp (f p) (f x) > 0 then Some x else picked)
        else picked) xs"

lemma pick_from_mem:
  "pick_from cmp f picked xs = Some p \<Longrightarrow> picked = Some p \<or> p \<in> set xs"
  by (induction xs arbitrary: picked) (auto split: if_splits option.splits)

lemma pick_from_waiting:
  "pick_from cmp f picked xs = Some p \<Longrightarrow>
   picked = Some p \<or> owner_has LOCK_OWNER_WT (f p)"
  by (induction xs arbitrary: picked) (auto split: if_splits option.splits)

lemma pick_from_longest_waiting:
  "pick_from compare_longest_waiting f picked xs =
     (if \<exists>x\<in>set xs. owner_has LOCK_OWNER_WT (f x)
      then Some (last (filter (\<lambda>x. owner_has LOCK_OWNER_WT (f x)) xs)) else picked)"
  by (induction xs arbitrary: picked)
    (auto simp: compare_longest_waiting_def filter_empty_conv split: option.splits)

lemma pick_waiter_loop_spec:
  fixes w :: "'s lm_world"
  assumes "waiter_list (lm_owner w) waiter xs" and "distinct xs" and "\<not> picotm_error_is_set e"
    and "lm_mutexes w = B \<union> {first} \<union> set_option picked \<union> set_option waiter"
    and "B \<inter> ({first} \<union> set_option picked \<union> set xs) = {}"
    and "set_option picked \<inter> set xs = {}" and "first \<notin> set (tl xs)"
  shows "\<exists>r e' rcs. pick_waiter_loop cmp first waiter picked w e =
      Some (r, w\<lparr>lm_mutexes := B \<union> {first} \<union> set_option r, lm_rcs := rcs\<rparr>, e') \<and>
      r = (if picotm_error_is_set e' then None else pick_from cmp (lm_owner w) picked xs) \<and>
      ((\<forall>rc\<in>set (lm_rcs w). rc = 0) \<longrightarrow> e' = e \<and> (\<forall>rc\<in>set rcs. rc = 0))"
  using assms
proof (induction xs arbitrary: waiter picked w)
  case Nil
  then have "lm_mutexes w = B \<union> {first} \<union> set_option picked" by simp
  with Nil show ?case
    by (intro exI [of _ picked] exI [of _ e] exI [of _ "lm_rcs w"])
      (auto simp: pick_waiter_loop.simps)
next
  case (Cons x xs)
  define picked' where "picked' = (if owner_has LOCK_OWNER_WT (lm_owner w x) then
     (case picked of None \<Rightarrow> Some x
      | Some p \<Rightarrow> if cmp (lm_owner w p) (lm_owner w x) > 0 then Some x else picked) else picked)"
  define M1 where "M1 = B \<union> {first, x} \<union> set_option picked'"
  define w1 where "w1 = w\<lparr>lm_mutexes := M1\<rparr>"
  have waiter: "waiter = Some x" using Cons.prems by simp
  have held: "lm_mutexes w = B \<union> {first, x} \<union> set_option picked"
    using Cons.prems waiter by auto
  have upd: "(if owner_has LOCK_OWNER_WT (lm_owner w x) then
       (case picked of None \<Rightarrow> (Some x, w)
        | Some p \<Rightarrow> if cmp (lm_owner w p) (lm_owner w x) > 0
            then (Some x, if p \<noteq> first then picotm_lock_owner_unlock p w else w)
            else (picked, w)) else (picked, w)) = (picked', w1)"
  proof (cases "owner_has LOCK_OWNER_WT (lm_owner w x) \<and>
      (\<exists>p. picked = Some p \<and> p \<noteq> first \<and> cmp (lm_owner w p) (lm_owner w x) > 0)")
    case True
    then obtain p where p: "picked = Some p" "p \<noteq> first" by blast
    then have "p \<in> lm_mutexes w" "lm_mutexes w - {p} = M1"
      using True held Cons.prems by (auto simp: M1_def picked'_def)
    with True p show ?thesis by (simp add: picked'_def w1_def lock_simps)
  next
    case False
    then have "lm_mutexes w = M1"
      using held by (auto simp: M1_def picked'_def split: option.splits)
    then have "w1 = w" by (simp add: w1_def lm_mutexes_same)
    with False show ?thesis by (auto simp: picked'_def split: option.splits)
  qed
  have x: "x \<in> lm_mutexes w1" "x \<notin> set xs" "x \<notin> B" using Cons.prems by (auto simp: w1_def M1_def)
  have picked': "set_option picked' \<inter> set xs = {}" "B \<inter> set_option picked' = {}"
    using Cons.prems by (auto simp: picked'_def split: if_splits option.splits)
  show ?case
  proof (cases xs)
    case Nil
    then have next0: "lo_next (lm_owner w x) = None" using Cons.prems by simp
    have next0': "lm_owner w1 = lm_owner w" by (simp add: w1_def)
    define w2 where "w2 = w\<lparr>lm_mutexes := B \<union> {first} \<union> set_option picked'\<rparr>"
    have "(if Some x \<noteq> picked' \<and> x \<noteq> first then picotm_lock_owner_unlock x w1 else w1) = w2"
    proof (cases "Some x \<noteq> picked' \<and> x \<noteq> first")
      case True
      then have "lm_mutexes w1 - {x} = B \<union> {first} \<union> set_option picked'" using x by (auto simp: w1_def M1_def)
      with True x show ?thesis by (simp add: lock_simps) (simp add: w1_def w2_def M1_def)
    qed (auto simp: w1_def w2_def M1_def insert_commute)
    then have "pick_waiter_loop cmp first waiter picked w e = Some (picked', w2, e)"
      unfolding waiter pick_waiter_loop.simps [of cmp first "Some x"] option.case upd prod.case Let_def
      by (simp add: next0 next0' pick_waiter_loop.simps [of _ _ None])
    then show ?thesis using Nil Cons.prems
      by (intro exI [of _ picked'] exI [of _ e] exI [of _ "lm_rcs w"])
        (auto simp: w2_def picked'_def)
  next
    case (Cons y ys)
    then have next1: "lo_next (lm_owner w x) = Some y" using Cons.prems by simp
        have y: "y \<notin> lm_mutexes w1" using Cons Cons.prems picked' x by (auto simp: w1_def M1_def)
    have next1': "lo_next (lm_owner w1 x) = Some y" by (simp add: w1_def next1)
    have step: "pick_waiter_loop cmp first waiter picked w e =
       (let (w', e') = picotm_lock_owner_lock y w1 e in
        if picotm_error_is_set e' then
          (let w' = (if x \<noteq> first then picotm_lock_owner_unlock x w' else w');
               w' = (case picked' of None \<Rightarrow> w'
                     | Some p \<Rightarrow> if p \<noteq> first \<and> p \<noteq> x then picotm_lock_owner_unlock p w' else w')
           in Some (None, w', e'))
        else pick_waiter_loop cmp first (Some y) picked'
               (if Some x \<noteq> picked' \<and> x \<noteq> first then picotm_lock_owner_unlock x w' else w') e')"
      unfolding waiter pick_waiter_loop.simps [of cmp first "Some x"] option.case upd prod.case Let_def
        next1' by (simp split: prod.splits)
    show ?thesis
    proof (cases "next_rc w = 0")
      case True
      define w3 where
        "w3 = w\<lparr>lm_mutexes := B \<union> {first} \<union> set_option picked' \<union> {y}, lm_rcs := tl (lm_rcs w)\<rparr>"
      have lock: "picotm_lock_owner_lock y w1 e =
          (w1\<lparr>lm_mutexes := insert y (lm_mutexes w1), lm_rcs := tl (lm_rcs w)\<rparr>, e)"
        using y True by (simp add: lock_simps) (simp add: w1_def next_rc_def)
      have "(if Some x \<noteq> picked' \<and> x \<noteq> first
             then picotm_lock_owner_unlock x (fst (picotm_lock_owner_lock y w1 e))
             else fst (picotm_lock_owner_lock y w1 e)) = w3"
      proof (cases "Some x \<noteq> picked' \<and> x \<noteq> first")
        case True
        then have "insert y M1 - {x} = B \<union> {first} \<union> set_option picked' \<union> {y}" "x \<in> M1"
          using x y Cons by (auto simp: w1_def M1_def)
        with True show ?thesis unfolding lock by (simp add: w1_def w3_def owner_unlock_eq)
      next
        case False
        then have "insert y M1 = B \<union> {first} \<union> set_option picked' \<union> {y}" by (auto simp: M1_def)
        with False show ?thesis unfolding lock by (simp only: fst_conv if_False) (simp add: w1_def w3_def)
      qed
      then have go: "pick_waiter_loop cmp first waiter picked w e =
          pick_waiter_loop cmp first (Some y) picked' w3 e"
        using Cons.prems(3) by (simp only: step lock Let_def prod.case fst_conv if_False)
      have "\<exists>r e' rcs. pick_waiter_loop cmp first (Some y) picked' w3 e =
          Some (r, w3\<lparr>lm_mutexes := B \<union> {first} \<union> set_option r, lm_rcs := rcs\<rparr>, e') \<and>
          r = (if picotm_error_is_set e' then None else pick_from cmp (lm_owner w3) picked' xs) \<and>
          ((\<forall>rc\<in>set (lm_rcs w3). rc = 0) \<longrightarrow> e' = e \<and> (\<forall>rc\<in>set rcs. rc = 0))"
        using Cons Cons.prems picked' next1 by (intro Cons.IH) (auto simp: w3_def)
      then obtain r e' rcs where rest: "pick_waiter_loop cmp first (Some y) picked' w3 e =
          Some (r, w3\<lparr>lm_mutexes := B \<union> {first} \<union> set_option r, lm_rcs := rcs\<rparr>, e')"
        "r = (if picotm_error_is_set e' then None else pick_from cmp (lm_owner w3) picked' xs)"
        "(\<forall>rc\<in>set (lm_rcs w3). rc = 0) \<longrightarrow> e' = e \<and> (\<forall>rc\<in>set rcs. rc = 0)"
        by (elim exE conjE) (rule that; assumption)
      have eqw: "w3\<lparr>lm_mutexes := B \<union> {first} \<union> set_option r, lm_rcs := rcs\<rparr> =
          w\<lparr>lm_mutexes := B \<union> {first} \<union> set_option r, lm_rcs := rcs\<rparr>"
        by (simp add: w3_def)
      have pk: "pick_from cmp (lm_owner w3) picked' xs = pick_from cmp (lm_owner w) picked (x # xs)"
        by (simp add: w3_def picked'_def)
      have rc0: "(\<forall>rc\<in>set (lm_rcs w). rc = 0) \<longrightarrow> (\<forall>rc\<in>set (lm_rcs w3). rc = 0)"
        by (cases "lm_rcs w") (auto simp: w3_def)
      show ?thesis
      proof (intro exI conjI)
        show "pick_waiter_loop cmp first waiter picked w e =
            Some (r, w\<lparr>lm_mutexes := B \<union> {first} \<union> set_option r, lm_rcs := rcs\<rparr>, e')"
          using go rest(1) unfolding eqw by (rule trans)
        show "r = (if picotm_error_is_set e' then None else pick_from cmp (lm_owner w) picked (x # xs))"
          using rest(2) unfolding pk .
        show "(\<forall>rc\<in>set (lm_rcs w). rc = 0) \<longrightarrow> e' = e \<and> (\<forall>rc\<in>set rcs. rc = 0)"
          by (intro impI mp [OF rest(3)] mp [OF rc0])
      qed
    next
      case False
      define w2 where "w2 = w\<lparr>lm_mutexes := M1, lm_rcs := tl (lm_rcs w)\<rparr>"
      have lock: "picotm_lock_owner_lock y w1 e = (w2, picotm_error_set_errno e (next_rc w1))"
        using y False by (simp add: lock_simps) (simp add: w1_def w2_def next_rc_def)
      define w3 where "w3 = (if x \<noteq> first then picotm_lock_owner_unlock x w2 else w2)"
      have w3: "w3 = w\<lparr>lm_mutexes := if x \<noteq> first then M1 - {x} else M1, lm_rcs := tl (lm_rcs w)\<rparr>"
        using x by (auto simp: w3_def w2_def lock_simps w1_def)
      have "(case picked' of None \<Rightarrow> w3
             | Some p \<Rightarrow> if p \<noteq> first \<and> p \<noteq> x then picotm_lock_owner_unlock p w3 else w3) =
          w\<lparr>lm_mutexes := B \<union> {first}, lm_rcs := tl (lm_rcs w)\<rparr>"
      proof (cases "\<exists>p. picked' = Some p \<and> p \<noteq> first \<and> p \<noteq> x")
        case True
        then obtain p where p: "picked' = Some p" "p \<noteq> first" "p \<noteq> x" by blast
        then have "(if x \<noteq> first then M1 - {x} else M1) - {p} = B \<union> {first}"
          using x picked' by (auto simp: M1_def)
        with p show ?thesis unfolding w3 by (simp add: owner_unlock_eq M1_def)
      next
        case False
        then have "(if x \<noteq> first then M1 - {x} else M1) = B \<union> {first}"
          using x by (auto simp: M1_def)
        with False show ?thesis unfolding w3 by (auto split: option.splits)
      qed
      then have "pick_waiter_loop cmp first waiter picked w e =
          Some (None, w\<lparr>lm_mutexes := B \<union> {first}, lm_rcs := tl (lm_rcs w)\<rparr>,
                picotm_error_set_errno e (next_rc w1))"
        by (simp only: step lock Let_def prod.case w3_def [symmetric] errno_is_set if_True)
      moreover have "\<not> (\<forall>rc\<in>set (lm_rcs w). rc = 0)"
        using False by (auto simp: next_rc_def split: list.splits)
      ultimately show ?thesis
        by (intro exI [of _ None] exI [of _ "picotm_error_set_errno e (next_rc w1)"]
            exI [of _ "tl (lm_rcs w)"]) (auto simp: error_simps)
    qed
  qed
qed

lemma pick_waiter_spec:
  assumes "waiter_list (lm_owner w) (Some first) xs" and "distinct xs"
    and "\<not> picotm_error_is_set e" and "lm_mutexes w = {first}"
  obtains r e' rcs where "pick_waiter first cmp w e =
      Some (r, w\<lparr>lm_mutexes := {first} \<union> set_option r, lm_rcs := rcs\<rparr>, e')"
    and "r = (if picotm_error_is_set e' then None else pick_from cmp (lm_owner w) None xs)"
    and "(\<forall>rc\<in>set (lm_rcs w). rc = 0) \<Longrightarrow> e' = e \<and> (\<forall>rc\<in>set rcs. rc = 0)"
proof -
  have "first \<notin> set (tl xs)" using assms(1,2) by (cases xs) auto
  then have "\<exists>r e' rcs. pick_waiter_loop cmp first (Some first) None w e =
      Some (r, w\<lparr>lm_mutexes := {} \<union> {first} \<union> set_option r, lm_rcs := rcs\<rparr>, e') \<and>
      r = (if picotm_error_is_set e' then None else pick_from cmp (lm_owner w) None xs) \<and>
      ((\<forall>rc\<in>set (lm_rcs w). rc = 0) \<longrightarrow> e' = e \<and> (\<forall>rc\<in>set rcs. rc = 0))"
    using assms by (intro pick_waiter_loop_spec) auto
  then obtain r e' rcs where *: "pick_waiter_loop cmp first (Some first) None w e =
      Some (r, w\<lparr>lm_mutexes := {first} \<union> set_option r, lm_rcs := rcs\<rparr>, e')"
    "r = (if picotm_error_is_set e' then None else pick_from cmp (lm_owner w) None xs)"
    "(\<forall>rc\<in>set (lm_rcs w). rc = 0) \<longrightarrow> e' = e \<and> (\<forall>rc\<in>set rcs. rc = 0)"
    unfolding Un_empty_left by (elim exE conjE) (rule that; assumption)
  show thesis
    by (rule that [OF _ *(2)], unfold pick_waiter_def, rule *(1), rule mp [OF *(3)])
qed

lemma pick_waiter_ok:
  assumes "waiter_list (lm_owner w) (Some first) xs" and "distinct xs"
    and "\<not> picotm_error_is_set e" and "lm_mutexes w = {first}" and "\<forall>rc\<in>set (lm_rcs w). rc = 0"
  shows "\<exists>rcs. pick_waiter first cmp w e =
      Some (pick_from cmp (lm_owner w) None xs,
            w\<lparr>lm_mutexes := {first} \<union> set_option (pick_from cmp (lm_owner w) None xs), lm_rcs := rcs\<rparr>, e)
    \<and> (\<forall>rc\<in>set rcs. rc = 0)"
proof (rule pick_waiter_spec [OF assms(1-4), of cmp])
  fix r e' rcs
  assume *: "pick_waiter first cmp w e =
      Some (r, w\<lparr>lm_mutexes := {first} \<union> set_option r, lm_rcs := rcs\<rparr>, e')"
    "r = (if picotm_error_is_set e' then None else pick_from cmp (lm_owner w) None xs)"
    "(\<forall>rc\<in>set (lm_rcs w). rc = 0) \<Longrightarrow> e' = e \<and> (\<forall>rc\<in>set rcs. rc = 0)"
  have "e' = e" "\<forall>rc\<in>set rcs. rc = 0" using *(3) [OF assms(5)] by blast+
  moreover have "r = pick_from cmp (lm_owner w) None xs"
    using *(2) assms(3) \<open>e' = e\<close> by (simp only: if_False)
  ultimately show ?thesis using *(1) by (intro exI [of _ rcs] conjI) (simp_all only:)
qed

subsection \<open>Waking up all readers\<close>

definition waits_for_reading :: "picotm_lock_owner \<Rightarrow> bool" where
  "waits_for_reading lo \<longleftrightarrow> owner_has LOCK_OWNER_RD lo \<and> owner_has LOCK_OWNER_WT lo"

definition wake_owners ::
  "pointer set \<Rightarrow> (pointer \<Rightarrow> picotm_lock_owner) \<Rightarrow> pointer \<Rightarrow> picotm_lock_owner"
where
  "wake_owners ps f = (\<lambda>p. if p \<in> ps then owner_clear LOCK_OWNER_WT (f p) else f p)"

lemma waiter_list_next_cong:
  "(\<And>x. lo_next (g x) = lo_next (f x)) \<Longrightarrow> waiter_list g p xs = waiter_list f p xs"
  by (induction xs arbitrary: p) auto

lemma owner_wake_up_eq [lock_simps]:
  "next_rc w = 0 \<Longrightarrow> picotm_lock_owner_wake_up p w e =
     (w\<lparr>lm_owner := wake_owners {p} (lm_owner w), lm_woken := lm_woken w @ [p],
        lm_rcs := tl (lm_rcs w)\<rparr>, e)"
  by (simp add: picotm_lock_owner_wake_up_def picotm_os_cond_wake_up_def lm_update_owner_def
        os_call_eq next_rc_def wake_owners_def fun_eq_iff cong: option.case_cong)

lemma next_rc_0: "\<forall>rc\<in>set (lm_rcs w). rc = 0 \<Longrightarrow> next_rc w = 0"
  by (simp add: next_rc_def split: list.splits)

lemma set_tl_0: "\<forall>rc\<in>set xs. rc = (0::int) \<Longrightarrow> \<forall>rc\<in>set (tl xs). rc = 0"
  by (cases xs) auto

lemma wake_up_readers_loop_spec:
  fixes w :: "'s lm_world"
  assumes "waiter_list (lm_owner w) waiter xs" and "distinct xs" and "\<not> picotm_error_is_set e"
    and "lm_mutexes w = set_option waiter" and "lm_lo_rwlock w \<noteq> None"
    and "\<forall>rc\<in>set (lm_rcs w). rc = 0"
  defines "rd \<equiv> \<lambda>p. waits_for_reading (lm_owner w p)"
  shows "\<exists>rcs. wake_up_readers_loop prec waiter w e =
     Some (w\<lparr>lm_owner := wake_owners {p \<in> set xs. rd p} (lm_owner w), lm_mutexes := {},
             lm_lo_rwlock := None, lm_woken := lm_woken w @ filter rd xs, lm_rcs := rcs\<rparr>, e)"
  using assms(1-6) unfolding rd_def
proof (induction xs arbitrary: waiter prec w)
  case Nil
  then show ?case
    by (intro exI [of _ "lm_rcs w"])
      (simp add: wake_up_readers_loop.simps lock_simps lm_mutexes_same wake_owners_def)
next
  case (Cons x xs)
  have waiter: "waiter = Some x" using Cons.prems by simp
  define wakes where "wakes = waits_for_reading (lm_owner w x)"
  define w1 where "w1 = (if wakes then w\<lparr>lm_owner := wake_owners {x} (lm_owner w),
      lm_woken := lm_woken w @ [x], lm_rcs := tl (lm_rcs w)\<rparr> else w)"
  define w2 where "w2 = w1\<lparr>lm_mutexes := set_option (lo_next (lm_owner w x)),
      lm_rcs := if xs = [] then lm_rcs w1 else tl (lm_rcs w1)\<rparr>"
  have w1: "(if wakes then picotm_lock_owner_wake_up x w e else (w, e)) = (w1, e)"
    using Cons.prems by (simp add: w1_def lock_simps next_rc_0)
  have rcs1: "\<forall>rc\<in>set (lm_rcs w1). rc = 0"
    using Cons.prems by (simp add: w1_def set_tl_0)
  have next_w1: "lo_next (lm_owner w1 x) = lo_next (lm_owner w x)"
    by (simp add: w1_def wake_owners_def)
  have mutexes1: "lm_mutexes w1 = {x}" using Cons.prems by (simp add: w1_def)
  have go: "wake_up_readers_loop prec waiter w e =
      wake_up_readers_loop (Some x) (lo_next (lm_owner w x)) w2 e"
  proof (cases xs)
    case Nil
    then have none: "lo_next (lm_owner w x) = None" using Cons.prems by simp
    have "picotm_lock_owner_unlock x w1 = w2"
      using mutexes1 Nil none by (simp add: w2_def owner_unlock_eq)
    then show ?thesis
      unfolding waiter wake_up_readers_loop.simps [of prec "Some x"] option.case
        wakes_def [unfolded waits_for_reading_def, symmetric] w1 prod.case Let_def next_w1 none
      using Cons.prems(3) by simp
  next
    case (Cons y ys)
    then have some: "lo_next (lm_owner w x) = Some y" and xy: "x \<noteq> y" using Cons.prems by auto
    define w1' where "w1' = w1\<lparr>lm_mutexes := {x, y}, lm_rcs := tl (lm_rcs w1)\<rparr>"
    have "picotm_lock_owner_lock y w1 e = (w1', e)"
      using mutexes1 xy rcs1 by (simp add: owner_lock_eq next_rc_0 w1'_def insert_commute)
    moreover have "picotm_lock_owner_unlock x w1' = w2"
    proof -
      have "{x, y} - {x} = {y}" using xy by auto
      with Cons some show ?thesis by (simp add: w2_def w1'_def owner_unlock_eq)
    qed
    ultimately show ?thesis
      unfolding waiter wake_up_readers_loop.simps [of prec "Some x"] option.case
        wakes_def [unfolded waits_for_reading_def, symmetric] w1 prod.case Let_def next_w1 some
      using Cons.prems(3) by simp
  qed
  have list2: "waiter_list (lm_owner w2) (lo_next (lm_owner w x)) xs"
  proof -
    have "lo_next (lm_owner w2 p) = lo_next (lm_owner w p)" for p
      by (simp add: w2_def w1_def wake_owners_def)
    then show ?thesis using Cons.prems by (subst waiter_list_next_cong) auto
  qed
  have reading2: "waits_for_reading (lm_owner w2 p) = waits_for_reading (lm_owner w p)" if "p \<noteq> x" for p
    using that by (simp add: w2_def w1_def wake_owners_def)
  have "\<exists>rcs. wake_up_readers_loop (Some x) (lo_next (lm_owner w x)) w2 e =
     Some (w2\<lparr>lm_owner := wake_owners {p \<in> set xs. waits_for_reading (lm_owner w2 p)} (lm_owner w2),
              lm_mutexes := {}, lm_lo_rwlock := None,
              lm_woken := lm_woken w2 @ filter (\<lambda>p. waits_for_reading (lm_owner w2 p)) xs,
              lm_rcs := rcs\<rparr>, e)"
  proof (intro Cons.IH list2)
    show "lm_lo_rwlock w2 \<noteq> None" using Cons.prems by (simp add: w2_def w1_def)
    show "\<forall>rc\<in>set (lm_rcs w2). rc = 0" using rcs1 by (simp add: w2_def set_tl_0)
  qed (use Cons.prems in \<open>auto simp: w2_def\<close>)
  then obtain rcs where rest: "wake_up_readers_loop (Some x) (lo_next (lm_owner w x)) w2 e =
     Some (w2\<lparr>lm_owner := wake_owners {p \<in> set xs. waits_for_reading (lm_owner w2 p)} (lm_owner w2),
              lm_mutexes := {}, lm_lo_rwlock := None,
              lm_woken := lm_woken w2 @ filter (\<lambda>p. waits_for_reading (lm_owner w2 p)) xs,
              lm_rcs := rcs\<rparr>, e)" ..
  have x: "x \<notin> set xs" using Cons.prems by simp
  have set2: "{p \<in> set xs. waits_for_reading (lm_owner w2 p)} =
      {p \<in> set xs. waits_for_reading (lm_owner w p)}"
    using x by (intro Collect_cong conj_cong refl reading2) auto
  have filter2: "filter (\<lambda>p. waits_for_reading (lm_owner w2 p)) xs =
      filter (\<lambda>p. waits_for_reading (lm_owner w p)) xs"
    using x by (intro filter_cong refl reading2) auto
  have wake2: "wake_owners {p \<in> set xs. waits_for_reading (lm_owner w p)} (lm_owner w2) =
      wake_owners {p \<in> set (x # xs). waits_for_reading (lm_owner w p)} (lm_owner w)"
    using x by (auto simp: wake_owners_def w2_def w1_def wakes_def fun_eq_iff)
  have woken2: "lm_woken w2 @ filter (\<lambda>p. waits_for_reading (lm_owner w p)) xs =
      lm_woken w @ filter (\<lambda>p. waits_for_reading (lm_owner w p)) (x # xs)"
    by (simp add: w2_def w1_def wakes_def)
  show ?case
    unfolding go rest set2 filter2 wake2 woken2
    by (intro exI [of _ rcs]) (simp add: w2_def w1_def)
qed

text \<open>A world without owners and with calls that all succeed, for the witnesses of the properties.\<close>

definition fresh_owner :: picotm_lock_owner where
  "fresh_owner = \<lparr>lo_flags = 0, lo_next = None, lo_timestamp = \<lparr>tv_sec = 0, tv_nsec = 0\<rparr>\<rparr>"

definition fresh_world :: "'s \<Rightarrow> 's lm_world" where
  "fresh_world slist =
     \<lparr>lm_owner = (\<lambda>_. fresh_owner), lm_mutexes = {}, lm_lo_rwlock = None, lm_lo = [],
      lm_exclusive_lo_lock = None, lm_exclusive_lo = None, lm_slist = slist, lm_woken = [],
      lm_rcs = [], lm_fault = False\<rparr>"

end
