(* ===== verification/Picotm_Tx.thy ===== *)
theory Picotm_Tx
  imports Picotm_Log Picotm_Lock_Manager
begin

text \<open>
  Modules and transactions (\<open>src/picotm_module.c\<close>, \<open>src/picotm_event.c\<close>, \<open>src/picotm_tx.c\<close>).  A module is a
  table of optional call-backs with a data pointer; the call-backs act on a state \<open>'w\<close> that the
  transaction system does not look into.  The transaction's lock owner lives in the world of the
  lock manager under the address \<open>tx_lo\<close>.
\<close>

subsection \<open>Modules\<close>

type_synonym 'w module_call = "'w \<Rightarrow> picotm_error \<Rightarrow> 'w \<times> picotm_error"

record 'w picotm_module_ops =
  mop_begin :: "(pointer \<Rightarrow> 'w module_call) option"
  mop_prepare_commit :: "(pointer \<Rightarrow> bool \<Rightarrow> 'w module_call) option"
  mop_apply :: "(pointer \<Rightarrow> 'w module_call) option"
  mop_undo :: "(pointer \<Rightarrow> 'w module_call) option"
  mop_apply_event :: "(u16 \<Rightarrow> u64 \<Rightarrow> pointer \<Rightarrow> 'w module_call) option"
  mop_undo_event :: "(u16 \<Rightarrow> u64 \<Rightarrow> pointer \<Rightarrow> 'w module_call) option"
  mop_finish :: "(pointer \<Rightarrow> 'w module_call) option"
  mop_release :: "(pointer \<Rightarrow> 'w \<Rightarrow> 'w) option"

record 'w picotm_module =
  mod_ops :: "'w picotm_module_ops"
  mod_data :: pointer

definition picotm_module_init :: "'w picotm_module_ops \<Rightarrow> pointer \<Rightarrow> 'w picotm_module" where
  "picotm_module_init ops data = \<lparr>mod_ops = ops, mod_data = data\<rparr>"

definition picotm_module_release :: "'w picotm_module \<Rightarrow> 'w \<Rightarrow> 'w" where
  "picotm_module_release self w =
     (case mop_release (mod_ops self) of None \<Rightarrow> w | Some f \<Rightarrow> f (mod_data self) w)"

definition picotm_module_begin :: "'w picotm_module \<Rightarrow> 'w module_call" where
  "picotm_module_begin self w error =
     (case mop_begin (mod_ops self) of None \<Rightarrow> (w, error) | Some f \<Rightarrow> f (mod_data self) w error)"

definition picotm_module_prepare_commit :: "'w picotm_module \<Rightarrow> bool \<Rightarrow> 'w module_call" where
  "picotm_module_prepare_commit self noundo w error =
     (case mop_prepare_commit (mod_ops self) of
        None \<Rightarrow> (w, error) | Some f \<Rightarrow> f (mod_data self) noundo w error)"

definition picotm_module_apply :: "'w picotm_module \<Rightarrow> 'w module_call" where
  "picotm_module_apply self w error =
     (case mop_apply (mod_ops self) of None \<Rightarrow> (w, error) | Some f \<Rightarrow> f (mod_data self) w error)"

definition picotm_module_undo :: "'w picotm_module \<Rightarrow> 'w module_call" where
  "picotm_module_undo self w error =
     (case mop_undo (mod_ops self) of None \<Rightarrow> (w, error) | Some f \<Rightarrow> f (mod_data self) w error)"

definition picotm_module_apply_event :: "'w picotm_module \<Rightarrow> u16 \<Rightarrow> u64 \<Rightarrow> 'w module_call" where
  "picotm_module_apply_event self head tail w error =
     (case mop_apply_event (mod_ops self) of
        None \<Rightarrow> (w, error) | Some f \<Rightarrow> f head tail (mod_data self) w error)"

definition picotm_module_undo_event :: "'w picotm_module \<Rightarrow> u16 \<Rightarrow> u64 \<Rightarrow> 'w module_call" where
  "picotm_module_undo_event self head tail w error =
     (case mop_undo_event (mod_ops self) of
        None \<Rightarrow> (w, error) | Some f \<Rightarrow> f head tail (mod_data self) w error)"

definition picotm_module_finish :: "'w picotm_module \<Rightarrow> 'w module_call" where
  "picotm_module_finish self w error =
     (case mop_finish (mod_ops self) of None \<Rightarrow> (w, error) | Some f \<Rightarrow> f (mod_data self) w error)"

subsection \<open>Walking over events\<close>

function picotm_events_foreach1 ::
  "(picotm_event \<Rightarrow> 'w module_call) \<Rightarrow> picotm_event list \<Rightarrow> nat \<Rightarrow> nat \<Rightarrow> 'w module_call"
where
  "picotm_events_foreach1 call tab beg end w error =
     (if beg < end \<and> \<not> picotm_error_is_set error then
        (let (w, error) = call (tab ! beg) w error
         in picotm_events_foreach1 call tab (beg + 1) end w error)
      else (w, error))"
  by pat_completeness auto
termination
  by (relation "measure (\<lambda>(_, _, beg, end, _). end - beg)") auto

declare picotm_events_foreach1.simps [simp del]

function picotm_events_rev_foreach1 ::
  "(picotm_event \<Rightarrow> 'w module_call) \<Rightarrow> picotm_event list \<Rightarrow> nat \<Rightarrow> nat \<Rightarrow> 'w module_call"
where
  "picotm_events_rev_foreach1 call tab beg pos w error =
     (if beg < pos \<and> \<not> picotm_error_is_set error then
        (let (w, error) = call (tab ! (pos - 1)) w error
         in picotm_events_rev_foreach1 call tab beg (pos - 1) w error)
      else (w, error))"
  by pat_completeness auto
termination
  by (relation "measure (\<lambda>(_, _, beg, pos, _). pos - beg)") auto

declare picotm_events_rev_foreach1.simps [simp del]

subsection \<open>The transaction\<close>

datatype picotm_tx_mode = TX_MODE_REVOCABLE | TX_MODE_IRREVOCABLE

record 'w picotm_tx =
  tx_env :: "pointer option"
  tx_log :: picotm_log
  tx_mode :: picotm_tx_mode
  tx_nretries :: u64
  tx_lo :: pointer
  tx_module :: "'w picotm_module list"

definition TX_NRETRIES_LIMIT :: u64 where "TX_NRETRIES_LIMIT = 10"

definition MAX_NMODULES :: nat where "MAX_NMODULES = 256"

definition picotm_tx_init ::
  "pointer \<Rightarrow> 's lm_world \<Rightarrow> picotm_error \<Rightarrow> 'w picotm_tx \<times> 's lm_world \<times> picotm_error"
where
  "picotm_tx_init lo lm error =
     (let self = \<lparr>tx_env = None, tx_log = picotm_log_init, tx_mode = TX_MODE_REVOCABLE,
                  tx_nretries = 0, tx_lo = lo, tx_module = []\<rparr>;
          (lm, error) = picotm_lock_owner_init lo lm error
      in if picotm_error_is_set error then (self, lm, error)
         else
           (let (lm, error) = picotm_lock_manager_register_owner lo lm error
            in (self, lm, error)))"

definition picotm_tx_release :: "'w picotm_tx \<Rightarrow> 's lm_world \<Rightarrow> 'w \<Rightarrow> picotm_error + 's lm_world \<times> 'w" where
  "picotm_tx_release self lm w =
     (case picotm_lock_manager_unregister_owner (tx_lo self) lm of
        Inl error \<Rightarrow> Inl error
      | Inr lm \<Rightarrow> Inr (lm, fold picotm_module_release (tx_module self) w))"

definition picotm_tx_is_irrevocable :: "'w picotm_tx \<Rightarrow> bool" where
  "picotm_tx_is_irrevocable self \<longleftrightarrow> tx_mode self = TX_MODE_IRREVOCABLE"

definition picotm_tx_register_module ::
  "'w picotm_tx \<Rightarrow> 'w picotm_module_ops \<Rightarrow> pointer \<Rightarrow> picotm_error \<Rightarrow> nat \<times> 'w picotm_tx \<times> picotm_error"
where
  "picotm_tx_register_module self ops data error =
     (let module = length (tx_module self) in
      if module \<ge> MAX_NMODULES then (0, self, picotm_error_set_error_code error PICOTM_OUT_OF_MEMORY)
      else (module, self\<lparr>tx_module := tx_module self @ [picotm_module_init ops data]\<rparr>, error))"

definition picotm_tx_append_event ::
  "(picotm_event list, 'a) allocator \<Rightarrow> 'w picotm_tx \<Rightarrow> u64 \<Rightarrow> u16 \<Rightarrow> u64 \<Rightarrow> 'a heap_env \<Rightarrow> picotm_error \<Rightarrow>
   'w picotm_tx \<times> 'a heap_env \<times> picotm_error"
where
  "picotm_tx_append_event realloc self module head tail env error =
     (let (log, env, error) =
            picotm_log_append realloc (tx_log self) (PICOTM_EVENT_INITIALIZER module head tail) env error
      in (self\<lparr>tx_log := log\<rparr>, env, error))"

text \<open>
  The call-backs of the walks return the number of elements by which the walk advances: 0 with an
  error, 1 without.
\<close>

definition begin_cb :: "'w picotm_module list \<Rightarrow> nat \<Rightarrow> 'w \<Rightarrow> picotm_error \<Rightarrow> nat \<times> 'w \<times> picotm_error" where
  "begin_cb ms i w error =
     (let (w, error) = picotm_module_begin (ms ! i) w error in
      if picotm_error_is_set error then (0, w, error) else (1, w, error))"

definition begin_modules ::
  "'w picotm_module list \<Rightarrow> 'w \<Rightarrow> picotm_error \<Rightarrow> (nat \<times> 'w \<times> picotm_error) option"
where
  "begin_modules ms w error = tabwalk_1 (begin_cb ms) (length ms) 0 w error"

definition finish_cb :: "'w picotm_module list \<Rightarrow> nat \<Rightarrow> 'w \<Rightarrow> picotm_error \<Rightarrow> nat \<times> 'w \<times> picotm_error" where
  "finish_cb ms i w error =
     (let (w, error) = picotm_module_finish (ms ! i) w error in
      if picotm_error_is_set error then (0, w, error) else (1, w, error))"

definition finish_modules ::
  "'w picotm_module list \<Rightarrow> nat \<Rightarrow> 'w \<Rightarrow> picotm_error \<Rightarrow> ('w \<times> picotm_error) option"
where
  "finish_modules ms nmodules w error = map_option snd (tabwalk_1 (finish_cb ms) nmodules 0 w error)"

definition prepare_commit_cb ::
  "'w picotm_module list \<Rightarrow> nat \<Rightarrow> bool \<Rightarrow> 'w \<Rightarrow> picotm_error \<Rightarrow> nat \<times> 'w \<times> picotm_error"
where
  "prepare_commit_cb ms i is_irrevocable w error =
     (let (w, error) = picotm_module_prepare_commit (ms ! i) is_irrevocable w error in
      if picotm_error_is_set error then (0, w, error) else (1, w, error))"

definition prepare_commit_modules ::
  "'w picotm_module list \<Rightarrow> bool \<Rightarrow> 'w \<Rightarrow> picotm_error \<Rightarrow> ('w \<times> picotm_error) option"
where
  "prepare_commit_modules ms is_irrevocable w error =
     map_option snd (tabwalk_2 (prepare_commit_cb ms) (length ms) 0 is_irrevocable w error)"

definition apply_cb :: "'w picotm_module list \<Rightarrow> nat \<Rightarrow> 'w \<Rightarrow> picotm_error \<Rightarrow> nat \<times> 'w \<times> picotm_error" where
  "apply_cb ms i w error =
     (let (w, error) = picotm_module_apply (ms ! i) w error in
      if picotm_error_is_set error then (0, w, error) else (1, w, error))"

definition apply_modules ::
  "'w picotm_module list \<Rightarrow> 'w \<Rightarrow> picotm_error \<Rightarrow> ('w \<times> picotm_error) option"
where
  "apply_modules ms w error = map_option snd (tabwalk_1 (apply_cb ms) (length ms) 0 w error)"

definition undo_cb :: "'w picotm_module list \<Rightarrow> nat \<Rightarrow> 'w \<Rightarrow> picotm_error \<Rightarrow> nat \<times> 'w \<times> picotm_error" where
  "undo_cb ms i w error =
     (let (w, error) = picotm_module_undo (ms ! i) w error in
      if picotm_error_is_set error then (0, w, error) else (1, w, error))"

definition undo_modules ::
  "'w picotm_module list \<Rightarrow> 'w \<Rightarrow> picotm_error \<Rightarrow> ('w \<times> picotm_error) option"
where
  "undo_modules ms w error = map_option snd (tabwalk_1 (undo_cb ms) (length ms) 0 w error)"

definition apply_event :: "'w picotm_tx \<Rightarrow> picotm_event \<Rightarrow> 'w module_call" where
  "apply_event tx event w error =
     picotm_module_apply_event (tx_module tx ! unat (ev_module event)) (ev_head event) (ev_tail event)
       w error"

definition undo_event :: "'w picotm_tx \<Rightarrow> picotm_event \<Rightarrow> 'w module_call" where
  "undo_event tx event w error =
     picotm_module_undo_event (tx_module tx ! unat (ev_module event)) (ev_head event) (ev_tail event)
       w error"

definition log_table :: "picotm_log \<Rightarrow> picotm_event list" where
  "log_table log = (case eventtab log of None \<Rightarrow> [] | Some tab \<Rightarrow> tab)"

definition apply_events ::
  "'w picotm_tx \<Rightarrow> 'w \<Rightarrow> picotm_error \<Rightarrow> 'w picotm_tx \<times> 'w \<times> picotm_error"
where
  "apply_events self w error =
     (let (w, error) = picotm_events_foreach1 (apply_event self) (log_table (tx_log self)) 0
                         (unat (eventtablen (tx_log self))) w error
      in (self\<lparr>tx_log := picotm_log_clear (tx_log self)\<rparr>, w, error))"

definition undo_events ::
  "'w picotm_tx \<Rightarrow> 'w \<Rightarrow> picotm_error \<Rightarrow> 'w picotm_tx \<times> 'w \<times> picotm_error"
where
  "undo_events self w error =
     (let (w, error) = picotm_events_rev_foreach1 (undo_event self) (log_table (tx_log self)) 0
                         (unat (eventtablen (tx_log self))) w error
      in (self\<lparr>tx_log := picotm_log_clear (tx_log self)\<rparr>, w, error))"

subsection \<open>Begin, commit, rollback\<close>

definition picotm_tx_begin ::
  "int \<times> timespec \<times> int \<Rightarrow> 'w picotm_tx \<Rightarrow> 's lm_world \<Rightarrow> picotm_tx_mode \<Rightarrow> bool \<Rightarrow> pointer option \<Rightarrow> 'w \<Rightarrow>
   picotm_error \<Rightarrow> ('w picotm_tx \<times> 's lm_world \<times> 'w \<times> picotm_error) option"
where
  "picotm_tx_begin clock self lm mode is_retry env w error =
     (let nretries = (if is_retry then tx_nretries self + 1 else 0);
          mode = (if nretries = TX_NRETRIES_LIMIT then TX_MODE_IRREVOCABLE else mode);
          (lm, error) =
            (case mode of
               TX_MODE_REVOCABLE \<Rightarrow> picotm_lock_manager_wait_irrevocable lm error
             | TX_MODE_IRREVOCABLE \<Rightarrow> picotm_lock_manager_make_irrevocable (tx_lo self) lm error)
      in if picotm_error_is_set error then Some (self, lm, w, error)
         else
           (let (lo, error) = picotm_lock_owner_reset_timestamp clock (lm_owner lm (tx_lo self)) error;
                lm = lm_update_owner (tx_lo self) (\<lambda>_. lo) lm
            in if picotm_error_is_set error
               then Some (self, picotm_lock_manager_release_irrevocability (tx_lo self) lm, w, error)
               else
                 (let self = self\<lparr>tx_nretries := nretries, tx_mode := mode, tx_env := env\<rparr> in
                  do {
                    (nbegin, w, error) \<leftarrow> begin_modules (tx_module self) w error;
                    if \<not> picotm_error_is_set error then Some (self, lm, w, error)
                    else do {
                      (w, err_error) \<leftarrow>
                        finish_modules (tx_module self) nbegin w PICOTM_ERROR_INITIALIZER;
                      if picotm_error_is_set err_error
                      then Some (self, lm, w, picotm_error_mark_as_non_recoverable error)
                      else Some (self, picotm_lock_manager_release_irrevocability (tx_lo self) lm, w,
                                 error)
                    }
                  })))"

definition picotm_tx_commit ::
  "'w picotm_tx \<Rightarrow> 's lm_world \<Rightarrow> 'w \<Rightarrow> picotm_error \<Rightarrow>
   ('w picotm_tx \<times> 's lm_world \<times> 'w \<times> picotm_error) option"
where
  "picotm_tx_commit self lm w error =
     (let is_irrevocable = picotm_tx_is_irrevocable self in
      do {
        (w, error) \<leftarrow> prepare_commit_modules (tx_module self) is_irrevocable w error;
        if picotm_error_is_set error then Some (self, lm, w, error)
        else do {
          (w, error) \<leftarrow> apply_modules (tx_module self) w error;
          if picotm_error_is_set error
          then Some (self, lm, w, picotm_error_mark_as_non_recoverable error)
          else
            (let (self, w, error) = apply_events self w error in
             if picotm_error_is_set error
             then Some (self, lm, w, picotm_error_mark_as_non_recoverable error)
             else do {
               (w, error) \<leftarrow> finish_modules (tx_module self) (length (tx_module self)) w error;
               if picotm_error_is_set error
               then Some (self, lm, w, picotm_error_mark_as_non_recoverable error)
               else Some (self, picotm_lock_manager_release_irrevocability (tx_lo self) lm, w, error)
             })
        }
      })"

definition picotm_tx_rollback ::
  "'w picotm_tx \<Rightarrow> 's lm_world \<Rightarrow> 'w \<Rightarrow> picotm_error \<Rightarrow>
   ('w picotm_tx \<times> 's lm_world \<times> 'w \<times> picotm_error) option"
where
  "picotm_tx_rollback self lm w error =
     (let err = (\<lambda>self w error. Some (self, picotm_lock_manager_release_irrevocability (tx_lo self) lm, w,
                                      picotm_error_mark_as_non_recoverable error)) in
      do {
        (w, error) \<leftarrow> undo_modules (tx_module self) w error;
        if picotm_error_is_set error then err self w error
        else
          (let (self, w, error) = undo_events self w error in
           if picotm_error_is_set error then err self w error
           else do {
             (w, error) \<leftarrow> finish_modules (tx_module self) (length (tx_module self)) w error;
             if picotm_error_is_set error then err self w error
             else Some (self, picotm_lock_manager_release_irrevocability (tx_lo self) lm, w, error)
           })
      })"

subsection \<open>The protocol of the module calls\<close>

text \<open>
  The reference: a list of calls is run in order until one of them sets an error.
\<close>

fun run_calls :: "'w module_call list \<Rightarrow> 'w module_call" where
  "run_calls [] w e = (w, e)"
| "run_calls (f # fs) w e =
     (case f w e of (w', e') \<Rightarrow> if picotm_error_is_set e' then (w', e') else run_calls fs w' e')"

lemma run_calls_append:
  "\<not> picotm_error_is_set e \<Longrightarrow>
   run_calls (fs @ gs) w e =
     (case run_calls fs w e of (w', e') \<Rightarrow> if picotm_error_is_set e' then (w', e') else run_calls gs w' e')"
  by (induction fs arbitrary: w e) (auto split: prod.splits)

lemma walk_elems_run_calls:
  "snd (walk_elems f is w e) = run_calls (map f is) w e"
proof (induction "is" arbitrary: w e)
  case (Cons i "is")
  obtain w' e' where f: "f i w e = (w', e')" by fastforce
  show ?case using Cons.IH [of w' e'] by (cases "walk_elems f is w' e'") (simp add: f)
qed simp

lemma cb_one_step:
  "begin_cb ms = one_step (\<lambda>i. picotm_module_begin (ms ! i))"
  "finish_cb ms = one_step (\<lambda>i. picotm_module_finish (ms ! i))"
  "apply_cb ms = one_step (\<lambda>i. picotm_module_apply (ms ! i))"
  "undo_cb ms = one_step (\<lambda>i. picotm_module_undo (ms ! i))"
  "(\<lambda>i. prepare_commit_cb ms i b) = one_step (\<lambda>i. picotm_module_prepare_commit (ms ! i) b)"
  by (auto simp: fun_eq_iff begin_cb_def finish_cb_def apply_cb_def undo_cb_def prepare_commit_cb_def
      one_step_def Let_def split: prod.splits)

lemma map_nth_take: "n \<le> length ms \<Longrightarrow> map (\<lambda>i. f (ms ! i)) [0..<n] = map f (take n ms)"
  by (rule nth_equalityI) auto

lemma modules_run_calls [tx_simps]:
  "prepare_commit_modules ms b w e = Some (run_calls (map (\<lambda>m. picotm_module_prepare_commit m b) ms) w e)"
  "apply_modules ms w e = Some (run_calls (map picotm_module_apply ms) w e)"
  "undo_modules ms w e = Some (run_calls (map picotm_module_undo ms) w e)"
  "n \<le> length ms \<Longrightarrow>
   finish_modules ms n w e = Some (run_calls (map picotm_module_finish (take n ms)) w e)"
  by (simp_all add: prepare_commit_modules_def apply_modules_def undo_modules_def finish_modules_def
      tabwalk_2_def cb_one_step tabwalk_1_one_step walk_elems_run_calls map_nth_take
      map_nth_take [of _ _ "\<lambda>m. picotm_module_prepare_commit m b"])

lemma begin_modules_run_calls:
  "\<exists>n\<le>length ms. begin_modules ms w e = Some (n, run_calls (map picotm_module_begin ms) w e) \<and>
     (\<not> picotm_error_is_set (snd (run_calls (map picotm_module_begin ms) w e)) \<longrightarrow> n = length ms)"
proof -
  obtain n w' e' where r: "walk_elems (\<lambda>i. picotm_module_begin (ms ! i)) [0..<length ms] w e = (n, w', e')"
    by (rule prod_cases3)
  have "(w', e') = run_calls (map picotm_module_begin ms) w e"
    using walk_elems_run_calls [of "\<lambda>i. picotm_module_begin (ms ! i)" "[0..<length ms]" w e]
    unfolding r by (simp add: map_nth_take)
  then have runs: "run_calls (map picotm_module_begin ms) w e = (w', e')" by simp
  have "n \<le> length ms \<and> (\<not> picotm_error_is_set e' \<longrightarrow> n = length ms)"
    using walk_elems_no_error_count [OF r] by simp
  then show ?thesis
    by (intro exI [of _ n]) (simp add: r runs begin_modules_def cb_one_step tabwalk_1_one_step)
qed

lemma foreach1_run_calls:
  assumes "\<not> picotm_error_is_set e" and "end \<le> length tab" and "beg \<le> end"
  shows "picotm_events_foreach1 call tab beg end w e =
    run_calls (map call (drop beg (take end tab))) w e"
  using assms
proof (induction call tab beg "end" w e rule: picotm_events_foreach1.induct)
  case (1 call tab beg "end" w e)
  show ?case
  proof (cases "beg < end")
    case False
    then have "drop beg (take end tab) = []" using "1.prems" by simp
    moreover have "picotm_events_foreach1 call tab beg end w e = (w, e)"
      using False by (subst picotm_events_foreach1.simps) simp
    ultimately show ?thesis by simp
  next
    case True
    obtain w' e' where call: "call (tab ! beg) w e = (w', e')" by fastforce
    have drop: "drop beg (take end tab) = tab ! beg # drop (Suc beg) (take end tab)"
      using True "1.prems" by (subst Cons_nth_drop_Suc [symmetric]) auto
    have step: "picotm_events_foreach1 call tab beg end w e =
        picotm_events_foreach1 call tab (beg + 1) end w' e'"
      using True "1.prems" call by (subst picotm_events_foreach1.simps) simp
    show ?thesis
    proof (cases "picotm_error_is_set e'")
      case True
      then have "picotm_events_foreach1 call tab (beg + 1) end w' e' = (w', e')"
        by (subst picotm_events_foreach1.simps) simp
      with True step drop call show ?thesis by simp
    next
      case False
      have "picotm_events_foreach1 call tab (beg + 1) end w' e' =
          run_calls (map call (drop (beg + 1) (take end tab))) w' e'"
        using True False "1.prems" call [symmetric] by (intro "1.IH") auto
      with False step drop call show ?thesis by simp
    qed
  qed
qed

lemma rev_foreach1_run_calls:
  assumes "\<not> picotm_error_is_set e" and "pos \<le> length tab"
  shows "picotm_events_rev_foreach1 call tab 0 pos w e = run_calls (map call (rev (take pos tab))) w e"
  using assms
proof (induction pos arbitrary: w e)
  case 0
  then show ?case by (subst picotm_events_rev_foreach1.simps) simp
next
  case (Suc pos)
  obtain w' e' where call: "call (tab ! pos) w e = (w', e')" by fastforce
  have step: "picotm_events_rev_foreach1 call tab 0 (Suc pos) w e =
      picotm_events_rev_foreach1 call tab 0 pos w' e'"
    using Suc.prems call by (subst picotm_events_rev_foreach1.simps) simp
  have rev: "rev (take (Suc pos) tab) = tab ! pos # rev (take pos tab)"
    using Suc.prems by (simp add: take_Suc_conv_app_nth)
  show ?case
  proof (cases "picotm_error_is_set e'")
    case True
    then have "picotm_events_rev_foreach1 call tab 0 pos w' e' = (w', e')"
      by (subst picotm_events_rev_foreach1.simps) simp
    with True step rev call show ?thesis by simp
  next
    case False
    with Suc step rev call show ?thesis by simp
  qed
qed

text \<open>The events of the log, as calls of the modules that logged them.\<close>

definition tx_log_ok :: "'w picotm_tx \<Rightarrow> bool" where
  "tx_log_ok self \<longleftrightarrow> unat (eventtablen (tx_log self)) \<le> length (log_table (tx_log self))"

lemma log_events_table: "log_events log = take (unat (eventtablen log)) (log_table log)"
  by (simp add: log_events_def log_table_def)

lemma apply_events_eq:
  assumes "tx_log_ok self" and "\<not> picotm_error_is_set e"
  shows "apply_events self w e =
    (self\<lparr>tx_log := picotm_log_clear (tx_log self)\<rparr>,
     run_calls (map (apply_event self) (log_events (tx_log self))) w e)"
  using assms foreach1_run_calls [of e _ _ 0]
  by (simp add: apply_events_def tx_log_ok_def log_events_table split: prod.splits)

lemma undo_events_eq:
  assumes "tx_log_ok self" and "\<not> picotm_error_is_set e"
  shows "undo_events self w e =
    (self\<lparr>tx_log := picotm_log_clear (tx_log self)\<rparr>,
     run_calls (map (undo_event self) (rev (log_events (tx_log self)))) w e)"
  using assms rev_foreach1_run_calls [of e]
  by (simp add: undo_events_def tx_log_ok_def log_events_table split: prod.splits)

definition prepare_calls :: "'w picotm_tx \<Rightarrow> 'w module_call list" where
  "prepare_calls self =
     map (\<lambda>m. picotm_module_prepare_commit m (picotm_tx_is_irrevocable self)) (tx_module self)"

definition publish_calls :: "'w picotm_tx \<Rightarrow> 'w module_call list" where
  "publish_calls self =
     map picotm_module_apply (tx_module self) @ map (apply_event self) (log_events (tx_log self)) @
     map picotm_module_finish (tx_module self)"

definition undo_calls :: "'w picotm_tx \<Rightarrow> 'w module_call list" where
  "undo_calls self =
     map picotm_module_undo (tx_module self) @ map (undo_event self) (rev (log_events (tx_log self))) @
     map picotm_module_finish (tx_module self)"

text \<open>
  The commit protocol: first all modules prepare; only when every one of them has agreed are the
  changes published, by the modules in their order, by the events in the order in which they were
  logged, and by the final call of each module.  An error of the first part leaves the
  transaction for a rollback; an error of the second part cannot be recovered from.
\<close>

theorem commit_protocol:
  assumes "tx_log_ok self" and "\<not> picotm_error_is_set e"
  shows "\<exists>self'\<in>{self, self\<lparr>tx_log := picotm_log_clear (tx_log self)\<rparr>}. picotm_tx_commit self lm w e =
    Some (case run_calls (prepare_calls self) w e of (w1, e1) \<Rightarrow>
      if picotm_error_is_set e1 then (self, lm, w1, e1)
      else (case run_calls (publish_calls self) w1 e1 of (w2, e2) \<Rightarrow>
        if picotm_error_is_set e2 then (self', lm, w2, picotm_error_mark_as_non_recoverable e2)
        else (self\<lparr>tx_log := picotm_log_clear (tx_log self)\<rparr>,
              picotm_lock_manager_release_irrevocability (tx_lo self) lm, w2, e2)))"
proof -
  obtain w1 e1 where prep: "run_calls (prepare_calls self) w e = (w1, e1)" by fastforce
  show ?thesis
  proof (cases "picotm_error_is_set e1")
    case True
    with prep show ?thesis
      by (intro bexI [of _ self])
        (simp_all add: picotm_tx_commit_def prepare_calls_def modules_run_calls)
  next
    case e1: False
    obtain w2 e2 where app: "run_calls (map picotm_module_apply (tx_module self)) w1 e1 = (w2, e2)" by fastforce
    obtain w3 e3 where ev: "run_calls (map (apply_event self) (log_events (tx_log self))) w2 e2 = (w3, e3)" by fastforce
    obtain w4 e4 where fin: "run_calls (map picotm_module_finish (tx_module self)) w3 e3 = (w4, e4)" by fastforce
    have commit: "picotm_tx_commit self lm w e =
      (if picotm_error_is_set e2 then Some (self, lm, w2, picotm_error_mark_as_non_recoverable e2)
       else (let (self, w, error) = apply_events self w2 e2 in
         if picotm_error_is_set error then Some (self, lm, w, picotm_error_mark_as_non_recoverable error)
         else (case run_calls (map picotm_module_finish (tx_module self)) w error of (w, error) \<Rightarrow>
           if picotm_error_is_set error
           then Some (self, lm, w, picotm_error_mark_as_non_recoverable error)
           else Some (self, picotm_lock_manager_release_irrevocability (tx_lo self) lm, w, error))))"
      using prep e1 app
      by (simp add: picotm_tx_commit_def prepare_calls_def modules_run_calls split: prod.splits)
    have publish: "run_calls (publish_calls self) w1 e1 =
        (if picotm_error_is_set e2 then (w2, e2)
         else if picotm_error_is_set e3 then (w3, e3) else (w4, e4))"
      using e1 app ev fin by (simp add: publish_calls_def run_calls_append)
    define last where "last = (if picotm_error_is_set e2 then self
        else self\<lparr>tx_log := picotm_log_clear (tx_log self)\<rparr>)"
    show ?thesis
    proof (rule bexI [of _ last])
      consider "picotm_error_is_set e2" | "\<not> picotm_error_is_set e2" "picotm_error_is_set e3"
        | "\<not> picotm_error_is_set e2" "\<not> picotm_error_is_set e3" by blast
      then show "picotm_tx_commit self lm w e =
        Some (case run_calls (prepare_calls self) w e of (w1, e1) \<Rightarrow>
          if picotm_error_is_set e1 then (self, lm, w1, e1)
          else (case run_calls (publish_calls self) w1 e1 of (w2, e2) \<Rightarrow>
            if picotm_error_is_set e2 then (last, lm, w2, picotm_error_mark_as_non_recoverable e2)
            else (self\<lparr>tx_log := picotm_log_clear (tx_log self)\<rparr>,
                  picotm_lock_manager_release_irrevocability (tx_lo self) lm, w2, e2)))"
        by cases (simp_all add: prep e1 commit publish apply_events_eq [OF assms(1)] ev fin last_def)
    qed (simp add: last_def)
  qed
qed

text \<open>
  The rollback protocol: the modules undo their changes, the events are undone from the newest to
  the oldest, and the modules finish.  The transaction gives up its irrevocability in any case.
\<close>

theorem rollback_protocol:
  assumes "tx_log_ok self" and "\<not> picotm_error_is_set e"
  shows "\<exists>self'\<in>{self, self\<lparr>tx_log := picotm_log_clear (tx_log self)\<rparr>}. picotm_tx_rollback self lm w e =
    Some (case run_calls (undo_calls self) w e of (w1, e1) \<Rightarrow>
      (if picotm_error_is_set e1 then self' else self\<lparr>tx_log := picotm_log_clear (tx_log self)\<rparr>,
       picotm_lock_manager_release_irrevocability (tx_lo self) lm, w1,
       if picotm_error_is_set e1 then picotm_error_mark_as_non_recoverable e1 else e1))"
proof -
  obtain w2 e2 where undo: "run_calls (map picotm_module_undo (tx_module self)) w e = (w2, e2)" by fastforce
  obtain w3 e3 where ev:
    "run_calls (map (undo_event self) (rev (log_events (tx_log self)))) w2 e2 = (w3, e3)" by fastforce
  obtain w4 e4 where fin: "run_calls (map picotm_module_finish (tx_module self)) w3 e3 = (w4, e4)" by fastforce
  have all: "run_calls (undo_calls self) w e =
      (if picotm_error_is_set e2 then (w2, e2)
       else if picotm_error_is_set e3 then (w3, e3) else (w4, e4))"
    using assms(2) undo ev fin by (simp add: undo_calls_def run_calls_append)
  define cleared where "cleared = self\<lparr>tx_log := picotm_log_clear (tx_log self)\<rparr>"
  consider "picotm_error_is_set e2" | "\<not> picotm_error_is_set e2" "picotm_error_is_set e3"
    | "\<not> picotm_error_is_set e2" "\<not> picotm_error_is_set e3" by blast
  then show ?thesis
  proof cases
    case 1
    then show ?thesis
      by (intro bexI [of _ self]) (simp_all add: picotm_tx_rollback_def modules_run_calls undo all)
  next
    case 2
    then show ?thesis
      by (intro bexI [of _ cleared])
        (simp_all add: picotm_tx_rollback_def modules_run_calls undo all undo_events_eq [OF assms(1)] ev cleared_def)
  next
    case 3
    then show ?thesis
      by (intro bexI [of _ cleared])
        (simp_all add: picotm_tx_rollback_def modules_run_calls undo all undo_events_eq [OF assms(1)] ev fin
          cleared_def)
  qed
qed

subsection \<open>Irrevocability across a transaction\<close>

definition begin_nretries :: "'w picotm_tx \<Rightarrow> bool \<Rightarrow> u64" where
  "begin_nretries self is_retry = (if is_retry then tx_nretries self + 1 else 0)"

definition begin_mode :: "'w picotm_tx \<Rightarrow> picotm_tx_mode \<Rightarrow> bool \<Rightarrow> picotm_tx_mode" where
  "begin_mode self mode is_retry =
     (if begin_nretries self is_retry = TX_NRETRIES_LIMIT then TX_MODE_IRREVOCABLE else mode)"

definition lock_mode :: "picotm_tx_mode \<Rightarrow> os_rwlock_mode" where
  "lock_mode mode = (case mode of TX_MODE_REVOCABLE \<Rightarrow> Rdlocked | TX_MODE_IRREVOCABLE \<Rightarrow> Wrlocked)"

lemma lm_update_owner_exclusive [simp]:
  "lm_exclusive_lo_lock (lm_update_owner p f w) = lm_exclusive_lo_lock w"
  "lm_exclusive_lo (lm_update_owner p f w) = lm_exclusive_lo w"
  by (simp_all add: lm_update_owner_def)

lemma exclusive_lock_eq [lock_simps]:
  "lm_exclusive_lo_lock lm = None \<Longrightarrow>
   exclusive_lo_lock_lock mode lm e =
     (if next_rc lm = 0 then (lm\<lparr>lm_exclusive_lo_lock := Some mode, lm_rcs := tl (lm_rcs lm)\<rparr>, e)
      else (lm\<lparr>lm_rcs := tl (lm_rcs lm)\<rparr>, picotm_error_set_errno e (next_rc lm)))"
  by (simp add: exclusive_lo_lock_lock_def os_call_eq)

lemma release_eq [lock_simps]:
  "lm_exclusive_lo_lock lm \<noteq> None \<Longrightarrow>
   picotm_lock_manager_release_irrevocability lo lm =
     lm\<lparr>lm_exclusive_lo := if lm_exclusive_lo lm = Some lo then None else lm_exclusive_lo lm,
        lm_exclusive_lo_lock := None\<rparr>"
  by (cases lm) (auto simp: picotm_lock_manager_release_irrevocability_def exclusive_lo_lock_unlock_def)

lemma mark_fields [error_simps]:
  "picotm_error_is_set (picotm_error_mark_as_non_recoverable e) = picotm_error_is_set e"
  "is_non_recoverable (picotm_error_mark_as_non_recoverable e)"
  by (simp_all add: picotm_error_mark_as_non_recoverable_def picotm_error_is_set_def)

theorem begin_protocol:
  assumes "lm_exclusive_lo_lock lm = None" and "\<not> picotm_error_is_set e"
  shows "\<exists>self' lm' w' e'. picotm_tx_begin clock self lm mode is_retry env w e = Some (self', lm', w', e') \<and>
    lm_fault lm' = lm_fault lm \<and> tx_lo self' = tx_lo self \<and> tx_module self' = tx_module self \<and>
    tx_log self' = tx_log self \<and>
    (if picotm_error_is_set e'
     then lm_exclusive_lo_lock lm' = None \<or> is_non_recoverable e'
     else lm_exclusive_lo_lock lm' = Some (lock_mode (begin_mode self mode is_retry)) \<and>
       lm_exclusive_lo lm' = (if begin_mode self mode is_retry = TX_MODE_IRREVOCABLE
                              then Some (tx_lo self) else lm_exclusive_lo lm) \<and>
       tx_mode self' = begin_mode self mode is_retry \<and>
       tx_nretries self' = begin_nretries self is_retry \<and> tx_env self' = env \<and>
       (w', e') = run_calls (map picotm_module_begin (tx_module self)) w e)"
proof -
  define bm where "bm = begin_mode self mode is_retry"
  define n where "n = begin_nretries self is_retry"
  have n_eq: "(if is_retry then tx_nretries self + 1 else 0) = n"
    by (simp add: n_def begin_nretries_def)
  have bm_eq: "(if n = TX_NRETRIES_LIMIT then TX_MODE_IRREVOCABLE else mode) = bm"
    by (simp add: bm_def begin_mode_def n_def)
  define lm1 where "lm1 = lm\<lparr>lm_exclusive_lo_lock := Some (lock_mode bm), lm_rcs := tl (lm_rcs lm),
      lm_exclusive_lo := if bm = TX_MODE_IRREVOCABLE then Some (tx_lo self) else lm_exclusive_lo lm\<rparr>"
  define self1 where "self1 = self\<lparr>tx_nretries := n, tx_mode := bm, tx_env := env\<rparr>"
  have enter: "(case bm of TX_MODE_REVOCABLE \<Rightarrow> picotm_lock_manager_wait_irrevocable lm e
      | TX_MODE_IRREVOCABLE \<Rightarrow> picotm_lock_manager_make_irrevocable (tx_lo self) lm e) =
      (if next_rc lm = 0 then (lm1, e)
       else (lm\<lparr>lm_rcs := tl (lm_rcs lm)\<rparr>, picotm_error_set_errno e (next_rc lm)))"
    using assms by (cases bm; cases lm) (simp_all add: picotm_lock_manager_wait_irrevocable_def
        picotm_lock_manager_make_irrevocable_def exclusive_lock_eq lock_mode_def lm1_def errno_is_set)
  obtain lo e1 where lo: "picotm_lock_owner_reset_timestamp clock (lm_owner lm1 (tx_lo self)) e = (lo, e1)"
    by fastforce
  define lm2 where "lm2 = lm_update_owner (tx_lo self) (\<lambda>_. lo) lm1"
  obtain k where k: "k \<le> length (tx_module self)"
    "begin_modules (tx_module self) w e1 = Some (k, run_calls (map picotm_module_begin (tx_module self)) w e1)"
    using begin_modules_run_calls [of "tx_module self" w e1] by blast
  obtain w2 e2 where run: "run_calls (map picotm_module_begin (tx_module self)) w e1 = (w2, e2)" by fastforce
  obtain w3 e3 where fin: "run_calls (map picotm_module_finish (take k (tx_module self))) w2
      PICOTM_ERROR_INITIALIZER = (w3, e3)" by fastforce
  have e1: "e1 = e" if "\<not> picotm_error_is_set e1"
    using lo that by (auto simp: picotm_lock_owner_reset_timestamp_def picotm_os_get_timespec_def
        errno_is_set split: prod.splits if_splits)
  have go: "picotm_tx_begin clock self lm mode is_retry env w e =
    (if next_rc lm \<noteq> 0
     then Some (self, lm\<lparr>lm_rcs := tl (lm_rcs lm)\<rparr>, w, picotm_error_set_errno e (next_rc lm))
     else if picotm_error_is_set e1
     then Some (self, picotm_lock_manager_release_irrevocability (tx_lo self) lm2, w, e1)
     else if \<not> picotm_error_is_set e2 then Some (self1, lm2, w2, e2)
     else if picotm_error_is_set e3 then Some (self1, lm2, w3, picotm_error_mark_as_non_recoverable e2)
     else Some (self1, picotm_lock_manager_release_irrevocability (tx_lo self) lm2, w3, e2))"
    using assms(2) k run fin lo
    unfolding picotm_tx_begin_def Let_def n_eq bm_eq enter
    by (simp add: errno_is_set lm2_def [symmetric] modules_run_calls self1_def)
  have lm2: "lm_exclusive_lo_lock lm2 = Some (lock_mode bm)" "lm_fault lm2 = lm_fault lm"
    "lm_exclusive_lo lm2 = (if bm = TX_MODE_IRREVOCABLE then Some (tx_lo self) else lm_exclusive_lo lm)"
    by (simp_all add: lm2_def lm1_def)  (simp add: lm_update_owner_def)
  show ?thesis
    unfolding go bm_def [symmetric] n_def [symmetric]
    using assms lm2 run e1
    by (auto simp: errno_is_set release_eq self1_def mark_fields)
qed

end
