(* ===== verification/Picotm_Core.thy ===== *)
theory Picotm_Core
  imports Picotm_Tx
begin

text \<open>
  The public interface (\<open>src/picotm.c\<close>).  The record \<open>picotm_thread\<close> is the state of one thread:
  its transaction, which is created on first use, the thread-local error, and the worlds of the
  lock manager and of the modules.  \<open>picotm_begin\<close> expands to a call of \<open>sigsetjmp\<close> whose result is
  the mode; a long jump back to it is the outcome \<open>Longjmp mode\<close>.

  Functions whose call-backs or loops are partial return an \<open>option\<close>.  \<open>get_non_null_tx\<close> is \<open>None\<close>
  if the transaction cannot be created: the code then recovers from the error with a transaction
  that does not exist yet.
\<close>

datatype picotm_mode =
    PICOTM_MODE_START
  | PICOTM_MODE_RETRY
  | PICOTM_MODE_IRREVOCABLE
  | PICOTM_MODE_RECOVERY
  | PICOTM_MODE_RESTART

datatype 'a control = Normal 'a | Longjmp picotm_mode

record ('s, 'w) picotm_thread =
  th_lo :: pointer
  th_tx :: "'w picotm_tx option"
  th_error :: picotm_error
  th_lm :: "'s lm_world"
  th_w :: 'w

definition get_tx ::
  "bool \<Rightarrow> ('s, 'w) picotm_thread \<Rightarrow> picotm_error \<Rightarrow>
   'w picotm_tx option \<times> ('s, 'w) picotm_thread \<times> picotm_error"
where
  "get_tx initialize th error =
     (case th_tx th of
        Some tx \<Rightarrow> (Some tx, th, error)
      | None \<Rightarrow>
          if initialize then
            (let (tx, lm, error) = picotm_tx_init (th_lo th) (th_lm th) error in
             if picotm_error_is_set error then (None, th\<lparr>th_lm := lm\<rparr>, error)
             else (Some tx, th\<lparr>th_lm := lm, th_tx := Some tx\<rparr>, error))
          else (None, th, error))"

definition get_non_null_tx ::
  "('s, 'w) picotm_thread \<Rightarrow> ('w picotm_tx \<times> ('s, 'w) picotm_thread) option"
where
  "get_non_null_tx th =
     (case get_tx True th PICOTM_ERROR_INITIALIZER of
        (Some tx, th, error) \<Rightarrow> if picotm_error_is_set error then None else Some (tx, th)
      | (None, th, error) \<Rightarrow> None)"

definition tx_mode_table :: "picotm_mode \<Rightarrow> picotm_tx_mode" where
  "tx_mode_table mode =
     (case mode of
        PICOTM_MODE_START \<Rightarrow> TX_MODE_REVOCABLE
      | PICOTM_MODE_RETRY \<Rightarrow> TX_MODE_REVOCABLE
      | PICOTM_MODE_IRREVOCABLE \<Rightarrow> TX_MODE_IRREVOCABLE
      | PICOTM_MODE_RECOVERY \<Rightarrow> TX_MODE_REVOCABLE
      | PICOTM_MODE_RESTART \<Rightarrow> TX_MODE_REVOCABLE)"

text \<open>
  The blocks of \<open>__picotm_begin\<close>.  \<open>begin_rollback\<close> is the block of the modes RETRY and IRREVOCABLE,
  which falls through to \<open>begin_start\<close>; its first component tells whether it does.
\<close>

definition begin_recovery :: "('s, 'w) picotm_thread \<Rightarrow> (bool \<times> ('s, 'w) picotm_thread) option" where
  "begin_recovery th =
     (let (tx, th, error) = get_tx True th PICOTM_ERROR_INITIALIZER in
      if picotm_error_is_set error then Some (False, th)
      else if is_non_recoverable (th_error th) then Some (False, th)
      else
        (case tx of
           None \<Rightarrow> None
         | Some tx \<Rightarrow> do {
             (tx, lm, w, error) \<leftarrow> picotm_tx_rollback tx (th_lm th) (th_w th) error;
             Some (False, th\<lparr>th_tx := Some tx, th_lm := lm, th_w := w\<rparr>)
           }))"

definition begin_rollback :: "('s, 'w) picotm_thread \<Rightarrow> (bool \<times> ('s, 'w) picotm_thread) option" where
  "begin_rollback th =
     (let (tx, th, error) = get_tx False th PICOTM_ERROR_INITIALIZER in
      if picotm_error_is_set error then Some (False, th\<lparr>th_error := error\<rparr>)
      else
        (case tx of
           None \<Rightarrow> None
         | Some tx \<Rightarrow> do {
             (tx, lm, w, error) \<leftarrow> picotm_tx_rollback tx (th_lm th) (th_w th) error;
             Some (\<not> picotm_error_is_set error,
                   th\<lparr>th_tx := Some tx, th_lm := lm, th_w := w, th_error := error\<rparr>)
           }))"

definition begin_start ::
  "int \<times> timespec \<times> int \<Rightarrow> picotm_mode \<Rightarrow> pointer \<Rightarrow> ('s, 'w) picotm_thread \<Rightarrow>
   (bool \<times> ('s, 'w) picotm_thread) option"
where
  "begin_start clock mode env th =
     (let (tx, th, error) = get_tx True th PICOTM_ERROR_INITIALIZER in
      if picotm_error_is_set error then Some (False, th\<lparr>th_error := error\<rparr>)
      else
        (case tx of
           None \<Rightarrow> None
         | Some tx \<Rightarrow> do {
             (tx, lm, w, error) \<leftarrow>
               picotm_tx_begin clock tx (th_lm th) (tx_mode_table mode) (mode \<noteq> PICOTM_MODE_START)
                 (Some env) (th_w th) error;
             Some (\<not> picotm_error_is_set error,
                   th\<lparr>th_tx := Some tx, th_lm := lm, th_w := w, th_error := error\<rparr>)
           }))"

definition picotm_begin ::
  "int \<times> timespec \<times> int \<Rightarrow> picotm_mode \<Rightarrow> pointer \<Rightarrow> ('s, 'w) picotm_thread \<Rightarrow>
   (bool \<times> ('s, 'w) picotm_thread) option"
where
  "picotm_begin clock mode env th =
     (case mode of
        PICOTM_MODE_RECOVERY \<Rightarrow> begin_recovery th
      | PICOTM_MODE_IRREVOCABLE \<Rightarrow> do {
          (go, th) \<leftarrow> begin_rollback th;
          if go then begin_start clock mode env th else Some (False, th)
        }
      | PICOTM_MODE_RETRY \<Rightarrow> do {
          (go, th) \<leftarrow> begin_rollback th;
          if go then begin_start clock mode env th else Some (False, th)
        }
      | PICOTM_MODE_RESTART \<Rightarrow> begin_start clock mode env th
      | PICOTM_MODE_START \<Rightarrow> begin_start clock mode env th)"

definition restart_tx_from_error :: "picotm_error \<Rightarrow> 'a \<Rightarrow> 'a control" where
  "restart_tx_from_error error ret =
     (case err_status error of
        None \<Rightarrow> Normal ret
      | Some PICOTM_CONFLICTING \<Rightarrow> Longjmp PICOTM_MODE_RETRY
      | Some PICOTM_REVOCABLE \<Rightarrow> Longjmp PICOTM_MODE_IRREVOCABLE
      | Some PICOTM_ERROR_CODE \<Rightarrow> Longjmp PICOTM_MODE_RECOVERY
      | Some PICOTM_ERRNO \<Rightarrow> Longjmp PICOTM_MODE_RECOVERY
      | Some PICOTM_KERN_RETURN_T \<Rightarrow> Longjmp PICOTM_MODE_RECOVERY
      | Some PICOTM_SIGINFO_T \<Rightarrow> Longjmp PICOTM_MODE_RECOVERY)"

definition picotm_commit :: "('s, 'w) picotm_thread \<Rightarrow> (unit control \<times> ('s, 'w) picotm_thread) option"
where
  "picotm_commit th = do {
     (tx, th) \<leftarrow> get_non_null_tx th;
     (tx, lm, w, error) \<leftarrow> picotm_tx_commit tx (th_lm th) (th_w th) (th_error th);
     (let th = th\<lparr>th_tx := Some tx, th_lm := lm, th_w := w, th_error := error\<rparr>
      in if picotm_error_is_set error then Some (restart_tx_from_error error (), th)
         else Some (Normal (), th))
   }"

definition picotm_restart :: "('s, 'w) picotm_thread \<Rightarrow> (unit control \<times> ('s, 'w) picotm_thread) option"
where
  "picotm_restart th = do {
     (tx, th) \<leftarrow> get_non_null_tx th;
     Some (Longjmp PICOTM_MODE_RESTART, th)
   }"

definition picotm_irrevocable ::
  "('s, 'w) picotm_thread \<Rightarrow> (unit control \<times> ('s, 'w) picotm_thread) option"
where
  "picotm_irrevocable th = do {
     (tx, th) \<leftarrow> get_non_null_tx th;
     Some (Longjmp PICOTM_MODE_IRREVOCABLE, th)
   }"

definition picotm_is_irrevocable ::
  "('s, 'w) picotm_thread \<Rightarrow> (bool \<times> ('s, 'w) picotm_thread) option"
where
  "picotm_is_irrevocable th = do {
     (tx, th) \<leftarrow> get_non_null_tx th;
     Some (picotm_tx_is_irrevocable tx, th)
   }"

definition picotm_number_of_restarts :: "('s, 'w) picotm_thread \<Rightarrow> u64" where
  "picotm_number_of_restarts th =
     (let (tx, th, error) = get_tx False th PICOTM_ERROR_INITIALIZER in
      if picotm_error_is_set error then 0
      else (case tx of None \<Rightarrow> 0 | Some tx \<Rightarrow> tx_nretries tx))"

definition picotm_register_module ::
  "'w picotm_module_ops \<Rightarrow> pointer \<Rightarrow> ('s, 'w) picotm_thread \<Rightarrow> picotm_error \<Rightarrow>
   (nat \<times> ('s, 'w) picotm_thread \<times> picotm_error) option"
where
  "picotm_register_module ops data th error = do {
     (tx, th) \<leftarrow> get_non_null_tx th;
     (let (m, tx, error) = picotm_tx_register_module tx ops data error
      in Some (m, th\<lparr>th_tx := Some tx\<rparr>, error))
   }"

definition picotm_append_event ::
  "(picotm_event list, 'a) allocator \<Rightarrow> u64 \<Rightarrow> u16 \<Rightarrow> u64 \<Rightarrow> 'a heap_env \<Rightarrow> ('s, 'w) picotm_thread \<Rightarrow>
   picotm_error \<Rightarrow> (('s, 'w) picotm_thread \<times> 'a heap_env \<times> picotm_error) option"
where
  "picotm_append_event realloc module head tail env th error = do {
     (tx, th) \<leftarrow> get_non_null_tx th;
     (let (tx, env, error) = picotm_tx_append_event realloc tx module head tail env error
      in Some (th\<lparr>th_tx := Some tx\<rparr>, env, error))
   }"

definition picotm_resolve_conflict ::
  "pointer \<Rightarrow> ('s, 'w) picotm_thread \<Rightarrow> (unit control \<times> ('s, 'w) picotm_thread) option"
where
  "picotm_resolve_conflict conflicting_lock th = do {
     (tx, th) \<leftarrow>
       get_non_null_tx (th\<lparr>th_error := picotm_error_set_conflicting (th_error th) conflicting_lock\<rparr>);
     Some (Longjmp PICOTM_MODE_RETRY, th)
   }"

definition picotm_recover_from_error_code ::
  "picotm_error_code \<Rightarrow> ('s, 'w) picotm_thread \<Rightarrow> (unit control \<times> ('s, 'w) picotm_thread) option"
where
  "picotm_recover_from_error_code error_hint th = do {
     (tx, th) \<leftarrow> get_non_null_tx (th\<lparr>th_error := picotm_error_set_error_code (th_error th) error_hint\<rparr>);
     Some (Longjmp PICOTM_MODE_RECOVERY, th)
   }"

definition picotm_recover_from_errno ::
  "int \<Rightarrow> ('s, 'w) picotm_thread \<Rightarrow> (unit control \<times> ('s, 'w) picotm_thread) option"
where
  "picotm_recover_from_errno errno_hint th = do {
     (tx, th) \<leftarrow> get_non_null_tx (th\<lparr>th_error := picotm_error_set_errno (th_error th) errno_hint\<rparr>);
     Some (Longjmp PICOTM_MODE_RECOVERY, th)
   }"

definition picotm_recover_from_kern_return_t ::
  "int \<Rightarrow> ('s, 'w) picotm_thread \<Rightarrow> (unit control \<times> ('s, 'w) picotm_thread) option"
where
  "picotm_recover_from_kern_return_t value th = do {
     (tx, th) \<leftarrow> get_non_null_tx (th\<lparr>th_error := picotm_error_set_kern_return_t (th_error th) value\<rparr>);
     Some (Longjmp PICOTM_MODE_RECOVERY, th)
   }"

definition picotm_recover_from_siginfo_t ::
  "pointer \<Rightarrow> ('s, 'w) picotm_thread \<Rightarrow> (unit control \<times> ('s, 'w) picotm_thread) option"
where
  "picotm_recover_from_siginfo_t info th = do {
     (tx, th) \<leftarrow> get_non_null_tx (th\<lparr>th_error := picotm_error_set_siginfo_t (th_error th) info\<rparr>);
     Some (Longjmp PICOTM_MODE_RECOVERY, th)
   }"

definition picotm_recover_from_error ::
  "picotm_error \<Rightarrow> ('s, 'w) picotm_thread \<Rightarrow> (unit control \<times> ('s, 'w) picotm_thread) option"
where
  "picotm_recover_from_error error th = do {
     (tx, th) \<leftarrow> get_non_null_tx (th\<lparr>th_error := error\<rparr>);
     Some (restart_tx_from_error error (), th)
   }"

subsection \<open>The life cycle of a thread's transactions\<close>

text \<open>
  A thread is outside of a transaction, in the execution phase, or in the recovery code between
  \<open>picotm_commit\<close> and \<open>picotm_end\<close>.  A step is a call of the interface, together with the call of
  \<open>__picotm_begin\<close> that follows a long jump.  Steps in the execution phase may change the modules'
  world in any way.  From the recovery code of an error that is not recoverable there is no step.
\<close>

datatype tx_phase = Outside | Running | Recovering

type_synonym ('s, 'w, 'a) tx_config = "tx_phase \<times> ('s, 'w) picotm_thread \<times> 'a heap_env"

definition begin_phase :: "bool \<Rightarrow> tx_phase" where
  "begin_phase ok = (if ok then Running else Recovering)"

text \<open>The calls that leave the execution phase by a long jump.\<close>

inductive leaves_running ::
  "('s, 'w) picotm_thread \<Rightarrow> picotm_mode \<Rightarrow> ('s, 'w) picotm_thread \<Rightarrow> bool"
where
  commit_fails: "picotm_commit th = Some (Longjmp m, th') \<Longrightarrow> leaves_running th m th'"
| irrevocable: "picotm_irrevocable th = Some (Longjmp m, th') \<Longrightarrow> leaves_running th m th'"
| conflict: "picotm_resolve_conflict lock th = Some (Longjmp m, th') \<Longrightarrow> leaves_running th m th'"
| error_code: "picotm_recover_from_error_code c th = Some (Longjmp m, th') \<Longrightarrow> leaves_running th m th'"
| errno: "picotm_recover_from_errno n th = Some (Longjmp m, th') \<Longrightarrow> leaves_running th m th'"
| error: "picotm_recover_from_error e th = Some (Longjmp m, th') \<Longrightarrow> leaves_running th m th'"

inductive tx_step ::
  "(picotm_event list, 'a) allocator \<Rightarrow> ('s, 'w, 'a) tx_config \<Rightarrow> ('s, 'w, 'a) tx_config \<Rightarrow> bool"
  for realloc
where
  start: "picotm_begin clock PICOTM_MODE_START jmp th = Some (ok, th') \<Longrightarrow>
    tx_step realloc (Outside, th, env) (begin_phase ok, th', env)"
| work: "tx_step realloc (Running, th, env) (Running, th\<lparr>th_w := w\<rparr>, env)"
| register: "picotm_register_module ops data th e = Some (m, th', e') \<Longrightarrow>
    tx_step realloc (Running, th, env) (Running, th', env)"
| append: "picotm_append_event realloc m head tail env th PICOTM_ERROR_INITIALIZER = Some (th', env', e') \<Longrightarrow>
    th_tx th = Some tx \<Longrightarrow> unat (eventtablen (tx_log tx)) < 2 ^ 59 \<Longrightarrow>
    tx_step realloc (Running, th, env) (Running, th', env')"
| commit: "picotm_commit th = Some (Normal (), th') \<Longrightarrow>
    tx_step realloc (Running, th, env) (Outside, th', env)"
| leave: "leaves_running th m th' \<Longrightarrow> picotm_begin clock m jmp th' = Some (ok, th'') \<Longrightarrow>
    tx_step realloc (Running, th, env) (begin_phase ok, th'', env)"
| restart: "\<not> is_non_recoverable (th_error th) \<Longrightarrow> picotm_restart th = Some (Longjmp m, th') \<Longrightarrow>
    picotm_begin clock m jmp th' = Some (ok, th'') \<Longrightarrow>
    tx_step realloc (Recovering, th, env) (begin_phase ok, th'', env)"
| give_up: "\<not> is_non_recoverable (th_error th) \<Longrightarrow> tx_step realloc (Recovering, th, env) (Outside, th, env)"

definition thread_tx_ok :: "bool \<Rightarrow> ('s, 'w) picotm_thread \<Rightarrow> bool" where
  "thread_tx_ok lowmem th \<longleftrightarrow>
     (\<forall>tx. th_tx th = Some tx \<longrightarrow> tx_lo tx = th_lo th \<and> log_ok lowmem (tx_log tx))"

definition exclusive_held :: "('s, 'w) picotm_thread \<Rightarrow> os_rwlock_mode option" where
  "exclusive_held th = lm_exclusive_lo_lock (th_lm th)"

text \<open>
  The lock of the irrevocability protocol is held exactly during the execution phase: shared by
  revocable transactions, exclusively by an irrevocable one, which is then the registered owner.
\<close>

definition running_ok :: "('s, 'w) picotm_thread \<Rightarrow> bool" where
  "running_ok th \<longleftrightarrow> \<not> picotm_error_is_set (th_error th) \<and>
     (\<exists>tx. th_tx th = Some tx \<and> exclusive_held th = Some (lock_mode (tx_mode tx)) \<and>
        (picotm_tx_is_irrevocable tx \<longrightarrow> lm_exclusive_lo (th_lm th) = Some (th_lo th)))"

definition config_ok :: "('s, 'w, 'a) tx_config \<Rightarrow> bool" where
  "config_ok c \<longleftrightarrow> (case c of (phase, th, env) \<Rightarrow>
     thread_tx_ok (he_lowmem env) th \<and>
     (case phase of
        Outside \<Rightarrow> exclusive_held th = None
      | Running \<Rightarrow> running_ok th
      | Recovering \<Rightarrow> exclusive_held th = None \<or> is_non_recoverable (th_error th)))"

lemma tx_log_ok_log_ok: "log_ok lowmem (tx_log tx) \<Longrightarrow> tx_log_ok tx"
  using log_ok_lowmem [of lowmem "tx_log tx" True]
  by (auto simp: log_ok_def tx_log_ok_def log_table_def word_le_nat_alt split: option.splits)

lemma clear_not_set [error_simps]: "\<not> picotm_error_is_set PICOTM_ERROR_INITIALIZER"
  by (simp add: picotm_error_is_set_def PICOTM_ERROR_INITIALIZER_def)

subsection \<open>Preservation\<close>

definition same_exclusive :: "'s lm_world \<Rightarrow> 's lm_world \<Rightarrow> bool" where
  "same_exclusive w v \<longleftrightarrow>
     lm_exclusive_lo_lock v = lm_exclusive_lo_lock w \<and> lm_exclusive_lo v = lm_exclusive_lo w"

lemma same_exclusive_trans: "same_exclusive u v \<Longrightarrow> same_exclusive v w \<Longrightarrow> same_exclusive u w"
  by (simp add: same_exclusive_def)

lemma same_exclusive_ops:
  "same_exclusive w (snd (os_call w))" "same_exclusive w (lm_update_owner p f w)"
  "same_exclusive w (lo_rwlock_unlock w)" "same_exclusive w (fst (lo_rwlock_lock mode w e))"
  "same_exclusive w (fst (picotm_os_mutex_init w e))" "same_exclusive w (fst (picotm_os_cond_init w e))"
  "same_exclusive w (fst (grow_lo_array w e))"
  by (auto simp: same_exclusive_def os_call_eq lm_update_owner_def lo_rwlock_unlock_def os_fault_def
      lo_rwlock_lock_def picotm_os_mutex_init_def picotm_os_cond_init_def grow_lo_array_def Let_def)

lemma same_exclusive_find_lo: "find_lo w e = (r, v, e') \<Longrightarrow> same_exclusive w v"
  using same_exclusive_ops(7) [of w e]
  by (auto simp: find_lo_def Let_def same_exclusive_def split: option.splits prod.splits if_splits)

lemma same_exclusive_lock_owner_init: "same_exclusive w (fst (picotm_lock_owner_init p w e))"
  using same_exclusive_ops(5) [of w e] same_exclusive_ops(6) [of "fst (picotm_os_mutex_init w e)" "snd (picotm_os_mutex_init w e)"]
  by (auto simp: picotm_lock_owner_init_def same_exclusive_def lm_update_owner_def split: prod.splits)

lemma same_exclusive_register: "same_exclusive w (fst (picotm_lock_manager_register_owner p w e))"
proof -
  obtain w1 e1 where w1: "lo_rwlock_lock Wrlocked w e = (w1, e1)" by fastforce
  obtain r w2 e2 where w2: "find_lo w1 e1 = (r, w2, e2)" by (rule prod_cases3)
  have "same_exclusive w w1" using same_exclusive_ops(4) [of w Wrlocked e] w1 by simp
  moreover have "same_exclusive w1 w2" by (rule same_exclusive_find_lo [OF w2])
  moreover have "fst (picotm_lock_manager_register_owner p w e) =
    (if picotm_error_is_set e1 then w1 else
      (case r of Some pos \<Rightarrow> if picotm_error_is_set e2 then lo_rwlock_unlock w2
         else lo_rwlock_unlock (lm_update_owner p (\<lambda>o'. picotm_lock_owner_set_index o' (of_nat pos))
                (w2\<lparr>lm_lo := (lm_lo w2)[pos := Some p]\<rparr>))
       | None \<Rightarrow> lo_rwlock_unlock w2))"
    by (simp add: picotm_lock_manager_register_owner_def w1 w2 split: option.splits)
  moreover have "same_exclusive w2 (lo_rwlock_unlock w2)"
    "same_exclusive w2 (lo_rwlock_unlock (lm_update_owner p f (w2\<lparr>lm_lo := tab\<rparr>)))" for f tab
    by (auto simp: same_exclusive_def lo_rwlock_unlock_def os_fault_def lm_update_owner_def)
  ultimately show ?thesis
    by (auto intro: same_exclusive_trans split: option.splits)
qed

lemma tx_init_facts:
  "picotm_tx_init lo lm e = (tx, lm', e') \<Longrightarrow>
   same_exclusive lm lm' \<and> tx_lo tx = lo \<and> tx_log tx = picotm_log_init"
  using same_exclusive_lock_owner_init [of lm lo e] same_exclusive_register [of "fst (picotm_lock_owner_init lo lm e)" lo "snd (picotm_lock_owner_init lo lm e)"]
  by (auto simp: picotm_tx_init_def Let_def intro: same_exclusive_trans split: prod.splits if_splits)

text \<open>The parts of a thread that creating its transaction leaves alone.\<close>

definition same_thread :: "('s, 'w) picotm_thread \<Rightarrow> ('s, 'w) picotm_thread \<Rightarrow> bool" where
  "same_thread th th' \<longleftrightarrow>
     same_exclusive (th_lm th) (th_lm th') \<and> th_lo th' = th_lo th \<and> th_error th' = th_error th \<and>
     (th_tx th \<noteq> None \<longrightarrow> th' = th) \<and> (\<forall>low. thread_tx_ok low th \<longrightarrow> thread_tx_ok low th')"

lemma get_tx_facts:
  fixes th :: "('s, 'w) picotm_thread"
  assumes "get_tx initialize th e = (tx, th', e')" and "\<not> picotm_error_is_set e"
  shows "same_thread th th' \<and> (tx \<noteq> None \<longrightarrow> th_tx th' = tx) \<and>
    (initialize \<longrightarrow> picotm_error_is_set e' \<longleftrightarrow> tx = None) \<and> (\<not> initialize \<longrightarrow> \<not> picotm_error_is_set e')"
proof (cases "th_tx th")
  case (Some t)
  then have "tx = Some t" "th' = th" "e' = e" using assms(1) by (simp_all add: get_tx_def)
  with Some assms(2) show ?thesis by (simp add: same_thread_def same_exclusive_def)
next
  case None
  show ?thesis
  proof (cases initialize)
    case True
    obtain t :: "'w picotm_tx" and lm1 e1 where init: "picotm_tx_init (th_lo th) (th_lm th) e = (t, lm1, e1)"
      by (rule prod_cases3)
    with None True assms tx_init_facts [OF init] show ?thesis
      by (auto simp: get_tx_def same_thread_def thread_tx_ok_def log_ok_init split: if_splits)
  qed (use None assms in \<open>auto simp: get_tx_def same_thread_def same_exclusive_def\<close>)
qed

lemma get_non_null_tx_facts:
  "get_non_null_tx th = Some (tx, th') \<Longrightarrow> same_thread th th' \<and> th_tx th' = Some tx"
  using get_tx_facts [of True th PICOTM_ERROR_INITIALIZER] clear_not_set
  by (auto simp: get_non_null_tx_def split: prod.splits option.splits if_splits)

lemma same_thread_exclusive: "same_thread th th' \<Longrightarrow> exclusive_held th' = exclusive_held th"
  by (simp add: same_thread_def same_exclusive_def exclusive_held_def)

lemma begin_start_ok:
  fixes th :: "('s, 'w) picotm_thread"
  assumes "begin_start clock mode env th = Some (ok, th')"
    and "thread_tx_ok low th" and "exclusive_held th = None"
  shows "thread_tx_ok low th' \<and>
    (if ok then running_ok th' else exclusive_held th' = None \<or> is_non_recoverable (th_error th'))"
proof -
  obtain t th1 e1 where get: "get_tx True th PICOTM_ERROR_INITIALIZER = (t, th1, e1)"
    by (rule prod_cases3)
  note facts = get_tx_facts [OF get clear_not_set]
  have held: "exclusive_held th1 = None" and ok1: "thread_tx_ok low th1"
    using facts assms(2,3) by (auto simp: same_thread_def same_exclusive_def exclusive_held_def)
  show ?thesis
  proof (cases "picotm_error_is_set e1")
    case True
    with assms(1) get held ok1 show ?thesis
      by (auto simp: begin_start_def exclusive_held_def thread_tx_ok_def)
  next
    case False
    with facts obtain tx where tx: "t = Some tx" "th_tx th1 = Some tx" by auto
    define bm where "bm = begin_mode tx (tx_mode_table mode) (mode \<noteq> PICOTM_MODE_START)"
    obtain tx' lm' w' e' where tx_begin: "picotm_tx_begin clock tx (th_lm th1) (tx_mode_table mode)
        (mode \<noteq> PICOTM_MODE_START) (Some env) (th_w th1) e1 = Some (tx', lm', w', e')"
      and spec: "tx_lo tx' = tx_lo tx" "tx_log tx' = tx_log tx"
      and lock: "if picotm_error_is_set e' then lm_exclusive_lo_lock lm' = None \<or> is_non_recoverable e'
       else lm_exclusive_lo_lock lm' = Some (lock_mode bm) \<and>
         lm_exclusive_lo lm' = (if bm = TX_MODE_IRREVOCABLE then Some (tx_lo tx) else lm_exclusive_lo (th_lm th1)) \<and>
         tx_mode tx' = bm \<and> tx_nretries tx' = begin_nretries tx (mode \<noteq> PICOTM_MODE_START) \<and>
         tx_env tx' = Some env \<and> (w', e') = run_calls (map picotm_module_begin (tx_module tx)) (th_w th1) e1"
      using begin_protocol [OF held [unfolded exclusive_held_def] False, of clock tx "tx_mode_table mode"
          "mode \<noteq> PICOTM_MODE_START" "Some env" "th_w th1"]
      unfolding bm_def [symmetric] by (elim exE conjE) (rule that, assumption+)
    have res: "ok = (\<not> picotm_error_is_set e')"
      "th' = th1\<lparr>th_tx := Some tx', th_lm := lm', th_w := w', th_error := e'\<rparr>"
      using assms(1) get False tx tx_begin by (auto simp: begin_start_def)
    have "tx_lo tx = th_lo th1" "log_ok low (tx_log tx)" using ok1 tx by (auto simp: thread_tx_ok_def)
    with spec lock res show ?thesis
      by (auto simp: thread_tx_ok_def running_ok_def exclusive_held_def picotm_tx_is_irrevocable_def
          split: if_splits)
  qed
qed

lemma rollback_releases:
  assumes "log_ok low (tx_log tx)" and "\<not> picotm_error_is_set e" and "lm_exclusive_lo_lock lm \<noteq> None"
  obtains tx' lm' w' e' where "picotm_tx_rollback tx lm w e = Some (tx', lm', w', e')"
    and "lm_exclusive_lo_lock lm' = None" "tx_lo tx' = tx_lo tx" "log_ok low (tx_log tx')"
proof -
  obtain w1 e1 where run: "run_calls (undo_calls tx) w e = (w1, e1)" by fastforce
  obtain tx1 where tx1: "tx1 = tx \<or> tx1 = tx\<lparr>tx_log := picotm_log_clear (tx_log tx)\<rparr>"
    "picotm_tx_rollback tx lm w e = Some
      (if picotm_error_is_set e1 then tx1 else tx\<lparr>tx_log := picotm_log_clear (tx_log tx)\<rparr>,
       picotm_lock_manager_release_irrevocability (tx_lo tx) lm, w1,
       if picotm_error_is_set e1 then picotm_error_mark_as_non_recoverable e1 else e1)"
    using rollback_protocol [OF tx_log_ok_log_ok [OF assms(1)] assms(2), of lm w] unfolding run prod.case
    by blast
  show thesis
    by (rule that [OF tx1(2)])
      (use tx1(1) assms in \<open>auto simp: release_eq log_ok_clear\<close>)
qed

lemma begin_rollback_ok:
  assumes "begin_rollback th = Some (ok, th')"
    and "thread_tx_ok low th" and "exclusive_held th \<noteq> None" and "th_tx th \<noteq> None"
  shows "thread_tx_ok low th' \<and> exclusive_held th' = None"
proof -
  obtain tx where tx: "th_tx th = Some tx" using assms(4) by auto
  then have get: "get_tx False th PICOTM_ERROR_INITIALIZER = (Some tx, th, PICOTM_ERROR_INITIALIZER)"
    by (simp add: get_tx_def)
  have log: "log_ok low (tx_log tx)" "tx_lo tx = th_lo th" using assms(2) tx by (auto simp: thread_tx_ok_def)
  obtain tx' lm' w' e' where "picotm_tx_rollback tx (th_lm th) (th_w th) PICOTM_ERROR_INITIALIZER = Some (tx', lm', w', e')"
    "lm_exclusive_lo_lock lm' = None" "tx_lo tx' = tx_lo tx" "log_ok low (tx_log tx')"
    using rollback_releases [OF log(1) clear_not_set] assms(3) unfolding exclusive_held_def by blast
  with assms(1) get log show ?thesis
    by (auto simp: begin_rollback_def clear_not_set thread_tx_ok_def exclusive_held_def)
qed

lemma begin_recovery_ok:
  assumes "begin_recovery th = Some (ok, th')"
    and "thread_tx_ok low th" and "exclusive_held th \<noteq> None" and "th_tx th \<noteq> None"
  shows "\<not> ok \<and> thread_tx_ok low th' \<and> (exclusive_held th' = None \<or> is_non_recoverable (th_error th'))"
proof -
  obtain tx where tx: "th_tx th = Some tx" using assms(4) by auto
  then have get: "get_tx True th PICOTM_ERROR_INITIALIZER = (Some tx, th, PICOTM_ERROR_INITIALIZER)"
    by (simp add: get_tx_def)
  have log: "log_ok low (tx_log tx)" "tx_lo tx = th_lo th" using assms(2) tx by (auto simp: thread_tx_ok_def)
  obtain tx' lm' w' e' where "picotm_tx_rollback tx (th_lm th) (th_w th) PICOTM_ERROR_INITIALIZER = Some (tx', lm', w', e')"
    "lm_exclusive_lo_lock lm' = None" "tx_lo tx' = tx_lo tx" "log_ok low (tx_log tx')"
    using rollback_releases [OF log(1) clear_not_set] assms(3) unfolding exclusive_held_def by blast
  with assms get log show ?thesis
    by (auto simp: begin_recovery_def clear_not_set thread_tx_ok_def exclusive_held_def split: if_splits)
qed

text \<open>The states in which a long jump with a mode finds the thread.\<close>

definition jump_ok :: "picotm_mode \<Rightarrow> ('s, 'w) picotm_thread \<Rightarrow> bool" where
  "jump_ok m th \<longleftrightarrow>
     (if m \<in> {PICOTM_MODE_START, PICOTM_MODE_RESTART} then exclusive_held th = None
      else exclusive_held th \<noteq> None \<and> th_tx th \<noteq> None)"

lemma picotm_begin_ok:
  assumes "picotm_begin clock m jmp th = Some (ok, th')" and "thread_tx_ok (he_lowmem env) th" and "jump_ok m th"
  shows "config_ok (begin_phase ok, th', env)"
proof -
  have retry: "config_ok (begin_phase ok, th', env)"
    if roll0: "(case begin_rollback th of None \<Rightarrow> None
         | Some (go, th) \<Rightarrow> if go then begin_start clock m jmp th else Some (False, th)) = Some (ok, th')"
      and held0: "exclusive_held th \<noteq> None \<and> th_tx th \<noteq> None"
  proof -
    obtain go th1 where roll: "begin_rollback th = Some (go, th1)"
      using roll0 by (cases "begin_rollback th") auto
    have "thread_tx_ok (he_lowmem env) th1 \<and> exclusive_held th1 = None"
      using begin_rollback_ok [OF roll assms(2)] held0 by blast
    with roll0 roll show ?thesis
      using begin_start_ok [of clock m jmp th1 ok th' "he_lowmem env"]
      by (cases go) (auto simp: config_ok_def begin_phase_def split: if_splits)
  qed
  show ?thesis
  proof (cases m)
    case PICOTM_MODE_RECOVERY
    with assms show ?thesis
      using begin_recovery_ok [of th ok th' "he_lowmem env"]
      by (auto simp: picotm_begin_def jump_ok_def config_ok_def begin_phase_def)
  next
    case PICOTM_MODE_RETRY
    with assms show ?thesis
      by (intro retry; cases "begin_rollback th") (auto simp: picotm_begin_def jump_ok_def)
  next
    case PICOTM_MODE_IRREVOCABLE
    with assms show ?thesis
      by (intro retry; cases "begin_rollback th") (auto simp: picotm_begin_def jump_ok_def)
  qed (use assms begin_start_ok [of clock m jmp th ok th' "he_lowmem env"] in
      \<open>auto simp: picotm_begin_def jump_ok_def config_ok_def begin_phase_def split: if_splits\<close>)
qed

lemma running_held: "running_ok th \<Longrightarrow> exclusive_held th \<noteq> None \<and> th_tx th \<noteq> None"
  by (auto simp: running_ok_def)

lemma restart_mode:
  "restart_tx_from_error e r = Longjmp m \<Longrightarrow> m \<notin> {PICOTM_MODE_START, PICOTM_MODE_RESTART}"
  by (auto simp: restart_tx_from_error_def split: option.splits picotm_error_status.splits)

lemma picotm_commit_cases:
  assumes "picotm_commit th = Some (c, th')" and "thread_tx_ok low th" and "running_ok th"
  shows "thread_tx_ok low th' \<and>
    (if picotm_error_is_set (th_error th')
     then exclusive_held th' = exclusive_held th \<and> th_tx th' \<noteq> None \<and>
       (\<exists>m. c = Longjmp m \<and> m \<notin> {PICOTM_MODE_START, PICOTM_MODE_RESTART})
     else exclusive_held th' = None \<and> c = Normal ())"
proof -
  obtain tx where tx: "th_tx th = Some tx" "\<not> picotm_error_is_set (th_error th)"
    using assms(3) by (auto simp: running_ok_def)
  have log: "log_ok low (tx_log tx)" "tx_lo tx = th_lo th" using assms(2) tx by (auto simp: thread_tx_ok_def)
  have get: "get_non_null_tx th = Some (tx, th)"
    using tx by (simp add: get_non_null_tx_def get_tx_def clear_not_set)
  obtain w1 e1 where prep: "run_calls (prepare_calls tx) (th_w th) (th_error th) = (w1, e1)" by fastforce
  obtain w2 e2 where publ: "run_calls (publish_calls tx) w1 e1 = (w2, e2)" by fastforce
  obtain tx1 where tx1: "tx1 = tx \<or> tx1 = tx\<lparr>tx_log := picotm_log_clear (tx_log tx)\<rparr>"
    "picotm_tx_commit tx (th_lm th) (th_w th) (th_error th) = Some
      (if picotm_error_is_set e1 then (tx, th_lm th, w1, e1)
       else if picotm_error_is_set e2 then (tx1, th_lm th, w2, picotm_error_mark_as_non_recoverable e2)
       else (tx\<lparr>tx_log := picotm_log_clear (tx_log tx)\<rparr>,
             picotm_lock_manager_release_irrevocability (tx_lo tx) (th_lm th), w2, e2))"
    using commit_protocol [OF tx_log_ok_log_ok [OF log(1)] tx(2), of "th_lm th" "th_w th"]
    unfolding prep publ prod.case by blast
  have held: "lm_exclusive_lo_lock (th_lm th) \<noteq> None"
    using running_held [OF assms(3)] by (simp add: exclusive_held_def)
  have res: "\<exists>m. restart_tx_from_error e () = Longjmp m" if "picotm_error_is_set e" for e
    using that by (cases "err_status e"; cases "the (err_status e)")
      (auto simp: restart_tx_from_error_def picotm_error_is_set_def)
  consider "picotm_error_is_set e1" | "\<not> picotm_error_is_set e1" "picotm_error_is_set e2"
    | "\<not> picotm_error_is_set e1" "\<not> picotm_error_is_set e2" by blast
  then show ?thesis
  proof cases
    case 1
    with assms(1) get tx1 have "c = restart_tx_from_error e1 ()"
      "th' = th\<lparr>th_tx := Some tx, th_lm := th_lm th, th_w := w1, th_error := e1\<rparr>"
      by (auto simp: picotm_commit_def)
    with 1 res [of e1] restart_mode [of e1 "()"] log show ?thesis
      by (auto simp: thread_tx_ok_def exclusive_held_def)
  next
    case 2
    with assms(1) get tx1 have "c = restart_tx_from_error (picotm_error_mark_as_non_recoverable e2) ()"
      "th' = th\<lparr>th_tx := Some tx1, th_lm := th_lm th, th_w := w2,
                th_error := picotm_error_mark_as_non_recoverable e2\<rparr>"
      by (auto simp: picotm_commit_def mark_fields)
    with 2 res [of "picotm_error_mark_as_non_recoverable e2"]
      restart_mode [of "picotm_error_mark_as_non_recoverable e2" "()"] log tx1(1)
    show ?thesis by (auto simp: thread_tx_ok_def exclusive_held_def mark_fields log_ok_clear)
  next
    case 3
    with assms(1) get tx1 have "c = Normal ()"
      "th' = th\<lparr>th_tx := Some (tx\<lparr>tx_log := picotm_log_clear (tx_log tx)\<rparr>),
                th_lm := picotm_lock_manager_release_irrevocability (tx_lo tx) (th_lm th),
                th_w := w2, th_error := e2\<rparr>"
      by (auto simp: picotm_commit_def)
    with 3 log held show ?thesis
      by (auto simp: thread_tx_ok_def exclusive_held_def release_eq log_ok_clear)
  qed
qed

lemma get_non_null_tx_running:
  "th_tx th \<noteq> None \<Longrightarrow> get_non_null_tx th = Some (the (th_tx th), th)"
  by (auto simp: get_non_null_tx_def get_tx_def clear_not_set)

lemma leaves_running_jump_ok:
  assumes "leaves_running th m th'" and "running_ok th" and "thread_tx_ok low th"
  shows "jump_ok m th' \<and> thread_tx_ok low th'"
proof -
  have held: "exclusive_held th \<noteq> None" "th_tx th \<noteq> None" using running_held [OF assms(2)] by auto
  have get: "get_non_null_tx (th\<lparr>th_error := e\<rparr>) = Some (the (th_tx th), th\<lparr>th_error := e\<rparr>)" for e
    using held(2) by (simp add: get_non_null_tx_running)
  show ?thesis
    using assms(1)
  proof cases
    case commit_fails
    from picotm_commit_cases [OF this assms(3,2)] held show ?thesis
      by (auto simp: jump_ok_def split: if_splits)
  next
    case irrevocable
    with held assms(3) show ?thesis by (auto simp: picotm_irrevocable_def jump_ok_def get_non_null_tx_running)
  next
    case (conflict lock)
    with held assms(3) show ?thesis
      by (auto simp: picotm_resolve_conflict_def jump_ok_def get exclusive_held_def thread_tx_ok_def)
  next
    case (error_code c)
    with held assms(3) show ?thesis
      by (auto simp: picotm_recover_from_error_code_def jump_ok_def get exclusive_held_def thread_tx_ok_def)
  next
    case (errno n)
    with held assms(3) show ?thesis
      by (auto simp: picotm_recover_from_errno_def jump_ok_def get exclusive_held_def thread_tx_ok_def)
  next
    case (error e)
    with held assms(3) restart_mode [of e "()" m] show ?thesis
      by (auto simp: picotm_recover_from_error_def jump_ok_def get exclusive_held_def thread_tx_ok_def)
  qed
qed

theorem tx_step_config_ok:
  assumes "tx_step realloc c c'" and "config_ok c" and "realloc_ok realloc"
  shows "config_ok c'"
  using assms(1,2)
proof (cases rule: tx_step.cases)
  case (start clock jmp th ok th' env)
  with assms(2) show ?thesis
    using picotm_begin_ok [of clock PICOTM_MODE_START jmp th ok th' env] by (simp add: config_ok_def jump_ok_def)
next
  case (work th env w)
  with assms(2) show ?thesis by (simp add: config_ok_def thread_tx_ok_def running_ok_def exclusive_held_def)
next
  case (register ops data th e m th' e' env)
  then obtain tx where tx: "th_tx th = Some tx" using assms(2) by (auto simp: config_ok_def running_ok_def)
  with register have "\<exists>ms. th' = th\<lparr>th_tx := Some (tx\<lparr>tx_module := ms\<rparr>)\<rparr>"
    by (auto simp: picotm_register_module_def get_non_null_tx_running picotm_tx_register_module_def Let_def
        intro: exI [of _ "tx_module tx"] exI [of _ "tx_module tx @ [picotm_module_init ops data]"]
        split: if_splits)
  with register tx assms(2) show ?thesis
    by (auto simp: config_ok_def thread_tx_ok_def running_ok_def exclusive_held_def picotm_tx_is_irrevocable_def)
next
  case (append m head tail env th th' env' e' tx)
  obtain log env1 e1 where app: "picotm_log_append realloc (tx_log tx)
      (PICOTM_EVENT_INITIALIZER m head tail) env PICOTM_ERROR_INITIALIZER = (log, env1, e1)"
    by (rule prod_cases3)
  with append have res: "th' = th\<lparr>th_tx := Some (tx\<lparr>tx_log := log\<rparr>)\<rparr>" "env' = env1"
    by (auto simp: picotm_append_event_def get_non_null_tx_running picotm_tx_append_event_def)
  have "log_ok (he_lowmem env) (tx_log tx)" using append assms(2) by (auto simp: config_ok_def thread_tx_ok_def)
  then have "log_ok (he_lowmem env1) log"
    using log_append_events [OF app assms(3) _ clear_not_set append(5)] by simp
  with append res assms(2) show ?thesis
    by (auto simp: config_ok_def thread_tx_ok_def running_ok_def exclusive_held_def picotm_tx_is_irrevocable_def)
next
  case (commit th th' env)
  with assms(2) show ?thesis
    using picotm_commit_cases [of th "Normal ()" th' "he_lowmem env"] by (auto simp: config_ok_def split: if_splits)
next
  case (leave th m th' clock jmp ok th'' env)
  with assms(2) show ?thesis
    using leaves_running_jump_ok [of th m th' "he_lowmem env"] picotm_begin_ok [of clock m jmp th' ok th'' env]
    by (simp add: config_ok_def)
next
  case (restart th m th' clock jmp ok th'' env)
  obtain tx where "get_non_null_tx th = Some (tx, th')" "m = PICOTM_MODE_RESTART"
    using restart by (cases "get_non_null_tx th") (auto simp: picotm_restart_def)
  then have same: "same_thread th th'" using get_non_null_tx_facts by blast
  have "exclusive_held th' = exclusive_held th" by (rule same_thread_exclusive [OF same])
  moreover have "thread_tx_ok (he_lowmem env) th'"
    using same restart assms(2) by (auto simp: config_ok_def same_thread_def)
  ultimately show ?thesis
    using picotm_begin_ok [of clock m jmp th' ok th'' env] restart assms(2) \<open>m = PICOTM_MODE_RESTART\<close>
    by (auto simp: config_ok_def jump_ok_def)
next
  case (give_up th env)
  with assms(2) show ?thesis by (simp add: config_ok_def)
qed

inductive tx_reachable ::
  "(picotm_event list, 'a) allocator \<Rightarrow> ('s, 'w, 'a) tx_config \<Rightarrow> bool" for realloc
where
  initial: "th_tx th = None \<Longrightarrow> exclusive_held th = None \<Longrightarrow> tx_reachable realloc (Outside, th, env)"
| step: "tx_reachable realloc c \<Longrightarrow> tx_step realloc c c' \<Longrightarrow> tx_reachable realloc c'"

theorem tx_reachable_config_ok:
  assumes "tx_reachable realloc c" and "realloc_ok realloc"
  shows "config_ok c"
  using assms(1)
proof induction
  case (initial th env)
  then show ?case by (simp add: config_ok_def thread_tx_ok_def)
next
  case (step c c')
  show ?case by (rule tx_step_config_ok [OF step(2) step.IH assms(2)])
qed

text \<open>A thread that has begun its first transaction, for the witnesses of the properties.\<close>

definition fresh_thread :: "(unit, nat) picotm_thread" where
  "fresh_thread = \<lparr>th_lo = 8, th_tx = None, th_error = PICOTM_ERROR_INITIALIZER,
                   th_lm = fresh_world (), th_w = 0\<rparr>"

definition fresh_heap :: "unit heap_env" where
  "fresh_heap = \<lparr>he_alloc = (), he_errno = 0, he_lowmem = False\<rparr>"

definition started_thread :: "(unit, nat) picotm_thread" where
  "started_thread = snd (the (picotm_begin (0, \<lparr>tv_sec = 5, tv_nsec = 0\<rparr>, 0) PICOTM_MODE_START 16 fresh_thread))"

lemma begin_fresh_thread:
  "picotm_begin (0, \<lparr>tv_sec = 5, tv_nsec = 0\<rparr>, 0) PICOTM_MODE_START 16 fresh_thread =
     Some (True, started_thread)"
proof -
  have "\<exists>th. picotm_begin (0, \<lparr>tv_sec = 5, tv_nsec = 0\<rparr>, 0) PICOTM_MODE_START 16 fresh_thread = Some (True, th)"
    by (simp add: picotm_begin_def begin_start_def get_tx_def fresh_thread_def picotm_tx_init_def
        picotm_lock_owner_init_def picotm_os_mutex_init_def picotm_os_cond_init_def os_call_def fresh_world_def
        picotm_lock_manager_register_owner_def lo_rwlock_lock_def clear_not_set find_lo_def
        grow_lo_array_def Let_def lo_rwlock_unlock_def lm_update_owner_def picotm_tx_begin_def
        TX_NRETRIES_LIMIT_def tx_mode_table_def picotm_lock_manager_wait_irrevocable_def
        exclusive_lo_lock_lock_def picotm_lock_owner_reset_timestamp_def picotm_os_get_timespec_def
        begin_modules_def tabwalk_1.simps)
  then show ?thesis by (auto simp: started_thread_def)
qed

lemma started_reachable: "tx_reachable copy_realloc (Running, started_thread, fresh_heap)"
proof -
  have "tx_reachable copy_realloc (Outside, fresh_thread, fresh_heap)"
    by (rule tx_reachable.initial) (simp_all add: fresh_thread_def exclusive_held_def fresh_world_def)
  moreover have "tx_step copy_realloc (Outside, fresh_thread, fresh_heap)
      (begin_phase True, started_thread, fresh_heap)"
    by (rule tx_step.start [OF begin_fresh_thread])
  ultimately show ?thesis by (auto simp: begin_phase_def intro: tx_reachable.step)
qed

end
