(* ===== verification/Picotm_Lock_Waiters.thy ===== *)
theory Picotm_Lock_Waiters
  imports Picotm_Lock_Manager
begin

text \<open>
  The contract between the lock manager and a lock.  A lock stores the index of its first waiter;
  the manager reads and exchanges it through the two call-backs of
  \<open>struct picotm_lock_slist_funcs\<close>.  The locale \<open>waiter_head\<close> states what the manager relies on, and
  its interpretation shows that the reader/writer lock keeps the contract for indices below 16,
  the number of values that its four index bits can tell apart.
\<close>

locale waiter_head =
  fixes funcs :: "'s picotm_lock_slist_funcs" and limit :: nat
  assumes cmpxchg_returns: "fst (cmpxchg_first_index funcs s old new) = get_first_index funcs s"
    and cmpxchg_hit: "get_first_index funcs s = old \<Longrightarrow> unat new < limit \<Longrightarrow>
      get_first_index funcs (snd (cmpxchg_first_index funcs s old new)) = new"
    and cmpxchg_miss: "get_first_index funcs s \<noteq> old \<Longrightarrow>
      snd (cmpxchg_first_index funcs s old new) = s"

subsection \<open>The chain of waiters with its indices\<close>

definition owner_registered :: "'s lm_world \<Rightarrow> pointer \<Rightarrow> bool" where
  "owner_registered w p \<longleftrightarrow>
     (let i = unat (picotm_lock_owner_get_index (lm_owner w p))
      in 0 < i \<and> i < length (lm_lo w) \<and> lm_lo w ! i = Some p)"

text \<open>
  The index \<open>i\<close> and the pointer \<open>p\<close> lead through the owners \<open>xs\<close>: the two representations of the
  list, the indices in the flags and the \<open>next\<close> pointers, agree.
\<close>

fun waiter_chain :: "(pointer \<Rightarrow> picotm_lock_owner) \<Rightarrow> u64 \<Rightarrow> pointer option \<Rightarrow> pointer list \<Rightarrow> bool"
where
  "waiter_chain f i p [] \<longleftrightarrow> i = 0 \<and> p = None"
| "waiter_chain f i p (x # xs) \<longleftrightarrow>
     i \<noteq> 0 \<and> picotm_lock_owner_get_index (f x) = i \<and> p = Some x \<and>
     waiter_chain f (picotm_lock_owner_get_next (f x)) (lo_next (f x)) xs"

lemma waiter_chain_list: "waiter_chain f i p xs \<Longrightarrow> waiter_list f p xs"
  by (induction xs arbitrary: i p) auto

lemma waiter_chain_cong:
  "(\<And>x. x \<in> set xs \<Longrightarrow> g x = f x) \<Longrightarrow> waiter_chain g i p xs = waiter_chain f i p xs"
  by (induction xs arbitrary: i p) auto

text \<open>The lock list of the world \<open>w\<close> consists of the registered owners \<open>xs\<close>, the newest first.\<close>

definition waiters_of ::
  "'s picotm_lock_slist_funcs \<Rightarrow> 's lm_world \<Rightarrow> pointer list \<Rightarrow> bool"
where
  "waiters_of funcs w xs \<longleftrightarrow>
     (\<exists>p. waiter_chain (lm_owner w) (get_first_index funcs (lm_slist w)) p xs) \<and>
     (\<forall>x\<in>set xs. owner_registered w x) \<and> distinct xs \<and>
     0 < length (lm_lo w) \<and> lm_lo w ! 0 = None"

lemma get_first_waiter_eq:
  assumes "waiters_of funcs w xs" and "lm_mutexes w = {}" and "next_rc w = 0" and "\<not> picotm_error_is_set e"
  shows "get_first_waiter funcs w e =
    (case xs of [] \<Rightarrow> Some (None, w, e)
     | x # _ \<Rightarrow> Some (Some x, w\<lparr>lm_mutexes := {x}, lm_rcs := tl (lm_rcs w)\<rparr>, e))"
proof (cases xs)
  case Nil
  with assms show ?thesis
    by (auto simp: get_first_waiter_def get_first_waiter_loop.simps waiters_of_def)
next
  case (Cons x ys)
  then have "picotm_lock_owner_get_index (lm_owner w x) = get_first_index funcs (lm_slist w)"
    "get_first_index funcs (lm_slist w) \<noteq> 0" "owner_registered w x"
    using assms by (auto simp: waiters_of_def)
  with Cons assms show ?thesis
    by (simp add: get_first_waiter_def get_first_waiter_loop.simps [of funcs "get_first_index funcs (lm_slist w)"]
        lo_at_def owner_registered_def Let_def lock_owner_pointer_def owner_lock_eq)
qed

subsection \<open>Waking up\<close>

lemma lm_world_unlocked:
  "lm_mutexes w = {} \<Longrightarrow> lm_lo_rwlock w = None \<Longrightarrow>
   w\<lparr>lm_rcs := rcs, lm_mutexes := {}, lm_lo_rwlock := None\<rparr> = w\<lparr>lm_rcs := rcs\<rparr>"
  by (cases w) simp

text \<open>
  What a wake-up is to do with the waiters \<open>xs\<close>, the newest first: the longest waiting one is
  signalled, and with it all waiting readers if it is a reader and the lock admits several.
\<close>

definition wake_plan :: "bool \<Rightarrow> (pointer \<Rightarrow> picotm_lock_owner) \<Rightarrow> pointer list \<Rightarrow> pointer list" where
  "wake_plan concurrent f xs =
     (let waiting = filter (\<lambda>x. owner_has LOCK_OWNER_WT (f x)) xs in
      if waiting = [] then []
      else last waiting #
        (if concurrent \<and> owner_has LOCK_OWNER_RD (f (last waiting))
         then filter (\<lambda>p. p \<noteq> last waiting \<and> waits_for_reading (f p)) xs else []))"

lemma wake_plan_waiting: "p \<in> set (wake_plan c f xs) \<Longrightarrow> p \<in> set xs \<and> owner_has LOCK_OWNER_WT (f p)"
  using last_in_set [of "filter (\<lambda>x. owner_has LOCK_OWNER_WT (f x)) xs"]
  by (auto simp: wake_plan_def Let_def waits_for_reading_def split: if_splits)

lemma wake_owners_Un: "wake_owners A (wake_owners B f) = wake_owners (A \<union> B) f"
proof -
  have "owner_clear LOCK_OWNER_WT (owner_clear LOCK_OWNER_WT lo) = owner_clear LOCK_OWNER_WT lo" for lo
    by (simp add: owner_clear_def and.assoc)
  then show ?thesis by (auto simp: wake_owners_def fun_eq_iff)
qed

lemma reading_after_wake:
  "waits_for_reading (wake_owners {q} f p) \<longleftrightarrow> p \<noteq> q \<and> waits_for_reading (f p)"
  by (simp add: wake_owners_def waits_for_reading_def)

theorem wake_up_eq:
  assumes "waiters_of funcs w xs" and "lm_mutexes w = {}" and "lm_lo_rwlock w = None"
    and "\<forall>rc\<in>set (lm_rcs w). rc = 0" and "\<not> picotm_error_is_set e"
  shows "\<exists>rcs. picotm_lock_manager_wake_up concurrent funcs w e =
    Some (w\<lparr>lm_owner := wake_owners (set (wake_plan concurrent (lm_owner w) xs)) (lm_owner w),
            lm_woken := lm_woken w @ wake_plan concurrent (lm_owner w) xs, lm_rcs := rcs\<rparr>, e)"
proof -
  define f where "f = lm_owner w"
  define w0 where "w0 = w\<lparr>lm_lo_rwlock := Some Rdlocked, lm_rcs := tl (lm_rcs w)\<rparr>"
  have zero0: "\<forall>rc\<in>set (lm_rcs w0). rc = 0" using assms(4) by (simp add: w0_def set_tl_0)
  have first: "get_first_waiter funcs w0 e =
    (case xs of [] \<Rightarrow> Some (None, w0, e)
     | x # _ \<Rightarrow> Some (Some x, w0\<lparr>lm_mutexes := {x}, lm_rcs := tl (lm_rcs w0)\<rparr>, e))"
    using assms zero0
    by (intro get_first_waiter_eq) (auto simp: waiters_of_def owner_registered_def w0_def next_rc_0)
  have lock: "lo_rwlock_lock Rdlocked w e = (w0, e)"
    using assms by (simp add: lo_rwlock_lock_eq next_rc_0 w0_def)
  show ?thesis
  proof (cases xs)
    case Nil
    with first lock assms show ?thesis
      by (intro exI [of _ "tl (lm_rcs w)"])
        (simp add: picotm_lock_manager_wake_up_def w0_def wake_plan_def wake_owners_def lo_rwlock_unlock_eq)
  next
    case (Cons x ys)
    define w1 where "w1 = w0\<lparr>lm_mutexes := {x}, lm_rcs := tl (lm_rcs w0)\<rparr>"
    have zero1: "\<forall>rc\<in>set (lm_rcs w1). rc = 0" using zero0 by (simp add: w1_def set_tl_0)
    have list: "waiter_list f (Some x) xs" and dist: "distinct xs"
      using assms(1) Cons by (auto simp: waiters_of_def f_def dest!: waiter_chain_list)
    define r where "r = pick_from compare_longest_waiting f None xs"
    have f1: "lm_owner w1 = f" by (simp add: w1_def w0_def f_def)
    have r': "pick_from (compare_waiters ! 0) (lm_owner w1) None xs = r"
      unfolding f1 by (simp add: r_def compare_waiters_def)
    have "\<exists>rcs. pick_waiter x (compare_waiters ! 0) w1 e =
        Some (r, w1\<lparr>lm_mutexes := {x} \<union> set_option r, lm_rcs := rcs\<rparr>, e) \<and> (\<forall>rc\<in>set rcs. rc = 0)"
      unfolding r' [symmetric]
      by (rule pick_waiter_ok) (use list dist assms(5) zero1 f1 in \<open>auto simp: w1_def\<close>)
    then obtain rcs where pick: "pick_waiter x (compare_waiters ! 0) w1 e =
        Some (r, w1\<lparr>lm_mutexes := {x} \<union> set_option r, lm_rcs := rcs\<rparr>, e)"
      and zero: "\<forall>rc\<in>set rcs. rc = 0" by blast
    define w2 where "w2 = w1\<lparr>lm_mutexes := {x} \<union> set_option r, lm_rcs := rcs\<rparr>"
    have go: "picotm_lock_manager_wake_up concurrent funcs w e =
      (case r of None \<Rightarrow> Some (lo_rwlock_unlock (picotm_lock_owner_unlock x w2), e)
       | Some picked \<Rightarrow>
          (let (w, error) = picotm_lock_owner_wake_up picked w2 e in
           if picotm_error_is_set error then
             Some (lo_rwlock_unlock (picotm_lock_owner_unlock x (picotm_lock_owner_unlock picked w)), error)
           else
             (let wake_up_all_readers =
                  (concurrent \<and> owner_has LOCK_OWNER_RD (lm_owner w picked));
                  w = (if picked \<noteq> x then picotm_lock_owner_unlock picked w else w)
              in if wake_up_all_readers then wake_up_readers_loop None (Some x) w error
                 else Some (lo_rwlock_unlock (picotm_lock_owner_unlock x w), error))))"
      using assms(5)
      by (simp add: picotm_lock_manager_wake_up_def lock first [unfolded Cons list.case, folded w1_def]
          Cons pick [folded w2_def])
    show ?thesis
    proof (cases r)
      case None
      then have "wake_plan concurrent f xs = []"
        by (auto simp: r_def pick_from_longest_waiting wake_plan_def filter_empty_conv split: if_splits)
      then show ?thesis
        unfolding go None option.case f_def [symmetric]
        using assms(2,3)
        by (intro exI [of _ rcs])
          (simp add: w2_def None owner_unlock_eq lo_rwlock_unlock_eq w1_def w0_def wake_owners_def f_def
            lm_world_unlocked)
    next
      case (Some q)
      define w3 where "w3 = w2\<lparr>lm_owner := wake_owners {q} f, lm_woken := lm_woken w @ [q],
          lm_mutexes := {x}, lm_rcs := tl rcs\<rparr>"
      have wake: "picotm_lock_owner_wake_up q w2 e = (w3\<lparr>lm_mutexes := {x} \<union> {q}\<rparr>, e)"
        using zero by (subst owner_wake_up_eq)
          (auto simp: next_rc_0 w2_def w3_def w1_def w0_def f_def Some)
      have unlock: "(if q \<noteq> x then picotm_lock_owner_unlock q (w3\<lparr>lm_mutexes := {x} \<union> {q}\<rparr>)
                     else w3\<lparr>lm_mutexes := {x} \<union> {q}\<rparr>) = w3"
      proof (cases "q = x")
        case False
        then have "{x} \<union> {q} - {q} = {x}" by auto
        with False show ?thesis by (simp add: owner_unlock_eq w3_def)
      qed (simp add: w3_def)
      have q: "q = last (filter (\<lambda>x. owner_has LOCK_OWNER_WT (f x)) xs)"
        "filter (\<lambda>x. owner_has LOCK_OWNER_WT (f x)) xs \<noteq> []"
        using Some by (auto simp: r_def pick_from_longest_waiting filter_empty_conv split: if_splits)
      have go3: "picotm_lock_manager_wake_up concurrent funcs w e =
          (if concurrent \<and> owner_has LOCK_OWNER_RD (f q) then wake_up_readers_loop None (Some x) w3 e
           else Some (lo_rwlock_unlock (picotm_lock_owner_unlock x w3), e))"
        unfolding go Some option.case Let_def wake prod.case unlock
        using assms(5) by (simp add: w3_def wake_owners_def)
      have final: "wake_owners (set (wake_plan concurrent f xs)) f = lm_owner v \<and>
          wake_plan concurrent f xs = ws \<Longrightarrow>
          lm_exclusive_lo v = lm_exclusive_lo w \<and> lm_exclusive_lo_lock v = lm_exclusive_lo_lock w \<and>
          lm_lo v = lm_lo w \<and> lm_slist v = lm_slist w \<and> lm_fault v = lm_fault w \<and>
          lm_mutexes v = {} \<and> lm_lo_rwlock v = None \<and> lm_woken v = lm_woken w @ ws \<Longrightarrow>
          \<exists>rcs. Some (v, e) = Some (w\<lparr>lm_owner := wake_owners (set (wake_plan concurrent f xs)) f,
            lm_woken := lm_woken w @ wake_plan concurrent f xs, lm_rcs := rcs\<rparr>, e)" for v :: "'a lm_world" and ws
        using assms(2,3) by (intro exI [of _ "lm_rcs v"]) (auto intro!: lm_world.equality)
      have w3: "lm_exclusive_lo w3 = lm_exclusive_lo w" "lm_exclusive_lo_lock w3 = lm_exclusive_lo_lock w"
        "lm_lo w3 = lm_lo w" "lm_slist w3 = lm_slist w" "lm_fault w3 = lm_fault w"
        "lm_mutexes w3 = {x}" "lm_lo_rwlock w3 = Some Rdlocked" "lm_owner w3 = wake_owners {q} f"
        "lm_woken w3 = lm_woken w @ [q]" "lm_rcs w3 = tl rcs"
        by (simp_all add: w3_def w2_def w1_def w0_def)
      show ?thesis
      proof (cases "concurrent \<and> owner_has LOCK_OWNER_RD (f q)")
        case True
        have list3: "waiter_list (lm_owner w3) (Some x) xs"
          using list by (subst waiter_list_next_cong [of _ f]) (simp_all add: w3 wake_owners_def)
        have readers: "{p \<in> set xs. waits_for_reading (lm_owner w3 p)} =
              set (filter (\<lambda>p. p \<noteq> q \<and> waits_for_reading (f p)) xs)"
            "(\<lambda>p. waits_for_reading (lm_owner w3 p)) = (\<lambda>p. p \<noteq> q \<and> waits_for_reading (f p))"
          by (auto simp: w3 reading_after_wake)
        have plan: "wake_plan concurrent f xs =
            q # filter (\<lambda>p. p \<noteq> q \<and> waits_for_reading (f p)) xs"
          using True q by (simp add: wake_plan_def Let_def)
        have "\<exists>rcs. wake_up_readers_loop None (Some x) w3 e =
          Some (w3\<lparr>lm_owner := wake_owners {p \<in> set xs. waits_for_reading (lm_owner w3 p)} (lm_owner w3),
             lm_mutexes := {}, lm_lo_rwlock := None,
             lm_woken := lm_woken w3 @ filter (\<lambda>p. waits_for_reading (lm_owner w3 p)) xs,
             lm_rcs := rcs\<rparr>, e)"
          by (rule wake_up_readers_loop_spec [OF list3 dist assms(5)]) (use zero in \<open>simp_all add: w3 set_tl_0\<close>)
        then obtain rcs' where "wake_up_readers_loop None (Some x) w3 e =
          Some (w3\<lparr>lm_owner := wake_owners (set (wake_plan concurrent f xs)) f,
             lm_mutexes := {}, lm_lo_rwlock := None,
             lm_woken := lm_woken w @ wake_plan concurrent f xs, lm_rcs := rcs'\<rparr>, e)"
          unfolding readers plan by (auto simp: w3 wake_owners_Un)
        then show ?thesis unfolding go3 f_def [symmetric] if_P [OF True]
          by (simp only:) (intro final [of _ "wake_plan concurrent f xs"], simp_all add: w3)
      next
        case False
        then have plan: "wake_plan concurrent f xs = [q]" using q by (auto simp: wake_plan_def Let_def)
        show ?thesis unfolding go3 f_def [symmetric] if_not_P [OF False]
          by (intro final [of _ "[q]"]) (simp_all add: owner_unlock_eq lo_rwlock_unlock_eq w3 plan)
      qed
    qed
  qed
qed

subsection \<open>Waiting without interference\<close>

lemma lm_update_owner_simps [simp]:
  "lm_owner (lm_update_owner p g w) = (lm_owner w)(p := g (lm_owner w p))"
  "lm_mutexes (lm_update_owner p g w) = lm_mutexes w"
  "lm_lo_rwlock (lm_update_owner p g w) = lm_lo_rwlock w"
  "lm_lo (lm_update_owner p g w) = lm_lo w"
  "lm_slist (lm_update_owner p g w) = lm_slist w"
  "lm_rcs (lm_update_owner p g w) = lm_rcs w"
  "lm_fault (lm_update_owner p g w) = lm_fault w"
  by (simp_all add: lm_update_owner_def)

text \<open>
  Two worlds that differ only in the owner \<open>p\<close>, apart from its index, and in the locks held: the
  effect of the steps between queueing up and leaving the queue.
\<close>

definition same_but_owner :: "pointer \<Rightarrow> 's lm_world \<Rightarrow> 's lm_world \<Rightarrow> bool" where
  "same_but_owner p w v \<longleftrightarrow>
     (\<forall>q. q \<noteq> p \<longrightarrow> lm_owner v q = lm_owner w q) \<and> lm_lo v = lm_lo w \<and> lm_fault v = lm_fault w \<and>
     picotm_lock_owner_get_index (lm_owner v p) = picotm_lock_owner_get_index (lm_owner w p)"

lemma same_but_owner_registered:
  "same_but_owner p w v \<Longrightarrow> owner_registered v q = owner_registered w q"
  by (cases "q = p") (auto simp: same_but_owner_def owner_registered_def)

lemma same_but_owner_waiters:
  assumes "same_but_owner p w v" and "waiters_of funcs w xs" and "p \<notin> set xs"
    and "get_first_index funcs (lm_slist v) = get_first_index funcs (lm_slist w)"
  shows "waiters_of funcs v xs"
proof -
  obtain q where "waiter_chain (lm_owner w) (get_first_index funcs (lm_slist w)) q xs"
    using assms(2) by (auto simp: waiters_of_def)
  then have "waiter_chain (lm_owner v) (get_first_index funcs (lm_slist v)) q xs"
    using assms(1,3,4) by (subst waiter_chain_cong [of xs _ "lm_owner w"]) (auto simp: same_but_owner_def)
  then show ?thesis
    using assms(1,2) by (auto simp: waiters_of_def same_but_owner_registered same_but_owner_def)
qed

context waiter_head
begin

lemma prepend_loop_eq:
  assumes "waiters_of funcs w xs" and "owner_registered w p" and "p \<notin> set xs"
    and "unat (picotm_lock_owner_get_index (lm_owner w p)) < limit"
  shows "\<exists>v. prepend_loop funcs p (picotm_lock_owner_get_index (lm_owner w p))
      (get_first_index funcs (lm_slist w)) w = Some v \<and> same_but_owner p w v \<and>
    lm_mutexes v = lm_mutexes w \<and> lm_lo_rwlock v = lm_lo_rwlock w \<and> lm_rcs v = lm_rcs w \<and>
    get_first_index funcs (lm_slist v) = picotm_lock_owner_get_index (lm_owner w p) \<and>
    picotm_lock_owner_get_next (lm_owner v p) = get_first_index funcs (lm_slist w) \<and>
    waiters_of funcs v (p # xs)"
proof -
  define first where "first = get_first_index funcs (lm_slist w)"
  define index where "index = picotm_lock_owner_get_index (lm_owner w p)"
  obtain head where chain: "waiter_chain (lm_owner w) first head xs"
    using assms(1) by (auto simp: waiters_of_def first_def)
  have first_lo: "unat first < length (lm_lo w) \<and> lm_lo w ! unat first = head \<and> unat first < 1024"
  proof (cases xs)
    case (Cons x ys)
    with chain have "picotm_lock_owner_get_index (lm_owner w x) = first" "head = Some x" by auto
    with Cons assms(1) show ?thesis
      using get_index_bound [of "lm_owner w x"] by (auto simp: waiters_of_def owner_registered_def Let_def)
  qed (use chain assms(1) in \<open>auto simp: waiters_of_def\<close>)
  define lo where "lo = (picotm_lock_owner_set_next (lm_owner w p) first)\<lparr>lo_next := head\<rparr>"
  define v where "v = w\<lparr>lm_owner := (lm_owner w)(p := lo),
      lm_slist := snd (cmpxchg_first_index funcs (lm_slist w) first index)\<rparr>"
  obtain s' where "cmpxchg_first_index funcs (lm_slist w) first index = (first, s')"
    using cmpxchg_returns [of "lm_slist w" first index]
    by (cases "cmpxchg_first_index funcs (lm_slist w) first index") (simp add: first_def)
  then have go: "prepend_loop funcs p index first w = Some v"
    unfolding prepend_loop.simps [of funcs p index first w]
    using first_lo
    by (simp add: lo_at_def lm_update_owner_def slist_cmpxchg_def Let_def v_def lo_def split: prod.splits)
  have head_v: "get_first_index funcs (lm_slist v) = index"
    using assms(4) by (simp add: v_def index_def cmpxchg_hit first_def)
  have lo_fields: "picotm_lock_owner_get_index lo = index" "lo_next lo = head"
    using owner_fields_independent(2) [of "lm_owner w p" first]
    by (simp_all add: lo_def index_def picotm_lock_owner_get_index_def)
  have lo_next: "picotm_lock_owner_get_next lo = first"
    using get_next_set_next [of "lm_owner w p" first] first_lo
    by (simp add: lo_def picotm_lock_owner_get_next_def word_unat_eq_iff)
  have same: "same_but_owner p w v"
    using lo_fields by (simp add: same_but_owner_def v_def index_def)
  have "waiter_chain (lm_owner v) first head xs"
    using chain assms(3) by (subst waiter_chain_cong [of xs _ "lm_owner w"]) (auto simp: v_def)
  moreover have "index \<noteq> 0"
    using assms(2) by (auto simp: owner_registered_def Let_def index_def unat_gt_0)
  ultimately have "waiter_chain (lm_owner v) index (Some p) (p # xs)"
    using lo_fields lo_next by (simp add: v_def)
  then have "waiters_of funcs v (p # xs)"
    using assms(1,2,3) same head_v
    by (auto simp: waiters_of_def same_but_owner_registered same_but_owner_def)
  with go same head_v lo_next show ?thesis
    unfolding index_def first_def by (intro exI [of _ v]) (simp add: v_def)
qed

text \<open>
  Leaving the queue as its first element restores the index that the queue had before.
\<close>

lemma remove_first_eq:
  assumes "get_first_index funcs (lm_slist w) = picotm_lock_owner_get_index (lm_owner w p)"
    and "unat (picotm_lock_owner_get_next (lm_owner w p)) < limit"
    and "lm_lo_rwlock w = None" and "\<forall>rc\<in>set (lm_rcs w). rc = 0"
  shows "\<exists>s. remove_waiter funcs p None w =
      Some (Inr (None, w\<lparr>lm_slist := s, lm_rcs := tl (lm_rcs w)\<rparr>)) \<and>
    get_first_index funcs s = picotm_lock_owner_get_next (lm_owner w p)"
proof -
  define i where "i = picotm_lock_owner_get_index (lm_owner w p)"
  define j where "j = picotm_lock_owner_get_next (lm_owner w p)"
  obtain s where s: "cmpxchg_first_index funcs (lm_slist w) i j = (i, s)"
    using cmpxchg_returns [of "lm_slist w" i j] assms(1)
    by (cases "cmpxchg_first_index funcs (lm_slist w) i j") (simp add: i_def)
  have "get_first_index funcs s = j"
    using cmpxchg_hit [of "lm_slist w" i j] assms(1,2) s by (simp add: i_def j_def)
  moreover have "remove_waiter funcs p None w =
      Some (Inr (None, w\<lparr>lm_slist := s, lm_rcs := tl (lm_rcs w)\<rparr>))"
  proof -
    have "w\<lparr>lm_lo_rwlock := None\<rparr> = w" using assms(3) by (cases w) simp
    then have "w\<lparr>lm_slist := s, lm_rcs := tl (lm_rcs w), lm_lo_rwlock := None\<rparr> =
        w\<lparr>lm_slist := s, lm_rcs := tl (lm_rcs w)\<rparr>"
      using assms(3) by (intro lm_world.equality) simp_all
    with assms(3,4) s show ?thesis
      by (simp add: remove_waiter_def lo_rwlock_lock_eq next_rc_0 remove_waiter_loop.simps [of _ _ None]
          slist_cmpxchg_def i_def j_def lo_rwlock_unlock_eq picotm_error_is_set_def
          PICOTM_ERROR_INITIALIZER_def)
  qed
  ultimately show ?thesis by (auto simp: j_def)
qed

theorem wait_leaves_queue:
  assumes "waiters_of funcs w xs" and "owner_registered w p" and "p \<notin> set xs"
    and "unat (picotm_lock_owner_get_index (lm_owner w p)) < limit"
    and "unat (get_first_index funcs (lm_slist w)) < limit"
    and "lm_mutexes w = {}" and "lm_lo_rwlock w = None" and "\<forall>rc\<in>set (lm_rcs w). rc = 0"
    and "\<not> picotm_error_is_set e"
    and "compute_timeout clock (lm_owner w p) \<lparr>tv_sec = 0, tv_nsec = 0\<rparr> e = (True, timeout, e)"
    and "\<And>v. timedwait p timeout v = (ETIMEDOUT, v) \<or>
      timedwait p timeout v = (0, lm_update_owner p (owner_clear LOCK_OWNER_WT) v)"
  shows "\<exists>woken_up v. picotm_lock_manager_wait clock timedwait funcs p wr w e =
      Some (Inr (woken_up, v, e)) \<and> waiters_of funcs v xs \<and> same_but_owner p w v \<and>
      lm_mutexes v = {} \<and> lm_lo_rwlock v = None"
proof -
  define w0 where
    "w0 = w\<lparr>lm_lo_rwlock := Some Rdlocked, lm_mutexes := {p}, lm_rcs := tl (tl (lm_rcs w))\<rparr>"
  have w0: "waiters_of funcs w0 xs" "owner_registered w0 p"
    "picotm_lock_owner_get_index (lm_owner w0 p) = picotm_lock_owner_get_index (lm_owner w p)"
    "lm_slist w0 = lm_slist w"
    using assms(1,2) by (simp_all add: w0_def waiters_of_def owner_registered_def)
  obtain v0 where v0: "prepend_loop funcs p (picotm_lock_owner_get_index (lm_owner w0 p))
      (get_first_index funcs (lm_slist w0)) w0 = Some v0" "same_but_owner p w0 v0"
    "lm_mutexes v0 = {p}" "lm_lo_rwlock v0 = Some Rdlocked" "lm_rcs v0 = tl (tl (lm_rcs w))"
    "get_first_index funcs (lm_slist v0) = picotm_lock_owner_get_index (lm_owner w p)"
    "picotm_lock_owner_get_next (lm_owner v0 p) = get_first_index funcs (lm_slist w)"
    using prepend_loop_eq [OF w0(1,2) assms(3)] assms(4) w0 by (auto simp: w0_def)
  define w1 where "w1 = v0\<lparr>lm_lo_rwlock := None\<rparr>"
  have lock: "lock_and_prepend_waiter funcs p w e = Some (w1, e)"
  proof -
    have "lo_rwlock_lock Rdlocked w e = (w\<lparr>lm_lo_rwlock := Some Rdlocked, lm_rcs := tl (lm_rcs w)\<rparr>, e)"
      using assms(7,8) by (simp add: lo_rwlock_lock_eq next_rc_0)
    moreover have "picotm_lock_owner_lock p (w\<lparr>lm_lo_rwlock := Some Rdlocked, lm_rcs := tl (lm_rcs w)\<rparr>) e
        = (w0, e)"
      using assms(6,8) by (simp add: owner_lock_eq next_rc_0 set_tl_0 w0_def)
    ultimately show ?thesis
      using v0(1,4) assms(9) by (simp add: lock_and_prepend_waiter_def lo_rwlock_unlock_eq w1_def)
  qed
  define flag where "flag = owner_wait_flag wr"
  have flag: "flag \<in> {LOCK_OWNER_WT, LOCK_OWNER_RD, LOCK_OWNER_WR}"
    by (simp add: flag_def owner_wait_flag_def)
  define w2 where "w2 = lm_update_owner p (owner_set LOCK_OWNER_WT) (lm_update_owner p (owner_set flag) w1)"
  define w4 where "w4 = lm_update_owner p (owner_clear LOCK_OWNER_WT) w2"
  obtain woken_up where wait:
    "wait_until_loop timedwait p timeout w2 e = Some (woken_up, w4, e)"
    using assms(11) [of w2] assms(9)
    by (auto simp: wait_until_loop.simps [of timedwait p timeout w2] picotm_os_cond_wait_until_def
        ETIMEDOUT_def w4_def)
  have w4: "get_first_index funcs (lm_slist w4) = picotm_lock_owner_get_index (lm_owner w4 p)"
    "picotm_lock_owner_get_next (lm_owner w4 p) = get_first_index funcs (lm_slist w)"
    "lm_lo_rwlock w4 = None" "\<forall>rc\<in>set (lm_rcs w4). rc = 0" "lm_mutexes w4 = {p}"
    using v0 set_tl_0 [OF set_tl_0 [OF assms(8)]] flag
    by (simp_all add: w4_def w2_def w1_def owner_flag_fields set_tl_0 same_but_owner_def w0_def)
  obtain s where s: "remove_waiter funcs p None w4 =
      Some (Inr (None, w4\<lparr>lm_slist := s, lm_rcs := tl (lm_rcs w4)\<rparr>))"
    "get_first_index funcs s = get_first_index funcs (lm_slist w)"
    using remove_first_eq [OF w4(1) _ w4(3,4)] assms(5) unfolding w4(2) by blast
  define v where "v = (lm_update_owner p (owner_clear flag)
      (w4\<lparr>lm_slist := s, lm_rcs := tl (lm_rcs w4)\<rparr>))\<lparr>lm_mutexes := {}\<rparr>"
  have "picotm_lock_manager_wait clock timedwait funcs p wr w e = Some (Inr (woken_up, v, e))"
    using lock wait s(1) assms(9,10) w4(5)
    by (simp add: picotm_lock_manager_wait_def picotm_lock_owner_wait_until_def flag_def [symmetric]
        w2_def [symmetric] owner_unlock_eq v_def Let_def)
  moreover have same: "same_but_owner p w v"
    using v0(2) flag
    by (simp add: same_but_owner_def v_def w4_def w2_def w1_def w0_def owner_flag_fields)
  moreover have "waiters_of funcs v xs"
    by (rule same_but_owner_waiters [OF same assms(1,3)]) (simp add: v_def s(2))
  ultimately show ?thesis by (auto simp: v_def w4(3))
qed

end

text \<open>
  The reader/writer lock as a provider of the contract: its four index bits hold the indices
  below 16.
\<close>

definition s_picotm_rwlock_slist_funcs :: "u8 picotm_lock_slist_funcs" where
  "s_picotm_rwlock_slist_funcs =
     \<lparr>get_first_index = picotm_rwlock_get_index,
      cmpxchg_first_index = (\<lambda>n old new. the (picotm_rwlock_cmpxchg_index old new n))\<rparr>"

interpretation rwlock_head: waiter_head s_picotm_rwlock_slist_funcs 16
proof unfold_locales
  fix n :: u8 and old new
  show "fst (cmpxchg_first_index s_picotm_rwlock_slist_funcs n old new) =
      get_first_index s_picotm_rwlock_slist_funcs n"
    by (simp add: s_picotm_rwlock_slist_funcs_def lock_simps)
  show "get_first_index s_picotm_rwlock_slist_funcs
          (snd (cmpxchg_first_index s_picotm_rwlock_slist_funcs n old new)) = new"
    if "get_first_index s_picotm_rwlock_slist_funcs n = old" "unat new < 16"
    using that by (simp add: s_picotm_rwlock_slist_funcs_def lock_simps word_unat_eq_iff)
  show "snd (cmpxchg_first_index s_picotm_rwlock_slist_funcs n old new) = n"
    if "get_first_index s_picotm_rwlock_slist_funcs n \<noteq> old"
    using that by (simp add: s_picotm_rwlock_slist_funcs_def lock_simps)
qed

subsection \<open>Registration\<close>

text \<open>The table of owners is empty or has an unused first entry: index 0 stands for no owner.\<close>

definition lo_table_ok :: "'s lm_world \<Rightarrow> bool" where
  "lo_table_ok w \<longleftrightarrow> lm_lo w = [] \<or> 2 \<le> length (lm_lo w) \<and> lm_lo w ! 0 = None"

lemma lfind_null_Some:
  "lfind_null xs k = Some i \<Longrightarrow> k \<le> i \<and> i - k < length xs \<and> xs ! (i - k) = None"
proof (induction xs arbitrary: k)
  case (Cons x xs)
  show ?case
  proof (cases "x = None")
    case False
    with Cons.prems have "lfind_null xs (Suc k) = Some i" by simp
    then have "Suc k \<le> i" "i - Suc k < length xs" "xs ! (i - Suc k) = None"
      using Cons.IH by blast+
    then show ?thesis by (auto simp: nth_Cons' less_diff_conv2)
  qed (use Cons.prems in auto)
qed simp

definition grown_by_one :: "pointer option list \<Rightarrow> pointer option list \<Rightarrow> nat \<Rightarrow> bool" where
  "grown_by_one tab tab' pos \<longleftrightarrow>
     0 < pos \<and> pos \<le> Suc (length tab) \<and> pos < length tab' \<and> length tab \<le> length tab' \<and>
     (pos < length tab \<longrightarrow> tab ! pos = None) \<and>
     (\<forall>i<length tab'. tab' ! i = (if i < length tab then tab ! i else None))"

lemma find_lo_cases:
  assumes "lo_table_ok w" and "\<not> picotm_error_is_set e"
  obtains v e' where "find_lo w e = (None, v, e')" "picotm_error_is_set e'"
      "v = w\<lparr>lm_rcs := tl (lm_rcs w)\<rparr>"
  | pos rcs tab where "find_lo w e = (Some pos, w\<lparr>lm_lo := tab, lm_rcs := rcs\<rparr>, e)"
      "grown_by_one (lm_lo w) tab pos"
proof -
  define nlos where "nlos = length (lm_lo w) - (if length (lm_lo w) = 0 then 0 else 1)"
  define off where "off = (if nlos = 0 then 0 else 1 :: nat)"
  show thesis
  proof (cases "lfind_null (take nlos (drop off (lm_lo w))) off")
    case (Some pos)
    have ne: "2 \<le> length (lm_lo w)" using assms(1) Some
      by (auto simp: lo_table_ok_def nlos_def)
    then have "off = 1" "nlos = length (lm_lo w) - 1" by (auto simp: off_def nlos_def)
    then have "1 \<le> pos \<and> pos < length (lm_lo w) \<and> lm_lo w ! pos = None"
      using lfind_null_Some [OF Some] ne by (auto simp: nth_append)
    moreover have "find_lo w e = (Some pos, w\<lparr>lm_lo := lm_lo w, lm_rcs := lm_rcs w\<rparr>, e)"
      using Some by (simp add: find_lo_def Let_def nlos_def off_def split: if_splits)
    ultimately show thesis
      by (intro that(2) [of pos "lm_rcs w" "lm_lo w"]) (auto simp: grown_by_one_def)
  next
    case None
    define n where "n = length (lm_lo w)"
    define pos where "pos = (if n = 0 then 1 else 0) + n"
    define tab where "tab = lm_lo w @ replicate (pos + 1 - n) None"
    have find: "find_lo w e =
        (let (w, error) = grow_lo_array w e in
         if picotm_error_is_set error then (None, w, error) else (Some pos, w, error))"
      using None unfolding find_lo_def nlos_def [symmetric] off_def [symmetric] Let_def
      by (simp add: pos_def n_def split: prod.splits)
    show thesis
    proof (cases "next_rc w = 0")
      case True
      have "find_lo w e = (Some pos, w\<lparr>lm_lo := tab, lm_rcs := tl (lm_rcs w)\<rparr>, e)"
        unfolding find using True assms(2)
        by (simp add: grow_lo_array_def os_call_eq Let_def tab_def pos_def n_def)
      moreover have "grown_by_one (lm_lo w) tab pos"
        by (auto simp: grown_by_one_def tab_def pos_def n_def nth_append nth_Cons' less_Suc_eq)
      ultimately show thesis by (rule that(2))
    next
      case False
      then have "find_lo w e =
          (None, w\<lparr>lm_rcs := tl (lm_rcs w)\<rparr>, picotm_error_set_errno e (next_rc w))"
        unfolding find by (simp add: grow_lo_array_def os_call_eq errno_is_set)
      then show thesis by (rule that(1)) (simp_all add: errno_is_set)
    qed
  qed
qed

theorem register_owner_eq:
  assumes "picotm_lock_manager_register_owner lo w e = (v, e')"
    and "lo_table_ok w" and "\<not> picotm_error_is_set e" and "lm_lo_rwlock w = None"
  shows "lm_lo_rwlock v = None \<and> lm_fault v = lm_fault w \<and> lo_table_ok v \<and>
    (if picotm_error_is_set e' then lm_lo v = lm_lo w \<and> lm_owner v = lm_owner w
     else \<exists>pos tab. grown_by_one (lm_lo w) tab pos \<and> lm_lo v = tab[pos := Some lo] \<and>
       lm_owner v = (lm_owner w)(lo := picotm_lock_owner_set_index (lm_owner w lo) (of_nat pos)))"
proof -
  define w0 where "w0 = w\<lparr>lm_lo_rwlock := Some Wrlocked, lm_rcs := tl (lm_rcs w)\<rparr>"
  show ?thesis
  proof (cases "next_rc w = 0")
    case False
    with assms show ?thesis
      by (auto simp: picotm_lock_manager_register_owner_def lo_rwlock_lock_eq errno_is_set lo_table_ok_def)
  next
    case True
    then have reg: "(v, e') =
        (case find_lo w0 e of
           (Some pos, w, error) \<Rightarrow>
             if picotm_error_is_set error then (lo_rwlock_unlock w, error)
             else
               (let w = w\<lparr>lm_lo := (lm_lo w)[pos := Some lo]\<rparr>;
                    w = lm_update_owner lo (\<lambda>o'. picotm_lock_owner_set_index o' (of_nat pos)) w
                in (lo_rwlock_unlock w, error))
         | (None, w, error) \<Rightarrow> (lo_rwlock_unlock w, error))"
      using assms(1,3,4)
      by (simp add: picotm_lock_manager_register_owner_def lo_rwlock_lock_eq w0_def)
    have "lo_table_ok w0" using assms(2) by (simp add: lo_table_ok_def w0_def)
    then show ?thesis
    proof (rule find_lo_cases [OF _ assms(3)])
      fix u e1
      assume "find_lo w0 e = (None, u, e1)" "picotm_error_is_set e1" "u = w0\<lparr>lm_rcs := tl (lm_rcs w0)\<rparr>"
      with reg assms(2) show ?thesis by (auto simp: lo_rwlock_unlock_eq w0_def lo_table_ok_def)
    next
      fix pos rcs tab
      assume find: "find_lo w0 e = (Some pos, w0\<lparr>lm_lo := tab, lm_rcs := rcs\<rparr>, e)"
        and grown: "grown_by_one (lm_lo w0) tab pos"
      have v: "v = w\<lparr>lm_rcs := rcs, lm_lo := tab[pos := Some lo], lm_lo_rwlock := None,
          lm_owner := (lm_owner w)(lo := picotm_lock_owner_set_index (lm_owner w lo) (of_nat pos))\<rparr>"
        "e' = e"
        using reg find assms(3) by (simp_all add: lo_rwlock_unlock_def w0_def lm_update_owner_def)
      have "2 \<le> length tab" "pos \<noteq> 0" "\<forall>i<length tab. tab ! i = (if i < length (lm_lo w) then lm_lo w ! i else None)"
        using grown by (auto simp: grown_by_one_def w0_def)
      then have "2 \<le> length tab" "pos \<noteq> 0" "tab ! 0 = (if 0 < length (lm_lo w) then lm_lo w ! 0 else None)"
        by (auto dest: spec [of _ 0])
      then have "lo_table_ok v" using assms(2) by (auto simp: v lo_table_ok_def)
      with v grown assms(3) show ?thesis by (auto simp: w0_def)
    qed
  qed
qed

text \<open>A successful registration makes the owner known under its index and keeps all others.\<close>

corollary register_owner_registers:
  assumes "picotm_lock_manager_register_owner lo w e = (v, e')" and "\<not> picotm_error_is_set e'"
    and "lo_table_ok w" and "\<not> picotm_error_is_set e" and "lm_lo_rwlock w = None"
    and "length (lm_lo w) < 1023"
  shows "owner_registered v lo" and "owner_registered w q \<Longrightarrow> q \<noteq> lo \<Longrightarrow> owner_registered v q"
    and "lo_table_ok v" and "lm_lo_rwlock v = None"
proof -
  obtain pos tab where tab: "grown_by_one (lm_lo w) tab pos" "lm_lo v = tab[pos := Some lo]"
    "lm_owner v = (lm_owner w)(lo := picotm_lock_owner_set_index (lm_owner w lo) (of_nat pos))"
    and ok: "lo_table_ok v" "lm_lo_rwlock v = None"
    using register_owner_eq [OF assms(1,3,4,5)] assms(2) by auto
  show "lo_table_ok v" "lm_lo_rwlock v = None" by (fact ok)+
  have "pos < 1024" using tab(1) assms(6) by (simp add: grown_by_one_def)
  then have "unat (of_nat pos :: u64) = pos" by (simp add: unat_of_nat)
  then have "unat (picotm_lock_owner_get_index (lm_owner v lo)) = pos"
    using \<open>pos < 1024\<close> by (simp add: tab(3) unat_get_index_set_index)
  then show "owner_registered v lo"
    using tab(1,2) by (simp add: owner_registered_def grown_by_one_def)
  assume q: "owner_registered w q" "q \<noteq> lo"
  define i where "i = unat (picotm_lock_owner_get_index (lm_owner w q))"
  have "lm_lo w ! i = Some q" "0 < i" "i < length (lm_lo w)"
    using q by (simp_all add: owner_registered_def i_def Let_def)
  moreover have "i \<noteq> pos" using calculation tab(1) by (auto simp: grown_by_one_def)
  ultimately show "owner_registered v q"
    using tab q(2) by (simp add: owner_registered_def i_def grown_by_one_def)
qed

end
