(* ===== verification/Picotm_Rwstate.thy ===== *)
theory Picotm_Rwstate
  imports Picotm_Rwlock
begin

text \<open>
  A transaction's view of one reader/writer lock (\<open>src/picotm-lib-rwstate.c\<close>).  The state remembers
  what the transaction holds, so that the lock itself is acquired, upgraded and released at most
  once.  The functions act on the state, the lock byte and the error.
\<close>

datatype picotm_rwstate_status =
    PICOTM_RWSTATE_UNLOCKED
  | PICOTM_RWSTATE_RDLOCKED
  | PICOTM_RWSTATE_WRLOCKED

record picotm_rwstate =
  status :: picotm_rwstate_status

definition picotm_rwstate_init :: "picotm_rwstate \<Rightarrow> picotm_rwstate" where
  "picotm_rwstate_init self = self\<lparr>status := PICOTM_RWSTATE_UNLOCKED\<rparr>"

definition picotm_rwstate_set_status :: "picotm_rwstate \<Rightarrow> picotm_rwstate_status \<Rightarrow> picotm_rwstate" where
  "picotm_rwstate_set_status self st = self\<lparr>status := st\<rparr>"

definition picotm_rwstate_get_status :: "picotm_rwstate \<Rightarrow> picotm_rwstate_status" where
  "picotm_rwstate_get_status self = status self"

type_synonym lock_wait = "u8 \<Rightarrow> picotm_error \<Rightarrow> u8 \<times> picotm_error"

definition picotm_rwstate_try_rdlock ::
  "lock_wait \<Rightarrow> lock_wait \<Rightarrow> pointer \<Rightarrow> picotm_rwstate \<Rightarrow> u8 \<Rightarrow> picotm_error \<Rightarrow>
   (picotm_rwstate \<times> u8 \<times> picotm_error) option"
where
  "picotm_rwstate_try_rdlock wait sleep rwlock self mem error =
     (if status self \<noteq> PICOTM_RWSTATE_UNLOCKED then Some (self, mem, error)
      else
        (case picotm_rwlock_try_rdlock wait sleep rwlock mem error of
           None \<Rightarrow> None
         | Some (mem', error') \<Rightarrow>
             if picotm_error_is_set error' then Some (self, mem', error')
             else Some (self\<lparr>status := PICOTM_RWSTATE_RDLOCKED\<rparr>, mem', error')))"

definition picotm_rwstate_try_wrlock ::
  "lock_wait \<Rightarrow> lock_wait \<Rightarrow> pointer \<Rightarrow> picotm_rwstate \<Rightarrow> u8 \<Rightarrow> picotm_error \<Rightarrow>
   (picotm_rwstate \<times> u8 \<times> picotm_error) option"
where
  "picotm_rwstate_try_wrlock wait sleep rwlock self mem error =
     (if status self = PICOTM_RWSTATE_WRLOCKED then Some (self, mem, error)
      else
        (case picotm_rwlock_try_wrlock wait sleep rwlock mem
                (status self = PICOTM_RWSTATE_RDLOCKED) error of
           None \<Rightarrow> None
         | Some (mem', error') \<Rightarrow>
             if picotm_error_is_set error' then Some (self, mem', error')
             else Some (self\<lparr>status := PICOTM_RWSTATE_WRLOCKED\<rparr>, mem', error')))"

definition picotm_rwstate_unlock :: "picotm_rwstate \<Rightarrow> u8 \<Rightarrow> bool \<times> picotm_rwstate \<times> u8" where
  "picotm_rwstate_unlock self mem =
     (if status self = PICOTM_RWSTATE_UNLOCKED then (False, self, mem)
      else (case picotm_rwlock_unlock mem of (wakes, mem') \<Rightarrow>
              (wakes, self\<lparr>status := PICOTM_RWSTATE_UNLOCKED\<rparr>, mem')))"

text \<open>
  \<open>rwstate_agrees self mem\<close>: the counter of the lock byte is one that the transaction's own share
  of the lock allows.
\<close>

definition rwstate_agrees :: "picotm_rwstate \<Rightarrow> u8 \<Rightarrow> bool" where
  "rwstate_agrees self mem \<longleftrightarrow>
     (status self = PICOTM_RWSTATE_WRLOCKED \<longrightarrow> unat mem mod 16 = 15) \<and>
     (status self = PICOTM_RWSTATE_RDLOCKED \<longrightarrow> 0 < unat mem mod 16 \<and> unat mem mod 16 < 15)"

text \<open>
  What the others may do to the byte while the transaction waits for it: they never release its own
  share.
\<close>

definition wait_respects :: "lock_wait \<Rightarrow> bool" where
  "wait_respects wait \<longleftrightarrow>
     (\<forall>st mem e. rwstate_agrees st mem \<longrightarrow> rwstate_agrees st (fst (wait mem e)))"

lemma rwlock_try_rdlock_cases:
  assumes "picotm_rwlock_try_rdlock wait sleep self mem e = Some (mem', e')"
  obtains (now) "unat mem < 14" "mem' = mem + 1" "e' = e"
    | (err) e2 where "\<not> unat mem < 14" "wait mem e = (mem', e2)" "picotm_error_is_set e2" "e' = e2"
    | (later) mem2 e2 where "\<not> unat mem < 14" "wait mem e = (mem2, e2)" "\<not> picotm_error_is_set e2"
        "unat mem2 < 14" "mem' = mem2 + 1" "e' = e2"
    | (conflict) e2 where "\<not> unat mem < 14" "wait mem e = (mem', e2)" "\<not> picotm_error_is_set e2"
        "\<not> unat mem' < 14" "e' = picotm_error_set_conflicting e2 self"
  using assms
  unfolding picotm_rwlock_try_rdlock_def try_lock_or_wait_eq [OF try_lock_eq(1)]
  by (auto simp: Let_def split: prod.splits if_splits)

lemma rwlock_try_wrlock_cases:
  assumes "picotm_rwlock_try_wrlock wait sleep self mem up e = Some (mem', e')"
  obtains (now) "if up then unat mem mod 16 = 1 \<and> mem' = mem + 14 else mem = 0 \<and> mem' = 15" "e' = e"
    | (err) e2 where "wait mem e = (mem', e2)" "picotm_error_is_set e2" "e' = e2"
    | (later) mem2 e2 where "wait mem e = (mem2, e2)" "\<not> picotm_error_is_set e2"
        "if up then unat mem2 mod 16 = 1 \<and> mem' = mem2 + 14 else mem2 = 0 \<and> mem' = 15" "e' = e2"
    | (conflict) e2 where "wait mem e = (mem', e2)" "\<not> picotm_error_is_set e2"
        "e' = picotm_error_set_conflicting e2 self"
proof (cases up)
  case True
  with assms that show thesis
    unfolding picotm_rwlock_try_wrlock_def
    by (auto simp: try_lock_or_wait_eq [OF try_lock_eq(3)] Let_def split: prod.splits if_splits)
next
  case False
  with assms that show thesis
    unfolding picotm_rwlock_try_wrlock_def
    by (auto simp: try_lock_or_wait_eq [OF try_lock_eq(2)] Let_def split: prod.splits if_splits)
qed

lemma unat_plus_14:
  assumes "unat (m :: u8) mod 16 = 1"
  shows "unat (m + 14) mod 16 = 15" and "unat (m + 14) div 16 = unat m div 16"
proof -
  define q where "q = unat m div 16"
  have m: "unat m = 16 * q + 1" using assms by (simp add: q_def) presburger
  have "q < 16" using m u8_bound [of m] by simp
  then have "unat (m + 14) = 16 * q + 15" using m by (simp add: unat_word_ariths)
  then show "unat (m + 14) mod 16 = 15" "unat (m + 14) div 16 = unat m div 16"
    by (simp_all add: q_def)
qed

lemma unat_plus_1:
  assumes "unat (m :: u8) < 14"
  shows "unat (m + 1) = unat m + 1"
  using assms by (simp add: unat_word_ariths)

lemma rwstate_try_rdlock_agrees:
  assumes "picotm_rwstate_try_rdlock wait sleep l self mem e = Some (self', mem', e')"
    and "rwstate_agrees self mem" and "wait_respects wait" and "\<not> picotm_error_is_set e"
  shows "rwstate_agrees self' mem'"
    and "picotm_error_is_set e' \<longrightarrow> self' = self"
    and "\<not> picotm_error_is_set e' \<longrightarrow> status self' =
           (if status self = PICOTM_RWSTATE_UNLOCKED then PICOTM_RWSTATE_RDLOCKED else status self)"
proof -
  show "picotm_error_is_set e' \<longrightarrow> self' = self"
    using assms(1,4) by (auto simp: picotm_rwstate_try_rdlock_def split: option.splits if_splits)
  show "\<not> picotm_error_is_set e' \<longrightarrow> status self' =
           (if status self = PICOTM_RWSTATE_UNLOCKED then PICOTM_RWSTATE_RDLOCKED else status self)"
    using assms(1) by (auto simp: picotm_rwstate_try_rdlock_def split: option.splits if_splits)
  show "rwstate_agrees self' mem'"
  proof (cases "status self = PICOTM_RWSTATE_UNLOCKED")
    case False
    with assms(1,2) show ?thesis by (simp add: picotm_rwstate_try_rdlock_def)
  next
    case True
    then obtain m2 e2 where r: "picotm_rwlock_try_rdlock wait sleep l mem e = Some (m2, e2)"
      and s': "self' = (if picotm_error_is_set e2 then self
                        else self\<lparr>status := PICOTM_RWSTATE_RDLOCKED\<rparr>)" "mem' = m2"
      using assms(1) by (auto simp: picotm_rwstate_try_rdlock_def split: option.splits if_splits)
    from r show ?thesis
      by (cases rule: rwlock_try_rdlock_cases)
        (use assms(4) True s' in \<open>auto simp: rwstate_agrees_def unat_plus_1\<close>)
  qed
qed

lemma rwstate_try_wrlock_agrees:
  assumes "picotm_rwstate_try_wrlock wait sleep l self mem e = Some (self', mem', e')"
    and "rwstate_agrees self mem" and "wait_respects wait" and "\<not> picotm_error_is_set e"
  shows "rwstate_agrees self' mem'"
    and "picotm_error_is_set e' \<longrightarrow> self' = self"
    and "\<not> picotm_error_is_set e' \<longrightarrow> status self' = PICOTM_RWSTATE_WRLOCKED"
proof -
  show "picotm_error_is_set e' \<longrightarrow> self' = self"
    using assms(1,4) by (auto simp: picotm_rwstate_try_wrlock_def split: option.splits if_splits)
  show "\<not> picotm_error_is_set e' \<longrightarrow> status self' = PICOTM_RWSTATE_WRLOCKED"
    using assms(1) by (auto simp: picotm_rwstate_try_wrlock_def split: option.splits if_splits)
  show "rwstate_agrees self' mem'"
  proof (cases "status self = PICOTM_RWSTATE_WRLOCKED")
    case True
    with assms(1,2) show ?thesis by (simp add: picotm_rwstate_try_wrlock_def)
  next
    case False
    let ?up = "status self = PICOTM_RWSTATE_RDLOCKED"
    from False obtain m2 e2 where
        r: "picotm_rwlock_try_wrlock wait sleep l mem ?up e = Some (m2, e2)"
      and s': "self' = (if picotm_error_is_set e2 then self
                        else self\<lparr>status := PICOTM_RWSTATE_WRLOCKED\<rparr>)" "mem' = m2"
      using assms(1) by (auto simp: picotm_rwstate_try_wrlock_def split: option.splits if_splits)
    have kept: "rwstate_agrees self (fst (wait mem e))"
      using assms(2,3) by (simp add: wait_respects_def)
    have wr: "rwstate_agrees (self\<lparr>status := PICOTM_RWSTATE_WRLOCKED\<rparr>) m" if "unat m mod 16 = 15" for m
      using that by (simp add: rwstate_agrees_def)
    from r show ?thesis
    proof (cases rule: rwlock_try_wrlock_cases)
      case now
      then show ?thesis using assms(4) s' by (auto intro!: wr simp: unat_plus_14 split: if_splits)
    next
      case (err e3)
      then show ?thesis using s' kept by simp
    next
      case (later mem2 e3)
      then show ?thesis using s' by (auto intro!: wr simp: unat_plus_14 split: if_splits)
    next
      case (conflict e3)
      then show ?thesis using s' kept by simp
    qed
  qed
qed

lemma rwstate_unlock_status:
  "picotm_rwstate_unlock self mem = (w, self', mem') \<Longrightarrow> status self' = PICOTM_RWSTATE_UNLOCKED"
  by (auto simp: picotm_rwstate_unlock_def split: if_splits prod.splits)

lemma unlock_sub_fields:
  assumes "0 < unat mem mod 16" and "unat n mod 16 = 15 \<longleftrightarrow> unat mem mod 16 = 15"
  shows "unat (unlock_sub n mem) mod 16 = (if unat mem mod 16 = 15 then 0 else unat mem mod 16 - 1)"
    and "unat (unlock_sub n mem) div 16 = unat mem div 16"
proof -
  define q r where "q = unat mem div 16" and "r = unat mem mod 16"
  have m: "unat mem = 16 * q + r" and r: "r < 16" "0 < r" using assms(1) by (auto simp: q_def r_def)
  have n15: "rw_counter n = 15 \<longleftrightarrow> r = 15" using assms(2) by (simp add: rw_counter_eq r_def)
  have "(if r = 15 then 15 else 1) \<le> unat mem" using m r by auto
  then have "unat (unlock_sub n mem) = unat mem - (if r = 15 then 15 else 1)"
    by (auto simp: unlock_sub_def WRITER_COUNTER_15 n15 unat_sub word_le_nat_alt)
  then have "unat (unlock_sub n mem) = 16 * q + (if r = 15 then 0 else r - 1)"
    unfolding m using r by auto
  then show "unat (unlock_sub n mem) mod 16 = (if unat mem mod 16 = 15 then 0 else unat mem mod 16 - 1)"
    and "unat (unlock_sub n mem) div 16 = unat mem div 16"
    using r by (auto simp: q_def [symmetric] r_def [symmetric])
qed

text \<open>Trying to lock always comes to an end.\<close>

lemma rwlock_try_total:
  "\<exists>m e'. picotm_rwlock_try_rdlock wait sleep l mem e = Some (m, e')"
  "\<exists>m e'. picotm_rwlock_try_wrlock wait sleep l mem up e = Some (m, e')"
  unfolding picotm_rwlock_try_rdlock_def picotm_rwlock_try_wrlock_def
  by (cases up; auto simp only: try_lock_or_wait_eq [OF try_lock_eq(1)]
      try_lock_or_wait_eq [OF try_lock_eq(2)] try_lock_or_wait_eq [OF try_lock_eq(3)]
      if_True if_False option.inject intro!: prod.collapse [symmetric])+

lemma rwstate_try_lock_total:
  "\<exists>r. picotm_rwstate_try_rdlock wait sleep l st mem e = Some r"
  "\<exists>r. picotm_rwstate_try_wrlock wait sleep l st mem e = Some r"
  using rwlock_try_total(1) [of wait sleep l mem e]
    rwlock_try_total(2) [of wait sleep l mem "status st = PICOTM_RWSTATE_RDLOCKED" e]
  by (auto simp: picotm_rwstate_try_rdlock_def picotm_rwstate_try_wrlock_def)

end
