(* ===== verification/Picotm_Rwlock_Conc.thy ===== *)
theory Picotm_Rwlock_Conc
  imports Picotm_Rwstate
begin

text \<open>
  Any number of threads working on one reader/writer lock at the same time.  A step is one atomic
  access of one thread: the initial load of an operation, one turn of its loop with the
  compare-and-exchange, or the atomic subtraction of the release.  The local copy \<open>n\<close> of the byte is
  part of the thread's program counter, so it may be out of date when the next step of the thread
  comes.  What a thread holds is its \<open>picotm_rwstate_status\<close>; as in \<open>picotm-lib-rwstate.c\<close> a thread
  locks only what it has not locked, upgrades only a reader lock and releases only what it holds.
  Setting the waiter index may happen in any thread at any time.
\<close>

datatype rw_pc =
    Idle
  | In_rdlock u8
  | In_wrlock u8
  | In_uplock u8
  | In_unlock u8
  | In_cmpxchg_index u64 u64 u8

record rw_system =
  lock_mem :: u8
  holds :: "nat \<Rightarrow> picotm_rwstate_status"
  pc :: "nat \<Rightarrow> rw_pc"

definition rw_start :: rw_system where
  "rw_start = \<lparr>lock_mem = picotm_rwlock_init, holds = (\<lambda>_. PICOTM_RWSTATE_UNLOCKED), pc = (\<lambda>_. Idle)\<rparr>"

definition at_pc :: "nat \<Rightarrow> rw_pc \<Rightarrow> rw_system \<Rightarrow> rw_system" where
  "at_pc t p s = s\<lparr>pc := (pc s)(t := p)\<rparr>"

definition now_holds :: "nat \<Rightarrow> picotm_rwstate_status \<Rightarrow> rw_system \<Rightarrow> rw_system" where
  "now_holds t h s = s\<lparr>holds := (holds s)(t := h)\<rparr>"

inductive rw_step :: "rw_system \<Rightarrow> rw_system \<Rightarrow> bool" where
  rdlock_load: "pc s t = Idle \<Longrightarrow> holds s t = PICOTM_RWSTATE_UNLOCKED \<Longrightarrow>
     rw_step s (at_pc t (In_rdlock (lock_mem s)) s)"
| rdlock_again: "pc s t = In_rdlock n \<Longrightarrow> try_rdlock_turn n (lock_mem s) = (Again n', m) \<Longrightarrow>
     rw_step s (at_pc t (In_rdlock n') (s\<lparr>lock_mem := m\<rparr>))"
| rdlock_fail: "pc s t = In_rdlock n \<Longrightarrow> try_rdlock_turn n (lock_mem s) = (Return False, m) \<Longrightarrow>
     rw_step s (at_pc t Idle (s\<lparr>lock_mem := m\<rparr>))"
| rdlock_done: "pc s t = In_rdlock n \<Longrightarrow> try_rdlock_turn n (lock_mem s) = (Return True, m) \<Longrightarrow>
     rw_step s (at_pc t Idle (now_holds t PICOTM_RWSTATE_RDLOCKED (s\<lparr>lock_mem := m\<rparr>)))"
| wrlock_load: "pc s t = Idle \<Longrightarrow> holds s t = PICOTM_RWSTATE_UNLOCKED \<Longrightarrow>
     rw_step s (at_pc t (In_wrlock (lock_mem s)) s)"
| wrlock_again: "pc s t = In_wrlock n \<Longrightarrow> try_wrlock_turn n (lock_mem s) = (Again n', m) \<Longrightarrow>
     rw_step s (at_pc t (In_wrlock n') (s\<lparr>lock_mem := m\<rparr>))"
| wrlock_fail: "pc s t = In_wrlock n \<Longrightarrow> try_wrlock_turn n (lock_mem s) = (Return False, m) \<Longrightarrow>
     rw_step s (at_pc t Idle (s\<lparr>lock_mem := m\<rparr>))"
| wrlock_done: "pc s t = In_wrlock n \<Longrightarrow> try_wrlock_turn n (lock_mem s) = (Return True, m) \<Longrightarrow>
     rw_step s (at_pc t Idle (now_holds t PICOTM_RWSTATE_WRLOCKED (s\<lparr>lock_mem := m\<rparr>)))"
| uplock_load: "pc s t = Idle \<Longrightarrow> holds s t = PICOTM_RWSTATE_RDLOCKED \<Longrightarrow>
     rw_step s (at_pc t (In_uplock (lock_mem s)) s)"
| uplock_again: "pc s t = In_uplock n \<Longrightarrow> try_uplock_turn n (lock_mem s) = (Again n', m) \<Longrightarrow>
     rw_step s (at_pc t (In_uplock n') (s\<lparr>lock_mem := m\<rparr>))"
| uplock_fail: "pc s t = In_uplock n \<Longrightarrow> try_uplock_turn n (lock_mem s) = (Return False, m) \<Longrightarrow>
     rw_step s (at_pc t Idle (s\<lparr>lock_mem := m\<rparr>))"
| uplock_done: "pc s t = In_uplock n \<Longrightarrow> try_uplock_turn n (lock_mem s) = (Return True, m) \<Longrightarrow>
     rw_step s (at_pc t Idle (now_holds t PICOTM_RWSTATE_WRLOCKED (s\<lparr>lock_mem := m\<rparr>)))"
| unlock_load: "pc s t = Idle \<Longrightarrow> holds s t \<noteq> PICOTM_RWSTATE_UNLOCKED \<Longrightarrow>
     rw_step s (at_pc t (In_unlock (lock_mem s)) s)"
| unlock_done: "pc s t = In_unlock n \<Longrightarrow>
     rw_step s (at_pc t Idle (now_holds t PICOTM_RWSTATE_UNLOCKED
                               (s\<lparr>lock_mem := unlock_sub n (lock_mem s)\<rparr>)))"
| index_load: "pc s t = Idle \<Longrightarrow>
     rw_step s (at_pc t (In_cmpxchg_index i j (lock_mem s)) s)"
| index_again: "pc s t = In_cmpxchg_index i j n \<Longrightarrow>
     cmpxchg_index_turn i j n (lock_mem s) = (Again n', m) \<Longrightarrow>
     rw_step s (at_pc t (In_cmpxchg_index i j n') (s\<lparr>lock_mem := m\<rparr>))"
| index_done: "pc s t = In_cmpxchg_index i j n \<Longrightarrow>
     cmpxchg_index_turn i j n (lock_mem s) = (Return r, m) \<Longrightarrow>
     rw_step s (at_pc t Idle (s\<lparr>lock_mem := m\<rparr>))"

inductive rw_reachable :: "rw_system \<Rightarrow> bool" where
  start: "rw_reachable rw_start"
| step: "rw_reachable s \<Longrightarrow> rw_step s s' \<Longrightarrow> rw_reachable s'"

definition lock_readers :: "rw_system \<Rightarrow> nat set" where
  "lock_readers s = {t. holds s t = PICOTM_RWSTATE_RDLOCKED}"

definition lock_writers :: "rw_system \<Rightarrow> nat set" where
  "lock_writers s = {t. holds s t = PICOTM_RWSTATE_WRLOCKED}"

text \<open>
  The invariant: the counter of the byte counts the readers, or it is 15 and there is one writer
  and no reader; and each thread inside an operation still holds what the operation started from.
\<close>

definition counter_counts :: "rw_system \<Rightarrow> bool" where
  "counter_counts s \<longleftrightarrow>
     finite (lock_readers s) \<and>
     (if unat (lock_mem s) mod 16 = 15
      then lock_readers s = {} \<and> (\<exists>w. lock_writers s = {w})
      else lock_writers s = {} \<and> card (lock_readers s) = unat (lock_mem s) mod 16)"

definition pc_matches :: "rw_system \<Rightarrow> nat \<Rightarrow> bool" where
  "pc_matches s t \<longleftrightarrow>
     (case pc s t of
        In_rdlock n \<Rightarrow> holds s t = PICOTM_RWSTATE_UNLOCKED
      | In_wrlock n \<Rightarrow> holds s t = PICOTM_RWSTATE_UNLOCKED
      | In_uplock n \<Rightarrow> holds s t = PICOTM_RWSTATE_RDLOCKED
      | In_unlock n \<Rightarrow> holds s t \<noteq> PICOTM_RWSTATE_UNLOCKED \<and>
          (unat n mod 16 = 15 \<longleftrightarrow> holds s t = PICOTM_RWSTATE_WRLOCKED)
      | _ \<Rightarrow> True)"

definition rw_inv :: "rw_system \<Rightarrow> bool" where
  "rw_inv s \<longleftrightarrow> counter_counts s \<and> (\<forall>t. pc_matches s t)"

lemma at_pc_simps [simp]:
  "lock_mem (at_pc t p s) = lock_mem s" "holds (at_pc t p s) = holds s"
  "pc (at_pc t p s) = (pc s)(t := p)"
  "lock_mem (now_holds t h s) = lock_mem s" "holds (now_holds t h s) = (holds s)(t := h)"
  "pc (now_holds t h s) = pc s"
  by (simp_all add: at_pc_def now_holds_def)

lemma counter_counts_cong:
  "holds s' = holds s \<Longrightarrow> unat (lock_mem s') mod 16 = unat (lock_mem s) mod 16 \<Longrightarrow>
   counter_counts s' = counter_counts s"
  by (simp add: counter_counts_def lock_readers_def lock_writers_def)

lemma pc_matches_cong:
  "pc s' u = pc s u \<Longrightarrow> holds s' u = holds s u \<Longrightarrow> pc_matches s' u = pc_matches s u"
  unfolding pc_matches_def by (simp only:)

lemma rw_inv_frame:
  assumes "rw_inv s" and "holds s' = holds s" and "pc s' = (pc s)(t := p)"
    and "unat (lock_mem s') mod 16 = unat (lock_mem s) mod 16" and "pc_matches s' t"
  shows "rw_inv s'"
  unfolding rw_inv_def
proof (intro conjI allI)
  show "counter_counts s'" using assms counter_counts_cong unfolding rw_inv_def by blast
  fix u show "pc_matches s' u"
    using assms pc_matches_cong [of s' u s] by (cases "u = t") (auto simp: rw_inv_def)
qed

lemma rw_inv_change:
  assumes "rw_inv s" and "holds s' = (holds s)(t := h)" and "pc s' = (pc s)(t := Idle)"
    and "counter_counts s'"
  shows "rw_inv s'"
  unfolding rw_inv_def
proof (intro conjI allI)
  show "counter_counts s'" by fact
  fix u show "pc_matches s' u"
    using assms pc_matches_cong [of s' u s]
    by (cases "u = t") (auto simp: rw_inv_def pc_matches_def [of s' t])
qed

text \<open>How the holders change, as facts on the two sets.\<close>

lemma readers_writers_upd:
  "holds s' = (holds s)(t := PICOTM_RWSTATE_RDLOCKED) \<Longrightarrow>
     lock_readers s' = insert t (lock_readers s) \<and> lock_writers s' = lock_writers s - {t}"
  "holds s' = (holds s)(t := PICOTM_RWSTATE_WRLOCKED) \<Longrightarrow>
     lock_readers s' = lock_readers s - {t} \<and> lock_writers s' = insert t (lock_writers s)"
  "holds s' = (holds s)(t := PICOTM_RWSTATE_UNLOCKED) \<Longrightarrow>
     lock_readers s' = lock_readers s - {t} \<and> lock_writers s' = lock_writers s - {t}"
  by (auto simp: lock_readers_def lock_writers_def)

lemma counter_counts_rdlock:
  assumes "counter_counts s" "holds s t = PICOTM_RWSTATE_UNLOCKED" "unat (lock_mem s) < 14"
    and "holds s' = (holds s)(t := PICOTM_RWSTATE_RDLOCKED)" "lock_mem s' = lock_mem s + 1"
  shows "counter_counts s'"
proof -
  have "t \<notin> lock_readers s" using assms(2) by (simp add: lock_readers_def)
  then show ?thesis
    using assms(1,3,5) readers_writers_upd(1) [OF assms(4)]
    by (auto simp: counter_counts_def unat_plus_1)
qed

lemma counter_counts_wrlock:
  assumes "counter_counts s" "lock_mem s = 0"
    and "holds s' = (holds s)(t := PICOTM_RWSTATE_WRLOCKED)" "lock_mem s' = 15"
  shows "counter_counts s'"
  using assms(1,2,4) readers_writers_upd(2) [OF assms(3)] by (auto simp: counter_counts_def)

lemma counter_counts_uplock:
  assumes "counter_counts s" "holds s t = PICOTM_RWSTATE_RDLOCKED" "unat (lock_mem s) mod 16 = 1"
    and "holds s' = (holds s)(t := PICOTM_RWSTATE_WRLOCKED)" "lock_mem s' = lock_mem s + 14"
  shows "counter_counts s'"
proof -
  have "card (lock_readers s) = 1" "lock_writers s = {}"
    using assms(1,3) by (auto simp: counter_counts_def)
  moreover have "t \<in> lock_readers s" using assms(2) by (simp add: lock_readers_def)
  ultimately have "lock_readers s = {t}" by (metis card_1_singletonE singletonD)
  with \<open>lock_writers s = {}\<close> show ?thesis
    using assms(3,5) readers_writers_upd(2) [OF assms(4)]
    by (auto simp: counter_counts_def unat_plus_14)
qed

lemma counter_counts_unlock:
  assumes "counter_counts s" "holds s t \<noteq> PICOTM_RWSTATE_UNLOCKED"
    and "unat n mod 16 = 15 \<longleftrightarrow> holds s t = PICOTM_RWSTATE_WRLOCKED"
    and "holds s' = (holds s)(t := PICOTM_RWSTATE_UNLOCKED)" "lock_mem s' = unlock_sub n (lock_mem s)"
  shows "counter_counts s'"
proof (cases "holds s t = PICOTM_RWSTATE_WRLOCKED")
  case True
  then have "t \<in> lock_writers s" by (simp add: lock_writers_def)
  with assms(1) have "unat (lock_mem s) mod 16 = 15" "lock_readers s = {}" "lock_writers s = {t}"
    by (auto simp: counter_counts_def split: if_splits)
  with True show ?thesis
    using assms(3,5) readers_writers_upd(3) [OF assms(4)] unlock_sub_fields(1) [of "lock_mem s" n]
    by (simp add: counter_counts_def)
next
  case False
  then have "t \<in> lock_readers s"
    using assms(2) by (cases "holds s t") (auto simp: lock_readers_def)
  with assms(1) have c: "unat (lock_mem s) mod 16 \<noteq> 15" "finite (lock_readers s)"
      "lock_writers s = {}" "card (lock_readers s) = unat (lock_mem s) mod 16"
    by (auto simp: counter_counts_def split: if_splits)
  then have "0 < unat (lock_mem s) mod 16" using \<open>t \<in> lock_readers s\<close> by (metis card_gt_0_iff empty_iff)
  moreover have "unat (lock_mem s) mod 16 - 1 \<noteq> 15"
    using mod_less_divisor [of 16 "unat (lock_mem s)"] by linarith
  ultimately show ?thesis
    using False c assms(3,5) readers_writers_upd(3) [OF assms(4)] \<open>t \<in> lock_readers s\<close>
      unlock_sub_fields(1) [of "lock_mem s" n]
    by (simp add: counter_counts_def)
qed

lemma rw_step_inv:
  assumes "rw_step s s'" and inv: "rw_inv s"
  shows "rw_inv s'"
proof -
  have counts: "counter_counts s" and matches: "\<And>t. pc_matches s t"
    using inv by (auto simp: rw_inv_def)
  from assms(1) show ?thesis
  proof cases
    case (rdlock_done t n m)
    with matches [of t] have "holds s t = PICOTM_RWSTATE_UNLOCKED" by (simp add: pc_matches_def)
    with rdlock_done counts show ?thesis
      by (intro rw_inv_change [OF inv, where t = t])
        (auto simp: try_rdlock_turn_True intro: counter_counts_rdlock [of s t])
  next
    case (wrlock_done t n m)
    with counts show ?thesis
      by (intro rw_inv_change [OF inv, where t = t])
        (auto simp: try_wrlock_turn_True intro: counter_counts_wrlock [of s _ t])
  next
    case (uplock_done t n m)
    with matches [of t] have "holds s t = PICOTM_RWSTATE_RDLOCKED" by (simp add: pc_matches_def)
    with uplock_done counts show ?thesis
      by (intro rw_inv_change [OF inv, where t = t])
        (auto simp: try_uplock_turn_True intro: counter_counts_uplock [of s t])
  next
    case (unlock_done t n)
    with matches [of t] have "holds s t \<noteq> PICOTM_RWSTATE_UNLOCKED"
      "unat n mod 16 = 15 \<longleftrightarrow> holds s t = PICOTM_RWSTATE_WRLOCKED"
      by (auto simp: pc_matches_def)
    with unlock_done counts show ?thesis
      by (intro rw_inv_change [OF inv, where t = t]) (auto intro: counter_counts_unlock [of s t n])
  next
    case (unlock_load t)
    then have "unat (lock_mem s) mod 16 = 15 \<longleftrightarrow> holds s t = PICOTM_RWSTATE_WRLOCKED"
      using counts by (cases "holds s t")
        (auto simp: counter_counts_def lock_readers_def lock_writers_def split: if_splits)
    with unlock_load show ?thesis
      by (intro rw_inv_frame [OF inv, where t = t]) (auto simp: pc_matches_def)
  next
    case (rdlock_load t)
    then show ?thesis by (intro rw_inv_frame [OF inv, where t = t]) (auto simp: pc_matches_def)
  next
    case (wrlock_load t)
    then show ?thesis by (intro rw_inv_frame [OF inv, where t = t]) (auto simp: pc_matches_def)
  next
    case (uplock_load t)
    then show ?thesis by (intro rw_inv_frame [OF inv, where t = t]) (auto simp: pc_matches_def)
  next
    case (index_load t i j)
    then show ?thesis by (intro rw_inv_frame [OF inv, where t = t]) (auto simp: pc_matches_def)
  next
    case (rdlock_again t n n' m)
    with matches [of t] turn_not_True_mem(1) show ?thesis
      by (intro rw_inv_frame [OF inv, where t = t]) (auto simp: pc_matches_def)
  next
    case (rdlock_fail t n m)
    with turn_not_True_mem(1) show ?thesis
      by (intro rw_inv_frame [OF inv, where t = t]) (auto simp: pc_matches_def)
  next
    case (wrlock_again t n n' m)
    with matches [of t] turn_not_True_mem(2) show ?thesis
      by (intro rw_inv_frame [OF inv, where t = t]) (auto simp: pc_matches_def)
  next
    case (wrlock_fail t n m)
    with turn_not_True_mem(2) show ?thesis
      by (intro rw_inv_frame [OF inv, where t = t]) (auto simp: pc_matches_def)
  next
    case (uplock_again t n n' m)
    with matches [of t] turn_not_True_mem(3) show ?thesis
      by (intro rw_inv_frame [OF inv, where t = t]) (auto simp: pc_matches_def)
  next
    case (uplock_fail t n m)
    with turn_not_True_mem(3) show ?thesis
      by (intro rw_inv_frame [OF inv, where t = t]) (auto simp: pc_matches_def)
  next
    case (index_again t i j n n' m)
    with cmpxchg_index_turn_counter show ?thesis
      by (intro rw_inv_frame [OF inv, where t = t]) (auto simp: pc_matches_def)
  next
    case (index_done t i j n r m)
    with cmpxchg_index_turn_counter show ?thesis
      by (intro rw_inv_frame [OF inv, where t = t]) (auto simp: pc_matches_def)
  qed
qed

lemma rw_start_inv: "rw_inv rw_start"
  by (simp add: rw_inv_def rw_start_def counter_counts_def lock_readers_def lock_writers_def
        pc_matches_def picotm_rwlock_init_def)

lemma reachable_rw_inv: "rw_reachable s \<Longrightarrow> rw_inv s"
  by (induction rule: rw_reachable.induct) (auto intro: rw_start_inv rw_step_inv)

lemma reachable_counter: "rw_reachable s \<Longrightarrow> counter_counts s"
  by (simp add: reachable_rw_inv [unfolded rw_inv_def])

text \<open>A run in which thread 0 write-locks, for the witnesses of the properties.\<close>

definition one_writer :: rw_system where
  "one_writer = \<lparr>lock_mem = 15,
     holds = (\<lambda>_. PICOTM_RWSTATE_UNLOCKED)(0 := PICOTM_RWSTATE_WRLOCKED), pc = (\<lambda>_. Idle)\<rparr>"

lemma one_writer_reachable: "rw_reachable one_writer"
proof -
  let ?s1 = "at_pc 0 (In_wrlock (lock_mem rw_start)) rw_start"
  have "rw_step rw_start ?s1" by (rule wrlock_load) (simp_all add: rw_start_def)
  then have "rw_reachable ?s1" by (rule rw_reachable.step [OF rw_reachable.start])
  moreover have "rw_step ?s1 (at_pc 0 Idle (now_holds 0 PICOTM_RWSTATE_WRLOCKED (?s1\<lparr>lock_mem := 15\<rparr>)))"
    by (rule wrlock_done [where n = 0])
      (simp_all add: rw_start_def try_wrlock_turn_True picotm_rwlock_init_def)
  moreover have "at_pc 0 Idle (now_holds 0 PICOTM_RWSTATE_WRLOCKED (?s1\<lparr>lock_mem := 15\<rparr>)) = one_writer"
    by (auto simp: at_pc_def now_holds_def rw_start_def one_writer_def)
  ultimately show ?thesis by (metis rw_reachable.step)
qed

end
