(* ===== verification/Picotm_Treemap.thy ===== *)
theory Picotm_Treemap
  imports Picotm_Error
begin

text \<open>
  The treemap (\<open>src/picotm-lib-treemap.c\<close>): a radix tree from 64-bit keys to non-zero values.  Each
  directory has \<open>2 ^ level_nbits\<close> entries; an entry is a null pointer, a directory, or, at depth 0,
  a value.  The tree grows at its root when a key does not fit.

  \<open>malloc\<close> and the creator of values belong to the caller's environment: they act on a state \<open>'m\<close>,
  and \<open>malloc\<close> returns 0 or the \<open>errno\<close> of its failure.  Pointers into the tree, through which the
  code assigns entries, are modelled by returning the changed subtree.
\<close>

datatype treemap_entry = Null_entry | Value_entry u64 | Dir_entry "treemap_entry list"

record picotm_treemap =
  tm_root :: treemap_entry
  tm_depth :: nat
  tm_level_nbits :: nat

type_synonym 'm malloc = "'m \<Rightarrow> int \<times> 'm"
type_synonym 'm value_create = "u64 \<Rightarrow> 'm \<Rightarrow> picotm_error \<Rightarrow> u64 \<times> 'm \<times> picotm_error"

definition picotm_treemap_init :: "nat \<Rightarrow> picotm_treemap" where
  "picotm_treemap_init level_nbits =
     \<lparr>tm_root = Null_entry, tm_depth = 0, tm_level_nbits = level_nbits\<rparr>"

definition level_nentries :: "nat \<Rightarrow> nat" where
  "level_nentries level_nbits = 2 ^ level_nbits"

definition dir_create ::
  "'m malloc \<Rightarrow> nat \<Rightarrow> 'm \<Rightarrow> picotm_error \<Rightarrow> treemap_entry list option \<times> 'm \<times> picotm_error"
where
  "dir_create malloc nentries m error =
     (let (err, m) = malloc m in
      if err \<noteq> 0 then (None, m, picotm_error_set_errno error err)
      else (Some (replicate nentries Null_entry), m, error))"

text \<open>
  A shift of \<open>unsigned long long\<close>.  C leaves counts of 64 and more undefined; the machines that
  picotm supports take the count modulo 64.
\<close>

definition shift_right :: "u64 \<Rightarrow> nat \<Rightarrow> u64" where
  "shift_right key n = drop_bit (n mod 64) key"

definition key_depth_prefix :: "u64 \<Rightarrow> nat \<Rightarrow> nat \<Rightarrow> u64" where
  "key_depth_prefix key depth level_nbits = shift_right key (depth * level_nbits)"

definition level_mask :: "nat \<Rightarrow> u64" where
  "level_mask level_nbits = of_nat (level_nentries level_nbits) - 1"

definition entry_index :: "u64 \<Rightarrow> nat \<Rightarrow> nat \<Rightarrow> nat" where
  "entry_index key depth level_nbits =
     unat (key_depth_prefix key depth level_nbits AND level_mask level_nbits)"

text \<open>The loop of \<open>grow_tree\<close>, with the number of rounds as fuel: 64 shifts clear any key.\<close>

fun grow_tree ::
  "'m malloc \<Rightarrow> nat \<Rightarrow> treemap_entry \<Rightarrow> nat \<Rightarrow> u64 \<Rightarrow> nat \<Rightarrow> 'm \<Rightarrow> picotm_error \<Rightarrow>
   nat \<times> treemap_entry \<times> 'm \<times> picotm_error"
where
  "grow_tree malloc 0 root depth key_prefix level_nbits m error = (depth, root, m, error)"
| "grow_tree malloc (Suc fuel) root depth key_prefix level_nbits m error =
     (if key_prefix = 0 then (depth, root, m, error)
      else
        (case dir_create malloc (level_nentries level_nbits) m error of
           (None, m, error) \<Rightarrow> (depth, root, m, error)
         | (Some dir, m, error) \<Rightarrow>
             if picotm_error_is_set error then (depth, root, m, error)
             else grow_tree malloc fuel (Dir_entry (dir[0 := root])) (depth + 1)
                    (shift_right key_prefix level_nbits) level_nbits m error))"

definition retrieve_dir ::
  "'m malloc \<Rightarrow> treemap_entry \<Rightarrow> bool \<Rightarrow> nat \<Rightarrow> 'm \<Rightarrow> picotm_error \<Rightarrow>
   treemap_entry list option \<times> 'm \<times> picotm_error"
where
  "retrieve_dir malloc entry create_dirs nentries m error =
     (case entry of
        Dir_entry dir \<Rightarrow> (Some dir, m, error)
      | _ \<Rightarrow> if \<not> create_dirs then (None, m, error) else dir_create malloc nentries m error)"

definition retrieve_value ::
  "treemap_entry \<Rightarrow> u64 \<Rightarrow> 'm value_create option \<Rightarrow> 'm \<Rightarrow> picotm_error \<Rightarrow>
   u64 \<times> treemap_entry \<times> 'm \<times> picotm_error"
where
  "retrieve_value entry key value_create m error =
     (case entry of
        Value_entry v \<Rightarrow> (v, entry, m, error)
      | _ \<Rightarrow>
          (case value_create of
             None \<Rightarrow> (0, entry, m, error)
           | Some create \<Rightarrow>
               (let (v, m, error) = create key m error in
                if picotm_error_is_set error then (0, entry, m, error)
                else (v, Value_entry v, m, error))))"

text \<open>
  \<open>lookup_value_entry\<close> walks down to the entry of the key and \<open>retrieve_value\<close> works on it.
\<close>

fun lookup_and_retrieve ::
  "'m malloc \<Rightarrow> treemap_entry \<Rightarrow> nat \<Rightarrow> u64 \<Rightarrow> 'm value_create option \<Rightarrow> nat \<Rightarrow> 'm \<Rightarrow> picotm_error \<Rightarrow>
   u64 \<times> treemap_entry \<times> 'm \<times> picotm_error"
where
  "lookup_and_retrieve malloc entry 0 key create level_nbits m error =
     retrieve_value entry key create m error"
| "lookup_and_retrieve malloc entry (Suc depth) key create level_nbits m error =
     (case retrieve_dir malloc entry (create \<noteq> None) (level_nentries level_nbits) m error of
        (None, m, error) \<Rightarrow> (0, entry, m, error)
      | (Some dir, m, error) \<Rightarrow>
          if picotm_error_is_set error then (0, entry, m, error)
          else
            (let i = entry_index key depth level_nbits;
                 (v, child, m, error) =
                   lookup_and_retrieve malloc (dir ! i) depth key create level_nbits m error
             in (v, Dir_entry (dir[i := child]), m, error)))"

definition picotm_treemap_find_value ::
  "'m malloc \<Rightarrow> picotm_treemap \<Rightarrow> u64 \<Rightarrow> 'm value_create option \<Rightarrow> 'm \<Rightarrow> picotm_error \<Rightarrow>
   u64 \<times> picotm_treemap \<times> 'm \<times> picotm_error"
where
  "picotm_treemap_find_value malloc self key create m error =
     (let key_prefix = key_depth_prefix key (tm_depth self) (tm_level_nbits self);
          (depth, root, m, error) =
            (if key_prefix \<noteq> 0
             then grow_tree malloc 64 (tm_root self) (tm_depth self) key_prefix (tm_level_nbits self) m error
             else (tm_depth self, tm_root self, m, error));
          self = self\<lparr>tm_depth := depth, tm_root := root\<rparr>
      in if picotm_error_is_set error then (0, self, m, error)
         else
           (let (v, root, m, error) =
                  lookup_and_retrieve malloc root depth key create (tm_level_nbits self) m error
            in (if picotm_error_is_set error then 0 else v, self\<lparr>tm_root := root\<rparr>, m, error)))"

subsection \<open>Destruction\<close>

fun recursive_cleanup_dir ::
  "nat \<Rightarrow> treemap_entry list \<Rightarrow> (u64 \<Rightarrow> 'm \<Rightarrow> 'm) \<Rightarrow> 'm \<Rightarrow> 'm"
where
  "recursive_cleanup_dir 0 dir destroy m = m"
| "recursive_cleanup_dir (Suc depth) dir destroy m =
     fold (\<lambda>entry m. case entry of
             Null_entry \<Rightarrow> m
           | Value_entry v \<Rightarrow> (if depth = 0 then destroy v m else m)
           | Dir_entry d \<Rightarrow> (if depth = 0 then m else recursive_cleanup_dir depth d destroy m)) dir m"

definition picotm_treemap_uninit :: "picotm_treemap \<Rightarrow> (u64 \<Rightarrow> 'm \<Rightarrow> 'm) \<Rightarrow> 'm \<Rightarrow> 'm" where
  "picotm_treemap_uninit self destroy m =
     (case tm_root self of
        Null_entry \<Rightarrow> m
      | Dir_entry dir \<Rightarrow> recursive_cleanup_dir (tm_depth self) dir destroy m
      | Value_entry v \<Rightarrow> destroy v m)"

subsection \<open>Iteration\<close>

record dir_stack =
  ds_key :: u64
  ds_entry :: treemap_entry
  ds_depth :: nat
  ds_i :: nat

text \<open>
  The inner loop advances to the next entry that is not null.  The stack of the C code is an array
  whose top is \<open>stack[depth - 1]\<close>; here the top is the head of a list.
\<close>

fun skip_null :: "treemap_entry list \<Rightarrow> nat \<Rightarrow> nat" where
  "skip_null [] i = i"
| "skip_null (e # es) i = (if e = Null_entry then skip_null es (Suc i) else i)"

partial_function (option) walk_values ::
  "dir_stack list \<Rightarrow> nat \<Rightarrow> (u64 \<Rightarrow> u64 \<Rightarrow> 'd \<Rightarrow> picotm_error \<Rightarrow> 'd \<times> picotm_error) \<Rightarrow> 'd \<Rightarrow>
   picotm_error \<Rightarrow> ('d \<times> picotm_error) option"
where
  "walk_values stack level_nbits value_call data error =
     (case stack of
        [] \<Rightarrow> Some (data, error)
      | tos # rest \<Rightarrow>
          if ds_depth tos \<noteq> 0 then
            (case ds_entry tos of
               Dir_entry dir \<Rightarrow>
                 (let i = skip_null (drop (ds_i tos) dir) (ds_i tos) in
                  if i < level_nentries level_nbits then
                    walk_values
                      (\<lparr>ds_key = push_bit level_nbits (ds_key tos) + of_nat i, ds_entry = dir ! i,
                        ds_depth = ds_depth tos - 1, ds_i = 0\<rparr> # tos\<lparr>ds_i := i + 1\<rparr> # rest)
                      level_nbits value_call data error
                  else walk_values rest level_nbits value_call data error)
             | _ \<Rightarrow> None)
          else
            (case ds_entry tos of
               Value_entry v \<Rightarrow>
                 (let (data, error) = value_call v (ds_key tos) data error in
                  if picotm_error_is_set error then Some (data, error)
                  else walk_values rest level_nbits value_call data error)
             | _ \<Rightarrow> None))"

definition picotm_treemap_for_each_value ::
  "picotm_treemap \<Rightarrow> (u64 \<Rightarrow> u64 \<Rightarrow> 'd \<Rightarrow> picotm_error \<Rightarrow> 'd \<times> picotm_error) \<Rightarrow> 'd \<Rightarrow> picotm_error \<Rightarrow>
   ('d \<times> picotm_error) option"
where
  "picotm_treemap_for_each_value self value_call data error =
     walk_values
       (if tm_root self \<noteq> Null_entry
        then [\<lparr>ds_key = 0, ds_entry = tm_root self, ds_depth = tm_depth self, ds_i = 0\<rparr>] else [])
       (tm_level_nbits self) value_call data error"

subsection \<open>The tree as a finite map\<close>

lemma unat_shift_right: "n < 64 \<Longrightarrow> unat (shift_right key n) = unat key div 2 ^ n"
  by (simp only: shift_right_def mod_less unat_drop_bit_eq) (rule drop_bit_eq_div)

lemma level_mask_mask: "n < 64 \<Longrightarrow> level_mask n = mask n"
  by (simp add: level_mask_def level_nentries_def mask_eq_exp_minus_1)

lemma entry_index_nat:
  assumes "d * n < 64" and "n < 64"
  shows "entry_index key d n = unat key div 2 ^ (d * n) mod 2 ^ n"
proof -
  have "entry_index key d n = unat (take_bit n (shift_right key (d * n)))"
    unfolding entry_index_def key_depth_prefix_def level_mask_mask [OF assms(2)] take_bit_eq_mask ..
  also have "\<dots> = take_bit n (unat (shift_right key (d * n)))" by (simp only: unsigned_take_bit_eq)
  also have "\<dots> = unat key div 2 ^ (d * n) mod 2 ^ n"
    by (simp only: unat_shift_right [OF assms(1)] take_bit_eq_mod)
  finally show ?thesis .
qed

text \<open>
  Well-formed trees of a given depth, and the value that a tree stores for a key; 0 stands for none.
\<close>

fun entry_ok :: "nat \<Rightarrow> nat \<Rightarrow> treemap_entry \<Rightarrow> bool" where
  "entry_ok n d Null_entry \<longleftrightarrow> True"
| "entry_ok n d (Value_entry v) \<longleftrightarrow> d = 0 \<and> v \<noteq> 0"
| "entry_ok n 0 (Dir_entry es) \<longleftrightarrow> False"
| "entry_ok n (Suc d) (Dir_entry es) \<longleftrightarrow> length es = 2 ^ n \<and> (\<forall>e\<in>set es. entry_ok n d e)"

fun entry_get :: "nat \<Rightarrow> nat \<Rightarrow> treemap_entry \<Rightarrow> u64 \<Rightarrow> u64" where
  "entry_get n d Null_entry key = 0"
| "entry_get n 0 (Value_entry v) key = v"
| "entry_get n (Suc d) (Value_entry v) key = 0"
| "entry_get n 0 (Dir_entry es) key = 0"
| "entry_get n (Suc d) (Dir_entry es) key = entry_get n d (es ! entry_index key d n) key"

definition tree_get :: "nat \<Rightarrow> nat \<Rightarrow> treemap_entry \<Rightarrow> u64 \<Rightarrow> u64" where
  "tree_get n d root key = (if unat key < 2 ^ (d * n) then entry_get n d root key else 0)"

definition treemap_get :: "picotm_treemap \<Rightarrow> u64 \<Rightarrow> u64" where
  "treemap_get self key = tree_get (tm_level_nbits self) (tm_depth self) (tm_root self) key"

definition treemap_ok :: "picotm_treemap \<Rightarrow> bool" where
  "treemap_ok self \<longleftrightarrow> 0 < tm_level_nbits self \<and> tm_level_nbits self < 64 \<and>
     tm_depth self * tm_level_nbits self < 64 \<and>
     entry_ok (tm_level_nbits self) (tm_depth self) (tm_root self)"

text \<open>The keys for which the depth of the tree stays within the bits of a key.\<close>

definition treemap_key_ok :: "picotm_treemap \<Rightarrow> u64 \<Rightarrow> bool" where
  "treemap_key_ok self key \<longleftrightarrow>
     unat key < 2 ^ (63 div tm_level_nbits self * tm_level_nbits self)"

definition create_ok :: "'m value_create option \<Rightarrow> bool" where
  "create_ok create \<longleftrightarrow> (\<forall>f key m e v m' e'. create = Some f \<longrightarrow> f key m e = (v, m', e') \<longrightarrow>
     \<not> picotm_error_is_set e' \<longrightarrow> v \<noteq> 0)"

definition same_path :: "nat \<Rightarrow> nat \<Rightarrow> u64 \<Rightarrow> u64 \<Rightarrow> bool" where
  "same_path n d k key \<longleftrightarrow> (\<forall>j<d. entry_index k j n = entry_index key j n)"

lemma entry_index_bound: "d * n < 64 \<Longrightarrow> n < 64 \<Longrightarrow> entry_index key d n < 2 ^ n"
  by (simp add: entry_index_nat)

lemma digits_eq:
  assumes "\<forall>j<d. (a::nat) div 2 ^ (j * n) mod 2 ^ n = b div 2 ^ (j * n) mod 2 ^ n"
  shows "a mod 2 ^ (d * n) = b mod 2 ^ (d * n)"
  using assms
proof (induction d)
  case (Suc d)
  have split: "x mod 2 ^ (Suc d * n) = 2 ^ (d * n) * (x div 2 ^ (d * n) mod 2 ^ n) + x mod 2 ^ (d * n)" for x :: nat
  proof -
    have "(2 :: nat) ^ (Suc d * n) = 2 ^ (d * n) * 2 ^ n" by (simp add: power_add)
    then show ?thesis by (simp only: mod_mult2_eq)
  qed
  show ?case unfolding split using Suc by simp
qed simp

lemma same_path_eq:
  assumes "same_path n d k key" and "unat k < 2 ^ (d * n)" and "unat key < 2 ^ (d * n)"
    and "d * n < 64" and "n < 64"
  shows "k = key"
proof -
  have "j * n < 64" if "j < d" for j
    using that assms(4) by (meson le_less_trans less_imp_le mult_le_mono1)
  then have "unat k mod 2 ^ (d * n) = unat key mod 2 ^ (d * n)"
    using assms(1,5) by (intro digits_eq) (simp add: same_path_def entry_index_nat)
  with assms(2,3) show ?thesis by (simp add: word_unat_eq_iff)
qed

lemma same_path_Suc:
  "same_path n (Suc d) k key \<longleftrightarrow> entry_index k d n = entry_index key d n \<and> same_path n d k key"
  by (auto simp: same_path_def less_Suc_eq)

lemma retrieve_value_spec:
  assumes "retrieve_value e key create m er = (v, e', m', er')" and "entry_ok n 0 e"
    and "create_ok create" and "\<not> picotm_error_is_set er"
  shows "entry_ok n 0 e' \<and>
    (\<forall>k. entry_get n 0 e' k = (if picotm_error_is_set er' then entry_get n 0 e k else v)) \<and>
    (entry_get n 0 e key \<noteq> 0 \<longrightarrow> v = entry_get n 0 e key \<and> e' = e \<and> m' = m \<and> er' = er) \<and>
    (create = None \<longrightarrow> v = entry_get n 0 e key \<and> e' = e \<and> m' = m \<and> er' = er)"
  using assms
  by (cases e; cases create) (auto simp: retrieve_value_def create_ok_def split: prod.splits if_splits)

lemma dir_create_cases:
  assumes "\<not> picotm_error_is_set er"
  obtains m' er' where "dir_create malloc k m er = (None, m', er')" "picotm_error_is_set er'"
  | m' where "dir_create malloc k m er = (Some (replicate k Null_entry), m', er)"
proof (cases "malloc m")
  case (Pair err m')
  then show thesis
    using that(1) [of m' "picotm_error_set_errno er err"] that(2) [of m']
    by (cases "err = 0") (auto simp: dir_create_def picotm_error_is_set_def picotm_error_set_errno_def)
qed

lemma lookup_and_retrieve_spec:
  assumes "lookup_and_retrieve malloc e d key create n m er = (v, e', m', er')"
    and "entry_ok n d e" and "create_ok create" and "\<not> picotm_error_is_set er"
    and "d * n < 64" and "n < 64"
  shows "entry_ok n d e' \<and>
    (\<forall>k. entry_get n d e' k =
       (if same_path n d k key \<and> \<not> picotm_error_is_set er' then v else entry_get n d e k)) \<and>
    (entry_get n d e key \<noteq> 0 \<longrightarrow> v = entry_get n d e key \<and> e' = e \<and> m' = m \<and> er' = er) \<and>
    (create = None \<longrightarrow> v = entry_get n d e key \<and> e' = e \<and> m' = m \<and> er' = er)"
  using assms
proof (induction d arbitrary: e m er v e' m' er')
  case 0
  then show ?case using retrieve_value_spec [of e key create m er v e' m' er' n]
    by (simp add: same_path_def)
next
  case (Suc d)
  have dn: "d * n < 64" using Suc.prems(5) by simp
  have step: "entry_ok n (Suc d) e' \<and>
      (\<forall>k. entry_get n (Suc d) e' k =
        (if same_path n (Suc d) k key \<and> \<not> picotm_error_is_set er' then v
         else entry_get n (Suc d) (Dir_entry dir) k)) \<and>
      (entry_get n (Suc d) (Dir_entry dir) key \<noteq> 0 \<longrightarrow>
         v = entry_get n (Suc d) (Dir_entry dir) key \<and> e' = Dir_entry dir \<and> m' = m1 \<and> er' = er) \<and>
      (create = None \<longrightarrow>
         v = entry_get n (Suc d) (Dir_entry dir) key \<and> e' = Dir_entry dir \<and> m' = m1 \<and> er' = er)"
    if dir: "length dir = 2 ^ n" "\<forall>c\<in>set dir. entry_ok n d c"
      and go: "(let i = entry_index key d n;
                    (v, child, m, error) = lookup_and_retrieve malloc (dir ! i) d key create n m1 er
                in (v, Dir_entry (dir[i := child]), m, error)) = (v, e', m', er')" for dir m1
  proof -
    define i where "i = entry_index key d n"
    have i: "i < length dir" using entry_index_bound [OF dn Suc.prems(6), of key] dir(1) by (simp add: i_def)
    obtain child where child: "lookup_and_retrieve malloc (dir ! i) d key create n m1 er = (v, child, m', er')"
        "e' = Dir_entry (dir[i := child])"
      using go by (auto simp: Let_def i_def split: prod.splits)
    have "entry_ok n d (dir ! i)" using dir(2) i by simp
    from Suc.IH [OF child(1) this Suc.prems(3,4) dn Suc.prems(6)]
    have IH: "entry_ok n d child"
      "\<And>k. entry_get n d child k = (if same_path n d k key \<and> \<not> picotm_error_is_set er' then v
          else entry_get n d (dir ! i) k)"
      "entry_get n d (dir ! i) key \<noteq> 0 \<Longrightarrow>
         v = entry_get n d (dir ! i) key \<and> child = dir ! i \<and> m' = m1 \<and> er' = er"
      "create = None \<Longrightarrow> v = entry_get n d (dir ! i) key \<and> child = dir ! i \<and> m' = m1 \<and> er' = er"
      by blast+
    have "entry_ok n (Suc d) e'"
      using dir IH(1) i set_update_subset_insert [of dir i child] by (auto simp: child(2))
    moreover have "entry_get n (Suc d) e' k =
        (if same_path n (Suc d) k key \<and> \<not> picotm_error_is_set er' then v
         else entry_get n (Suc d) (Dir_entry dir) k)" for k
      using i by (simp add: child(2) IH(2) nth_list_update i_def same_path_Suc)
    moreover have "dir[i := child] = dir" if "child = dir ! i" using that by simp
    ultimately show ?thesis using IH(3,4) by (auto simp: child(2) i_def)
  qed
  show ?case
  proof (cases e)
    case (Dir_entry dir)
    then show ?thesis
      using step [of dir m] Suc.prems(1,2,4) by (simp add: retrieve_dir_def)
  next
    case (Value_entry w)
    with Suc.prems(2) show ?thesis by simp
  next
    case Null_entry
    show ?thesis
    proof (cases create)
      case None
      with Null_entry Suc.prems(1) show ?thesis by (auto simp: retrieve_dir_def)
    next
      case (Some f)
      show ?thesis
      proof (rule dir_create_cases [OF Suc.prems(4), of malloc "level_nentries n" m])
        fix m1 er1
        assume "dir_create malloc (level_nentries n) m er = (None, m1, er1)" "picotm_error_is_set er1"
        with Null_entry Some Suc.prems(1) show ?thesis by (auto simp: retrieve_dir_def)
      next
        fix m1
        assume dir: "dir_create malloc (level_nentries n) m er =
            (Some (replicate (level_nentries n) Null_entry), m1, er)"
        have zero: "entry_get n (Suc d) (Dir_entry (replicate (level_nentries n) Null_entry)) k = 0" for k
          using entry_index_bound [OF dn Suc.prems(6), of k] by (simp add: level_nentries_def)
        have "entry_ok n (Suc d) e' \<and> (\<forall>k. entry_get n (Suc d) e' k =
          (if same_path n (Suc d) k key \<and> \<not> picotm_error_is_set er' then v
           else entry_get n (Suc d) (Dir_entry (replicate (level_nentries n) Null_entry)) k))"
          using step [of "replicate (level_nentries n) Null_entry" m1] Suc.prems(1,4) dir Null_entry Some
          by (simp add: retrieve_dir_def level_nentries_def)
        with Null_entry Some show ?thesis unfolding zero by simp
      qed
    qed
  qed
qed

subsection \<open>Growing and finding\<close>

lemma tree_get_grow:
  assumes "entry_ok n d root" and "0 < n" and "n < 64" and "Suc d * n < 64"
  shows "entry_ok n (Suc d) (Dir_entry ((replicate (level_nentries n) Null_entry)[0 := root]))"
    and "tree_get n (Suc d) (Dir_entry ((replicate (level_nentries n) Null_entry)[0 := root])) k =
      tree_get n d root k"
proof -
  let ?es = "(replicate (2 ^ n) Null_entry)[0 := root]"
  have "set ?es \<subseteq> {Null_entry, root}"
    using set_update_subset_insert [of "replicate (2 ^ n) Null_entry" 0 root] by auto
  then show "entry_ok n (Suc d) (Dir_entry ((replicate (level_nentries n) Null_entry)[0 := root]))"
    using assms(1) by (auto simp: level_nentries_def)
  have dn: "d * n < 64" using assms(4) by simp
  have idx: "entry_index k d n = unat k div 2 ^ (d * n)" if "unat k < 2 ^ (Suc d * n)"
  proof -
    have "unat k div 2 ^ (d * n) < 2 ^ n"
      using that by (simp add: less_mult_imp_div_less power_add mult.commute)
    then show ?thesis by (simp add: entry_index_nat [OF dn assms(3)])
  qed
  show "tree_get n (Suc d) (Dir_entry ((replicate (level_nentries n) Null_entry)[0 := root])) k =
      tree_get n d root k"
  proof (cases "unat k < 2 ^ (d * n)")
    case True
    moreover have "(2 :: nat) ^ (d * n) \<le> 2 ^ (Suc d * n)" by (rule power_increasing) auto
    ultimately have "unat k < 2 ^ (Suc d * n)" by linarith
    with True idx show ?thesis by (simp add: tree_get_def level_nentries_def)
  next
    case False
    have "entry_index k d n < 2 ^ n" by (rule entry_index_bound [OF dn assms(3)])
    moreover have "entry_index k d n \<noteq> 0" if "unat k < 2 ^ (Suc d * n)"
      using False that by (simp add: idx div_eq_0_iff)
    ultimately show ?thesis using False by (simp add: tree_get_def level_nentries_def)
  qed
qed

lemma div_shift: "(a::nat) div 2 ^ (d * n) div 2 ^ n = a div 2 ^ (Suc d * n)"
  by (simp add: div_mult2_eq [symmetric] power_add mult.commute)

lemma grow_tree_spec:
  assumes "grow_tree malloc fuel root d prefix n m er = (d', root', m', er')"
    and "entry_ok n d root" and "0 < n" and "n < 64" and "d \<le> 63 div n" and "63 div n \<le> d + fuel"
    and "unat prefix = unat key div 2 ^ (d * n)" and "unat key < 2 ^ (63 div n * n)"
    and "\<not> picotm_error_is_set er"
  shows "d \<le> d' \<and> d' \<le> 63 div n \<and> entry_ok n d' root' \<and>
    (\<forall>k. tree_get n d' root' k = tree_get n d root k) \<and>
    (\<not> picotm_error_is_set er' \<longrightarrow> unat key < 2 ^ (d' * n))"
  using assms
proof (induction fuel arbitrary: root d prefix m er)
  case 0
  then have "d' = d" "root' = root" "63 div n = d" by simp_all
  with 0 show ?case by auto
next
  case (Suc fuel)
  have zero: "prefix = 0 \<longleftrightarrow> unat key < 2 ^ (d * n)"
    using Suc.prems(7) by (simp add: word_unat_eq_iff div_eq_0_iff)
  show ?case
  proof (cases "prefix = 0")
    case True
    with Suc.prems(1) have "d' = d" "root' = root" by simp_all
    with True zero Suc.prems(2,5) show ?thesis by auto
  next
    case False
    then have "\<not> unat key < 2 ^ (d * n)" using zero by simp
    then have "d \<noteq> 63 div n" using Suc.prems(8) by metis
    then have d1: "Suc d \<le> 63 div n" using Suc.prems(5) by simp
    then have "Suc d * n \<le> 63" by (metis Suc.prems(3) less_eq_div_iff_mult_less_eq)
    then have dn: "Suc d * n < 64" by simp
    note grow = tree_get_grow [OF Suc.prems(2-4) dn]
    show ?thesis
    proof (rule dir_create_cases [OF Suc.prems(9), of malloc "level_nentries n" m])
      fix m1 er1
      assume "dir_create malloc (level_nentries n) m er = (None, m1, er1)" "picotm_error_is_set er1"
      with False Suc.prems(1) have "d' = d" "root' = root" "er' = er1" by simp_all
      with Suc.prems(2,5) \<open>picotm_error_is_set er1\<close> show ?thesis by simp
    next
      fix m1
      assume dir: "dir_create malloc (level_nentries n) m er =
          (Some (replicate (level_nentries n) Null_entry), m1, er)"
      have rec: "grow_tree malloc fuel (Dir_entry ((replicate (level_nentries n) Null_entry)[0 := root]))
          (Suc d) (shift_right prefix n) n m1 er = (d', root', m', er')"
        using Suc.prems(1,9) False dir by simp
      have "unat (shift_right prefix n) = unat key div 2 ^ (Suc d * n)"
        by (simp only: unat_shift_right [OF Suc.prems(4)] Suc.prems(7) div_shift)
      from Suc.IH [OF rec grow(1) Suc.prems(3,4) d1 _ this Suc.prems(8,9)] Suc.prems(6)
      show ?thesis by (auto simp: grow(2))
    qed
  qed
qed

definition grow_for_key ::
  "'m malloc \<Rightarrow> picotm_treemap \<Rightarrow> u64 \<Rightarrow> 'm \<Rightarrow> picotm_error \<Rightarrow> nat \<times> treemap_entry \<times> 'm \<times> picotm_error"
where
  "grow_for_key malloc self key m er =
     (let prefix = key_depth_prefix key (tm_depth self) (tm_level_nbits self) in
      if prefix \<noteq> 0
      then grow_tree malloc 64 (tm_root self) (tm_depth self) prefix (tm_level_nbits self) m er
      else (tm_depth self, tm_root self, m, er))"

lemma find_value_grows:
  "picotm_treemap_find_value malloc self key create m er = (case grow_for_key malloc self key m er of
      (depth, root, m, error) \<Rightarrow>
      let self = self\<lparr>tm_depth := depth, tm_root := root\<rparr>
      in if picotm_error_is_set error then (0, self, m, error)
         else
           (let (v, root, m, error) =
                  lookup_and_retrieve malloc root depth key create (tm_level_nbits self) m error
            in (if picotm_error_is_set error then 0 else v, self\<lparr>tm_root := root\<rparr>, m, error)))"
  unfolding picotm_treemap_find_value_def grow_for_key_def Let_def by (rule refl)

lemma grow_for_key_spec:
  assumes "grow_for_key malloc self key m er = (d, root, m1, er1)"
    and "treemap_ok self" and "treemap_key_ok self key" and "\<not> picotm_error_is_set er"
  defines "n \<equiv> tm_level_nbits self"
  shows "d * n < 64 \<and> entry_ok n d root \<and> (\<forall>k. tree_get n d root k = treemap_get self k) \<and>
    (\<not> picotm_error_is_set er1 \<longrightarrow> unat key < 2 ^ (d * n))"
proof -
  have ok: "0 < n" "n < 64" "tm_depth self * n < 64" "entry_ok n (tm_depth self) (tm_root self)"
    using assms(2) by (auto simp: treemap_ok_def n_def)
  have key: "unat key < 2 ^ (63 div n * n)" using assms(3) by (simp add: treemap_key_ok_def n_def)
  have depth: "tm_depth self \<le> 63 div n"
    using ok by (simp add: less_eq_div_iff_mult_less_eq)
  define prefix where "prefix = key_depth_prefix key (tm_depth self) n"
  have prefix: "unat prefix = unat key div 2 ^ (tm_depth self * n)"
    unfolding prefix_def key_depth_prefix_def by (rule unat_shift_right [OF ok(3)])
  have "d \<le> 63 div n \<and> entry_ok n d root \<and> (\<forall>k. tree_get n d root k = treemap_get self k) \<and>
      (\<not> picotm_error_is_set er1 \<longrightarrow> unat key < 2 ^ (d * n))"
  proof (cases "prefix = 0")
    case True
    then have "unat key < 2 ^ (tm_depth self * n)" using prefix by (simp add: div_eq_0_iff)
    with True assms(1) ok depth show ?thesis
      by (auto simp: treemap_get_def n_def prefix_def grow_for_key_def)
  next
    case False
    then have g: "grow_tree malloc 64 (tm_root self) (tm_depth self) prefix n m er = (d, root, m1, er1)"
      using assms(1) by (simp add: grow_for_key_def prefix_def n_def Let_def)
    have fuel: "63 div n \<le> tm_depth self + 64" using div_le_dividend [of 63 n] by linarith
    from grow_tree_spec [OF g ok(4,1,2) depth fuel prefix key assms(4)] show ?thesis
      by (simp add: treemap_get_def n_def)
  qed
  then show ?thesis using ok(1) by (simp add: less_eq_div_iff_mult_less_eq)
qed

theorem treemap_find_value_spec:
  assumes "picotm_treemap_find_value malloc self key create m er = (v, self', m', er')"
    and "treemap_ok self" and "treemap_key_ok self key" and "create_ok create"
    and "\<not> picotm_error_is_set er"
  shows "treemap_ok self' \<and>
    (\<forall>k. treemap_get self' k =
      (if k = key \<and> \<not> picotm_error_is_set er' then v else treemap_get self k)) \<and>
    (\<not> picotm_error_is_set er' \<and> (treemap_get self key \<noteq> 0 \<or> create = None) \<longrightarrow>
      v = treemap_get self key)"
proof -
  define n where "n = tm_level_nbits self"
  have ok: "0 < n" "n < 64" using assms(2) by (auto simp: treemap_ok_def n_def)
  obtain d root m1 er1 where grow: "grow_for_key malloc self key m er = (d, root, m1, er1)"
    by (rule prod_cases4)
  note unfolded = find_value_grows [of malloc self key create m er, unfolded grow assms(1), symmetric]
  have grown: "entry_ok n d root" "\<And>k. tree_get n d root k = treemap_get self k"
    "\<not> picotm_error_is_set er1 \<Longrightarrow> unat key < 2 ^ (d * n)" and dn: "d * n < 64"
    using grow_for_key_spec [OF grow assms(2,3,5)] by (simp_all add: n_def)
  show ?thesis
  proof (cases "picotm_error_is_set er1")
    case True
    with unfolded have "self' = self\<lparr>tm_depth := d, tm_root := root\<rparr>" "er' = er1"
      by (simp_all add: Let_def)
    with True ok dn grown(1,2) show ?thesis
      by (auto simp: treemap_ok_def treemap_get_def n_def [symmetric])
  next
    case False
    obtain v1 root1 m2 er2 where look: "lookup_and_retrieve malloc root d key create n m1 er1 = (v1, root1, m2, er2)"
      by (rule prod_cases4)
    have res: "self' = self\<lparr>tm_depth := d, tm_root := root1\<rparr>" "er' = er2"
        "v = (if picotm_error_is_set er2 then 0 else v1)"
      using unfolded False look by (auto simp: Let_def n_def [symmetric])
    note spec = lookup_and_retrieve_spec [OF look grown(1) assms(4) False dn ok(2)]
    have get: "tree_get n d root1 k = (if k = key \<and> \<not> picotm_error_is_set er2 then v1 else treemap_get self k)" for k
    proof (cases "unat k < 2 ^ (d * n)")
      case True
      then have "same_path n d k key \<longleftrightarrow> k = key"
        using same_path_eq [of n d k key] grown(3) [OF False] dn ok(2) by (auto simp: same_path_def)
      with True spec show ?thesis by (simp add: tree_get_def grown(2) [symmetric])
    next
      case no: False
      then have "k \<noteq> key" using grown(3) [OF False] by auto
      with no show ?thesis by (simp add: tree_get_def grown(2) [symmetric])
    qed
    have at_key: "treemap_get self key = entry_get n d root key"
      using grown(2) [of key] grown(3) [OF False] by (simp add: tree_get_def)
    have "treemap_ok self'" using spec ok dn by (simp add: res treemap_ok_def n_def [symmetric])
    moreover have "treemap_get self' k = tree_get n d root1 k" for k
      by (simp add: treemap_get_def res n_def)
    ultimately show ?thesis using spec by (auto simp: get res at_key)
  qed
qed

text \<open>A key that is present is found without any allocation.\<close>

lemma treemap_find_present:
  assumes "picotm_treemap_find_value malloc self key create m er = (v, self', m', er')"
    and "treemap_ok self" and "create_ok create" and "\<not> picotm_error_is_set er" and "treemap_get self key \<noteq> 0"
  shows "er' = er"
proof -
  define n d where "n = tm_level_nbits self" and "d = tm_depth self"
  have ok: "0 < n" "n < 64" "d * n < 64" "entry_ok n d (tm_root self)"
    using assms(2) by (auto simp: treemap_ok_def n_def d_def)
  have key: "unat key < 2 ^ (d * n)" "entry_get n d (tm_root self) key \<noteq> 0"
    using assms(5) by (auto simp: treemap_get_def tree_get_def n_def d_def split: if_splits)
  have "unat (key_depth_prefix key d n) = unat key div 2 ^ (d * n)"
    unfolding key_depth_prefix_def by (rule unat_shift_right [OF ok(3)])
  then have "key_depth_prefix key d n = 0" using key(1) by (simp add: word_unat_eq_iff)
  then have grow: "grow_for_key malloc self key m er = (d, tm_root self, m, er)"
    by (simp add: grow_for_key_def n_def d_def)
  obtain v1 root1 m2 er2 where look: "lookup_and_retrieve malloc (tm_root self) d key create n m er = (v1, root1, m2, er2)"
    by (rule prod_cases4)
  have "er2 = er" using lookup_and_retrieve_spec [OF look ok(4) assms(3,4) ok(3,2)] key(2) by simp
  then show ?thesis
    using assms(1,4) look unfolding find_value_grows grow by (simp add: Let_def n_def)
qed

lemma treemap_find_nbits:
  "picotm_treemap_find_value malloc self key create m er = (v, self', m', er') \<Longrightarrow>
    tm_level_nbits self = n \<Longrightarrow> tm_level_nbits self' = n"
  unfolding find_value_grows by (auto simp: Let_def split: prod.splits if_splits)

text \<open>
  What a search does to the state of its caller: it keeps what \<open>malloc\<close> and a failing creator keep, up to
  the moment when the creator makes the value.
\<close>

definition found_or_made ::
  "('m \<Rightarrow> bool) \<Rightarrow> u64 \<Rightarrow> 'm value_create \<Rightarrow> u64 \<Rightarrow> picotm_error \<Rightarrow> u64 \<Rightarrow> 'm \<Rightarrow> picotm_error \<Rightarrow> bool"
where
  "found_or_made P key f old er v m' er' \<longleftrightarrow>
     P m' \<and> (picotm_error_is_set er' \<or> er' = er \<and> v = old \<and> v \<noteq> 0) \<or>
     old = 0 \<and> \<not> picotm_error_is_set er' \<and> (\<exists>m1. P m1 \<and> f key m1 er = (v, m', er'))"

definition state_kept :: "('m \<Rightarrow> bool) \<Rightarrow> 'm malloc \<Rightarrow> u64 \<Rightarrow> 'm value_create \<Rightarrow> bool" where
  "state_kept P malloc key f \<longleftrightarrow> (\<forall>m err m'. P m \<longrightarrow> malloc m = (err, m') \<longrightarrow> P m') \<and>
     (\<forall>m er v m' er'. P m \<longrightarrow> \<not> picotm_error_is_set er \<longrightarrow> f key m er = (v, m', er') \<longrightarrow>
       picotm_error_is_set er' \<longrightarrow> P m')"

lemma state_keptD:
  assumes "state_kept P malloc key f" and "P m"
  shows "malloc m = (err, m') \<Longrightarrow> P m'"
    and "\<not> picotm_error_is_set er \<Longrightarrow> f key m er = (v, m', er') \<Longrightarrow> picotm_error_is_set er' \<Longrightarrow> P m'"
  using assms unfolding state_kept_def by blast+

lemma state_kept_dir:
  assumes "state_kept P malloc key f" and "dir_create malloc k m er = (d, m', er')" and "P m"
  shows "P m'"
proof -
  obtain err m1 where "malloc m = (err, m1)" by (cases "malloc m")
  moreover from this have "P m1" by (rule state_keptD(1) [OF assms(1,3)])
  ultimately show ?thesis using assms(2) by (simp add: dir_create_def split: if_splits)
qed

lemma grow_tree_keeps:
  "state_kept P malloc key f \<Longrightarrow> grow_tree malloc fuel root d prefix n m er = (d', root', m', er') \<Longrightarrow> P m \<Longrightarrow>
    \<not> picotm_error_is_set er \<Longrightarrow> P m' \<and> (picotm_error_is_set er' \<or> er' = er)"
proof (induction fuel arbitrary: root d prefix m)
  case (Suc fuel)
  show ?case
  proof (cases "prefix = 0")
    case False
    show ?thesis
    proof (rule dir_create_cases [OF Suc.prems(4), of malloc "level_nentries n" m])
      fix m1 er1
      assume dir: "dir_create malloc (level_nentries n) m er = (None, m1, er1)" "picotm_error_is_set er1"
      with False Suc.prems(2) state_kept_dir [OF Suc.prems(1) dir(1) Suc.prems(3)] show ?thesis by simp
    next
      fix m1
      assume dir: "dir_create malloc (level_nentries n) m er =
          (Some (replicate (level_nentries n) Null_entry), m1, er)"
      with False Suc.prems(2,4) have "grow_tree malloc fuel
          (Dir_entry ((replicate (level_nentries n) Null_entry)[0 := root])) (d + 1)
          (shift_right prefix n) n m1 er = (d', root', m', er')" by simp
      from Suc.IH [OF Suc.prems(1) this state_kept_dir [OF Suc.prems(1) dir Suc.prems(3)] Suc.prems(4)]
      show ?thesis .
    qed
  qed (use Suc.prems in simp)
qed simp

lemma lookup_finds_or_makes:
  "state_kept P malloc key f \<Longrightarrow> lookup_and_retrieve malloc e d key (Some f) n m er = (v, e', m', er') \<Longrightarrow>
    P m \<Longrightarrow> \<not> picotm_error_is_set er \<Longrightarrow> entry_ok n d e \<Longrightarrow> d * n < 64 \<Longrightarrow> n < 64 \<Longrightarrow>
    found_or_made P key f (entry_get n d e key) er v m' er'"
proof (induction d arbitrary: e m v e')
  case 0
  have made: "found_or_made P key f 0 er v m' er'"
    if "e = Null_entry"
  proof -
    obtain w m2 er2 where f: "f key m er = (w, m2, er2)" by (rule prod_cases3)
    with 0(2) that have "m' = m2" "er' = er2" "\<not> picotm_error_is_set er2 \<Longrightarrow> v = w"
      by (auto simp: retrieve_value_def split: if_splits)
    with f show ?thesis
      using state_keptD(2) [OF 0(1,3,4) f] 0(3) by (cases "picotm_error_is_set er2") (auto simp: found_or_made_def)
  qed
  show ?case
    using 0(2,3,5) made by (cases e) (auto simp: retrieve_value_def found_or_made_def)
next
  case (Suc d)
  have dn: "d * n < 64" using Suc.prems(6) by simp
  have step: "found_or_made P key f (entry_get n d (dir ! entry_index key d n) key) er v m' er'"
    if dir: "length dir = 2 ^ n" "\<forall>c\<in>set dir. entry_ok n d c" "P m1"
      and go: "(let i = entry_index key d n;
                    (v, child, m, error) = lookup_and_retrieve malloc (dir ! i) d key (Some f) n m1 er
                in (v, Dir_entry (dir[i := child]), m, error)) = (v, e', m', er')" for dir m1
  proof -
    have "entry_index key d n < length dir"
      using entry_index_bound [OF dn Suc.prems(7), of key] dir(1) by simp
    then have ok: "entry_ok n d (dir ! entry_index key d n)" using dir(2) by simp
    obtain child where child:
        "lookup_and_retrieve malloc (dir ! entry_index key d n) d key (Some f) n m1 er = (v, child, m', er')"
      using go by (auto simp: Let_def split: prod.splits)
    show ?thesis by (rule Suc.IH [OF Suc.prems(1) child dir(3) Suc.prems(4) ok dn Suc.prems(7)])
  qed
  show ?case
  proof (cases e)
    case (Dir_entry dir)
    then show ?thesis
      using step [of dir m] Suc.prems(2-5) by (simp add: retrieve_dir_def)
  next
    case (Value_entry w)
    with Suc.prems(5) show ?thesis by simp
  next
    case Null_entry
    show ?thesis
    proof (rule dir_create_cases [OF Suc.prems(4), of malloc "level_nentries n" m])
      fix m1 er1
      assume dir: "dir_create malloc (level_nentries n) m er = (None, m1, er1)" "picotm_error_is_set er1"
      with Null_entry Suc.prems(2) state_kept_dir [OF Suc.prems(1) dir(1) Suc.prems(3)] show ?thesis
        by (simp add: retrieve_dir_def found_or_made_def)
    next
      fix m1
      let ?es = "replicate (level_nentries n) Null_entry"
      assume dir: "dir_create malloc (level_nentries n) m er = (Some ?es, m1, er)"
      have "found_or_made P key f (entry_get n d (?es ! entry_index key d n) key) er v m' er'"
        by (rule step [OF _ _ state_kept_dir [OF Suc.prems(1) dir Suc.prems(3)]])
          (use Suc.prems(2,4) dir Null_entry in \<open>simp_all add: retrieve_dir_def level_nentries_def\<close>)
      with Null_entry entry_index_bound [OF dn Suc.prems(7), of key] show ?thesis
        by (simp add: level_nentries_def)
    qed
  qed
qed

theorem treemap_finds_or_makes:
  assumes "picotm_treemap_find_value malloc self key (Some f) m er = (v, self', m', er')"
    and "treemap_ok self" and "treemap_key_ok self key" and "\<not> picotm_error_is_set er"
    and "state_kept P malloc key f" and "P m"
  shows "found_or_made P key f (treemap_get self key) er v m' er'"
proof -
  let ?n = "tm_level_nbits self"
  obtain d root m1 er1 where grow: "grow_for_key malloc self key m er = (d, root, m1, er1)"
    by (rule prod_cases4)
  note unfolded = find_value_grows [of malloc self key "Some f" m er, unfolded grow assms(1), symmetric]
  note grown = grow_for_key_spec [OF grow assms(2,3,4)]
  have m1: "P m1" "picotm_error_is_set er1 \<or> er1 = er"
    using grow grow_tree_keeps [OF assms(5) _ assms(6,4)] assms(6)
    by (auto simp: grow_for_key_def Let_def split: if_splits)
  show ?thesis
  proof (cases "picotm_error_is_set er1")
    case True
    with unfolded have "m' = m1" "er' = er1" by (simp_all add: Let_def)
    with True m1 show ?thesis by (simp add: found_or_made_def)
  next
    case False
    then have er1: "er1 = er" using m1(2) by simp
    obtain v1 root1 m2 er2 where look:
        "lookup_and_retrieve malloc root d key (Some f) ?n m1 er1 = (v1, root1, m2, er2)"
      by (rule prod_cases4)
    have res: "m' = m2" "er' = er2" "\<not> picotm_error_is_set er2 \<Longrightarrow> v = v1"
      using unfolded False look by (auto simp: Let_def)
    have n: "?n < 64" using assms(2) by (simp add: treemap_ok_def)
    have "treemap_get self key = entry_get ?n d root key"
      using grown False unfolding tree_get_def by metis
    moreover have "found_or_made P key f (entry_get ?n d root key) er v1 m2 er2"
      using lookup_finds_or_makes [OF assms(5) look m1(1) False _ _ n] grown er1 by simp
    ultimately show ?thesis
      using res by (cases "picotm_error_is_set er2") (auto simp: found_or_made_def)
  qed
qed

subsection \<open>The order of the iteration\<close>

text \<open>The pairs of value and key below an entry, in the order of the keys, and their visit.\<close>

fun entry_values :: "nat \<Rightarrow> nat \<Rightarrow> treemap_entry \<Rightarrow> u64 \<Rightarrow> (u64 \<times> u64) list" where
  "entry_values n d Null_entry prefix = []"
| "entry_values n d (Value_entry v) prefix = [(v, prefix)]"
| "entry_values n 0 (Dir_entry es) prefix = []"
| "entry_values n (Suc d) (Dir_entry es) prefix =
     concat (map (\<lambda>i. entry_values n d (es ! i) (push_bit n prefix + of_nat i)) [0..<2 ^ n])"

fun visit_values ::
  "(u64 \<Rightarrow> u64 \<Rightarrow> 'd \<Rightarrow> picotm_error \<Rightarrow> 'd \<times> picotm_error) \<Rightarrow> (u64 \<times> u64) list \<Rightarrow> 'd \<Rightarrow> picotm_error \<Rightarrow>
   'd \<times> picotm_error"
where
  "visit_values value_call [] data error = (data, error)"
| "visit_values value_call ((v, key) # ps) data error =
     (let (data, error) = value_call v key data error in
      if picotm_error_is_set error then (data, error) else visit_values value_call ps data error)"

definition treemap_values :: "picotm_treemap \<Rightarrow> (u64 \<times> u64) list" where
  "treemap_values self = entry_values (tm_level_nbits self) (tm_depth self) (tm_root self) 0"

text \<open>To visit some pairs and then to go on with the rest of the stack.\<close>

definition then_walk ::
  "(u64 \<Rightarrow> u64 \<Rightarrow> 'd \<Rightarrow> picotm_error \<Rightarrow> 'd \<times> picotm_error) \<Rightarrow> (u64 \<times> u64) list \<Rightarrow> dir_stack list \<Rightarrow> nat \<Rightarrow>
   'd \<Rightarrow> picotm_error \<Rightarrow> ('d \<times> picotm_error) option"
where
  "then_walk value_call ps rest n data error =
     (let (data, error) = visit_values value_call ps data error in
      if picotm_error_is_set error then Some (data, error)
      else walk_values rest n value_call data error)"

lemma visit_values_append:
  "\<not> picotm_error_is_set error \<Longrightarrow> visit_values value_call (ps @ qs) data error =
    (let (data, error) = visit_values value_call ps data error in
     if picotm_error_is_set error then (data, error) else visit_values value_call qs data error)"
  by (induction value_call ps data error rule: visit_values.induct) (auto split: prod.splits)

lemma then_walk_append:
  assumes "\<not> picotm_error_is_set error"
    and "\<And>data error. \<not> picotm_error_is_set error \<Longrightarrow>
      walk_values rest1 n value_call data error = then_walk value_call qs rest n data error"
  shows "then_walk value_call ps rest1 n data error = then_walk value_call (ps @ qs) rest n data error"
  using assms(1)
  by (auto simp: then_walk_def visit_values_append assms(2) split: prod.splits)

lemma then_walk_Nil: "\<not> picotm_error_is_set error \<Longrightarrow>
    then_walk value_call [] rest n data error = walk_values rest n value_call data error"
  by (simp add: then_walk_def)

lemma walk_values_skip:
  assumes "i < length es" and "es ! i = Null_entry"
  shows "walk_values (\<lparr>ds_key = p, ds_entry = Dir_entry es, ds_depth = Suc d, ds_i = i\<rparr> # rest) n c data error =
    walk_values (\<lparr>ds_key = p, ds_entry = Dir_entry es, ds_depth = Suc d, ds_i = Suc i\<rparr> # rest) n c data error"
  by (subst (1 2) walk_values.simps) (simp add: Let_def Cons_nth_drop_Suc [OF assms(1), symmetric] assms(2))

lemma walk_values_enter:
  assumes "i < length es" and "es ! i \<noteq> Null_entry" and "length es = 2 ^ n"
  shows "walk_values (\<lparr>ds_key = p, ds_entry = Dir_entry es, ds_depth = Suc d, ds_i = i\<rparr> # rest) n c data error =
    walk_values (\<lparr>ds_key = push_bit n p + of_nat i, ds_entry = es ! i, ds_depth = d, ds_i = 0\<rparr> #
      \<lparr>ds_key = p, ds_entry = Dir_entry es, ds_depth = Suc d, ds_i = Suc i\<rparr> # rest) n c data error"
  using assms
  by (subst walk_values.simps) (simp add: Let_def Cons_nth_drop_Suc [OF assms(1), symmetric] level_nentries_def)

lemma walk_values_leave:
  assumes "length es = 2 ^ n"
  shows "walk_values (\<lparr>ds_key = p, ds_entry = Dir_entry es, ds_depth = Suc d, ds_i = 2 ^ n\<rparr> # rest) n c data error =
    walk_values rest n c data error"
  using assms by (subst walk_values.simps) (simp add: level_nentries_def)

lemma walk_values_entry:
  assumes "entry_ok n d e" and "e \<noteq> Null_entry" and "\<not> picotm_error_is_set error"
  shows "walk_values (\<lparr>ds_key = p, ds_entry = e, ds_depth = d, ds_i = 0\<rparr> # rest) n c data error =
    then_walk c (entry_values n d e p) rest n data error"
  using assms
proof (induction d arbitrary: e p rest data error)
  case 0
  then show ?case
    by (cases e) (auto simp: walk_values.simps then_walk_def split: prod.splits)
next
  case (Suc d)
  then obtain es where e: "e = Dir_entry es" and es: "length es = 2 ^ n" "\<forall>x\<in>set es. entry_ok n d x"
    by (cases e) auto
  let ?vs = "\<lambda>i. entry_values n d (es ! i) (push_bit n p + of_nat i)"
  have "walk_values (\<lparr>ds_key = p, ds_entry = e, ds_depth = Suc d, ds_i = i\<rparr> # rest) n c data error =
      then_walk c (concat (map ?vs [i..<2 ^ n])) rest n data error"
    if "i \<le> 2 ^ n" "\<not> picotm_error_is_set error" for i data error
    using that
  proof (induction "2 ^ n - i" arbitrary: i data error)
    case 0
    then have "i = 2 ^ n" by simp
    then show ?case using 0 by (simp add: e walk_values_leave [OF es(1)] then_walk_Nil)
  next
    case (Suc m)
    then have i: "i < length es" using es(1) by linarith
    then have split: "[i..<2 ^ n] = i # [Suc i..<2 ^ n]" using es(1) by (simp add: upt_conv_Cons)
    have next_i: "walk_values (\<lparr>ds_key = p, ds_entry = e, ds_depth = Suc d, ds_i = Suc i\<rparr> # rest) n c data error =
        then_walk c (concat (map ?vs [Suc i..<2 ^ n])) rest n data error"
      if "\<not> picotm_error_is_set error" for data error
      using Suc.hyps(1) [of "Suc i" error data] Suc.hyps(2) i es(1) that by simp
    show ?case
    proof (cases "es ! i = Null_entry")
      case True
      then show ?thesis
        using next_i [OF Suc.prems(2)] by (simp add: e split True walk_values_skip [OF i True])
    next
      case False
      have "entry_ok n d (es ! i)" using es(2) i by simp
      then have "walk_values (\<lparr>ds_key = p, ds_entry = e, ds_depth = Suc d, ds_i = i\<rparr> # rest) n c data error =
          then_walk c (?vs i) (\<lparr>ds_key = p, ds_entry = e, ds_depth = Suc d, ds_i = Suc i\<rparr> # rest) n data error"
        using False Suc.prems(2) by (simp add: e Suc.IH walk_values_enter [OF i False es(1)])
      also have "\<dots> = then_walk c (?vs i @ concat (map ?vs [Suc i..<2 ^ n])) rest n data error"
        by (rule then_walk_append [OF Suc.prems(2) next_i])
      finally show ?thesis by (simp add: split)
    qed
  qed
  from this [of 0] show ?case using Suc.prems(3) by (simp add: e)
qed

theorem for_each_value_visits:
  assumes "treemap_ok self" and "\<not> picotm_error_is_set error"
  shows "picotm_treemap_for_each_value self value_call data error =
    Some (visit_values value_call (treemap_values self) data error)"
proof -
  have "walk_values [] n c d e = Some (d, e)" for n c and d :: 'a and e
    by (subst walk_values.simps) simp
  then show ?thesis
    using assms by (auto simp: picotm_treemap_for_each_value_def treemap_values_def treemap_ok_def
      walk_values_entry then_walk_def split: prod.splits)
qed

text \<open>The pairs are those of the finite map, and their keys increase.\<close>

lemma child_prefix:
  assumes "unat p < 2 ^ (64 - Suc d * n)" and "Suc d * n < 64" and "i < 2 ^ n"
  shows "unat (push_bit n p + of_nat i :: u64) = unat p * 2 ^ n + i"
    and "unat p * 2 ^ n + i < 2 ^ (64 - d * n)"
proof -
  have "(unat p + 1) * 2 ^ n \<le> 2 ^ (64 - Suc d * n) * 2 ^ n"
    using assms(1) by (intro mult_le_mono1) simp
  also have "\<dots> = 2 ^ (64 - Suc d * n + n)" by (simp add: power_add)
  also have "64 - Suc d * n + n = 64 - d * n" using assms(2) by simp
  finally show bound: "unat p * 2 ^ n + i < 2 ^ (64 - d * n)" using assms(3) by simp
  have "(2 :: nat) ^ (64 - d * n) \<le> 2 ^ 64" by (rule power_increasing) auto
  then have small: "unat p * 2 ^ n + i < 2 ^ 64" using bound by linarith
  have "push_bit n p + of_nat i = (of_nat (unat p * 2 ^ n + i) :: u64)"
    by (simp add: push_bit_eq_mult mult.commute)
  then have "unat (push_bit n p + of_nat i :: u64) = (unat p * 2 ^ n + i) mod 2 ^ 64"
    by (simp only: unat_of_nat) simp
  then show "unat (push_bit n p + of_nat i :: u64) = unat p * 2 ^ n + i"
    using small by simp
qed

lemma child_key:
  assumes "Suc d * n < 64" and "n < 64" and "i < 2 ^ n"
  shows "unat k div 2 ^ (d * n) = q * 2 ^ n + i \<longleftrightarrow>
    unat k div 2 ^ (Suc d * n) = q \<and> entry_index k d n = i"
proof -
  have dn: "d * n < 64" using assms(1) by simp
  let ?x = "unat k div 2 ^ (d * n)"
  have "?x = q * 2 ^ n + i \<longleftrightarrow> ?x div 2 ^ n = q \<and> ?x mod 2 ^ n = i"
  proof
    assume "?x = q * 2 ^ n + i"
    then show "?x div 2 ^ n = q \<and> ?x mod 2 ^ n = i" using assms(3) by simp
  next
    assume x: "?x div 2 ^ n = q \<and> ?x mod 2 ^ n = i"
    have "?x = ?x div 2 ^ n * 2 ^ n + ?x mod 2 ^ n" by (rule div_mult_mod_eq [symmetric])
    with x show "?x = q * 2 ^ n + i" by (simp only:)
  qed
  then show ?thesis by (simp only: entry_index_nat [OF dn assms(2)] div_shift)
qed

lemma entry_values_get:
  assumes "entry_ok n d e" and "unat p < 2 ^ (64 - d * n)" and "d * n < 64" and "n < 64"
  shows "(v, k) \<in> set (entry_values n d e p) \<longleftrightarrow>
    v \<noteq> 0 \<and> unat k div 2 ^ (d * n) = unat p \<and> entry_get n d e k = v"
  using assms
proof (induction d arbitrary: e p)
  case 0
  then show ?case by (cases e) (auto simp: word_unat_eq_iff)
next
  case (Suc d)
  show ?case
  proof (cases e)
    case (Dir_entry es)
    then have es: "length es = 2 ^ n" "\<forall>x\<in>set es. entry_ok n d x" using Suc.prems(1) by auto
    have child: "(v, k) \<in> set (entry_values n d (es ! i) (push_bit n p + of_nat i)) \<longleftrightarrow>
        v \<noteq> 0 \<and> unat k div 2 ^ (Suc d * n) = unat p \<and> entry_index k d n = i \<and> entry_get n d (es ! i) k = v"
      if "i < 2 ^ n" for i
    proof -
      note c = child_prefix [OF Suc.prems(2,3) that]
      have "d * n < 64" using Suc.prems(3) by simp
      moreover have "entry_ok n d (es ! i)" using es that by simp
      ultimately show ?thesis
        using Suc.IH [of "es ! i" "push_bit n p + of_nat i"] Suc.prems(4) c
          child_key [OF Suc.prems(3,4) that, of k "unat p"] by auto
    qed
    have "d * n < 64" using Suc.prems(3) by simp
    from entry_index_bound [OF this Suc.prems(4), of k] child show ?thesis
      by (auto simp: Dir_entry)
  qed (use Suc.prems in auto)
qed

lemma sorted_wrt_concat_blocks:
  assumes "\<And>i. i < m \<Longrightarrow> sorted_wrt R (f i)"
    and "\<And>i j x y. i < j \<Longrightarrow> j < m \<Longrightarrow> x \<in> set (f i) \<Longrightarrow> y \<in> set (f j) \<Longrightarrow> R x y"
  shows "sorted_wrt R (concat (map f [0..<m]))"
  using assms by (induction m) (auto simp: sorted_wrt_append)

lemma entry_values_sorted:
  assumes "entry_ok n d e" and "unat p < 2 ^ (64 - d * n)" and "d * n < 64" and "n < 64"
  shows "sorted_wrt (\<lambda>a b. unat (snd a) < unat (snd b)) (entry_values n d e p)"
  using assms
proof (induction d arbitrary: e p)
  case 0
  then show ?case by (cases e) auto
next
  case (Suc d)
  show ?case
  proof (cases e)
    case (Dir_entry es)
    then have es: "length es = 2 ^ n" "\<forall>x\<in>set es. entry_ok n d x" using Suc.prems(1) by auto
    have dn: "d * n < 64" using Suc.prems(3) by simp
    let ?f = "\<lambda>i. entry_values n d (es ! i) (push_bit n p + of_nat i)"
    have ok: "entry_ok n d (es ! i)" "unat (push_bit n p + of_nat i :: u64) = unat p * 2 ^ n + i"
        "unat (push_bit n p + of_nat i :: u64) < 2 ^ (64 - d * n)" if "i < 2 ^ n" for i
      using child_prefix [OF Suc.prems(2,3) that] es that by auto
    have block: "unat k div 2 ^ (d * n) = unat p * 2 ^ n + i" if "i < 2 ^ n" "(v, k) \<in> set (?f i)" for i v k
      using entry_values_get [OF ok(1,3) [OF that(1)] dn Suc.prems(4)] that ok(2) [OF that(1)] by auto
    have "sorted_wrt (\<lambda>a b. unat (snd a) < unat (snd b)) (concat (map ?f [0..<2 ^ n]))"
    proof (rule sorted_wrt_concat_blocks)
      fix i :: nat assume "i < 2 ^ n"
      then show "sorted_wrt (\<lambda>a b. unat (snd a) < unat (snd b)) (?f i)"
        using Suc.IH ok dn Suc.prems(4) by blast
    next
      fix i j :: nat and x y assume ij: "i < j" "j < 2 ^ n" and xy: "x \<in> set (?f i)" "y \<in> set (?f j)"
      have "unat (snd x) div 2 ^ (d * n) < unat (snd y) div 2 ^ (d * n)"
        using block [of i "fst x" "snd x"] block [of j "fst y" "snd y"] ij xy by simp
      then show "unat (snd x) < unat (snd y)" by (meson div_le_mono not_less)
    qed
    then show ?thesis by (simp add: Dir_entry)
  qed (use Suc.prems in auto)
qed

theorem treemap_values_spec:
  assumes "treemap_ok self"
  shows "(v, k) \<in> set (treemap_values self) \<longleftrightarrow> v \<noteq> 0 \<and> treemap_get self k = v"
    and "sorted_wrt (\<lambda>a b. unat (snd a) < unat (snd b)) (treemap_values self)"
  using assms entry_values_get [of "tm_level_nbits self" "tm_depth self" "tm_root self" 0 v k]
    entry_values_sorted [of "tm_level_nbits self" "tm_depth self" "tm_root self" 0]
  by (auto simp: treemap_values_def treemap_ok_def treemap_get_def tree_get_def div_eq_0_iff)

end
