(* ===== verification/Picotm_Shared_Treemap.thy ===== *)
theory Picotm_Shared_Treemap
  imports Picotm_Treemap
begin

text \<open>
  The treemap that threads share (\<open>src/picotm-lib-shared-treemap.c\<close>).  Its depth is fixed at
  initialization and every entry is an atomic word: 0, the address of a directory, or, at depth 0, a
  value.  A thread that misses an entry creates a directory or a value and installs it with a
  compare-and-swap; the thread that loses the race destroys its own and takes the winner's.

  A call of \<open>picotm_shared_treemap_find_value\<close> is a program counter that moves by one atomic access
  or one call of \<open>malloc\<close> or the creator at a time; the answers of those two are inputs of a step.
  Accesses are sequentially consistent.
\<close>

record picotm_shared_treemap =
  sht_root :: u64
  sht_dirs :: "u64 \<Rightarrow> u64 list option"
  sht_depth :: nat
  sht_level_nbits :: nat

fun tree_depth :: "nat \<Rightarrow> nat \<Rightarrow> nat" where
  "tree_depth key_nbits level_nbits =
     (if key_nbits = 0 \<or> level_nbits = 0 then 0
      else Suc (tree_depth (key_nbits - min key_nbits level_nbits) level_nbits))"

declare tree_depth.simps [simp del]

definition picotm_shared_treemap_init :: "nat \<Rightarrow> nat \<Rightarrow> picotm_shared_treemap" where
  "picotm_shared_treemap_init key_nbits level_nbits =
     \<lparr>sht_root = 0, sht_dirs = Map.empty, sht_depth = tree_depth key_nbits level_nbits,
      sht_level_nbits = level_nbits\<rparr>"

definition shared_entry_index :: "u64 \<Rightarrow> nat \<Rightarrow> nat \<Rightarrow> nat" where
  "shared_entry_index key depth level_nbits =
     unat (shift_right key (depth * level_nbits) AND level_mask level_nbits)"

text \<open>The atomic words, and the operations on them.\<close>

datatype entry_ptr = Root_ptr | Dir_ptr u64 nat

definition load_entry :: "picotm_shared_treemap \<Rightarrow> entry_ptr \<Rightarrow> u64" where
  "load_entry st p =
     (case p of
        Root_ptr \<Rightarrow> sht_root st
      | Dir_ptr a i \<Rightarrow> (case sht_dirs st a of Some es \<Rightarrow> if i < length es then es ! i else 0 | None \<Rightarrow> 0))"

definition store_entry :: "picotm_shared_treemap \<Rightarrow> entry_ptr \<Rightarrow> u64 \<Rightarrow> picotm_shared_treemap" where
  "store_entry st p v =
     (case p of
        Root_ptr \<Rightarrow> st\<lparr>sht_root := v\<rparr>
      | Dir_ptr a i \<Rightarrow>
          (case sht_dirs st a of
             Some es \<Rightarrow> st\<lparr>sht_dirs := (sht_dirs st)(a \<mapsto> es[i := v])\<rparr>
           | None \<Rightarrow> st))"

definition cas_entry ::
  "picotm_shared_treemap \<Rightarrow> entry_ptr \<Rightarrow> u64 \<Rightarrow> u64 \<Rightarrow> bool \<times> picotm_shared_treemap"
where
  "cas_entry st p expected v =
     (if load_entry st p = expected then (True, store_entry st p v) else (False, st))"

subsection \<open>The atomic steps of a lookup\<close>

datatype find_pc =
    Retrieve_dir entry_ptr nat
  | New_dir entry_ptr nat
  | Cas_dir entry_ptr nat u64
  | Reload_dir entry_ptr nat
  | Retrieve_value entry_ptr
  | New_value entry_ptr
  | Cas_value entry_ptr u64
  | Reload_value entry_ptr
  | Find_returns u64
  | Find_fails picotm_error

datatype find_answer = No_answer | Address u64 | Errno int | Value u64 | Create_error picotm_error

text \<open>The head of the loop in \<open>lookup_value_entry\<close>, and its step into a directory.\<close>

definition lookup_loop :: "entry_ptr \<Rightarrow> nat \<Rightarrow> find_pc" where
  "lookup_loop p depth = (if depth = 0 then Retrieve_value p else Retrieve_dir p depth)"

definition enter_dir :: "picotm_shared_treemap \<Rightarrow> u64 \<Rightarrow> nat \<Rightarrow> u64 \<Rightarrow> find_pc" where
  "enter_dir st key depth dir =
     lookup_loop (Dir_ptr dir (shared_entry_index key (depth - 1) (sht_level_nbits st))) (depth - 1)"

definition shared_dir_create :: "picotm_shared_treemap \<Rightarrow> u64 \<Rightarrow> picotm_shared_treemap" where
  "shared_dir_create st a =
     st\<lparr>sht_dirs := (sht_dirs st)(a \<mapsto> replicate (level_nentries (sht_level_nbits st)) 0)\<rparr>"

definition shared_dir_destroy :: "picotm_shared_treemap \<Rightarrow> u64 \<Rightarrow> picotm_shared_treemap" where
  "shared_dir_destroy st a = st\<lparr>sht_dirs := (sht_dirs st)(a := None)\<rparr>"

fun retrieve_dir_step ::
  "picotm_shared_treemap \<Rightarrow> u64 \<Rightarrow> bool \<Rightarrow> find_answer \<Rightarrow> find_pc \<Rightarrow> picotm_shared_treemap \<times> find_pc"
where
  "retrieve_dir_step st key create_dirs answer (Retrieve_dir p depth) =
     (let entry = load_entry st p in
      if entry \<noteq> 0 then (st, enter_dir st key depth entry)
      else if \<not> create_dirs then (st, Find_returns 0)
      else (st, New_dir p depth))"
| "retrieve_dir_step st key create_dirs answer (New_dir p depth) =
     (case answer of
        Address a \<Rightarrow> (shared_dir_create st a, Cas_dir p depth a)
      | Errno err \<Rightarrow> (st, Find_fails (picotm_error_set_errno PICOTM_ERROR_INITIALIZER err))
      | _ \<Rightarrow> (st, New_dir p depth))"
| "retrieve_dir_step st key create_dirs answer (Cas_dir p depth dir) =
     (let (succ, st) = cas_entry st p 0 dir in
      if \<not> succ then (shared_dir_destroy st dir, Reload_dir p depth)
      else (st, enter_dir st key depth dir))"
| "retrieve_dir_step st key create_dirs answer (Reload_dir p depth) =
     (st, enter_dir st key depth (load_entry st p))"
| "retrieve_dir_step st key create_dirs answer pc = (st, pc)"

text \<open>The last component is the value that the step destroys, if any.\<close>

fun retrieve_value_step ::
  "picotm_shared_treemap \<Rightarrow> bool \<Rightarrow> find_answer \<Rightarrow> find_pc \<Rightarrow>
   picotm_shared_treemap \<times> find_pc \<times> u64 list"
where
  "retrieve_value_step st has_create answer (Retrieve_value p) =
     (let entry = load_entry st p in
      if entry \<noteq> 0 then (st, Find_returns entry, [])
      else if \<not> has_create then (st, Find_returns 0, [])
      else (st, New_value p, []))"
| "retrieve_value_step st has_create answer (New_value p) =
     (case answer of
        Value v \<Rightarrow> (st, Cas_value p v, [])
      | Create_error error \<Rightarrow> (st, Find_fails error, [])
      | _ \<Rightarrow> (st, New_value p, []))"
| "retrieve_value_step st has_create answer (Cas_value p v) =
     (let (succ, st) = cas_entry st p 0 v in
      if \<not> succ then (st, Reload_value p, [v]) else (st, Find_returns v, []))"
| "retrieve_value_step st has_create answer (Reload_value p) =
     (st, Find_returns (load_entry st p), [])"
| "retrieve_value_step st has_create answer pc = (st, pc, [])"

fun in_retrieve_dir :: "find_pc \<Rightarrow> bool" where
  "in_retrieve_dir (Retrieve_dir p d) \<longleftrightarrow> True"
| "in_retrieve_dir (New_dir p d) \<longleftrightarrow> True"
| "in_retrieve_dir (Cas_dir p d a) \<longleftrightarrow> True"
| "in_retrieve_dir (Reload_dir p d) \<longleftrightarrow> True"
| "in_retrieve_dir pc \<longleftrightarrow> False"

definition find_value_step ::
  "picotm_shared_treemap \<Rightarrow> u64 \<Rightarrow> bool \<Rightarrow> find_answer \<Rightarrow> find_pc \<Rightarrow>
   picotm_shared_treemap \<times> find_pc \<times> u64 list"
where
  "find_value_step st key has_create answer pc =
     (if in_retrieve_dir pc
      then (let (st, pc) = retrieve_dir_step st key has_create answer pc in (st, pc, []))
      else retrieve_value_step st has_create answer pc)"

definition picotm_shared_treemap_find_value :: "picotm_shared_treemap \<Rightarrow> find_pc" where
  "picotm_shared_treemap_find_value st = lookup_loop Root_ptr (sht_depth st)"

subsection \<open>Threads that share a treemap\<close>

record find_thread =
  ft_key :: u64
  ft_create :: bool
  ft_pc :: find_pc

record find_config =
  fc_tree :: picotm_shared_treemap
  fc_thread :: "nat \<Rightarrow> find_thread"
  fc_created :: "u64 set"
  fc_destroyed :: "u64 list"

text \<open>
  What \<open>malloc\<close> and the creator may answer: an address that is not in use, and a value that is not
  null and has not been created before.
\<close>

definition answer_ok :: "find_config \<Rightarrow> find_answer \<Rightarrow> bool" where
  "answer_ok c answer =
     (case answer of
        Address a \<Rightarrow> a \<noteq> 0 \<and> sht_dirs (fc_tree c) a = None
      | Value v \<Rightarrow> v \<noteq> 0 \<and> v \<notin> fc_created c
      | _ \<Rightarrow> True)"

definition created_by :: "find_answer \<Rightarrow> find_pc \<Rightarrow> u64 set" where
  "created_by answer pc =
     (case (answer, pc) of (Value v, New_value p) \<Rightarrow> {v} | _ \<Rightarrow> {})"

inductive find_step :: "find_config \<Rightarrow> find_config \<Rightarrow> bool" where
  call: "ft_pc (fc_thread c t) = Find_returns v \<or> ft_pc (fc_thread c t) = Find_fails e \<Longrightarrow>
    find_step c (c\<lparr>fc_thread := (fc_thread c)(t :=
      \<lparr>ft_key = key, ft_create = create, ft_pc = picotm_shared_treemap_find_value (fc_tree c)\<rparr>)\<rparr>)"
| step: "answer_ok c answer \<Longrightarrow> fc_thread c t = th \<Longrightarrow>
    find_value_step (fc_tree c) (ft_key th) (ft_create th) answer (ft_pc th) = (st, pc, gone) \<Longrightarrow>
    find_step c (c\<lparr>fc_tree := st, fc_thread := (fc_thread c)(t := th\<lparr>ft_pc := pc\<rparr>),
      fc_created := fc_created c \<union> created_by answer (ft_pc th),
      fc_destroyed := gone @ fc_destroyed c\<rparr>)"

definition find_init :: "nat \<Rightarrow> nat \<Rightarrow> find_config" where
  "find_init key_nbits level_nbits =
     \<lparr>fc_tree = picotm_shared_treemap_init key_nbits level_nbits,
      fc_thread = (\<lambda>t. \<lparr>ft_key = 0, ft_create = False, ft_pc = Find_returns 0\<rparr>),
      fc_created = {}, fc_destroyed = []\<rparr>"

inductive find_reachable :: "nat \<Rightarrow> nat \<Rightarrow> find_config \<Rightarrow> bool" for key_nbits level_nbits where
  init: "find_reachable key_nbits level_nbits (find_init key_nbits level_nbits)"
| next_step: "find_reachable key_nbits level_nbits c \<Longrightarrow> find_step c c' \<Longrightarrow>
    find_reachable key_nbits level_nbits c'"

subsection \<open>Entries and paths\<close>

lemma load_create: "sht_dirs st a = None \<Longrightarrow> load_entry (shared_dir_create st a) p = load_entry st p"
  by (cases p) (auto simp: load_entry_def shared_dir_create_def)

lemma load_destroy:
  "sht_dirs st a = Some (replicate k 0) \<Longrightarrow> load_entry (shared_dir_destroy st a) p = load_entry st p"
  by (cases p) (auto simp: load_entry_def shared_dir_destroy_def)

definition ptr_ok :: "picotm_shared_treemap \<Rightarrow> entry_ptr \<Rightarrow> bool" where
  "ptr_ok st p = (case p of Root_ptr \<Rightarrow> True
     | Dir_ptr a i \<Rightarrow> (case sht_dirs st a of None \<Rightarrow> False | Some es \<Rightarrow> i < length es))"

lemma load_store: "ptr_ok st p \<Longrightarrow> load_entry (store_entry st p v) q = (if q = p then v else load_entry st q)"
  by (cases p; cases q) (auto simp: load_entry_def store_entry_def ptr_ok_def split: option.splits)

lemma store_fields [simp]:
  "sht_depth (store_entry st p v) = sht_depth st"
  "sht_level_nbits (store_entry st p v) = sht_level_nbits st"
  "sht_dirs (store_entry st p v) a = None \<longleftrightarrow> sht_dirs st a = None"
  by (cases p; auto simp: store_entry_def split: option.splits)+

lemma create_destroy_fields [simp]:
  "sht_depth (shared_dir_create st a) = sht_depth st"
  "sht_level_nbits (shared_dir_create st a) = sht_level_nbits st"
  "sht_depth (shared_dir_destroy st a) = sht_depth st"
  "sht_level_nbits (shared_dir_destroy st a) = sht_level_nbits st"
  by (simp_all add: shared_dir_create_def shared_dir_destroy_def)

lemma dirs_create: "sht_dirs (shared_dir_create st a) =
    (sht_dirs st)(a \<mapsto> replicate (level_nentries (sht_level_nbits st)) 0)"
  by (simp add: shared_dir_create_def)

lemma dirs_destroy: "sht_dirs (shared_dir_destroy st a) = (sht_dirs st)(a := None)"
  by (simp add: shared_dir_destroy_def)

lemma dirs_store_other: "(\<And>i. p \<noteq> Dir_ptr a i) \<Longrightarrow> sht_dirs (store_entry st p v) a = sht_dirs st a"
  by (cases p) (auto simp: store_entry_def split: option.splits)

text \<open>The entry that a key reaches from the root in \<open>m\<close> levels.\<close>

fun path :: "picotm_shared_treemap \<Rightarrow> u64 \<Rightarrow> nat \<Rightarrow> entry_ptr option" where
  "path st key 0 = Some Root_ptr"
| "path st key (Suc m) =
     (case path st key m of
        None \<Rightarrow> None
      | Some p \<Rightarrow>
          if load_entry st p = 0 then None
          else Some (Dir_ptr (load_entry st p)
                 (shared_entry_index key (sht_depth st - Suc m) (sht_level_nbits st))))"

definition at_path :: "picotm_shared_treemap \<Rightarrow> u64 \<Rightarrow> entry_ptr \<Rightarrow> nat \<Rightarrow> bool" where
  "at_path st key p d \<longleftrightarrow> d \<le> sht_depth st \<and> path st key (sht_depth st - d) = Some p"

definition shared_get :: "picotm_shared_treemap \<Rightarrow> u64 \<Rightarrow> u64" where
  "shared_get st key =
     (case path st key (sht_depth st) of None \<Rightarrow> 0 | Some p \<Rightarrow> load_entry st p)"

text \<open>Entries are written once: a tree is extended by entries that were 0.\<close>

definition extends :: "picotm_shared_treemap \<Rightarrow> picotm_shared_treemap \<Rightarrow> bool" where
  "extends st st' \<longleftrightarrow> sht_depth st' = sht_depth st \<and> sht_level_nbits st' = sht_level_nbits st \<and>
     (\<forall>p. load_entry st p \<noteq> 0 \<longrightarrow> load_entry st' p = load_entry st p)"

lemma extends_refl [simp]: "extends st st"
  by (simp add: extends_def)

lemma path_extends:
  "extends st st' \<Longrightarrow> path st key m = Some p \<Longrightarrow> path st' key m = Some p"
proof (induction m arbitrary: p)
  case (Suc m)
  then obtain q where q: "path st key m = Some q" "load_entry st q \<noteq> 0"
    by (auto split: option.splits if_splits)
  with Suc.IH [OF Suc.prems(1) q(1)] Suc.prems show ?case by (auto simp: extends_def)
qed simp

lemma at_path_extends: "extends st st' \<Longrightarrow> at_path st key p d \<Longrightarrow> at_path st' key p d"
  using path_extends by (auto simp: at_path_def extends_def)

lemma shared_get_extends:
  assumes "extends st st'" and "shared_get st key \<noteq> 0"
  shows "shared_get st' key = shared_get st key"
proof -
  obtain p where p: "path st key (sht_depth st) = Some p" "load_entry st p \<noteq> 0"
    using assms(2) by (auto simp: shared_get_def split: option.splits)
  from path_extends [OF assms(1) p(1)] p assms(1) show ?thesis
    by (simp add: shared_get_def extends_def)
qed

lemma at_path_root: "at_path st key Root_ptr (sht_depth st)"
  by (simp add: at_path_def)

lemma at_path_enter:
  assumes "at_path st key p d" and "0 < d" and "load_entry st p = a" and "a \<noteq> 0"
  shows "at_path st key (Dir_ptr a (shared_entry_index key (d - 1) (sht_level_nbits st))) (d - 1)"
proof -
  have split: "sht_depth st - (d - 1) = Suc (sht_depth st - d)"
    using assms(1,2) by (auto simp: at_path_def)
  have "sht_depth st - Suc (sht_depth st - d) = d - 1" using assms(1,2) by (auto simp: at_path_def)
  moreover have "d - 1 \<le> sht_depth st" using assms(1) by (auto simp: at_path_def)
  ultimately show ?thesis using assms unfolding at_path_def split by simp
qed

lemma at_path_get: "at_path st key p 0 \<Longrightarrow> shared_get st key = load_entry st p"
  by (simp add: at_path_def shared_get_def)

subsection \<open>The invariant\<close>

text \<open>
  \<open>lev\<close> gives the level of the entries of each directory: those of level 0 hold values, the others
  directories of the level below.
\<close>

definition ptr_level :: "(u64 \<Rightarrow> nat) \<Rightarrow> picotm_shared_treemap \<Rightarrow> entry_ptr \<Rightarrow> nat" where
  "ptr_level lev st p = (case p of Root_ptr \<Rightarrow> sht_depth st | Dir_ptr a i \<Rightarrow> lev a)"

definition tree_ok :: "(u64 \<Rightarrow> nat) \<Rightarrow> picotm_shared_treemap \<Rightarrow> bool" where
  "tree_ok lev st \<longleftrightarrow> sht_level_nbits st < 64 \<and>
     (\<forall>a es. sht_dirs st a = Some es \<longrightarrow> a \<noteq> 0 \<and> length es = level_nentries (sht_level_nbits st)) \<and>
     (\<forall>p. load_entry st p \<noteq> 0 \<longrightarrow> 0 < ptr_level lev st p \<longrightarrow>
        sht_dirs st (load_entry st p) \<noteq> None \<and> ptr_level lev st p = Suc (lev (load_entry st p))) \<and>
     (\<forall>p q. load_entry st p \<noteq> 0 \<longrightarrow> load_entry st p = load_entry st q \<longrightarrow>
        (0 < ptr_level lev st p) = (0 < ptr_level lev st q) \<longrightarrow> p = q)"

text \<open>A pointer on the path of a key is in use, and the directory around it is installed.\<close>

definition installed :: "(u64 \<Rightarrow> nat) \<Rightarrow> picotm_shared_treemap \<Rightarrow> u64 \<Rightarrow> bool" where
  "installed lev st a \<longleftrightarrow> (\<exists>q. 0 < ptr_level lev st q \<and> load_entry st q = a)"

lemma shared_entry_index_bound:
  assumes "n < 64"
  shows "shared_entry_index key d n < level_nentries n"
proof -
  have "unat (take_bit n (shift_right key (d * n))) < 2 ^ n"
    by (simp only: unsigned_take_bit_eq) (rule take_bit_nat_less_exp)
  then show ?thesis
    unfolding shared_entry_index_def level_mask_mask [OF assms] take_bit_eq_mask level_nentries_def .
qed

lemma path_ok:
  assumes "tree_ok lev st" and "path st key m = Some p" and "m \<le> sht_depth st"
  shows "ptr_ok st p \<and> ptr_level lev st p = sht_depth st - m \<and>
    (\<forall>a i. p = Dir_ptr a i \<longrightarrow> installed lev st a)"
  using assms(2,3)
proof (induction m arbitrary: p)
  case 0
  then show ?case by (auto simp: ptr_ok_def ptr_level_def)
next
  case (Suc m)
  then obtain q where q: "path st key m = Some q" "load_entry st q \<noteq> 0" and p: "p = Dir_ptr (load_entry st q)
      (shared_entry_index key (sht_depth st - Suc m) (sht_level_nbits st))"
    by (auto split: option.splits if_splits)
  have IH: "ptr_level lev st q = sht_depth st - m" using Suc.IH [OF q(1)] Suc.prems(2) by simp
  then have pos: "0 < ptr_level lev st q" using Suc.prems(2) by simp
  with assms(1) q(2) have a: "sht_dirs st (load_entry st q) \<noteq> None"
      "ptr_level lev st q = Suc (lev (load_entry st q))"
    by (auto simp: tree_ok_def)
  moreover have "installed lev st (load_entry st q)" using pos by (auto simp: installed_def)
  moreover obtain es where es: "sht_dirs st (load_entry st q) = Some es"
    using a(1) by auto
  then have "length es = level_nentries (sht_level_nbits st)" using assms(1) unfolding tree_ok_def by blast
  moreover have "sht_level_nbits st < 64" using assms(1) unfolding tree_ok_def by blast
  ultimately show ?case
    using IH shared_entry_index_bound [of "sht_level_nbits st" key "sht_depth st - Suc m"] es
    by (simp add: p ptr_ok_def ptr_level_def [of _ _ "Dir_ptr _ _"])
qed

lemma at_path_ok:
  assumes "tree_ok lev st" and "at_path st key p d"
  shows "ptr_ok st p" and "ptr_level lev st p = d" and "p = Dir_ptr a i \<Longrightarrow> installed lev st a"
  using path_ok [OF assms(1), of key "sht_depth st - d" p] assms(2) by (auto simp: at_path_def)

lemma ptr_level_fields:
  "ptr_level lev (store_entry st p v) = ptr_level lev st"
  "ptr_level lev (shared_dir_create st a) = ptr_level lev st"
  "ptr_level lev (shared_dir_destroy st a) = ptr_level lev st"
  by (auto simp: ptr_level_def fun_eq_iff split: entry_ptr.split)

lemma load_not_fresh:
  "sht_dirs st a = None \<Longrightarrow> load_entry st (Dir_ptr a i) = 0"
  by (simp add: load_entry_def)

lemma ptr_level_upd:
  "p \<noteq> Root_ptr \<longrightarrow> (\<forall>i. p \<noteq> Dir_ptr a i) \<Longrightarrow> ptr_level (lev(a := l)) st p = ptr_level lev st p"
  by (cases p) (auto simp: ptr_level_def)

lemma ptr_level_upd_load:
  "sht_dirs st a = None \<Longrightarrow> load_entry st p \<noteq> 0 \<Longrightarrow>
    ptr_level (lev(a := l)) st p = ptr_level lev st p"
  using load_not_fresh [of st a] by (intro ptr_level_upd) auto

lemma tree_okD:
  assumes "tree_ok lev st"
  shows "sht_dirs st a = Some es \<Longrightarrow> a \<noteq> 0 \<and> length es = level_nentries (sht_level_nbits st)"
    and "load_entry st p \<noteq> 0 \<Longrightarrow> 0 < ptr_level lev st p \<Longrightarrow> sht_dirs st (load_entry st p) \<noteq> None"
    and "load_entry st p \<noteq> 0 \<Longrightarrow> 0 < ptr_level lev st p \<Longrightarrow>
      ptr_level lev st p = Suc (lev (load_entry st p))"
    and "load_entry st p \<noteq> 0 \<Longrightarrow> load_entry st p = load_entry st q \<Longrightarrow>
      (0 < ptr_level lev st p) = (0 < ptr_level lev st q) \<Longrightarrow> p = q"
    and "sht_level_nbits st < 64"
proof -
  note inv = assms [unfolded tree_ok_def]
  note dirs = conjunct1 [OF conjunct2 [OF inv]] and down = conjunct1 [OF conjunct2 [OF conjunct2 [OF inv]]]
    and once = conjunct2 [OF conjunct2 [OF conjunct2 [OF inv]]]
  show "sht_dirs st a = Some es \<Longrightarrow> a \<noteq> 0 \<and> length es = level_nentries (sht_level_nbits st)"
    using dirs by blast
  show "load_entry st p \<noteq> 0 \<Longrightarrow> 0 < ptr_level lev st p \<Longrightarrow> sht_dirs st (load_entry st p) \<noteq> None"
    using down by blast
  show "load_entry st p \<noteq> 0 \<Longrightarrow> 0 < ptr_level lev st p \<Longrightarrow>
      ptr_level lev st p = Suc (lev (load_entry st p))"
    using down by blast
  show "load_entry st p \<noteq> 0 \<Longrightarrow> load_entry st p = load_entry st q \<Longrightarrow>
      (0 < ptr_level lev st p) = (0 < ptr_level lev st q) \<Longrightarrow> p = q"
    by (rule once [THEN spec, THEN spec, THEN mp, THEN mp, THEN mp])
  show "sht_level_nbits st < 64" by (rule conjunct1 [OF inv])
qed

lemma tree_ok_create:
  assumes ok: "tree_ok lev st" and "a \<noteq> 0" and fresh: "sht_dirs st a = None"
  shows "tree_ok (lev(a := l)) (shared_dir_create st a)"
proof -
  note lev = ptr_level_upd_load [OF fresh]
  have used: "load_entry st p \<noteq> a" if "load_entry st p \<noteq> 0" "0 < ptr_level lev st p" for p
    using tree_okD(2) [OF ok that] fresh by auto
  have "a' \<noteq> 0 \<and> length es = level_nentries (sht_level_nbits st)"
    if "sht_dirs (shared_dir_create st a) a' = Some es" for a' es
    using that tree_okD(1) [OF ok, of a' es] assms(2)
    by (auto simp: shared_dir_create_def split: if_splits)
  moreover have "sht_dirs (shared_dir_create st a) (load_entry st p) \<noteq> None \<and>
      ptr_level lev st p = Suc ((lev(a := l)) (load_entry st p))"
    if "load_entry st p \<noteq> 0" "0 < ptr_level lev st p" for p
    using tree_okD(2,3) [OF ok that] used [OF that] by (auto simp: shared_dir_create_def)
  moreover have "p = q"
    if "load_entry st p \<noteq> 0" "load_entry st p = load_entry st q"
      "(0 < ptr_level (lev(a := l)) st p) = (0 < ptr_level (lev(a := l)) st q)" for p q
    using tree_okD(4) [OF ok that(1,2)] that lev [of p lev l] lev [of q lev l] by simp
  ultimately show ?thesis
    unfolding tree_ok_def load_create [OF fresh] ptr_level_fields using lev tree_okD(5) [OF ok] by simp
qed

lemma tree_ok_destroy:
  assumes ok: "tree_ok lev st" and zero: "sht_dirs st a = Some (replicate k 0)"
    and "\<not> installed lev st a"
  shows "tree_ok lev (shared_dir_destroy st a)"
proof -
  have "load_entry st p \<noteq> a" if "0 < ptr_level lev st p" for p
    using assms(3) that unfolding installed_def by blast
  moreover have "sht_dirs (shared_dir_destroy st a) a' = (if a' = a then None else sht_dirs st a')" for a'
    by (simp add: shared_dir_destroy_def)
  ultimately show ?thesis
    using ok unfolding tree_ok_def load_destroy [OF zero] ptr_level_fields by simp
qed

lemma tree_ok_store:
  assumes ok: "tree_ok lev st" and p: "ptr_ok st p" "load_entry st p = 0"
    and dir: "0 < ptr_level lev st p \<Longrightarrow> sht_dirs st v \<noteq> None \<and> ptr_level lev st p = Suc (lev v)"
    and new: "\<And>q. (0 < ptr_level lev st q) = (0 < ptr_level lev st p) \<Longrightarrow> load_entry st q \<noteq> v"
  shows "tree_ok lev (store_entry st p v)"
proof -
  have "a' \<noteq> 0 \<and> length es = level_nentries (sht_level_nbits st)"
    if "sht_dirs (store_entry st p v) a' = Some es" for a' es
    using that tree_okD(1) [OF ok] by (auto simp: store_entry_def split: entry_ptr.splits option.splits if_splits)
  moreover have "sht_dirs st (load_entry (store_entry st p v) q) \<noteq> None \<and>
      ptr_level lev st q = Suc (lev (load_entry (store_entry st p v) q))"
    if "load_entry (store_entry st p v) q \<noteq> 0" "0 < ptr_level lev st q" for q
    using that dir tree_okD(2,3) [OF ok, of q] by (auto simp: load_store [OF p(1)])
  moreover have "q = r"
    if "load_entry (store_entry st p v) q \<noteq> 0"
      "load_entry (store_entry st p v) q = load_entry (store_entry st p v) r"
      "(0 < ptr_level lev st q) = (0 < ptr_level lev st r)" for q r
    using that new [of q] new [of r] tree_okD(4) [OF ok, of q r]
    by (auto simp: load_store [OF p(1)] split: if_splits)
  ultimately show ?thesis
    unfolding tree_ok_def ptr_level_fields store_fields using tree_okD(5) [OF ok] by simp
qed

lemma extends_create: "sht_dirs st a = None \<Longrightarrow> extends st (shared_dir_create st a)"
  by (simp add: extends_def load_create)

lemma extends_destroy: "sht_dirs st a = Some (replicate k 0) \<Longrightarrow> extends st (shared_dir_destroy st a)"
  by (simp add: extends_def load_destroy)

lemma extends_store: "ptr_ok st p \<Longrightarrow> load_entry st p = 0 \<Longrightarrow> extends st (store_entry st p v)"
  by (auto simp: extends_def load_store)

subsection \<open>The threads\<close>

fun pc_at :: "find_pc \<Rightarrow> (entry_ptr \<times> nat) option" where
  "pc_at (Retrieve_dir p d) = Some (p, d)"
| "pc_at (New_dir p d) = Some (p, d)"
| "pc_at (Cas_dir p d a) = Some (p, d)"
| "pc_at (Reload_dir p d) = Some (p, d)"
| "pc_at (Retrieve_value p) = Some (p, 0)"
| "pc_at (New_value p) = Some (p, 0)"
| "pc_at (Cas_value p v) = Some (p, 0)"
| "pc_at (Reload_value p) = Some (p, 0)"
| "pc_at (Find_returns v) = None"
| "pc_at (Find_fails e) = None"

text \<open>The directory or the value that a thread has created and not yet installed or destroyed.\<close>

fun held_dir :: "find_pc \<Rightarrow> (u64 \<times> nat) option" where
  "held_dir (Cas_dir p d a) = Some (a, d - 1)"
| "held_dir pc = None"

fun held_value :: "find_pc \<Rightarrow> u64 option" where
  "held_value (Cas_value p v) = Some v"
| "held_value pc = None"

fun reloads :: "find_pc \<Rightarrow> entry_ptr option" where
  "reloads (Reload_dir p d) = Some p"
| "reloads (Reload_value p) = Some p"
| "reloads pc = None"

fun creates :: "find_pc \<Rightarrow> bool" where
  "creates (New_dir p d) \<longleftrightarrow> True"
| "creates (New_value p) \<longleftrightarrow> True"
| "creates pc \<longleftrightarrow> False"

definition pc_ok :: "(u64 \<Rightarrow> nat) \<Rightarrow> picotm_shared_treemap \<Rightarrow> find_thread \<Rightarrow> bool" where
  "pc_ok lev st th \<longleftrightarrow>
     (\<forall>p d. pc_at (ft_pc th) = Some (p, d) \<longrightarrow> at_path st (ft_key th) p d \<and>
        (in_retrieve_dir (ft_pc th) \<longrightarrow> 0 < d)) \<and>
     (\<forall>a l. held_dir (ft_pc th) = Some (a, l) \<longrightarrow> lev a = l \<and> \<not> installed lev st a \<and>
        sht_dirs st a = Some (replicate (level_nentries (sht_level_nbits st)) 0)) \<and>
     (\<forall>v. held_value (ft_pc th) = Some v \<longrightarrow> v \<noteq> 0 \<and>
        (\<forall>q. ptr_level lev st q = 0 \<longrightarrow> load_entry st q \<noteq> v)) \<and>
     (\<forall>p. reloads (ft_pc th) = Some p \<longrightarrow> load_entry st p \<noteq> 0) \<and>
     (\<forall>v. ft_pc th = Find_returns v \<longrightarrow>
        (v \<noteq> 0 \<longrightarrow> shared_get st (ft_key th) = v) \<and> (ft_create th \<longrightarrow> v \<noteq> 0)) \<and>
     (creates (ft_pc th) \<longrightarrow> ft_create th)"

lemma pc_okD:
  assumes "pc_ok lev st th"
  shows "pc_at (ft_pc th) = Some (p, d) \<Longrightarrow> at_path st (ft_key th) p d"
    and "pc_at (ft_pc th) = Some (p, d) \<Longrightarrow> in_retrieve_dir (ft_pc th) \<Longrightarrow> 0 < d"
    and "held_dir (ft_pc th) = Some (a, l) \<Longrightarrow> lev a = l"
    and "held_dir (ft_pc th) = Some (a, l) \<Longrightarrow> \<not> installed lev st a"
    and "held_dir (ft_pc th) = Some (a, l) \<Longrightarrow>
      sht_dirs st a = Some (replicate (level_nentries (sht_level_nbits st)) 0)"
    and "held_value (ft_pc th) = Some v \<Longrightarrow> v \<noteq> 0"
    and "held_value (ft_pc th) = Some v \<Longrightarrow> ptr_level lev st q = 0 \<Longrightarrow> load_entry st q \<noteq> v"
    and "reloads (ft_pc th) = Some p \<Longrightarrow> load_entry st p \<noteq> 0"
    and "ft_pc th = Find_returns v \<Longrightarrow> v \<noteq> 0 \<Longrightarrow> shared_get st (ft_key th) = v"
    and "ft_pc th = Find_returns v \<Longrightarrow> ft_create th \<Longrightarrow> v \<noteq> 0"
    and "creates (ft_pc th) \<Longrightarrow> ft_create th"
  using assms unfolding pc_ok_def by simp_all

lemma pc_okI:
  assumes "\<And>p d. pc_at (ft_pc th) = Some (p, d) \<Longrightarrow>
      at_path st (ft_key th) p d \<and> (in_retrieve_dir (ft_pc th) \<longrightarrow> 0 < d)"
    and "\<And>a l. held_dir (ft_pc th) = Some (a, l) \<Longrightarrow> lev a = l \<and> \<not> installed lev st a \<and>
        sht_dirs st a = Some (replicate (level_nentries (sht_level_nbits st)) 0)"
    and "\<And>v. held_value (ft_pc th) = Some v \<Longrightarrow> v \<noteq> 0 \<and>
        (\<forall>q. ptr_level lev st q = 0 \<longrightarrow> load_entry st q \<noteq> v)"
    and "\<And>p. reloads (ft_pc th) = Some p \<Longrightarrow> load_entry st p \<noteq> 0"
    and "\<And>v. ft_pc th = Find_returns v \<Longrightarrow>
      (v \<noteq> 0 \<longrightarrow> shared_get st (ft_key th) = v) \<and> (ft_create th \<longrightarrow> v \<noteq> 0)"
    and "creates (ft_pc th) \<Longrightarrow> ft_create th"
  shows "pc_ok lev st th"
  unfolding pc_ok_def using assms by simp

lemma pc_ok_other:
  assumes ok: "pc_ok lev st th" and ext: "extends st st'"
    and dir: "\<And>a l. held_dir (ft_pc th) = Some (a, l) \<Longrightarrow>
      lev' a = lev a \<and> (installed lev' st' a \<longrightarrow> installed lev st a) \<and> sht_dirs st' a = sht_dirs st a"
    and val: "\<And>v q. held_value (ft_pc th) = Some v \<Longrightarrow> ptr_level lev' st' q = 0 \<Longrightarrow> load_entry st' q = v \<Longrightarrow>
      v = 0 \<or> (ptr_level lev st q = 0 \<and> load_entry st q = v)"
  shows "pc_ok lev' st' th"
proof (rule pc_okI)
  fix p d assume "pc_at (ft_pc th) = Some (p, d)"
  then show "at_path st' (ft_key th) p d \<and> (in_retrieve_dir (ft_pc th) \<longrightarrow> 0 < d)"
    using pc_okD(1,2) [OF ok] at_path_extends [OF ext] by simp
next
  fix a l assume h: "held_dir (ft_pc th) = Some (a, l)"
  have "sht_level_nbits st' = sht_level_nbits st" using ext by (simp add: extends_def)
  then show "lev' a = l \<and> \<not> installed lev' st' a \<and>
      sht_dirs st' a = Some (replicate (level_nentries (sht_level_nbits st')) 0)"
    using pc_okD(3-5) [OF ok h] dir [OF h] by simp
next
  fix v assume h: "held_value (ft_pc th) = Some v"
  then show "v \<noteq> 0 \<and> (\<forall>q. ptr_level lev' st' q = 0 \<longrightarrow> load_entry st' q \<noteq> v)"
    using pc_okD(6,7) [OF ok h] val [OF h] by blast
next
  fix p assume "reloads (ft_pc th) = Some p"
  then show "load_entry st' p \<noteq> 0" using pc_okD(8) [OF ok] ext by (simp add: extends_def)
next
  fix v assume h: "ft_pc th = Find_returns v"
  show "(v \<noteq> 0 \<longrightarrow> shared_get st' (ft_key th) = v) \<and> (ft_create th \<longrightarrow> v \<noteq> 0)"
    using pc_okD(9,10) [OF ok h] shared_get_extends [OF ext] by auto
next
  assume "creates (ft_pc th)"
  then show "ft_create th" by (rule pc_okD(11) [OF ok])
qed

definition exclusive :: "(nat \<Rightarrow> find_thread) \<Rightarrow> bool" where
  "exclusive ths \<longleftrightarrow> (\<forall>t t'. t \<noteq> t' \<longrightarrow>
     (\<forall>a l l'. held_dir (ft_pc (ths t)) = Some (a, l) \<longrightarrow> held_dir (ft_pc (ths t')) \<noteq> Some (a, l')) \<and>
     (\<forall>v. held_value (ft_pc (ths t)) = Some v \<longrightarrow> held_value (ft_pc (ths t')) \<noteq> Some v))"

text \<open>The values in the tree and in the hands of threads are the created ones less the destroyed ones.\<close>

definition cell_values :: "(u64 \<Rightarrow> nat) \<Rightarrow> picotm_shared_treemap \<Rightarrow> u64 set" where
  "cell_values lev st = {v. v \<noteq> 0 \<and> (\<exists>p. ptr_level lev st p = 0 \<and> load_entry st p = v)}"

definition held_values :: "(nat \<Rightarrow> find_thread) \<Rightarrow> u64 set" where
  "held_values ths = {v. \<exists>t. held_value (ft_pc (ths t)) = Some v}"

definition values_ok ::
  "(u64 \<Rightarrow> nat) \<Rightarrow> picotm_shared_treemap \<Rightarrow> (nat \<Rightarrow> find_thread) \<Rightarrow> u64 set \<Rightarrow> u64 list \<Rightarrow> bool"
where
  "values_ok lev st ths created destroyed \<longleftrightarrow>
     distinct destroyed \<and> set destroyed \<subseteq> created \<and>
     cell_values lev st \<union> held_values ths = created - set destroyed"

lemma held_value_Some: "held_value pc = Some v \<longleftrightarrow> (\<exists>p. pc = Cas_value p v)"
  by (cases pc) auto

lemma held_values_keep:
  "held_value (ft_pc (ths t)) = None \<Longrightarrow> held_value (ft_pc th) = None \<Longrightarrow>
    held_values (ths(t := th)) = held_values ths"
  unfolding held_values_def by (metis (no_types, lifting) fun_upd_apply option.distinct(1))

lemma held_values_take:
  "held_value (ft_pc (ths t)) = None \<Longrightarrow> held_value (ft_pc th) = Some v \<Longrightarrow>
    held_values (ths(t := th)) = insert v (held_values ths)"
  unfolding held_values_def by auto (metis option.distinct(1))

lemma held_values_give:
  "held_value (ft_pc (ths t)) = Some v \<Longrightarrow> held_value (ft_pc th) = None \<Longrightarrow> exclusive ths \<Longrightarrow>
    held_values (ths(t := th)) = held_values ths - {v}"
proof -
  assume t: "held_value (ft_pc (ths t)) = Some v" "held_value (ft_pc th) = None" and "exclusive ths"
  then have other: "held_value (ft_pc (ths t')) \<noteq> Some v" if "t' \<noteq> t" for t'
    using that unfolding exclusive_def by blast
  have "(\<exists>t'. held_value (ft_pc ((ths(t := th)) t')) = Some x) \<longleftrightarrow>
      x \<noteq> v \<and> (\<exists>t'. held_value (ft_pc (ths t')) = Some x)" for x
    using t other by (metis fun_upd_apply option.distinct(1) option.inject)
  then show ?thesis unfolding held_values_def by blast
qed

lemma cell_values_load:
  assumes "\<And>q. load_entry st' q = load_entry st q"
    and "\<And>q. load_entry st q \<noteq> 0 \<Longrightarrow> ptr_level lev' st' q = ptr_level lev st q"
  shows "cell_values lev' st' = cell_values lev st"
  unfolding cell_values_def using assms by metis

lemma values_okD:
  assumes "values_ok lev st ths created destroyed"
  shows "distinct destroyed" and "set destroyed \<subseteq> created"
    and "cell_values lev st \<union> held_values ths = created - set destroyed"
  using assms by (simp_all add: values_ok_def)

definition find_inv :: "(u64 \<Rightarrow> nat) \<Rightarrow> find_config \<Rightarrow> bool" where
  "find_inv lev c \<longleftrightarrow> tree_ok lev (fc_tree c) \<and> (\<forall>t. pc_ok lev (fc_tree c) (fc_thread c t)) \<and>
     exclusive (fc_thread c) \<and>
     values_ok lev (fc_tree c) (fc_thread c) (fc_created c) (fc_destroyed c)"

lemma find_invD:
  assumes "find_inv lev c"
  shows "tree_ok lev (fc_tree c)" and "pc_ok lev (fc_tree c) (fc_thread c t)"
    and "exclusive (fc_thread c)"
    and "values_ok lev (fc_tree c) (fc_thread c) (fc_created c) (fc_destroyed c)"
  using assms by (simp_all add: find_inv_def)

definition set_pc :: "find_config \<Rightarrow> nat \<Rightarrow> picotm_shared_treemap \<Rightarrow> find_pc \<Rightarrow> find_config" where
  "set_pc c t st pc = c\<lparr>fc_tree := st, fc_thread := (fc_thread c)(t := (fc_thread c t)\<lparr>ft_pc := pc\<rparr>)\<rparr>"

text \<open>A step that leaves the tree alone, by a thread that holds nothing before and after.\<close>

lemma inv_quiet:
  assumes inv: "find_inv lev c" and "held_dir (ft_pc (fc_thread c t)) = None"
    and "held_value (ft_pc (fc_thread c t)) = None"
    and "held_dir (ft_pc th) = None" and "held_value (ft_pc th) = None"
    and "pc_ok lev (fc_tree c) th"
  shows "find_inv lev (c\<lparr>fc_thread := (fc_thread c)(t := th)\<rparr>)"
proof -
  have "exclusive ((fc_thread c)(t := th))"
    using find_invD(3) [OF inv] assms(4,5) by (auto simp: exclusive_def)
  moreover have "values_ok lev (fc_tree c) ((fc_thread c)(t := th)) (fc_created c) (fc_destroyed c)"
    using find_invD(4) [OF inv] held_values_keep [of "fc_thread c" t th] assms(3,5)
    by (simp add: values_ok_def)
  ultimately show ?thesis
    using find_invD(1,2) [OF inv] assms(6) by (simp add: find_inv_def)
qed

text \<open>What the thread of a step knows after it.\<close>

lemma pc_ok_lookup: "at_path st (ft_key th) p d \<Longrightarrow> pc_ok lev st (th\<lparr>ft_pc := lookup_loop p d\<rparr>)"
  by (rule pc_okI) (auto simp: lookup_loop_def split: if_splits)

lemma pc_ok_enter:
  assumes "at_path st (ft_key th) p d" and "0 < d" and "load_entry st p = a" and "a \<noteq> 0"
  shows "pc_ok lev st (th\<lparr>ft_pc := enter_dir st (ft_key th) d a\<rparr>)"
  unfolding enter_dir_def by (rule pc_ok_lookup) (rule at_path_enter [OF assms])

lemma pc_ok_returns:
  assumes "v \<noteq> 0 \<Longrightarrow> shared_get st (ft_key th) = v" and "ft_create th \<Longrightarrow> v \<noteq> 0"
  shows "pc_ok lev st (th\<lparr>ft_pc := Find_returns v\<rparr>)"
  by (rule pc_okI) (use assms in auto)

lemma held_none [simp]:
  "held_dir (lookup_loop p d) = None" "held_value (lookup_loop p d) = None"
  "held_dir (enter_dir st key d a) = None" "held_value (enter_dir st key d a) = None"
  by (simp_all add: lookup_loop_def enter_dir_def)

subsection \<open>Steps keep the invariant\<close>

lemma installed_eq:
  assumes "a \<noteq> 0" and "\<And>q. load_entry st' q = load_entry st q"
    and "\<And>q. load_entry st q \<noteq> 0 \<Longrightarrow> ptr_level lev' st' q = ptr_level lev st q"
  shows "installed lev' st' a \<longleftrightarrow> installed lev st a"
  using assms unfolding installed_def by metis

lemma inv_new_dir:
  assumes inv: "find_inv lev c" and pc: "ft_pc (fc_thread c t) = New_dir p d"
    and a: "a \<noteq> 0" "sht_dirs (fc_tree c) a = None"
  shows "find_inv (lev(a := d - 1)) (set_pc c t (shared_dir_create (fc_tree c) a) (Cas_dir p d a))"
proof -
  define st where "st = fc_tree c"
  define ths where "ths = fc_thread c"
  let ?st = "shared_dir_create st a" and ?lev = "lev(a := d - 1)"
  let ?th = "(ths t)\<lparr>ft_pc := Cas_dir p d a\<rparr>"
  note tree = find_invD(1) [OF inv, folded st_def] and ok = find_invD(2) [OF inv, folded st_def ths_def]
  note fresh = a(2) [folded st_def] and pc = pc [folded ths_def]
  have level: "ptr_level ?lev ?st q = ptr_level lev st q" if "load_entry st q \<noteq> 0" for q
    using ptr_level_upd_load [OF fresh that] by (simp only: ptr_level_fields)
  have inst: "installed ?lev ?st x \<longleftrightarrow> installed lev st x" if "x \<noteq> 0" for x
    by (rule installed_eq [OF that load_create [OF fresh] level])
  have free: "\<not> installed lev st a"
    using tree_okD(2) [OF tree] fresh a(1) unfolding installed_def by blast
  have other_dir: "x \<noteq> a \<and> x \<noteq> 0" if "held_dir (ft_pc (ths t')) = Some (x, l)" for t' x l
    using pc_okD(5) [OF ok that] tree_okD(1) [OF tree] fresh by auto
  have "pc_ok ?lev ?st (ths t')" for t'
  proof (rule pc_ok_other [OF ok extends_create [OF fresh]])
    fix x l assume "held_dir (ft_pc (ths t')) = Some (x, l)"
    from other_dir [OF this] show "?lev x = lev x \<and> (installed ?lev ?st x \<longrightarrow> installed lev st x) \<and>
        sht_dirs ?st x = sht_dirs st x"
      using inst [of x] by (simp add: dirs_create)
  next
    fix v q assume "ptr_level ?lev ?st q = 0" "load_entry ?st q = v"
    then show "v = 0 \<or> (ptr_level lev st q = 0 \<and> load_entry st q = v)"
      by (cases "load_entry st q = 0") (use level [of q] in \<open>auto simp: load_create [OF fresh]\<close>)
  qed
  moreover have "pc_ok ?lev ?st ?th"
  proof (rule pc_okI)
    fix q e assume "pc_at (ft_pc ?th) = Some (q, e)"
    then have "q = p" "e = d" by simp_all
    with pc_okD(1,2) [OF ok, of t p d] pc show "at_path ?st (ft_key ?th) q e \<and> (in_retrieve_dir (ft_pc ?th) \<longrightarrow> 0 < e)"
      by (simp add: at_path_extends [OF extends_create [OF fresh]])
  qed (use a free inst in \<open>auto simp: dirs_create\<close>)
  moreover have "exclusive (ths(t := ?th))"
    using find_invD(3) [OF inv, folded ths_def] other_dir [of _ a] by (auto simp: exclusive_def)
  moreover have "values_ok ?lev ?st (ths(t := ?th)) (fc_created c) (fc_destroyed c)"
    using find_invD(4) [OF inv, folded st_def ths_def] held_values_keep [of ths t ?th] pc
      cell_values_load [OF load_create [OF fresh] level] by (simp add: values_ok_def)
  ultimately show ?thesis
    using tree_ok_create [OF tree a(1) fresh]
    by (simp add: find_inv_def set_pc_def st_def ths_def)
qed

lemma inv_lost_dir:
  assumes inv: "find_inv lev c" and pc: "ft_pc (fc_thread c t) = Cas_dir p d a"
    and taken: "load_entry (fc_tree c) p \<noteq> 0"
  shows "find_inv lev (set_pc c t (shared_dir_destroy (fc_tree c) a) (Reload_dir p d))"
proof -
  define st where "st = fc_tree c"
  define ths where "ths = fc_thread c"
  let ?st = "shared_dir_destroy st a"
  let ?th = "(ths t)\<lparr>ft_pc := Reload_dir p d\<rparr>"
  note tree = find_invD(1) [OF inv, folded st_def] and ok = find_invD(2) [OF inv, folded st_def ths_def]
    and excl = find_invD(3) [OF inv, folded ths_def] and pc = pc [folded ths_def]
  have hold: "held_dir (ft_pc (ths t)) = Some (a, d - 1)" by (simp add: pc)
  note zero = pc_okD(5) [OF ok hold] and load = load_destroy [OF pc_okD(5) [OF ok hold]]
  have inst: "installed lev ?st x \<longleftrightarrow> installed lev st x" for x
    unfolding installed_def load ptr_level_fields ..
  have "pc_ok lev ?st (ths t')" if "t' \<noteq> t" for t'
  proof (rule pc_ok_other [OF ok extends_destroy [OF zero]])
    fix x l assume "held_dir (ft_pc (ths t')) = Some (x, l)"
    moreover from this have "x \<noteq> a" using excl that hold unfolding exclusive_def by blast
    ultimately show "lev x = lev x \<and> (installed lev ?st x \<longrightarrow> installed lev st x) \<and>
        sht_dirs ?st x = sht_dirs st x"
      by (simp add: inst dirs_destroy)
  qed (simp add: load ptr_level_fields)
  moreover have "pc_ok lev ?st ?th"
  proof (rule pc_okI)
    fix q e assume "pc_at (ft_pc ?th) = Some (q, e)"
    then have "q = p" "e = d" by simp_all
    with pc_okD(1,2) [OF ok, of t p d] pc show "at_path ?st (ft_key ?th) q e \<and> (in_retrieve_dir (ft_pc ?th) \<longrightarrow> 0 < e)"
      by (simp add: at_path_extends [OF extends_destroy [OF zero]])
  qed (use taken [folded st_def] in \<open>auto simp: load\<close>)
  moreover have "exclusive (ths(t := ?th))" using excl by (auto simp: exclusive_def)
  moreover have "values_ok lev ?st (ths(t := ?th)) (fc_created c) (fc_destroyed c)"
    using find_invD(4) [OF inv, folded st_def ths_def] held_values_keep [of ths t ?th] pc
      cell_values_load [of ?st st lev lev] by (simp add: values_ok_def load ptr_level_fields)
  ultimately show ?thesis
    using tree_ok_destroy [OF tree zero pc_okD(4) [OF ok hold]]
    by (simp add: find_inv_def set_pc_def st_def ths_def)
qed

lemma inv_won_dir:
  assumes inv: "find_inv lev c" and pc: "ft_pc (fc_thread c t) = Cas_dir p d a"
    and free: "load_entry (fc_tree c) p = 0"
  shows "find_inv lev (set_pc c t (store_entry (fc_tree c) p a)
    (enter_dir (store_entry (fc_tree c) p a) (ft_key (fc_thread c t)) d a))"
proof -
  define st where "st = fc_tree c"
  define ths where "ths = fc_thread c"
  let ?st = "store_entry st p a"
  let ?th = "(ths t)\<lparr>ft_pc := enter_dir ?st (ft_key (ths t)) d a\<rparr>"
  note tree = find_invD(1) [OF inv, folded st_def] and ok = find_invD(2) [OF inv, folded st_def ths_def]
    and excl = find_invD(3) [OF inv, folded ths_def] and pc = pc [folded ths_def]
  have hold: "held_dir (ft_pc (ths t)) = Some (a, d - 1)" by (simp add: pc)
  have at: "at_path st (ft_key (ths t)) p d" "0 < d" using pc_okD(1,2) [OF ok, of t p d] pc by simp_all
  note p = at_path_ok(1,2) [OF tree at(1)] and load = load_store [OF at_path_ok(1) [OF tree at(1)]]
  have a: "a \<noteq> 0" "sht_dirs st a \<noteq> None"
    using pc_okD(5) [OF ok hold] tree_okD(1) [OF tree] by auto
  note ext = extends_store [OF p(1) free [folded st_def]]
  have "pc_ok lev ?st (ths t')" if "t' \<noteq> t" for t'
  proof (rule pc_ok_other [OF ok ext])
    fix x l assume h: "held_dir (ft_pc (ths t')) = Some (x, l)"
    have "x \<noteq> a" using excl that hold h unfolding exclusive_def by blast
    moreover have "p \<noteq> Dir_ptr x i" for i
      using at_path_ok(3) [OF tree at(1), of x i] pc_okD(4) [OF ok h] by blast
    ultimately show "lev x = lev x \<and> (installed lev ?st x \<longrightarrow> installed lev st x) \<and>
        sht_dirs ?st x = sht_dirs st x"
      by (auto simp: installed_def ptr_level_fields load dirs_store_other)
  next
    fix v q assume "ptr_level lev ?st q = 0" "load_entry ?st q = v"
    then show "v = 0 \<or> (ptr_level lev st q = 0 \<and> load_entry st q = v)"
      using p(2) at(2) by (auto simp: ptr_level_fields load split: if_splits)
  qed
  moreover have "pc_ok lev ?st ?th"
    by (rule pc_ok_enter [OF at_path_extends [OF ext at(1)] at(2) _ a(1)]) (simp add: load)
  moreover have "exclusive (ths(t := ?th))" using excl by (auto simp: exclusive_def)
  moreover have "values_ok lev ?st (ths(t := ?th)) (fc_created c) (fc_destroyed c)"
  proof -
    have "cell_values lev ?st = cell_values lev st"
      unfolding cell_values_def ptr_level_fields load using p(2) at(2) by (metis less_not_refl)
    then show ?thesis
      using find_invD(4) [OF inv, folded st_def ths_def] held_values_keep [of ths t ?th] pc
      by (simp add: values_ok_def)
  qed
  moreover have "tree_ok lev ?st"
  proof (rule tree_ok_store [OF tree p(1) free [folded st_def]])
    show "sht_dirs st a \<noteq> None \<and> ptr_level lev st p = Suc (lev a)"
      using a(2) pc_okD(3) [OF ok hold] p(2) at(2) by simp
    show "load_entry st q \<noteq> a" if "(0 < ptr_level lev st q) = (0 < ptr_level lev st p)" for q
    proof -
      have "0 < ptr_level lev st q" using that p(2) at(2) by simp
      then show ?thesis using pc_okD(4) [OF ok hold] unfolding installed_def by blast
    qed
  qed
  ultimately show ?thesis by (simp add: find_inv_def set_pc_def st_def ths_def)
qed

lemma inv_new_value:
  assumes inv: "find_inv lev c" and pc: "ft_pc (fc_thread c t) = New_value p"
    and v: "v \<noteq> 0" "v \<notin> fc_created c"
  shows "find_inv lev ((set_pc c t (fc_tree c) (Cas_value p v))\<lparr>fc_created := insert v (fc_created c)\<rparr>)"
proof -
  define st where "st = fc_tree c"
  define ths where "ths = fc_thread c"
  let ?th = "(ths t)\<lparr>ft_pc := Cas_value p v\<rparr>"
  note ok = find_invD(2) [OF inv, folded st_def ths_def] and excl = find_invD(3) [OF inv, folded ths_def]
    and vals = find_invD(4) [OF inv, folded st_def ths_def] and pc = pc [folded ths_def]
  have new: "load_entry st q \<noteq> v" if "ptr_level lev st q = 0" for q
    using values_okD(3) [OF vals] v that by (auto simp: cell_values_def)
  have held: "held_value (ft_pc (ths t')) \<noteq> Some v" for t'
    using values_okD(3) [OF vals] v by (auto simp: held_values_def)
  have "pc_ok lev st ?th"
    using pc_okD(1) [OF ok, of t p 0] pc v new by (intro pc_okI) auto
  moreover have "exclusive (ths(t := ?th))"
    using excl held by (auto simp: exclusive_def)
  moreover have "values_ok lev st (ths(t := ?th)) (insert v (fc_created c)) (fc_destroyed c)"
    using vals v held_values_take [of ths t ?th v] pc by (auto simp: values_ok_def)
  ultimately show ?thesis
    using find_invD(1) [OF inv] ok by (simp add: find_inv_def set_pc_def st_def ths_def)
qed

lemma inv_lost_value:
  assumes inv: "find_inv lev c" and pc: "ft_pc (fc_thread c t) = Cas_value p v"
    and taken: "load_entry (fc_tree c) p \<noteq> 0"
  shows "find_inv lev ((set_pc c t (fc_tree c) (Reload_value p))\<lparr>fc_destroyed := v # fc_destroyed c\<rparr>)"
proof -
  define st where "st = fc_tree c"
  define ths where "ths = fc_thread c"
  let ?th = "(ths t)\<lparr>ft_pc := Reload_value p\<rparr>"
  note ok = find_invD(2) [OF inv, folded st_def ths_def] and excl = find_invD(3) [OF inv, folded ths_def]
    and vals = find_invD(4) [OF inv, folded st_def ths_def] and pc = pc [folded ths_def]
  have hold: "held_value (ft_pc (ths t)) = Some v" by (simp add: pc)
  have "pc_ok lev st ?th"
    using pc_okD(1) [OF ok, of t p 0] pc taken [folded st_def] by (intro pc_okI) auto
  moreover have "exclusive (ths(t := ?th))" using excl by (auto simp: exclusive_def)
  moreover have "values_ok lev st (ths(t := ?th)) (fc_created c) (v # fc_destroyed c)"
  proof -
    have "v \<in> held_values ths" using hold by (auto simp: held_values_def)
    moreover have "v \<notin> cell_values lev st" using pc_okD(7) [OF ok hold] by (auto simp: cell_values_def)
    ultimately show ?thesis using vals held_values_give [OF hold _ excl, of ?th]
      by (auto simp: values_ok_def)
  qed
  ultimately show ?thesis
    using find_invD(1) [OF inv] ok by (simp add: find_inv_def set_pc_def st_def ths_def)
qed

lemma inv_won_value:
  assumes inv: "find_inv lev c" and pc: "ft_pc (fc_thread c t) = Cas_value p v"
    and free: "load_entry (fc_tree c) p = 0"
  shows "find_inv lev (set_pc c t (store_entry (fc_tree c) p v) (Find_returns v))"
proof -
  define st where "st = fc_tree c"
  define ths where "ths = fc_thread c"
  let ?st = "store_entry st p v"
  let ?th = "(ths t)\<lparr>ft_pc := Find_returns v\<rparr>"
  note tree = find_invD(1) [OF inv, folded st_def] and ok = find_invD(2) [OF inv, folded st_def ths_def]
    and excl = find_invD(3) [OF inv, folded ths_def] and pc = pc [folded ths_def]
    and vals = find_invD(4) [OF inv, folded st_def ths_def]
  have hold: "held_value (ft_pc (ths t)) = Some v" by (simp add: pc)
  have at: "at_path st (ft_key (ths t)) p 0" using pc_okD(1) [OF ok, of t p 0] pc by simp
  note p = at_path_ok(1,2) [OF tree at] and load = load_store [OF at_path_ok(1) [OF tree at]]
  note ext = extends_store [OF p(1) free [folded st_def]] and v = pc_okD(6,7) [OF ok hold]
  have "pc_ok lev ?st (ths t')" if "t' \<noteq> t" for t'
  proof (rule pc_ok_other [OF ok ext])
    fix x l assume h: "held_dir (ft_pc (ths t')) = Some (x, l)"
    have "p \<noteq> Dir_ptr x i" for i
      using at_path_ok(3) [OF tree at, of x i] pc_okD(4) [OF ok h] by blast
    then show "lev x = lev x \<and> (installed lev ?st x \<longrightarrow> installed lev st x) \<and>
        sht_dirs ?st x = sht_dirs st x"
      using p(2) by (auto simp: installed_def ptr_level_fields load dirs_store_other split: if_splits)
  next
    fix w q assume h: "held_value (ft_pc (ths t')) = Some w"
      and q: "ptr_level lev ?st q = 0" "load_entry ?st q = w"
    have "w \<noteq> v" using excl that hold h unfolding exclusive_def by blast
    with q show "w = 0 \<or> (ptr_level lev st q = 0 \<and> load_entry st q = w)"
      by (auto simp: ptr_level_fields load split: if_splits)
  qed
  moreover have "pc_ok lev ?st ?th"
    using at_path_get [OF at_path_extends [OF ext at]] v(1)
    by (intro pc_ok_returns) (simp_all add: load)
  moreover have "exclusive (ths(t := ?th))" using excl by (auto simp: exclusive_def)
  moreover have "values_ok lev ?st (ths(t := ?th)) (fc_created c) (fc_destroyed c)"
  proof -
    have "v \<in> held_values ths" using hold by (auto simp: held_values_def)
    moreover have "cell_values lev ?st = insert v (cell_values lev st)"
      using p(2) v(1) free [folded st_def]
      by (auto simp: cell_values_def ptr_level_fields load split: if_splits)
    ultimately show ?thesis using vals held_values_give [OF hold _ excl, of ?th]
      by (auto simp: values_ok_def)
  qed
  moreover have "tree_ok lev ?st"
    by (rule tree_ok_store [OF tree p(1) free [folded st_def]]) (use p(2) v(2) in auto)
  ultimately show ?thesis by (simp add: find_inv_def set_pc_def st_def ths_def)
qed

lemma set_pc_same:
  "set_pc c t (fc_tree c) pc = c\<lparr>fc_thread := (fc_thread c)(t := (fc_thread c t)\<lparr>ft_pc := pc\<rparr>)\<rparr>"
  by (simp add: set_pc_def)

lemma set_pc_id [simp]: "pc = ft_pc (fc_thread c t) \<Longrightarrow> set_pc c t (fc_tree c) pc = c"
  by (simp add: set_pc_def)

lemma inv_move:
  assumes "find_inv lev c" and "held_dir (ft_pc (fc_thread c t)) = None"
    and "held_value (ft_pc (fc_thread c t)) = None"
    and "held_dir pc = None" and "held_value pc = None"
    and "pc_ok lev (fc_tree c) ((fc_thread c t)\<lparr>ft_pc := pc\<rparr>)"
  shows "find_inv lev (set_pc c t (fc_tree c) pc)"
  unfolding set_pc_same by (rule inv_quiet [OF assms(1-3)]) (use assms(4-6) in simp_all)

text \<open>A step of a call, as an update of the configuration.\<close>

definition after_step ::
  "find_config \<Rightarrow> nat \<Rightarrow> find_answer \<Rightarrow> picotm_shared_treemap \<Rightarrow> find_pc \<Rightarrow> u64 list \<Rightarrow> find_config"
where
  "after_step c t answer st pc gone =
     (set_pc c t st pc)\<lparr>fc_created := fc_created c \<union> created_by answer (ft_pc (fc_thread c t)),
        fc_destroyed := gone @ fc_destroyed c\<rparr>"

lemma created_by_cas [simp]: "created_by answer (Cas_value p v) = {}"
  by (cases answer) (simp_all add: created_by_def)

lemma after_step_plain:
  assumes "created_by answer (ft_pc (fc_thread c t)) = {}"
  shows "after_step c t answer st pc [] = set_pc c t st pc"
  using assms by (simp add: after_step_def set_pc_def)

lemma dir_step_inv:
  assumes inv: "find_inv lev c" and ans: "answer_ok c answer"
    and pc: "in_retrieve_dir (ft_pc (fc_thread c t))"
    and step: "retrieve_dir_step (fc_tree c) (ft_key (fc_thread c t)) (ft_create (fc_thread c t)) answer
      (ft_pc (fc_thread c t)) = (st, pc')"
  shows "\<exists>lev. find_inv lev (set_pc c t st pc')"
proof -
  note ok = find_invD(2) [OF inv, of t]
  have at: "at_path (fc_tree c) (ft_key (fc_thread c t)) p d" "0 < d"
    if "pc_at (ft_pc (fc_thread c t)) = Some (p, d)" for p d
    using pc_okD(1,2) [OF ok that] pc by simp_all
  note move = inv_move [OF inv, of t pc']
  show ?thesis
  proof (cases "ft_pc (fc_thread c t)")
    case (Retrieve_dir p d)
    note at = at [of p d, unfolded Retrieve_dir, simplified]
    show ?thesis
    proof (cases "load_entry (fc_tree c) p = 0")
      case True
      have "pc_ok lev (fc_tree c) ((fc_thread c t)\<lparr>ft_pc := New_dir p d\<rparr>)"
        if "ft_create (fc_thread c t)" using at that by (intro pc_okI) auto
      with True step Retrieve_dir move show ?thesis
        by (cases "ft_create (fc_thread c t)") (force intro: pc_ok_returns)+
    next
      case False
      with step Retrieve_dir move pc_ok_enter [OF at _ False] show ?thesis by auto
    qed
  next
    case (New_dir p d)
    note at = at [of p d, unfolded New_dir, simplified]
    have stays: "st = fc_tree c" "pc' = ft_pc (fc_thread c t)"
      if "answer = No_answer \<or> answer = Value v \<or> answer = Create_error e" for v e
      using step New_dir that by auto
    have fails: "pc_ok lev (fc_tree c) ((fc_thread c t)\<lparr>ft_pc := Find_fails e\<rparr>)" for e
      by (rule pc_okI) simp_all
    show ?thesis
    proof (cases answer)
      case (Address a)
      then have "a \<noteq> 0" "sht_dirs (fc_tree c) a = None" using ans by (auto simp: answer_ok_def)
      from inv_new_dir [OF inv New_dir this] step New_dir Address show ?thesis by auto
    next
      case (Errno e)
      with step New_dir have "st = fc_tree c" "pc' = Find_fails (picotm_error_set_errno PICOTM_ERROR_INITIALIZER e)"
        by simp_all
      then show ?thesis using move fails by (auto simp: New_dir)
    qed (use inv in \<open>auto simp: stays\<close>)
  next
    case (Cas_dir p d a)
    then show ?thesis
      using step inv_lost_dir [OF inv Cas_dir] inv_won_dir [OF inv Cas_dir]
      by (cases "load_entry (fc_tree c) p = 0") (auto simp: cas_entry_def)
  next
    case (Reload_dir p d)
    note at = at [of p d, unfolded Reload_dir, simplified]
    have "load_entry (fc_tree c) p \<noteq> 0" using pc_okD(8) [OF ok] Reload_dir by simp
    from pc_ok_enter [OF at _ this] step Reload_dir move show ?thesis by auto
  qed (use pc in auto)
qed

lemma value_step_inv:
  assumes inv: "find_inv lev c" and ans: "answer_ok c answer"
    and pc: "\<not> in_retrieve_dir (ft_pc (fc_thread c t))"
    and step: "retrieve_value_step (fc_tree c) (ft_create (fc_thread c t)) answer
      (ft_pc (fc_thread c t)) = (st, pc', gone)"
  shows "find_inv lev (after_step c t answer st pc' gone)"
proof -
  note ok = find_invD(2) [OF inv, of t]
  note move = inv_move [OF inv, of t pc']
  have none: "created_by answer (ft_pc (fc_thread c t)) = {}" if "\<forall>p. ft_pc (fc_thread c t) \<noteq> New_value p"
    using that by (auto simp: created_by_def split: find_answer.splits find_pc.splits)
  have at: "shared_get (fc_tree c) (ft_key (fc_thread c t)) = load_entry (fc_tree c) p"
    if "pc_at (ft_pc (fc_thread c t)) = Some (p, 0)" for p
    by (rule at_path_get [OF pc_okD(1) [OF ok that]])
  have keep: "pc_ok lev (fc_tree c) ((fc_thread c t)\<lparr>ft_pc := ft_pc (fc_thread c t)\<rparr>)"
    using ok by simp
  show ?thesis
  proof (cases "ft_pc (fc_thread c t)")
    case (Retrieve_value p)
    have "pc_ok lev (fc_tree c) ((fc_thread c t)\<lparr>ft_pc := New_value p\<rparr>)"
      if "ft_create (fc_thread c t)" using pc_okD(1) [OF ok] Retrieve_value that by (intro pc_okI) auto
    moreover have "pc_ok lev (fc_tree c) ((fc_thread c t)\<lparr>ft_pc := Find_returns v\<rparr>)"
      if "v \<noteq> 0 \<longrightarrow> v = load_entry (fc_tree c) p" "ft_create (fc_thread c t) \<longrightarrow> v \<noteq> 0" for v
      using at [of p] Retrieve_value that by (intro pc_ok_returns) simp_all
    ultimately have "pc_ok lev (fc_tree c) ((fc_thread c t)\<lparr>ft_pc := pc'\<rparr>) \<and> st = fc_tree c \<and> gone = []
        \<and> held_dir pc' = None \<and> held_value pc' = None"
      using step Retrieve_value by (auto simp: Let_def split: if_splits)
    then show ?thesis using move none Retrieve_value by (auto simp: after_step_plain)
  next
    case (New_value p)
    show ?thesis
    proof (cases answer)
      case (Value v)
      then have v: "v \<noteq> 0" "v \<notin> fc_created c" using ans by (auto simp: answer_ok_def)
      from inv_new_value [OF inv New_value v] step New_value Value show ?thesis
        by (auto simp: after_step_def created_by_def set_pc_def)
    next
      case (Create_error e)
      have "pc_ok lev (fc_tree c) ((fc_thread c t)\<lparr>ft_pc := Find_fails e\<rparr>)" by (rule pc_okI) simp_all
      with Create_error step New_value move show ?thesis by (auto simp: after_step_def created_by_def set_pc_def)
    qed (use step New_value inv in \<open>auto simp: after_step_def created_by_def set_pc_def\<close>)
  next
    case (Cas_value p v)
    then show ?thesis
      using step inv_lost_value [OF inv Cas_value] inv_won_value [OF inv Cas_value]
      by (cases "load_entry (fc_tree c) p = 0")
        (auto simp: cas_entry_def after_step_def none set_pc_def)
  next
    case (Reload_value p)
    have "load_entry (fc_tree c) p \<noteq> 0" using pc_okD(8) [OF ok] Reload_value by simp
    then have "pc_ok lev (fc_tree c) ((fc_thread c t)\<lparr>ft_pc := Find_returns (load_entry (fc_tree c) p)\<rparr>)"
      using at [of p] Reload_value by (intro pc_ok_returns) simp_all
    then show ?thesis using step move none Reload_value by (auto simp: after_step_plain)
  next
    case (Find_returns v)
    then have "st = fc_tree c" "pc' = ft_pc (fc_thread c t)" "gone = []" using step by auto
    then show ?thesis using inv none by (simp add: after_step_def Find_returns)
  next
    case (Find_fails e)
    then have "st = fc_tree c" "pc' = ft_pc (fc_thread c t)" "gone = []" using step by auto
    then show ?thesis using inv none by (simp add: after_step_def Find_fails)
  qed (use pc in simp_all)
qed

lemma created_by_dir: "in_retrieve_dir pc \<Longrightarrow> created_by answer pc = {}"
  by (cases pc; cases answer) (simp_all add: created_by_def)

lemma find_step_inv:
  assumes "find_step c c'" and "find_inv lev c"
  shows "\<exists>lev. find_inv lev c'"
  using assms
proof cases
  case (call t v e key create)
  let ?th = "\<lparr>ft_key = key, ft_create = create, ft_pc = picotm_shared_treemap_find_value (fc_tree c)\<rparr>"
  have "pc_ok lev (fc_tree c) ?th"
    using pc_ok_lookup [of "fc_tree c" ?th Root_ptr "sht_depth (fc_tree c)" lev]
    by (simp add: picotm_shared_treemap_find_value_def at_path_root)
  then have "find_inv lev c'"
    unfolding call(1) using call(2)
    by (intro inv_quiet [OF assms(2)]) (auto simp: picotm_shared_treemap_find_value_def)
  then show ?thesis by (rule exI [of _ lev])
next
  case (step answer t th st pc gone)
  have c': "c' = after_step c t answer st pc gone"
    using step(1,3) by (simp add: after_step_def set_pc_def)
  show ?thesis
  proof (cases "in_retrieve_dir (ft_pc (fc_thread c t))")
    case True
    obtain st' pc' where go: "retrieve_dir_step (fc_tree c) (ft_key (fc_thread c t)) (ft_create (fc_thread c t))
        answer (ft_pc (fc_thread c t)) = (st', pc')" by force
    with step(3,4) True have "st = st'" "pc = pc'" "gone = []" by (simp_all add: find_value_step_def)
    with dir_step_inv [OF assms(2) step(2) True go] show ?thesis
      by (simp add: c' after_step_plain created_by_dir [OF True])
  next
    case False
    with step(3,4) have "retrieve_value_step (fc_tree c) (ft_create (fc_thread c t)) answer
        (ft_pc (fc_thread c t)) = (st, pc, gone)" by (simp add: find_value_step_def)
    from value_step_inv [OF assms(2) step(2) False this] show ?thesis unfolding c' by (rule exI [of _ lev])
  qed
qed

lemma find_init_inv:
  assumes "level_nbits < 64"
  shows "find_inv (\<lambda>_. 0) (find_init key_nbits level_nbits)"
proof -
  let ?st = "picotm_shared_treemap_init key_nbits level_nbits"
  have load: "load_entry ?st p = 0" for p
    by (cases p) (auto simp: load_entry_def picotm_shared_treemap_init_def)
  have "tree_ok (\<lambda>_. 0) ?st"
    using assms by (simp add: tree_ok_def load) (simp add: picotm_shared_treemap_init_def)
  moreover have "pc_ok (\<lambda>_. 0) ?st \<lparr>ft_key = 0, ft_create = False, ft_pc = Find_returns 0\<rparr>"
    by (rule pc_okI) simp_all
  ultimately show ?thesis
    by (simp add: find_inv_def find_init_def exclusive_def values_ok_def cell_values_def
      held_values_def load)
qed

theorem find_reachable_inv:
  "find_reachable key_nbits level_nbits c \<Longrightarrow> level_nbits < 64 \<Longrightarrow> \<exists>lev. find_inv lev c"
proof (induction rule: find_reachable.induct)
  case init
  then show ?case using find_init_inv by blast
next
  case (next_step c c')
  then show ?case using find_step_inv by blast
qed

lemma find_step_extends:
  assumes "find_step c c'" and "find_inv lev c"
  shows "extends (fc_tree c) (fc_tree c')"
  using assms
proof cases
  case (step answer t th st pc gone)
  note tree = find_invD(1) [OF assms(2)] and ok = find_invD(2) [OF assms(2), of t]
  have store: "extends (fc_tree c) (store_entry (fc_tree c) p v)"
    if "pc_at (ft_pc (fc_thread c t)) = Some (p, d)" "load_entry (fc_tree c) p = 0" for p d v
    by (rule extends_store [OF at_path_ok(1) [OF tree pc_okD(1) [OF ok that(1)]] that(2)])
  have "extends (fc_tree c) st"
  proof (cases "ft_pc (fc_thread c t)")
    case (New_dir p d)
    then show ?thesis using step(2-4) extends_create [of "fc_tree c"]
      by (cases answer) (auto simp: find_value_step_def answer_ok_def)
  next
    case (Cas_dir p d a)
    then show ?thesis
      using step(3,4) store [of p d a] extends_destroy [OF pc_okD(5) [OF ok, of a "d - 1"]]
      by (auto simp: find_value_step_def cas_entry_def split: if_splits)
  next
    case (New_value p)
    then show ?thesis using step(3,4)
      by (cases answer) (auto simp: find_value_step_def)
  next
    case (Cas_value p v)
    then show ?thesis using step(3,4) store [of p 0 v]
      by (auto simp: find_value_step_def cas_entry_def split: if_splits)
  qed (use step(3,4) in \<open>auto simp: find_value_step_def Let_def split: if_splits\<close>)
  then show ?thesis by (simp add: step(1))
qed simp

text \<open>
  Entries at the end of different paths differ, so that different keys have different values.
\<close>

lemma path_injective:
  assumes "tree_ok lev st" and "path st k m = Some p" and "path st k' m = Some p" and "m \<le> sht_depth st"
  shows "\<forall>j. sht_depth st - m \<le> j \<longrightarrow> j < sht_depth st \<longrightarrow>
    shared_entry_index k j (sht_level_nbits st) = shared_entry_index k' j (sht_level_nbits st)"
  using assms(2-4)
proof (induction m arbitrary: p)
  case (Suc m)
  obtain q where q: "path st k m = Some q" "load_entry st q \<noteq> 0" "p = Dir_ptr (load_entry st q)
      (shared_entry_index k (sht_depth st - Suc m) (sht_level_nbits st))"
    using Suc.prems(1) by (auto split: option.splits if_splits)
  obtain q' where q': "path st k' m = Some q'" "load_entry st q' \<noteq> 0" "p = Dir_ptr (load_entry st q')
      (shared_entry_index k' (sht_depth st - Suc m) (sht_level_nbits st))"
    using Suc.prems(2) by (auto split: option.splits if_splits)
  have "ptr_level lev st q = sht_depth st - m" "ptr_level lev st q' = sht_depth st - m"
    using path_ok [OF assms(1) q(1)] path_ok [OF assms(1) q'(1)] Suc.prems(3) by simp_all
  moreover have "load_entry st q = load_entry st q'" using q(3) q'(3) by simp
  ultimately have "q = q'" using tree_okD(4) [OF assms(1) q(2), of q'] by simp
  with Suc.IH [OF q(1)] q' Suc.prems(3) have
    "\<forall>j. sht_depth st - m \<le> j \<longrightarrow> j < sht_depth st \<longrightarrow>
      shared_entry_index k j (sht_level_nbits st) = shared_entry_index k' j (sht_level_nbits st)" by simp
  moreover have "shared_entry_index k (sht_depth st - Suc m) (sht_level_nbits st) =
      shared_entry_index k' (sht_depth st - Suc m) (sht_level_nbits st)"
    using q(3) q'(3) by simp
  ultimately show ?case by (metis Suc_diff_Suc Suc_le_lessD Suc.prems(3) Suc_leI le_neq_implies_less)
qed simp

lemma shared_get_injective:
  assumes "tree_ok lev st" and "shared_get st k = shared_get st k'" and "shared_get st k \<noteq> 0"
    and "sht_depth st * sht_level_nbits st < 64"
    and "unat k < 2 ^ (sht_depth st * sht_level_nbits st)"
    and "unat k' < 2 ^ (sht_depth st * sht_level_nbits st)"
  shows "k = k'"
proof -
  obtain p p' where p: "path st k (sht_depth st) = Some p" "load_entry st p = shared_get st k"
      "path st k' (sht_depth st) = Some p'" "load_entry st p' = shared_get st k'"
    using assms(2,3) by (auto simp: shared_get_def split: option.splits)
  have "ptr_level lev st p = 0" "ptr_level lev st p' = 0"
    using path_ok [OF assms(1) p(1)] path_ok [OF assms(1) p(3)] by simp_all
  then have "p = p'" using tree_okD(4) [OF assms(1), of p p'] p assms(2,3) by simp
  with path_injective [OF assms(1) p(1)] p(3)
  have "same_path (sht_level_nbits st) (sht_depth st) k k'"
    by (simp add: same_path_def entry_index_def key_depth_prefix_def shared_entry_index_def)
  then show ?thesis
    by (rule same_path_eq [OF _ assms(5,6,4) tree_okD(5) [OF assms(1)]])
qed

lemma shared_get_cell:
  "tree_ok lev st \<Longrightarrow> shared_get st key \<noteq> 0 \<Longrightarrow> shared_get st key \<in> cell_values lev st"
  using path_ok [of lev st key "sht_depth st"]
  by (auto simp: shared_get_def cell_values_def split: option.splits)

subsection \<open>Runs of a scheduler\<close>

text \<open>Steps as functions: a thread starts a call, or moves with an answer of its environment.\<close>

definition start_find :: "nat \<Rightarrow> u64 \<Rightarrow> bool \<Rightarrow> find_config \<Rightarrow> find_config" where
  "start_find t key create c = c\<lparr>fc_thread := (fc_thread c)(t :=
     \<lparr>ft_key = key, ft_create = create, ft_pc = picotm_shared_treemap_find_value (fc_tree c)\<rparr>)\<rparr>"

definition move_find :: "nat \<Rightarrow> find_answer \<Rightarrow> find_config \<Rightarrow> find_config" where
  "move_find t answer c =
     (case find_value_step (fc_tree c) (ft_key (fc_thread c t)) (ft_create (fc_thread c t)) answer
             (ft_pc (fc_thread c t)) of
        (st, pc, gone) \<Rightarrow> after_step c t answer st pc gone)"

lemma start_find_reachable:
  "find_reachable kb lb c \<Longrightarrow> ft_pc (fc_thread c t) = Find_returns v \<Longrightarrow>
    find_reachable kb lb (start_find t key create c)"
  unfolding start_find_def by (erule find_reachable.next_step) (auto intro: find_step.call)

lemma move_find_reachable:
  assumes "find_reachable kb lb c" and "answer_ok c answer"
  shows "find_reachable kb lb (move_find t answer c)"
proof -
  obtain st pc gone where go: "find_value_step (fc_tree c) (ft_key (fc_thread c t))
      (ft_create (fc_thread c t)) answer (ft_pc (fc_thread c t)) = (st, pc, gone)"
    by (metis prod_cases3)
  have "find_step c (after_step c t answer st pc gone)"
    using find_step.step [OF assms(2) refl go] by (simp add: after_step_def set_pc_def)
  then show ?thesis using assms(1) go by (auto simp: move_find_def intro: find_reachable.next_step)
qed

fun find_run :: "(nat \<times> find_answer) list \<Rightarrow> find_config \<Rightarrow> find_config" where
  "find_run [] c = c"
| "find_run ((t, answer) # as) c = find_run as (move_find t answer c)"

fun answers_ok :: "(nat \<times> find_answer) list \<Rightarrow> find_config \<Rightarrow> bool" where
  "answers_ok [] c \<longleftrightarrow> True"
| "answers_ok ((t, answer) # as) c \<longleftrightarrow> answer_ok c answer \<and> answers_ok as (move_find t answer c)"

lemma find_run_reachable:
  "find_reachable kb lb c \<Longrightarrow> answers_ok as c \<Longrightarrow> find_reachable kb lb (find_run as c)"
  by (induction as c rule: find_run.induct) (simp_all add: move_find_reachable)

end
