(* ===== verification/Tm_Frame.thy ===== *)
theory Tm_Frame
  imports Picotm_Rwstate
begin

text \<open>
  Blocks, frames and the frame map of the transactional-memory module
  (\<open>modules/tm/src/block.h\<close>, \<open>frame.h\<close>, \<open>frame.c\<close>, \<open>framemap.c\<close>, \<open>vmem.c\<close>).  Main memory consists of
  blocks of 8 bytes; a frame holds the reader/writer lock of one block; the frames live in tables of
  1024, which a shared treemap creates on demand.

  The environment of the module is main memory, the tables in the treemap, and what the allocations
  answer: \<open>te_find n\<close> is the error of the \<open>n\<close>-th creation of a table, if it fails, and \<open>te_page n\<close> the
  contents of the \<open>n\<close>-th page that \<open>malloc\<close> returns, if any.
\<close>

definition TM_BLOCK_SIZE_BITS :: nat where "TM_BLOCK_SIZE_BITS = 3"

definition TM_BLOCK_SIZE :: nat where "TM_BLOCK_SIZE = 2 ^ TM_BLOCK_SIZE_BITS"

definition TM_BLOCK_OFFSET_MASK :: u64 where "TM_BLOCK_OFFSET_MASK = push_bit TM_BLOCK_SIZE 1 - 1"

definition tm_block_index_at :: "u64 \<Rightarrow> u64" where
  "tm_block_index_at addr = addr div of_nat TM_BLOCK_SIZE"

definition tm_block_offset_at :: "u64 \<Rightarrow> u64" where
  "tm_block_offset_at addr = addr AND TM_BLOCK_OFFSET_MASK"

subsection \<open>Frames\<close>

record tm_frame =
  fr_rwlock :: u8
  fr_flags :: u64

definition tm_frame_init :: "u64 \<Rightarrow> tm_frame" where
  "tm_frame_init block_index =
     \<lparr>fr_rwlock = picotm_rwlock_init, fr_flags = push_bit TM_BLOCK_SIZE_BITS block_index\<rparr>"

definition tm_frame_block_index :: "tm_frame \<Rightarrow> u64" where
  "tm_frame_block_index frame = drop_bit TM_BLOCK_SIZE_BITS (fr_flags frame)"

definition tm_frame_address :: "tm_frame \<Rightarrow> u64" where
  "tm_frame_address frame = tm_frame_block_index frame * of_nat TM_BLOCK_SIZE"

definition tm_frame_buffer :: "tm_frame \<Rightarrow> u64" where
  "tm_frame_buffer frame = tm_frame_address frame"

definition tm_frame_flags :: "tm_frame \<Rightarrow> u64" where
  "tm_frame_flags frame = fr_flags frame AND (of_nat TM_BLOCK_SIZE - 1)"

definition tm_frame_try_rdlock ::
  "lock_wait \<Rightarrow> lock_wait \<Rightarrow> pointer \<Rightarrow> tm_frame \<Rightarrow> picotm_rwstate \<Rightarrow> picotm_error \<Rightarrow>
   (tm_frame \<times> picotm_rwstate \<times> picotm_error) option"
where
  "tm_frame_try_rdlock wait sleep self frame rwstate error =
     (case picotm_rwstate_try_rdlock wait sleep self rwstate (fr_rwlock frame) error of
        None \<Rightarrow> None
      | Some (rwstate, lock, error) \<Rightarrow> Some (frame\<lparr>fr_rwlock := lock\<rparr>, rwstate, error))"

definition tm_frame_try_wrlock ::
  "lock_wait \<Rightarrow> lock_wait \<Rightarrow> pointer \<Rightarrow> tm_frame \<Rightarrow> picotm_rwstate \<Rightarrow> picotm_error \<Rightarrow>
   (tm_frame \<times> picotm_rwstate \<times> picotm_error) option"
where
  "tm_frame_try_wrlock wait sleep self frame rwstate error =
     (case picotm_rwstate_try_wrlock wait sleep self rwstate (fr_rwlock frame) error of
        None \<Rightarrow> None
      | Some (rwstate, lock, error) \<Rightarrow> Some (frame\<lparr>fr_rwlock := lock\<rparr>, rwstate, error))"

definition tm_frame_unlock :: "tm_frame \<Rightarrow> picotm_rwstate \<Rightarrow> tm_frame \<times> picotm_rwstate" where
  "tm_frame_unlock frame rwstate =
     (case picotm_rwstate_unlock rwstate (fr_rwlock frame) of
        (wakes, rwstate, lock) \<Rightarrow> (frame\<lparr>fr_rwlock := lock\<rparr>, rwstate))"

subsection \<open>The frame map\<close>

definition TM_FRAME_TBL_SIZE_BITS :: nat where "TM_FRAME_TBL_SIZE_BITS = 10"

definition TM_FRAME_TBL_SIZE :: nat where "TM_FRAME_TBL_SIZE = 2 ^ TM_FRAME_TBL_SIZE_BITS"

definition TM_FRAME_TBL_SIZE_MASK :: u64 where
  "TM_FRAME_TBL_SIZE_MASK = of_nat TM_FRAME_TBL_SIZE - 1"

definition tm_frame_tbl_init :: "u64 \<Rightarrow> tm_frame list" where
  "tm_frame_tbl_init first_block_index =
     map (\<lambda>i. tm_frame_init (first_block_index + of_nat i)) [0..<TM_FRAME_TBL_SIZE]"

definition frame_tbl_offset :: "u64 \<Rightarrow> u64" where
  "frame_tbl_offset addr = drop_bit (TM_FRAME_TBL_SIZE_BITS + TM_BLOCK_SIZE_BITS) addr"

definition frame_tbl_index :: "u64 \<Rightarrow> nat" where
  "frame_tbl_index addr = unat (drop_bit TM_BLOCK_SIZE_BITS addr AND TM_FRAME_TBL_SIZE_MASK)"

text \<open>
  A page is a transaction's copy of a block (\<open>page.h\<close>): its flags hold the index of the block, its
  buffer is valid in the bytes that \<open>buf_bits\<close> marks.
\<close>

record tm_page =
  pg_flags :: u64
  pg_rwstate :: picotm_rwstate
  pg_buf :: "u8 list"
  pg_buf_bits :: u8

record tm_env =
  te_mem :: "u64 \<Rightarrow> u8"
  te_tbl :: "u64 \<Rightarrow> tm_frame list option"
  te_find :: "nat \<Rightarrow> picotm_error option"
  te_page :: "nat \<Rightarrow> tm_page option"
  te_n :: nat

definition tm_frame_tbl_create ::
  "u64 \<Rightarrow> tm_env \<Rightarrow> picotm_error \<Rightarrow> tm_frame list option \<times> tm_env \<times> picotm_error"
where
  "tm_frame_tbl_create key env error =
     (let env' = env\<lparr>te_n := te_n env + 1\<rparr> in
      case te_find env (te_n env) of
        Some e \<Rightarrow> (None, env', e)
      | None \<Rightarrow> (Some (tm_frame_tbl_init (push_bit TM_FRAME_TBL_SIZE_BITS key)), env', error))"

text \<open>A frame pointer is the key of its table and its position there.\<close>

type_synonym frame_ptr = "u64 \<times> nat"

definition tm_frame_map_lookup ::
  "u64 \<Rightarrow> tm_env \<Rightarrow> picotm_error \<Rightarrow> frame_ptr option \<times> tm_env \<times> picotm_error"
where
  "tm_frame_map_lookup addr env error =
     (case te_tbl env (frame_tbl_offset addr) of
        Some tbl \<Rightarrow> (Some (frame_tbl_offset addr, frame_tbl_index addr), env, error)
      | None \<Rightarrow>
          (case tm_frame_tbl_create (frame_tbl_offset addr) env error of
             (None, env, error) \<Rightarrow> (None, env, error)
           | (Some tbl, env, error) \<Rightarrow>
               (Some (frame_tbl_offset addr, frame_tbl_index addr),
                env\<lparr>te_tbl := (te_tbl env)(frame_tbl_offset addr \<mapsto> tbl)\<rparr>, error)))"

definition tm_vmem_acquire_frame_by_address where
  "tm_vmem_acquire_frame_by_address addr env error = tm_frame_map_lookup addr env error"

definition tm_vmem_acquire_frame_by_block ::
  "u64 \<Rightarrow> tm_env \<Rightarrow> picotm_error \<Rightarrow> frame_ptr option \<times> tm_env \<times> picotm_error"
where
  "tm_vmem_acquire_frame_by_block block_index env error =
     tm_vmem_acquire_frame_by_address (push_bit TM_BLOCK_SIZE_BITS block_index) env error"

definition get_frame :: "tm_env \<Rightarrow> frame_ptr \<Rightarrow> tm_frame" where
  "get_frame env p = (case te_tbl env (fst p) of Some tbl \<Rightarrow> tbl ! snd p | None \<Rightarrow> tm_frame_init 0)"

definition put_frame :: "frame_ptr \<Rightarrow> tm_frame \<Rightarrow> tm_env \<Rightarrow> tm_env" where
  "put_frame p frame env =
     (case te_tbl env (fst p) of
        Some tbl \<Rightarrow> env\<lparr>te_tbl := (te_tbl env)(fst p \<mapsto> tbl[snd p := frame])\<rparr>
      | None \<Rightarrow> env)"

subsection \<open>Blocks and addresses\<close>

lemma TM_BLOCK_SIZE_8 [simp]: "TM_BLOCK_SIZE = 8"
  by (simp add: TM_BLOCK_SIZE_def TM_BLOCK_SIZE_BITS_def)

lemma TM_FRAME_TBL_SIZE_1024: "TM_FRAME_TBL_SIZE = 1024"
  by (simp add: TM_FRAME_TBL_SIZE_def TM_FRAME_TBL_SIZE_BITS_def)

lemma unat_block_index [tm_simps]: "unat (tm_block_index_at addr) = unat addr div 8"
  by (simp add: tm_block_index_at_def unat_div)

lemma block_index_bound [tm_simps]: "unat (tm_block_index_at addr) < 2 ^ 61"
  using unsigned_less [of addr, where 'a = nat] by (simp add: unat_block_index)

lemma unat_push_3: "unat (b :: u64) < 2 ^ 61 \<Longrightarrow> unat (push_bit 3 b) = unat b * 8"
  by (simp add: push_bit_eq_mult unat_word_ariths)

lemma unat_drop_3: "unat (drop_bit 3 (b :: u64)) = unat b div 8"
  by (simp only: unat_drop_bit_eq) (simp add: drop_bit_eq_div)

text \<open>Every frame in the map is the frame of its place.\<close>

definition frames_ok :: "tm_env \<Rightarrow> bool" where
  "frames_ok env \<longleftrightarrow> (\<forall>key tbl. te_tbl env key = Some tbl \<longrightarrow> length tbl = 1024 \<and>
     (\<forall>i<1024. fr_flags (tbl ! i) = push_bit 3 (push_bit 10 key + of_nat i)))"

lemma frame_tbl_place:
  assumes "unat b < 2 ^ 61"
  shows "frame_tbl_index (push_bit 3 b) < 1024"
    and "push_bit 10 (frame_tbl_offset (push_bit 3 b)) + of_nat (frame_tbl_index (push_bit 3 b)) = b"
proof -
  have shift: "drop_bit 3 (push_bit 3 b) = b"
    by (rule word_unat_eq_iff [THEN iffD2]) (use unat_push_3 [OF assms] in \<open>simp add: unat_drop_3\<close>)
  have idx: "frame_tbl_index (push_bit 3 b) = unat b mod 1024"
  proof -
    have "TM_FRAME_TBL_SIZE_MASK = mask 10"
      by (simp add: TM_FRAME_TBL_SIZE_MASK_def TM_FRAME_TBL_SIZE_1024 mask_eq_exp_minus_1)
    then have "frame_tbl_index (push_bit 3 b) = unat (take_bit 10 b)"
      by (simp only: frame_tbl_index_def TM_BLOCK_SIZE_BITS_def shift take_bit_eq_mask)
    also have "\<dots> = unat b mod 1024" by (simp only: unsigned_take_bit_eq) (simp add: take_bit_eq_mod)
    finally show ?thesis .
  qed
  then show "frame_tbl_index (push_bit 3 b) < 1024" by simp
  have off: "unat (frame_tbl_offset (push_bit 3 b)) = unat b div 1024"
  proof -
    have "unat (frame_tbl_offset (push_bit 3 b)) = unat b * 8 div 2 ^ 13"
      by (simp only: frame_tbl_offset_def TM_FRAME_TBL_SIZE_BITS_def TM_BLOCK_SIZE_BITS_def
          unat_drop_bit_eq unat_push_3 [OF assms]) (simp add: drop_bit_eq_div)
    then show ?thesis by simp
  qed
  show "push_bit 10 (frame_tbl_offset (push_bit 3 b)) + of_nat (frame_tbl_index (push_bit 3 b)) = b"
  proof (rule word_unat_eq_iff [THEN iffD2])
    have "unat b div 1024 * 1024 \<le> unat b" by simp
    with assms have "unat b div 1024 * 1024 < 2 ^ 64" by simp
    then have "unat (push_bit 10 (frame_tbl_offset (push_bit 3 b))) = unat b div 1024 * 1024"
      using off by (simp add: push_bit_eq_mult unat_word_ariths)
    moreover have "unat (of_nat (unat b mod 1024) :: u64) = unat b mod 1024"
      by (simp add: unat_of_nat)
    moreover have "unat b div 1024 * 1024 + unat b mod 1024 = unat b" by simp
    ultimately show "unat (push_bit 10 (frame_tbl_offset (push_bit 3 b)) +
        of_nat (frame_tbl_index (push_bit 3 b))) = unat b"
      using assms by (simp only: unat_word_ariths idx) simp
  qed
qed

end
