(* ===== verification/Tm_Page.thy ===== *)
theory Tm_Page
  imports Tm_Frame
begin

text \<open>
  Pages of the transactional-memory module (\<open>modules/tm/src/page.h\<close>, \<open>page.c\<close>): loading bytes of a
  block into the buffer of a page, storing them, exchanging them, and locking the frame of a page.
  Each operation first acquires the frame of its block from the frame map, which can fail.
\<close>

definition TM_PAGE_FLAG_WRITE_THROUGH :: u64 where "TM_PAGE_FLAG_WRITE_THROUGH = 1"
definition TM_PAGE_FLAG_DISCARDED :: u64 where "TM_PAGE_FLAG_DISCARDED = 2"

definition tm_page_block_index :: "tm_page \<Rightarrow> u64" where
  "tm_page_block_index page = drop_bit TM_BLOCK_SIZE_BITS (pg_flags page)"

definition tm_page_address :: "tm_page \<Rightarrow> u64" where
  "tm_page_address page = tm_page_block_index page * of_nat TM_BLOCK_SIZE"

definition tm_page_init :: "tm_page \<Rightarrow> u64 \<Rightarrow> tm_page" where
  "tm_page_init page block_index =
     page\<lparr>pg_flags := push_bit TM_BLOCK_SIZE_BITS block_index,
          pg_rwstate := picotm_rwstate_init (pg_rwstate page), pg_buf_bits := 0\<rparr>"

definition page_write_through :: "tm_page \<Rightarrow> bool" where
  "page_write_through page \<longleftrightarrow> pg_flags page AND TM_PAGE_FLAG_WRITE_THROUGH \<noteq> 0"

definition page_discarded :: "tm_page \<Rightarrow> bool" where
  "page_discarded page \<longleftrightarrow> pg_flags page AND TM_PAGE_FLAG_DISCARDED \<noteq> 0"

definition all_buf_bits_set :: "u64 \<Rightarrow> bool" where
  "all_buf_bits_set bits \<longleftrightarrow> bits = TM_BLOCK_OFFSET_MASK"

definition tm_page_is_complete :: "tm_page \<Rightarrow> bool" where
  "tm_page_is_complete page = all_buf_bits_set (ucast (pg_buf_bits page))"

text \<open>Bytes of main memory.\<close>

definition read_bytes :: "(u64 \<Rightarrow> u8) \<Rightarrow> u64 \<Rightarrow> nat \<Rightarrow> u8 list" where
  "read_bytes mem addr n = map (\<lambda>i. mem (addr + of_nat i)) [0..<n]"

definition write_bytes :: "(u64 \<Rightarrow> u8) \<Rightarrow> u64 \<Rightarrow> u8 list \<Rightarrow> (u64 \<Rightarrow> u8)" where
  "write_bytes mem addr bs =
     (\<lambda>a. if unat (a - addr) < length bs then bs ! unat (a - addr) else mem a)"

text \<open>
  \<open>tm_page_buffer\<close> points to main memory for a page in write-through mode and to the buffer of the
  page otherwise; it is modelled by reading and writing the bytes from an offset on.
\<close>

definition tm_page_buffer_read :: "tm_page \<Rightarrow> tm_env \<Rightarrow> nat \<Rightarrow> nat \<Rightarrow> u8 list" where
  "tm_page_buffer_read page env head n =
     (if page_write_through page
      then read_bytes (te_mem env) (tm_page_address page + of_nat head) n
      else take n (drop head (pg_buf page)))"

definition tm_page_buffer_write :: "tm_page \<Rightarrow> tm_env \<Rightarrow> nat \<Rightarrow> u8 list \<Rightarrow> tm_page \<times> tm_env" where
  "tm_page_buffer_write page env head bs =
     (if page_write_through page
      then (page, env\<lparr>te_mem := write_bytes (te_mem env) (tm_page_address page + of_nat head) bs\<rparr>)
      else (page\<lparr>pg_buf := take head (pg_buf page) @ bs @ drop (head + length bs) (pg_buf page)\<rparr>, env))"

subsection \<open>Loads and stores of a page\<close>

definition tm_page_ld :: "tm_page \<Rightarrow> u64 \<Rightarrow> tm_env \<Rightarrow> picotm_error \<Rightarrow> tm_page \<times> tm_env \<times> picotm_error" where
  "tm_page_ld page bits env error =
     (case tm_vmem_acquire_frame_by_block (tm_page_block_index page) env error of
        (None, env, error) \<Rightarrow> (page, env, picotm_error_mark_as_non_recoverable error)
      | (Some p, env, error) \<Rightarrow>
          if picotm_error_is_set error then (page, env, picotm_error_mark_as_non_recoverable error)
          else
            (let mem = tm_frame_buffer (get_frame env p);
                 buf = (if all_buf_bits_set bits \<and> pg_buf_bits page = 0
                        then read_bytes (te_mem env) mem TM_BLOCK_SIZE
                        else map (\<lambda>i. if bit bits i \<and> \<not> bit (pg_buf_bits page) i
                                       then te_mem env (mem + of_nat i) else pg_buf page ! i)
                               [0..<TM_BLOCK_SIZE])
             in (page\<lparr>pg_buf := buf, pg_buf_bits := pg_buf_bits page OR ucast bits\<rparr>, env, error)))"

fun ld_c_loop :: "nat \<Rightarrow> nat \<Rightarrow> tm_page \<Rightarrow> u64 \<Rightarrow> int \<Rightarrow> (u64 \<Rightarrow> u8) \<Rightarrow> u64 \<Rightarrow> bool \<times> tm_page" where
  "ld_c_loop 0 i page bits c mem base = (False, page)"
| "ld_c_loop (Suc n) i page bits c mem base =
     (let page = (if bit bits i \<and> \<not> bit (pg_buf_bits page) i
                  then page\<lparr>pg_buf := (pg_buf page)[i := mem (base + of_nat i)],
                            pg_buf_bits := pg_buf_bits page OR push_bit i 1\<rparr>
                  else page)
      in if bit (pg_buf_bits page) i \<and> uint (mem (base + of_nat i)) = c then (True, page)
         else ld_c_loop n (Suc i) page bits c mem base)"

definition tm_page_ld_c ::
  "tm_page \<Rightarrow> u64 \<Rightarrow> int \<Rightarrow> tm_env \<Rightarrow> picotm_error \<Rightarrow> bool \<times> tm_page \<times> tm_env \<times> picotm_error"
where
  "tm_page_ld_c page bits c env error =
     (case tm_vmem_acquire_frame_by_block (tm_page_block_index page) env error of
        (None, env, error) \<Rightarrow> (False, page, env, picotm_error_mark_as_non_recoverable error)
      | (Some p, env, error) \<Rightarrow>
          if picotm_error_is_set error then (False, page, env, picotm_error_mark_as_non_recoverable error)
          else
            (let (found, page) = ld_c_loop TM_BLOCK_SIZE 0 page bits c (te_mem env)
                                   (tm_frame_buffer (get_frame env p))
             in (found, page, env, error)))"

definition tm_page_st :: "tm_page \<Rightarrow> u64 \<Rightarrow> tm_env \<Rightarrow> picotm_error \<Rightarrow> tm_env \<times> picotm_error" where
  "tm_page_st page bits env error =
     (case tm_vmem_acquire_frame_by_block (tm_page_block_index page) env error of
        (None, env, error) \<Rightarrow> (env, picotm_error_mark_as_non_recoverable error)
      | (Some p, env, error) \<Rightarrow>
          if picotm_error_is_set error then (env, picotm_error_mark_as_non_recoverable error)
          else
            (let mem = tm_frame_buffer (get_frame env p) in
             if all_buf_bits_set bits \<and> all_buf_bits_set (ucast (pg_buf_bits page))
             then (env\<lparr>te_mem := write_bytes (te_mem env) mem (take TM_BLOCK_SIZE (pg_buf page))\<rparr>, error)
             else (env\<lparr>te_mem := (\<lambda>a. let i = unat (a - mem) in
                       if i < TM_BLOCK_SIZE \<and> bit bits i \<and> bit (pg_buf_bits page) i
                       then pg_buf page ! i else te_mem env a)\<rparr>, error)))"

text \<open>The exchange of two bytes by three exclusive-ors, and of a block through a buffer.\<close>

definition xor_swap :: "u8 \<Rightarrow> u8 \<Rightarrow> u8 \<times> u8" where
  "xor_swap mem buf =
     (let mem = mem XOR buf; buf = buf XOR mem; mem = mem XOR buf in (mem, buf))"

definition tm_page_xchg :: "tm_page \<Rightarrow> u64 \<Rightarrow> tm_env \<Rightarrow> picotm_error \<Rightarrow> tm_page \<times> tm_env \<times> picotm_error" where
  "tm_page_xchg page bits env error =
     (case tm_vmem_acquire_frame_by_block (tm_page_block_index page) env error of
        (None, env, error) \<Rightarrow> (page, env, picotm_error_mark_as_non_recoverable error)
      | (Some p, env, error) \<Rightarrow>
          if picotm_error_is_set error then (page, env, picotm_error_mark_as_non_recoverable error)
          else
            (let mem = tm_frame_buffer (get_frame env p) in
             if all_buf_bits_set bits \<and> all_buf_bits_set (ucast (pg_buf_bits page))
             then (page\<lparr>pg_buf := read_bytes (te_mem env) mem TM_BLOCK_SIZE\<rparr>,
                   env\<lparr>te_mem := write_bytes (te_mem env) mem (take TM_BLOCK_SIZE (pg_buf page))\<rparr>, error)
             else
               (let moves = (\<lambda>i. bit bits i \<and> bit (pg_buf_bits page) i) in
                (page\<lparr>pg_buf := map (\<lambda>i. if moves i
                          then snd (xor_swap (te_mem env (mem + of_nat i)) (pg_buf page ! i))
                          else pg_buf page ! i) [0..<TM_BLOCK_SIZE]\<rparr>,
                 env\<lparr>te_mem := (\<lambda>a. let i = unat (a - mem) in
                          if i < TM_BLOCK_SIZE \<and> moves i
                          then fst (xor_swap (te_mem env a) (pg_buf page ! i)) else te_mem env a)\<rparr>,
                 error))))"

fun xchg_c_loop :: "nat \<Rightarrow> nat \<Rightarrow> tm_page \<Rightarrow> u64 \<Rightarrow> int \<Rightarrow> (u64 \<Rightarrow> u8) \<Rightarrow> u64 \<Rightarrow> bool \<times> tm_page \<times> (u64 \<Rightarrow> u8)"
where
  "xchg_c_loop 0 i page bits c mem base = (False, page, mem)"
| "xchg_c_loop (Suc n) i page bits c mem base =
     (let a = base + of_nat i in
      if uint (mem a) = c then (True, page, mem)
      else if bit bits i \<and> bit (pg_buf_bits page) i
      then (let (m, b) = xor_swap (mem a) (pg_buf page ! i)
            in xchg_c_loop n (Suc i) (page\<lparr>pg_buf := (pg_buf page)[i := b]\<rparr>) bits c (mem(a := m)) base)
      else xchg_c_loop n (Suc i) page bits c mem base)"

definition tm_page_xchg_c ::
  "tm_page \<Rightarrow> u64 \<Rightarrow> int \<Rightarrow> tm_env \<Rightarrow> picotm_error \<Rightarrow> bool \<times> tm_page \<times> tm_env \<times> picotm_error"
where
  "tm_page_xchg_c page bits c env error =
     (case tm_vmem_acquire_frame_by_block (tm_page_block_index page) env error of
        (None, env, error) \<Rightarrow> (False, page, env, picotm_error_mark_as_non_recoverable error)
      | (Some p, env, error) \<Rightarrow>
          if picotm_error_is_set error then (False, page, env, picotm_error_mark_as_non_recoverable error)
          else
            (let (found, page, mem) = xchg_c_loop TM_BLOCK_SIZE 0 page bits c (te_mem env)
                                        (tm_frame_buffer (get_frame env p))
             in (found, page, env\<lparr>te_mem := mem\<rparr>, error)))"

subsection \<open>The lock of a page's frame\<close>

definition tm_page_has_locked_frame :: "tm_page \<Rightarrow> bool" where
  "tm_page_has_locked_frame page \<longleftrightarrow> picotm_rwstate_get_status (pg_rwstate page) \<noteq> PICOTM_RWSTATE_UNLOCKED"

definition tm_page_has_rdlocked_frame :: "tm_page \<Rightarrow> bool" where
  "tm_page_has_rdlocked_frame page \<longleftrightarrow> picotm_rwstate_get_status (pg_rwstate page) \<noteq> PICOTM_RWSTATE_UNLOCKED"

definition tm_page_has_wrlocked_frame :: "tm_page \<Rightarrow> bool" where
  "tm_page_has_wrlocked_frame page \<longleftrightarrow> picotm_rwstate_get_status (pg_rwstate page) = PICOTM_RWSTATE_WRLOCKED"

text \<open>How a thread waits for a lock, sleeps between attempts, and the addresses of the locks.\<close>

record tm_waits =
  wt_wait :: lock_wait
  wt_sleep :: lock_wait
  wt_addr :: "frame_ptr \<Rightarrow> pointer"

definition tm_page_try_rdlock_frame ::
  "tm_waits \<Rightarrow> tm_page \<Rightarrow> tm_env \<Rightarrow> picotm_error \<Rightarrow> (tm_page \<times> tm_env \<times> picotm_error) option"
where
  "tm_page_try_rdlock_frame w page env error =
     (case tm_vmem_acquire_frame_by_block (tm_page_block_index page) env error of
        (None, env, error) \<Rightarrow> Some (page, env, error)
      | (Some p, env, error) \<Rightarrow>
          if picotm_error_is_set error then Some (page, env, error)
          else
            (case tm_frame_try_rdlock (wt_wait w) (wt_sleep w) (wt_addr w p) (get_frame env p)
                    (pg_rwstate page) error of
               None \<Rightarrow> None
             | Some (frame, rwstate, error) \<Rightarrow>
                 Some (page\<lparr>pg_rwstate := rwstate\<rparr>, put_frame p frame env, error)))"

definition tm_page_try_wrlock_frame ::
  "tm_waits \<Rightarrow> tm_page \<Rightarrow> tm_env \<Rightarrow> picotm_error \<Rightarrow> (tm_page \<times> tm_env \<times> picotm_error) option"
where
  "tm_page_try_wrlock_frame w page env error =
     (case tm_vmem_acquire_frame_by_block (tm_page_block_index page) env error of
        (None, env, error) \<Rightarrow> Some (page, env, error)
      | (Some p, env, error) \<Rightarrow>
          if picotm_error_is_set error then Some (page, env, error)
          else
            (case tm_frame_try_wrlock (wt_wait w) (wt_sleep w) (wt_addr w p) (get_frame env p)
                    (pg_rwstate page) error of
               None \<Rightarrow> None
             | Some (frame, rwstate, error) \<Rightarrow>
                 Some (page\<lparr>pg_rwstate := rwstate\<rparr>, put_frame p frame env, error)))"

definition tm_page_unlock_frame ::
  "tm_page \<Rightarrow> tm_env \<Rightarrow> picotm_error \<Rightarrow> tm_page \<times> tm_env \<times> picotm_error"
where
  "tm_page_unlock_frame page env error =
     (case tm_vmem_acquire_frame_by_block (tm_page_block_index page) env error of
        (None, env, error) \<Rightarrow> (page, env, picotm_error_mark_as_non_recoverable error)
      | (Some p, env, error) \<Rightarrow>
          if picotm_error_is_set error then (page, env, picotm_error_mark_as_non_recoverable error)
          else
            (case tm_frame_unlock (get_frame env p) (pg_rwstate page) of
               (frame, rwstate) \<Rightarrow> (page\<lparr>pg_rwstate := rwstate\<rparr>, put_frame p frame env, error)))"

end
