(* ===== verification/Tm_Vmem_Tx.thy ===== *)
theory Tm_Vmem_Tx
  imports Tm_Page
begin

text \<open>
  Transactions on main memory (\<open>modules/tm/src/vmem_tx.c\<close>).  A transaction keeps the pages of the
  blocks it has touched in a list sorted by block index, loads and stores go to these pages, and
  \<open>apply\<close>, \<open>undo\<close> and \<open>finish\<close> work through the list.

  A page pointer is modelled by the block index of the page, which is unique in the list and never
  changes.  An operation that waits for a lock may not return, which is the result \<open>None\<close>; the fuel of
  the loops over an address range is the number of its bytes, of which each round covers at least one.
\<close>

record tm_vmem_tx =
  vt_active :: "tm_page list"
  vt_alloced :: "tm_page list"

definition tm_vmem_tx_init :: tm_vmem_tx where
  "tm_vmem_tx_init = \<lparr>vt_active = [], vt_alloced = []\<rparr>"

definition alloc_page ::
  "tm_vmem_tx \<Rightarrow> tm_env \<Rightarrow> picotm_error \<Rightarrow> tm_page option \<times> tm_vmem_tx \<times> tm_env \<times> picotm_error"
where
  "alloc_page tx env error =
     (case vt_alloced tx of
        [] \<Rightarrow>
          (let env' = env\<lparr>te_n := te_n env + 1\<rparr> in
           case te_page env (te_n env) of
             None \<Rightarrow> (None, tx, env', picotm_error_set_error_code error PICOTM_OUT_OF_MEMORY)
           | Some page \<Rightarrow> (Some page, tx, env', error))
      | page # rest \<Rightarrow> (Some page, tx\<lparr>vt_alloced := rest\<rparr>, env, error))"

definition free_page :: "tm_vmem_tx \<Rightarrow> tm_page \<Rightarrow> tm_vmem_tx" where
  "free_page tx page = tx\<lparr>vt_alloced := page # vt_alloced tx\<rparr>"

text \<open>The search stops at the first page whose index is not below that of the block.\<close>

definition find_page_by_block_index :: "u64 \<Rightarrow> tm_page \<Rightarrow> bool" where
  "find_page_by_block_index block_index page \<longleftrightarrow> tm_page_block_index page \<ge> block_index"

definition acquire_page_by_block ::
  "tm_vmem_tx \<Rightarrow> u64 \<Rightarrow> tm_env \<Rightarrow> picotm_error \<Rightarrow> u64 option \<times> tm_vmem_tx \<times> tm_env \<times> picotm_error"
where
  "acquire_page_by_block tx block_index env error =
     (let before = takeWhile (\<lambda>p. \<not> find_page_by_block_index block_index p) (vt_active tx);
          pos = dropWhile (\<lambda>p. \<not> find_page_by_block_index block_index p) (vt_active tx)
      in if pos \<noteq> [] \<and> tm_page_block_index (hd pos) = block_index
         then (Some block_index, tx, env, error)
         else
           (case alloc_page tx env error of
              (None, tx, env, error) \<Rightarrow> (None, tx, env, error)
            | (Some page, tx, env, error) \<Rightarrow>
                if picotm_error_is_set error then (None, tx, env, error)
                else (Some block_index,
                      tx\<lparr>vt_active := before @ tm_page_init page block_index # pos\<rparr>, env, error)))"

definition acquire_page_by_address where
  "acquire_page_by_address tx addr env error =
     acquire_page_by_block tx (tm_block_index_at addr) env error"

definition get_page :: "tm_vmem_tx \<Rightarrow> u64 \<Rightarrow> tm_page" where
  "get_page tx b = hd (filter (\<lambda>p. tm_page_block_index p = b) (vt_active tx))"

definition put_page :: "u64 \<Rightarrow> tm_page \<Rightarrow> tm_vmem_tx \<Rightarrow> tm_vmem_tx" where
  "put_page b page tx =
     tx\<lparr>vt_active := map (\<lambda>p. if tm_page_block_index p = b then page else p) (vt_active tx)\<rparr>"

definition copy_all_bits :: u64 where "copy_all_bits = TM_BLOCK_OFFSET_MASK"

definition picotm_address_floor :: "u64 \<Rightarrow> u64 \<Rightarrow> u64" where
  "picotm_address_floor addr algn = addr - (addr mod algn)"

definition copy_bits :: "u64 \<Rightarrow> nat \<Rightarrow> u64" where
  "copy_bits addr siz =
     (let bits = copy_all_bits;
          bits = drop_bit (TM_BLOCK_SIZE - min siz TM_BLOCK_SIZE) bits;
          bits = push_bit (unat (addr - picotm_address_floor addr (of_nat TM_BLOCK_SIZE))) bits
      in bits AND copy_all_bits)"

subsection \<open>Loads\<close>

definition prepare_page_ld ::
  "tm_waits \<Rightarrow> tm_page \<Rightarrow> u64 \<Rightarrow> nat \<Rightarrow> tm_env \<Rightarrow> picotm_error \<Rightarrow> (tm_page \<times> tm_env \<times> picotm_error) option"
where
  "prepare_page_ld w page addr siz env error =
     (if page_discarded page
      then Some (page, env, picotm_error_set_error_code error PICOTM_OUT_OF_BOUNDS)
      else
        (case if tm_page_has_rdlocked_frame page then Some (page, env, error)
              else tm_page_try_rdlock_frame w page env error of
           None \<Rightarrow> None
         | Some (page, env, error) \<Rightarrow>
             if picotm_error_is_set error then Some (page, env, error)
             else if tm_page_is_complete page then Some (page, env, error)
             else Some (tm_page_ld page (copy_bits addr siz) env error)))"

fun tm_vmem_tx_ld_loop ::
  "nat \<Rightarrow> tm_waits \<Rightarrow> tm_vmem_tx \<Rightarrow> u64 \<Rightarrow> u8 list \<Rightarrow> nat \<Rightarrow> tm_env \<Rightarrow> picotm_error \<Rightarrow>
   (u8 list \<times> tm_vmem_tx \<times> tm_env \<times> picotm_error) option"
where
  "tm_vmem_tx_ld_loop 0 w tx addr buf siz env error =
     (if siz = 0 then Some (buf, tx, env, error) else None)"
| "tm_vmem_tx_ld_loop (Suc fuel) w tx addr buf siz env error =
     (if siz = 0 then Some (buf, tx, env, error)
      else
        (case acquire_page_by_address tx addr env error of
           (None, tx, env, error) \<Rightarrow> Some (buf, tx, env, error)
         | (Some b, tx, env, error) \<Rightarrow>
             (case prepare_page_ld w (get_page tx b) addr siz env error of
                None \<Rightarrow> None
              | Some (page, env, error) \<Rightarrow>
                  (let tx = put_page b page tx in
                   if picotm_error_is_set error then Some (buf, tx, env, error)
                   else
                     (let page_head = unat (addr - tm_page_address page);
                          page_tail = TM_BLOCK_SIZE - page_head;
                          page_diff = (if siz < page_tail then siz else page_tail)
                      in tm_vmem_tx_ld_loop fuel w tx (addr + of_nat page_diff)
                           (buf @ tm_page_buffer_read page env page_head page_diff)
                           (siz - page_diff) env error)))))"

definition tm_vmem_tx_ld where
  "tm_vmem_tx_ld w tx addr siz env error = tm_vmem_tx_ld_loop siz w tx addr [] siz env error"

subsection \<open>Stores\<close>

definition prepare_page_st ::
  "tm_waits \<Rightarrow> tm_page \<Rightarrow> u64 \<Rightarrow> nat \<Rightarrow> tm_env \<Rightarrow> picotm_error \<Rightarrow> (tm_page \<times> tm_env \<times> picotm_error) option"
where
  "prepare_page_st w page addr siz env error =
     (if page_discarded page
      then Some (page, env, picotm_error_set_error_code error PICOTM_OUT_OF_BOUNDS)
      else
        (case if tm_page_has_wrlocked_frame page then Some (page, env, error)
              else tm_page_try_wrlock_frame w page env error of
           None \<Rightarrow> None
         | Some (page, env, error) \<Rightarrow>
             if picotm_error_is_set error then Some (page, env, error)
             else if tm_page_is_complete page then Some (page, env, error)
             else Some (tm_page_ld page (copy_bits addr siz) env error)))"

fun tm_vmem_tx_st_loop ::
  "nat \<Rightarrow> tm_waits \<Rightarrow> tm_vmem_tx \<Rightarrow> u64 \<Rightarrow> u8 list \<Rightarrow> tm_env \<Rightarrow> picotm_error \<Rightarrow>
   (tm_vmem_tx \<times> tm_env \<times> picotm_error) option"
where
  "tm_vmem_tx_st_loop 0 w tx addr buf env error = (if buf = [] then Some (tx, env, error) else None)"
| "tm_vmem_tx_st_loop (Suc fuel) w tx addr buf env error =
     (if buf = [] then Some (tx, env, error)
      else
        (case acquire_page_by_address tx addr env error of
           (None, tx, env, error) \<Rightarrow> Some (tx, env, error)
         | (Some b, tx, env, error) \<Rightarrow>
             (case prepare_page_st w (get_page tx b) addr (length buf) env error of
                None \<Rightarrow> None
              | Some (page, env, error) \<Rightarrow>
                  if picotm_error_is_set error then Some (put_page b page tx, env, error)
                  else
                    (let page_head = unat (addr - tm_page_address page);
                         page_tail = TM_BLOCK_SIZE - page_head;
                         page_diff = (if length buf < page_tail then length buf else page_tail);
                         (page, env) = tm_page_buffer_write page env page_head (take page_diff buf)
                     in tm_vmem_tx_st_loop fuel w (put_page b page tx) (addr + of_nat page_diff)
                          (drop page_diff buf) env error))))"

definition tm_vmem_tx_st where
  "tm_vmem_tx_st w tx addr buf env error = tm_vmem_tx_st_loop (length buf) w tx addr buf env error"

subsection \<open>Copies\<close>

text \<open>The \<open>memcpy\<close> of the code writes to the page of \<open>laddr\<close> and reads that of \<open>saddr\<close>.\<close>

fun tm_vmem_tx_ldst_loop ::
  "nat \<Rightarrow> tm_waits \<Rightarrow> tm_vmem_tx \<Rightarrow> u64 \<Rightarrow> u64 \<Rightarrow> nat \<Rightarrow> tm_env \<Rightarrow> picotm_error \<Rightarrow>
   (tm_vmem_tx \<times> tm_env \<times> picotm_error) option"
where
  "tm_vmem_tx_ldst_loop 0 w tx laddr saddr siz env error =
     (if siz = 0 then Some (tx, env, error) else None)"
| "tm_vmem_tx_ldst_loop (Suc fuel) w tx laddr saddr siz env error =
     (if siz = 0 then Some (tx, env, error)
      else
        (case acquire_page_by_address tx laddr env error of
           (None, tx, env, error) \<Rightarrow> Some (tx, env, error)
         | (Some l, tx, env, error) \<Rightarrow>
             (case prepare_page_ld w (get_page tx l) laddr siz env error of
                None \<Rightarrow> None
              | Some (lpage, env, error) \<Rightarrow>
                  (let tx = put_page l lpage tx in
                   if picotm_error_is_set error then Some (tx, env, error)
                   else
                     (let lpage_head = unat (laddr - tm_page_address lpage);
                          lpage_tail = TM_BLOCK_SIZE - lpage_head;
                          lpage_diff = (if siz < lpage_tail then siz else lpage_tail)
                      in
                      (case acquire_page_by_address tx saddr env error of
                         (None, tx, env, error) \<Rightarrow> Some (tx, env, error)
                       | (Some s, tx, env, error) \<Rightarrow>
                           (case prepare_page_st w (get_page tx s) saddr siz env error of
                              None \<Rightarrow> None
                            | Some (spage, env, error) \<Rightarrow>
                                (let tx = put_page s spage tx in
                                 if picotm_error_is_set error then Some (tx, env, error)
                                 else
                                   (let spage_head = unat (saddr - tm_page_address spage);
                                        spage_tail = TM_BLOCK_SIZE - spage_head;
                                        spage_diff = (if siz < spage_tail then siz else spage_tail);
                                        bs = tm_page_buffer_read spage env spage_head lpage_diff;
                                        (lpage, env) = tm_page_buffer_write (get_page tx l) env lpage_head bs
                                    in tm_vmem_tx_ldst_loop fuel w (put_page l lpage tx)
                                         (laddr + of_nat lpage_diff) (saddr + of_nat spage_diff)
                                         (siz - lpage_diff) env error)))))))))"

definition tm_vmem_tx_ldst where
  "tm_vmem_tx_ldst w tx laddr saddr siz env error =
     tm_vmem_tx_ldst_loop siz w tx laddr saddr siz env error"

subsection \<open>Privatization\<close>

definition PICOTM_TM_PRIVATIZE_LOAD :: u64 where "PICOTM_TM_PRIVATIZE_LOAD = 1"
definition PICOTM_TM_PRIVATIZE_STORE :: u64 where "PICOTM_TM_PRIVATIZE_STORE = 2"

definition set_write_through :: "tm_page \<Rightarrow> tm_page" where
  "set_write_through page = page\<lparr>pg_flags := pg_flags page OR TM_PAGE_FLAG_WRITE_THROUGH\<rparr>"

definition set_discarded :: "tm_page \<Rightarrow> tm_page" where
  "set_discarded page = page\<lparr>pg_flags := pg_flags page OR TM_PAGE_FLAG_DISCARDED\<rparr>"

definition lock_page_rd where
  "lock_page_rd w page env error =
     (if tm_page_has_rdlocked_frame page then Some (page, env, error)
      else tm_page_try_rdlock_frame w page env error)"

definition lock_page_wr where
  "lock_page_wr w page env error =
     (if tm_page_has_wrlocked_frame page then Some (page, env, error)
      else tm_page_try_wrlock_frame w page env error)"

definition prepare_page_privatize ::
  "tm_waits \<Rightarrow> tm_page \<Rightarrow> u64 \<Rightarrow> nat \<Rightarrow> u64 \<Rightarrow> tm_env \<Rightarrow> picotm_error \<Rightarrow>
   (tm_page \<times> tm_env \<times> picotm_error) option"
where
  "prepare_page_privatize w page addr siz flags env error =
     (if page_discarded page
      then Some (page, env, picotm_error_set_error_code error PICOTM_OUT_OF_BOUNDS)
      else if flags AND PICOTM_TM_PRIVATIZE_STORE \<noteq> 0 \<or> flags AND PICOTM_TM_PRIVATIZE_LOAD \<noteq> 0 then
        (case if flags AND PICOTM_TM_PRIVATIZE_STORE \<noteq> 0 then lock_page_wr w page env error
              else lock_page_rd w page env error of
           None \<Rightarrow> None
         | Some (page, env, error) \<Rightarrow>
             if picotm_error_is_set error then Some (page, env, error)
             else if tm_page_is_complete page then Some (set_write_through page, env, error)
             else
               (case tm_page_ld page (copy_bits addr siz) env error of
                  (page, env, error) \<Rightarrow>
                    if picotm_error_is_set error then Some (page, env, error)
                    else Some (set_write_through page, env, error)))
      else if flags = 0 then
        (case lock_page_wr w page env error of
           None \<Rightarrow> None
         | Some (page, env, error) \<Rightarrow>
             if picotm_error_is_set error then Some (page, env, error)
             else Some (set_discarded page, env, error))
      else if \<not> page_write_through page then
        (if tm_page_has_wrlocked_frame page then
           (case tm_page_xchg page (copy_bits addr siz) env error of
              (page, env, error) \<Rightarrow>
                if picotm_error_is_set error then Some (page, env, error)
                else Some (set_write_through page, env, error))
         else Some (set_write_through page, env, error))
      else Some (page, env, error))"

fun tm_vmem_tx_privatize_loop ::
  "nat \<Rightarrow> tm_waits \<Rightarrow> tm_vmem_tx \<Rightarrow> u64 \<Rightarrow> nat \<Rightarrow> u64 \<Rightarrow> tm_env \<Rightarrow> picotm_error \<Rightarrow>
   (tm_vmem_tx \<times> tm_env \<times> picotm_error) option"
where
  "tm_vmem_tx_privatize_loop 0 w tx addr siz flags env error =
     (if siz = 0 then Some (tx, env, error) else None)"
| "tm_vmem_tx_privatize_loop (Suc fuel) w tx addr siz flags env error =
     (if siz = 0 then Some (tx, env, error)
      else
        (case acquire_page_by_address tx addr env error of
           (None, tx, env, error) \<Rightarrow> Some (tx, env, error)
         | (Some b, tx, env, error) \<Rightarrow>
             (case prepare_page_privatize w (get_page tx b) addr siz flags env error of
                None \<Rightarrow> None
              | Some (page, env, error) \<Rightarrow>
                  (let tx = put_page b page tx in
                   if picotm_error_is_set error then Some (tx, env, error)
                   else
                     (let page_head = unat (addr - tm_page_address page);
                          page_tail = TM_BLOCK_SIZE - page_head;
                          page_diff = (if siz < page_tail then siz else page_tail)
                      in tm_vmem_tx_privatize_loop fuel w tx (addr + of_nat page_diff)
                           (siz - page_diff) flags env error)))))"

definition tm_vmem_tx_privatize where
  "tm_vmem_tx_privatize w tx addr siz flags env error =
     tm_vmem_tx_privatize_loop siz w tx addr siz flags env error"

text \<open>\<open>memchr\<close> compares with the character as an unsigned byte.\<close>

definition page_memchr :: "tm_page \<Rightarrow> tm_env \<Rightarrow> u64 \<Rightarrow> int \<Rightarrow> nat \<Rightarrow> bool" where
  "page_memchr page env addr c n \<longleftrightarrow>
     word_of_int c \<in> set (tm_page_buffer_read page env (unat (addr - tm_page_address page)) n)"

definition prepare_page_privatize_c ::
  "tm_waits \<Rightarrow> tm_page \<Rightarrow> u64 \<Rightarrow> nat \<Rightarrow> int \<Rightarrow> u64 \<Rightarrow> tm_env \<Rightarrow> picotm_error \<Rightarrow>
   (bool \<times> tm_page \<times> tm_env \<times> picotm_error) option"
where
  "prepare_page_privatize_c w page addr page_diff c flags env error =
     (if flags AND PICOTM_TM_PRIVATIZE_STORE \<noteq> 0 \<or> flags AND PICOTM_TM_PRIVATIZE_LOAD \<noteq> 0 then
        (case if flags AND PICOTM_TM_PRIVATIZE_STORE \<noteq> 0 then lock_page_wr w page env error
              else lock_page_rd w page env error of
           None \<Rightarrow> None
         | Some (page, env, error) \<Rightarrow>
             if picotm_error_is_set error then Some (False, page, env, error)
             else
               (case tm_page_ld_c page (copy_bits addr page_diff) c env error of
                  (found_c, page, env, error) \<Rightarrow>
                    if picotm_error_is_set error then Some (False, page, env, error)
                    else Some (found_c, set_write_through page, env, error)))
      else if flags = 0 then
        (case lock_page_wr w page env error of
           None \<Rightarrow> None
         | Some (page, env, error) \<Rightarrow>
             if picotm_error_is_set error then Some (False, page, env, error)
             else Some (page_memchr page env addr c page_diff, set_discarded page, env, error))
      else if \<not> page_write_through page then
        (if tm_page_has_wrlocked_frame page then
           (case tm_page_xchg_c page (copy_bits addr page_diff) c env error of
              (found_c, page, env, error) \<Rightarrow>
                if picotm_error_is_set error then Some (False, page, env, error)
                else Some (found_c, set_write_through page, env, error))
         else Some (page_memchr page env addr c page_diff, set_write_through page, env, error))
      else Some (page_memchr page env addr c page_diff, page, env, error))"

text \<open>This loop has no bound but the end of memory: it runs until it finds the character.\<close>

partial_function (option) tm_vmem_tx_privatize_c ::
  "tm_waits \<Rightarrow> tm_vmem_tx \<Rightarrow> u64 \<Rightarrow> int \<Rightarrow> u64 \<Rightarrow> tm_env \<Rightarrow> picotm_error \<Rightarrow>
   (tm_vmem_tx \<times> tm_env \<times> picotm_error) option"
where
  "tm_vmem_tx_privatize_c w tx addr c flags env error =
     (case acquire_page_by_address tx addr env error of
        (None, tx, env, error) \<Rightarrow> Some (tx, env, error)
      | (Some b, tx, env, error) \<Rightarrow>
          (let page_head = unat (addr - tm_page_address (get_page tx b));
               page_diff = TM_BLOCK_SIZE - page_head
           in
           (case prepare_page_privatize_c w (get_page tx b) addr page_diff c flags env error of
              None \<Rightarrow> None
            | Some (found_c, page, env, error) \<Rightarrow>
                (if picotm_error_is_set error then Some (put_page b page tx, env, error)
                 else if found_c then Some (put_page b page tx, env, error)
                 else tm_vmem_tx_privatize_c w (put_page b page tx) (addr + of_nat page_diff) c flags
                        env error))))"

subsection \<open>The end of a transaction\<close>

definition apply_page :: "tm_page \<Rightarrow> tm_env \<Rightarrow> picotm_error \<Rightarrow> bool \<times> tm_env \<times> picotm_error" where
  "apply_page page env error =
     (if tm_page_has_wrlocked_frame page \<and> \<not> page_write_through page \<and> \<not> page_discarded page then
        (case tm_page_st page copy_all_bits env error of
           (env, error) \<Rightarrow> (\<not> picotm_error_is_set error, env, error))
      else (True, env, error))"

definition undo_page :: "tm_page \<Rightarrow> tm_env \<Rightarrow> picotm_error \<Rightarrow> bool \<times> tm_env \<times> picotm_error" where
  "undo_page page env error =
     (if tm_page_has_wrlocked_frame page \<and> page_write_through page \<and> \<not> page_discarded page then
        (case tm_page_st page copy_all_bits env error of
           (env, error) \<Rightarrow> (\<not> picotm_error_is_set error, env, error))
      else (True, env, error))"

fun walk_pages ::
  "(tm_page \<Rightarrow> tm_env \<Rightarrow> picotm_error \<Rightarrow> bool \<times> tm_env \<times> picotm_error) \<Rightarrow> tm_page list \<Rightarrow>
   tm_env \<Rightarrow> picotm_error \<Rightarrow> tm_env \<times> picotm_error"
where
  "walk_pages walk [] env error = (env, error)"
| "walk_pages walk (page # pages) env error =
     (case walk page env error of
        (go_on, env, error) \<Rightarrow> if go_on then walk_pages walk pages env error else (env, error))"

definition tm_vmem_tx_apply where
  "tm_vmem_tx_apply tx env error = walk_pages apply_page (vt_active tx) env error"

definition tm_vmem_tx_undo where
  "tm_vmem_tx_undo tx env error = walk_pages undo_page (vt_active tx) env error"

definition finish_page ::
  "tm_page \<Rightarrow> tm_vmem_tx \<Rightarrow> tm_env \<Rightarrow> picotm_error \<Rightarrow> tm_vmem_tx \<times> tm_env \<times> picotm_error"
where
  "finish_page page tx env error =
     (case if tm_page_has_locked_frame page then tm_page_unlock_frame page env error
           else (page, env, error) of
        (page', env, error) \<Rightarrow>
          if tm_page_has_locked_frame page \<and> picotm_error_is_set error then (tx, env, error)
          else (free_page tx page', env, error))"

fun finish_pages ::
  "tm_page list \<Rightarrow> tm_vmem_tx \<Rightarrow> tm_env \<Rightarrow> picotm_error \<Rightarrow> tm_vmem_tx \<times> tm_env \<times> picotm_error"
where
  "finish_pages [] tx env error = (tx, env, error)"
| "finish_pages (page # pages) tx env error =
     (case finish_page page (tx\<lparr>vt_active := pages\<rparr>) env error of
        (tx, env, error) \<Rightarrow> finish_pages pages tx env error)"

definition tm_vmem_tx_finish where
  "tm_vmem_tx_finish tx env error = finish_pages (vt_active tx) tx env error"

end
