(* ===== verification/Tm_Page_Spec.thy ===== *)
theory Tm_Page_Spec
  imports Tm_Vmem_Tx
begin

text \<open>
  What the operations on one page do.  A page shows the byte of its buffer where it is valid and the
  byte of main memory elsewhere; locking a page and loading bytes into it do not change what it shows.
\<close>

definition frame_ptr_of :: "u64 \<Rightarrow> frame_ptr" where
  "frame_ptr_of b = (frame_tbl_offset (push_bit 3 b), frame_tbl_index (push_bit 3 b))"

definition block_lock :: "tm_env \<Rightarrow> u64 \<Rightarrow> u8" where
  "block_lock env b = fr_rwlock (get_frame env (frame_ptr_of b))"

definition env_ok :: "tm_env \<Rightarrow> bool" where
  "env_ok env \<longleftrightarrow> frames_ok env \<and> (\<forall>n e. te_find env n = Some e \<longrightarrow> picotm_error_is_set e) \<and>
     (\<forall>n p. te_page env n = Some p \<longrightarrow> length (pg_buf p) = 8)"

definition is_block :: "u64 \<Rightarrow> bool" where
  "is_block b \<longleftrightarrow> unat b < 2 ^ 61"

lemma block_index_is_block [simp]: "is_block (tm_block_index_at addr)"
  unfolding is_block_def by (rule block_index_bound)

lemma page_index_is_block [simp]: "is_block (tm_page_block_index page)"
proof -
  have "unat (tm_page_block_index page) = unat (pg_flags page) div 8"
    by (simp only: tm_page_block_index_def TM_BLOCK_SIZE_BITS_def unat_drop_3)
  then show ?thesis using unsigned_less [of "pg_flags page", where 'a = nat] by (simp add: is_block_def)
qed

subsection \<open>Acquiring a frame\<close>

lemma fresh_tbl_frame:
  "i < 1024 \<Longrightarrow> fr_flags (tm_frame_tbl_init k ! i) = push_bit 3 (k + of_nat i)"
  "i < 1024 \<Longrightarrow> fr_rwlock (tm_frame_tbl_init k ! i) = 0"
  "length (tm_frame_tbl_init k) = 1024"
  by (simp_all add: tm_frame_tbl_init_def TM_FRAME_TBL_SIZE_1024 tm_frame_init_def
      TM_BLOCK_SIZE_BITS_def picotm_rwlock_init_def)

lemma frame_ptr_index: "is_block b \<Longrightarrow> snd (frame_ptr_of b) < 1024"
  using frame_tbl_place(1) by (simp add: frame_ptr_of_def is_block_def)

lemma frame_ptr_block:
  "is_block b \<Longrightarrow> push_bit 10 (fst (frame_ptr_of b)) + of_nat (snd (frame_ptr_of b)) = b"
  using frame_tbl_place(2) by (simp add: frame_ptr_of_def is_block_def)

lemma frame_ptr_inj: "is_block b \<Longrightarrow> is_block b' \<Longrightarrow> frame_ptr_of b = frame_ptr_of b' \<Longrightarrow> b = b'"
  by (metis frame_ptr_block)

lemma acquire_frame_spec:
  assumes "tm_vmem_acquire_frame_by_block b env e = (r, env', e')" and "is_block b"
    and "env_ok env" and "\<not> picotm_error_is_set e"
  shows "env_ok env' \<and> te_mem env' = te_mem env \<and> (\<forall>b. is_block b \<longrightarrow> block_lock env' b = block_lock env b) \<and>
    (case r of None \<Rightarrow> picotm_error_is_set e'
     | Some p \<Rightarrow> p = frame_ptr_of b \<and> e' = e \<and> te_tbl env' (fst p) \<noteq> None \<and>
         tm_frame_buffer (get_frame env' p) = b * 8)"
proof -
  have buffer: "tm_frame_buffer (get_frame env2 (frame_ptr_of b)) = b * 8"
    if ok2: "frames_ok env2" "te_tbl env2 (fst (frame_ptr_of b)) \<noteq> None" for env2
  proof -
    obtain tbl where tbl: "te_tbl env2 (fst (frame_ptr_of b)) = Some tbl" using ok2(2) by blast
    have "fr_flags (tbl ! snd (frame_ptr_of b)) = push_bit 3 b"
      using ok2(1) tbl frame_ptr_index [OF assms(2)] frame_ptr_block [OF assms(2)]
      by (simp add: frames_ok_def)
    moreover have "drop_bit 3 (push_bit 3 b) = b"
      by (rule word_unat_eq_iff [THEN iffD2])
        (use unat_push_3 [of b] assms(2) in \<open>simp add: unat_drop_3 is_block_def\<close>)
    ultimately show ?thesis
      by (simp add: get_frame_def tbl tm_frame_buffer_def tm_frame_address_def tm_frame_block_index_def
          TM_BLOCK_SIZE_BITS_def)
  qed
  let ?key = "frame_tbl_offset (push_bit 3 b)" and ?idx = "frame_tbl_index (push_bit 3 b)"
  show ?thesis
  proof (cases "te_tbl env ?key")
    case (Some tbl)
    then have "r = Some (frame_ptr_of b)" "env' = env" "e' = e"
      using assms(1) by (simp_all add: tm_vmem_acquire_frame_by_block_def frame_ptr_of_def
          tm_vmem_acquire_frame_by_address_def tm_frame_map_lookup_def TM_BLOCK_SIZE_BITS_def)
    with assms(3) buffer [of env] Some show ?thesis by (simp add: env_ok_def frame_ptr_of_def)
  next
    case None
    show ?thesis
    proof (cases "te_find env (te_n env)")
      case (Some e2)
      with None assms(1) have "r = None" "env' = env\<lparr>te_n := te_n env + 1\<rparr>" "e' = e2"
        by (simp_all add: tm_vmem_acquire_frame_by_block_def tm_frame_tbl_create_def Let_def
            tm_vmem_acquire_frame_by_address_def tm_frame_map_lookup_def TM_BLOCK_SIZE_BITS_def)
      with assms(3) Some show ?thesis
        by (auto simp: env_ok_def frames_ok_def block_lock_def get_frame_def)
    next
      case create: None
      let ?tbl = "tm_frame_tbl_init (push_bit 10 ?key)"
      have res: "r = Some (frame_ptr_of b)" "e' = e"
          "env' = env\<lparr>te_n := te_n env + 1, te_tbl := (te_tbl env)(?key \<mapsto> ?tbl)\<rparr>"
        using None create assms(1)
        by (auto simp: tm_vmem_acquire_frame_by_block_def tm_frame_tbl_create_def Let_def frame_ptr_of_def
            tm_vmem_acquire_frame_by_address_def tm_frame_map_lookup_def TM_BLOCK_SIZE_BITS_def
            TM_FRAME_TBL_SIZE_BITS_def)
      have frames: "frames_ok env'"
        using assms(3) by (auto simp: res env_ok_def frames_ok_def fresh_tbl_frame)
      have "block_lock env' b' = block_lock env b'" if "is_block b'" for b'
      proof -
        have "snd (frame_ptr_of b') < 1024" by (rule frame_ptr_index [OF that])
        then show ?thesis
          using None by (simp add: block_lock_def get_frame_def res fresh_tbl_frame
              tm_frame_init_def picotm_rwlock_init_def)
      qed
      with assms(3) frames buffer [OF frames] show ?thesis
        by (simp add: env_ok_def res(1,2)) (simp add: res(3) frame_ptr_of_def)
    qed
  qed
qed

lemma put_frame_spec:
  assumes "env_ok env" and "te_tbl env (fst (frame_ptr_of b)) \<noteq> None" and "is_block b"
    and "fr_flags frame = fr_flags (get_frame env (frame_ptr_of b))"
  shows "env_ok (put_frame (frame_ptr_of b) frame env)"
    and "te_mem (put_frame (frame_ptr_of b) frame env) = te_mem env"
    and "block_lock (put_frame (frame_ptr_of b) frame env) b = fr_rwlock frame"
    and "is_block b' \<Longrightarrow> b' \<noteq> b \<Longrightarrow>
      block_lock (put_frame (frame_ptr_of b) frame env) b' = block_lock env b'"
proof -
  obtain tbl where tbl: "te_tbl env (fst (frame_ptr_of b)) = Some tbl" using assms(2) by blast
  have idx: "snd (frame_ptr_of b) < length tbl" and len: "length tbl = 1024"
    using assms(1) tbl frame_ptr_index [OF assms(3)] by (auto simp: env_ok_def frames_ok_def)
  show "env_ok (put_frame (frame_ptr_of b) frame env)"
  proof -
    have "fr_flags (tbl[snd (frame_ptr_of b) := frame] ! i) = fr_flags (tbl ! i)" if "i < 1024" for i
      using assms(4) that len by (cases "i = snd (frame_ptr_of b)") (simp_all add: get_frame_def tbl)
    then show ?thesis using assms(1) tbl len by (simp add: env_ok_def frames_ok_def put_frame_def)
  qed
  show "te_mem (put_frame (frame_ptr_of b) frame env) = te_mem env"
    by (simp add: put_frame_def tbl)
  show "block_lock (put_frame (frame_ptr_of b) frame env) b = fr_rwlock frame"
    using idx by (simp add: block_lock_def put_frame_def get_frame_def tbl)
  show "block_lock (put_frame (frame_ptr_of b) frame env) b' = block_lock env b'"
    if "is_block b'" "b' \<noteq> b"
  proof -
    have "frame_ptr_of b' \<noteq> frame_ptr_of b" using frame_ptr_inj [OF that(1) assms(3)] that(2) by blast
    then have "fst (frame_ptr_of b') = fst (frame_ptr_of b) \<Longrightarrow> snd (frame_ptr_of b) \<noteq> snd (frame_ptr_of b')"
      by (metis prod.collapse)
    then show ?thesis by (auto simp: block_lock_def put_frame_def get_frame_def tbl)
  qed
qed

subsection \<open>The bytes that a page shows\<close>

definition page_byte :: "tm_page \<Rightarrow> (u64 \<Rightarrow> u8) \<Rightarrow> u64 \<Rightarrow> u8" where
  "page_byte page mem a =
     (if bit (pg_buf_bits page) (unat a mod 8) then pg_buf page ! (unat a mod 8) else mem a)"

text \<open>
  A page of a transaction that only loads and stores: it has valid bytes only while its block is
  locked, and while it is only locked for reading these are the bytes of main memory.
\<close>

definition page_inv :: "tm_page \<Rightarrow> (u64 \<Rightarrow> u8) \<Rightarrow> bool" where
  "page_inv page mem \<longleftrightarrow> length (pg_buf page) = 8 \<and> \<not> page_write_through page \<and> \<not> page_discarded page \<and>
     (status (pg_rwstate page) = PICOTM_RWSTATE_UNLOCKED \<longrightarrow> pg_buf_bits page = 0) \<and>
     (status (pg_rwstate page) = PICOTM_RWSTATE_RDLOCKED \<longrightarrow>
        (\<forall>a. tm_block_index_at a = tm_page_block_index page \<longrightarrow> page_byte page mem a = mem a))"

text \<open>The lock of a page's block agrees with the page's share in it.\<close>

definition page_lock_ok :: "tm_page \<Rightarrow> tm_env \<Rightarrow> bool" where
  "page_lock_ok page env \<longleftrightarrow>
     rwstate_agrees (pg_rwstate page) (block_lock env (tm_page_block_index page))"

definition waits_ok :: "tm_waits \<Rightarrow> bool" where
  "waits_ok w \<longleftrightarrow> wait_respects (wt_wait w)"

text \<open>
  \<open>page_step b env page page' env'\<close>: the page of block \<open>b\<close> has been locked or filled, nothing that it
  shows has changed, and main memory and the other locks are as they were.
\<close>

definition page_step :: "tm_page \<Rightarrow> tm_env \<Rightarrow> tm_page \<Rightarrow> tm_env \<Rightarrow> bool" where
  "page_step page env page' env' \<longleftrightarrow>
     env_ok env' \<and> te_mem env' = te_mem env \<and> pg_flags page' = pg_flags page \<and>
     page_inv page' (te_mem env') \<and> page_lock_ok page' env' \<and>
     (tm_page_has_locked_frame page \<longrightarrow> tm_page_has_locked_frame page') \<and>
     (\<forall>b. is_block b \<longrightarrow> b \<noteq> tm_page_block_index page \<longrightarrow> block_lock env' b = block_lock env b) \<and>
     (\<forall>a. tm_block_index_at a = tm_page_block_index page \<longrightarrow>
        page_byte page' (te_mem env') a = page_byte page (te_mem env) a)"

lemma page_step_trans:
  "page_step p1 e1 p2 e2 \<Longrightarrow> page_step p2 e2 p3 e3 \<Longrightarrow> page_step p1 e1 p3 e3"
  by (auto simp: page_step_def tm_page_block_index_def)

lemma page_step_refl:
  "env_ok env \<Longrightarrow> page_inv page (te_mem env) \<Longrightarrow> page_lock_ok page env \<Longrightarrow> page_step page env page env"
  by (simp add: page_step_def)

lemma page_step_block: "page_step p e p' e' \<Longrightarrow> tm_page_block_index p' = tm_page_block_index p"
  by (simp add: page_step_def tm_page_block_index_def)

lemma block_index_rwstate [simp]:
  "tm_page_block_index (page\<lparr>pg_rwstate := st\<rparr>) = tm_page_block_index page"
  "tm_page_block_index (page\<lparr>pg_buf := b, pg_buf_bits := bs\<rparr>) = tm_page_block_index page"
  "tm_page_block_index (page\<lparr>pg_buf := b\<rparr>) = tm_page_block_index page"
  by (simp_all add: tm_page_block_index_def)

lemma page_byte_rwstate [simp]:
  "page_byte (page\<lparr>pg_rwstate := st\<rparr>) mem a = page_byte page mem a"
  by (simp add: page_byte_def)

lemma page_flags_rwstate [simp]:
  "page_write_through (page\<lparr>pg_rwstate := st\<rparr>) = page_write_through page"
  "page_discarded (page\<lparr>pg_rwstate := st\<rparr>) = page_discarded page"
  "page_write_through (page\<lparr>pg_buf := b, pg_buf_bits := bs\<rparr>) = page_write_through page"
  "page_discarded (page\<lparr>pg_buf := b, pg_buf_bits := bs\<rparr>) = page_discarded page"
  "page_write_through (page\<lparr>pg_buf := b\<rparr>) = page_write_through page"
  "page_discarded (page\<lparr>pg_buf := b\<rparr>) = page_discarded page"
  by (simp_all add: page_write_through_def page_discarded_def)

lemma page_inv_rwstate:
  assumes "page_inv page mem"
    and "st = pg_rwstate page \<or> status st = PICOTM_RWSTATE_WRLOCKED \<or>
      (status (pg_rwstate page) = PICOTM_RWSTATE_UNLOCKED \<and> status st = PICOTM_RWSTATE_RDLOCKED)"
  shows "page_inv (page\<lparr>pg_rwstate := st\<rparr>) mem"
  using assms by (auto simp: page_inv_def page_byte_def)

text \<open>Taking the lock of a page's frame, for reading or for writing.\<close>

lemma rwstate_try_rdlock_result:
  assumes "picotm_rwstate_try_rdlock wait sleep l st mem e = Some (st', mem', e')" and "\<not> picotm_error_is_set e"
  shows "st' = st \<or> (status st = PICOTM_RWSTATE_UNLOCKED \<and> status st' = PICOTM_RWSTATE_RDLOCKED)"
    and "\<not> picotm_error_is_set e' \<Longrightarrow> status st' \<noteq> PICOTM_RWSTATE_UNLOCKED"
  using assms by (auto simp: picotm_rwstate_try_rdlock_def split: if_splits option.splits)

lemma rwstate_try_wrlock_result:
  assumes "picotm_rwstate_try_wrlock wait sleep l st mem e = Some (st', mem', e')" and "\<not> picotm_error_is_set e"
  shows "st' = st \<or> status st' = PICOTM_RWSTATE_WRLOCKED"
    and "\<not> picotm_error_is_set e' \<Longrightarrow> status st' = PICOTM_RWSTATE_WRLOCKED"
  using assms by (auto simp: picotm_rwstate_try_wrlock_def split: if_splits option.splits)

text \<open>The part that both have in common: a frame is acquired, locked, and put back.\<close>

lemma locked_page_step:
  assumes "env_ok env" and "page_inv page (te_mem env)" and "page_lock_ok page env"
    and "te_tbl env (fst (frame_ptr_of (tm_page_block_index page))) \<noteq> None"
    and "rwstate_agrees st lock"
    and "st = pg_rwstate page \<or> status st = PICOTM_RWSTATE_WRLOCKED \<or>
      (status (pg_rwstate page) = PICOTM_RWSTATE_UNLOCKED \<and> status st = PICOTM_RWSTATE_RDLOCKED)"
  shows "page_step page env (page\<lparr>pg_rwstate := st\<rparr>)
    (put_frame (frame_ptr_of (tm_page_block_index page))
      ((get_frame env (frame_ptr_of (tm_page_block_index page)))\<lparr>fr_rwlock := lock\<rparr>) env)"
proof -
  let ?b = "tm_page_block_index page"
  let ?frame = "(get_frame env (frame_ptr_of ?b))\<lparr>fr_rwlock := lock\<rparr>"
  have "fr_flags ?frame = fr_flags (get_frame env (frame_ptr_of ?b))" by simp
  note put = put_frame_spec [OF assms(1,4) page_index_is_block this]
  show ?thesis
    using put page_inv_rwstate [OF assms(2,6)] assms(5,6)
    by (auto simp: page_step_def page_lock_ok_def tm_page_has_locked_frame_def picotm_rwstate_get_status_def)
qed

lemma block_lock_acquired:
  "block_lock env b = fr_rwlock (get_frame env (frame_ptr_of b))"
  by (simp add: block_lock_def)

lemma try_rdlock_frame_spec:
  assumes "env_ok env" and "page_inv page (te_mem env)" and "page_lock_ok page env"
    and "waits_ok w" and "\<not> picotm_error_is_set e"
  obtains page' env' e' where "tm_page_try_rdlock_frame w page env e = Some (page', env', e')"
    and "page_step page env page' env'"
    and "\<not> picotm_error_is_set e' \<Longrightarrow> tm_page_has_rdlocked_frame page'"
proof -
  let ?b = "tm_page_block_index page"
  obtain r env1 e1 where acq: "tm_vmem_acquire_frame_by_block ?b env e = (r, env1, e1)" by (metis prod_cases3)
  note spec = acquire_frame_spec [OF acq page_index_is_block assms(1,5)]
  have step1: "page_step page env page env1"
    using spec assms(2,3) by (simp add: page_step_def page_lock_ok_def)
  show thesis
  proof (cases r)
    case None
    with spec acq step1 that [of page env1 e1] show thesis
      by (simp add: tm_page_try_rdlock_frame_def)
  next
    case (Some p)
    then have p: "p = frame_ptr_of ?b" "e1 = e" "te_tbl env1 (fst (frame_ptr_of ?b)) \<noteq> None"
      using spec by auto
    let ?frame = "get_frame env1 p"
    obtain st lock e2 where lock: "picotm_rwstate_try_rdlock (wt_wait w) (wt_sleep w) (wt_addr w p)
        (pg_rwstate page) (fr_rwlock ?frame) e = Some (st, lock, e2)"
      using rwstate_try_lock_total(1) by (metis prod_cases3)
    have "rwstate_agrees (pg_rwstate page) (fr_rwlock ?frame)"
      using assms(3) spec by (simp add: page_lock_ok_def block_lock_def p)
    then have agrees: "rwstate_agrees st lock"
      using rwstate_try_rdlock_agrees [OF lock] assms(4,5) by (simp add: waits_ok_def)
    have "page_step page env1 (page\<lparr>pg_rwstate := st\<rparr>)
        (put_frame (frame_ptr_of ?b) ((get_frame env1 (frame_ptr_of ?b))\<lparr>fr_rwlock := lock\<rparr>) env1)"
      by (rule locked_page_step [OF _ _ _ p(3) agrees])
        (use step1 rwstate_try_rdlock_result(1) [OF lock assms(5)] in \<open>auto simp: page_step_def\<close>)
    with step1 have "page_step page env (page\<lparr>pg_rwstate := st\<rparr>)
        (put_frame p (?frame\<lparr>fr_rwlock := lock\<rparr>) env1)"
      unfolding p by (rule page_step_trans)
    moreover have "tm_page_try_rdlock_frame w page env e =
        Some (page\<lparr>pg_rwstate := st\<rparr>, put_frame p (?frame\<lparr>fr_rwlock := lock\<rparr>) env1, e2)"
      using acq lock Some assms(5) by (simp add: tm_page_try_rdlock_frame_def tm_frame_try_rdlock_def p)
    ultimately show thesis
      using that rwstate_try_rdlock_result(2) [OF lock assms(5)]
      by (simp add: tm_page_has_rdlocked_frame_def picotm_rwstate_get_status_def)
  qed
qed

lemma try_wrlock_frame_spec:
  assumes "env_ok env" and "page_inv page (te_mem env)" and "page_lock_ok page env"
    and "waits_ok w" and "\<not> picotm_error_is_set e"
  obtains page' env' e' where "tm_page_try_wrlock_frame w page env e = Some (page', env', e')"
    and "page_step page env page' env'"
    and "\<not> picotm_error_is_set e' \<Longrightarrow> tm_page_has_wrlocked_frame page'"
proof -
  let ?b = "tm_page_block_index page"
  obtain r env1 e1 where acq: "tm_vmem_acquire_frame_by_block ?b env e = (r, env1, e1)" by (metis prod_cases3)
  note spec = acquire_frame_spec [OF acq page_index_is_block assms(1,5)]
  have step1: "page_step page env page env1"
    using spec assms(2,3) by (simp add: page_step_def page_lock_ok_def)
  show thesis
  proof (cases r)
    case None
    with spec acq step1 that [of page env1 e1] show thesis
      by (simp add: tm_page_try_wrlock_frame_def)
  next
    case (Some p)
    then have p: "p = frame_ptr_of ?b" "e1 = e" "te_tbl env1 (fst (frame_ptr_of ?b)) \<noteq> None"
      using spec by auto
    let ?frame = "get_frame env1 p"
    obtain st lock e2 where lock: "picotm_rwstate_try_wrlock (wt_wait w) (wt_sleep w) (wt_addr w p)
        (pg_rwstate page) (fr_rwlock ?frame) e = Some (st, lock, e2)"
      using rwstate_try_lock_total(2) by (metis prod_cases3)
    have "rwstate_agrees (pg_rwstate page) (fr_rwlock ?frame)"
      using assms(3) spec by (simp add: page_lock_ok_def block_lock_def p)
    then have agrees: "rwstate_agrees st lock"
      using rwstate_try_wrlock_agrees(1) [OF lock] assms(4,5) by (simp add: waits_ok_def)
    have "page_step page env1 (page\<lparr>pg_rwstate := st\<rparr>)
        (put_frame (frame_ptr_of ?b) ((get_frame env1 (frame_ptr_of ?b))\<lparr>fr_rwlock := lock\<rparr>) env1)"
      by (rule locked_page_step [OF _ _ _ p(3) agrees])
        (use step1 rwstate_try_wrlock_result(1) [OF lock assms(5)] in \<open>auto simp: page_step_def\<close>)
    with step1 have "page_step page env (page\<lparr>pg_rwstate := st\<rparr>)
        (put_frame p (?frame\<lparr>fr_rwlock := lock\<rparr>) env1)"
      unfolding p by (rule page_step_trans)
    moreover have "tm_page_try_wrlock_frame w page env e =
        Some (page\<lparr>pg_rwstate := st\<rparr>, put_frame p (?frame\<lparr>fr_rwlock := lock\<rparr>) env1, e2)"
      using acq lock Some assms(5) by (simp add: tm_page_try_wrlock_frame_def tm_frame_try_wrlock_def p)
    ultimately show thesis
      using that rwstate_try_wrlock_result(2) [OF lock assms(5)]
      by (simp add: tm_page_has_wrlocked_frame_def picotm_rwstate_get_status_def)
  qed
qed

subsection \<open>Filling a page\<close>

lemma TM_BLOCK_OFFSET_MASK_mask: "TM_BLOCK_OFFSET_MASK = mask 8"
  by (simp add: TM_BLOCK_OFFSET_MASK_def mask_eq_exp_minus_1 push_bit_eq_mult)

lemma bit_copy_bits:
  assumes "i < 8"
  shows "bit (copy_bits addr siz) i \<longleftrightarrow> unat addr mod 8 \<le> i \<and> i < unat addr mod 8 + siz"
proof -
  have head: "unat (addr - picotm_address_floor addr 8) = unat addr mod 8"
    by (simp add: picotm_address_floor_def unat_mod)
  have "drop_bit (8 - min siz 8) (mask 8 :: u64) = mask (min siz 8)"
    by (rule bit_eqI) (auto simp: bit_simps)
  then show ?thesis
    using assms by (auto simp: copy_bits_def copy_all_bits_def TM_BLOCK_OFFSET_MASK_mask head Let_def bit_simps)
qed

lemma bit_complete:
  assumes "tm_page_is_complete page" and "i < 8"
  shows "bit (pg_buf_bits page) i"
proof -
  have "bit (ucast (pg_buf_bits page) :: u64) i"
    using assms by (simp add: tm_page_is_complete_def all_buf_bits_set_def TM_BLOCK_OFFSET_MASK_mask bit_simps)
  then show ?thesis by (simp add: bit_simps)
qed

lemma block_address:
  assumes "tm_block_index_at a = b"
  shows "b * 8 + of_nat (unat a mod 8) = (a :: u64)"
proof (rule word_unat_eq_iff [THEN iffD2])
  have b: "unat b = unat a div 8" using assms by (auto simp: unat_block_index)
  have "unat (b * 8) = unat a div 8 * 8"
  proof -
    have "unat a div 8 * 8 \<le> unat a" by simp
    also have "unat a < 2 ^ 64" using unsigned_less [of a] by simp
    finally show ?thesis by (simp add: unat_word_ariths b)
  qed
  moreover have "unat (of_nat (unat a mod 8) :: u64) = unat a mod 8" by (simp add: unat_of_nat)
  moreover have "unat a div 8 * 8 + unat a mod 8 = unat a" by simp
  moreover have "unat a < 2 ^ 64" using unsigned_less [of a] by simp
  ultimately show "unat (b * 8 + of_nat (unat a mod 8)) = unat a"
    by (simp only: unat_word_ariths) simp
qed

lemma page_byte_in_block:
  "tm_block_index_at a = b \<Longrightarrow> page_byte page mem a =
    (if bit (pg_buf_bits page) (unat a mod 8) then pg_buf page ! (unat a mod 8)
     else mem (b * 8 + of_nat (unat a mod 8)))"
  by (simp add: page_byte_def block_address)

lemma page_ld_spec:
  assumes "env_ok env" and "page_inv page (te_mem env)" and "page_lock_ok page env"
    and "tm_page_has_rdlocked_frame page" and "\<not> picotm_error_is_set e"
    and "tm_page_ld page bits env e = (page', env', e')"
  shows "page_step page env page' env' \<and> pg_rwstate page' = pg_rwstate page \<and>
    (\<not> picotm_error_is_set e' \<longrightarrow> (\<forall>i<8. bit bits i \<longrightarrow> bit (pg_buf_bits page') i))"
proof -
  let ?b = "tm_page_block_index page"
  obtain r env1 e1 where acq: "tm_vmem_acquire_frame_by_block ?b env e = (r, env1, e1)" by (metis prod_cases3)
  note spec = acquire_frame_spec [OF acq page_index_is_block assms(1,5)]
  have step1: "page_step page env page env1"
    using spec assms(2,3) by (simp add: page_step_def page_lock_ok_def)
  show ?thesis
  proof (cases r)
    case None
    with assms(6) acq spec have "page' = page" "env' = env1" "picotm_error_is_set e'"
      by (auto simp: tm_page_ld_def picotm_error_mark_as_non_recoverable_def picotm_error_is_set_def)
    with step1 show ?thesis by simp
  next
    case (Some p)
    with spec have p: "e1 = e" "tm_frame_buffer (get_frame env1 p) = ?b * 8" by auto
    define buf where "buf = (if all_buf_bits_set bits \<and> pg_buf_bits page = 0
        then read_bytes (te_mem env1) (?b * 8) 8
        else map (\<lambda>i. if bit bits i \<and> \<not> bit (pg_buf_bits page) i then te_mem env1 (?b * 8 + of_nat i)
                      else pg_buf page ! i) [0..<8])"
    have res: "page' = page\<lparr>pg_buf := buf, pg_buf_bits := pg_buf_bits page OR ucast bits\<rparr>" "env' = env1" "e' = e"
      using assms(6) acq Some p assms(5)
      by (auto simp: tm_page_ld_def Let_def buf_def)
    have buf: "buf ! i = (if bit bits i \<and> \<not> bit (pg_buf_bits page) i then te_mem env1 (?b * 8 + of_nat i)
        else pg_buf page ! i)" if "i < 8" for i
      using that by (auto simp: buf_def read_bytes_def all_buf_bits_set_def TM_BLOCK_OFFSET_MASK_mask bit_simps)
    have bits: "bit (pg_buf_bits page') i \<longleftrightarrow> bit (pg_buf_bits page) i \<or> bit bits i" if "i < 8" for i
      using that by (simp add: res bit_simps)
    have shown: "page_byte page' (te_mem env1) a = page_byte page (te_mem env1) a"
      if "tm_block_index_at a = ?b" for a
    proof -
      have "unat a mod 8 < 8" by simp
      from bits [OF this] buf [OF this] show ?thesis
        unfolding page_byte_in_block [OF that] by (simp add: res)
    qed
    have "length buf = 8" by (simp add: buf_def read_bytes_def)
    then have "page_inv page' (te_mem env1)"
      using step1 assms(4) shown
      by (auto simp: res(1) page_inv_def page_step_def tm_page_has_rdlocked_frame_def picotm_rwstate_get_status_def
          page_write_through_def page_discarded_def tm_page_block_index_def)
    moreover have "page_lock_ok page' env1"
      using step1 by (simp add: page_lock_ok_def page_step_def res(1))
    moreover have "tm_page_has_locked_frame page'"
      using assms(4) by (simp add: res(1) tm_page_has_locked_frame_def tm_page_has_rdlocked_frame_def)
    ultimately show ?thesis using step1 shown bits by (simp add: page_step_def res)
  qed
qed

lemma prepare_page_ld_spec:
  assumes "env_ok env" and "page_inv page (te_mem env)" and "page_lock_ok page env"
    and "waits_ok w" and "\<not> picotm_error_is_set e"
  obtains page' env' e' where "prepare_page_ld w page addr siz env e = Some (page', env', e')"
    and "page_step page env page' env'"
    and "\<not> picotm_error_is_set e' \<Longrightarrow>
      \<forall>i<8. unat addr mod 8 \<le> i \<longrightarrow> i < unat addr mod 8 + siz \<longrightarrow> bit (pg_buf_bits page') i"
proof -
  have plain: "\<not> page_discarded page" using assms(2) by (simp add: page_inv_def)
  obtain p1 env1 e1 where lock: "(if tm_page_has_rdlocked_frame page then Some (page, env, e)
        else tm_page_try_rdlock_frame w page env e) = Some (p1, env1, e1)"
      and step1: "page_step page env p1 env1"
      and locked: "\<not> picotm_error_is_set e1 \<Longrightarrow> tm_page_has_rdlocked_frame p1"
  proof (cases "tm_page_has_rdlocked_frame page")
    case True
    then show thesis using that [of page env e] page_step_refl [OF assms(1-3)] by simp
  next
    case False
    show thesis
      by (rule try_rdlock_frame_spec [OF assms]) (use that False in auto)
  qed
  show thesis
  proof (cases "picotm_error_is_set e1 \<or> tm_page_is_complete p1")
    case True
    with lock plain step1 that [of p1 env1 e1] bit_complete [of p1] show thesis
      by (auto simp: prepare_page_ld_def)
  next
    case False
    obtain p2 env2 e2 where ld: "tm_page_ld p1 (copy_bits addr siz) env1 e1 = (p2, env2, e2)"
      by (metis prod_cases3)
    have s1: "env_ok env1" "page_inv p1 (te_mem env1)" "page_lock_ok p1 env1"
      using step1 by (auto simp: page_step_def)
    have "page_step p1 env1 p2 env2 \<and> pg_rwstate p2 = pg_rwstate p1 \<and>
        (\<not> picotm_error_is_set e2 \<longrightarrow> (\<forall>i<8. bit (copy_bits addr siz) i \<longrightarrow> bit (pg_buf_bits p2) i))"
      by (rule page_ld_spec [OF s1 locked _ ld]) (use False in auto)
    then show thesis
      using that [of p2 env2 e2] lock plain False ld page_step_trans [OF step1]
      by (simp add: prepare_page_ld_def bit_copy_bits)
  qed
qed

lemma prepare_page_st_spec:
  assumes "env_ok env" and "page_inv page (te_mem env)" and "page_lock_ok page env"
    and "waits_ok w" and "\<not> picotm_error_is_set e"
  obtains page' env' e' where "prepare_page_st w page addr siz env e = Some (page', env', e')"
    and "page_step page env page' env'"
    and "\<not> picotm_error_is_set e' \<Longrightarrow> tm_page_has_wrlocked_frame page' \<and>
      (\<forall>i<8. unat addr mod 8 \<le> i \<longrightarrow> i < unat addr mod 8 + siz \<longrightarrow> bit (pg_buf_bits page') i)"
proof -
  have plain: "\<not> page_discarded page" using assms(2) by (simp add: page_inv_def)
  obtain p1 env1 e1 where lock: "(if tm_page_has_wrlocked_frame page then Some (page, env, e)
        else tm_page_try_wrlock_frame w page env e) = Some (p1, env1, e1)"
      and step1: "page_step page env p1 env1"
      and locked: "\<not> picotm_error_is_set e1 \<Longrightarrow> tm_page_has_wrlocked_frame p1"
  proof (cases "tm_page_has_wrlocked_frame page")
    case True
    then show thesis using that [of page env e] page_step_refl [OF assms(1-3)] by simp
  next
    case False
    show thesis
      by (rule try_wrlock_frame_spec [OF assms]) (use that False in auto)
  qed
  show thesis
  proof (cases "picotm_error_is_set e1 \<or> tm_page_is_complete p1")
    case True
    with lock locked plain step1 that [of p1 env1 e1] bit_complete [of p1] show thesis
      by (auto simp: prepare_page_st_def)
  next
    case False
    obtain p2 env2 e2 where ld: "tm_page_ld p1 (copy_bits addr siz) env1 e1 = (p2, env2, e2)"
      by (metis prod_cases3)
    have s1: "env_ok env1" "page_inv p1 (te_mem env1)" "page_lock_ok p1 env1"
      using step1 by (auto simp: page_step_def)
    have wr: "tm_page_has_wrlocked_frame p1" using locked False by simp
    have "page_step p1 env1 p2 env2 \<and> pg_rwstate p2 = pg_rwstate p1 \<and>
        (\<not> picotm_error_is_set e2 \<longrightarrow> (\<forall>i<8. bit (copy_bits addr siz) i \<longrightarrow> bit (pg_buf_bits p2) i))"
      by (rule page_ld_spec [OF s1 _ _ ld])
        (use False wr in \<open>auto simp: tm_page_has_wrlocked_frame_def tm_page_has_rdlocked_frame_def\<close>)
    then show thesis
      using that [of p2 env2 e2] lock plain False ld wr page_step_trans [OF step1]
      by (simp add: prepare_page_st_def bit_copy_bits tm_page_has_wrlocked_frame_def)
  qed
qed

end
