(* ===== verification/Tm_Vmem_Spec.thy ===== *)
theory Tm_Vmem_Spec
  imports Tm_Page_Spec
begin

text \<open>
  The abstract memory of a transaction: \<open>tx_view\<close> maps every address to the byte that the transaction
  sees there.  Loads read this memory, stores update it while main memory stays as it is, \<open>apply\<close> makes
  it main memory, and \<open>undo\<close> and \<open>finish\<close> leave main memory alone.
\<close>

definition page_at :: "tm_page list \<Rightarrow> u64 \<Rightarrow> tm_page option" where
  "page_at pages b = List.find (\<lambda>p. tm_page_block_index p = b) pages"

definition pages_view :: "tm_page list \<Rightarrow> (u64 \<Rightarrow> u8) \<Rightarrow> u64 \<Rightarrow> u8" where
  "pages_view pages mem a =
     (case page_at pages (tm_block_index_at a) of None \<Rightarrow> mem a | Some p \<Rightarrow> page_byte p mem a)"

definition tx_view :: "tm_vmem_tx \<Rightarrow> tm_env \<Rightarrow> u64 \<Rightarrow> u8" where
  "tx_view tx env = pages_view (vt_active tx) (te_mem env)"

definition pages_sorted :: "tm_page list \<Rightarrow> bool" where
  "pages_sorted pages \<longleftrightarrow> sorted_wrt (\<lambda>p q. tm_page_block_index p < tm_page_block_index q) pages"

definition tx_inv :: "tm_vmem_tx \<Rightarrow> tm_env \<Rightarrow> bool" where
  "tx_inv tx env \<longleftrightarrow> env_ok env \<and> pages_sorted (vt_active tx) \<and>
     (\<forall>p\<in>set (vt_active tx). page_inv p (te_mem env) \<and> page_lock_ok p env) \<and>
     (\<forall>p\<in>set (vt_alloced tx). length (pg_buf p) = 8)"

text \<open>The blocks that a transaction has locked.\<close>

definition tx_locks :: "tm_vmem_tx \<Rightarrow> u64 \<Rightarrow> bool" where
  "tx_locks tx b \<longleftrightarrow> (\<exists>p\<in>set (vt_active tx). tm_page_block_index p = b \<and> tm_page_has_locked_frame p)"

subsection \<open>Sorted lists of pages\<close>

lemma page_at_Nil [simp]: "page_at [] b = None"
  by (simp add: page_at_def)

lemma page_at_Cons [simp]:
  "page_at (p # ps) b = (if tm_page_block_index p = b then Some p else page_at ps b)"
  by (simp add: page_at_def)

lemma page_at_append: "page_at (ps @ qs) b = (case page_at ps b of None \<Rightarrow> page_at qs b | Some p \<Rightarrow> Some p)"
  by (induction ps) simp_all

lemma page_at_None: "page_at ps b = None \<longleftrightarrow> (\<forall>p\<in>set ps. tm_page_block_index p \<noteq> b)"
  by (induction ps) auto

lemma page_at_Some: "page_at ps b = Some p \<Longrightarrow> p \<in> set ps \<and> tm_page_block_index p = b"
  by (induction ps) (auto split: if_splits)

lemma pages_sorted_split:
  assumes "pages_sorted (pre @ p # post)"
  shows "page_at pre (tm_page_block_index p) = None" and "page_at post (tm_page_block_index p) = None"
    and "q \<in> set pre \<union> set post \<Longrightarrow> tm_page_block_index q \<noteq> tm_page_block_index p"
  using assms by (auto simp: pages_sorted_def sorted_wrt_append page_at_None)

lemma pages_sorted_replace:
  "pages_sorted (pre @ p # post) \<Longrightarrow> tm_page_block_index p' = tm_page_block_index p \<Longrightarrow>
    pages_sorted (pre @ p' # post)"
  by (simp add: pages_sorted_def sorted_wrt_append)

lemma pages_view_split:
  assumes "pages_sorted (pre @ p # post)"
  shows "pages_view (pre @ p # post) mem a =
    (if tm_block_index_at a = tm_page_block_index p then page_byte p mem a
     else pages_view (pre @ post) mem a)"
  using pages_sorted_split(1,2) [OF assms]
  by (auto simp: pages_view_def page_at_append split: option.splits)

lemma get_page_split:
  assumes "pages_sorted (vt_active tx)" and "vt_active tx = pre @ p # post"
  shows "get_page tx (tm_page_block_index p) = p"
proof -
  have "filter (\<lambda>q. tm_page_block_index q = tm_page_block_index p) pre = []"
    using pages_sorted_split(3) [of pre p post] assms by (auto simp: filter_empty_conv)
  then show ?thesis by (simp add: get_page_def assms(2))
qed

lemma put_page_split:
  assumes "pages_sorted (vt_active tx)" and "vt_active tx = pre @ p # post"
  shows "vt_active (put_page (tm_page_block_index p) p' tx) = pre @ p' # post"
proof -
  have "map (\<lambda>q. if tm_page_block_index q = tm_page_block_index p then p' else q) qs = qs"
    if "set qs \<subseteq> set pre \<union> set post" for qs
    using pages_sorted_split(3) [of pre p post] assms that by (intro map_idI) auto
  then show ?thesis by (simp add: put_page_def assms(2))
qed

lemma put_page_alloced [simp]: "vt_alloced (put_page b p tx) = vt_alloced tx"
  by (simp add: put_page_def)

subsection \<open>Acquiring a page\<close>

lemma fresh_page_inv:
  assumes "length (pg_buf page) = 8" and "is_block b"
  shows "tm_page_block_index (tm_page_init page b) = b"
    and "page_inv (tm_page_init page b) mem" and "page_byte (tm_page_init page b) mem a = mem a"
    and "page_lock_ok (tm_page_init page b) env"
proof -
  have bits: "\<not> bit (push_bit 3 b) 0" "\<not> bit (push_bit 3 b) 1" by (simp_all add: bit_simps)
  have "push_bit 3 b AND 1 = 0" by (rule bit_eqI) (use bits in \<open>auto simp: bit_simps\<close>)
  moreover have "push_bit 3 b AND 2 = 0"
    by (rule bit_eqI) (use bits in \<open>auto simp: bit_simps bit_2_iff\<close>)
  ultimately show "page_inv (tm_page_init page b) mem"
    using assms(1) by (simp add: page_inv_def tm_page_init_def page_write_through_def page_discarded_def
        TM_PAGE_FLAG_WRITE_THROUGH_def TM_PAGE_FLAG_DISCARDED_def TM_BLOCK_SIZE_BITS_def
        picotm_rwstate_init_def page_byte_def)
  show "tm_page_block_index (tm_page_init page b) = b"
    using assms(2) unat_push_3 [of b]
    by (simp add: tm_page_block_index_def tm_page_init_def TM_BLOCK_SIZE_BITS_def word_unat_eq_iff
        unat_drop_3 is_block_def)
  show "page_byte (tm_page_init page b) mem a = mem a"
    by (simp add: page_byte_def tm_page_init_def)
  show "page_lock_ok (tm_page_init page b) env"
    by (simp add: page_lock_ok_def rwstate_agrees_def tm_page_init_def picotm_rwstate_init_def)
qed

lemma acquire_page_spec:
  assumes "acquire_page_by_block tx b env e = (r, tx', env', e')" and "is_block b"
    and "tx_inv tx env" and "\<not> picotm_error_is_set e"
  shows "tx_inv tx' env' \<and> te_mem env' = te_mem env \<and> tx_view tx' env' = tx_view tx env \<and>
    (\<forall>c. tx_locks tx c \<longrightarrow> tx_locks tx' c) \<and>
    (case r of None \<Rightarrow> picotm_error_is_set e'
     | Some b' \<Rightarrow> b' = b \<and> e' = e \<and>
         (\<exists>pre p post. vt_active tx' = pre @ p # post \<and> tm_page_block_index p = b))"
proof -
  let ?P = "\<lambda>p. \<not> find_page_by_block_index b p"
  define before pos where "before = takeWhile ?P (vt_active tx)" and "pos = dropWhile ?P (vt_active tx)"
  have active: "vt_active tx = before @ pos" by (simp add: before_def pos_def)
  have sorted: "pages_sorted (before @ pos)" using assms(3) active by (simp add: tx_inv_def)
  have below: "tm_page_block_index p < b" if "p \<in> set before" for p
    using that set_takeWhileD [of p ?P "vt_active tx"]
    by (auto simp: before_def find_page_by_block_index_def not_le)
  have above: "b \<le> tm_page_block_index p" if "p \<in> set pos" for p
  proof (cases pos)
    case (Cons q qs)
    then have "b \<le> tm_page_block_index q"
      using hd_dropWhile [of ?P "vt_active tx"] by (simp add: pos_def find_page_by_block_index_def)
    with Cons sorted that show ?thesis by (auto simp: pages_sorted_def sorted_wrt_append)
  qed (use that in simp)
  show ?thesis
  proof (cases "pos \<noteq> [] \<and> tm_page_block_index (hd pos) = b")
    case True
    then obtain p post where p: "pos = p # post" "tm_page_block_index p = b" by (cases pos) auto
    have "r = Some b" "tx' = tx" "env' = env" "e' = e"
      using assms(1) True by (simp_all add: acquire_page_by_block_def Let_def pos_def)
    with assms(3) active p show ?thesis by auto
  next
    case False
    have no_page: "tm_page_block_index p \<noteq> b" if "p \<in> set (before @ pos)" for p
      using that below above [of "hd pos"] False sorted
      by (cases pos) (auto simp: pages_sorted_def sorted_wrt_append dest: leD)
    obtain q tx1 env1 e1 where alloc: "alloc_page tx env e = (q, tx1, env1, e1)" by (metis prod_cases4)
    have a: "env_ok env1 \<and> te_mem env1 = te_mem env \<and> (\<forall>b. block_lock env1 b = block_lock env b) \<and>
        vt_active tx1 = vt_active tx \<and> (\<forall>p\<in>set (vt_alloced tx1). length (pg_buf p) = 8) \<and>
        (case q of None \<Rightarrow> picotm_error_is_set e1 | Some page \<Rightarrow> e1 = e \<and> length (pg_buf page) = 8)"
      using alloc assms(3)
      by (auto simp: alloc_page_def Let_def tx_inv_def env_ok_def frames_ok_def block_lock_def get_frame_def
          split: list.splits option.splits)
    have locks: "page_lock_ok p env1 = page_lock_ok p env" for p using a by (simp add: page_lock_ok_def)
    show ?thesis
    proof (cases q)
      case None
      with alloc False assms(1) have "r = None" "tx' = tx1" "env' = env1" "e' = e1"
        by (auto simp: acquire_page_by_block_def Let_def pos_def [symmetric])
      with a None assms(3) show ?thesis by (simp add: tx_inv_def tx_view_def locks tx_locks_def)
    next
      case (Some page)
      with a have page: "e1 = e" "length (pg_buf page) = 8" by auto
      let ?p = "tm_page_init page b"
      have r: "r = Some b" "tx' = tx1\<lparr>vt_active := before @ ?p # pos\<rparr>" "env' = env1" "e' = e"
        using alloc False assms(1,4) Some page
        by (auto simp: acquire_page_by_block_def Let_def pos_def [symmetric] before_def [symmetric])
      note fresh = fresh_page_inv [OF page(2) assms(2)]
      have sorted': "pages_sorted (before @ ?p # pos)"
        using sorted below above no_page fresh(1)
        by (auto simp: pages_sorted_def sorted_wrt_append order_le_less)
      have "tx_view tx' env' a = tx_view tx env a" for a
      proof -
        have "pages_view (before @ pos) (te_mem env) a = te_mem env a" if "tm_block_index_at a = b"
        proof -
          have "page_at (before @ pos) b = None" using no_page by (simp add: page_at_None)
          then show ?thesis by (simp add: pages_view_def that)
        qed
        then show ?thesis
          using a fresh(1,3) by (simp add: tx_view_def r active pages_view_split [OF sorted'])
      qed
      then have "tx_view tx' env' = tx_view tx env" by (rule ext)
      moreover have "tx_inv tx' env'"
        using a assms(3) sorted' fresh(2,4) active by (auto simp: tx_inv_def r locks)
      moreover have "tx_locks tx' c" if "tx_locks tx c" for c
        using that by (auto simp: tx_locks_def active r)
      ultimately show ?thesis using a r fresh(1) by auto
    qed
  qed
qed

subsection \<open>Changing a page\<close>

lemma tx_page:
  assumes "tx_inv tx env" and "vt_active tx = pre @ p # post"
  shows "env_ok env" and "page_inv p (te_mem env)" and "page_lock_ok p env"
    and "get_page tx (tm_page_block_index p) = p"
  using assms get_page_split [OF _ assms(2)] by (auto simp: tx_inv_def)

lemma other_lock_ok:
  assumes "\<forall>b. is_block b \<longrightarrow> b \<noteq> tm_page_block_index p \<longrightarrow> block_lock env' b = block_lock env b"
    and "tm_page_block_index q \<noteq> tm_page_block_index p"
  shows "page_lock_ok q env' = page_lock_ok q env"
  using assms by (simp add: page_lock_ok_def)

lemma put_page_step:
  assumes inv: "tx_inv tx env" and tx: "vt_active tx = pre @ p # post" and step: "page_step p env p' env'"
  shows "tx_inv (put_page (tm_page_block_index p) p' tx) env'"
    and "tx_view (put_page (tm_page_block_index p) p' tx) env' = tx_view tx env"
    and "vt_active (put_page (tm_page_block_index p) p' tx) = pre @ p' # post"
    and "tx_locks tx c \<Longrightarrow> tx_locks (put_page (tm_page_block_index p) p' tx) c"
proof -
  let ?tx = "put_page (tm_page_block_index p) p' tx"
  have sorted: "pages_sorted (pre @ p # post)" using inv tx by (simp add: tx_inv_def)
  show active: "vt_active ?tx = pre @ p' # post"
    by (rule put_page_split [OF _ tx]) (use sorted tx in simp)
  have idx: "tm_page_block_index p' = tm_page_block_index p" by (rule page_step_block [OF step])
  have sorted': "pages_sorted (pre @ p' # post)" by (rule pages_sorted_replace [OF sorted idx])
  have mem: "te_mem env' = te_mem env" using step by (simp add: page_step_def)
  have "page_lock_ok q env'" if "q \<in> set pre \<union> set post" for q
    using other_lock_ok [of p env' env q] pages_sorted_split(3) [OF sorted that] step inv tx that
    by (auto simp: page_step_def tx_inv_def)
  then show "tx_inv ?tx env'"
    using inv step tx sorted' active by (auto simp: tx_inv_def page_step_def)
  have "tx_view ?tx env' a = tx_view tx env a" for a
    using step unfolding tx_view_def active tx
    by (simp add: pages_view_split [OF sorted] pages_view_split [OF sorted'] idx mem page_step_def)
  then show "tx_view ?tx env' = tx_view tx env" by (rule ext)
  show "tx_locks tx c \<Longrightarrow> tx_locks ?tx c"
    using step idx unfolding tx_locks_def active tx page_step_def by auto
qed

text \<open>Bytes of the view, and their replacement.\<close>

lemma read_bytes_append:
  "read_bytes mem addr n @ read_bytes mem (addr + of_nat n) m = read_bytes mem addr (n + m)"
proof -
  have "[0..<n + m] = [0..<n] @ [n..<n + m]" by (rule upt_add_eq_append) simp
  moreover have "[n..<n + m] = map (\<lambda>i. i + n) [0..<m]" by (simp add: map_add_upt add.commute)
  ultimately show ?thesis by (simp add: read_bytes_def comp_def algebra_simps)
qed

lemma page_head:
  assumes "tm_page_block_index page = tm_block_index_at addr"
  shows "unat (addr - tm_page_address page) = unat addr mod 8"
proof -
  have "addr - tm_page_address page = of_nat (unat addr mod 8)"
    using block_address [OF assms [symmetric]]
    by (simp add: tm_page_address_def algebra_simps)
  then show ?thesis by (simp add: unat_of_nat)
qed

lemma block_index_add:
  assumes "unat addr mod 8 + i < 8"
  shows "tm_block_index_at (addr + of_nat i) = tm_block_index_at addr"
    and "unat (addr + of_nat i) mod 8 = unat addr mod 8 + i"
proof -
  have "unat addr = 8 * (unat addr div 8) + unat addr mod 8" by (rule mult_div_mod_eq [symmetric])
  moreover have "unat addr div 8 < 2305843009213693952"
    using unsigned_less [of addr, where 'a = nat] by simp
  ultimately have "unat addr + i < 18446744073709551616" using assms by linarith
  then have small: "unat addr + i < 2 ^ 64" by simp
  then have sum: "unat (addr + of_nat i) = unat addr + i"
    by (simp add: unat_word_ariths unat_of_nat)
  have arith: "(x + i) mod 8 = x mod 8 + i \<and> (x + i) div 8 = x div 8" if "x mod 8 + i < 8" for x :: nat
  proof -
    have "x + i = 8 * (x div 8) + (x mod 8 + i)" by simp
    then have "(x + i) mod 8 = (x mod 8 + i) mod 8" "(x + i) div 8 = x div 8 + (x mod 8 + i) div 8"
      by (metis mod_mult_self4, metis div_mult_self4 add.commute zero_neq_numeral)
    with that show ?thesis by simp
  qed
  show "unat (addr + of_nat i) mod 8 = unat addr mod 8 + i"
    using arith [OF assms] by (simp only: sum)
  have "(unat addr + i) div 8 = unat addr div 8" using arith [OF assms] by (rule conjunct2)
  with sum show "tm_block_index_at (addr + of_nat i) = tm_block_index_at addr"
    by (simp add: word_unat_eq_iff unat_block_index)
qed

text \<open>Reading from the buffer of a page reads what the page shows.\<close>

lemma page_buffer_read:
  assumes "page_inv page mem" and "te_mem env = mem"
    and "tm_page_block_index page = tm_block_index_at addr" and "unat addr mod 8 + n \<le> 8"
    and "\<forall>i<8. unat addr mod 8 \<le> i \<longrightarrow> i < unat addr mod 8 + n \<longrightarrow> bit (pg_buf_bits page) i"
  shows "tm_page_buffer_read page env (unat addr mod 8) n = read_bytes (page_byte page mem) addr n"
proof (rule nth_equalityI)
  have len: "length (pg_buf page) = 8" "\<not> page_write_through page" using assms(1) by (auto simp: page_inv_def)
  show "length (tm_page_buffer_read page env (unat addr mod 8) n) =
      length (read_bytes (page_byte page mem) addr n)"
    using len assms(4) by (simp add: tm_page_buffer_read_def read_bytes_def)
  fix i assume "i < length (tm_page_buffer_read page env (unat addr mod 8) n)"
  then have i: "i < n" using len assms(4) by (simp add: tm_page_buffer_read_def)
  then have "bit (pg_buf_bits page) (unat addr mod 8 + i)" using assms(4,5) by simp
  moreover have "unat (addr + of_nat i) mod 8 = unat addr mod 8 + i"
    by (rule block_index_add) (use i assms(4) in simp)
  ultimately show "tm_page_buffer_read page env (unat addr mod 8) n ! i =
      read_bytes (page_byte page mem) addr n ! i"
    using i len assms(4) by (simp add: tm_page_buffer_read_def read_bytes_def page_byte_def)
qed

lemma locks_range:
  assumes "n \<le> siz"
  shows "(\<forall>i < siz. P (addr + of_nat i :: u64)) \<longleftrightarrow>
    (\<forall>i<n. P (addr + of_nat i)) \<and> (\<forall>i < siz - n. P (addr + of_nat n + of_nat i))"
proof -
  have "P (addr + of_nat i)" if "\<forall>i < siz - n. P (addr + of_nat n + of_nat i)" "n \<le> i" "i < siz" for i
  proof -
    have "i - n < siz - n" using that(2,3) by simp
    with that(1) have "P (addr + of_nat n + of_nat (i - n))" by blast
    then show ?thesis using that(2) by (simp add: of_nat_diff)
  qed
  moreover have "P (addr + of_nat n + of_nat i)" if "\<forall>i < siz. P (addr + of_nat i)" "i < siz - n" for i
  proof -
    have "n + i < siz" using that(2) by simp
    with that(1) have "P (addr + of_nat (n + i))" by blast
    then show ?thesis by (simp add: add.assoc)
  qed
  ultimately show ?thesis using assms by (meson less_le_trans not_le)
qed

text \<open>A load returns the bytes of the view and does not change it.\<close>

theorem ld_loop_spec:
  assumes "tx_inv tx env" and "waits_ok w" and "\<not> picotm_error_is_set e" and "siz \<le> fuel"
  shows "\<exists>bs tx' env' e'. tm_vmem_tx_ld_loop fuel w tx addr buf siz env e = Some (bs, tx', env', e') \<and>
    tx_inv tx' env' \<and> tx_view tx' env' = tx_view tx env \<and> te_mem env' = te_mem env \<and>
    (\<forall>c. tx_locks tx c \<longrightarrow> tx_locks tx' c) \<and>
    (\<not> picotm_error_is_set e' \<longrightarrow> bs = buf @ read_bytes (tx_view tx env) addr siz \<and>
      (\<forall>i < siz. tx_locks tx' (tm_block_index_at (addr + of_nat i))))"
  using assms
proof (induction fuel arbitrary: tx addr buf siz env e)
  case 0
  then show ?case by (simp add: read_bytes_def)
next
  case (Suc fuel)
  show ?case
  proof (cases "siz = 0")
    case True
    with Suc.prems show ?thesis by (simp add: read_bytes_def)
  next
    case False
    let ?b = "tm_block_index_at addr"
    obtain r tx1 env1 e1 where acq: "acquire_page_by_block tx ?b env e = (r, tx1, env1, e1)"
      by (metis prod_cases4)
    note spec = acquire_page_spec [OF acq block_index_is_block Suc.prems(1,3)]
    show ?thesis
    proof (cases r)
      case None
      with spec acq False show ?thesis by (simp add: acquire_page_by_address_def)
    next
      case (Some b)
      with spec obtain pre p post where p: "vt_active tx1 = pre @ p # post" "tm_page_block_index p = ?b"
          and b: "b = ?b" "e1 = e" by auto
      have inv1: "tx_inv tx1 env1" and view1: "tx_view tx1 env1 = tx_view tx env"
          and mem1: "te_mem env1 = te_mem env" using spec by auto
      note page = tx_page [OF inv1 p(1)]
      obtain p2 env2 e2 where prep: "prepare_page_ld w p addr siz env1 e = Some (p2, env2, e2)"
          and step: "page_step p env1 p2 env2"
          and bits: "\<not> picotm_error_is_set e2 \<Longrightarrow>
            \<forall>i<8. unat addr mod 8 \<le> i \<longrightarrow> i < unat addr mod 8 + siz \<longrightarrow> bit (pg_buf_bits p2) i"
        using prepare_page_ld_spec [OF page(1-3) Suc.prems(2,3)] by metis
      define tx2 where "tx2 = put_page ?b p2 tx1"
      note put = put_page_step [OF inv1 p(1) step, unfolded p(2), folded tx2_def]
      have mem2: "te_mem env2 = te_mem env" using step mem1 by (simp add: page_step_def)
      define n where "n = (if siz < 8 - unat addr mod 8 then siz else 8 - unat addr mod 8)"
      have n: "0 < n" "n \<le> siz" "unat addr mod 8 + n \<le> 8" using False by (auto simp: n_def)
      have idx: "tm_page_block_index p2 = ?b" using page_step_block [OF step] p(2) by simp
      have mono: "tx_locks tx2 c" if "tx_locks tx c" for c
        using that spec put(4) [of c] by blast
      show ?thesis
      proof (cases "picotm_error_is_set e2")
        case True
        with mono put view1 mem2 acq False Some b prep page(4) p(2) show ?thesis
          by (simp add: acquire_page_by_address_def tx2_def)
      next
        case ok: False
        have "tm_vmem_tx_ld_loop (Suc fuel) w tx addr buf siz env e =
            tm_vmem_tx_ld_loop fuel w tx2 (addr + of_nat n)
              (buf @ tm_page_buffer_read p2 env2 (unat addr mod 8) n) (siz - n) env2 e2"
          using False acq Some b prep ok page(4) p(2) page_head [OF idx]
          by (simp add: acquire_page_by_address_def tx2_def n_def Let_def)
        moreover have "tm_page_buffer_read p2 env2 (unat addr mod 8) n = read_bytes (tx_view tx env) addr n"
        proof -
          have "page_inv p2 (te_mem env2)" using step unfolding page_step_def by blast
          from page_buffer_read [OF this refl idx n(3)] bits [OF ok] n(2)
          have "tm_page_buffer_read p2 env2 (unat addr mod 8) n = read_bytes (page_byte p2 (te_mem env2)) addr n"
            by simp
          also have "\<dots> = read_bytes (tx_view tx2 env2) addr n"
          proof -
            have "pages_sorted (pre @ p2 # post)" using put(1,3) by (simp add: tx_inv_def)
            from pages_view_split [OF this] have "tx_view tx2 env2 (addr + of_nat i) =
                page_byte p2 (te_mem env2) (addr + of_nat i)" if "i < n" for i
              using block_index_add(1) [of addr i] that n(3) by (simp add: tx_view_def put(3) idx)
            then show ?thesis by (simp add: read_bytes_def)
          qed
          finally show ?thesis using put(2) view1 by simp
        qed
        moreover have "\<exists>bs tx' env' e'. tm_vmem_tx_ld_loop fuel w tx2 (addr + of_nat n)
            (buf @ read_bytes (tx_view tx env) addr n) (siz - n) env2 e2 = Some (bs, tx', env', e') \<and>
          tx_inv tx' env' \<and> tx_view tx' env' = tx_view tx2 env2 \<and> te_mem env' = te_mem env2 \<and>
          (\<forall>c. tx_locks tx2 c \<longrightarrow> tx_locks tx' c) \<and>
          (\<not> picotm_error_is_set e' \<longrightarrow> bs = (buf @ read_bytes (tx_view tx env) addr n) @
            read_bytes (tx_view tx2 env2) (addr + of_nat n) (siz - n) \<and>
            (\<forall>i < siz - n. tx_locks tx' (tm_block_index_at (addr + of_nat n + of_nat i))))"
          by (rule Suc.IH [OF put(1) Suc.prems(2) ok]) (use n Suc.prems(4) in simp)
        moreover have "tx_locks tx2 ?b"
        proof -
          have "unat addr mod 8 < 8" by simp
          then have "bit (pg_buf_bits p2) (unat addr mod 8)" using bits [OF ok] False by simp
          then have "pg_buf_bits p2 \<noteq> 0" by auto
          then have "tm_page_has_locked_frame p2"
            using step by (auto simp: page_step_def page_inv_def tm_page_has_locked_frame_def
                picotm_rwstate_get_status_def)
          then show ?thesis using put(3) idx by (auto simp: tx_locks_def)
        qed
        moreover have "tx_locks tx2 (tm_block_index_at (addr + of_nat i))" if "i < n" "tx_locks tx2 ?b" for i
          using block_index_add(1) [of addr i] that n(3) by simp
        ultimately show ?thesis
          using mono put(2) view1 mem2 n(2) read_bytes_append [of "tx_view tx env" addr n "siz - n"]
          by (auto simp: locks_range [OF n(2), of "\<lambda>a. tx_locks t (tm_block_index_at a)" addr for t])
      qed
    qed
  qed
qed

subsection \<open>Stores\<close>

lemma range_in_block:
  assumes "unat addr mod 8 + n \<le> 8"
  shows "unat (a - addr) < n \<longleftrightarrow> tm_block_index_at a = tm_block_index_at addr \<and>
      unat addr mod 8 \<le> unat a mod 8 \<and> unat a mod 8 < unat addr mod 8 + n"
    and "unat (a - addr) < n \<Longrightarrow> unat (a - addr) = unat a mod 8 - unat addr mod 8"
proof -
  have inside: "tm_block_index_at a = tm_block_index_at addr \<and> unat a mod 8 = unat addr mod 8 + unat (a - addr)"
    if "unat (a - addr) < n"
    using block_index_add [of addr "unat (a - addr)"] assms that by simp
  moreover have "unat (a - addr) < n" if "tm_block_index_at a = tm_block_index_at addr"
      "unat addr mod 8 \<le> unat a mod 8" "unat a mod 8 < unat addr mod 8 + n"
  proof -
    have "a - addr = of_nat (unat a mod 8) - of_nat (unat addr mod 8)"
      using block_address [OF that(1)] block_address [of addr, OF refl] by (metis add_diff_cancel_left)
    also have "\<dots> = of_nat (unat a mod 8 - unat addr mod 8)" using that(2) by (simp add: of_nat_diff)
    finally have "unat (a - addr) = (unat a mod 8 - unat addr mod 8) mod 2 ^ 64"
      by (simp only: unat_of_nat) simp
    also have "\<dots> = unat a mod 8 - unat addr mod 8" by (rule mod_less) simp
    finally show ?thesis using that(2,3) by linarith
  qed
  ultimately show "unat (a - addr) < n \<longleftrightarrow> tm_block_index_at a = tm_block_index_at addr \<and>
      unat addr mod 8 \<le> unat a mod 8 \<and> unat a mod 8 < unat addr mod 8 + n" by fastforce
  show "unat (a - addr) < n \<Longrightarrow> unat (a - addr) = unat a mod 8 - unat addr mod 8"
    using inside by simp
qed

lemma unat_sub_of_nat:
  fixes x :: u64
  assumes "n < 2 ^ 64"
  shows "unat (x - of_nat n) = (if n \<le> unat x then unat x - n else 2 ^ 64 + unat x - n)"
  using assms by (auto simp: unat_sub_if_size word_size unat_of_nat)

lemma write_bytes_append:
  assumes "length bs1 + length bs2 < 2 ^ 64"
  shows "write_bytes (write_bytes f addr bs1) (addr + of_nat (length bs1)) bs2 =
    write_bytes f addr (bs1 @ bs2)"
proof
  fix a
  let ?n = "length bs1" and ?d = "unat (a - addr)"
  have d: "?d < 2 ^ 64" using unsigned_less [of "a - addr", where 'a = nat] by simp
  have n: "unat (of_nat ?n :: u64) = ?n" using assms by (simp add: unat_of_nat)
  have sub: "a - (addr + of_nat ?n) = (a - addr) - of_nat ?n" by simp
  have dist: "unat (a - (addr + of_nat ?n)) = (if ?n \<le> ?d then ?d - ?n else 2 ^ 64 + ?d - ?n)"
    unfolding sub by (rule unat_sub_of_nat) (use assms in simp)
  show "write_bytes (write_bytes f addr bs1) (addr + of_nat ?n) bs2 a = write_bytes f addr (bs1 @ bs2) a"
  proof (cases "?n \<le> ?d")
    case True
    then show ?thesis by (auto simp: write_bytes_def dist nth_append)
  next
    case False
    then show ?thesis using assms by (auto simp: write_bytes_def dist nth_append)
  qed
qed

lemma page_buffer_write:
  assumes inv: "page_inv page mem" and wr: "tm_page_has_wrlocked_frame page"
    and idx: "tm_page_block_index page = tm_block_index_at addr" and n: "unat addr mod 8 + length bs \<le> 8"
    and bits: "\<forall>i<8. unat addr mod 8 \<le> i \<longrightarrow> i < unat addr mod 8 + length bs \<longrightarrow> bit (pg_buf_bits page) i"
  obtains page' where "tm_page_buffer_write page env (unat addr mod 8) bs = (page', env)"
    and "page_inv page' mem" and "pg_flags page' = pg_flags page" and "pg_rwstate page' = pg_rwstate page"
    and "\<And>a. tm_block_index_at a = tm_block_index_at addr \<Longrightarrow>
      page_byte page' mem a = write_bytes (page_byte page mem) addr bs a"
proof -
  let ?h = "unat addr mod 8"
  let ?p = "page\<lparr>pg_buf := take ?h (pg_buf page) @ bs @ drop (?h + length bs) (pg_buf page)\<rparr>"
  have len: "length (pg_buf page) = 8" using inv by (simp add: page_inv_def)
  have "tm_page_buffer_write page env ?h bs = (?p, env)"
    using inv by (simp add: tm_page_buffer_write_def page_inv_def)
  moreover have "page_inv ?p mem"
    using inv wr n len by (auto simp: page_inv_def tm_page_has_wrlocked_frame_def picotm_rwstate_get_status_def)
  moreover have "page_byte ?p mem a = write_bytes (page_byte page mem) addr bs a"
    if "tm_block_index_at a = tm_block_index_at addr" for a
  proof -
    have nth: "pg_buf ?p ! i = (if ?h \<le> i \<and> i < ?h + length bs then bs ! (i - ?h) else pg_buf page ! i)"
      if "i < 8" for i
      using that len n by (auto simp: nth_append)
    have a8: "unat a mod 8 < 8" by simp
    show ?thesis
      using range_in_block [OF n, of a] that nth [OF a8] bits a8
      by (auto simp: page_byte_def write_bytes_def)
  qed
  ultimately show thesis using that by simp
qed

lemma put_page_write:
  assumes inv: "tx_inv tx env" and tx: "vt_active tx = pre @ p # post"
    and p': "page_inv p' (te_mem env)" "pg_flags p' = pg_flags p" "pg_rwstate p' = pg_rwstate p"
  shows "tx_inv (put_page (tm_page_block_index p) p' tx) env"
    and "tx_view (put_page (tm_page_block_index p) p' tx) env a =
      (if tm_block_index_at a = tm_page_block_index p then page_byte p' (te_mem env) a else tx_view tx env a)"
proof -
  let ?tx = "put_page (tm_page_block_index p) p' tx"
  have sorted: "pages_sorted (pre @ p # post)" using inv tx by (simp add: tx_inv_def)
  have active: "vt_active ?tx = pre @ p' # post"
    by (rule put_page_split [OF _ tx]) (use sorted tx in simp)
  have idx: "tm_page_block_index p' = tm_page_block_index p" using p'(2) by (simp add: tm_page_block_index_def)
  have sorted': "pages_sorted (pre @ p' # post)" by (rule pages_sorted_replace [OF sorted idx])
  have "page_lock_ok p' env" using tx_page(3) [OF inv tx] p' idx by (simp add: page_lock_ok_def)
  then show "tx_inv ?tx env" using inv tx p'(1) active sorted' by (auto simp: tx_inv_def)
  show "tx_view ?tx env a =
      (if tm_block_index_at a = tm_page_block_index p then page_byte p' (te_mem env) a else tx_view tx env a)"
    unfolding tx_view_def active tx
    by (simp add: pages_view_split [OF sorted] pages_view_split [OF sorted'] idx)
qed

text \<open>A store replaces bytes of the view and leaves main memory alone.\<close>

theorem st_loop_spec:
  assumes "tx_inv tx env" and "waits_ok w" and "\<not> picotm_error_is_set e" and "length buf \<le> fuel"
    and "length buf < 2 ^ 64"
  shows "\<exists>tx' env' e'. tm_vmem_tx_st_loop fuel w tx addr buf env e = Some (tx', env', e') \<and>
    tx_inv tx' env' \<and> te_mem env' = te_mem env \<and>
    (\<not> picotm_error_is_set e' \<longrightarrow> tx_view tx' env' = write_bytes (tx_view tx env) addr buf)"
  using assms
proof (induction fuel arbitrary: tx addr buf env e)
  case 0
  then show ?case by (simp add: write_bytes_def)
next
  case (Suc fuel)
  show ?case
  proof (cases "buf = []")
    case True
    with Suc.prems show ?thesis by (simp add: write_bytes_def)
  next
    case False
    let ?b = "tm_block_index_at addr"
    obtain r tx1 env1 e1 where acq: "acquire_page_by_block tx ?b env e = (r, tx1, env1, e1)"
      by (metis prod_cases4)
    note spec = acquire_page_spec [OF acq block_index_is_block Suc.prems(1,3)]
    show ?thesis
    proof (cases r)
      case None
      with spec acq False show ?thesis by (simp add: acquire_page_by_address_def)
    next
      case (Some b)
      with spec obtain pre p post where p: "vt_active tx1 = pre @ p # post" "tm_page_block_index p = ?b"
          and b: "b = ?b" "e1 = e" by auto
      have inv1: "tx_inv tx1 env1" and view1: "tx_view tx1 env1 = tx_view tx env"
          and mem1: "te_mem env1 = te_mem env" using spec by auto
      note page = tx_page [OF inv1 p(1)]
      obtain p2 env2 e2 where prep: "prepare_page_st w p addr (length buf) env1 e = Some (p2, env2, e2)"
          and step: "page_step p env1 p2 env2"
          and bits: "\<not> picotm_error_is_set e2 \<Longrightarrow> tm_page_has_wrlocked_frame p2 \<and>
            (\<forall>i<8. unat addr mod 8 \<le> i \<longrightarrow> i < unat addr mod 8 + length buf \<longrightarrow> bit (pg_buf_bits p2) i)"
        using prepare_page_st_spec [OF page(1-3) Suc.prems(2,3)] by metis
      define tx2 where "tx2 = put_page ?b p2 tx1"
      note put = put_page_step [OF inv1 p(1) step, unfolded p(2), folded tx2_def]
      have mem2: "te_mem env2 = te_mem env" using step mem1 by (simp add: page_step_def)
      have idx: "tm_page_block_index p2 = ?b" using page_step_block [OF step] p(2) by simp
      show ?thesis
      proof (cases "picotm_error_is_set e2")
        case True
        with put mem2 acq False Some b prep page(4) p(2) show ?thesis
          by (simp add: acquire_page_by_address_def tx2_def)
      next
        case ok: False
        define n where "n = (if length buf < 8 - unat addr mod 8 then length buf else 8 - unat addr mod 8)"
        have n: "0 < n" "n \<le> length buf" "unat addr mod 8 + n \<le> 8" using False by (auto simp: n_def)
        have bs: "length (take n buf) = n" using n(2) by simp
        have inv2: "page_inv p2 (te_mem env2)" using step unfolding page_step_def by blast
        obtain p3 where p3: "tm_page_buffer_write p2 env2 (unat addr mod 8) (take n buf) = (p3, env2)"
            "page_inv p3 (te_mem env2)" "pg_flags p3 = pg_flags p2" "pg_rwstate p3 = pg_rwstate p2"
            "\<And>a. tm_block_index_at a = ?b \<Longrightarrow>
              page_byte p3 (te_mem env2) a = write_bytes (page_byte p2 (te_mem env2)) addr (take n buf) a"
          by (rule page_buffer_write [OF inv2 conjunct1 [OF bits [OF ok]] idx, of "take n buf" env2])
            (use n bs bits [OF ok] in auto)
        define tx3 where "tx3 = put_page ?b p3 tx2"
        note put3 = put_page_write [OF put(1,3) p3(2-4), unfolded idx, folded tx3_def]
        have same: "put_page ?b p3 tx1 = tx3"
        proof -
          have "put_page ?b p3 (put_page ?b p2 tx1) = put_page ?b p3 tx1"
            using idx by (simp add: put_page_def)
          then show ?thesis by (simp add: tx3_def tx2_def)
        qed
        have sorted2: "pages_sorted (pre @ p2 # post)" using put(1,3) by (simp add: tx_inv_def)
        have view3: "tx_view tx3 env2 = write_bytes (tx_view tx env) addr (take n buf)"
        proof
          fix a
          show "tx_view tx3 env2 a = write_bytes (tx_view tx env) addr (take n buf) a"
          proof (cases "tm_block_index_at a = ?b")
            case True
            have "tx_view tx2 env2 a = page_byte p2 (te_mem env2) a"
              using pages_view_split [OF sorted2, of "te_mem env2" a] True by (simp add: tx_view_def put(3) idx)
            then show ?thesis using True put(2) view1
              by (simp add: put3(2) p3(5)) (simp add: write_bytes_def)
          next
            case other: False
            then have "\<not> unat (a - addr) < n" using range_in_block(1) [OF n(3), of a] by simp
            then show ?thesis using other put(2) view1 bs by (simp add: put3(2) write_bytes_def)
          qed
        qed
        have "tm_vmem_tx_st_loop (Suc fuel) w tx addr buf env e =
            tm_vmem_tx_st_loop fuel w tx3 (addr + of_nat n) (drop n buf) env2 e2"
          using False acq Some b prep ok page(4) p(2) page_head [OF idx] p3(1) same
          by (simp add: acquire_page_by_address_def n_def Let_def split del: if_split)
        moreover have "\<exists>tx' env' e'. tm_vmem_tx_st_loop fuel w tx3 (addr + of_nat n) (drop n buf) env2 e2 =
            Some (tx', env', e') \<and> tx_inv tx' env' \<and> te_mem env' = te_mem env2 \<and>
          (\<not> picotm_error_is_set e' \<longrightarrow>
            tx_view tx' env' = write_bytes (tx_view tx3 env2) (addr + of_nat n) (drop n buf))"
          by (rule Suc.IH [OF put3(1) Suc.prems(2) ok]) (use n Suc.prems(4,5) in simp_all)
        ultimately show ?thesis
          using write_bytes_append [of "take n buf" "drop n buf" "tx_view tx env" addr] bs view3 mem2 Suc.prems(5)
          by simp
      qed
    qed
  qed
qed

end
