(* ===== verification/Tm_Commit.thy ===== *)
theory Tm_Commit
  imports Tm_Vmem_Spec
begin

text \<open>
  The end of a memory transaction: \<open>apply\<close> makes the view of the transaction main memory, \<open>undo\<close> leaves
  main memory alone, and \<open>finish\<close> releases every lock that the transaction holds, each once.
\<close>

subsection \<open>Acquiring the frame of a locked page\<close>

text \<open>The frame of a locked page exists, so that acquiring it cannot fail.\<close>

lemma locked_frame_exists:
  assumes "page_lock_ok page env" and "tm_page_has_locked_frame page" and "env_ok env"
  shows "te_tbl env (fst (frame_ptr_of (tm_page_block_index page))) \<noteq> None"
proof
  assume "te_tbl env (fst (frame_ptr_of (tm_page_block_index page))) = None"
  then have "block_lock env (tm_page_block_index page) = 0"
    by (simp add: block_lock_def get_frame_def tm_frame_init_def picotm_rwlock_init_def)
  with assms(1,2) show False
    by (cases "status (pg_rwstate page)")
      (auto simp: page_lock_ok_def rwstate_agrees_def tm_page_has_locked_frame_def picotm_rwstate_get_status_def)
qed

lemma acquire_locked_frame:
  assumes "page_lock_ok page env" and "tm_page_has_locked_frame page" and "env_ok env"
    and "\<not> picotm_error_is_set e"
  shows "tm_vmem_acquire_frame_by_block (tm_page_block_index page) env e =
      (Some (frame_ptr_of (tm_page_block_index page)), env, e)"
    and "tm_frame_buffer (get_frame env (frame_ptr_of (tm_page_block_index page))) =
      tm_page_block_index page * 8"
proof -
  let ?b = "tm_page_block_index page"
  obtain tbl where "te_tbl env (fst (frame_ptr_of ?b)) = Some tbl"
    using locked_frame_exists [OF assms(1-3)] by blast
  then show acq: "tm_vmem_acquire_frame_by_block ?b env e = (Some (frame_ptr_of ?b), env, e)"
    by (simp add: tm_vmem_acquire_frame_by_block_def tm_vmem_acquire_frame_by_address_def
        tm_frame_map_lookup_def frame_ptr_of_def TM_BLOCK_SIZE_BITS_def)
  show "tm_frame_buffer (get_frame env (frame_ptr_of ?b)) = ?b * 8"
    using acquire_frame_spec [OF acq page_index_is_block assms(3,4)] by simp
qed

lemma wrlocked_locked: "tm_page_has_wrlocked_frame page \<Longrightarrow> tm_page_has_locked_frame page"
  by (simp add: tm_page_has_wrlocked_frame_def tm_page_has_locked_frame_def)

subsection \<open>Apply\<close>

text \<open>Storing a page makes the bytes that it shows the bytes of its block.\<close>

lemma page_st_spec:
  assumes "env_ok env" and "length (pg_buf page) = 8" and "page_lock_ok page env"
    and "tm_page_has_wrlocked_frame page" and "\<not> picotm_error_is_set e"
  shows "tm_page_st page copy_all_bits env e =
    (env\<lparr>te_mem := \<lambda>a. if tm_block_index_at a = tm_page_block_index page then page_byte page (te_mem env) a
                   else te_mem env a\<rparr>, e)"
proof -
  let ?b = "tm_page_block_index page"
  note acq = acquire_locked_frame [OF assms(3) wrlocked_locked [OF assms(4)] assms(1,5)]
  obtain x :: u64 where x: "tm_block_index_at x = ?b" "unat x mod 8 = 0" "x = ?b * 8"
  proof
    have b: "unat ?b < 2 ^ 61" using page_index_is_block [of page] by (simp add: is_block_def)
    then have u: "unat (?b * 8) = unat ?b * 8" by (simp add: unat_word_ariths)
    show "tm_block_index_at (?b * 8) = ?b" by (simp add: word_unat_eq_iff unat_block_index u)
    show "unat (?b * 8) mod 8 = 0" by (simp add: u)
  qed simp
  have range: "unat (a - ?b * 8) < 8 \<longleftrightarrow> tm_block_index_at a = ?b" for a
    using range_in_block(1) [of x 8 a] x by simp
  have offset: "unat (a - ?b * 8) = unat a mod 8" if "tm_block_index_at a = ?b" for a
    using range_in_block(2) [of x 8 a] range [of a] x that by simp
  have full: "write_bytes (te_mem env) (?b * 8) (take 8 (pg_buf page)) =
      (\<lambda>a. if tm_block_index_at a = ?b then page_byte page (te_mem env) a else te_mem env a)"
    if "tm_page_is_complete page"
    using bit_complete [OF that] range offset assms(2) by (auto simp: write_bytes_def page_byte_def fun_eq_iff)
  have part: "(\<lambda>a. let i = unat (a - ?b * 8) in
      if i < 8 \<and> bit copy_all_bits i \<and> bit (pg_buf_bits page) i then pg_buf page ! i else te_mem env a) =
      (\<lambda>a. if tm_block_index_at a = ?b then page_byte page (te_mem env) a else te_mem env a)"
    using range offset by (auto simp: page_byte_def copy_all_bits_def TM_BLOCK_OFFSET_MASK_mask bit_simps Let_def fun_eq_iff)
  have complete: "all_buf_bits_set copy_all_bits \<and> all_buf_bits_set (ucast (pg_buf_bits page)) \<longleftrightarrow>
      tm_page_is_complete page"
    by (simp add: tm_page_is_complete_def all_buf_bits_set_def copy_all_bits_def)
  show ?thesis
    unfolding tm_page_st_def acq using assms(5) full part complete by (simp add: acq(2) Let_def)
qed

text \<open>Main memory matters to a page only within its block.\<close>

lemma page_byte_cong:
  "mem' a = mem a \<Longrightarrow> page_byte page mem' a = page_byte page mem a"
  by (simp add: page_byte_def)

lemma page_inv_cong:
  assumes "\<And>a. tm_block_index_at a = tm_page_block_index page \<Longrightarrow> mem' a = mem a"
  shows "page_inv page mem' \<longleftrightarrow> page_inv page mem"
  using assms page_byte_cong [of mem' _ mem page] by (auto simp: page_inv_def)

lemma page_shows_mem:
  assumes "page_inv page mem" and "\<not> tm_page_has_wrlocked_frame page"
    and "tm_block_index_at a = tm_page_block_index page"
  shows "page_byte page mem a = mem a"
  using assms by (cases "status (pg_rwstate page)")
    (auto simp: page_inv_def page_byte_def tm_page_has_wrlocked_frame_def picotm_rwstate_get_status_def)

lemma apply_page_spec:
  assumes "env_ok env" and "page_inv page (te_mem env)" and "page_lock_ok page env"
    and "\<not> picotm_error_is_set e"
  shows "apply_page page env e = (True,
    env\<lparr>te_mem := \<lambda>a. if tm_block_index_at a = tm_page_block_index page then page_byte page (te_mem env) a
                   else te_mem env a\<rparr>, e)"
proof (cases "tm_page_has_wrlocked_frame page")
  case True
  moreover have "length (pg_buf page) = 8" using assms(2) by (simp add: page_inv_def)
  ultimately show ?thesis
    using page_st_spec [OF assms(1) _ assms(3) True assms(4)] assms(2,4)
    by (simp add: apply_page_def page_inv_def)
next
  case False
  have "(\<lambda>a. if tm_block_index_at a = tm_page_block_index page then page_byte page (te_mem env) a
      else te_mem env a) = te_mem env"
    using page_shows_mem [OF assms(2) False] by auto
  then show ?thesis using False by (simp add: apply_page_def)
qed

lemma env_ok_mem [simp]: "env_ok (env\<lparr>te_mem := m\<rparr>) = env_ok env"
  by (simp add: env_ok_def frames_ok_def)

lemma block_lock_mem [simp]: "block_lock (env\<lparr>te_mem := m\<rparr>) b = block_lock env b"
  by (simp add: block_lock_def get_frame_def)

lemma page_lock_ok_mem [simp]: "page_lock_ok p (env\<lparr>te_mem := m\<rparr>) = page_lock_ok p env"
  by (simp add: page_lock_ok_def)

lemma walk_apply_spec:
  assumes "env_ok env" and "pages_sorted ps" and "\<forall>p\<in>set ps. page_inv p (te_mem env) \<and> page_lock_ok p env"
    and "\<not> picotm_error_is_set e"
  shows "walk_pages apply_page ps env e = (env\<lparr>te_mem := pages_view ps (te_mem env)\<rparr>, e)"
  using assms
proof (induction ps arbitrary: env)
  case Nil
  have "pages_view [] (te_mem env) = te_mem env" by (simp add: pages_view_def fun_eq_iff)
  then show ?case by simp
next
  case (Cons p ps)
  define mem where "mem = (\<lambda>a. if tm_block_index_at a = tm_page_block_index p
      then page_byte p (te_mem env) a else te_mem env a)"
  have step: "apply_page p env e = (True, env\<lparr>te_mem := mem\<rparr>, e)"
    unfolding mem_def by (rule apply_page_spec) (use Cons.prems in simp_all)
  have other: "tm_page_block_index q \<noteq> tm_page_block_index p" if "q \<in> set ps" for q
    using pages_sorted_split(3) [of "[]" p ps q] Cons.prems(2) that by simp
  have rest: "\<forall>q\<in>set ps. page_inv q mem \<and> page_lock_ok q (env\<lparr>te_mem := mem\<rparr>)"
  proof
    fix q assume q: "q \<in> set ps"
    have "page_inv q mem \<longleftrightarrow> page_inv q (te_mem env)"
      by (rule page_inv_cong) (use other [OF q] in \<open>simp add: mem_def\<close>)
    then show "page_inv q mem \<and> page_lock_ok q (env\<lparr>te_mem := mem\<rparr>)" using Cons.prems(3) q by simp
  qed
  have "pages_view ps mem a = pages_view (p # ps) (te_mem env) a" for a
  proof (cases "tm_block_index_at a = tm_page_block_index p")
    case True
    then have "page_at ps (tm_block_index_at a) = None" using other by (auto simp: page_at_None)
    then show ?thesis by (simp add: pages_view_def True mem_def)
  next
    case False
    then show ?thesis by (auto simp: pages_view_def mem_def page_byte_def split: option.split)
  qed
  then have "pages_view ps mem = pages_view (p # ps) (te_mem env)" by (rule ext)
  moreover have "walk_pages apply_page ps (env\<lparr>te_mem := mem\<rparr>) e =
      ((env\<lparr>te_mem := mem\<rparr>)\<lparr>te_mem := pages_view ps (te_mem (env\<lparr>te_mem := mem\<rparr>))\<rparr>, e)"
    by (rule Cons.IH) (use Cons.prems rest in \<open>auto simp: pages_sorted_def\<close>)
  ultimately show ?case by (simp add: step)
qed

theorem apply_spec:
  assumes "tx_inv tx env" and "\<not> picotm_error_is_set e"
  shows "tm_vmem_tx_apply tx env e = (env\<lparr>te_mem := tx_view tx env\<rparr>, e)"
  unfolding tm_vmem_tx_apply_def tx_view_def
  by (rule walk_apply_spec) (use assms in \<open>simp_all add: tx_inv_def\<close>)

subsection \<open>Undo\<close>

lemma walk_undo_spec:
  "\<forall>p\<in>set ps. page_inv p mem \<Longrightarrow> walk_pages undo_page ps env e = (env, e)"
  by (induction ps) (simp_all add: undo_page_def page_inv_def)

theorem undo_spec:
  assumes "tx_inv tx env"
  shows "tm_vmem_tx_undo tx env e = (env, e)"
  unfolding tm_vmem_tx_undo_def
  by (rule walk_undo_spec [where mem = "te_mem env"]) (use assms in \<open>simp add: tx_inv_def\<close>)

subsection \<open>Finish\<close>

definition released_lock :: "tm_page list \<Rightarrow> tm_env \<Rightarrow> u64 \<Rightarrow> u8" where
  "released_lock ps env b =
     (case page_at ps b of
        None \<Rightarrow> block_lock env b
      | Some p \<Rightarrow> if tm_page_has_locked_frame p then snd (picotm_rwlock_unlock (block_lock env b))
                  else block_lock env b)"

lemma finish_page_spec:
  assumes "env_ok env" and "page_lock_ok page env" and "\<not> picotm_error_is_set e"
  obtains env' page' where "finish_page page tx env e = (tx\<lparr>vt_alloced := page' # vt_alloced tx\<rparr>, env', e)"
    and "env_ok env'" and "te_mem env' = te_mem env" and "pg_buf page' = pg_buf page"
    and "\<And>b. is_block b \<Longrightarrow> block_lock env' b = released_lock [page] env b"
proof (cases "tm_page_has_locked_frame page")
  case False
  then have eq: "finish_page page tx env e = (tx\<lparr>vt_alloced := page # vt_alloced tx\<rparr>, env, e)"
    by (simp add: finish_page_def free_page_def)
  have same: "block_lock env b = released_lock [page] env b" for b
    using False by (simp add: released_lock_def)
  show thesis by (rule that [OF eq assms(1) refl refl same])
next
  case True
  let ?b = "tm_page_block_index page" and ?f = "get_frame env (frame_ptr_of (tm_page_block_index page))"
  note acq = acquire_locked_frame(1) [OF assms(2) True assms(1,3)]
  obtain frame rwstate where un: "tm_frame_unlock ?f (pg_rwstate page) = (frame, rwstate)" by force
  have status: "status (pg_rwstate page) \<noteq> PICOTM_RWSTATE_UNLOCKED"
    using True by (simp add: tm_page_has_locked_frame_def picotm_rwstate_get_status_def)
  have "frame = ?f\<lparr>fr_rwlock := snd (picotm_rwlock_unlock (fr_rwlock ?f))\<rparr>"
  proof -
    obtain wakes lock where "picotm_rwlock_unlock (fr_rwlock ?f) = (wakes, lock)" by force
    moreover from this un status have "(?f\<lparr>fr_rwlock := lock\<rparr>, (pg_rwstate page)\<lparr>status := PICOTM_RWSTATE_UNLOCKED\<rparr>) =
        (frame, rwstate)"
      unfolding tm_frame_unlock_def picotm_rwstate_unlock_def by simp
    ultimately show ?thesis by (elim Pair_inject) (simp only: snd_conv)
  qed
  then have frame: "fr_rwlock frame = snd (picotm_rwlock_unlock (block_lock env ?b))"
      "fr_flags frame = fr_flags ?f"
    by (simp_all add: block_lock_def)
  note put = put_frame_spec [OF assms(1) locked_frame_exists [OF assms(2) True assms(1)]
      page_index_is_block frame(2)]
  have eq: "finish_page page tx env e =
      (tx\<lparr>vt_alloced := page\<lparr>pg_rwstate := rwstate\<rparr> # vt_alloced tx\<rparr>,
       put_frame (frame_ptr_of ?b) frame env, e)"
    using True acq un assms(3) by (simp add: finish_page_def tm_page_unlock_frame_def free_page_def)
  have lock: "block_lock (put_frame (frame_ptr_of ?b) frame env) b = released_lock [page] env b"
    if "is_block b" for b
    using put(3) put(4) [OF that] frame(1) True by (cases "b = ?b") (auto simp: released_lock_def)
  show thesis by (rule that [OF eq put(1,2) _ lock]) simp
qed

lemma finish_pages_spec:
  assumes "env_ok env" and "pages_sorted ps" and "\<forall>p\<in>set ps. length (pg_buf p) = 8 \<and> page_lock_ok p env"
    and "\<not> picotm_error_is_set e" and "\<forall>p\<in>set (vt_alloced tx). length (pg_buf p) = 8"
    and "ps = [] \<Longrightarrow> vt_active tx = []"
  shows "\<exists>tx' env'. finish_pages ps tx env e = (tx', env', e) \<and> vt_active tx' = [] \<and>
    (\<forall>p\<in>set (vt_alloced tx'). length (pg_buf p) = 8) \<and> env_ok env' \<and> te_mem env' = te_mem env \<and>
    (\<forall>b. is_block b \<longrightarrow> block_lock env' b = released_lock ps env b)"
  using assms
proof (induction ps arbitrary: tx env)
  case Nil
  then show ?case by (simp add: released_lock_def)
next
  case (Cons p ps)
  have p: "page_lock_ok p env" "length (pg_buf p) = 8" using Cons.prems(3) by simp_all
  obtain env1 p' where fin: "finish_page p (tx\<lparr>vt_active := ps\<rparr>) env e =
        ((tx\<lparr>vt_active := ps\<rparr>)\<lparr>vt_alloced := p' # vt_alloced (tx\<lparr>vt_active := ps\<rparr>)\<rparr>, env1, e)"
      and env1: "env_ok env1" "te_mem env1 = te_mem env" "pg_buf p' = pg_buf p"
        "\<And>b. is_block b \<Longrightarrow> block_lock env1 b = released_lock [p] env b"
    by (rule finish_page_spec [OF Cons.prems(1) p(1) Cons.prems(4), where tx = "tx\<lparr>vt_active := ps\<rparr>"])
      (rule that, assumption+)
  have other: "tm_page_block_index q \<noteq> tm_page_block_index p" if "q \<in> set ps" for q
    using pages_sorted_split(3) [of "[]" p ps q] Cons.prems(2) that by simp
  have locks: "page_lock_ok q env1" if "q \<in> set ps" for q
    using Cons.prems(3) that other [OF that] env1(4) [OF page_index_is_block, of q]
    by (simp add: page_lock_ok_def released_lock_def)
  let ?tx = "tx\<lparr>vt_active := ps, vt_alloced := p' # vt_alloced tx\<rparr>"
  obtain tx' env' where rest: "finish_pages ps ?tx env1 e = (tx', env', e)" "vt_active tx' = []"
      "\<forall>p\<in>set (vt_alloced tx'). length (pg_buf p) = 8" "env_ok env'" "te_mem env' = te_mem env1"
      "\<forall>b. is_block b \<longrightarrow> block_lock env' b = released_lock ps env1 b"
  proof -
    have "\<exists>tx' env'. finish_pages ps ?tx env1 e = (tx', env', e) \<and> vt_active tx' = [] \<and>
        (\<forall>p\<in>set (vt_alloced tx'). length (pg_buf p) = 8) \<and> env_ok env' \<and> te_mem env' = te_mem env1 \<and>
        (\<forall>b. is_block b \<longrightarrow> block_lock env' b = released_lock ps env1 b)"
      by (rule Cons.IH [OF env1(1)])
        (use Cons.prems locks env1(3) p(2) in \<open>auto simp: pages_sorted_def\<close>)
    then show thesis by (elim exE conjE) (rule that)
  qed
  have "block_lock env' b = released_lock (p # ps) env b" if b: "is_block b" for b
  proof (cases "tm_page_block_index p = b")
    case True
    then have "page_at ps b = None" using other by (auto simp: page_at_None)
    then show ?thesis using rest(6) env1(4) [OF b] b True by (simp add: released_lock_def)
  next
    case False
    then have "block_lock env1 b = block_lock env b" using env1(4) [OF b] by (simp add: released_lock_def)
    then show ?thesis using rest(6) b False by (simp add: released_lock_def split: option.split)
  qed
  then show ?case using fin rest env1(2) by simp
qed

theorem finish_spec:
  assumes "tx_inv tx env" and "\<not> picotm_error_is_set e"
  shows "\<exists>tx' env'. tm_vmem_tx_finish tx env e = (tx', env', e) \<and> vt_active tx' = [] \<and> tx_inv tx' env' \<and>
    te_mem env' = te_mem env \<and>
    (\<forall>b. is_block b \<longrightarrow> block_lock env' b = released_lock (vt_active tx) env b)"
proof -
  have "\<exists>tx' env'. finish_pages (vt_active tx) tx env e = (tx', env', e) \<and> vt_active tx' = [] \<and>
    (\<forall>p\<in>set (vt_alloced tx'). length (pg_buf p) = 8) \<and> env_ok env' \<and> te_mem env' = te_mem env \<and>
    (\<forall>b. is_block b \<longrightarrow> block_lock env' b = released_lock (vt_active tx) env b)"
    by (rule finish_pages_spec) (use assms in \<open>auto simp: tx_inv_def page_inv_def\<close>)
  then show ?thesis
    unfolding tm_vmem_tx_finish_def by (auto simp: tx_inv_def pages_sorted_def)
qed

end
