(* ===== verification/Tm_Module.thy ===== *)
theory Tm_Module
  imports Tm_Commit
begin

text \<open>
  The module on top of memory transactions (\<open>modules/tm/src/module.c\<close>, \<open>tm.c\<close>): its state in a thread,
  the call-backs that it registers, and its entry points.  The state is created on the first access;
  \<open>init\<close> is the registration with picotm, which may set an error.

  Whole transactions are runs of entry points; their meaning is given by the same operations on an
  abstract memory.
\<close>

type_synonym tm_state = "tm_vmem_tx option"

definition get_vmem_tx ::
  "(picotm_error \<Rightarrow> picotm_error) \<Rightarrow> tm_state \<Rightarrow> picotm_error \<Rightarrow> tm_state \<times> picotm_error"
where
  "get_vmem_tx init state error =
     (case state of
        Some tx \<Rightarrow> (Some tx, error)
      | None \<Rightarrow>
          (let error = init error in
           if picotm_error_is_set error then (None, error) else (Some tm_vmem_tx_init, error)))"

definition tm_module_load ::
  "(picotm_error \<Rightarrow> picotm_error) \<Rightarrow> tm_waits \<Rightarrow> tm_state \<Rightarrow> u64 \<Rightarrow> nat \<Rightarrow> tm_env \<Rightarrow> picotm_error \<Rightarrow>
   (u8 list \<times> tm_state \<times> tm_env \<times> picotm_error) option"
where
  "tm_module_load init w state addr siz env error =
     (case get_vmem_tx init state error of
        (None, error) \<Rightarrow> Some ([], None, env, error)
      | (Some tx, error) \<Rightarrow>
          if picotm_error_is_set error then Some ([], Some tx, env, error)
          else
            (case tm_vmem_tx_ld w tx addr siz env error of
               None \<Rightarrow> None
             | Some (buf, tx, env, error) \<Rightarrow> Some (buf, Some tx, env, error)))"

definition tm_module_store ::
  "(picotm_error \<Rightarrow> picotm_error) \<Rightarrow> tm_waits \<Rightarrow> tm_state \<Rightarrow> u64 \<Rightarrow> u8 list \<Rightarrow> tm_env \<Rightarrow> picotm_error \<Rightarrow>
   (tm_state \<times> tm_env \<times> picotm_error) option"
where
  "tm_module_store init w state addr buf env error =
     (case get_vmem_tx init state error of
        (None, error) \<Rightarrow> Some (None, env, error)
      | (Some tx, error) \<Rightarrow>
          if picotm_error_is_set error then Some (Some tx, env, error)
          else
            (case tm_vmem_tx_st w tx addr buf env error of
               None \<Rightarrow> None
             | Some (tx, env, error) \<Rightarrow> Some (Some tx, env, error)))"

definition tm_module_loadstore ::
  "(picotm_error \<Rightarrow> picotm_error) \<Rightarrow> tm_waits \<Rightarrow> tm_state \<Rightarrow> u64 \<Rightarrow> u64 \<Rightarrow> nat \<Rightarrow> tm_env \<Rightarrow> picotm_error \<Rightarrow>
   (tm_state \<times> tm_env \<times> picotm_error) option"
where
  "tm_module_loadstore init w state laddr saddr siz env error =
     (case get_vmem_tx init state error of
        (None, error) \<Rightarrow> Some (None, env, error)
      | (Some tx, error) \<Rightarrow>
          if picotm_error_is_set error then Some (Some tx, env, error)
          else
            (case tm_vmem_tx_ldst w tx laddr saddr siz env error of
               None \<Rightarrow> None
             | Some (tx, env, error) \<Rightarrow> Some (Some tx, env, error)))"

definition tm_module_privatize ::
  "(picotm_error \<Rightarrow> picotm_error) \<Rightarrow> tm_waits \<Rightarrow> tm_state \<Rightarrow> u64 \<Rightarrow> nat \<Rightarrow> u64 \<Rightarrow> tm_env \<Rightarrow> picotm_error \<Rightarrow>
   (tm_state \<times> tm_env \<times> picotm_error) option"
where
  "tm_module_privatize init w state addr siz flags env error =
     (case get_vmem_tx init state error of
        (None, error) \<Rightarrow> Some (None, env, error)
      | (Some tx, error) \<Rightarrow>
          if picotm_error_is_set error then Some (Some tx, env, error)
          else
            (case tm_vmem_tx_privatize w tx addr siz flags env error of
               None \<Rightarrow> None
             | Some (tx, env, error) \<Rightarrow> Some (Some tx, env, error)))"

definition tm_module_privatize_c ::
  "(picotm_error \<Rightarrow> picotm_error) \<Rightarrow> tm_waits \<Rightarrow> tm_state \<Rightarrow> u64 \<Rightarrow> int \<Rightarrow> u64 \<Rightarrow> tm_env \<Rightarrow> picotm_error \<Rightarrow>
   (tm_state \<times> tm_env \<times> picotm_error) option"
where
  "tm_module_privatize_c init w state addr c flags env error =
     (case get_vmem_tx init state error of
        (None, error) \<Rightarrow> Some (None, env, error)
      | (Some tx, error) \<Rightarrow>
          if picotm_error_is_set error then Some (Some tx, env, error)
          else
            (case tm_vmem_tx_privatize_c w tx addr c flags env error of
               None \<Rightarrow> None
             | Some (tx, env, error) \<Rightarrow> Some (Some tx, env, error)))"

definition tm_module_apply :: "tm_vmem_tx \<Rightarrow> tm_env \<Rightarrow> picotm_error \<Rightarrow> tm_env \<times> picotm_error" where
  "tm_module_apply tx env error = tm_vmem_tx_apply tx env error"

definition tm_module_undo :: "tm_vmem_tx \<Rightarrow> tm_env \<Rightarrow> picotm_error \<Rightarrow> tm_env \<times> picotm_error" where
  "tm_module_undo tx env error = tm_vmem_tx_undo tx env error"

definition tm_module_finish ::
  "tm_vmem_tx \<Rightarrow> tm_env \<Rightarrow> picotm_error \<Rightarrow> tm_vmem_tx \<times> tm_env \<times> picotm_error"
where
  "tm_module_finish tx env error = tm_vmem_tx_finish tx env error"

subsection \<open>Whole transactions\<close>

datatype tm_op = Load_op u64 nat | Store_op u64 "u8 list"

text \<open>A run ends at the first error, from which picotm recovers by rolling back.\<close>

fun tm_run ::
  "(picotm_error \<Rightarrow> picotm_error) \<Rightarrow> tm_waits \<Rightarrow> tm_op list \<Rightarrow> tm_state \<Rightarrow> tm_env \<Rightarrow> picotm_error \<Rightarrow>
   (u8 list list \<times> tm_state \<times> tm_env \<times> picotm_error) option"
where
  "tm_run init w [] state env error = Some ([], state, env, error)"
| "tm_run init w (Load_op addr siz # ops) state env error =
     (case tm_module_load init w state addr siz env error of
        None \<Rightarrow> None
      | Some (buf, state, env, error) \<Rightarrow>
          if picotm_error_is_set error then Some ([], state, env, error)
          else
            (case tm_run init w ops state env error of
               None \<Rightarrow> None
             | Some (bufs, state, env, error) \<Rightarrow> Some (buf # bufs, state, env, error)))"
| "tm_run init w (Store_op addr buf # ops) state env error =
     (case tm_module_store init w state addr buf env error of
        None \<Rightarrow> None
      | Some (state, env, error) \<Rightarrow>
          if picotm_error_is_set error then Some ([], state, env, error)
          else tm_run init w ops state env error)"

text \<open>The same operations on an abstract memory.\<close>

fun memory_run :: "tm_op list \<Rightarrow> (u64 \<Rightarrow> u8) \<Rightarrow> u8 list list \<times> (u64 \<Rightarrow> u8)" where
  "memory_run [] mem = ([], mem)"
| "memory_run (Load_op addr siz # ops) mem =
     (let (bufs, mem') = memory_run ops mem in (read_bytes mem addr siz # bufs, mem'))"
| "memory_run (Store_op addr buf # ops) mem = memory_run ops (write_bytes mem addr buf)"

definition op_ok :: "tm_op \<Rightarrow> bool" where
  "op_ok op = (case op of Load_op addr siz \<Rightarrow> True | Store_op addr buf \<Rightarrow> length buf < 2 ^ 64)"

definition state_inv :: "tm_state \<Rightarrow> tm_env \<Rightarrow> bool" where
  "state_inv state env \<longleftrightarrow> tx_inv (case state of Some tx \<Rightarrow> tx | None \<Rightarrow> tm_vmem_tx_init) env"

definition state_view :: "tm_state \<Rightarrow> tm_env \<Rightarrow> u64 \<Rightarrow> u8" where
  "state_view state env = tx_view (case state of Some tx \<Rightarrow> tx | None \<Rightarrow> tm_vmem_tx_init) env"

lemma get_vmem_tx_cases:
  assumes "state_inv state env" and "\<not> picotm_error_is_set e"
  obtains tx e' where "get_vmem_tx init state e = (Some tx, e')" and "tx_inv tx env"
      and "tx_view tx env = state_view state env" and "\<not> picotm_error_is_set e'"
    | e' where "get_vmem_tx init state e = (None, e')" and "picotm_error_is_set e'" and "state = None"
  using assms
  by (cases state; cases "picotm_error_is_set (init e)")
    (auto simp: get_vmem_tx_def state_inv_def state_view_def Let_def)

lemma module_load_spec:
  assumes "state_inv state env" and "waits_ok w" and "\<not> picotm_error_is_set e"
  obtains buf state' env' e' where "tm_module_load init w state addr siz env e = Some (buf, state', env', e')"
    and "state_inv state' env'" and "state_view state' env' = state_view state env"
    and "te_mem env' = te_mem env"
    and "\<not> picotm_error_is_set e' \<Longrightarrow> buf = read_bytes (state_view state env) addr siz \<and> state' \<noteq> None"
proof (rule get_vmem_tx_cases [OF assms(1,3), of init])
  fix tx e1 assume tx: "get_vmem_tx init state e = (Some tx, e1)" "tx_inv tx env"
      "tx_view tx env = state_view state env" "\<not> picotm_error_is_set e1"
  obtain bs tx' env' e' where ld: "tm_vmem_tx_ld w tx addr siz env e1 = Some (bs, tx', env', e')"
      "tx_inv tx' env'" "tx_view tx' env' = tx_view tx env" "te_mem env' = te_mem env"
      "\<not> picotm_error_is_set e' \<longrightarrow> bs = [] @ read_bytes (tx_view tx env) addr siz"
    using ld_loop_spec [where siz = siz and fuel = siz and addr = addr and buf = "[]",
        OF tx(2) assms(2) tx(4) order_refl]
    unfolding tm_vmem_tx_ld_def by blast
  show thesis
  proof (rule that)
    show "tm_module_load init w state addr siz env e = Some (bs, Some tx', env', e')"
      using tx ld(1) by (simp add: tm_module_load_def)
  qed (use tx ld in \<open>simp_all add: state_inv_def state_view_def\<close>)
next
  fix e1 assume e1: "get_vmem_tx init state e = (None, e1)" "picotm_error_is_set e1" "state = None"
  show thesis
  proof (rule that)
    show "tm_module_load init w state addr siz env e = Some ([], None, env, e1)"
      using e1 by (simp add: tm_module_load_def)
  qed (use e1 assms in simp_all)
qed

lemma module_store_spec:
  assumes "state_inv state env" and "waits_ok w" and "\<not> picotm_error_is_set e" and "length buf < 2 ^ 64"
  obtains state' env' e' where "tm_module_store init w state addr buf env e = Some (state', env', e')"
    and "state_inv state' env'" and "te_mem env' = te_mem env"
    and "\<not> picotm_error_is_set e' \<Longrightarrow>
      state_view state' env' = write_bytes (state_view state env) addr buf \<and> state' \<noteq> None"
proof (rule get_vmem_tx_cases [OF assms(1,3), of init])
  fix tx e1 assume tx: "get_vmem_tx init state e = (Some tx, e1)" "tx_inv tx env"
      "tx_view tx env = state_view state env" "\<not> picotm_error_is_set e1"
  obtain tx' env' e' where st: "tm_vmem_tx_st w tx addr buf env e1 = Some (tx', env', e')"
      "tx_inv tx' env'" "te_mem env' = te_mem env"
      "\<not> picotm_error_is_set e' \<longrightarrow> tx_view tx' env' = write_bytes (tx_view tx env) addr buf"
    using st_loop_spec [OF tx(2) assms(2) tx(4) order_refl assms(4), where addr = addr]
    unfolding tm_vmem_tx_st_def by blast
  show thesis
  proof (rule that)
    show "tm_module_store init w state addr buf env e = Some (Some tx', env', e')"
      using tx st(1) by (simp add: tm_module_store_def)
  qed (use tx st in \<open>simp_all add: state_inv_def state_view_def\<close>)
next
  fix e1 assume e1: "get_vmem_tx init state e = (None, e1)" "picotm_error_is_set e1" "state = None"
  show thesis
  proof (rule that)
    show "tm_module_store init w state addr buf env e = Some (None, env, e1)"
      using e1 by (simp add: tm_module_store_def)
  qed (use e1 assms in simp_all)
qed

text \<open>A run of loads and stores is a run on the abstract memory that the transaction sees.\<close>

theorem tm_run_spec:
  assumes "state_inv state env" and "waits_ok w" and "\<not> picotm_error_is_set e" and "\<forall>op\<in>set ops. op_ok op"
  shows "\<exists>bufs state' env' e'. tm_run init w ops state env e = Some (bufs, state', env', e') \<and>
    state_inv state' env' \<and> te_mem env' = te_mem env \<and>
    (\<not> picotm_error_is_set e' \<longrightarrow> (bufs, state_view state' env') = memory_run ops (state_view state env))"
  using assms
proof (induction ops arbitrary: state env e)
  case Nil
  then show ?case by simp
next
  case (Cons op ops)
  show ?case
  proof (cases op)
    case (Load_op addr siz)
    obtain buf state1 env1 e1 where ld: "tm_module_load init w state addr siz env e = Some (buf, state1, env1, e1)"
        "state_inv state1 env1" "state_view state1 env1 = state_view state env" "te_mem env1 = te_mem env"
        "\<not> picotm_error_is_set e1 \<Longrightarrow> buf = read_bytes (state_view state env) addr siz \<and> state1 \<noteq> None"
      by (rule module_load_spec [OF Cons.prems(1-3), where init = init and addr = addr and siz = siz])
        (rule that, assumption+)
    show ?thesis
    proof (cases "picotm_error_is_set e1")
      case True
      with ld Load_op show ?thesis by simp
    next
      case False
      from Cons.IH [OF ld(2) Cons.prems(2) False] Cons.prems(4)
      obtain bufs state' env' e' where "tm_run init w ops state1 env1 e1 = Some (bufs, state', env', e')"
          "state_inv state' env'" "te_mem env' = te_mem env1"
          "\<not> picotm_error_is_set e' \<longrightarrow> (bufs, state_view state' env') = memory_run ops (state_view state1 env1)"
        by auto
      with ld False Load_op show ?thesis by (auto split: prod.split)
    qed
  next
    case (Store_op addr buf)
    then have len: "length buf < 2 ^ 64" using Cons.prems(4) by (simp add: op_ok_def)
    obtain state1 env1 e1 where st: "tm_module_store init w state addr buf env e = Some (state1, env1, e1)"
        "state_inv state1 env1" "te_mem env1 = te_mem env"
        "\<not> picotm_error_is_set e1 \<Longrightarrow>
          state_view state1 env1 = write_bytes (state_view state env) addr buf \<and> state1 \<noteq> None"
      by (rule module_store_spec [OF Cons.prems(1-3) len, where init = init and addr = addr])
        (rule that, assumption+)
    show ?thesis
    proof (cases "picotm_error_is_set e1")
      case True
      with st Store_op show ?thesis by simp
    next
      case False
      from Cons.IH [OF st(2) Cons.prems(2) False] Cons.prems(4)
      obtain bufs state' env' e' where "tm_run init w ops state1 env1 e1 = Some (bufs, state', env', e')"
          "state_inv state' env'" "te_mem env' = te_mem env1"
          "\<not> picotm_error_is_set e' \<longrightarrow> (bufs, state_view state' env') = memory_run ops (state_view state1 env1)"
        by auto
      with st False Store_op show ?thesis by auto
    qed
  qed
qed

text \<open>Others may change main memory in the blocks that the transaction has not locked.\<close>

lemma interference:
  assumes "tx_inv tx env" and "\<And>a. tx_locks tx (tm_block_index_at a) \<Longrightarrow> mem a = te_mem env a"
  shows "tx_inv tx (env\<lparr>te_mem := mem\<rparr>)"
    and "tx_locks tx (tm_block_index_at a) \<Longrightarrow> tx_view tx (env\<lparr>te_mem := mem\<rparr>) a = tx_view tx env a"
proof -
  have "page_inv p mem" if p: "p \<in> set (vt_active tx)" for p
  proof (cases "tm_page_has_locked_frame p")
    case True
    have "page_inv p mem \<longleftrightarrow> page_inv p (te_mem env)"
    proof (rule page_inv_cong)
      fix a assume "tm_block_index_at a = tm_page_block_index p"
      then have "tx_locks tx (tm_block_index_at a)" using p True by (auto simp: tx_locks_def)
      then show "mem a = te_mem env a" by (rule assms(2))
    qed
    then show ?thesis using assms(1) p by (simp add: tx_inv_def)
  next
    case False
    then show ?thesis using assms(1) p
      by (auto simp: tx_inv_def page_inv_def tm_page_has_locked_frame_def picotm_rwstate_get_status_def)
  qed
  then show "tx_inv tx (env\<lparr>te_mem := mem\<rparr>)" using assms(1) by (simp add: tx_inv_def)
  show "tx_view tx (env\<lparr>te_mem := mem\<rparr>) a = tx_view tx env a" if "tx_locks tx (tm_block_index_at a)"
    using assms(2) [OF that] by (auto simp: tx_view_def pages_view_def page_byte_def split: option.split)
qed

subsection \<open>Privatization of pages with buffered stores\<close>

lemma flags_write_through [simp]:
  "tm_page_block_index (set_write_through page) = tm_page_block_index page"
  "page_write_through (set_write_through page)"
  "page_discarded (set_write_through page) = page_discarded page"
  "pg_buf (set_write_through page) = pg_buf page" "pg_buf_bits (set_write_through page) = pg_buf_bits page"
  "pg_rwstate (set_write_through page) = pg_rwstate page"
proof -
  have "drop_bit 3 (f OR 1) = drop_bit 3 f" for f :: u64
    by (rule bit_eqI) (auto simp: bit_simps)
  then show "tm_page_block_index (set_write_through page) = tm_page_block_index page"
    by (simp add: tm_page_block_index_def set_write_through_def TM_PAGE_FLAG_WRITE_THROUGH_def
        TM_BLOCK_SIZE_BITS_def)
  have "(f OR 1) AND 1 \<noteq> (0 :: u64)" for f :: u64
  proof -
    have "bit ((f OR 1) AND 1) 0" by (simp add: bit_simps)
    then show ?thesis by force
  qed
  then show "page_write_through (set_write_through page)"
    by (simp add: page_write_through_def set_write_through_def TM_PAGE_FLAG_WRITE_THROUGH_def)
  have "(f OR 1) AND 2 = f AND (2 :: u64)" for f :: u64
    by (rule bit_eqI) (auto simp: bit_simps bit_2_iff)
  then show "page_discarded (set_write_through page) = page_discarded page"
    by (simp add: page_discarded_def set_write_through_def TM_PAGE_FLAG_WRITE_THROUGH_def
        TM_PAGE_FLAG_DISCARDED_def)
qed (simp_all add: set_write_through_def)

lemma byte_write_through [simp]: "page_byte (set_write_through page) mem a = page_byte page mem a"
  by (simp add: page_byte_def)

lemma privatize_locked_page:
  assumes "tm_page_has_wrlocked_frame page" and "\<not> page_discarded page" and "tm_page_is_complete page"
    and "\<not> picotm_error_is_set e"
  shows "prepare_page_privatize w page addr siz PICOTM_TM_PRIVATIZE_STORE env e =
    Some (set_write_through page, env, e)"
  using assms by (simp add: prepare_page_privatize_def lock_page_wr_def PICOTM_TM_PRIVATIZE_STORE_def)

end
