(* ===== verification/Txlib_Ring.thy ===== *)
theory Txlib_Ring
  imports Picotm_Prelude
begin

text \<open>
  The linked structures of the transactional data types (\<open>modules/txlib\<close>).  The entries of queues and
  lists form rings through the head of their container.  A family \<open>F\<close> maps the address of each head
  to the entries of its ring; the locale \<open>ring_entries\<close> states what inserting and erasing an entry
  promise in terms of the family, and derives the operations at both ends.  Queue and list entries
  are its two providers.
\<close>

record ring_heap =
  rh_next :: "pointer \<Rightarrow> pointer"
  rh_prev :: "pointer \<Rightarrow> pointer"

text \<open>Consecutive entries of the list point to each other.\<close>

fun linked :: "ring_heap \<Rightarrow> pointer list \<Rightarrow> bool" where
  "linked h (a # b # xs) \<longleftrightarrow> rh_next h a = b \<and> rh_prev h b = a \<and> linked h (b # xs)"
| "linked h xs \<longleftrightarrow> True"

type_synonym family = "pointer \<Rightarrow> pointer list option"

definition members :: "family \<Rightarrow> pointer set" where
  "members F = {x. \<exists>q xs. F q = Some xs \<and> x \<in> set (q # xs)}"

text \<open>The rings of a family are disjoint; other entries are in no ring and their links are null.\<close>

definition family_ok :: "family \<Rightarrow> bool" where
  "family_ok F \<longleftrightarrow> 0 \<notin> members F \<and> (\<forall>q xs. F q = Some xs \<longrightarrow> distinct (q # xs)) \<and>
     (\<forall>q q' xs xs'. F q = Some xs \<longrightarrow> F q' = Some xs' \<longrightarrow> q \<noteq> q' \<longrightarrow>
        set (q # xs) \<inter> set (q' # xs') = {})"

definition rings :: "ring_heap \<Rightarrow> family \<Rightarrow> bool" where
  "rings h F \<longleftrightarrow> family_ok F \<and> (\<forall>q xs. F q = Some xs \<longrightarrow> linked h (q # xs @ [q])) \<and>
     (\<forall>x. x \<notin> members F \<longrightarrow> rh_next h x = 0 \<and> rh_prev h x = 0)"

subsection \<open>Families\<close>

lemma memberI: "F q = Some xs \<Longrightarrow> x = q \<or> x \<in> set xs \<Longrightarrow> x \<in> members F"
  by (auto simp: members_def)

lemma family_okD:
  assumes "family_ok F" and "F q = Some xs"
  shows "distinct xs" and "q \<notin> set xs" and "q \<noteq> 0" and "0 \<notin> set xs"
proof -
  have zero: "0 \<notin> members F" and d: "distinct (q # xs)" using assms unfolding family_ok_def by blast+
  from d show "distinct xs" "q \<notin> set xs" by simp_all
  from zero show "q \<noteq> 0" "0 \<notin> set xs" using memberI [of F q xs] assms(2) by auto
qed

lemma family_apart:
  assumes "family_ok F" and "F q = Some xs" and "F q' = Some xs'" and "q \<noteq> q'"
  shows "set (q # xs) \<inter> set (q' # xs') = {}"
  using assms unfolding family_ok_def by blast

lemma members_upd:
  assumes "family_ok F" and "F q = Some xs"
  shows "members (F(q \<mapsto> ys)) = members F - set xs \<union> set ys"
proof -
  have other: "x \<notin> set xs" if "F q' = Some zs" "q' \<noteq> q" "x \<in> set (q' # zs)" for x q' zs
    using family_apart [OF assms that(1)] that(2,3) by auto
  have q: "q \<notin> set xs" by (rule family_okD [OF assms])
  show ?thesis
  proof (intro equalityI subsetI)
    fix x assume "x \<in> members (F(q \<mapsto> ys))"
    then obtain q' zs where x: "(F(q \<mapsto> ys)) q' = Some zs" "x \<in> set (q' # zs)" by (auto simp: members_def)
    show "x \<in> members F - set xs \<union> set ys"
    proof (cases "q' = q")
      case True
      then show ?thesis using x q memberI [of F q xs] assms(2) by auto
    next
      case False
      then show ?thesis using x other [of q' zs x] memberI [of F q' zs x] by auto
    qed
  next
    fix x assume "x \<in> members F - set xs \<union> set ys"
    then consider "x \<in> set ys" | q' zs where "F q' = Some zs" "x \<in> set (q' # zs)" "x \<notin> set xs"
      by (auto simp: members_def)
    then show "x \<in> members (F(q \<mapsto> ys))"
    proof cases
      case 1
      then show ?thesis using memberI [of "F(q \<mapsto> ys)" q ys x] by simp
    next
      case 2
      show ?thesis
      proof (cases "q' = q")
        case True
        then have "x = q" using 2 assms(2) by simp
        then show ?thesis using memberI [of "F(q \<mapsto> ys)" q ys x] by simp
      next
        case False
        then show ?thesis using memberI [of "F(q \<mapsto> ys)" q' zs x] 2 by simp
      qed
    qed
  qed
qed

text \<open>A family stays a family when one of its lists is replaced by other free entries.\<close>

lemma family_upd:
  assumes "family_ok F" and "F q = Some xs" and "distinct ys"
    and "\<And>y. y \<in> set ys \<Longrightarrow> y \<in> set xs \<or> y \<noteq> 0 \<and> y \<notin> members F"
  shows "family_ok (F(q \<mapsto> ys))"
proof -
  note D = family_okD [OF assms(1,2)]
  have q: "q \<notin> set ys" using assms(4) [of q] D(2) memberI [of F q xs q] assms(2) by blast
  have apart: "set (q # ys) \<inter> set (q' # zs) = {}" if "F q' = Some zs" "q' \<noteq> q" for q' zs
  proof -
    have "y \<notin> set (q' # zs)" if "y \<in> set ys" for y
      using family_apart [OF assms(1,2) \<open>F q' = Some zs\<close>] \<open>q' \<noteq> q\<close> assms(4) [OF that] that
        memberI [of F q' zs y] \<open>F q' = Some zs\<close> by auto
    moreover have "q \<notin> set (q' # zs)"
      using family_apart [OF assms(1,2) that(1)] that(2) by auto
    ultimately show ?thesis by auto
  qed
  have "0 \<notin> members (F(q \<mapsto> ys))"
    using assms(1,4) D unfolding members_upd [OF assms(1,2)] by (auto simp: family_ok_def)
  moreover have "distinct (q' # zs)" if "(F(q \<mapsto> ys)) q' = Some zs" for q' zs
    using that q assms(1,3) unfolding family_ok_def by (cases "q' = q") auto
  moreover have "set (q1 # zs1) \<inter> set (q2 # zs2) = {}"
    if "(F(q \<mapsto> ys)) q1 = Some zs1" "(F(q \<mapsto> ys)) q2 = Some zs2" "q1 \<noteq> q2" for q1 q2 zs1 zs2
  proof (cases "q1 = q")
    case True
    then show ?thesis using apart [of q2 zs2] that by simp
  next
    case False
    then show ?thesis
      using apart [of q1 zs1] family_apart [OF assms(1), of q1 zs1 q2 zs2] that
      by (cases "q2 = q") (simp_all add: Int_commute)
  qed
  ultimately show ?thesis unfolding family_ok_def by blast
qed

subsection \<open>Links\<close>

lemma linked_append: "linked h (xs @ a # ys) \<longleftrightarrow> linked h (xs @ [a]) \<and> linked h (a # ys)"
proof (induction xs)
  case (Cons x xs)
  then show ?case by (cases xs) auto
qed (cases ys; simp)

lemma linked_cong:
  assumes "linked h xs"
    and "\<And>a. a \<in> set (butlast xs) \<Longrightarrow> rh_next h' a = rh_next h a"
    and "\<And>a. a \<in> set (tl xs) \<Longrightarrow> rh_prev h' a = rh_prev h a"
  shows "linked h' xs"
  using assms
proof (induction xs rule: induct_list012)
  case (3 a b xs)
  show ?case using 3(3-) by (simp, intro 3(2)) auto
qed auto

text \<open>A new entry is linked in between two neighbours, and out again.\<close>

definition splice_in :: "pointer \<Rightarrow> pointer \<Rightarrow> pointer \<Rightarrow> ring_heap \<Rightarrow> ring_heap" where
  "splice_in p x n h = \<lparr>rh_next = (rh_next h)(x := n, p := x), rh_prev = (rh_prev h)(x := p, n := x)\<rparr>"

definition unsplice :: "pointer \<Rightarrow> ring_heap \<Rightarrow> ring_heap" where
  "unsplice x h =
     \<lparr>rh_next = (rh_next h)(rh_prev h x := rh_next h x, x := 0),
      rh_prev = (rh_prev h)(rh_next h x := rh_prev h x, x := 0)\<rparr>"

lemma neighbours:
  assumes "rings h F" and "F q = Some (xs @ ys)"
  shows "rh_prev h (hd (ys @ [q])) = last (q # xs)"
    and "rh_next h (last (q # xs)) = hd (ys @ [q])"
proof -
  obtain ps p where ps: "q # xs = ps @ [p]" by (metis append_butlast_last_id list.distinct(1))
  obtain n ns where ns: "ys @ [q] = n # ns" by (metis list.exhaust snoc_eq_iff_butlast)
  have "linked h (q # (xs @ ys) @ [q])" using assms unfolding rings_def by blast
  also have "q # (xs @ ys) @ [q] = ps @ p # n # ns" using ps ns by simp
  finally have "linked h (p # n # ns)" using linked_append by blast
  then show "rh_prev h (hd (ys @ [q])) = last (q # xs)"
    and "rh_next h (last (q # xs)) = hd (ys @ [q])" by (simp_all add: ps ns)
qed

lemma splice_ring:
  assumes "linked h (q # (xs @ ys) @ [q])" and "distinct (q # xs @ ys)" and "x \<notin> set (q # xs @ ys)"
  shows "linked (splice_in (last (q # xs)) x (hd (ys @ [q])) h) (q # (xs @ x # ys) @ [q])"
proof -
  obtain ps p where ps: "q # xs = ps @ [p]" by (metis append_butlast_last_id list.distinct(1))
  obtain n ns where ns: "ys @ [q] = n # ns" by (metis list.exhaust snoc_eq_iff_butlast)
  let ?h = "splice_in p x n h"
  have "q # (xs @ ys) @ [q] = ps @ p # n # ns" using ps ns by simp
  with assms(1) have old: "linked h (ps @ [p])" "linked h (n # ns)"
    using linked_append [of h ps p "n # ns"] by simp_all
  have all: "q # xs @ ys = ps @ p # ys" using ps by simp
  have p: "p \<notin> set ps" "p \<notin> set ys" "p \<noteq> x" and ps_x: "x \<notin> set ps"
    using assms(2,3) unfolding all by auto
  have n: "n \<in> set (q # ys)" "n \<notin> set xs" "n \<noteq> x" "n = q \<or> n \<in> set ys"
    using assms(2,3) ns by (cases ys; auto)+
  have left: "linked ?h (ps @ [p])"
  proof (rule linked_cong [OF old(1)])
    fix a assume "a \<in> set (butlast (ps @ [p]))"
    then have "a \<in> set ps" by simp
    then show "rh_next ?h a = rh_next h a" using p(1) ps_x by (auto simp: splice_in_def)
  next
    fix a assume "a \<in> set (tl (ps @ [p]))"
    then have "a \<in> set xs" using ps by (metis list.sel(3))
    then show "rh_prev ?h a = rh_prev h a" using n assms(3) by (auto simp: splice_in_def)
  qed
  have right: "linked ?h (n # ns)"
  proof (rule linked_cong [OF old(2)])
    fix a assume "a \<in> set (butlast (n # ns))"
    then have "a \<in> set ys" using ns by (metis butlast_snoc)
    then show "rh_next ?h a = rh_next h a" using p(2) assms(3) by (auto simp: splice_in_def)
  next
    fix a assume "a \<in> set (tl (n # ns))"
    then have "a \<noteq> n" "a \<noteq> x" using assms(2,3) ns by (cases ys; auto)+
    then show "rh_prev ?h a = rh_prev h a" by (simp add: splice_in_def)
  qed
  have "q # (xs @ x # ys) @ [q] = ps @ p # x # n # ns" using ps ns by simp
  moreover have "linked ?h (p # x # n # ns)" using right p(3) n(3) by (simp add: splice_in_def)
  moreover have "last (q # xs) = p" "hd (ys @ [q]) = n" using ps ns by simp_all
  ultimately show ?thesis using left linked_append [of ?h ps p "x # n # ns"] by simp
qed

lemma unsplice_ring:
  assumes "linked h (q # (xs @ x # ys) @ [q])" and "distinct (q # xs @ x # ys)"
  shows "linked (unsplice x h) (q # (xs @ ys) @ [q])"
    and "rh_prev h x = last (q # xs)" and "rh_next h x = hd (ys @ [q])"
proof -
  obtain ps p where ps: "q # xs = ps @ [p]" by (metis append_butlast_last_id list.distinct(1))
  obtain n ns where ns: "ys @ [q] = n # ns" by (metis list.exhaust snoc_eq_iff_butlast)
  have "q # (xs @ x # ys) @ [q] = ps @ p # x # n # ns" using ps ns by simp
  with assms(1) have old: "linked h (ps @ [p])" "linked h (p # x # n # ns)"
    using linked_append [of h ps p "x # n # ns"] by simp_all
  then have nb: "rh_prev h x = p" "rh_next h x = n" "linked h (n # ns)" by simp_all
  then show "rh_prev h x = last (q # xs)" "rh_next h x = hd (ys @ [q])" using ps ns by simp_all
  let ?h = "unsplice x h"
  have all: "q # xs @ x # ys = ps @ p # x # ys" using ps by simp
  have p: "p \<notin> set ps" "p \<notin> set ys" "p \<noteq> x" and x: "x \<notin> set ps" "x \<notin> set ys"
    using assms(2) unfolding all by auto
  have n: "n \<notin> set xs" "n \<noteq> x" using assms(2) ns by (cases ys; auto)+
  have left: "linked ?h (ps @ [p])"
  proof (rule linked_cong [OF old(1)])
    fix a assume "a \<in> set (butlast (ps @ [p]))"
    then show "rh_next ?h a = rh_next h a" using p(1) x(1) nb by (auto simp: unsplice_def)
  next
    fix a assume "a \<in> set (tl (ps @ [p]))"
    then have "a \<in> set xs" using ps by (metis list.sel(3))
    then show "rh_prev ?h a = rh_prev h a" using n assms(2) nb by (auto simp: unsplice_def)
  qed
  have "linked ?h (n # ns)"
  proof (rule linked_cong [OF nb(3)])
    fix a assume "a \<in> set (butlast (n # ns))"
    then have "a \<in> set ys" using ns by (metis butlast_snoc)
    then show "rh_next ?h a = rh_next h a" using p(2) x(2) nb by (auto simp: unsplice_def)
  next
    fix a assume "a \<in> set (tl (n # ns))"
    then have "a \<noteq> n" "a \<noteq> x" using assms(2) ns by (cases ys; auto)+
    then show "rh_prev ?h a = rh_prev h a" using nb by (simp add: unsplice_def)
  qed
  then have "linked ?h (p # n # ns)" using p(3) n(2) nb by (simp add: unsplice_def)
  moreover have "q # (xs @ ys) @ [q] = ps @ p # n # ns" using ps ns by simp
  ultimately show "linked ?h (q # (xs @ ys) @ [q])" using left linked_append [of ?h ps p "n # ns"] by simp
qed

subsection \<open>Families of rings\<close>

text \<open>Changing links of entries that are in none of the other rings changes one ring only.\<close>

lemma rings_upd:
  assumes "rings h F" and "F q = Some xs" and "family_ok (F(q \<mapsto> ys))" and "linked h' (q # ys @ [q])"
    and "\<And>a. rh_next h' a \<noteq> rh_next h a \<or> rh_prev h' a \<noteq> rh_prev h a \<Longrightarrow>
      a \<in> set (q # xs) \<or> a \<in> set ys"
    and "\<And>a. a \<in> set xs \<Longrightarrow> a \<notin> set ys \<Longrightarrow> rh_next h' a = 0 \<and> rh_prev h' a = 0"
  shows "rings h' (F(q \<mapsto> ys))"
proof -
  have fam: "family_ok F" using assms(1) by (simp add: rings_def)
  have "linked h' (q' # zs @ [q'])" if "F q' = Some zs" "q' \<noteq> q" for q' zs
  proof (rule linked_cong)
    show "linked h (q' # zs @ [q'])" using assms(1) that(1) unfolding rings_def by blast
    have same: "rh_next h' a = rh_next h a \<and> rh_prev h' a = rh_prev h a" if "a \<in> set (q' # zs)" for a
    proof -
      have "a \<notin> set (q # xs)"
        using family_apart [OF fam assms(2) \<open>F q' = Some zs\<close>] \<open>q' \<noteq> q\<close> that by auto
      moreover have "a \<notin> set (q # ys)"
        using family_apart [OF assms(3), of q ys q' zs] \<open>q' \<noteq> q\<close> \<open>F q' = Some zs\<close> that by auto
      ultimately show ?thesis using assms(5) [of a] by auto
    qed
    fix a
    show "a \<in> set (butlast (q' # zs @ [q'])) \<Longrightarrow> rh_next h' a = rh_next h a"
      using same [of a] by (metis append_Cons butlast_snoc)
    show "a \<in> set (tl (q' # zs @ [q'])) \<Longrightarrow> rh_prev h' a = rh_prev h a"
      using same [of a] by auto
  qed
  moreover have "rh_next h' a = 0 \<and> rh_prev h' a = 0" if a: "a \<notin> members (F(q \<mapsto> ys))" for a
  proof (cases "a \<in> set xs")
    case True
    then show ?thesis using assms(6) a members_upd [OF fam assms(2)] by auto
  next
    case False
    then have "a \<notin> members F" "a \<notin> set ys" using a members_upd [OF fam assms(2)] by auto
    moreover have "a \<notin> set (q # xs)" using False \<open>a \<notin> members F\<close> memberI [of F q xs a] assms(2) by auto
    ultimately have "rh_next h' a = rh_next h a \<and> rh_prev h' a = rh_prev h a" using assms(5) [of a] by auto
    then show ?thesis using assms(1) \<open>a \<notin> members F\<close> unfolding rings_def by simp
  qed
  ultimately show ?thesis using assms(3,4) unfolding rings_def by (auto split: if_splits)
qed

lemma splice_rings:
  assumes "rings h F" and "F q = Some (xs @ ys)" and "x \<noteq> 0" and "x \<notin> members F"
  shows "rings (splice_in (last (q # xs)) x (hd (ys @ [q])) h) (F(q \<mapsto> xs @ x # ys))"
proof -
  have fam: "family_ok F" and link: "linked h (q # (xs @ ys) @ [q])"
    using assms(1,2) unfolding rings_def by blast+
  have x: "x \<notin> set (q # xs @ ys)" using assms(2,4) memberI [of F q "xs @ ys" x] by auto
  have d: "distinct (q # xs @ ys)" using family_okD [OF fam assms(2)] by simp
  show ?thesis
  proof (rule rings_upd [OF assms(1,2)])
    show "family_ok (F(q \<mapsto> xs @ x # ys))"
      by (rule family_upd [OF fam assms(2)]) (use assms(3,4) d x in auto)
    show "linked (splice_in (last (q # xs)) x (hd (ys @ [q])) h) (q # (xs @ x # ys) @ [q])"
      by (rule splice_ring [OF link d x])
    have "last (q # xs) \<in> set (q # xs)" by (rule last_in_set) simp
    moreover have "hd (ys @ [q]) \<in> set (q # ys)" by (cases ys) auto
    ultimately show "a \<in> set (q # xs @ ys) \<or> a \<in> set (xs @ x # ys)"
      if "rh_next (splice_in (last (q # xs)) x (hd (ys @ [q])) h) a \<noteq> rh_next h a \<or>
        rh_prev (splice_in (last (q # xs)) x (hd (ys @ [q])) h) a \<noteq> rh_prev h a" for a
      using that by (auto simp: splice_in_def split: if_splits)
  qed simp
qed

lemma unsplice_rings:
  assumes "rings h F" and "F q = Some (xs @ x # ys)"
  shows "rings (unsplice x h) (F(q \<mapsto> xs @ ys))"
proof -
  have fam: "family_ok F" and link: "linked h (q # (xs @ x # ys) @ [q])"
    using assms(1,2) unfolding rings_def by blast+
  have d: "distinct (q # xs @ x # ys)" using family_okD [OF fam assms(2)] by simp
  note un = unsplice_ring [OF link d]
  have p: "last (q # xs) \<in> set (q # xs)" by (rule last_in_set) simp
  have n: "hd (ys @ [q]) \<in> set (q # ys)" by (cases ys) auto
  show ?thesis
  proof (rule rings_upd [OF assms(1,2) _ un(1)])
    show "family_ok (F(q \<mapsto> xs @ ys))"
      by (rule family_upd [OF fam assms(2)]) (use d in auto)
    show "a \<in> set (q # xs @ x # ys) \<or> a \<in> set (xs @ ys)"
      if "rh_next (unsplice x h) a \<noteq> rh_next h a \<or> rh_prev (unsplice x h) a \<noteq> rh_prev h a" for a
      using that p n un(2,3) by (auto simp: unsplice_def split: if_splits)
    show "rh_next (unsplice x h) a = 0 \<and> rh_prev (unsplice x h) a = 0"
      if "a \<in> set (xs @ x # ys)" "a \<notin> set (xs @ ys)" for a
      using that by (auto simp: unsplice_def)
  qed
qed

text \<open>Whether an entry is in a container can be read off its links.\<close>

lemma enqueued_iff:
  assumes "rings h F"
  shows "rh_next h x \<noteq> 0 \<longleftrightarrow> x \<in> members F"
proof
  show "rh_next h x \<noteq> 0 \<Longrightarrow> x \<in> members F" using assms unfolding rings_def by blast
  assume "x \<in> members F"
  then obtain q xs where q: "F q = Some xs" "x \<in> set (q # xs)" by (auto simp: members_def)
  then obtain as bs where "q # xs = as @ x # bs" by (meson split_list)
  have "\<exists>as bs. xs = as @ bs \<and> last (q # as) = x"
  proof (cases as)
    case Nil
    then show ?thesis using \<open>q # xs = as @ x # bs\<close> by (intro exI [of _ "[]"] exI [of _ xs]) simp
  next
    case (Cons a as')
    then show ?thesis using \<open>q # xs = as @ x # bs\<close>
      by (intro exI [of _ "as' @ [x]"] exI [of _ bs]) simp
  qed
  then obtain as bs where xs: "xs = as @ bs" "last (q # as) = x" by blast
  have "rh_next h x = hd (bs @ [q])" using neighbours(2) [OF assms, of q as bs] q(1) xs by simp
  moreover have "hd (bs @ [q]) \<in> set (q # xs)" using xs by (cases bs) auto
  moreover have "family_ok F" using assms by (simp add: rings_def)
  ultimately show "rh_next h x \<noteq> 0" using family_okD(3,4) [OF \<open>family_ok F\<close> q(1)] by auto
qed

lemma ring_ends:
  assumes "rings h F" and "F q = Some xs"
  shows "rh_next h q = hd (xs @ [q])" and "rh_prev h q = last (q # xs)"
  using neighbours(2) [OF assms(1), of q "[]" xs] neighbours(1) [OF assms(1), of q xs "[]"] assms(2)
  by simp_all

subsection \<open>The interface of entries\<close>

text \<open>
  Inserting an entry before a position and erasing it, as a container relies on it: the position is
  the entry that follows, or the head at the end.
\<close>

locale ring_entries =
  fixes insert :: "pointer \<Rightarrow> pointer \<Rightarrow> ring_heap \<Rightarrow> ring_heap"
    and erase :: "pointer \<Rightarrow> ring_heap \<Rightarrow> ring_heap"
  assumes insert_rings: "rings h F \<Longrightarrow> F q = Some (xs @ ys) \<Longrightarrow> x \<noteq> 0 \<Longrightarrow> x \<notin> members F \<Longrightarrow>
      rings (insert x (hd (ys @ [q])) h) (F(q \<mapsto> xs @ x # ys))"
    and erase_rings: "rings h F \<Longrightarrow> F q = Some (xs @ x # ys) \<Longrightarrow> rings (erase x h) (F(q \<mapsto> xs @ ys))"
begin

lemma push_front:
  "rings h F \<Longrightarrow> F q = Some xs \<Longrightarrow> x \<noteq> 0 \<Longrightarrow> x \<notin> members F \<Longrightarrow>
   rings (insert x (rh_next h q) h) (F(q \<mapsto> x # xs))"
  using insert_rings [of h F q "[]" xs x] by (simp add: ring_ends)

lemma push_back:
  "rings h F \<Longrightarrow> F q = Some xs \<Longrightarrow> x \<noteq> 0 \<Longrightarrow> x \<notin> members F \<Longrightarrow>
   rings (insert x q h) (F(q \<mapsto> xs @ [x]))"
  using insert_rings [of h F q xs "[]" x] by simp

lemma pop_front:
  "rings h F \<Longrightarrow> F q = Some (x # xs) \<Longrightarrow> rings (erase (rh_next h q) h) (F(q \<mapsto> xs))"
  using erase_rings [of h F q "[]" x xs] by (simp add: ring_ends)

lemma pop_back:
  "rings h F \<Longrightarrow> F q = Some (xs @ [x]) \<Longrightarrow> rings (erase (rh_prev h q) h) (F(q \<mapsto> xs))"
  using erase_rings [of h F q xs x "[]"] by (simp add: ring_ends)

lemma erase_next:
  assumes "rings h F" and "F q = Some (xs @ x # ys)"
  shows "rh_next h x = hd (ys @ [q])"
  using neighbours(2) [OF assms(1), of q "xs @ [x]" ys] assms(2) by simp

text \<open>Inserting an entry again where it was erased restores the family.\<close>

lemma erase_insert:
  assumes "rings h F" and "F q = Some (xs @ x # ys)" and "rings h' (F(q \<mapsto> xs @ ys))"
  shows "rings (insert x (rh_next h x) h') F"
proof -
  have fam: "family_ok F" using assms(1) by (simp add: rings_def)
  have x: "x \<noteq> 0" "x \<notin> members (F(q \<mapsto> xs @ ys))"
    using family_okD [OF fam assms(2)] members_upd [OF fam assms(2)] by auto
  have "rings (insert x (hd (ys @ [q])) h') (F(q \<mapsto> xs @ ys, q \<mapsto> xs @ x # ys))"
    by (rule insert_rings [OF assms(3) _ x]) simp
  moreover have "F(q \<mapsto> xs @ ys, q \<mapsto> xs @ x # ys) = F" using assms(2) by (auto simp: fun_eq_iff)
  ultimately show ?thesis using erase_next [OF assms(1,2)] by simp
qed

text \<open>Erasing an inserted entry restores the family.\<close>

lemma insert_erase:
  assumes "F q = Some (xs @ ys)" and "rings h' (F(q \<mapsto> xs @ x # ys))"
  shows "rings (erase x h') F"
proof -
  have "rings (erase x h') (F(q \<mapsto> xs @ x # ys, q \<mapsto> xs @ ys))"
    by (rule erase_rings [OF assms(2)]) simp
  moreover have "F(q \<mapsto> xs @ x # ys, q \<mapsto> xs @ ys) = F" using assms(1) by (auto simp: fun_eq_iff)
  ultimately show ?thesis by simp
qed

end

text \<open>A new head is a ring of its own.\<close>

definition new_ring :: "pointer \<Rightarrow> ring_heap \<Rightarrow> ring_heap" where
  "new_ring q h = \<lparr>rh_next = (rh_next h)(q := q), rh_prev = (rh_prev h)(q := q)\<rparr>"

lemma new_ring_rings:
  assumes "rings h F" and "q \<noteq> 0" and "q \<notin> members F"
  shows "rings (new_ring q h) (F(q \<mapsto> []))"
proof -
  have fam: "family_ok F" using assms(1) by (simp add: rings_def)
  have none: "F q = None" using assms(3) memberI [of F q _ q] by fastforce
  have mem: "members (F(q \<mapsto> [])) = insert q (members F)"
  proof (intro equalityI subsetI)
    fix x assume "x \<in> insert q (members F)"
    then consider "x = q" | q' zs where "F q' = Some zs" "x \<in> set (q' # zs)" by (auto simp: members_def)
    then show "x \<in> members (F(q \<mapsto> []))"
    proof cases
      case 1
      then show ?thesis using memberI [of "F(q \<mapsto> [])" q "[]" x] by simp
    next
      case 2
      moreover from 2 none have "q' \<noteq> q" by auto
      ultimately show ?thesis using memberI [of "F(q \<mapsto> [])" q' zs x] by simp
    qed
  qed (auto simp: members_def split: if_splits)
  have out: "q \<notin> set (q' # zs)" if "F q' = Some zs" for q' zs
    using assms(3) memberI [of F q' zs q] that by auto
  have "linked (new_ring q h) (q' # zs @ [q'])" if "F q' = Some zs" for q' zs
  proof (rule linked_cong)
    show "linked h (q' # zs @ [q'])" using assms(1) that unfolding rings_def by blast
    fix a
    show "a \<in> set (butlast (q' # zs @ [q'])) \<Longrightarrow> rh_next (new_ring q h) a = rh_next h a"
      using out [OF that] by (metis append_Cons butlast_snoc fun_upd_other new_ring_def ring_heap.select_convs(1))
    show "a \<in> set (tl (q' # zs @ [q'])) \<Longrightarrow> rh_prev (new_ring q h) a = rh_prev h a"
      using out [OF that] by (auto simp: new_ring_def)
  qed
  moreover have "family_ok (F(q \<mapsto> []))"
    using fam assms(2) out unfolding family_ok_def mem by (auto split: if_splits)
  moreover have "rh_next (new_ring q h) x = 0 \<and> rh_prev (new_ring q h) x = 0" if "x \<notin> insert q (members F)" for x
    using assms(1) that unfolding rings_def by (auto simp: new_ring_def)
  ultimately show ?thesis unfolding rings_def mem by (auto simp: new_ring_def)
qed

subsection \<open>Counting entries\<close>

text \<open>The loop that counts from one entry to another one; it may run forever.\<close>

partial_function (option) walk_distance :: "(pointer \<Rightarrow> pointer) \<Rightarrow> pointer \<Rightarrow> pointer \<Rightarrow> u64 \<Rightarrow> u64 option" where
  "walk_distance step beg end n = (if beg = end then Some n else walk_distance step (step beg) end (n + 1))"

declare walk_distance.simps [code]

fun steps_to :: "(pointer \<Rightarrow> pointer) \<Rightarrow> pointer list \<Rightarrow> pointer \<Rightarrow> bool" where
  "steps_to step [] end = True"
| "steps_to step (x # xs) end \<longleftrightarrow> x \<noteq> end \<and> step x = hd (xs @ [end]) \<and> steps_to step xs end"

lemma walk_distance_steps:
  "steps_to step xs end \<Longrightarrow> walk_distance step (hd (xs @ [end])) end n = Some (n + of_nat (length xs))"
proof (induction xs arbitrary: n)
  case Nil
  then show ?case by (subst walk_distance.simps) simp
next
  case (Cons x xs)
  then show ?case by (subst walk_distance.simps) (simp add: ac_simps)
qed

lemma linked_steps: "linked h (x # xs @ [q]) \<Longrightarrow> q \<notin> set xs \<Longrightarrow> steps_to (rh_next h) xs q"
proof (induction xs arbitrary: x)
  case (Cons y ys)
  then show ?case by (cases ys) auto
qed simp

lemma ring_distance:
  assumes "rings h F" and "F q = Some xs"
  shows "walk_distance (rh_next h) (rh_next h q) q 0 = Some (of_nat (length xs))"
proof -
  have "linked h (q # xs @ [q])" and "family_ok F" using assms unfolding rings_def by blast+
  then have "steps_to (rh_next h) xs q" using linked_steps family_okD(2) [of F q xs] assms(2) by blast
  from walk_distance_steps [OF this, of 0] show ?thesis using ring_ends(1) [OF assms] by simp
qed

end
