(* ===== verification/Txlib_Queue.thy ===== *)
theory Txlib_Queue
  imports Txlib_Ring Picotm_Rwstate
begin

text \<open>
  Entries and state of transactional queues and lists (\<open>modules/txlib/src/txqueue_entry.c\<close>,
  \<open>txqueue_state.c\<close>, \<open>txlist_entry.c\<close>, \<open>txlist_state.c\<close>).  The head is the first field of the state, so
  that the address of the state is that of its head.
\<close>

subsection \<open>Queue entries\<close>

definition txqueue_entry_init :: "pointer \<Rightarrow> ring_heap \<Rightarrow> ring_heap" where
  "txqueue_entry_init self h = h\<lparr>rh_next := (rh_next h)(self := 0), rh_prev := (rh_prev h)(self := 0)\<rparr>"

definition txqueue_entry_init_head :: "pointer \<Rightarrow> ring_heap \<Rightarrow> ring_heap" where
  "txqueue_entry_init_head self h =
     h\<lparr>rh_next := (rh_next h)(self := self), rh_prev := (rh_prev h)(self := self)\<rparr>"

definition txqueue_entry_next :: "ring_heap \<Rightarrow> pointer \<Rightarrow> pointer" where
  "txqueue_entry_next h self = rh_next h self"

definition txqueue_entry_prev :: "ring_heap \<Rightarrow> pointer \<Rightarrow> pointer" where
  "txqueue_entry_prev h self = rh_prev h self"

definition txqueue_entry_is_enqueued :: "ring_heap \<Rightarrow> pointer \<Rightarrow> bool" where
  "txqueue_entry_is_enqueued h self \<longleftrightarrow> rh_next h self \<noteq> 0"

definition txqueue_entry_insert :: "pointer \<Rightarrow> pointer \<Rightarrow> ring_heap \<Rightarrow> ring_heap" where
  "txqueue_entry_insert self next h =
     (let prev = txqueue_entry_prev h next;
          h = h\<lparr>rh_prev := (rh_prev h)(self := prev)\<rparr>;
          h = h\<lparr>rh_next := (rh_next h)(self := next)\<rparr>;
          h = h\<lparr>rh_next := (rh_next h)(prev := self)\<rparr>
      in h\<lparr>rh_prev := (rh_prev h)(next := self)\<rparr>)"

definition txqueue_entry_erase :: "pointer \<Rightarrow> ring_heap \<Rightarrow> ring_heap" where
  "txqueue_entry_erase self h =
     (let next = txqueue_entry_next h self;
          prev = txqueue_entry_prev h self;
          h = h\<lparr>rh_prev := (rh_prev h)(next := prev)\<rparr>;
          h = h\<lparr>rh_next := (rh_next h)(prev := next)\<rparr>;
          h = h\<lparr>rh_next := (rh_next h)(self := 0)\<rparr>
      in h\<lparr>rh_prev := (rh_prev h)(self := 0)\<rparr>)"

definition txqueue_entry_distance :: "ring_heap \<Rightarrow> pointer \<Rightarrow> pointer \<Rightarrow> u64 option" where
  "txqueue_entry_distance h beg end = walk_distance (txqueue_entry_next h) beg end 0"

subsection \<open>List entries\<close>

definition txlist_entry_init :: "pointer \<Rightarrow> ring_heap \<Rightarrow> ring_heap" where
  "txlist_entry_init self h = h\<lparr>rh_next := (rh_next h)(self := 0), rh_prev := (rh_prev h)(self := 0)\<rparr>"

definition txlist_entry_init_head :: "pointer \<Rightarrow> ring_heap \<Rightarrow> ring_heap" where
  "txlist_entry_init_head self h =
     h\<lparr>rh_next := (rh_next h)(self := self), rh_prev := (rh_prev h)(self := self)\<rparr>"

definition txlist_entry_next :: "ring_heap \<Rightarrow> pointer \<Rightarrow> pointer" where
  "txlist_entry_next h self = rh_next h self"

definition txlist_entry_prev :: "ring_heap \<Rightarrow> pointer \<Rightarrow> pointer" where
  "txlist_entry_prev h self = rh_prev h self"

definition txlist_entry_is_enqueued :: "ring_heap \<Rightarrow> pointer \<Rightarrow> bool" where
  "txlist_entry_is_enqueued h self \<longleftrightarrow> rh_next h self \<noteq> 0"

definition txlist_entry_insert :: "pointer \<Rightarrow> pointer \<Rightarrow> ring_heap \<Rightarrow> ring_heap" where
  "txlist_entry_insert self next h =
     (let h = h\<lparr>rh_next := (rh_next h)(self := next)\<rparr>;
          h = h\<lparr>rh_prev := (rh_prev h)(self := rh_prev h next)\<rparr>;
          h = h\<lparr>rh_next := (rh_next h)(rh_prev h next := self)\<rparr>
      in h\<lparr>rh_prev := (rh_prev h)(next := self)\<rparr>)"

definition txlist_entry_erase :: "pointer \<Rightarrow> ring_heap \<Rightarrow> ring_heap" where
  "txlist_entry_erase self h =
     (let h = h\<lparr>rh_prev := (rh_prev h)(rh_next h self := rh_prev h self)\<rparr>;
          h = h\<lparr>rh_next := (rh_next h)(rh_prev h self := rh_next h self)\<rparr>;
          h = h\<lparr>rh_next := (rh_next h)(self := 0)\<rparr>
      in h\<lparr>rh_prev := (rh_prev h)(self := 0)\<rparr>)"

definition txlist_entry_distance :: "ring_heap \<Rightarrow> pointer \<Rightarrow> pointer \<Rightarrow> u64 option" where
  "txlist_entry_distance h beg end = walk_distance (txlist_entry_next h) beg end 0"

subsection \<open>Both provide the interface\<close>

text \<open>The two insertions write in a different order; between ring neighbours they come to the same.\<close>

lemma insert_splice:
  assumes "x \<noteq> n" and "rh_prev h n \<noteq> x"
  shows "txqueue_entry_insert x n h = splice_in (rh_prev h n) x n h"
    and "txlist_entry_insert x n h = splice_in (rh_prev h n) x n h"
  using assms
  by (auto simp: txqueue_entry_insert_def txlist_entry_insert_def txqueue_entry_prev_def splice_in_def Let_def fun_eq_iff)

lemma erase_unsplice:
  assumes "rh_next h x \<noteq> x" and "rh_prev h x \<noteq> x"
  shows "txqueue_entry_erase x h = unsplice x h" and "txlist_entry_erase x h = unsplice x h"
  using assms
  by (auto simp: txqueue_entry_erase_def txlist_entry_erase_def txqueue_entry_next_def txqueue_entry_prev_def
      unsplice_def Let_def fun_eq_iff)

lemma insert_position:
  assumes "rings h F" and "F q = Some (xs @ ys)" and "x \<notin> members F"
  shows "x \<noteq> hd (ys @ [q])" and "rh_prev h (hd (ys @ [q])) = last (q # xs)" and "last (q # xs) \<noteq> x"
proof -
  have "x \<notin> set (q # xs @ ys)" using assms(2,3) memberI [of F q "xs @ ys" x] by auto
  moreover have "last (q # xs) \<in> set (q # xs)" by (rule last_in_set) simp
  moreover have "hd (ys @ [q]) \<in> set (q # ys)" by (cases ys) auto
  ultimately show "x \<noteq> hd (ys @ [q])" "last (q # xs) \<noteq> x" by auto
  show "rh_prev h (hd (ys @ [q])) = last (q # xs)" by (rule neighbours(1) [OF assms(1,2)])
qed

lemma erase_position:
  assumes "rings h F" and "F q = Some (xs @ x # ys)"
  shows "rh_next h x \<noteq> x" and "rh_prev h x \<noteq> x"
proof -
  have fam: "family_ok F" and link: "linked h (q # (xs @ x # ys) @ [q])"
    using assms unfolding rings_def by blast+
  have d: "distinct (q # xs @ x # ys)" using family_okD [OF fam assms(2)] by simp
  have "last (q # xs) \<in> set (q # xs)" by (rule last_in_set) simp
  moreover have "hd (ys @ [q]) \<in> set (q # ys)" by (cases ys) auto
  ultimately show "rh_next h x \<noteq> x" and "rh_prev h x \<noteq> x"
    using unsplice_ring(2,3) [OF link d] d by auto
qed

interpretation queue_entries: ring_entries txqueue_entry_insert txqueue_entry_erase
proof unfold_locales
  fix h F q xs ys x
  assume a: "rings h F" "F q = Some (xs @ ys)" "x \<noteq> 0" "x \<notin> members F"
  note pos = insert_position [OF a(1,2,4)]
  show "rings (txqueue_entry_insert x (hd (ys @ [q])) h) (F(q \<mapsto> xs @ x # ys))"
    using splice_rings [OF a] pos insert_splice(1) [of x "hd (ys @ [q])" h] by simp
next
  fix h F q xs x ys
  assume a: "rings h F" "F q = Some (xs @ x # ys)"
  show "rings (txqueue_entry_erase x h) (F(q \<mapsto> xs @ ys))"
    using unsplice_rings [OF a] erase_position [OF a] erase_unsplice(1) [of h x] by simp
qed

interpretation list_entries: ring_entries txlist_entry_insert txlist_entry_erase
proof unfold_locales
  fix h F q xs ys x
  assume a: "rings h F" "F q = Some (xs @ ys)" "x \<noteq> 0" "x \<notin> members F"
  note pos = insert_position [OF a(1,2,4)]
  show "rings (txlist_entry_insert x (hd (ys @ [q])) h) (F(q \<mapsto> xs @ x # ys))"
    using splice_rings [OF a] pos insert_splice(2) [of x "hd (ys @ [q])" h] by simp
next
  fix h F q xs x ys
  assume a: "rings h F" "F q = Some (xs @ x # ys)"
  show "rings (txlist_entry_erase x h) (F(q \<mapsto> xs @ ys))"
    using unsplice_rings [OF a] erase_position [OF a] erase_unsplice(2) [of h x] by simp
qed

subsection \<open>The state of a queue\<close>

definition txqueue_state_init :: "pointer \<Rightarrow> ring_heap \<Rightarrow> (pointer \<Rightarrow> u8) \<Rightarrow> ring_heap \<times> (pointer \<Rightarrow> u8)" where
  "txqueue_state_init self h lock = (txqueue_entry_init_head self h, lock(self := picotm_rwlock_init))"

definition txqueue_state_begin :: "ring_heap \<Rightarrow> pointer \<Rightarrow> pointer" where
  "txqueue_state_begin h self = txqueue_entry_next h self"

definition txqueue_state_end :: "pointer \<Rightarrow> pointer" where
  "txqueue_state_end self = self"

definition txqueue_state_is_empty :: "ring_heap \<Rightarrow> pointer \<Rightarrow> bool" where
  "txqueue_state_is_empty h self \<longleftrightarrow> txqueue_state_begin h self = txqueue_state_end self"

definition txqueue_state_size :: "ring_heap \<Rightarrow> pointer \<Rightarrow> u64 option" where
  "txqueue_state_size h self = txqueue_entry_distance h (txqueue_state_begin h self) (txqueue_state_end self)"

definition txqueue_state_front :: "ring_heap \<Rightarrow> pointer \<Rightarrow> pointer" where
  "txqueue_state_front h self = txqueue_state_begin h self"

definition txqueue_state_back :: "ring_heap \<Rightarrow> pointer \<Rightarrow> pointer" where
  "txqueue_state_back h self = txqueue_entry_prev h (txqueue_state_end self)"

definition txqueue_state_push_front :: "pointer \<Rightarrow> pointer \<Rightarrow> ring_heap \<Rightarrow> ring_heap" where
  "txqueue_state_push_front self entry h = txqueue_entry_insert entry (txqueue_state_begin h self) h"

definition txqueue_state_push_back :: "pointer \<Rightarrow> pointer \<Rightarrow> ring_heap \<Rightarrow> ring_heap" where
  "txqueue_state_push_back self entry h = txqueue_entry_insert entry (txqueue_state_end self) h"

definition txqueue_state_pop_front :: "pointer \<Rightarrow> ring_heap \<Rightarrow> ring_heap" where
  "txqueue_state_pop_front self h = txqueue_entry_erase (txqueue_state_front h self) h"

partial_function (option) txqueue_state_clear_and_uninit_entries ::
  "pointer \<Rightarrow> (pointer \<Rightarrow> 'u \<Rightarrow> 'u) \<Rightarrow> ring_heap \<Rightarrow> 'u \<Rightarrow> (ring_heap \<times> 'u) option"
where
  "txqueue_state_clear_and_uninit_entries self uninit h data =
     (if txqueue_state_begin h self = txqueue_state_end self then Some (h, data)
      else txqueue_state_clear_and_uninit_entries self uninit (txqueue_entry_erase (txqueue_state_begin h self) h)
             (uninit (txqueue_state_begin h self) data))"

subsection \<open>The state of a list\<close>

definition txlist_state_init :: "pointer \<Rightarrow> ring_heap \<Rightarrow> (pointer \<Rightarrow> u8) \<Rightarrow> ring_heap \<times> (pointer \<Rightarrow> u8)" where
  "txlist_state_init self h lock = (txlist_entry_init_head self h, lock(self := picotm_rwlock_init))"

definition txlist_state_begin :: "ring_heap \<Rightarrow> pointer \<Rightarrow> pointer" where
  "txlist_state_begin h self = txlist_entry_next h self"

definition txlist_state_end :: "pointer \<Rightarrow> pointer" where
  "txlist_state_end self = self"

definition txlist_state_is_empty :: "ring_heap \<Rightarrow> pointer \<Rightarrow> bool" where
  "txlist_state_is_empty h self \<longleftrightarrow> txlist_state_begin h self = txlist_state_end self"

definition txlist_state_size :: "ring_heap \<Rightarrow> pointer \<Rightarrow> u64 option" where
  "txlist_state_size h self = txlist_entry_distance h (txlist_state_begin h self) (txlist_state_end self)"

definition txlist_state_front :: "ring_heap \<Rightarrow> pointer \<Rightarrow> pointer" where
  "txlist_state_front h self = txlist_state_begin h self"

definition txlist_state_back :: "ring_heap \<Rightarrow> pointer \<Rightarrow> pointer" where
  "txlist_state_back h self = txlist_entry_prev h (txlist_state_end self)"

definition txlist_state_insert :: "pointer \<Rightarrow> pointer \<Rightarrow> pointer \<Rightarrow> ring_heap \<Rightarrow> ring_heap" where
  "txlist_state_insert self entry position h = txlist_entry_insert entry position h"

definition txlist_state_erase :: "pointer \<Rightarrow> pointer \<Rightarrow> ring_heap \<Rightarrow> ring_heap" where
  "txlist_state_erase self entry h = txlist_entry_erase entry h"

partial_function (option) txlist_state_clear_and_uninit_entries ::
  "pointer \<Rightarrow> (pointer \<Rightarrow> 'u \<Rightarrow> 'u) \<Rightarrow> ring_heap \<Rightarrow> 'u \<Rightarrow> (ring_heap \<times> 'u) option"
where
  "txlist_state_clear_and_uninit_entries self uninit h data =
     (if txlist_state_begin h self = txlist_state_end self then Some (h, data)
      else txlist_state_clear_and_uninit_entries self uninit (txlist_state_erase self (txlist_state_begin h self) h)
             (uninit (txlist_state_begin h self) data))"

subsection \<open>What the operations of the states do\<close>

lemma queue_state_facts [heap_simps]:
  assumes "rings h F" and "F q = Some xs"
  shows "txqueue_state_begin h q = hd (xs @ [q])" and "txqueue_state_front h q = hd (xs @ [q])"
    and "txqueue_state_back h q = last (q # xs)" and "txqueue_state_is_empty h q \<longleftrightarrow> xs = []"
    and "txqueue_state_size h q = Some (of_nat (length xs))"
proof -
  have "q \<notin> set xs" using assms family_okD(2) [of F q xs] by (simp add: rings_def)
  then show "txqueue_state_is_empty h q \<longleftrightarrow> xs = []"
    using ring_ends [OF assms]
    by (cases xs) (auto simp: txqueue_state_is_empty_def txqueue_state_begin_def txqueue_state_end_def txqueue_entry_next_def)
  have "txqueue_entry_next h = rh_next h" by (simp add: txqueue_entry_next_def fun_eq_iff)
  then show "txqueue_state_size h q = Some (of_nat (length xs))"
    using ring_distance [OF assms]
    by (simp add: txqueue_state_size_def txqueue_entry_distance_def txqueue_state_begin_def txqueue_state_end_def)
qed (use ring_ends [OF assms] in \<open>simp_all add: txqueue_state_begin_def txqueue_state_front_def
  txqueue_state_back_def txqueue_state_end_def txqueue_entry_next_def txqueue_entry_prev_def\<close>)

lemma list_state_facts [heap_simps]:
  assumes "rings h F" and "F q = Some xs"
  shows "txlist_state_begin h q = hd (xs @ [q])" and "txlist_state_front h q = hd (xs @ [q])"
    and "txlist_state_back h q = last (q # xs)" and "txlist_state_is_empty h q \<longleftrightarrow> xs = []"
    and "txlist_state_size h q = Some (of_nat (length xs))"
proof -
  have "q \<notin> set xs" using assms family_okD(2) [of F q xs] by (simp add: rings_def)
  then show "txlist_state_is_empty h q \<longleftrightarrow> xs = []"
    using ring_ends [OF assms]
    by (cases xs) (auto simp: txlist_state_is_empty_def txlist_state_begin_def txlist_state_end_def txlist_entry_next_def)
  have "txlist_entry_next h = rh_next h" by (simp add: txlist_entry_next_def fun_eq_iff)
  then show "txlist_state_size h q = Some (of_nat (length xs))"
    using ring_distance [OF assms]
    by (simp add: txlist_state_size_def txlist_entry_distance_def txlist_state_begin_def txlist_state_end_def)
qed (use ring_ends [OF assms] in \<open>simp_all add: txlist_state_begin_def txlist_state_front_def
  txlist_state_back_def txlist_state_end_def txlist_entry_next_def txlist_entry_prev_def\<close>)

text \<open>Clearing takes every entry out, in order, and ends.\<close>

lemma queue_clear:
  assumes "rings h F" and "F q = Some xs"
  shows "\<exists>h'. txqueue_state_clear_and_uninit_entries q uninit h data = Some (h', fold uninit xs data) \<and>
    rings h' (F(q \<mapsto> []))"
  using assms
proof (induction xs arbitrary: h F data)
  case Nil
  then have "F(q \<mapsto> []) = F" by (auto simp: fun_eq_iff)
  with Nil show ?case
    using queue_state_facts(4) [OF Nil]
    by (subst txqueue_state_clear_and_uninit_entries.simps) (simp add: txqueue_state_is_empty_def)
next
  case (Cons x xs)
  note facts = queue_state_facts [OF Cons.prems]
  have "rings (txqueue_entry_erase x h) (F(q \<mapsto> xs))"
    using queue_entries.pop_front [OF Cons.prems] ring_ends(1) [OF Cons.prems] by simp
  with Cons.IH [of "txqueue_entry_erase x h" "F(q \<mapsto> xs)" "uninit x data"]
  have "\<exists>h'. txqueue_state_clear_and_uninit_entries q uninit (txqueue_entry_erase x h) (uninit x data) =
      Some (h', fold uninit xs (uninit x data)) \<and> rings h' (F(q \<mapsto> []))"
    by (simp add: fun_upd_def cong: if_cong)
  then show ?case
    using facts(1,4)
    by (subst txqueue_state_clear_and_uninit_entries.simps) (simp add: txqueue_state_is_empty_def)
qed

lemma list_clear:
  assumes "rings h F" and "F q = Some xs"
  shows "\<exists>h'. txlist_state_clear_and_uninit_entries q uninit h data = Some (h', fold uninit xs data) \<and>
    rings h' (F(q \<mapsto> []))"
  using assms
proof (induction xs arbitrary: h F data)
  case Nil
  then have "F(q \<mapsto> []) = F" by (auto simp: fun_eq_iff)
  with Nil show ?case
    using list_state_facts(4) [OF Nil]
    by (subst txlist_state_clear_and_uninit_entries.simps) (simp add: txlist_state_is_empty_def)
next
  case (Cons x xs)
  note facts = list_state_facts [OF Cons.prems]
  have "rings (txlist_entry_erase x h) (F(q \<mapsto> xs))"
    using list_entries.pop_front [OF Cons.prems] ring_ends(1) [OF Cons.prems] by simp
  with Cons.IH [of "txlist_entry_erase x h" "F(q \<mapsto> xs)" "uninit x data"]
  have "\<exists>h'. txlist_state_clear_and_uninit_entries q uninit (txlist_entry_erase x h) (uninit x data) =
      Some (h', fold uninit xs (uninit x data)) \<and> rings h' (F(q \<mapsto> []))"
    by (simp add: fun_upd_def cong: if_cong)
  then show ?case
    using facts(1,4)
    by (subst txlist_state_clear_and_uninit_entries.simps)
      (simp add: txlist_state_is_empty_def txlist_state_erase_def)
qed

end
