(* ===== verification/Txlib_Stack.thy ===== *)
theory Txlib_Stack
  imports Txlib_Ring Picotm_Rwstate
begin

text \<open>
  Entries and state of transactional stacks (\<open>modules/txlib/src/txstack_entry.c\<close>, \<open>txstack_state.c\<close>).
  Each entry points to the one below it, the head to the top, and the bottom to the head.
\<close>

type_synonym stack_heap = "pointer \<Rightarrow> pointer"

subsection \<open>Entries\<close>

definition txstack_entry_init :: "pointer \<Rightarrow> stack_heap \<Rightarrow> stack_heap" where
  "txstack_entry_init self h = h(self := 0)"

definition txstack_entry_init_head :: "pointer \<Rightarrow> stack_heap \<Rightarrow> stack_heap" where
  "txstack_entry_init_head self h = h(self := self)"

definition txstack_entry_prev :: "stack_heap \<Rightarrow> pointer \<Rightarrow> pointer" where
  "txstack_entry_prev h self = h self"

definition txstack_entry_is_stacked :: "stack_heap \<Rightarrow> pointer \<Rightarrow> bool" where
  "txstack_entry_is_stacked h self \<longleftrightarrow> h self \<noteq> 0"

definition txstack_entry_insert :: "pointer \<Rightarrow> pointer \<Rightarrow> stack_heap \<Rightarrow> stack_heap" where
  "txstack_entry_insert self next h =
     (let prev = txstack_entry_prev h next in (h(next := self))(self := prev))"

definition txstack_entry_erase :: "pointer \<Rightarrow> pointer \<Rightarrow> stack_heap \<Rightarrow> stack_heap" where
  "txstack_entry_erase self next h =
     (let prev = txstack_entry_prev h self in (h(next := prev))(self := 0))"

definition txstack_entry_distance :: "stack_heap \<Rightarrow> pointer \<Rightarrow> pointer \<Rightarrow> u64 option" where
  "txstack_entry_distance h beg end = walk_distance (txstack_entry_prev h) beg end 0"

subsection \<open>The state of a stack\<close>

definition txstack_state_init :: "pointer \<Rightarrow> stack_heap \<Rightarrow> (pointer \<Rightarrow> u8) \<Rightarrow> stack_heap \<times> (pointer \<Rightarrow> u8)" where
  "txstack_state_init self h lock = (txstack_entry_init_head self h, lock(self := picotm_rwlock_init))"

definition txstack_state_begin :: "stack_heap \<Rightarrow> pointer \<Rightarrow> pointer" where
  "txstack_state_begin h self = txstack_entry_prev h self"

definition txstack_state_end :: "pointer \<Rightarrow> pointer" where
  "txstack_state_end self = self"

definition txstack_state_is_empty :: "stack_heap \<Rightarrow> pointer \<Rightarrow> bool" where
  "txstack_state_is_empty h self \<longleftrightarrow> txstack_state_begin h self = txstack_state_end self"

definition txstack_state_size :: "stack_heap \<Rightarrow> pointer \<Rightarrow> u64 option" where
  "txstack_state_size h self =
     txstack_entry_distance h (txstack_state_begin h self) (txstack_state_end self)"

definition txstack_state_top :: "stack_heap \<Rightarrow> pointer \<Rightarrow> pointer" where
  "txstack_state_top h self = txstack_entry_prev h (txstack_state_end self)"

definition txstack_state_push :: "pointer \<Rightarrow> pointer \<Rightarrow> stack_heap \<Rightarrow> stack_heap" where
  "txstack_state_push self entry h = txstack_entry_insert entry (txstack_state_end self) h"

definition txstack_state_pop :: "pointer \<Rightarrow> stack_heap \<Rightarrow> stack_heap" where
  "txstack_state_pop self h = txstack_entry_erase (txstack_state_top h self) (txstack_state_end self) h"

partial_function (option) txstack_state_clear_and_uninit_entries ::
  "pointer \<Rightarrow> (pointer \<Rightarrow> 'u \<Rightarrow> 'u) \<Rightarrow> stack_heap \<Rightarrow> 'u \<Rightarrow> (stack_heap \<times> 'u) option"
where
  "txstack_state_clear_and_uninit_entries self uninit h data =
     (if txstack_state_begin h self = txstack_state_end self then Some (h, data)
      else txstack_state_clear_and_uninit_entries self uninit
             (txstack_entry_erase (txstack_state_begin h self) (txstack_state_end self) h)
             (uninit (txstack_state_begin h self) data))"

subsection \<open>Families of stacks\<close>

fun chained :: "stack_heap \<Rightarrow> pointer list \<Rightarrow> bool" where
  "chained h (a # b # xs) \<longleftrightarrow> h a = b \<and> chained h (b # xs)"
| "chained h xs \<longleftrightarrow> True"

definition stacks :: "stack_heap \<Rightarrow> family \<Rightarrow> bool" where
  "stacks h F \<longleftrightarrow> family_ok F \<and> (\<forall>q xs. F q = Some xs \<longrightarrow> chained h (q # xs @ [q])) \<and>
     (\<forall>x. x \<notin> members F \<longrightarrow> h x = 0)"

lemma chained_append: "chained h (xs @ a # ys) \<longleftrightarrow> chained h (xs @ [a]) \<and> chained h (a # ys)"
proof (induction xs)
  case (Cons x xs)
  then show ?case by (cases xs) auto
qed (cases ys; simp)

lemma chained_cong:
  "chained h xs \<Longrightarrow> (\<And>a. a \<in> set (butlast xs) \<Longrightarrow> h' a = h a) \<Longrightarrow> chained h' xs"
proof (induction xs rule: induct_list012)
  case (3 a b xs)
  show ?case using 3(3-) by (simp, intro 3(2)) auto
qed auto

lemma stacks_upd:
  assumes "stacks h F" and "F q = Some xs" and "family_ok (F(q \<mapsto> ys))" and "chained h' (q # ys @ [q])"
    and "\<And>a. h' a \<noteq> h a \<Longrightarrow> a \<in> set (q # xs) \<or> a \<in> set ys"
    and "\<And>a. a \<in> set xs \<Longrightarrow> a \<notin> set ys \<Longrightarrow> h' a = 0"
  shows "stacks h' (F(q \<mapsto> ys))"
proof -
  have fam: "family_ok F" using assms(1) by (simp add: stacks_def)
  have "chained h' (q' # zs @ [q'])" if "F q' = Some zs" "q' \<noteq> q" for q' zs
  proof (rule chained_cong)
    show "chained h (q' # zs @ [q'])" using assms(1) that(1) unfolding stacks_def by blast
    fix a assume "a \<in> set (butlast (q' # zs @ [q']))"
    then have a: "a \<in> set (q' # zs)" by (metis append_Cons butlast_snoc)
    then have "a \<notin> set (q # xs)"
      using family_apart [OF fam assms(2) \<open>F q' = Some zs\<close>] \<open>q' \<noteq> q\<close> by auto
    moreover have "a \<notin> set (q # ys)"
      using family_apart [OF assms(3), of q ys q' zs] \<open>q' \<noteq> q\<close> \<open>F q' = Some zs\<close> a by auto
    ultimately show "h' a = h a" using assms(5) [of a] by auto
  qed
  moreover have "h' a = 0" if a: "a \<notin> members (F(q \<mapsto> ys))" for a
  proof (cases "a \<in> set xs")
    case True
    then show ?thesis using assms(6) a members_upd [OF fam assms(2)] by auto
  next
    case False
    then have "a \<notin> members F" "a \<notin> set ys" using a members_upd [OF fam assms(2)] by auto
    moreover have "a \<notin> set (q # xs)" using False \<open>a \<notin> members F\<close> memberI [of F q xs a] assms(2) by auto
    ultimately have "h' a = h a" using assms(5) [of a] by auto
    then show ?thesis using assms(1) \<open>a \<notin> members F\<close> unfolding stacks_def by simp
  qed
  ultimately show ?thesis using assms(3,4) unfolding stacks_def by (auto split: if_splits)
qed

lemma stack_insert:
  assumes "stacks h F" and "F q = Some (xs @ ys)" and "x \<noteq> 0" and "x \<notin> members F"
  shows "stacks (txstack_entry_insert x (last (q # xs)) h) (F(q \<mapsto> xs @ x # ys))"
proof -
  have fam: "family_ok F" and chain: "chained h (q # (xs @ ys) @ [q])"
    using assms(1,2) unfolding stacks_def by blast+
  have x: "x \<notin> set (q # xs @ ys)" using assms(2,4) memberI [of F q "xs @ ys" x] by auto
  have d: "distinct (q # xs @ ys)" using family_okD [OF fam assms(2)] by simp
  obtain ps p where ps: "q # xs = ps @ [p]" by (metis append_butlast_last_id list.distinct(1))
  obtain n ns where ns: "ys @ [q] = n # ns" by (metis list.exhaust snoc_eq_iff_butlast)
  have all: "q # xs @ ys = ps @ p # ys" using ps by simp
  have "q # (xs @ ys) @ [q] = ps @ p # n # ns" using ps ns by simp
  with chain have old: "chained h (ps @ [p])" "h p = n" "chained h (n # ns)"
    using chained_append [of h ps p "n # ns"] by simp_all
  have p: "last (q # xs) = p" "p \<notin> set ps" "p \<notin> set ys" "p \<noteq> x" "p \<in> set (q # xs)" and ps_x: "x \<notin> set ps"
    using d x ps unfolding all by auto
  let ?h = "txstack_entry_insert x p h"
  have h: "?h = h(p := x, x := n)" using old(2) by (simp add: txstack_entry_insert_def txstack_entry_prev_def Let_def)
  have "chained ?h (ps @ [p])"
    by (rule chained_cong [OF old(1)]) (use p(2) ps_x in \<open>auto simp: h\<close>)
  moreover have "chained ?h (n # ns)"
  proof (rule chained_cong [OF old(3)])
    fix a assume "a \<in> set (butlast (n # ns))"
    then have "a \<in> set ys" using ns by (metis butlast_snoc)
    then show "?h a = h a" using p(3) x by (auto simp: h)
  qed
  then have "chained ?h (p # x # n # ns)" using p(4) by (simp add: h)
  moreover have "q # (xs @ x # ys) @ [q] = ps @ p # x # n # ns" using ps ns by simp
  ultimately have ring: "chained ?h (q # (xs @ x # ys) @ [q])"
    using chained_append [of ?h ps p "x # n # ns"] by simp
  show ?thesis unfolding p(1)
  proof (rule stacks_upd [OF assms(1,2) _ ring])
    show "family_ok (F(q \<mapsto> xs @ x # ys))"
      by (rule family_upd [OF fam assms(2)]) (use assms(3,4) d x in auto)
    show "a \<in> set (q # xs @ ys) \<or> a \<in> set (xs @ x # ys)" if "?h a \<noteq> h a" for a
      using that p(5) by (auto simp: h split: if_splits)
  qed simp
qed

lemma stack_erase:
  assumes "stacks h F" and "F q = Some (xs @ x # ys)"
  shows "stacks (txstack_entry_erase x (last (q # xs)) h) (F(q \<mapsto> xs @ ys))"
    and "h x = hd (ys @ [q])" and "h (last (q # xs)) = x"
proof -
  have fam: "family_ok F" and chain: "chained h (q # (xs @ x # ys) @ [q])"
    using assms unfolding stacks_def by blast+
  have d: "distinct (q # xs @ x # ys)" using family_okD [OF fam assms(2)] by simp
  obtain ps p where ps: "q # xs = ps @ [p]" by (metis append_butlast_last_id list.distinct(1))
  obtain n ns where ns: "ys @ [q] = n # ns" by (metis list.exhaust snoc_eq_iff_butlast)
  have all: "q # xs @ x # ys = ps @ p # x # ys" using ps by simp
  have "q # (xs @ x # ys) @ [q] = ps @ p # x # n # ns" using ps ns by simp
  with chain have old: "chained h (ps @ [p])" "h p = x" "h x = n" "chained h (n # ns)"
    using chained_append [of h ps p "x # n # ns"] by simp_all
  have p: "last (q # xs) = p" "p \<notin> set ps" "p \<notin> set ys" "p \<noteq> x" "p \<in> set (q # xs)"
    and x: "x \<notin> set ps" "x \<notin> set ys" using d ps unfolding all by auto
  from old ps ns show "h x = hd (ys @ [q])" "h (last (q # xs)) = x" by simp_all
  let ?h = "txstack_entry_erase x p h"
  have h: "?h = h(p := n, x := 0)" using old(3) by (simp add: txstack_entry_erase_def txstack_entry_prev_def Let_def)
  have "chained ?h (ps @ [p])"
    by (rule chained_cong [OF old(1)]) (use p(2) x in \<open>auto simp: h\<close>)
  moreover have "chained ?h (n # ns)"
  proof (rule chained_cong [OF old(4)])
    fix a assume "a \<in> set (butlast (n # ns))"
    then have "a \<in> set ys" using ns by (metis butlast_snoc)
    then show "?h a = h a" using p(3) x by (auto simp: h)
  qed
  then have "chained ?h (p # n # ns)" using p(4) by (simp add: h)
  moreover have "q # (xs @ ys) @ [q] = ps @ p # n # ns" using ps ns by simp
  ultimately have ring: "chained ?h (q # (xs @ ys) @ [q])"
    using chained_append [of ?h ps p "n # ns"] by simp
  show "stacks (txstack_entry_erase x (last (q # xs)) h) (F(q \<mapsto> xs @ ys))" unfolding p(1)
  proof (rule stacks_upd [OF assms(1,2) _ ring])
    show "family_ok (F(q \<mapsto> xs @ ys))"
      by (rule family_upd [OF fam assms(2)]) (use d in auto)
    show "a \<in> set (q # xs @ x # ys) \<or> a \<in> set (xs @ ys)" if "?h a \<noteq> h a" for a
      using that p(5) by (auto simp: h split: if_splits)
    show "?h a = 0" if "a \<in> set (xs @ x # ys)" "a \<notin> set (xs @ ys)" for a
      using that by (auto simp: h)
  qed
qed

lemma stack_top:
  assumes "stacks h F" and "F q = Some xs"
  shows "h q = hd (xs @ [q])"
proof -
  have "chained h (q # xs @ [q])" using assms unfolding stacks_def by blast
  then show ?thesis by (cases xs) auto
qed

lemma stack_state_facts [heap_simps]:
  assumes "stacks h F" and "F q = Some xs"
  shows "txstack_state_begin h q = hd (xs @ [q])" and "txstack_state_top h q = hd (xs @ [q])"
    and "txstack_state_is_empty h q \<longleftrightarrow> xs = []" and "txstack_state_size h q = Some (of_nat (length xs))"
proof -
  have "family_ok F" and chain: "chained h (q # xs @ [q])" using assms unfolding stacks_def by blast+
  then have q: "q \<notin> set xs" using family_okD(2) [of F q xs] assms(2) by simp
  then show "txstack_state_is_empty h q \<longleftrightarrow> xs = []"
    using stack_top [OF assms]
    by (cases xs) (auto simp: txstack_state_is_empty_def txstack_state_begin_def txstack_state_end_def txstack_entry_prev_def)
  have "steps_to h ys q" if "chained h (x # ys @ [q])" "q \<notin> set ys" for x ys
    using that
  proof (induction ys arbitrary: x)
    case (Cons y ys)
    then show ?case by (cases ys) auto
  qed simp
  from walk_distance_steps [OF this [OF chain q], of 0]
  have "walk_distance h (h q) q 0 = Some (of_nat (length xs))" using stack_top [OF assms] by simp
  moreover have "txstack_entry_prev h = h" by (simp add: txstack_entry_prev_def fun_eq_iff)
  ultimately show "txstack_state_size h q = Some (of_nat (length xs))"
    by (simp add: txstack_state_size_def txstack_entry_distance_def txstack_state_begin_def txstack_state_end_def)
qed (use stack_top [OF assms] in \<open>simp_all add: txstack_state_begin_def txstack_state_top_def
  txstack_state_end_def txstack_entry_prev_def\<close>)

lemma stack_push:
  assumes "stacks h F" and "F q = Some xs" and "x \<noteq> 0" and "x \<notin> members F"
  shows "stacks (txstack_entry_insert x q h) (F(q \<mapsto> x # xs))"
  using stack_insert [of h F q "[]" xs x] assms by simp

lemma stack_pop:
  assumes "stacks h F" and "F q = Some (x # xs)"
  shows "stacks (txstack_entry_erase (h q) q h) (F(q \<mapsto> xs))" and "h q = x"
  using stack_erase [of h F q "[]" x xs] assms by simp_all

lemma stacked_iff:
  assumes "stacks h F"
  shows "txstack_entry_is_stacked h x \<longleftrightarrow> x \<in> members F"
proof
  show "txstack_entry_is_stacked h x \<Longrightarrow> x \<in> members F"
    using assms unfolding stacks_def txstack_entry_is_stacked_def by blast
  assume "x \<in> members F"
  then obtain q xs where q: "F q = Some xs" "x \<in> set (q # xs)" by (auto simp: members_def)
  have fam: "family_ok F" using assms by (simp add: stacks_def)
  have "h x \<in> set (q # xs)"
  proof (cases "x = q")
    case True
    then show ?thesis using stack_top [OF assms q(1)] by (cases xs) auto
  next
    case False
    then obtain as bs where "xs = as @ x # bs" using q(2) by (auto dest: split_list)
    then show ?thesis using stack_erase(2) [OF assms, of q as x bs] q(1) by (cases bs) auto
  qed
  then show "txstack_entry_is_stacked h x"
    using family_okD(3,4) [OF fam q(1)] by (auto simp: txstack_entry_is_stacked_def)
qed

lemma stack_clear:
  assumes "stacks h F" and "F q = Some xs"
  shows "\<exists>h'. txstack_state_clear_and_uninit_entries q uninit h data = Some (h', fold uninit xs data) \<and>
    stacks h' (F(q \<mapsto> []))"
  using assms
proof (induction xs arbitrary: h F data)
  case Nil
  then have "F(q \<mapsto> []) = F" by (auto simp: fun_eq_iff)
  with Nil show ?case
    using stack_state_facts(3) [OF Nil]
    by (subst txstack_state_clear_and_uninit_entries.simps) (simp add: txstack_state_is_empty_def)
next
  case (Cons x xs)
  note facts = stack_state_facts [OF Cons.prems]
  have "stacks (txstack_entry_erase x q h) (F(q \<mapsto> xs))"
    using stack_pop [OF Cons.prems] by simp
  with Cons.IH [of "txstack_entry_erase x q h" "F(q \<mapsto> xs)" "uninit x data"]
  have "\<exists>h'. txstack_state_clear_and_uninit_entries q uninit (txstack_entry_erase x q h) (uninit x data) =
      Some (h', fold uninit xs (uninit x data)) \<and> stacks h' (F(q \<mapsto> []))"
    by (simp add: fun_upd_def cong: if_cong)
  then show ?case
    using facts(1,3)
    by (subst txstack_state_clear_and_uninit_entries.simps) (simp add: txstack_state_is_empty_def txstack_state_end_def)
qed

end
