(* ===== verification/Txlib_Multiset.thy ===== *)
theory Txlib_Multiset
  imports Txlib_Ring Picotm_Rwstate
begin

text \<open>
  Entries and state of transactional multisets (\<open>modules/txlib/src/txmultiset_entry.c\<close>,
  \<open>txmultiset_state.c\<close>).  The entries form a binary search tree that hangs below the \<open>lt\<close> link of the
  head; the head is its own parent.  The loops over the tree may run forever on other heaps.
\<close>

record mset_heap =
  ms_lt :: "pointer \<Rightarrow> pointer"
  ms_ge :: "pointer \<Rightarrow> pointer"
  ms_parent :: "pointer \<Rightarrow> pointer"

definition set_lt :: "pointer \<Rightarrow> pointer \<Rightarrow> mset_heap \<Rightarrow> mset_heap" where
  "set_lt x y h = h\<lparr>ms_lt := (ms_lt h)(x := y)\<rparr>"

definition set_ge :: "pointer \<Rightarrow> pointer \<Rightarrow> mset_heap \<Rightarrow> mset_heap" where
  "set_ge x y h = h\<lparr>ms_ge := (ms_ge h)(x := y)\<rparr>"

definition set_parent :: "pointer \<Rightarrow> pointer \<Rightarrow> mset_heap \<Rightarrow> mset_heap" where
  "set_parent x y h = h\<lparr>ms_parent := (ms_parent h)(x := y)\<rparr>"

subsection \<open>Entries\<close>

definition txmultiset_entry_init :: "pointer \<Rightarrow> mset_heap \<Rightarrow> mset_heap" where
  "txmultiset_entry_init self h = set_parent self 0 (set_ge self 0 (set_lt self 0 h))"

definition txmultiset_entry_init_head :: "pointer \<Rightarrow> mset_heap \<Rightarrow> mset_heap" where
  "txmultiset_entry_init_head self h = set_parent self self (set_ge self 0 (set_lt self 0 h))"

partial_function (option) bottom_most_lt :: "mset_heap \<Rightarrow> pointer \<Rightarrow> pointer option" where
  "bottom_most_lt h entry = (if ms_lt h entry = 0 then Some entry else bottom_most_lt h (ms_lt h entry))"

partial_function (option) bottom_most_ge :: "mset_heap \<Rightarrow> pointer \<Rightarrow> pointer option" where
  "bottom_most_ge h entry = (if ms_ge h entry = 0 then Some entry else bottom_most_ge h (ms_ge h entry))"

partial_function (option) nearest_lt_parent :: "mset_heap \<Rightarrow> pointer \<Rightarrow> pointer option" where
  "nearest_lt_parent h entry =
     (if ms_ge h (ms_parent h entry) = entry then nearest_lt_parent h (ms_parent h entry)
      else Some (ms_parent h entry))"

partial_function (option) nearest_ge_parent :: "mset_heap \<Rightarrow> pointer \<Rightarrow> pointer option" where
  "nearest_ge_parent h entry =
     (if ms_lt h (ms_parent h entry) = entry then nearest_ge_parent h (ms_parent h entry)
      else Some (ms_parent h entry))"

definition txmultiset_entry_begin :: "mset_heap \<Rightarrow> pointer \<Rightarrow> pointer option" where
  "txmultiset_entry_begin h self = bottom_most_lt h self"

definition txmultiset_entry_end :: "mset_heap \<Rightarrow> pointer \<Rightarrow> pointer" where
  "txmultiset_entry_end h self = ms_parent h self"

definition txmultiset_entry_next :: "mset_heap \<Rightarrow> pointer \<Rightarrow> pointer option" where
  "txmultiset_entry_next h self =
     (if ms_ge h self \<noteq> 0 then bottom_most_lt h (ms_ge h self) else nearest_lt_parent h self)"

definition txmultiset_entry_prev :: "mset_heap \<Rightarrow> pointer \<Rightarrow> pointer option" where
  "txmultiset_entry_prev h self =
     (if ms_lt h self \<noteq> 0 then bottom_most_ge h (ms_lt h self) else nearest_ge_parent h self)"

definition txmultiset_entry_is_enqueued :: "mset_heap \<Rightarrow> pointer \<Rightarrow> bool" where
  "txmultiset_entry_is_enqueued h self \<longleftrightarrow> ms_parent h self \<noteq> 0"

definition insert_lt_entry :: "pointer \<Rightarrow> pointer \<Rightarrow> mset_heap \<Rightarrow> mset_heap" where
  "insert_lt_entry entry tree h =
     (let h = set_parent entry tree h;
          h = set_lt entry (ms_lt h tree) h
      in set_lt tree entry h)"

definition insert_ge_entry :: "pointer \<Rightarrow> pointer \<Rightarrow> mset_heap \<Rightarrow> mset_heap" where
  "insert_ge_entry entry tree h =
     (let h = set_parent entry tree h;
          h = set_ge entry (ms_ge h tree) h
      in set_ge tree entry h)"

definition insert_at :: "pointer \<Rightarrow> pointer \<Rightarrow> mset_heap \<Rightarrow> mset_heap" where
  "insert_at entry position h =
     (let h = set_lt entry (ms_lt h position) h;
          h = set_ge entry position h;
          h = set_parent entry (ms_parent h position) h;
          h = (if ms_lt h (ms_parent h position) = position
               then set_lt (ms_parent h position) entry h
               else set_ge (ms_parent h position) entry h)
      in set_parent position entry h)"

partial_function (option) txmultiset_entry_insert_loop ::
  "pointer \<Rightarrow> 'k \<Rightarrow> pointer \<Rightarrow> ('k \<Rightarrow> 'k \<Rightarrow> int) \<Rightarrow> (pointer \<Rightarrow> 'k) \<Rightarrow> mset_heap \<Rightarrow> mset_heap option"
where
  "txmultiset_entry_insert_loop self self_key tree cmp_keys key_of_entry h =
     (let cmp = cmp_keys self_key (key_of_entry tree) in
      if cmp < 0 then
        (if ms_lt h tree = 0 then Some (insert_lt_entry self tree h)
         else txmultiset_entry_insert_loop self self_key (ms_lt h tree) cmp_keys key_of_entry h)
      else if cmp > 0 then
        (if ms_ge h tree = 0 then Some (insert_ge_entry self tree h)
         else txmultiset_entry_insert_loop self self_key (ms_ge h tree) cmp_keys key_of_entry h)
      else Some (insert_at self tree h))"

definition txmultiset_entry_insert ::
  "pointer \<Rightarrow> pointer \<Rightarrow> ('k \<Rightarrow> 'k \<Rightarrow> int) \<Rightarrow> (pointer \<Rightarrow> 'k) \<Rightarrow> mset_heap \<Rightarrow> mset_heap option"
where
  "txmultiset_entry_insert self head cmp_keys key_of_entry h =
     (if ms_lt h head = 0 then Some (insert_lt_entry self head h)
      else txmultiset_entry_insert_loop self (key_of_entry self) (ms_lt h head) cmp_keys key_of_entry h)"

definition replace_child :: "pointer \<Rightarrow> pointer \<Rightarrow> pointer \<Rightarrow> mset_heap \<Rightarrow> mset_heap" where
  "replace_child parent self child h =
     (if ms_lt h parent = self then set_lt parent child h else set_ge parent child h)"

definition txmultiset_entry_erase :: "pointer \<Rightarrow> mset_heap \<Rightarrow> mset_heap option" where
  "txmultiset_entry_erase self h =
     (let lt = ms_lt h self; ge = ms_ge h self; parent = ms_parent h self;
          clear = (\<lambda>h. set_parent self 0 (set_ge self 0 (set_lt self 0 h)))
      in if ge \<noteq> 0 then
           (let h = set_parent ge parent h;
                h = replace_child parent self ge h
            in if lt \<noteq> 0 then
                 (case bottom_most_lt h ge of
                    None \<Rightarrow> None
                  | Some bm \<Rightarrow> Some (clear (set_lt bm lt (set_parent lt bm h))))
               else Some (clear h))
         else if lt \<noteq> 0 then
           (let h = set_parent lt parent h;
                h = replace_child parent self lt h
            in Some (clear h))
         else Some (clear (replace_child parent self 0 h)))"

partial_function (option) txmultiset_entry_find_loop ::
  "mset_heap \<Rightarrow> pointer \<Rightarrow> 'k \<Rightarrow> ('k \<Rightarrow> 'k \<Rightarrow> int) \<Rightarrow> (pointer \<Rightarrow> 'k) \<Rightarrow> pointer \<Rightarrow> pointer option"
where
  "txmultiset_entry_find_loop h self key cmp_keys key_of_entry entry =
     (if entry = 0 then Some self
      else
        (let cmp = cmp_keys key (key_of_entry entry) in
         if cmp < 0 then txmultiset_entry_find_loop h self key cmp_keys key_of_entry (ms_lt h entry)
         else if cmp > 0 then txmultiset_entry_find_loop h self key cmp_keys key_of_entry (ms_ge h entry)
         else Some entry))"

definition txmultiset_entry_find ::
  "mset_heap \<Rightarrow> pointer \<Rightarrow> 'k \<Rightarrow> ('k \<Rightarrow> 'k \<Rightarrow> int) \<Rightarrow> (pointer \<Rightarrow> 'k) \<Rightarrow> pointer option"
where
  "txmultiset_entry_find h self key cmp_keys key_of_entry =
     txmultiset_entry_find_loop h self key cmp_keys key_of_entry (ms_lt h self)"

partial_function (option) txmultiset_entry_distance_loop ::
  "mset_heap \<Rightarrow> pointer \<Rightarrow> pointer \<Rightarrow> u64 \<Rightarrow> u64 option"
where
  "txmultiset_entry_distance_loop h beg end n =
     (if beg = end then Some n
      else (case txmultiset_entry_next h beg of
              None \<Rightarrow> None
            | Some beg \<Rightarrow> txmultiset_entry_distance_loop h beg end (n + 1)))"

definition txmultiset_entry_distance :: "mset_heap \<Rightarrow> pointer \<Rightarrow> pointer \<Rightarrow> u64 option" where
  "txmultiset_entry_distance h beg end = txmultiset_entry_distance_loop h beg end 0"

lemmas multiset_loops [code] = bottom_most_lt.simps bottom_most_ge.simps nearest_lt_parent.simps
  nearest_ge_parent.simps txmultiset_entry_insert_loop.simps txmultiset_entry_find_loop.simps
  txmultiset_entry_distance_loop.simps

subsection \<open>The state of a multiset\<close>

text \<open>The functions that give the key of an entry and compare two keys.\<close>

record 'k mset_order =
  mo_key :: "pointer \<Rightarrow> 'k"
  mo_compare :: "'k \<Rightarrow> 'k \<Rightarrow> int"

definition txmultiset_state_init :: "pointer \<Rightarrow> mset_heap \<Rightarrow> (pointer \<Rightarrow> u8) \<Rightarrow> mset_heap \<times> (pointer \<Rightarrow> u8)" where
  "txmultiset_state_init self h lock = (txmultiset_entry_init_head self h, lock(self := picotm_rwlock_init))"

definition txmultiset_state_begin :: "mset_heap \<Rightarrow> pointer \<Rightarrow> pointer option" where
  "txmultiset_state_begin h self = txmultiset_entry_begin h self"

definition txmultiset_state_end :: "mset_heap \<Rightarrow> pointer \<Rightarrow> pointer" where
  "txmultiset_state_end h self = txmultiset_entry_end h self"

definition txmultiset_state_size :: "mset_heap \<Rightarrow> pointer \<Rightarrow> u64 option" where
  "txmultiset_state_size h self =
     (case txmultiset_state_begin h self of
        None \<Rightarrow> None
      | Some beg \<Rightarrow> txmultiset_entry_distance h beg (txmultiset_state_end h self))"

definition txmultiset_state_is_empty :: "mset_heap \<Rightarrow> pointer \<Rightarrow> bool option" where
  "txmultiset_state_is_empty h self =
     map_option (\<lambda>beg. beg = txmultiset_state_end h self) (txmultiset_state_begin h self)"

definition txmultiset_state_front :: "mset_heap \<Rightarrow> pointer \<Rightarrow> pointer option" where
  "txmultiset_state_front h self = txmultiset_state_begin h self"

definition txmultiset_state_back :: "mset_heap \<Rightarrow> pointer \<Rightarrow> pointer option" where
  "txmultiset_state_back h self = txmultiset_entry_prev h (txmultiset_state_end h self)"

definition txmultiset_state_insert :: "'k mset_order \<Rightarrow> pointer \<Rightarrow> pointer \<Rightarrow> mset_heap \<Rightarrow> mset_heap option" where
  "txmultiset_state_insert ord self entry h =
     txmultiset_entry_insert entry self (mo_compare ord) (mo_key ord) h"

definition txmultiset_state_erase :: "pointer \<Rightarrow> pointer \<Rightarrow> mset_heap \<Rightarrow> mset_heap option" where
  "txmultiset_state_erase self entry h = txmultiset_entry_erase entry h"

definition txmultiset_state_find :: "'k mset_order \<Rightarrow> mset_heap \<Rightarrow> pointer \<Rightarrow> 'k \<Rightarrow> pointer option" where
  "txmultiset_state_find ord h self key =
     txmultiset_entry_find h self key (mo_compare ord) (mo_key ord)"

partial_function (option) lower_bound_loop ::
  "'k mset_order \<Rightarrow> mset_heap \<Rightarrow> 'k \<Rightarrow> pointer \<Rightarrow> pointer \<Rightarrow> pointer \<Rightarrow> pointer option"
where
  "lower_bound_loop ord h key beg pos entry =
     (if pos = beg then Some entry
      else (case txmultiset_entry_prev h pos of
              None \<Rightarrow> None
            | Some pos \<Rightarrow>
                if mo_compare ord key (mo_key ord pos) \<noteq> 0 then Some pos
                else lower_bound_loop ord h key beg pos pos))"

definition txmultiset_state_lower_bound :: "'k mset_order \<Rightarrow> mset_heap \<Rightarrow> pointer \<Rightarrow> 'k \<Rightarrow> pointer option" where
  "txmultiset_state_lower_bound ord h self key =
     (case txmultiset_state_find ord h self key of
        None \<Rightarrow> None
      | Some entry \<Rightarrow>
          if entry = txmultiset_state_end h self then Some entry
          else (case txmultiset_state_begin h self of
                  None \<Rightarrow> None
                | Some beg \<Rightarrow> lower_bound_loop ord h key beg entry entry))"

partial_function (option) upper_bound_loop ::
  "'k mset_order \<Rightarrow> mset_heap \<Rightarrow> 'k \<Rightarrow> pointer \<Rightarrow> pointer \<Rightarrow> pointer \<Rightarrow> pointer option"
where
  "upper_bound_loop ord h key end pos entry =
     (if pos = end then Some entry
      else if mo_compare ord key (mo_key ord pos) \<noteq> 0 then Some pos
      else (case txmultiset_entry_next h pos of
              None \<Rightarrow> None
            | Some next \<Rightarrow> upper_bound_loop ord h key end next pos))"

definition txmultiset_state_upper_bound :: "'k mset_order \<Rightarrow> mset_heap \<Rightarrow> pointer \<Rightarrow> 'k \<Rightarrow> pointer option" where
  "txmultiset_state_upper_bound ord h self key =
     (case txmultiset_state_find ord h self key of
        None \<Rightarrow> None
      | Some entry \<Rightarrow>
          if entry = txmultiset_state_end h self then Some entry
          else (case txmultiset_entry_next h entry of
                  None \<Rightarrow> None
                | Some pos \<Rightarrow> upper_bound_loop ord h key (txmultiset_state_end h self) pos entry))"

partial_function (option) count_lower_loop ::
  "'k mset_order \<Rightarrow> mset_heap \<Rightarrow> 'k \<Rightarrow> pointer \<Rightarrow> pointer \<Rightarrow> pointer \<Rightarrow> pointer option"
where
  "count_lower_loop ord h key beg pos lower =
     (if pos = beg then Some lower
      else (case txmultiset_entry_prev h pos of
              None \<Rightarrow> None
            | Some pos \<Rightarrow>
                if mo_compare ord key (mo_key ord pos) \<noteq> 0 then Some lower
                else count_lower_loop ord h key beg pos pos))"

partial_function (option) count_upper_loop ::
  "'k mset_order \<Rightarrow> mset_heap \<Rightarrow> 'k \<Rightarrow> pointer \<Rightarrow> pointer \<Rightarrow> pointer option"
where
  "count_upper_loop ord h key end upper =
     (if upper = end then Some upper
      else if mo_compare ord key (mo_key ord upper) \<noteq> 0 then Some upper
      else (case txmultiset_entry_next h upper of
              None \<Rightarrow> None
            | Some upper \<Rightarrow> count_upper_loop ord h key end upper))"

definition txmultiset_state_count :: "'k mset_order \<Rightarrow> mset_heap \<Rightarrow> pointer \<Rightarrow> 'k \<Rightarrow> u64 option" where
  "txmultiset_state_count ord h self key =
     (case txmultiset_state_find ord h self key of
        None \<Rightarrow> None
      | Some entry \<Rightarrow>
          if entry = txmultiset_state_end h self then Some 0
          else (case txmultiset_state_begin h self of
                  None \<Rightarrow> None
                | Some beg \<Rightarrow>
                    (case count_lower_loop ord h key beg entry entry of
                       None \<Rightarrow> None
                     | Some lower \<Rightarrow>
                         (case count_upper_loop ord h key (txmultiset_state_end h self) entry of
                            None \<Rightarrow> None
                          | Some upper \<Rightarrow> txmultiset_entry_distance h lower upper))))"

partial_function (option) txmultiset_state_clear_and_uninit_entries ::
  "pointer \<Rightarrow> (pointer \<Rightarrow> 'u \<Rightarrow> 'u) \<Rightarrow> mset_heap \<Rightarrow> 'u \<Rightarrow> (mset_heap \<times> 'u) option"
where
  "txmultiset_state_clear_and_uninit_entries self uninit h data =
     (case txmultiset_state_begin h self of
        None \<Rightarrow> None
      | Some beg \<Rightarrow>
          if beg = txmultiset_state_end h self then Some (h, data)
          else (case txmultiset_state_erase self beg h of
                  None \<Rightarrow> None
                | Some h \<Rightarrow> txmultiset_state_clear_and_uninit_entries self uninit h (uninit beg data)))"

lemmas multiset_state_loops [code] = lower_bound_loop.simps upper_bound_loop.simps
  count_lower_loop.simps count_upper_loop.simps txmultiset_state_clear_and_uninit_entries.simps

end
