(* ===== verification/Txlib_Tx.thy ===== *)
theory Txlib_Tx
  imports Txlib_Queue Txlib_Stack Txlib_Multiset "HOL-Library.Monad_Syntax"
begin

text \<open>
  The transactions of the transactional data types (\<open>modules/txlib/src/txqueue_tx.c\<close>, \<open>txlist_tx.c\<close>,
  \<open>txstack_tx.c\<close>, \<open>txmultiset_tx.c\<close>, \<open>txlib_event.c\<close>, \<open>txlib_tx.c\<close>).  A container's transaction is named
  by its address, which for queues and stacks is also the address of the head of its local entries.
  An operation runs through an event: it is executed while its event is set up, and the event is
  then appended to the log of the transaction by the function \<open>push_event\<close>, on a state \<open>'p\<close> of its own.
\<close>

subsection \<open>State\<close>

record txqueue_tx =
  qt_queue_state :: pointer
  qt_state :: picotm_rwstate

record txlist_tx =
  lt_list_state :: pointer
  lt_state :: picotm_rwstate

record txstack_tx =
  st_stack_state :: pointer
  st_state :: picotm_rwstate

record txmultiset_tx =
  mt_multiset_state :: pointer
  mt_state :: picotm_rwstate

datatype txlib_event =
    TXLIB_LIST_INSERT pointer pointer
  | TXLIB_LIST_ERASE pointer pointer pointer
  | TXLIB_MULTISET_INSERT pointer pointer
  | TXLIB_MULTISET_ERASE pointer pointer
  | TXLIB_QUEUE_PUSH pointer pointer
  | TXLIB_QUEUE_POP pointer pointer bool
  | TXLIB_STACK_PUSH pointer pointer
  | TXLIB_STACK_POP pointer pointer bool

record txlib_tx =
  tl_module :: u64
  tl_allocated_entries :: "pointer list"
  tl_acquired_list_tx :: "pointer list"
  tl_acquired_multiset_tx :: "pointer list"
  tl_acquired_queue_tx :: "pointer list"
  tl_acquired_stack_tx :: "pointer list"
  tl_event :: "txlib_event list"

text \<open>
  The world of the module: the links of all entries, the locks in the states, the orders of the
  multisets, the transactions, and what the allocator answers.
\<close>

record 'k txlib_world =
  tw_queue :: ring_heap
  tw_list :: ring_heap
  tw_stack :: stack_heap
  tw_multiset :: mset_heap
  tw_order :: "pointer \<Rightarrow> 'k mset_order"
  tw_lock :: "pointer \<Rightarrow> u8"
  tw_queue_tx :: "pointer \<Rightarrow> txqueue_tx"
  tw_list_tx :: "pointer \<Rightarrow> txlist_tx"
  tw_stack_tx :: "pointer \<Rightarrow> txstack_tx"
  tw_multiset_tx :: "pointer \<Rightarrow> txmultiset_tx"
  tw_tx :: txlib_tx
  tw_malloc :: "nat \<Rightarrow> pointer + int"
  tw_resize :: "nat \<Rightarrow> int option"
  tw_n :: nat

text \<open>How a thread waits for a lock and sleeps between attempts.\<close>

record lock_waits =
  lw_wait :: lock_wait
  lw_sleep :: lock_wait

type_synonym 'p event_append = "u64 \<Rightarrow> u16 \<Rightarrow> u64 \<Rightarrow> 'p \<Rightarrow> picotm_error \<Rightarrow> 'p \<times> picotm_error"

text \<open>The operations of a transaction and their initialisers of events.\<close>

type_synonym ('k, 'p) tx_call =
  "'k txlib_world \<Rightarrow> 'p \<Rightarrow> picotm_error \<Rightarrow> ('k txlib_world \<times> 'p \<times> picotm_error) option"

type_synonym ('k, 'a) tx_read =
  "'k txlib_world \<Rightarrow> picotm_error \<Rightarrow> ('a \<times> 'k txlib_world \<times> picotm_error) option"

type_synonym 'k event_init =
  "'k txlib_world \<Rightarrow> picotm_error \<Rightarrow> (txlib_event \<times> 'k txlib_world \<times> picotm_error) option"

subsection \<open>Appending events\<close>

fun append_events_loop :: "'p event_append \<Rightarrow> nat \<Rightarrow> 'k event_init \<Rightarrow> ('k, 'p) tx_call" where
  "append_events_loop push_event 0 init w p error = Some (w, p, error)"
| "append_events_loop push_event (Suc n) init w p error =
     (case init w error of
        None \<Rightarrow> None
      | Some (event, w, error) \<Rightarrow>
          if picotm_error_is_set error then Some (w, p, error)
          else
            (let (p, error) = push_event (tl_module (tw_tx w)) 0 (of_nat (length (tl_event (tw_tx w)))) p error
             in if picotm_error_is_set error then Some (w, p, error)
                else append_events_loop push_event n init
                       (w\<lparr>tw_tx := (tw_tx w)\<lparr>tl_event := tl_event (tw_tx w) @ [event]\<rparr>\<rparr>) p error))"

definition txlib_tx_append_events3 ::
  "'p event_append \<Rightarrow> nat \<Rightarrow> ('d1 \<Rightarrow> 'd2 \<Rightarrow> 'd3 \<Rightarrow> 'k event_init) \<Rightarrow> 'd1 \<Rightarrow> 'd2 \<Rightarrow> 'd3 \<Rightarrow> ('k, 'p) tx_call"
where
  "txlib_tx_append_events3 push_event nevents init data1 data2 data3 w p error =
     (let w' = w\<lparr>tw_n := tw_n w + 1\<rparr> in
      case tw_resize w (tw_n w) of
        Some errno \<Rightarrow> Some (w', p, picotm_error_set_errno error errno)
      | None \<Rightarrow> append_events_loop push_event nevents (init data1 data2 data3) w' p error)"

definition init2 :: "'d1 \<Rightarrow> 'd2 \<Rightarrow> ('d1 \<Rightarrow> 'd2 \<Rightarrow> 'k event_init) \<Rightarrow> 'k event_init" where
  "init2 data1 data2 init = init data1 data2"

definition txlib_tx_append_events2 ::
  "'p event_append \<Rightarrow> nat \<Rightarrow> ('d1 \<Rightarrow> 'd2 \<Rightarrow> 'k event_init) \<Rightarrow> 'd1 \<Rightarrow> 'd2 \<Rightarrow> ('k, 'p) tx_call"
where
  "txlib_tx_append_events2 push_event nevents init data1 data2 =
     txlib_tx_append_events3 push_event nevents init2 data1 data2 init"

definition init1 :: "'d1 \<Rightarrow> ('d1 \<Rightarrow> 'k event_init) \<Rightarrow> 'k event_init" where
  "init1 data1 init = init data1"

definition txlib_tx_append_events1 ::
  "'p event_append \<Rightarrow> nat \<Rightarrow> ('d1 \<Rightarrow> 'k event_init) \<Rightarrow> 'd1 \<Rightarrow> ('k, 'p) tx_call"
where
  "txlib_tx_append_events1 push_event nevents init data1 =
     txlib_tx_append_events2 push_event nevents init1 data1 init"

subsection \<open>Queues\<close>

definition txqueue_tx_init :: "pointer \<Rightarrow> pointer \<Rightarrow> 'k txlib_world \<Rightarrow> 'k txlib_world" where
  "txqueue_tx_init self queue_state w =
     w\<lparr>tw_queue := txqueue_entry_init_head self (tw_queue w)\<rparr>\<lparr>tw_queue_tx := (tw_queue_tx w)(self := \<lparr>qt_queue_state = queue_state, qt_state = picotm_rwstate_init (qt_state (tw_queue_tx w self))\<rparr>)\<rparr>"

definition txqueue_tx_try_rdlock :: "lock_waits \<Rightarrow> pointer \<Rightarrow> 'k txlib_world \<Rightarrow> picotm_error \<Rightarrow> ('k txlib_world \<times> picotm_error) option" where
  "txqueue_tx_try_rdlock wt self w error =
     (let tx = tw_queue_tx w self in
      case picotm_rwstate_try_rdlock (lw_wait wt) (lw_sleep wt) (qt_queue_state tx) (qt_state tx) (tw_lock w (qt_queue_state tx)) error of
        None \<Rightarrow> None
      | Some (rw, lock, error) \<Rightarrow>
          Some (w\<lparr>tw_queue_tx := (tw_queue_tx w)(self := tx\<lparr>qt_state := rw\<rparr>), tw_lock := (tw_lock w)(qt_queue_state tx := lock)\<rparr>, error))"

definition txqueue_tx_try_wrlock :: "lock_waits \<Rightarrow> pointer \<Rightarrow> 'k txlib_world \<Rightarrow> picotm_error \<Rightarrow> ('k txlib_world \<times> picotm_error) option" where
  "txqueue_tx_try_wrlock wt self w error =
     (let tx = tw_queue_tx w self in
      case picotm_rwstate_try_wrlock (lw_wait wt) (lw_sleep wt) (qt_queue_state tx) (qt_state tx) (tw_lock w (qt_queue_state tx)) error of
        None \<Rightarrow> None
      | Some (rw, lock, error) \<Rightarrow>
          Some (w\<lparr>tw_queue_tx := (tw_queue_tx w)(self := tx\<lparr>qt_state := rw\<rparr>), tw_lock := (tw_lock w)(qt_queue_state tx := lock)\<rparr>, error))"

definition queue_state_of :: "'k txlib_world \<Rightarrow> pointer \<Rightarrow> pointer" where
  "queue_state_of w self = qt_queue_state (tw_queue_tx w self)"

definition queue_local_begin :: "'k txlib_world \<Rightarrow> pointer \<Rightarrow> pointer" where
  "queue_local_begin w self = txqueue_entry_next (tw_queue w) self"

definition queue_local_end :: "pointer \<Rightarrow> pointer" where
  "queue_local_end self = self"

definition queue_local_is_empty :: "'k txlib_world \<Rightarrow> pointer \<Rightarrow> bool" where
  "queue_local_is_empty w self \<longleftrightarrow> queue_local_begin w self = queue_local_end self"

definition queue_local_front :: "'k txlib_world \<Rightarrow> pointer \<Rightarrow> pointer" where
  "queue_local_front w self = queue_local_begin w self"

definition queue_local_back :: "'k txlib_world \<Rightarrow> pointer \<Rightarrow> pointer" where
  "queue_local_back w self = txqueue_entry_prev (tw_queue w) (queue_local_end self)"

definition txqueue_tx_exec_empty :: "lock_waits \<Rightarrow> pointer \<Rightarrow> ('k, bool) tx_read" where
  "txqueue_tx_exec_empty wt self w error =
     (if \<not> queue_local_is_empty w self then Some (False, w, error)
      else case txqueue_tx_try_rdlock wt self w error of
        None \<Rightarrow> None
      | Some (w, error) \<Rightarrow>
          if picotm_error_is_set error then Some (False, w, error)
          else Some (txqueue_state_is_empty (tw_queue w) (queue_state_of w self), w, error))"

definition txqueue_tx_exec_size :: "lock_waits \<Rightarrow> pointer \<Rightarrow> ('k, u64) tx_read" where
  "txqueue_tx_exec_size wt self w error =
     do {
       local_size \<leftarrow> txqueue_entry_distance (tw_queue w) (queue_local_begin w self) (queue_local_end self);
       (w, error) \<leftarrow> txqueue_tx_try_rdlock wt self w error;
       if picotm_error_is_set error then Some (0, w, error)
       else do {
         size \<leftarrow> txqueue_state_size (tw_queue w) (queue_state_of w self);
         Some (local_size + size, w, error)
       }
     }"

definition txqueue_tx_exec_front :: "lock_waits \<Rightarrow> pointer \<Rightarrow> ('k, pointer) tx_read" where
  "txqueue_tx_exec_front wt self w error =
     (case txqueue_tx_try_rdlock wt self w error of
        None \<Rightarrow> None
      | Some (w, error) \<Rightarrow>
          if picotm_error_is_set error then Some (0, w, error)
          else if txqueue_state_is_empty (tw_queue w) (queue_state_of w self)
          then Some (queue_local_front w self, w, error)
          else Some (txqueue_state_front (tw_queue w) (queue_state_of w self), w, error))"

definition txqueue_tx_exec_back :: "lock_waits \<Rightarrow> pointer \<Rightarrow> ('k, pointer) tx_read" where
  "txqueue_tx_exec_back wt self w error =
     (if \<not> queue_local_is_empty w self then Some (queue_local_back w self, w, error)
      else case txqueue_tx_try_rdlock wt self w error of
        None \<Rightarrow> None
      | Some (w, error) \<Rightarrow>
          if picotm_error_is_set error then Some (0, w, error)
          else Some (txqueue_state_back (tw_queue w) (queue_state_of w self), w, error))"

definition exec_queue_pop :: "pointer \<Rightarrow> bool \<Rightarrow> 'k event_init" where
  "exec_queue_pop queue_tx use_local_queue w error =
     (if use_local_queue
      then
        (let entry = queue_local_front w queue_tx
         in Some (TXLIB_QUEUE_POP queue_tx entry use_local_queue,
                  w\<lparr>tw_queue := txqueue_entry_erase entry (tw_queue w)\<rparr>, error))
      else
        (let entry = txqueue_state_front (tw_queue w) (queue_state_of w queue_tx)
         in Some (TXLIB_QUEUE_POP queue_tx entry use_local_queue,
                  w\<lparr>tw_queue := txqueue_state_pop_front (queue_state_of w queue_tx) (tw_queue w)\<rparr>, error)))"

definition txqueue_tx_exec_pop :: "'p event_append \<Rightarrow> lock_waits \<Rightarrow> pointer \<Rightarrow> ('k, 'p) tx_call" where
  "txqueue_tx_exec_pop push_event wt self w p error =
     (case txqueue_tx_try_rdlock wt self w error of
        None \<Rightarrow> None
      | Some (w, error) \<Rightarrow>
          if picotm_error_is_set error then Some (w, p, error)
          else
            (let use_local_queue = txqueue_state_is_empty (tw_queue w) (queue_state_of w self) in
             case if use_local_queue then Some (w, error) else txqueue_tx_try_wrlock wt self w error of
               None \<Rightarrow> None
             | Some (w, error) \<Rightarrow>
                 if picotm_error_is_set error then Some (w, p, error)
                 else txlib_tx_append_events2 push_event 1 exec_queue_pop self use_local_queue w p error))"

definition txqueue_tx_undo_pop ::
  "pointer \<Rightarrow> pointer \<Rightarrow> bool \<Rightarrow> 'k txlib_world \<Rightarrow> picotm_error \<Rightarrow> 'k txlib_world \<times> picotm_error"
where
  "txqueue_tx_undo_pop self entry use_local_queue w error =
     (if use_local_queue
      then (w\<lparr>tw_queue := txqueue_entry_insert entry (queue_local_begin w self) (tw_queue w)\<rparr>, error)
      else (w\<lparr>tw_queue := txqueue_state_push_front (queue_state_of w self) entry (tw_queue w)\<rparr>, error))"

definition exec_queue_push :: "pointer \<Rightarrow> pointer \<Rightarrow> 'k event_init" where
  "exec_queue_push queue_tx entry w error =
     Some (TXLIB_QUEUE_PUSH queue_tx entry,
           w\<lparr>tw_queue := txqueue_entry_insert entry (queue_local_end queue_tx) (tw_queue w)\<rparr>, error)"

definition txqueue_tx_exec_push :: "'p event_append \<Rightarrow> pointer \<Rightarrow> pointer \<Rightarrow> ('k, 'p) tx_call" where
  "txqueue_tx_exec_push push_event self entry w p error =
     txlib_tx_append_events2 push_event 1 exec_queue_push self entry w p error"

definition txqueue_tx_apply_push ::
  "pointer \<Rightarrow> pointer \<Rightarrow> 'k txlib_world \<Rightarrow> picotm_error \<Rightarrow> 'k txlib_world \<times> picotm_error"
where
  "txqueue_tx_apply_push self entry w error =
     (if entry \<noteq> queue_local_front w self then (w, error)
      else (w\<lparr>tw_queue := txqueue_state_push_back (queue_state_of w self) entry
                (txqueue_entry_erase entry (tw_queue w))\<rparr>, error))"

definition txqueue_tx_undo_push ::
  "pointer \<Rightarrow> pointer \<Rightarrow> 'k txlib_world \<Rightarrow> picotm_error \<Rightarrow> 'k txlib_world \<times> picotm_error"
where
  "txqueue_tx_undo_push self entry w error =
     (w\<lparr>tw_queue := txqueue_entry_erase entry (tw_queue w)\<rparr>, error)"

definition txqueue_tx_lock ::
  "lock_waits \<Rightarrow> pointer \<Rightarrow> 'k txlib_world \<Rightarrow> picotm_error \<Rightarrow> ('k txlib_world \<times> picotm_error) option"
where
  "txqueue_tx_lock wt self w error =
     (if queue_local_is_empty w self then Some (w, error) else txqueue_tx_try_wrlock wt self w error)"

definition txqueue_tx_finish :: "pointer \<Rightarrow> 'k txlib_world \<Rightarrow> 'k txlib_world" where
  "txqueue_tx_finish self w =
     (let tx = tw_queue_tx w self;
          (wakes, rw, lock) = picotm_rwstate_unlock (qt_state tx) (tw_lock w (qt_queue_state tx))
      in w\<lparr>tw_queue_tx := (tw_queue_tx w)(self := tx\<lparr>qt_state := rw\<rparr>), tw_lock := (tw_lock w)(qt_queue_state tx := lock)\<rparr>)"

subsection \<open>Lists\<close>

definition txlist_tx_init :: "pointer \<Rightarrow> pointer \<Rightarrow> 'k txlib_world \<Rightarrow> 'k txlib_world" where
  "txlist_tx_init self list_state w =
     w\<lparr>tw_list_tx := (tw_list_tx w)(self := \<lparr>lt_list_state = list_state, lt_state = picotm_rwstate_init (lt_state (tw_list_tx w self))\<rparr>)\<rparr>"

definition txlist_tx_try_rdlock :: "lock_waits \<Rightarrow> pointer \<Rightarrow> 'k txlib_world \<Rightarrow> picotm_error \<Rightarrow> ('k txlib_world \<times> picotm_error) option" where
  "txlist_tx_try_rdlock wt self w error =
     (let tx = tw_list_tx w self in
      case picotm_rwstate_try_rdlock (lw_wait wt) (lw_sleep wt) (lt_list_state tx) (lt_state tx) (tw_lock w (lt_list_state tx)) error of
        None \<Rightarrow> None
      | Some (rw, lock, error) \<Rightarrow>
          Some (w\<lparr>tw_list_tx := (tw_list_tx w)(self := tx\<lparr>lt_state := rw\<rparr>), tw_lock := (tw_lock w)(lt_list_state tx := lock)\<rparr>, error))"

definition txlist_tx_try_wrlock :: "lock_waits \<Rightarrow> pointer \<Rightarrow> 'k txlib_world \<Rightarrow> picotm_error \<Rightarrow> ('k txlib_world \<times> picotm_error) option" where
  "txlist_tx_try_wrlock wt self w error =
     (let tx = tw_list_tx w self in
      case picotm_rwstate_try_wrlock (lw_wait wt) (lw_sleep wt) (lt_list_state tx) (lt_state tx) (tw_lock w (lt_list_state tx)) error of
        None \<Rightarrow> None
      | Some (rw, lock, error) \<Rightarrow>
          Some (w\<lparr>tw_list_tx := (tw_list_tx w)(self := tx\<lparr>lt_state := rw\<rparr>), tw_lock := (tw_lock w)(lt_list_state tx := lock)\<rparr>, error))"

definition list_state_of :: "'k txlib_world \<Rightarrow> pointer \<Rightarrow> pointer" where
  "list_state_of w self = lt_list_state (tw_list_tx w self)"

definition txlist_tx_exec_end :: "pointer \<Rightarrow> 'k txlib_world \<Rightarrow> pointer" where
  "txlist_tx_exec_end self w = txlist_state_end (list_state_of w self)"

definition txlist_tx_exec_begin :: "lock_waits \<Rightarrow> pointer \<Rightarrow> ('k, pointer) tx_read" where
  "txlist_tx_exec_begin wt self w error =
     (case txlist_tx_try_rdlock wt self w error of
        None \<Rightarrow> None
      | Some (w, error) \<Rightarrow>
          if picotm_error_is_set error then Some (0, w, error)
          else Some (txlist_state_begin (tw_list w) (list_state_of w self), w, error))"

definition txlist_tx_exec_empty :: "lock_waits \<Rightarrow> pointer \<Rightarrow> ('k, bool) tx_read" where
  "txlist_tx_exec_empty wt self w error =
     (case txlist_tx_try_rdlock wt self w error of
        None \<Rightarrow> None
      | Some (w, error) \<Rightarrow>
          if picotm_error_is_set error then Some (False, w, error)
          else Some (txlist_state_is_empty (tw_list w) (list_state_of w self), w, error))"

definition txlist_tx_exec_size :: "lock_waits \<Rightarrow> pointer \<Rightarrow> ('k, u64) tx_read" where
  "txlist_tx_exec_size wt self w error =
     (case txlist_tx_try_rdlock wt self w error of
        None \<Rightarrow> None
      | Some (w, error) \<Rightarrow>
          if picotm_error_is_set error then Some (0, w, error)
          else map_option (\<lambda>size. (size, w, error)) (txlist_state_size (tw_list w) (list_state_of w self)))"

definition txlist_tx_exec_front :: "lock_waits \<Rightarrow> pointer \<Rightarrow> ('k, pointer) tx_read" where
  "txlist_tx_exec_front wt self w error =
     (case txlist_tx_try_rdlock wt self w error of
        None \<Rightarrow> None
      | Some (w, error) \<Rightarrow>
          if picotm_error_is_set error then Some (0, w, error)
          else Some (txlist_state_front (tw_list w) (list_state_of w self), w, error))"

definition txlist_tx_exec_back :: "lock_waits \<Rightarrow> pointer \<Rightarrow> ('k, pointer) tx_read" where
  "txlist_tx_exec_back wt self w error =
     (case txlist_tx_try_rdlock wt self w error of
        None \<Rightarrow> None
      | Some (w, error) \<Rightarrow>
          if picotm_error_is_set error then Some (0, w, error)
          else Some (txlist_state_back (tw_list w) (list_state_of w self), w, error))"

definition exec_list_insert :: "pointer \<Rightarrow> pointer \<Rightarrow> pointer \<Rightarrow> 'k event_init" where
  "exec_list_insert list_tx entry position w error =
     Some (TXLIB_LIST_INSERT list_tx entry,
           w\<lparr>tw_list := txlist_state_insert (list_state_of w list_tx) entry position (tw_list w)\<rparr>, error)"

definition exec_list_erase :: "pointer \<Rightarrow> pointer \<Rightarrow> 'k event_init" where
  "exec_list_erase list_tx entry w error =
     Some (TXLIB_LIST_ERASE list_tx entry (txlist_entry_next (tw_list w) entry),
           w\<lparr>tw_list := txlist_state_erase (list_state_of w list_tx) entry (tw_list w)\<rparr>, error)"

definition exec_list_pop_front :: "pointer \<Rightarrow> 'k event_init" where
  "exec_list_pop_front list_tx w error =
     exec_list_erase list_tx (txlist_state_front (tw_list w) (list_state_of w list_tx)) w error"

definition exec_list_pop_back :: "pointer \<Rightarrow> 'k event_init" where
  "exec_list_pop_back list_tx w error =
     exec_list_erase list_tx (txlist_state_back (tw_list w) (list_state_of w list_tx)) w error"

definition exec_list_push_front :: "pointer \<Rightarrow> pointer \<Rightarrow> 'k event_init" where
  "exec_list_push_front list_tx entry w error =
     exec_list_insert list_tx entry (txlist_state_begin (tw_list w) (list_state_of w list_tx)) w error"

definition exec_list_push_back :: "pointer \<Rightarrow> pointer \<Rightarrow> 'k event_init" where
  "exec_list_push_back list_tx entry w error =
     exec_list_insert list_tx entry (txlist_state_end (list_state_of w list_tx)) w error"

definition exec_list_clear :: "pointer \<Rightarrow> 'k event_init" where
  "exec_list_clear list_tx w error =
     exec_list_erase list_tx (txlist_state_front (tw_list w) (list_state_of w list_tx)) w error"

definition txlist_tx_exec_insert :: "'p event_append \<Rightarrow> lock_waits \<Rightarrow> pointer \<Rightarrow> pointer \<Rightarrow> pointer \<Rightarrow> ('k, 'p) tx_call" where
  "txlist_tx_exec_insert push_event wt self entry position w p error =
     (case txlist_tx_try_wrlock wt self w error of
        None \<Rightarrow> None
      | Some (w, error) \<Rightarrow>
          if picotm_error_is_set error then Some (w, p, error)
          else txlib_tx_append_events3 push_event 1 exec_list_insert self entry position w p error)"

definition txlist_tx_exec_erase :: "'p event_append \<Rightarrow> lock_waits \<Rightarrow> pointer \<Rightarrow> pointer \<Rightarrow> ('k, 'p) tx_call" where
  "txlist_tx_exec_erase push_event wt self entry w p error =
     (case txlist_tx_try_wrlock wt self w error of
        None \<Rightarrow> None
      | Some (w, error) \<Rightarrow>
          if picotm_error_is_set error then Some (w, p, error)
          else txlib_tx_append_events2 push_event 1 exec_list_erase self entry w p error)"

definition txlist_tx_exec_pop_front :: "'p event_append \<Rightarrow> lock_waits \<Rightarrow> pointer \<Rightarrow> ('k, 'p) tx_call" where
  "txlist_tx_exec_pop_front push_event wt self w p error =
     (case txlist_tx_try_wrlock wt self w error of
        None \<Rightarrow> None
      | Some (w, error) \<Rightarrow>
          if picotm_error_is_set error then Some (w, p, error)
          else txlib_tx_append_events1 push_event 1 exec_list_pop_front self w p error)"

definition txlist_tx_exec_pop_back :: "'p event_append \<Rightarrow> lock_waits \<Rightarrow> pointer \<Rightarrow> ('k, 'p) tx_call" where
  "txlist_tx_exec_pop_back push_event wt self w p error =
     (case txlist_tx_try_wrlock wt self w error of
        None \<Rightarrow> None
      | Some (w, error) \<Rightarrow>
          if picotm_error_is_set error then Some (w, p, error)
          else txlib_tx_append_events1 push_event 1 exec_list_pop_back self w p error)"

definition txlist_tx_exec_push_front :: "'p event_append \<Rightarrow> lock_waits \<Rightarrow> pointer \<Rightarrow> pointer \<Rightarrow> ('k, 'p) tx_call" where
  "txlist_tx_exec_push_front push_event wt self entry w p error =
     (case txlist_tx_try_wrlock wt self w error of
        None \<Rightarrow> None
      | Some (w, error) \<Rightarrow>
          if picotm_error_is_set error then Some (w, p, error)
          else txlib_tx_append_events2 push_event 1 exec_list_push_front self entry w p error)"

definition txlist_tx_exec_push_back :: "'p event_append \<Rightarrow> lock_waits \<Rightarrow> pointer \<Rightarrow> pointer \<Rightarrow> ('k, 'p) tx_call" where
  "txlist_tx_exec_push_back push_event wt self entry w p error =
     (case txlist_tx_try_wrlock wt self w error of
        None \<Rightarrow> None
      | Some (w, error) \<Rightarrow>
          if picotm_error_is_set error then Some (w, p, error)
          else txlib_tx_append_events2 push_event 1 exec_list_push_back self entry w p error)"

definition txlist_tx_exec_clear :: "'p event_append \<Rightarrow> lock_waits \<Rightarrow> pointer \<Rightarrow> ('k, 'p) tx_call" where
  "txlist_tx_exec_clear push_event wt self w p error =
     (case txlist_tx_try_wrlock wt self w error of
        None \<Rightarrow> None
      | Some (w, error) \<Rightarrow>
          if picotm_error_is_set error then Some (w, p, error)
          else (case txlist_state_size (tw_list w) (list_state_of w self) of
                  None \<Rightarrow> None
                | Some siz \<Rightarrow> txlib_tx_append_events1 push_event (unat siz) exec_list_clear self w p error))"

definition txlist_tx_undo_insert ::
  "pointer \<Rightarrow> pointer \<Rightarrow> 'k txlib_world \<Rightarrow> picotm_error \<Rightarrow> 'k txlib_world \<times> picotm_error"
where
  "txlist_tx_undo_insert self entry w error =
     (w\<lparr>tw_list := txlist_state_erase (list_state_of w self) entry (tw_list w)\<rparr>, error)"

definition txlist_tx_undo_erase ::
  "pointer \<Rightarrow> pointer \<Rightarrow> pointer \<Rightarrow> 'k txlib_world \<Rightarrow> picotm_error \<Rightarrow> 'k txlib_world \<times> picotm_error"
where
  "txlist_tx_undo_erase self entry position w error =
     (w\<lparr>tw_list := txlist_state_insert (list_state_of w self) entry position (tw_list w)\<rparr>, error)"

definition txlist_tx_finish :: "pointer \<Rightarrow> 'k txlib_world \<Rightarrow> 'k txlib_world" where
  "txlist_tx_finish self w =
     (let tx = tw_list_tx w self;
          (wakes, rw, lock) = picotm_rwstate_unlock (lt_state tx) (tw_lock w (lt_list_state tx))
      in w\<lparr>tw_list_tx := (tw_list_tx w)(self := tx\<lparr>lt_state := rw\<rparr>), tw_lock := (tw_lock w)(lt_list_state tx := lock)\<rparr>)"

subsection \<open>Stacks\<close>

definition txstack_tx_init :: "pointer \<Rightarrow> pointer \<Rightarrow> 'k txlib_world \<Rightarrow> 'k txlib_world" where
  "txstack_tx_init self stack_state w =
     w\<lparr>tw_stack := txstack_entry_init_head self (tw_stack w)\<rparr>\<lparr>tw_stack_tx := (tw_stack_tx w)(self := \<lparr>st_stack_state = stack_state, st_state = picotm_rwstate_init (st_state (tw_stack_tx w self))\<rparr>)\<rparr>"

definition txstack_tx_try_rdlock :: "lock_waits \<Rightarrow> pointer \<Rightarrow> 'k txlib_world \<Rightarrow> picotm_error \<Rightarrow> ('k txlib_world \<times> picotm_error) option" where
  "txstack_tx_try_rdlock wt self w error =
     (let tx = tw_stack_tx w self in
      case picotm_rwstate_try_rdlock (lw_wait wt) (lw_sleep wt) (st_stack_state tx) (st_state tx) (tw_lock w (st_stack_state tx)) error of
        None \<Rightarrow> None
      | Some (rw, lock, error) \<Rightarrow>
          Some (w\<lparr>tw_stack_tx := (tw_stack_tx w)(self := tx\<lparr>st_state := rw\<rparr>), tw_lock := (tw_lock w)(st_stack_state tx := lock)\<rparr>, error))"

definition txstack_tx_try_wrlock :: "lock_waits \<Rightarrow> pointer \<Rightarrow> 'k txlib_world \<Rightarrow> picotm_error \<Rightarrow> ('k txlib_world \<times> picotm_error) option" where
  "txstack_tx_try_wrlock wt self w error =
     (let tx = tw_stack_tx w self in
      case picotm_rwstate_try_wrlock (lw_wait wt) (lw_sleep wt) (st_stack_state tx) (st_state tx) (tw_lock w (st_stack_state tx)) error of
        None \<Rightarrow> None
      | Some (rw, lock, error) \<Rightarrow>
          Some (w\<lparr>tw_stack_tx := (tw_stack_tx w)(self := tx\<lparr>st_state := rw\<rparr>), tw_lock := (tw_lock w)(st_stack_state tx := lock)\<rparr>, error))"

definition stack_state_of :: "'k txlib_world \<Rightarrow> pointer \<Rightarrow> pointer" where
  "stack_state_of w self = st_stack_state (tw_stack_tx w self)"

definition stack_local_begin :: "'k txlib_world \<Rightarrow> pointer \<Rightarrow> pointer" where
  "stack_local_begin w self = txstack_entry_prev (tw_stack w) self"

definition stack_local_end :: "pointer \<Rightarrow> pointer" where
  "stack_local_end self = self"

text \<open>The loop that looks for the entry above another one.\<close>

partial_function (option) local_next_of_loop :: "stack_heap \<Rightarrow> pointer \<Rightarrow> pointer \<Rightarrow> pointer \<Rightarrow> pointer option" where
  "local_next_of_loop h entry pos next =
     (if pos = entry then Some next else local_next_of_loop h entry (txstack_entry_prev h pos) pos)"

declare local_next_of_loop.simps [code]

definition local_next_of :: "'k txlib_world \<Rightarrow> pointer \<Rightarrow> pointer \<Rightarrow> pointer option" where
  "local_next_of w self entry =
     local_next_of_loop (tw_stack w) entry (stack_local_begin w self) (stack_local_end self)"

definition stack_local_is_empty :: "'k txlib_world \<Rightarrow> pointer \<Rightarrow> bool" where
  "stack_local_is_empty w self \<longleftrightarrow> stack_local_begin w self = stack_local_end self"

definition stack_local_top :: "'k txlib_world \<Rightarrow> pointer \<Rightarrow> pointer" where
  "stack_local_top w self = txstack_entry_prev (tw_stack w) (stack_local_end self)"

definition txstack_tx_exec_empty :: "lock_waits \<Rightarrow> pointer \<Rightarrow> ('k, bool) tx_read" where
  "txstack_tx_exec_empty wt self w error =
     (if \<not> stack_local_is_empty w self then Some (False, w, error)
      else case txstack_tx_try_rdlock wt self w error of
        None \<Rightarrow> None
      | Some (w, error) \<Rightarrow>
          if picotm_error_is_set error then Some (False, w, error)
          else Some (txstack_state_is_empty (tw_stack w) (stack_state_of w self), w, error))"

definition txstack_tx_exec_size :: "lock_waits \<Rightarrow> pointer \<Rightarrow> ('k, u64) tx_read" where
  "txstack_tx_exec_size wt self w error =
     do {
       local_size \<leftarrow> txstack_entry_distance (tw_stack w) (stack_local_begin w self) (stack_local_end self);
       (w, error) \<leftarrow> txstack_tx_try_rdlock wt self w error;
       if picotm_error_is_set error then Some (0, w, error)
       else do {
         size \<leftarrow> txstack_state_size (tw_stack w) (stack_state_of w self);
         Some (local_size + size, w, error)
       }
     }"

definition txstack_tx_exec_top :: "lock_waits \<Rightarrow> pointer \<Rightarrow> ('k, pointer) tx_read" where
  "txstack_tx_exec_top wt self w error =
     (if \<not> stack_local_is_empty w self then Some (stack_local_top w self, w, error)
      else case txstack_tx_try_rdlock wt self w error of
        None \<Rightarrow> None
      | Some (w, error) \<Rightarrow>
          if picotm_error_is_set error then Some (0, w, error)
          else Some (txstack_state_top (tw_stack w) (stack_state_of w self), w, error))"

definition exec_stack_pop :: "pointer \<Rightarrow> bool \<Rightarrow> 'k event_init" where
  "exec_stack_pop stack_tx use_local_stack w error =
     (if use_local_stack
      then
        (let entry = stack_local_top w stack_tx
         in Some (TXLIB_STACK_POP stack_tx entry use_local_stack,
                  w\<lparr>tw_stack := txstack_entry_erase entry (stack_local_end stack_tx) (tw_stack w)\<rparr>, error))
      else
        (let entry = txstack_state_top (tw_stack w) (stack_state_of w stack_tx)
         in Some (TXLIB_STACK_POP stack_tx entry use_local_stack,
                  w\<lparr>tw_stack := txstack_state_pop (stack_state_of w stack_tx) (tw_stack w)\<rparr>, error)))"

definition txstack_tx_exec_pop :: "'p event_append \<Rightarrow> lock_waits \<Rightarrow> pointer \<Rightarrow> ('k, 'p) tx_call" where
  "txstack_tx_exec_pop push_event wt self w p error =
     (let use_local_stack = \<not> stack_local_is_empty w self in
      case if use_local_stack then Some (w, error) else txstack_tx_try_wrlock wt self w error of
        None \<Rightarrow> None
      | Some (w, error) \<Rightarrow>
          if picotm_error_is_set error then Some (w, p, error)
          else txlib_tx_append_events2 push_event 1 exec_stack_pop self use_local_stack w p error)"

definition txstack_tx_undo_pop ::
  "pointer \<Rightarrow> pointer \<Rightarrow> bool \<Rightarrow> 'k txlib_world \<Rightarrow> picotm_error \<Rightarrow> 'k txlib_world \<times> picotm_error"
where
  "txstack_tx_undo_pop self entry use_local_stack w error =
     (if use_local_stack
      then (w\<lparr>tw_stack := txstack_entry_insert entry (stack_local_end self) (tw_stack w)\<rparr>, error)
      else (w\<lparr>tw_stack := txstack_state_push (stack_state_of w self) entry (tw_stack w)\<rparr>, error))"

definition exec_stack_push :: "pointer \<Rightarrow> pointer \<Rightarrow> 'k event_init" where
  "exec_stack_push stack_tx entry w error =
     Some (TXLIB_STACK_PUSH stack_tx entry,
           w\<lparr>tw_stack := txstack_entry_insert entry (stack_local_end stack_tx) (tw_stack w)\<rparr>, error)"

definition txstack_tx_exec_push :: "'p event_append \<Rightarrow> pointer \<Rightarrow> pointer \<Rightarrow> ('k, 'p) tx_call" where
  "txstack_tx_exec_push push_event self entry w p error =
     txlib_tx_append_events2 push_event 1 exec_stack_push self entry w p error"

definition txstack_tx_apply_push ::
  "pointer \<Rightarrow> pointer \<Rightarrow> 'k txlib_world \<Rightarrow> picotm_error \<Rightarrow> ('k txlib_world \<times> picotm_error) option"
where
  "txstack_tx_apply_push self entry w error =
     (if txstack_entry_prev (tw_stack w) entry \<noteq> stack_local_end self then Some (w, error)
      else
        (case local_next_of w self entry of
           None \<Rightarrow> None
         | Some next \<Rightarrow>
             Some (w\<lparr>tw_stack := txstack_state_push (stack_state_of w self) entry
                       (txstack_entry_erase entry next (tw_stack w))\<rparr>, error)))"

definition txstack_tx_undo_push ::
  "pointer \<Rightarrow> pointer \<Rightarrow> 'k txlib_world \<Rightarrow> picotm_error \<Rightarrow> 'k txlib_world \<times> picotm_error"
where
  "txstack_tx_undo_push self entry w error =
     (w\<lparr>tw_stack := txstack_entry_erase entry (stack_local_end self) (tw_stack w)\<rparr>, error)"

definition txstack_tx_lock ::
  "lock_waits \<Rightarrow> pointer \<Rightarrow> 'k txlib_world \<Rightarrow> picotm_error \<Rightarrow> ('k txlib_world \<times> picotm_error) option"
where
  "txstack_tx_lock wt self w error =
     (if stack_local_is_empty w self then Some (w, error) else txstack_tx_try_wrlock wt self w error)"

definition txstack_tx_finish :: "pointer \<Rightarrow> 'k txlib_world \<Rightarrow> 'k txlib_world" where
  "txstack_tx_finish self w =
     (let tx = tw_stack_tx w self;
          (wakes, rw, lock) = picotm_rwstate_unlock (st_state tx) (tw_lock w (st_stack_state tx))
      in w\<lparr>tw_stack_tx := (tw_stack_tx w)(self := tx\<lparr>st_state := rw\<rparr>), tw_lock := (tw_lock w)(st_stack_state tx := lock)\<rparr>)"

subsection \<open>Multisets\<close>

definition txmultiset_tx_init :: "pointer \<Rightarrow> pointer \<Rightarrow> 'k txlib_world \<Rightarrow> 'k txlib_world" where
  "txmultiset_tx_init self multiset_state w =
     w\<lparr>tw_multiset_tx := (tw_multiset_tx w)(self := \<lparr>mt_multiset_state = multiset_state, mt_state = picotm_rwstate_init (mt_state (tw_multiset_tx w self))\<rparr>)\<rparr>"

definition txmultiset_tx_try_rdlock :: "lock_waits \<Rightarrow> pointer \<Rightarrow> 'k txlib_world \<Rightarrow> picotm_error \<Rightarrow> ('k txlib_world \<times> picotm_error) option" where
  "txmultiset_tx_try_rdlock wt self w error =
     (let tx = tw_multiset_tx w self in
      case picotm_rwstate_try_rdlock (lw_wait wt) (lw_sleep wt) (mt_multiset_state tx) (mt_state tx) (tw_lock w (mt_multiset_state tx)) error of
        None \<Rightarrow> None
      | Some (rw, lock, error) \<Rightarrow>
          Some (w\<lparr>tw_multiset_tx := (tw_multiset_tx w)(self := tx\<lparr>mt_state := rw\<rparr>), tw_lock := (tw_lock w)(mt_multiset_state tx := lock)\<rparr>, error))"

definition txmultiset_tx_try_wrlock :: "lock_waits \<Rightarrow> pointer \<Rightarrow> 'k txlib_world \<Rightarrow> picotm_error \<Rightarrow> ('k txlib_world \<times> picotm_error) option" where
  "txmultiset_tx_try_wrlock wt self w error =
     (let tx = tw_multiset_tx w self in
      case picotm_rwstate_try_wrlock (lw_wait wt) (lw_sleep wt) (mt_multiset_state tx) (mt_state tx) (tw_lock w (mt_multiset_state tx)) error of
        None \<Rightarrow> None
      | Some (rw, lock, error) \<Rightarrow>
          Some (w\<lparr>tw_multiset_tx := (tw_multiset_tx w)(self := tx\<lparr>mt_state := rw\<rparr>), tw_lock := (tw_lock w)(mt_multiset_state tx := lock)\<rparr>, error))"

definition multiset_state_of :: "'k txlib_world \<Rightarrow> pointer \<Rightarrow> pointer" where
  "multiset_state_of w self = mt_multiset_state (tw_multiset_tx w self)"

definition multiset_order_of :: "'k txlib_world \<Rightarrow> pointer \<Rightarrow> 'k mset_order" where
  "multiset_order_of w self = tw_order w (multiset_state_of w self)"

definition txmultiset_tx_exec_end :: "pointer \<Rightarrow> 'k txlib_world \<Rightarrow> pointer" where
  "txmultiset_tx_exec_end self w = txmultiset_state_end (tw_multiset w) (multiset_state_of w self)"

definition txmultiset_tx_exec_begin :: "lock_waits \<Rightarrow> pointer \<Rightarrow> ('k, pointer) tx_read" where
  "txmultiset_tx_exec_begin wt self w error =
     (case txmultiset_tx_try_rdlock wt self w error of
        None \<Rightarrow> None
      | Some (w, error) \<Rightarrow>
          if picotm_error_is_set error then Some (0, w, error)
          else map_option (\<lambda>r. (r, w, error)) (txmultiset_state_begin (tw_multiset w) (multiset_state_of w self)))"

definition txmultiset_tx_exec_empty :: "lock_waits \<Rightarrow> pointer \<Rightarrow> ('k, bool) tx_read" where
  "txmultiset_tx_exec_empty wt self w error =
     (case txmultiset_tx_try_rdlock wt self w error of
        None \<Rightarrow> None
      | Some (w, error) \<Rightarrow>
          if picotm_error_is_set error then Some (False, w, error)
          else map_option (\<lambda>r. (r, w, error)) (txmultiset_state_is_empty (tw_multiset w) (multiset_state_of w self)))"

definition txmultiset_tx_exec_size :: "lock_waits \<Rightarrow> pointer \<Rightarrow> ('k, u64) tx_read" where
  "txmultiset_tx_exec_size wt self w error =
     (case txmultiset_tx_try_rdlock wt self w error of
        None \<Rightarrow> None
      | Some (w, error) \<Rightarrow>
          if picotm_error_is_set error then Some (0, w, error)
          else map_option (\<lambda>r. (r, w, error)) (txmultiset_state_size (tw_multiset w) (multiset_state_of w self)))"

definition txmultiset_tx_exec_find :: "lock_waits \<Rightarrow> pointer \<Rightarrow> 'k \<Rightarrow> ('k, pointer) tx_read" where
  "txmultiset_tx_exec_find wt self key w error =
     (case txmultiset_tx_try_rdlock wt self w error of
        None \<Rightarrow> None
      | Some (w, error) \<Rightarrow>
          if picotm_error_is_set error then Some (0, w, error)
          else map_option (\<lambda>r. (r, w, error)) (txmultiset_state_find (multiset_order_of w self) (tw_multiset w) (multiset_state_of w self) key))"

definition txmultiset_tx_exec_lower_bound :: "lock_waits \<Rightarrow> pointer \<Rightarrow> 'k \<Rightarrow> ('k, pointer) tx_read" where
  "txmultiset_tx_exec_lower_bound wt self key w error =
     (case txmultiset_tx_try_rdlock wt self w error of
        None \<Rightarrow> None
      | Some (w, error) \<Rightarrow>
          if picotm_error_is_set error then Some (0, w, error)
          else map_option (\<lambda>r. (r, w, error)) (txmultiset_state_lower_bound (multiset_order_of w self) (tw_multiset w) (multiset_state_of w self) key))"

definition txmultiset_tx_exec_upper_bound :: "lock_waits \<Rightarrow> pointer \<Rightarrow> 'k \<Rightarrow> ('k, pointer) tx_read" where
  "txmultiset_tx_exec_upper_bound wt self key w error =
     (case txmultiset_tx_try_rdlock wt self w error of
        None \<Rightarrow> None
      | Some (w, error) \<Rightarrow>
          if picotm_error_is_set error then Some (0, w, error)
          else map_option (\<lambda>r. (r, w, error)) (txmultiset_state_upper_bound (multiset_order_of w self) (tw_multiset w) (multiset_state_of w self) key))"

definition txmultiset_tx_exec_count :: "lock_waits \<Rightarrow> pointer \<Rightarrow> 'k \<Rightarrow> ('k, u64) tx_read" where
  "txmultiset_tx_exec_count wt self key w error =
     (case txmultiset_tx_try_rdlock wt self w error of
        None \<Rightarrow> None
      | Some (w, error) \<Rightarrow>
          if picotm_error_is_set error then Some (0, w, error)
          else map_option (\<lambda>r. (r, w, error)) (txmultiset_state_count (multiset_order_of w self) (tw_multiset w) (multiset_state_of w self) key))"

definition exec_multiset_insert :: "pointer \<Rightarrow> pointer \<Rightarrow> 'k event_init" where
  "exec_multiset_insert multiset_tx entry w error =
     map_option (\<lambda>h. (TXLIB_MULTISET_INSERT multiset_tx entry, w\<lparr>tw_multiset := h\<rparr>, error))
       (txmultiset_state_insert (multiset_order_of w multiset_tx) (multiset_state_of w multiset_tx) entry
          (tw_multiset w))"

definition exec_multiset_erase :: "pointer \<Rightarrow> pointer \<Rightarrow> 'k event_init" where
  "exec_multiset_erase multiset_tx entry w error =
     map_option (\<lambda>h. (TXLIB_MULTISET_ERASE multiset_tx entry, w\<lparr>tw_multiset := h\<rparr>, error))
       (txmultiset_state_erase (multiset_state_of w multiset_tx) entry (tw_multiset w))"

definition exec_multiset_clear :: "pointer \<Rightarrow> 'k event_init" where
  "exec_multiset_clear multiset_tx w error =
     (case txmultiset_state_front (tw_multiset w) (multiset_state_of w multiset_tx) of
        None \<Rightarrow> None
      | Some entry \<Rightarrow> exec_multiset_erase multiset_tx entry w error)"

definition txmultiset_tx_exec_insert :: "'p event_append \<Rightarrow> lock_waits \<Rightarrow> pointer \<Rightarrow> pointer \<Rightarrow> ('k, 'p) tx_call" where
  "txmultiset_tx_exec_insert push_event wt self entry w p error =
     (case txmultiset_tx_try_wrlock wt self w error of
        None \<Rightarrow> None
      | Some (w, error) \<Rightarrow>
          if picotm_error_is_set error then Some (w, p, error)
          else txlib_tx_append_events2 push_event 1 exec_multiset_insert self entry w p error)"

definition txmultiset_tx_exec_erase :: "'p event_append \<Rightarrow> lock_waits \<Rightarrow> pointer \<Rightarrow> pointer \<Rightarrow> ('k, 'p) tx_call" where
  "txmultiset_tx_exec_erase push_event wt self entry w p error =
     (case txmultiset_tx_try_wrlock wt self w error of
        None \<Rightarrow> None
      | Some (w, error) \<Rightarrow>
          if picotm_error_is_set error then Some (w, p, error)
          else txlib_tx_append_events2 push_event 1 exec_multiset_erase self entry w p error)"

definition txmultiset_tx_exec_clear :: "'p event_append \<Rightarrow> lock_waits \<Rightarrow> pointer \<Rightarrow> ('k, 'p) tx_call" where
  "txmultiset_tx_exec_clear push_event wt self w p error =
     (case txmultiset_tx_try_wrlock wt self w error of
        None \<Rightarrow> None
      | Some (w, error) \<Rightarrow>
          if picotm_error_is_set error then Some (w, p, error)
          else (case txmultiset_state_size (tw_multiset w) (multiset_state_of w self) of
                  None \<Rightarrow> None
                | Some siz \<Rightarrow> txlib_tx_append_events1 push_event (unat siz) exec_multiset_clear self w p error))"

definition txmultiset_tx_undo_insert ::
  "pointer \<Rightarrow> pointer \<Rightarrow> 'k txlib_world \<Rightarrow> picotm_error \<Rightarrow> ('k txlib_world \<times> picotm_error) option"
where
  "txmultiset_tx_undo_insert self entry w error =
     map_option (\<lambda>h. (w\<lparr>tw_multiset := h\<rparr>, error))
       (txmultiset_state_erase (multiset_state_of w self) entry (tw_multiset w))"

definition txmultiset_tx_undo_erase ::
  "pointer \<Rightarrow> pointer \<Rightarrow> 'k txlib_world \<Rightarrow> picotm_error \<Rightarrow> ('k txlib_world \<times> picotm_error) option"
where
  "txmultiset_tx_undo_erase self entry w error =
     map_option (\<lambda>h. (w\<lparr>tw_multiset := h\<rparr>, error))
       (txmultiset_state_insert (multiset_order_of w self) (multiset_state_of w self) entry (tw_multiset w))"

definition txmultiset_tx_finish :: "pointer \<Rightarrow> 'k txlib_world \<Rightarrow> 'k txlib_world" where
  "txmultiset_tx_finish self w =
     (let tx = tw_multiset_tx w self;
          (wakes, rw, lock) = picotm_rwstate_unlock (mt_state tx) (tw_lock w (mt_multiset_state tx))
      in w\<lparr>tw_multiset_tx := (tw_multiset_tx w)(self := tx\<lparr>mt_state := rw\<rparr>), tw_lock := (tw_lock w)(mt_multiset_state tx := lock)\<rparr>)"

subsection \<open>Events\<close>

definition txlib_event_apply ::
  "txlib_event \<Rightarrow> 'k txlib_world \<Rightarrow> picotm_error \<Rightarrow> ('k txlib_world \<times> picotm_error) option"
where
  "txlib_event_apply self w error =
     (case self of
        TXLIB_QUEUE_PUSH queue_tx entry \<Rightarrow> Some (txqueue_tx_apply_push queue_tx entry w error)
      | TXLIB_STACK_PUSH stack_tx entry \<Rightarrow> txstack_tx_apply_push stack_tx entry w error
      | _ \<Rightarrow> Some (w, error))"

definition txlib_event_undo ::
  "txlib_event \<Rightarrow> 'k txlib_world \<Rightarrow> picotm_error \<Rightarrow> ('k txlib_world \<times> picotm_error) option"
where
  "txlib_event_undo self w error =
     (case self of
        TXLIB_LIST_INSERT list_tx entry \<Rightarrow> Some (txlist_tx_undo_insert list_tx entry w error)
      | TXLIB_LIST_ERASE list_tx entry position \<Rightarrow>
          Some (txlist_tx_undo_erase list_tx entry position w error)
      | TXLIB_MULTISET_INSERT multiset_tx entry \<Rightarrow> txmultiset_tx_undo_insert multiset_tx entry w error
      | TXLIB_MULTISET_ERASE multiset_tx entry \<Rightarrow> txmultiset_tx_undo_erase multiset_tx entry w error
      | TXLIB_QUEUE_PUSH queue_tx entry \<Rightarrow> Some (txqueue_tx_undo_push queue_tx entry w error)
      | TXLIB_QUEUE_POP queue_tx entry use_local_queue \<Rightarrow>
          Some (txqueue_tx_undo_pop queue_tx entry use_local_queue w error)
      | TXLIB_STACK_PUSH stack_tx entry \<Rightarrow> Some (txstack_tx_undo_push stack_tx entry w error)
      | TXLIB_STACK_POP stack_tx entry use_local_stack \<Rightarrow>
          Some (txstack_tx_undo_pop stack_tx entry use_local_stack w error))"

definition txlib_tx_apply_event ::
  "u16 \<Rightarrow> u64 \<Rightarrow> 'k txlib_world \<Rightarrow> picotm_error \<Rightarrow> ('k txlib_world \<times> picotm_error) option"
where
  "txlib_tx_apply_event op cookie w error = txlib_event_apply (tl_event (tw_tx w) ! unat cookie) w error"

definition txlib_tx_undo_event ::
  "u16 \<Rightarrow> u64 \<Rightarrow> 'k txlib_world \<Rightarrow> picotm_error \<Rightarrow> ('k txlib_world \<times> picotm_error) option"
where
  "txlib_tx_undo_event op cookie w error = txlib_event_undo (tl_event (tw_tx w) ! unat cookie) w error"

subsection \<open>The transaction of the module\<close>

definition txlib_tx_init :: "u64 \<Rightarrow> txlib_tx" where
  "txlib_tx_init module =
     \<lparr>tl_module = module, tl_allocated_entries = [], tl_acquired_list_tx = [], tl_acquired_multiset_tx = [],
      tl_acquired_queue_tx = [], tl_acquired_stack_tx = [], tl_event = []\<rparr>"

definition allocate_txlib_tx_entry ::
  "'k txlib_world \<Rightarrow> picotm_error \<Rightarrow> pointer option \<times> 'k txlib_world \<times> picotm_error"
where
  "allocate_txlib_tx_entry w error =
     (case tl_allocated_entries (tw_tx w) of
        [] \<Rightarrow>
          (let w' = w\<lparr>tw_n := tw_n w + 1\<rparr> in
           case tw_malloc w (tw_n w) of
             Inl entry \<Rightarrow> (Some entry, w', error)
           | Inr errno \<Rightarrow> (None, w', picotm_error_set_errno error errno))
      | entry # rest \<Rightarrow> (Some entry, w\<lparr>tw_tx := (tw_tx w)\<lparr>tl_allocated_entries := rest\<rparr>\<rparr>, error))"

definition txlib_tx_acquire_txlist_of_state ::
  "pointer \<Rightarrow> 'k txlib_world \<Rightarrow> picotm_error \<Rightarrow> pointer option \<times> 'k txlib_world \<times> picotm_error"
where
  "txlib_tx_acquire_txlist_of_state list_state w error =
     (case List.find (\<lambda>tx. lt_list_state (tw_list_tx w tx) = list_state) (tl_acquired_list_tx (tw_tx w)) of
        Some tx \<Rightarrow> (Some tx, w, error)
      | None \<Rightarrow>
          (case allocate_txlib_tx_entry w error of
             (None, w, error) \<Rightarrow> (None, w, error)
           | (Some entry, w, error) \<Rightarrow>
               if picotm_error_is_set error then (None, w, error)
               else
                 (let w = txlist_tx_init entry list_state w
                  in (Some entry,
                      w\<lparr>tw_tx := (tw_tx w)\<lparr>tl_acquired_list_tx := entry # tl_acquired_list_tx (tw_tx w)\<rparr>\<rparr>, error))))"

definition txlib_tx_acquire_txmultiset_of_state ::
  "pointer \<Rightarrow> 'k txlib_world \<Rightarrow> picotm_error \<Rightarrow> pointer option \<times> 'k txlib_world \<times> picotm_error"
where
  "txlib_tx_acquire_txmultiset_of_state multiset_state w error =
     (case List.find (\<lambda>tx. mt_multiset_state (tw_multiset_tx w tx) = multiset_state) (tl_acquired_multiset_tx (tw_tx w)) of
        Some tx \<Rightarrow> (Some tx, w, error)
      | None \<Rightarrow>
          (case allocate_txlib_tx_entry w error of
             (None, w, error) \<Rightarrow> (None, w, error)
           | (Some entry, w, error) \<Rightarrow>
               if picotm_error_is_set error then (None, w, error)
               else
                 (let w = txmultiset_tx_init entry multiset_state w
                  in (Some entry,
                      w\<lparr>tw_tx := (tw_tx w)\<lparr>tl_acquired_multiset_tx := entry # tl_acquired_multiset_tx (tw_tx w)\<rparr>\<rparr>, error))))"

definition txlib_tx_acquire_txqueue_of_state ::
  "pointer \<Rightarrow> 'k txlib_world \<Rightarrow> picotm_error \<Rightarrow> pointer option \<times> 'k txlib_world \<times> picotm_error"
where
  "txlib_tx_acquire_txqueue_of_state queue_state w error =
     (case List.find (\<lambda>tx. qt_queue_state (tw_queue_tx w tx) = queue_state) (tl_acquired_queue_tx (tw_tx w)) of
        Some tx \<Rightarrow> (Some tx, w, error)
      | None \<Rightarrow>
          (case allocate_txlib_tx_entry w error of
             (None, w, error) \<Rightarrow> (None, w, error)
           | (Some entry, w, error) \<Rightarrow>
               if picotm_error_is_set error then (None, w, error)
               else
                 (let w = txqueue_tx_init entry queue_state w
                  in (Some entry,
                      w\<lparr>tw_tx := (tw_tx w)\<lparr>tl_acquired_queue_tx := entry # tl_acquired_queue_tx (tw_tx w)\<rparr>\<rparr>, error))))"

definition txlib_tx_acquire_txstack_of_state ::
  "pointer \<Rightarrow> 'k txlib_world \<Rightarrow> picotm_error \<Rightarrow> pointer option \<times> 'k txlib_world \<times> picotm_error"
where
  "txlib_tx_acquire_txstack_of_state stack_state w error =
     (case List.find (\<lambda>tx. st_stack_state (tw_stack_tx w tx) = stack_state) (tl_acquired_stack_tx (tw_tx w)) of
        Some tx \<Rightarrow> (Some tx, w, error)
      | None \<Rightarrow>
          (case allocate_txlib_tx_entry w error of
             (None, w, error) \<Rightarrow> (None, w, error)
           | (Some entry, w, error) \<Rightarrow>
               if picotm_error_is_set error then (None, w, error)
               else
                 (let w = txstack_tx_init entry stack_state w
                  in (Some entry,
                      w\<lparr>tw_tx := (tw_tx w)\<lparr>tl_acquired_stack_tx := entry # tl_acquired_stack_tx (tw_tx w)\<rparr>\<rparr>, error))))"

fun lock_entries ::
  "(pointer \<Rightarrow> 'k txlib_world \<Rightarrow> picotm_error \<Rightarrow> ('k txlib_world \<times> picotm_error) option) \<Rightarrow> pointer list \<Rightarrow>
   'k txlib_world \<Rightarrow> picotm_error \<Rightarrow> ('k txlib_world \<times> picotm_error) option"
where
  "lock_entries lock [] w error = Some (w, error)"
| "lock_entries lock (tx # txs) w error =
     (case lock tx w error of
        None \<Rightarrow> None
      | Some (w, error) \<Rightarrow>
          if picotm_error_is_set error then Some (w, error) else lock_entries lock txs w error)"

definition lock_txqueue_tx_entries where
  "lock_txqueue_tx_entries wt w error =
     lock_entries (txqueue_tx_lock wt) (tl_acquired_queue_tx (tw_tx w)) w error"

definition lock_txstack_tx_entries where
  "lock_txstack_tx_entries wt w error =
     lock_entries (txstack_tx_lock wt) (tl_acquired_stack_tx (tw_tx w)) w error"

definition txlib_tx_prepare_commit ::
  "lock_waits \<Rightarrow> 'k txlib_world \<Rightarrow> picotm_error \<Rightarrow> ('k txlib_world \<times> picotm_error) option"
where
  "txlib_tx_prepare_commit wt w error =
     (case lock_txqueue_tx_entries wt w error of
        None \<Rightarrow> None
      | Some (w, error) \<Rightarrow>
          if picotm_error_is_set error then Some (w, error) else lock_txstack_tx_entries wt w error)"

text \<open>Cleaning up the acquired entries, which become allocated ones, in the order of their list.\<close>

definition cleanup_entries ::
  "(pointer \<Rightarrow> 'k txlib_world \<Rightarrow> 'k txlib_world) \<Rightarrow> pointer list \<Rightarrow> 'k txlib_world \<Rightarrow> 'k txlib_world"
where
  "cleanup_entries finish txs w =
     fold (\<lambda>tx w. let w = finish tx w
                 in w\<lparr>tw_tx := (tw_tx w)\<lparr>tl_allocated_entries := tx # tl_allocated_entries (tw_tx w)\<rparr>\<rparr>) txs w"

definition txlib_tx_finish :: "'k txlib_world \<Rightarrow> 'k txlib_world" where
  "txlib_tx_finish w =
     (let w = w\<lparr>tw_tx := (tw_tx w)\<lparr>tl_event := []\<rparr>\<rparr>;
          w = cleanup_entries txlist_tx_finish (tl_acquired_list_tx (tw_tx w)) w;
          w = w\<lparr>tw_tx := (tw_tx w)\<lparr>tl_acquired_list_tx := []\<rparr>\<rparr>;
          w = cleanup_entries txmultiset_tx_finish (tl_acquired_multiset_tx (tw_tx w)) w;
          w = w\<lparr>tw_tx := (tw_tx w)\<lparr>tl_acquired_multiset_tx := []\<rparr>\<rparr>;
          w = cleanup_entries txqueue_tx_finish (tl_acquired_queue_tx (tw_tx w)) w;
          w = w\<lparr>tw_tx := (tw_tx w)\<lparr>tl_acquired_queue_tx := []\<rparr>\<rparr>;
          w = cleanup_entries txstack_tx_finish (tl_acquired_stack_tx (tw_tx w)) w
      in w\<lparr>tw_tx := (tw_tx w)\<lparr>tl_acquired_stack_tx := []\<rparr>\<rparr>)"

end
