(* ===== verification/Txlib_Events.thy ===== *)
theory Txlib_Events
  imports Txlib_Tx "HOL-Library.Sublist"
begin

text \<open>
  What the events of the transactional data types mean.  An abstract state gives the entries of every
  queue, list and stack, among them the local ones of the transactions; an event is a step between two
  abstract states.  Undoing an event goes back along its step, and applying the events of a transaction
  moves all local entries into the shared containers.
\<close>

record txlib_abs =
  ab_queue :: family
  ab_list :: family
  ab_stack :: family

definition rep :: "'k txlib_world \<Rightarrow> txlib_abs \<Rightarrow> bool" where
  "rep w A \<longleftrightarrow> rings (tw_queue w) (ab_queue A) \<and> rings (tw_list w) (ab_list A) \<and>
     stacks (tw_stack w) (ab_stack A)"

text \<open>The containers that the transactions belong to, which no operation changes.\<close>

definition same_states :: "'k txlib_world \<Rightarrow> 'k txlib_world \<Rightarrow> bool" where
  "same_states w w' \<longleftrightarrow> queue_state_of w' = queue_state_of w \<and> list_state_of w' = list_state_of w \<and>
     stack_state_of w' = stack_state_of w"

lemma same_states_refl [simp]: "same_states w w"
  by (simp add: same_states_def)

lemma same_states_trans: "same_states w1 w2 \<Longrightarrow> same_states w2 w3 \<Longrightarrow> same_states w1 w3"
  by (simp add: same_states_def)

lemma same_states_heap [simp]:
  "same_states w (w'\<lparr>tw_queue := h\<rparr>) = same_states w w'"
  "same_states w (w'\<lparr>tw_list := h\<rparr>) = same_states w w'"
  "same_states w (w'\<lparr>tw_stack := s\<rparr>) = same_states w w'"
  "same_states w (w'\<lparr>tw_tx := t\<rparr>) = same_states w w'"
  "same_states w (w'\<lparr>tw_n := n\<rparr>) = same_states w w'"
  by (simp_all add: same_states_def queue_state_of_def list_state_of_def stack_state_of_def fun_eq_iff)

lemma same_statesD:
  "same_states w w' \<Longrightarrow> queue_state_of w' = queue_state_of w"
  "same_states w w' \<Longrightarrow> list_state_of w' = list_state_of w"
  "same_states w w' \<Longrightarrow> stack_state_of w' = stack_state_of w"
  by (simp_all add: same_states_def)

inductive ev_step :: "'k txlib_world \<Rightarrow> txlib_abs \<Rightarrow> txlib_event \<Rightarrow> txlib_abs \<Rightarrow> bool" for w where
  queue_push: "ab_queue A qt = Some l \<Longrightarrow> x \<noteq> 0 \<Longrightarrow> x \<notin> members (ab_queue A) \<Longrightarrow>
    ev_step w A (TXLIB_QUEUE_PUSH qt x) (A\<lparr>ab_queue := (ab_queue A)(qt \<mapsto> l @ [x])\<rparr>)"
| queue_pop_local: "ab_queue A qt = Some (x # l) \<Longrightarrow> ab_queue A (queue_state_of w qt) = Some [] \<Longrightarrow>
    ev_step w A (TXLIB_QUEUE_POP qt x True) (A\<lparr>ab_queue := (ab_queue A)(qt \<mapsto> l)\<rparr>)"
| queue_pop: "ab_queue A (queue_state_of w qt) = Some (x # g) \<Longrightarrow>
    ev_step w A (TXLIB_QUEUE_POP qt x False) (A\<lparr>ab_queue := (ab_queue A)(queue_state_of w qt \<mapsto> g)\<rparr>)"
| list_insert: "ab_list A (list_state_of w lt) = Some (xs @ ys) \<Longrightarrow> x \<noteq> 0 \<Longrightarrow> x \<notin> members (ab_list A) \<Longrightarrow>
    ev_step w A (TXLIB_LIST_INSERT lt x) (A\<lparr>ab_list := (ab_list A)(list_state_of w lt \<mapsto> xs @ x # ys)\<rparr>)"
| list_erase: "ab_list A (list_state_of w lt) = Some (xs @ x # ys) \<Longrightarrow>
    ev_step w A (TXLIB_LIST_ERASE lt x (hd (ys @ [list_state_of w lt])))
      (A\<lparr>ab_list := (ab_list A)(list_state_of w lt \<mapsto> xs @ ys)\<rparr>)"
| stack_push: "ab_stack A st = Some l \<Longrightarrow> x \<noteq> 0 \<Longrightarrow> x \<notin> members (ab_stack A) \<Longrightarrow>
    ev_step w A (TXLIB_STACK_PUSH st x) (A\<lparr>ab_stack := (ab_stack A)(st \<mapsto> x # l)\<rparr>)"
| stack_pop_local: "ab_stack A st = Some (x # l) \<Longrightarrow>
    ev_step w A (TXLIB_STACK_POP st x True) (A\<lparr>ab_stack := (ab_stack A)(st \<mapsto> l)\<rparr>)"
| stack_pop: "ab_stack A (stack_state_of w st) = Some (x # g) \<Longrightarrow> ab_stack A st = Some [] \<Longrightarrow>
    ev_step w A (TXLIB_STACK_POP st x False) (A\<lparr>ab_stack := (ab_stack A)(stack_state_of w st \<mapsto> g)\<rparr>)"

inductive_cases queue_push_stepE: "ev_step w A (TXLIB_QUEUE_PUSH qt x) A'"
inductive_cases queue_pop_stepE: "ev_step w A (TXLIB_QUEUE_POP qt x b) A'"
inductive_cases list_insert_stepE: "ev_step w A (TXLIB_LIST_INSERT lt x) A'"
inductive_cases list_erase_stepE: "ev_step w A (TXLIB_LIST_ERASE lt x p) A'"
inductive_cases stack_push_stepE: "ev_step w A (TXLIB_STACK_PUSH st x) A'"
inductive_cases stack_pop_stepE: "ev_step w A (TXLIB_STACK_POP st x b) A'"

fun ev_path :: "'k txlib_world \<Rightarrow> txlib_abs \<Rightarrow> txlib_event list \<Rightarrow> txlib_abs \<Rightarrow> bool" where
  "ev_path w A [] A' \<longleftrightarrow> A' = A"
| "ev_path w A (ev # evs) A' \<longleftrightarrow> (\<exists>A1. ev_step w A ev A1 \<and> ev_path w A1 evs A')"

lemma ev_path_append: "ev_path w A (evs @ evs') A' \<longleftrightarrow> (\<exists>A1. ev_path w A evs A1 \<and> ev_path w A1 evs' A')"
  by (induction evs arbitrary: A) auto

subsection \<open>Undoing\<close>

lemma reinsert_fresh:
  assumes "family_ok F" and "F q = Some (xs @ x # ys)"
  shows "x \<noteq> 0" and "x \<notin> members (F(q \<mapsto> xs @ ys))"
  using family_okD [OF assms] members_upd [OF assms, of "xs @ ys"] by auto

lemma upd_back: "F q = Some xs \<Longrightarrow> F(q \<mapsto> ys, q \<mapsto> xs) = F"
  by (simp add: fun_eq_iff)

lemma families_ok:
  assumes "rep w A"
  shows "family_ok (ab_queue A)" and "family_ok (ab_list A)" and "family_ok (ab_stack A)"
  using assms by (simp_all add: rep_def rings_def stacks_def)

lemma undo_step:
  assumes "ev_step w A ev A'" and "family_ok (ab_queue A)" and "family_ok (ab_list A)"
    and "family_ok (ab_stack A)" and "rep w1 A'" and "same_states w w1"
  shows "\<exists>w2. txlib_event_undo ev w1 e = Some (w2, e) \<and> rep w2 A \<and> same_states w w2 \<and> tw_tx w2 = tw_tx w1"
  using assms(1)
proof cases
  case (queue_push qt l x)
  have "rings (tw_queue w1) ((ab_queue A)(qt \<mapsto> l @ x # []))" using assms(5) queue_push by (simp add: rep_def)
  then have "rings (txqueue_entry_erase x (tw_queue w1)) (ab_queue A)"
    using queue_entries.insert_erase [of "ab_queue A" qt l "[]"] queue_push by simp
  then show ?thesis using queue_push assms(5,6)
    by (simp add: txlib_event_undo_def txqueue_tx_undo_push_def rep_def)
next
  case (queue_pop_local qt x l)
  let ?F = "(ab_queue A)(qt \<mapsto> l)"
  have h: "rings (tw_queue w1) ?F" using assms(5) queue_pop_local by (simp add: rep_def)
  have x: "x \<noteq> 0" "x \<notin> members ?F"
    using reinsert_fresh [OF assms(2), of qt "[]" x l] queue_pop_local by simp_all
  have "rings (txqueue_entry_insert x (rh_next (tw_queue w1) qt) (tw_queue w1)) (?F(qt \<mapsto> x # l))"
    by (rule queue_entries.push_front [OF h _ x]) simp
  then have "rings (txqueue_entry_insert x (rh_next (tw_queue w1) qt) (tw_queue w1)) (ab_queue A)"
    using upd_back [of "ab_queue A" qt "x # l" l] queue_pop_local by simp
  then show ?thesis using queue_pop_local assms(5,6)
    by (simp add: txlib_event_undo_def txqueue_tx_undo_pop_def queue_local_begin_def txqueue_entry_next_def rep_def)
next
  case (queue_pop qt x g)
  let ?q = "queue_state_of w qt"
  let ?F = "(ab_queue A)(?q \<mapsto> g)"
  have h: "rings (tw_queue w1) ?F" using assms(5) queue_pop by (simp add: rep_def)
  have x: "x \<noteq> 0" "x \<notin> members ?F"
    using reinsert_fresh [OF assms(2), of ?q "[]" x g] queue_pop by simp_all
  have "rings (txqueue_entry_insert x (rh_next (tw_queue w1) ?q) (tw_queue w1)) (?F(?q \<mapsto> x # g))"
    by (rule queue_entries.push_front [OF h _ x]) simp
  then have "rings (txqueue_entry_insert x (rh_next (tw_queue w1) ?q) (tw_queue w1)) (ab_queue A)"
    using upd_back [of "ab_queue A" ?q "x # g" g] queue_pop by simp
  then show ?thesis using queue_pop assms(5,6)
    by (simp add: txlib_event_undo_def txqueue_tx_undo_pop_def txqueue_state_push_front_def
        txqueue_state_begin_def txqueue_entry_next_def rep_def same_statesD)
next
  case (list_insert lt xs ys x)
  let ?q = "list_state_of w lt"
  have "rings (tw_list w1) ((ab_list A)(?q \<mapsto> xs @ x # ys))" using assms(5) list_insert by (simp add: rep_def)
  then have "rings (txlist_entry_erase x (tw_list w1)) (ab_list A)"
    using list_entries.insert_erase [of "ab_list A" ?q xs ys] list_insert by simp
  then show ?thesis using list_insert assms(5,6)
    by (simp add: txlib_event_undo_def txlist_tx_undo_insert_def txlist_state_erase_def rep_def)
next
  case (list_erase lt xs x ys)
  let ?q = "list_state_of w lt"
  let ?F = "(ab_list A)(?q \<mapsto> xs @ ys)"
  have h: "rings (tw_list w1) ?F" using assms(5) list_erase by (simp add: rep_def)
  have "rings (txlist_entry_insert x (hd (ys @ [?q])) (tw_list w1)) (?F(?q \<mapsto> xs @ x # ys))"
    by (rule list_entries.insert_rings [OF h _ reinsert_fresh [OF assms(3) list_erase(3)]]) simp
  then have "rings (txlist_entry_insert x (hd (ys @ [?q])) (tw_list w1)) (ab_list A)"
    using upd_back [of "ab_list A" ?q "xs @ x # ys" "xs @ ys"] list_erase by simp
  then show ?thesis using list_erase assms(5,6)
    by (simp add: txlib_event_undo_def txlist_tx_undo_erase_def txlist_state_insert_def rep_def)
next
  case (stack_push st l x)
  let ?F = "(ab_stack A)(st \<mapsto> x # l)"
  have h: "stacks (tw_stack w1) ?F" using assms(5) stack_push by (simp add: rep_def)
  have "stacks (txstack_entry_erase (tw_stack w1 st) st (tw_stack w1)) (?F(st \<mapsto> l))" "tw_stack w1 st = x"
    using Txlib_Stack.stack_pop [OF h, of st x l] by simp_all
  then have "stacks (txstack_entry_erase x st (tw_stack w1)) (ab_stack A)"
    using upd_back [of "ab_stack A" st l "x # l"] stack_push by simp
  then show ?thesis using stack_push assms(5,6)
    by (simp add: txlib_event_undo_def txstack_tx_undo_push_def stack_local_end_def rep_def)
next
  case (stack_pop_local st x l)
  let ?F = "(ab_stack A)(st \<mapsto> l)"
  have h: "stacks (tw_stack w1) ?F" using assms(5) stack_pop_local by (simp add: rep_def)
  have x: "x \<noteq> 0" "x \<notin> members ?F"
    using reinsert_fresh [OF assms(4), of st "[]" x l] stack_pop_local by simp_all
  have "stacks (txstack_entry_insert x st (tw_stack w1)) (?F(st \<mapsto> x # l))"
    by (rule Txlib_Stack.stack_push [OF h _ x]) simp
  then have "stacks (txstack_entry_insert x st (tw_stack w1)) (ab_stack A)"
    using upd_back [of "ab_stack A" st "x # l" l] stack_pop_local by simp
  then show ?thesis using stack_pop_local assms(5,6)
    by (simp add: txlib_event_undo_def txstack_tx_undo_pop_def stack_local_end_def rep_def)
next
  case (stack_pop st x g)
  let ?q = "stack_state_of w st"
  let ?F = "(ab_stack A)(?q \<mapsto> g)"
  have h: "stacks (tw_stack w1) ?F" using assms(5) stack_pop by (simp add: rep_def)
  have x: "x \<noteq> 0" "x \<notin> members ?F"
    using reinsert_fresh [OF assms(4), of ?q "[]" x g] stack_pop by simp_all
  have "stacks (txstack_entry_insert x ?q (tw_stack w1)) (?F(?q \<mapsto> x # g))"
    by (rule Txlib_Stack.stack_push [OF h _ x]) simp
  then have "stacks (txstack_entry_insert x ?q (tw_stack w1)) (ab_stack A)"
    using upd_back [of "ab_stack A" ?q "x # g" g] stack_pop by simp
  then show ?thesis using stack_pop assms(5,6)
    by (simp add: txlib_event_undo_def txstack_tx_undo_pop_def txstack_state_push_def
        txstack_state_end_def rep_def same_statesD)
qed

text \<open>Undoing all events of a transaction, the newest first, goes back to where it started.\<close>

fun undo_all ::
  "txlib_event list \<Rightarrow> 'k txlib_world \<Rightarrow> picotm_error \<Rightarrow> ('k txlib_world \<times> picotm_error) option"
where
  "undo_all [] w e = Some (w, e)"
| "undo_all (ev # evs) w e =
     (case undo_all evs w e of None \<Rightarrow> None | Some (w, e) \<Rightarrow> txlib_event_undo ev w e)"

lemma family_step:
  assumes "ev_step w A ev A'" and "family_ok (ab_queue A)" and "family_ok (ab_list A)" and "family_ok (ab_stack A)"
  shows "family_ok (ab_queue A')" and "family_ok (ab_list A')" and "family_ok (ab_stack A')"
proof -
  have push: "family_ok (F(q \<mapsto> xs @ x # ys))"
    if "family_ok F" "F q = Some (xs @ ys)" "x \<noteq> 0" "x \<notin> members F" for F :: family and q xs x ys
  proof -
    have "x \<notin> set (xs @ ys)" using that(2,4) memberI [of F q "xs @ ys" x] by auto
    then show ?thesis
      by (intro family_upd [OF that(1,2)]) (use that(3,4) family_okD [OF that(1,2)] in auto)
  qed
  have pop: "family_ok (F(q \<mapsto> xs @ ys))" if "family_ok F" "F q = Some (xs @ x # ys)" for F :: family and q xs x ys
    by (rule family_upd [OF that]) (use family_okD [OF that] in auto)
  note ends = push [where ys = "[]", simplified] push [where xs = "[]", simplified] pop [where xs = "[]", simplified]
  show "family_ok (ab_queue A')" "family_ok (ab_list A')" "family_ok (ab_stack A')"
    using assms(1) by (cases; use assms(2-4) in \<open>auto intro: push pop ends\<close>)+
qed

lemma undo_path:
  assumes "ev_path w A evs A'" and "family_ok (ab_queue A)" and "family_ok (ab_list A)"
    and "family_ok (ab_stack A)" and "rep w1 A'" and "same_states w w1"
  shows "\<exists>w2. undo_all evs w1 e = Some (w2, e) \<and> rep w2 A \<and> same_states w w2 \<and> tw_tx w2 = tw_tx w1"
  using assms(1-4)
proof (induction evs arbitrary: A)
  case Nil
  then show ?case using assms(5,6) by simp
next
  case (Cons ev evs)
  then obtain A1 where step: "ev_step w A ev A1" "ev_path w A1 evs A'" by auto
  from Cons.IH [OF step(2)] family_step [OF step(1) Cons.prems(2-4)]
  obtain w2 where w2: "undo_all evs w1 e = Some (w2, e)" "rep w2 A1" "same_states w w2" "tw_tx w2 = tw_tx w1"
    by blast
  from undo_step [OF step(1) Cons.prems(2-4) w2(2,3), of e] w2 show ?case by simp
qed

subsection \<open>Applying\<close>

fun ev_apply :: "'k txlib_world \<Rightarrow> txlib_event \<Rightarrow> txlib_abs \<Rightarrow> txlib_abs" where
  "ev_apply w (TXLIB_QUEUE_PUSH qt x) A =
     (case (ab_queue A qt, ab_queue A (queue_state_of w qt)) of
        (Some (y # l), Some g) \<Rightarrow>
          if x = y then A\<lparr>ab_queue := (ab_queue A)(qt \<mapsto> l, queue_state_of w qt \<mapsto> g @ [x])\<rparr> else A
      | _ \<Rightarrow> A)"
| "ev_apply w (TXLIB_STACK_PUSH st x) A =
     (case (ab_stack A st, ab_stack A (stack_state_of w st)) of
        (Some l, Some g) \<Rightarrow>
          if l \<noteq> [] \<and> x = last l
          then A\<lparr>ab_stack := (ab_stack A)(st \<mapsto> butlast l, stack_state_of w st \<mapsto> x # g)\<rparr> else A
      | _ \<Rightarrow> A)"
| "ev_apply w ev A = A"

text \<open>The transactions have their own heads and belong to different containers.\<close>

definition txs_ok :: "'k txlib_world \<Rightarrow> pointer set \<Rightarrow> pointer set \<Rightarrow> txlib_abs \<Rightarrow> bool" where
  "txs_ok w Q S A \<longleftrightarrow>
     (\<forall>qt\<in>Q. ab_queue A qt \<noteq> None \<and> ab_queue A (queue_state_of w qt) \<noteq> None \<and> queue_state_of w qt \<notin> Q) \<and>
     inj_on (queue_state_of w) Q \<and>
     (\<forall>st\<in>S. ab_stack A st \<noteq> None \<and> ab_stack A (stack_state_of w st) \<noteq> None \<and> stack_state_of w st \<notin> S) \<and>
     inj_on (stack_state_of w) S"

definition ev_ok :: "pointer set \<Rightarrow> pointer set \<Rightarrow> txlib_event \<Rightarrow> bool" where
  "ev_ok Q S ev \<longleftrightarrow>
     (case ev of TXLIB_QUEUE_PUSH qt x \<Rightarrow> qt \<in> Q \<and> x \<noteq> qt | TXLIB_QUEUE_POP qt x b \<Rightarrow> qt \<in> Q
      | TXLIB_STACK_PUSH st x \<Rightarrow> st \<in> S \<and> x \<noteq> st | TXLIB_STACK_POP st x b \<Rightarrow> st \<in> S | _ \<Rightarrow> True)"

text \<open>A stacked entry is the bottom of a stack just if it points to the head.\<close>

lemma bottom_iff:
  assumes "stacks h F" and "F q = Some l"
  shows "h x = q \<longleftrightarrow> (if l = [] then x = q else x = last l)"
proof -
  have fam: "family_ok F" using assms(1) by (simp add: stacks_def)
  note D = family_okD [OF fam assms(2)]
  show ?thesis
  proof (cases "x \<in> members F")
    case False
    then have "h x = 0" using assms(1) unfolding stacks_def by blast
    moreover have "x \<notin> set (q # l)" using False memberI [of F q l x] assms(2) by auto
    then have "x \<noteq> q" "l \<noteq> [] \<Longrightarrow> x \<noteq> last l" by auto
    ultimately show ?thesis using D(3) by auto
  next
    case True
    then obtain q' zs where q': "F q' = Some zs" "x \<in> set (q' # zs)" by (auto simp: members_def)
    have hx: "h x \<in> set (q' # zs)"
    proof (cases "x = q'")
      case True
      then show ?thesis using stack_top [OF assms(1) q'(1)] by (cases zs) auto
    next
      case False
      then obtain as bs where "zs = as @ x # bs" using q'(2) by (auto dest: split_list)
      then show ?thesis using stack_erase(2) [OF assms(1), of q' as x bs] q'(1) by (cases bs) auto
    qed
    show ?thesis
    proof (cases "q' = q")
      case False
      then have "set (q # l) \<inter> set (q' # zs) = {}" using family_apart [OF fam assms(2) q'(1)] by simp
      then have "h x \<noteq> q" "x \<notin> set (q # l)" using hx q'(2) by auto
      then show ?thesis by auto
    next
      case True
      then have zs: "zs = l" using q'(1) assms(2) by simp
      show ?thesis
      proof (cases "x = q")
        case True
        then show ?thesis using stack_top [OF assms] D(2) by (cases l) auto
      next
        case False
        then obtain as bs where l: "l = as @ x # bs" using q'(2) zs True by (auto dest: split_list)
        have "h x = hd (bs @ [q])" using stack_erase(2) [OF assms(1), of q as x bs] assms(2) l by simp
        moreover have "q \<notin> set bs" "bs \<noteq> [] \<Longrightarrow> last bs \<noteq> x" using D(1,2) l by auto
        ultimately show ?thesis using l by (cases bs) auto
      qed
    qed
  qed
qed

lemma local_next_of_loop_chain:
  "chained h (next # as @ x # bs) \<Longrightarrow> x \<notin> set as \<Longrightarrow>
   local_next_of_loop h x (hd (as @ [x])) next = Some (last (next # as))"
proof (induction as arbitrary: "next")
  case Nil
  then show ?case by (subst local_next_of_loop.simps) simp
next
  case (Cons a as)
  have "h a = hd (as @ [x])" using Cons.prems(1) by (cases as) auto
  moreover have "chained h (a # as @ x # bs)" using Cons.prems(1) by simp
  ultimately have "local_next_of_loop h x (txstack_entry_prev h a) a = Some (last (a # as))"
    using Cons.IH [of a] Cons.prems(2) by (simp add: txstack_entry_prev_def)
  moreover have "a \<noteq> x" using Cons.prems(2) by auto
  ultimately show ?case by (subst local_next_of_loop.simps) simp
qed

lemma apply_step:
  assumes "ev_ok Q S ev" and "txs_ok w Q S A" and "rep w1 A" and "same_states w w1"
  shows "\<exists>w2. txlib_event_apply ev w1 e = Some (w2, e) \<and> rep w2 (ev_apply w ev A) \<and> same_states w w2 \<and>
    tw_tx w2 = tw_tx w1"
proof (cases ev)
  case (TXLIB_QUEUE_PUSH qt x)
  let ?q = "queue_state_of w qt"
  have qt: "qt \<in> Q" "x \<noteq> qt" using assms(1) TXLIB_QUEUE_PUSH by (simp_all add: ev_ok_def)
  have dom: "ab_queue A qt \<noteq> None" "ab_queue A ?q \<noteq> None" "?q \<notin> Q"
    using assms(2) qt unfolding txs_ok_def by blast+
  then have q: "?q \<noteq> qt" "x \<noteq> qt" using qt by metis+
  obtain l g where F: "ab_queue A qt = Some l" "ab_queue A ?q = Some g" using dom by auto
  have h: "rings (tw_queue w1) (ab_queue A)" using assms(3) by (simp add: rep_def)
  have front: "queue_local_front w1 qt = hd (l @ [qt])"
    using ring_ends(1) [OF h F(1)] by (simp add: queue_local_front_def queue_local_begin_def txqueue_entry_next_def)
  show ?thesis
  proof (cases "\<exists>l'. l = x # l'")
    case False
    then have "x \<noteq> queue_local_front w1 qt" using front q(2) by (cases l) auto
    moreover have "ev_apply w ev A = A" using False F TXLIB_QUEUE_PUSH by (cases l) auto
    ultimately show ?thesis using TXLIB_QUEUE_PUSH assms(3,4)
      by (simp add: txlib_event_apply_def txqueue_tx_apply_push_def)
  next
    case True
    then obtain l' where l: "l = x # l'" by blast
    let ?F = "(ab_queue A)(qt \<mapsto> l')"
    have "rings (txqueue_entry_erase x (tw_queue w1)) ?F"
      using queue_entries.erase_rings [OF h, of qt "[]" x l'] F l by simp
    moreover have "x \<noteq> 0" "x \<notin> members ?F"
      using reinsert_fresh [of "ab_queue A" qt "[]" x l'] F l families_ok(1) [OF assms(3)] by simp_all
    ultimately have "rings (txqueue_entry_insert x ?q (txqueue_entry_erase x (tw_queue w1))) (?F(?q \<mapsto> g @ [x]))"
      using F q by (intro queue_entries.push_back) simp_all
    then show ?thesis using TXLIB_QUEUE_PUSH assms(3,4) F l front
      by (simp add: txlib_event_apply_def txqueue_tx_apply_push_def txqueue_state_push_back_def
          txqueue_state_end_def rep_def same_statesD)
  qed
next
  case (TXLIB_STACK_PUSH st x)
  let ?q = "stack_state_of w st"
  have st: "st \<in> S" using assms(1) TXLIB_STACK_PUSH by (simp add: ev_ok_def)
  then have dom: "ab_stack A st \<noteq> None" "ab_stack A ?q \<noteq> None" "?q \<notin> S"
    using assms(2) unfolding txs_ok_def by blast+
  then have q: "?q \<noteq> st" using st by metis
  obtain l g where F: "ab_stack A st = Some l" "ab_stack A ?q = Some g" using dom by auto
  have h: "stacks (tw_stack w1) (ab_stack A)" using assms(3) by (simp add: rep_def)
  note fam = families_ok(3) [OF assms(3)]
  note D = family_okD [OF fam F(1)]
  show ?thesis
  proof (cases "l \<noteq> [] \<and> x = last l")
    case False
    have keep: "ev_apply w ev A = A" using False F TXLIB_STACK_PUSH by auto
    show ?thesis
    proof (cases "tw_stack w1 x = st")
      case True
      then have "l = []" "x = st" using bottom_iff [OF h F(1), of x] False by (auto split: if_splits)
      with assms(1) TXLIB_STACK_PUSH show ?thesis by (simp add: ev_ok_def)
    next
      case other: False
      then show ?thesis using keep TXLIB_STACK_PUSH assms(3,4)
        by (simp add: txlib_event_apply_def txstack_tx_apply_push_def txstack_entry_prev_def stack_local_end_def)
    qed
  next
    case True
    then obtain as where l: "l = as @ [x]" by (metis append_butlast_last_id)
    have prev: "tw_stack w1 x = st" using bottom_iff [OF h F(1), of x] l by simp
    have "chained (tw_stack w1) (st # as @ x # [st])" using h F(1) l unfolding stacks_def by force
    moreover have "stack_local_begin w1 st = hd (as @ [x])"
      using stack_top [OF h F(1)] l by (cases as) (simp_all add: stack_local_begin_def txstack_entry_prev_def)
    ultimately have "next": "local_next_of w1 st x = Some (last (st # as))"
      using local_next_of_loop_chain [of "tw_stack w1" st as x "[st]"] D(1) l
      by (simp add: local_next_of_def stack_local_end_def)
    let ?F = "(ab_stack A)(st \<mapsto> as)"
    let ?h = "txstack_entry_erase x (last (st # as)) (tw_stack w1)"
    have "stacks ?h ?F" using stack_erase(1) [OF h, of st as x "[]"] F l by simp
    moreover have "x \<noteq> 0" "x \<notin> members ?F" using reinsert_fresh [OF fam, of st as x "[]"] F l by simp_all
    ultimately have "stacks (txstack_entry_insert x ?q ?h) (?F(?q \<mapsto> x # g))"
      using F q by (intro Txlib_Stack.stack_push) simp_all
    then show ?thesis using TXLIB_STACK_PUSH assms(3,4) F l prev "next"
      by (simp add: txlib_event_apply_def txstack_tx_apply_push_def txstack_state_push_def txstack_entry_prev_def
          stack_local_end_def txstack_state_end_def rep_def same_statesD)
  qed
qed (use assms(3,4) in \<open>simp_all add: txlib_event_apply_def\<close>)

subsection \<open>Applying the events of a transaction\<close>

fun apply_all ::
  "txlib_event list \<Rightarrow> 'k txlib_world \<Rightarrow> picotm_error \<Rightarrow> ('k txlib_world \<times> picotm_error) option"
where
  "apply_all [] w e = Some (w, e)"
| "apply_all (ev # evs) w e =
     (case txlib_event_apply ev w e of None \<Rightarrow> None | Some (w, e) \<Rightarrow> apply_all evs w e)"

lemma txs_okD:
  assumes "txs_ok w Q S A"
  shows "qt \<in> Q \<Longrightarrow> \<exists>l g. ab_queue A qt = Some l \<and> ab_queue A (queue_state_of w qt) = Some g"
    and "qt \<in> Q \<Longrightarrow> qt' \<in> Q \<Longrightarrow> queue_state_of w qt \<noteq> qt'"
    and "qt \<in> Q \<Longrightarrow> qt' \<in> Q \<Longrightarrow> queue_state_of w qt = queue_state_of w qt' \<longleftrightarrow> qt = qt'"
    and "st \<in> S \<Longrightarrow> \<exists>l g. ab_stack A st = Some l \<and> ab_stack A (stack_state_of w st) = Some g"
    and "st \<in> S \<Longrightarrow> st' \<in> S \<Longrightarrow> stack_state_of w st \<noteq> st'"
    and "st \<in> S \<Longrightarrow> st' \<in> S \<Longrightarrow> stack_state_of w st = stack_state_of w st' \<longleftrightarrow> st = st'"
proof -
  have Q: "\<forall>qt\<in>Q. ab_queue A qt \<noteq> None \<and> ab_queue A (queue_state_of w qt) \<noteq> None \<and> queue_state_of w qt \<notin> Q"
    and iQ: "inj_on (queue_state_of w) Q"
    and S: "\<forall>st\<in>S. ab_stack A st \<noteq> None \<and> ab_stack A (stack_state_of w st) \<noteq> None \<and> stack_state_of w st \<notin> S"
    and iS: "inj_on (stack_state_of w) S"
    using assms unfolding txs_ok_def by blast+
  show "\<exists>l g. ab_queue A qt = Some l \<and> ab_queue A (queue_state_of w qt) = Some g" if "qt \<in> Q"
    using Q that by auto
  show "queue_state_of w qt \<noteq> qt'" if "qt \<in> Q" "qt' \<in> Q" using Q that by metis
  show "queue_state_of w qt = queue_state_of w qt' \<longleftrightarrow> qt = qt'" if "qt \<in> Q" "qt' \<in> Q"
    using inj_on_eq_iff [OF iQ that] .
  show "\<exists>l g. ab_stack A st = Some l \<and> ab_stack A (stack_state_of w st) = Some g" if "st \<in> S"
    using S that by auto
  show "stack_state_of w st \<noteq> st'" if "st \<in> S" "st' \<in> S" using S that by metis
  show "stack_state_of w st = stack_state_of w st' \<longleftrightarrow> st = st'" if "st \<in> S" "st' \<in> S"
    using inj_on_eq_iff [OF iS that] .
qed

lemma txs_ok_mono:
  assumes "txs_ok w Q S A"
    and "\<And>q. ab_queue A q \<noteq> None \<Longrightarrow> ab_queue A' q \<noteq> None" and "\<And>q. ab_stack A q \<noteq> None \<Longrightarrow> ab_stack A' q \<noteq> None"
  shows "txs_ok w Q S A'"
  using assms unfolding txs_ok_def by blast

lemma txs_ok_apply: "txs_ok w Q S A \<Longrightarrow> txs_ok w Q S (ev_apply w ev A)"
  by (rule txs_ok_mono, assumption)
    (cases ev; auto split: option.split list.split)+

lemma txs_ok_step: "ev_step w A ev A' \<Longrightarrow> txs_ok w Q S A \<Longrightarrow> txs_ok w Q S A'"
  by (erule ev_step.cases) (auto intro: txs_ok_mono)

lemma apply_path:
  assumes "\<forall>ev\<in>set evs. ev_ok Q S ev" and "txs_ok w Q S A" and "rep w1 A" and "same_states w w1"
  shows "\<exists>w2. apply_all evs w1 e = Some (w2, e) \<and> rep w2 (fold (ev_apply w) evs A) \<and> same_states w w2 \<and>
    tw_tx w2 = tw_tx w1"
  using assms
proof (induction evs arbitrary: A w1)
  case (Cons ev evs)
  then obtain w2 where w2: "txlib_event_apply ev w1 e = Some (w2, e)" "rep w2 (ev_apply w ev A)"
      "same_states w w2" "tw_tx w2 = tw_tx w1"
    using apply_step [of Q S ev w A w1 e] by auto
  from Cons.IH [OF _ txs_ok_apply [OF Cons.prems(2)] w2(2,3)] Cons.prems(1) w2(1,4) show ?case by simp
qed simp

text \<open>What the transactions see of their queues and stacks: the shared and the local entries.\<close>

definition seen_queue :: "'k txlib_world \<Rightarrow> txlib_abs \<Rightarrow> pointer \<Rightarrow> pointer list" where
  "seen_queue w A qt = the (ab_queue A (queue_state_of w qt)) @ the (ab_queue A qt)"

definition seen_stack :: "'k txlib_world \<Rightarrow> txlib_abs \<Rightarrow> pointer \<Rightarrow> pointer list" where
  "seen_stack w A st = the (ab_stack A st) @ the (ab_stack A (stack_state_of w st))"

definition seen_list :: "'k txlib_world \<Rightarrow> txlib_abs \<Rightarrow> pointer \<Rightarrow> pointer list" where
  "seen_list w A lt = the (ab_list A (list_state_of w lt))"

lemma apply_seen:
  assumes "ev_ok Q S ev" and "txs_ok w Q S A"
  shows "qt \<in> Q \<Longrightarrow> seen_queue w (ev_apply w ev A) qt = seen_queue w A qt"
    and "st \<in> S \<Longrightarrow> seen_stack w (ev_apply w ev A) st = seen_stack w A st"
    and "ab_list (ev_apply w ev A) = ab_list A"
proof -
  note D = txs_okD [OF assms(2)]
  show "ab_list (ev_apply w ev A) = ab_list A"
    by (cases ev) (auto split: option.split list.split)
  show "seen_queue w (ev_apply w ev A) qt = seen_queue w A qt" if qt: "qt \<in> Q"
  proof (cases ev)
    case (TXLIB_QUEUE_PUSH qt' x)
    then have qt': "qt' \<in> Q" using assms(1) by (simp add: ev_ok_def)
    obtain l g where F: "ab_queue A qt' = Some l" "ab_queue A (queue_state_of w qt') = Some g"
      using D(1) [OF qt'] by blast
    show ?thesis
      using F TXLIB_QUEUE_PUSH D(2) [OF qt qt'] D(2) [OF qt' qt] D(2) [OF qt' qt'] D(3) [OF qt qt']
      by (cases l; cases "qt = qt'") (auto simp: seen_queue_def)
  next
    case (TXLIB_STACK_PUSH st x)
    then show ?thesis by (auto simp: seen_queue_def split: option.split)
  qed simp_all
  show "seen_stack w (ev_apply w ev A) st = seen_stack w A st" if st: "st \<in> S"
  proof (cases ev)
    case (TXLIB_STACK_PUSH st' x)
    then have st': "st' \<in> S" using assms(1) by (simp add: ev_ok_def)
    obtain l g where F: "ab_stack A st' = Some l" "ab_stack A (stack_state_of w st') = Some g"
      using D(4) [OF st'] by blast
    show ?thesis
      using F TXLIB_STACK_PUSH D(5) [OF st st'] D(5) [OF st' st] D(5) [OF st' st'] D(6) [OF st st']
      by (cases "st = st'") (auto simp: seen_stack_def)
  next
    case (TXLIB_QUEUE_PUSH qt x)
    then show ?thesis by (auto simp: seen_stack_def split: option.split list.split)
  qed simp_all
qed

text \<open>The local entries are among the pushed ones, in the same order, so that all of them get applied.\<close>

fun queue_pushes :: "pointer \<Rightarrow> txlib_event list \<Rightarrow> pointer list" where
  "queue_pushes qt [] = []"
| "queue_pushes qt (TXLIB_QUEUE_PUSH qt' x # evs) =
     (if qt' = qt then x # queue_pushes qt evs else queue_pushes qt evs)"
| "queue_pushes qt (ev # evs) = queue_pushes qt evs"

fun stack_pushes :: "pointer \<Rightarrow> txlib_event list \<Rightarrow> pointer list" where
  "stack_pushes st [] = []"
| "stack_pushes st (TXLIB_STACK_PUSH st' x # evs) =
     (if st' = st then x # stack_pushes st evs else stack_pushes st evs)"
| "stack_pushes st (ev # evs) = stack_pushes st evs"

definition pending :: "pointer set \<Rightarrow> pointer set \<Rightarrow> txlib_event list \<Rightarrow> txlib_abs \<Rightarrow> bool" where
  "pending Q S evs A \<longleftrightarrow> (\<forall>qt\<in>Q. subseq (the (ab_queue A qt)) (queue_pushes qt evs)) \<and>
     (\<forall>st\<in>S. subseq (rev (the (ab_stack A st))) (stack_pushes st evs))"

lemma subseq_step: "subseq l (x # ps) \<Longrightarrow> subseq (if l \<noteq> [] \<and> x = hd l then tl l else l) ps"
  by (cases l) (auto split: if_splits)

lemma pending_apply:
  assumes "pending Q S (ev # evs) A" and "ev_ok Q S ev" and "txs_ok w Q S A"
  shows "pending Q S evs (ev_apply w ev A)"
proof -
  note D = txs_okD [OF assms(3)]
  have queue: "subseq (the (ab_queue (ev_apply w ev A) qt)) (queue_pushes qt evs)" if qt: "qt \<in> Q" for qt
  proof (cases ev)
    case (TXLIB_QUEUE_PUSH qt' x)
    then have qt': "qt' \<in> Q" using assms(2) by (simp add: ev_ok_def)
    obtain l g where F: "ab_queue A qt' = Some l" "ab_queue A (queue_state_of w qt') = Some g"
      using D(1) [OF qt'] by blast
    have old: "subseq (the (ab_queue A qt)) (queue_pushes qt (ev # evs))" using assms(1) qt by (simp add: pending_def)
    show ?thesis
    proof (cases "qt = qt'")
      case True
      then show ?thesis using F TXLIB_QUEUE_PUSH old D(2) [OF qt' qt] subseq_step [of l x "queue_pushes qt evs"]
        by (cases l) auto
    next
      case False
      then show ?thesis using F TXLIB_QUEUE_PUSH old D(2) [OF qt' qt] by (cases l) auto
    qed
  next
    case (TXLIB_STACK_PUSH st x)
    then show ?thesis using assms(1) qt by (auto simp: pending_def split: option.split)
  qed (use assms(1) qt in \<open>simp_all add: pending_def\<close>)
  have stack: "subseq (rev (the (ab_stack (ev_apply w ev A) st))) (stack_pushes st evs)" if st: "st \<in> S" for st
  proof (cases ev)
    case (TXLIB_STACK_PUSH st' x)
    then have st': "st' \<in> S" using assms(2) by (simp add: ev_ok_def)
    obtain l g where F: "ab_stack A st' = Some l" "ab_stack A (stack_state_of w st') = Some g"
      using D(4) [OF st'] by blast
    have old: "subseq (rev (the (ab_stack A st))) (stack_pushes st (ev # evs))" using assms(1) st by (simp add: pending_def)
    show ?thesis
    proof (cases "st = st'")
      case True
      have "rev l \<noteq> [] \<and> x = hd (rev l) \<longleftrightarrow> l \<noteq> [] \<and> x = last l" "tl (rev l) = rev (butlast l)"
        using butlast_rev [of "rev l"] by (simp_all add: hd_rev)
      then show ?thesis
        using F TXLIB_STACK_PUSH old D(5) [OF st' st] subseq_step [of "rev l" x "stack_pushes st evs"] True
        by (auto split: if_splits)
    next
      case False
      then show ?thesis using F TXLIB_STACK_PUSH old D(5) [OF st' st] by auto
    qed
  next
    case (TXLIB_QUEUE_PUSH qt x)
    then show ?thesis using assms(1) st by (auto simp: pending_def split: option.split list.split)
  qed (use assms(1) st in \<open>simp_all add: pending_def\<close>)
  show ?thesis using queue stack by (simp add: pending_def)
qed

theorem apply_drains:
  assumes "pending Q S evs A" and "\<forall>ev\<in>set evs. ev_ok Q S ev" and "txs_ok w Q S A"
  shows "let A' = fold (ev_apply w) evs A in
    (\<forall>qt\<in>Q. ab_queue A' qt = Some [] \<and> ab_queue A' (queue_state_of w qt) = Some (seen_queue w A qt)) \<and>
    (\<forall>st\<in>S. ab_stack A' st = Some [] \<and> ab_stack A' (stack_state_of w st) = Some (seen_stack w A st)) \<and>
    ab_list A' = ab_list A"
  using assms
proof (induction evs arbitrary: A)
  case Nil
  have "ab_queue A qt = Some [] \<and> ab_queue A (queue_state_of w qt) = Some (seen_queue w A qt)" if "qt \<in> Q" for qt
    using txs_okD(1) [OF Nil.prems(3) that] Nil.prems(1) that by (auto simp: pending_def seen_queue_def)
  moreover have "ab_stack A st = Some [] \<and> ab_stack A (stack_state_of w st) = Some (seen_stack w A st)"
    if "st \<in> S" for st
  proof -
    have "subseq (rev (the (ab_stack A st))) []" using Nil.prems(1) that by (simp add: pending_def)
    then have "rev (the (ab_stack A st)) = []" by (rule list_emb_Nil2)
    then show ?thesis using txs_okD(4) [OF Nil.prems(3) that] by (auto simp: seen_stack_def)
  qed
  ultimately show ?case by simp
next
  case (Cons ev evs)
  have ev: "ev_ok Q S ev" using Cons.prems(2) by simp
  from Cons.IH [OF pending_apply [OF Cons.prems(1) ev Cons.prems(3)] _ txs_ok_apply [OF Cons.prems(3)]]
    Cons.prems(2) apply_seen [OF ev Cons.prems(3)]
  show ?case by (simp add: Let_def)
qed

end
