(* ===== verification/Txlib_Calls.thy ===== *)
theory Txlib_Calls
  imports Txlib_Events
begin

text \<open>
  Sequences of operations on queues, lists and stacks within one transaction, and what they promise: the
  transaction sees its containers as if the operations had been executed on plain sequences.
\<close>

datatype txlib_call =
    Queue_push pointer pointer
  | Queue_pop pointer
  | List_insert pointer pointer pointer
  | List_erase pointer pointer
  | List_push_front pointer pointer
  | List_push_back pointer pointer
  | List_pop_front pointer
  | List_pop_back pointer
  | Stack_push pointer pointer
  | Stack_pop pointer

fun exec_call :: "'p event_append \<Rightarrow> lock_waits \<Rightarrow> txlib_call \<Rightarrow> ('k, 'p) tx_call" where
  "exec_call push_event wt (Queue_push qt x) = txqueue_tx_exec_push push_event qt x"
| "exec_call push_event wt (Queue_pop qt) = txqueue_tx_exec_pop push_event wt qt"
| "exec_call push_event wt (List_insert lt x p) = txlist_tx_exec_insert push_event wt lt x p"
| "exec_call push_event wt (List_erase lt x) = txlist_tx_exec_erase push_event wt lt x"
| "exec_call push_event wt (List_push_front lt x) = txlist_tx_exec_push_front push_event wt lt x"
| "exec_call push_event wt (List_push_back lt x) = txlist_tx_exec_push_back push_event wt lt x"
| "exec_call push_event wt (List_pop_front lt) = txlist_tx_exec_pop_front push_event wt lt"
| "exec_call push_event wt (List_pop_back lt) = txlist_tx_exec_pop_back push_event wt lt"
| "exec_call push_event wt (Stack_push st x) = txstack_tx_exec_push push_event st x"
| "exec_call push_event wt (Stack_pop st) = txstack_tx_exec_pop push_event wt st"

text \<open>Plain sequences, one for each transaction of a container, and the entries that are in use.\<close>

record txlib_view =
  vw_queue :: "pointer \<Rightarrow> pointer list"
  vw_list :: "pointer \<Rightarrow> pointer list"
  vw_stack :: "pointer \<Rightarrow> pointer list"
  in_queue :: "pointer set"
  in_list :: "pointer set"
  in_stack :: "pointer set"

definition insert_before :: "pointer \<Rightarrow> pointer \<Rightarrow> pointer list \<Rightarrow> pointer list" where
  "insert_before x p xs = takeWhile (\<lambda>y. y \<noteq> p) xs @ x # dropWhile (\<lambda>y. y \<noteq> p) xs"

fun call_view :: "txlib_call \<Rightarrow> txlib_view \<Rightarrow> txlib_view" where
  "call_view (Queue_push qt x) v =
     v\<lparr>vw_queue := (vw_queue v)(qt := vw_queue v qt @ [x]), in_queue := insert x (in_queue v)\<rparr>"
| "call_view (Queue_pop qt) v =
     v\<lparr>vw_queue := (vw_queue v)(qt := tl (vw_queue v qt)), in_queue := in_queue v - {hd (vw_queue v qt)}\<rparr>"
| "call_view (List_insert lt x p) v =
     v\<lparr>vw_list := (vw_list v)(lt := insert_before x p (vw_list v lt)), in_list := insert x (in_list v)\<rparr>"
| "call_view (List_erase lt x) v =
     v\<lparr>vw_list := (vw_list v)(lt := remove1 x (vw_list v lt)), in_list := in_list v - {x}\<rparr>"
| "call_view (List_push_front lt x) v =
     v\<lparr>vw_list := (vw_list v)(lt := x # vw_list v lt), in_list := insert x (in_list v)\<rparr>"
| "call_view (List_push_back lt x) v =
     v\<lparr>vw_list := (vw_list v)(lt := vw_list v lt @ [x]), in_list := insert x (in_list v)\<rparr>"
| "call_view (List_pop_front lt) v =
     v\<lparr>vw_list := (vw_list v)(lt := tl (vw_list v lt)), in_list := in_list v - {hd (vw_list v lt)}\<rparr>"
| "call_view (List_pop_back lt) v =
     v\<lparr>vw_list := (vw_list v)(lt := butlast (vw_list v lt)), in_list := in_list v - {last (vw_list v lt)}\<rparr>"
| "call_view (Stack_push st x) v =
     v\<lparr>vw_stack := (vw_stack v)(st := x # vw_stack v st), in_stack := insert x (in_stack v)\<rparr>"
| "call_view (Stack_pop st) v =
     v\<lparr>vw_stack := (vw_stack v)(st := tl (vw_stack v st)), in_stack := in_stack v - {hd (vw_stack v st)}\<rparr>"

text \<open>The transactions that a thread has acquired, per kind of container.\<close>

record txlib_txs =
  ts_queue :: "pointer set"
  ts_list :: "pointer set"
  ts_stack :: "pointer set"

definition view :: "'k txlib_world \<Rightarrow> txlib_txs \<Rightarrow> txlib_abs \<Rightarrow> txlib_view" where
  "view w T A =
     \<lparr>vw_queue = \<lambda>qt. if qt \<in> ts_queue T then seen_queue w A qt else [],
      vw_list = \<lambda>lt. if lt \<in> ts_list T then seen_list w A lt else [],
      vw_stack = \<lambda>st. if st \<in> ts_stack T then seen_stack w A st else [],
      in_queue = members (ab_queue A), in_list = members (ab_list A), in_stack = members (ab_stack A)\<rparr>"

lemma view_members [simp]:
  "in_queue (view w T A) = members (ab_queue A)"
  "in_list (view w T A) = members (ab_list A)"
  "in_stack (view w T A) = members (ab_stack A)"
  by (simp_all add: view_def)

lemma members_insert: "family_ok F \<Longrightarrow> F q = Some (xs @ ys) \<Longrightarrow> members (F(q \<mapsto> xs @ x # ys)) = insert x (members F)"
  using members_upd [of F q "xs @ ys" "xs @ x # ys"] memberI [of F q "xs @ ys"] by auto

lemma members_remove:
  assumes "family_ok F" and "F q = Some (xs @ x # ys)"
  shows "members (F(q \<mapsto> xs @ ys)) = members F - {x}"
  using members_upd [OF assms, of "xs @ ys"] memberI [of F q "xs @ x # ys"] family_okD(1) [OF assms] assms(2) by auto

text \<open>The ends of the sequences.\<close>

lemmas members_ends = members_insert [where xs = "[]", simplified] members_insert [where ys = "[]", simplified]
  members_remove [where xs = "[]", simplified] members_remove [where ys = "[]", simplified]

definition all_txs_ok :: "'k txlib_world \<Rightarrow> txlib_txs \<Rightarrow> txlib_abs \<Rightarrow> bool" where
  "all_txs_ok w T A \<longleftrightarrow> txs_ok w (ts_queue T) (ts_stack T) A \<and>
     (\<forall>lt\<in>ts_list T. ab_list A (list_state_of w lt) \<noteq> None) \<and> inj_on (list_state_of w) (ts_list T)"

text \<open>
  What the interface asks of its callers: an entry that is put in is in no container, and entries are
  taken only from containers that have them.
\<close>

definition fresh :: "pointer \<Rightarrow> family \<Rightarrow> bool" where
  "fresh x F \<longleftrightarrow> x \<noteq> 0 \<and> x \<notin> members F"

fun call_ok :: "'k txlib_world \<Rightarrow> txlib_txs \<Rightarrow> txlib_abs \<Rightarrow> txlib_call \<Rightarrow> bool" where
  "call_ok w T A (Queue_push qt x) \<longleftrightarrow> qt \<in> ts_queue T \<and> fresh x (ab_queue A)"
| "call_ok w T A (Queue_pop qt) \<longleftrightarrow> qt \<in> ts_queue T \<and> seen_queue w A qt \<noteq> []"
| "call_ok w T A (List_insert lt x p) \<longleftrightarrow> lt \<in> ts_list T \<and> fresh x (ab_list A) \<and>
     (p = list_state_of w lt \<or> p \<in> set (seen_list w A lt))"
| "call_ok w T A (List_erase lt x) \<longleftrightarrow> lt \<in> ts_list T \<and> x \<in> set (seen_list w A lt)"
| "call_ok w T A (List_push_front lt x) \<longleftrightarrow> lt \<in> ts_list T \<and> fresh x (ab_list A)"
| "call_ok w T A (List_push_back lt x) \<longleftrightarrow> lt \<in> ts_list T \<and> fresh x (ab_list A)"
| "call_ok w T A (List_pop_front lt) \<longleftrightarrow> lt \<in> ts_list T \<and> seen_list w A lt \<noteq> []"
| "call_ok w T A (List_pop_back lt) \<longleftrightarrow> lt \<in> ts_list T \<and> seen_list w A lt \<noteq> []"
| "call_ok w T A (Stack_push st x) \<longleftrightarrow> st \<in> ts_stack T \<and> fresh x (ab_stack A)"
| "call_ok w T A (Stack_pop st) \<longleftrightarrow> st \<in> ts_stack T \<and> seen_stack w A st \<noteq> []"

text \<open>Appending an event to picotm's log succeeds in the log's state \<open>p\<close>.\<close>

definition append_succeeds :: "'p event_append \<Rightarrow> 'p \<Rightarrow> bool" where
  "append_succeeds push_event p \<longleftrightarrow>
     (\<forall>m h t e. \<not> picotm_error_is_set e \<longrightarrow> \<not> picotm_error_is_set (snd (push_event m h t p e)))"

text \<open>Logging the event of the given number of a transaction.\<close>

definition logged :: "'p event_append \<Rightarrow> txlib_tx \<Rightarrow> 'p \<Rightarrow> 'p \<Rightarrow> picotm_error \<Rightarrow> bool" where
  "logged push_event tx p p' e' \<longleftrightarrow>
     (\<exists>e. \<not> picotm_error_is_set e \<and> push_event (tl_module tx) 0 (of_nat (length (tl_event tx))) p e = (p', e'))"

text \<open>
  The result of a call: with an error nothing has happened but for locks; otherwise an event has been
  logged and executed.
\<close>

definition call_result ::
  "'p event_append \<Rightarrow> 'p \<Rightarrow> 'k txlib_world \<Rightarrow> txlib_txs \<Rightarrow> txlib_abs \<Rightarrow> txlib_call \<Rightarrow>
   'k txlib_world \<Rightarrow> 'p \<Rightarrow> picotm_error \<Rightarrow> bool"
where
  "call_result push_event p w T A call w' p' e' \<longleftrightarrow> same_states w w' \<and>
     (if picotm_error_is_set e' then rep w' A \<and> tw_tx w' = tw_tx w \<and> p' = p
      else logged push_event (tw_tx w) p p' e' \<and>
        (\<exists>ev A'. tw_tx w' = (tw_tx w)\<lparr>tl_event := tl_event (tw_tx w) @ [ev]\<rparr> \<and> rep w' A' \<and>
        ev_step w A ev A' \<and> ev_ok (ts_queue T) (ts_stack T) ev \<and> view w T A' = call_view call (view w T A)))"

subsection \<open>Locks and events\<close>

text \<open>Locking touches nothing but the lock and the transaction's view of it.\<close>

definition only_locks :: "'k txlib_world \<Rightarrow> 'k txlib_world \<Rightarrow> bool" where
  "only_locks w w' \<longleftrightarrow> same_states w w' \<and> tw_queue w' = tw_queue w \<and> tw_list w' = tw_list w \<and>
     tw_stack w' = tw_stack w \<and> tw_tx w' = tw_tx w"

lemma only_locks_refl [simp]: "only_locks w w"
  by (simp add: only_locks_def)

lemma only_locks_trans: "only_locks w1 w2 \<Longrightarrow> only_locks w2 w3 \<Longrightarrow> only_locks w1 w3"
  by (auto simp: only_locks_def dest: same_states_trans)

lemma only_locks_rep: "only_locks w w' \<Longrightarrow> rep w' A = rep w A"
  by (simp add: only_locks_def rep_def)

lemma queue_rdlock_cases:
  obtains w' e' where "txqueue_tx_try_rdlock wt self w e = Some (w', e')" and "only_locks w w'"
proof -
  let ?tx = "tw_queue_tx w self"
  obtain rw l e' where "picotm_rwstate_try_rdlock (lw_wait wt) (lw_sleep wt) (qt_queue_state ?tx) (qt_state ?tx)
      (tw_lock w (qt_queue_state ?tx)) e = Some (rw, l, e')" using rwstate_try_lock_total(1) by (metis prod_cases3)
  then show thesis using that
    by (auto simp: txqueue_tx_try_rdlock_def only_locks_def same_states_def queue_state_of_def
        list_state_of_def stack_state_of_def fun_eq_iff Let_def)
qed

lemma queue_wrlock_cases:
  obtains w' e' where "txqueue_tx_try_wrlock wt self w e = Some (w', e')" and "only_locks w w'"
proof -
  let ?tx = "tw_queue_tx w self"
  obtain rw l e' where "picotm_rwstate_try_wrlock (lw_wait wt) (lw_sleep wt) (qt_queue_state ?tx) (qt_state ?tx)
      (tw_lock w (qt_queue_state ?tx)) e = Some (rw, l, e')" using rwstate_try_lock_total(2) by (metis prod_cases3)
  then show thesis using that
    by (auto simp: txqueue_tx_try_wrlock_def only_locks_def same_states_def queue_state_of_def
        list_state_of_def stack_state_of_def fun_eq_iff Let_def)
qed

lemma list_lock_cases:
  obtains w' e' where "txlist_tx_try_wrlock wt self w e = Some (w', e')" and "only_locks w w'"
proof -
  let ?tx = "tw_list_tx w self"
  obtain rw l e' where "picotm_rwstate_try_wrlock (lw_wait wt) (lw_sleep wt) (lt_list_state ?tx) (lt_state ?tx)
      (tw_lock w (lt_list_state ?tx)) e = Some (rw, l, e')" using rwstate_try_lock_total(2) by (metis prod_cases3)
  then show thesis using that
    by (auto simp: txlist_tx_try_wrlock_def only_locks_def same_states_def queue_state_of_def
        list_state_of_def stack_state_of_def fun_eq_iff Let_def)
qed

lemma stack_lock_cases:
  obtains w' e' where "txstack_tx_try_wrlock wt self w e = Some (w', e')" and "only_locks w w'"
proof -
  let ?tx = "tw_stack_tx w self"
  obtain rw l e' where "picotm_rwstate_try_wrlock (lw_wait wt) (lw_sleep wt) (st_stack_state ?tx) (st_state ?tx)
      (tw_lock w (st_stack_state ?tx)) e = Some (rw, l, e')" using rwstate_try_lock_total(2) by (metis prod_cases3)
  then show thesis using that
    by (auto simp: txstack_tx_try_wrlock_def only_locks_def same_states_def queue_state_of_def
        list_state_of_def stack_state_of_def fun_eq_iff Let_def)
qed

text \<open>One event: the table grows, the operation is executed, and the event is logged.\<close>

lemma append_one:
  assumes "append_succeeds push_event p" and "\<not> picotm_error_is_set e"
    and "\<And>w1. same_states w w1 \<Longrightarrow> tw_queue w1 = tw_queue w \<Longrightarrow> tw_list w1 = tw_list w \<Longrightarrow>
      tw_stack w1 = tw_stack w \<Longrightarrow> tw_tx w1 = tw_tx w \<Longrightarrow>
      \<exists>w2. init d1 d2 d3 w1 e = Some (ev, w2, e) \<and> P w2 \<and> tw_tx w2 = tw_tx w"
    and "\<And>w2. P w2 \<Longrightarrow> P (w2\<lparr>tw_tx := (tw_tx w2)\<lparr>tl_event := tl_event (tw_tx w2) @ [ev]\<rparr>\<rparr>)"
  shows "\<exists>w' p' e'. txlib_tx_append_events3 push_event 1 init d1 d2 d3 w p e = Some (w', p', e') \<and>
    (if picotm_error_is_set e' then only_locks w w' \<and> p' = p
     else logged push_event (tw_tx w) p p' e' \<and> P w' \<and> tw_tx w' = (tw_tx w)\<lparr>tl_event := tl_event (tw_tx w) @ [ev]\<rparr>)"
proof (cases "tw_resize w (tw_n w)")
  case (Some n)
  then show ?thesis
    by (simp add: txlib_tx_append_events3_def only_locks_def picotm_error_is_set_def picotm_error_set_errno_def)
next
  case None
  obtain w2 where w2: "init d1 d2 d3 (w\<lparr>tw_n := tw_n w + 1\<rparr>) e = Some (ev, w2, e)" "P w2" "tw_tx w2 = tw_tx w"
    using assms(3) [of "w\<lparr>tw_n := tw_n w + 1\<rparr>"] by auto
  obtain p' e' where ap: "push_event (tl_module (tw_tx w2)) 0 (of_nat (length (tl_event (tw_tx w2)))) p e = (p', e')"
    by fastforce
  then have ok: "\<not> picotm_error_is_set e'" using assms(1,2) unfolding append_succeeds_def by (metis snd_conv)
  have "logged push_event (tw_tx w) p p' e'" using ap w2(3) assms(2) by (auto simp: logged_def)
  with ok ap w2 assms(2) assms(4) [OF w2(2)] None show ?thesis
    by (simp add: txlib_tx_append_events3_def numeral_eq_Suc)
qed

subsection \<open>The calls\<close>

lemma rep_tx [simp]: "rep (w\<lparr>tw_tx := t\<rparr>) A = rep w A"
  by (simp add: rep_def)

text \<open>A call that has taken its lock and sets up one event.\<close>

lemma event_result:
  assumes "append_succeeds push_event p" and "\<not> picotm_error_is_set e" and "only_locks w0 w" and "rep w A"
    and init: "\<And>w1. same_states w w1 \<Longrightarrow> tw_queue w1 = tw_queue w \<Longrightarrow> tw_list w1 = tw_list w \<Longrightarrow>
      tw_stack w1 = tw_stack w \<Longrightarrow> tw_tx w1 = tw_tx w \<Longrightarrow>
      \<exists>w2. init d1 d2 d3 w1 e = Some (ev, w2, e) \<and> rep w2 A' \<and> same_states w w2 \<and> tw_tx w2 = tw_tx w"
    and "ev_step w0 A ev A'" and "ev_ok (ts_queue T) (ts_stack T) ev" and "view w0 T A' = call_view call (view w0 T A)"
  shows "\<exists>w' p' e'. txlib_tx_append_events3 push_event 1 init d1 d2 d3 w p e = Some (w', p', e') \<and>
    call_result push_event p w0 T A call w' p' e'"
proof -
  have "\<exists>w' p' e'. txlib_tx_append_events3 push_event 1 init d1 d2 d3 w p e = Some (w', p', e') \<and>
    (if picotm_error_is_set e' then only_locks w w' \<and> p' = p
     else logged push_event (tw_tx w) p p' e' \<and> (rep w' A' \<and> same_states w w') \<and> tw_tx w' = (tw_tx w)\<lparr>tl_event := tl_event (tw_tx w) @ [ev]\<rparr>)"
    by (rule append_one [OF assms(1,2)]) (use init in auto)
  then obtain w' p' e' where r: "txlib_tx_append_events3 push_event 1 init d1 d2 d3 w p e = Some (w', p', e')"
      "if picotm_error_is_set e' then only_locks w w' \<and> p' = p
       else logged push_event (tw_tx w) p p' e' \<and> (rep w' A' \<and> same_states w w') \<and> tw_tx w' = (tw_tx w)\<lparr>tl_event := tl_event (tw_tx w) @ [ev]\<rparr>"
    by blast
  have "call_result push_event p w0 T A call w' p' e'"
  proof (cases "picotm_error_is_set e'")
    case True
    then show ?thesis using r(2) assms(3,4) only_locks_trans [OF assms(3)] only_locks_rep [of w w' A]
      by (auto simp: call_result_def only_locks_def)
  next
    case False
    then show ?thesis using r(2) assms(3,6-8) same_states_trans [of w0 w w']
      by (auto simp: call_result_def only_locks_def)
  qed
  with r(1) show ?thesis by blast
qed

lemma lock_error_result:
  assumes "only_locks w0 w" and "rep w0 A" and "picotm_error_is_set e"
  shows "call_result push_event p w0 T A call w p e"
  using assms only_locks_rep [OF assms(1), of A] by (simp add: call_result_def only_locks_def)

text \<open>What an operation on one container shows of the others.\<close>

lemma view_queue_upd:
  assumes "all_txs_ok w T A" and "qt \<in> ts_queue T"
  shows "view w T (A\<lparr>ab_queue := (ab_queue A)(qt \<mapsto> l)\<rparr>) =
      (view w T A)\<lparr>vw_queue := (vw_queue (view w T A))(qt := the (ab_queue A (queue_state_of w qt)) @ l),
        in_queue := members ((ab_queue A)(qt \<mapsto> l))\<rparr>"
    and "view w T (A\<lparr>ab_queue := (ab_queue A)(queue_state_of w qt \<mapsto> g)\<rparr>) =
      (view w T A)\<lparr>vw_queue := (vw_queue (view w T A))(qt := g @ the (ab_queue A qt)),
        in_queue := members ((ab_queue A)(queue_state_of w qt \<mapsto> g))\<rparr>"
proof -
  have ok: "txs_ok w (ts_queue T) (ts_stack T) A" using assms(1) by (simp add: all_txs_ok_def)
  note D = txs_okD(2,3) [OF ok]
  show "view w T (A\<lparr>ab_queue := (ab_queue A)(qt \<mapsto> l)\<rparr>) =
      (view w T A)\<lparr>vw_queue := (vw_queue (view w T A))(qt := the (ab_queue A (queue_state_of w qt)) @ l),
        in_queue := members ((ab_queue A)(qt \<mapsto> l))\<rparr>"
    using assms(2) D(1) [OF _ assms(2)]
    by (auto simp: view_def seen_queue_def seen_list_def seen_stack_def fun_eq_iff)
  show "view w T (A\<lparr>ab_queue := (ab_queue A)(queue_state_of w qt \<mapsto> g)\<rparr>) =
      (view w T A)\<lparr>vw_queue := (vw_queue (view w T A))(qt := g @ the (ab_queue A qt)),
        in_queue := members ((ab_queue A)(queue_state_of w qt \<mapsto> g))\<rparr>"
    using assms(2) D(1) [OF assms(2)] D(1) [OF _ assms(2)] D(1) [OF assms(2) assms(2), THEN not_sym] D(2) [OF _ assms(2)]
    by (auto simp: view_def seen_queue_def seen_list_def seen_stack_def fun_eq_iff)
qed

lemma view_stack_upd:
  assumes "all_txs_ok w T A" and "st \<in> ts_stack T"
  shows "view w T (A\<lparr>ab_stack := (ab_stack A)(st \<mapsto> l)\<rparr>) =
      (view w T A)\<lparr>vw_stack := (vw_stack (view w T A))(st := l @ the (ab_stack A (stack_state_of w st))),
        in_stack := members ((ab_stack A)(st \<mapsto> l))\<rparr>"
    and "view w T (A\<lparr>ab_stack := (ab_stack A)(stack_state_of w st \<mapsto> g)\<rparr>) =
      (view w T A)\<lparr>vw_stack := (vw_stack (view w T A))(st := the (ab_stack A st) @ g),
        in_stack := members ((ab_stack A)(stack_state_of w st \<mapsto> g))\<rparr>"
proof -
  have ok: "txs_ok w (ts_queue T) (ts_stack T) A" using assms(1) by (simp add: all_txs_ok_def)
  note D = txs_okD(5,6) [OF ok]
  show "view w T (A\<lparr>ab_stack := (ab_stack A)(st \<mapsto> l)\<rparr>) =
      (view w T A)\<lparr>vw_stack := (vw_stack (view w T A))(st := l @ the (ab_stack A (stack_state_of w st))),
        in_stack := members ((ab_stack A)(st \<mapsto> l))\<rparr>"
    using assms(2) D(1) [OF _ assms(2)]
    by (auto simp: view_def seen_queue_def seen_list_def seen_stack_def fun_eq_iff)
  show "view w T (A\<lparr>ab_stack := (ab_stack A)(stack_state_of w st \<mapsto> g)\<rparr>) =
      (view w T A)\<lparr>vw_stack := (vw_stack (view w T A))(st := the (ab_stack A st) @ g),
        in_stack := members ((ab_stack A)(stack_state_of w st \<mapsto> g))\<rparr>"
    using assms(2) D(1) [OF assms(2)] D(1) [OF _ assms(2)] D(1) [OF assms(2) assms(2), THEN not_sym] D(2) [OF _ assms(2)]
    by (auto simp: view_def seen_queue_def seen_list_def seen_stack_def fun_eq_iff)
qed

lemma view_list_upd:
  assumes "all_txs_ok w T A" and "lt \<in> ts_list T"
  shows "view w T (A\<lparr>ab_list := (ab_list A)(list_state_of w lt \<mapsto> xs)\<rparr>) =
      (view w T A)\<lparr>vw_list := (vw_list (view w T A))(lt := xs),
        in_list := members ((ab_list A)(list_state_of w lt \<mapsto> xs))\<rparr>"
proof -
  have "inj_on (list_state_of w) (ts_list T)" using assms(1) by (simp add: all_txs_ok_def)
  note inj = inj_on_eq_iff [OF this]
  show ?thesis
    using assms(2) inj [OF _ assms(2)]
    by (auto simp: view_def seen_queue_def seen_list_def seen_stack_def fun_eq_iff)
qed

lemmas event_defs = txlib_tx_append_events2_def txlib_tx_append_events1_def init2_def init1_def

lemma queue_push_result:
  assumes "append_succeeds push_event p" and "\<not> picotm_error_is_set e" and "rep w A" and "all_txs_ok w T A"
    and "call_ok w T A (Queue_push qt x)"
  shows "\<exists>w' p' e'. exec_call push_event wt (Queue_push qt x) w p e = Some (w', p', e') \<and>
    call_result push_event p w T A (Queue_push qt x) w' p' e'"
proof -
  have txs: "txs_ok w (ts_queue T) (ts_stack T) A" and qt: "qt \<in> ts_queue T" and x: "x \<noteq> 0" "x \<notin> members (ab_queue A)"
    using assms(4,5) by (auto simp: all_txs_ok_def fresh_def)
  obtain l g where F: "ab_queue A qt = Some l" "ab_queue A (queue_state_of w qt) = Some g"
    using txs_okD(1) [OF txs qt] by blast
  have "x \<noteq> qt" using x memberI [of "ab_queue A" qt l qt] F by auto
  let ?A = "A\<lparr>ab_queue := (ab_queue A)(qt \<mapsto> l @ [x])\<rparr>"
  have rings: "rings (txqueue_entry_insert x qt (tw_queue w)) ((ab_queue A)(qt \<mapsto> l @ [x]))"
    using queue_entries.push_back [OF _ F(1) x] assms(3) by (simp add: rep_def)
  show ?thesis unfolding exec_call.simps txqueue_tx_exec_push_def event_defs
  proof (rule event_result [OF assms(1,2) only_locks_refl assms(3)])
    show "ev_step w A (TXLIB_QUEUE_PUSH qt x) ?A" by (rule ev_step.queue_push [OF F(1) x])
    show "ev_ok (ts_queue T) (ts_stack T) (TXLIB_QUEUE_PUSH qt x)" using qt \<open>x \<noteq> qt\<close> by (simp add: ev_ok_def)
    show "view w T ?A = call_view (Queue_push qt x) (view w T A)"
      using view_queue_upd(1) [OF assms(4) qt, of "l @ [x]"] F qt
        members_ends(2) [OF families_ok(1) [OF assms(3)] F(1), of x] by (simp add: view_def seen_queue_def)
    fix w1 assume "same_states w w1" "tw_queue w1 = tw_queue w" "tw_list w1 = tw_list w"
      "tw_stack w1 = tw_stack w" "tw_tx w1 = tw_tx w"
    then show "\<exists>w2. exec_queue_push qt x w1 e = Some (TXLIB_QUEUE_PUSH qt x, w2, e) \<and>
        rep w2 ?A \<and> same_states w w2 \<and> tw_tx w2 = tw_tx w"
      using rings assms(3) by (simp add: exec_queue_push_def queue_local_end_def rep_def)
  qed
qed

lemma queue_pop_event:
  assumes "rep w A" and "all_txs_ok w T A" and "call_ok w T A (Queue_pop qt)"
    and "same_states w w1" and "tw_queue w1 = tw_queue w" and "tw_list w1 = tw_list w"
    and "tw_stack w1 = tw_stack w" and "tw_tx w1 = tw_tx w"
    and b: "b = txqueue_state_is_empty (tw_queue w) (queue_state_of w qt)"
  obtains ev A' where "\<exists>w2. exec_queue_pop qt b w1 e = Some (ev, w2, e) \<and> rep w2 A' \<and> same_states w w2 \<and> tw_tx w2 = tw_tx w"
    and "ev_step w A ev A'" and "ev_ok (ts_queue T) (ts_stack T) ev" and "view w T A' = call_view (Queue_pop qt) (view w T A)"
    and "ev = TXLIB_QUEUE_POP qt (hd (seen_queue w A qt)) b"
    and "A' = A\<lparr>ab_queue := (ab_queue A)((if b then qt else queue_state_of w qt) \<mapsto>
       tl (the (ab_queue A (if b then qt else queue_state_of w qt))))\<rparr>"
proof -
  have txs: "txs_ok w (ts_queue T) (ts_stack T) A" and qt: "qt \<in> ts_queue T" and ne: "seen_queue w A qt \<noteq> []"
    using assms(2,3) by (auto simp: all_txs_ok_def)
  obtain l g where F: "ab_queue A qt = Some l" "ab_queue A (queue_state_of w qt) = Some g"
    using txs_okD(1) [OF txs qt] by blast
  have h: "rings (tw_queue w) (ab_queue A)" using assms(1) by (simp add: rep_def)
  have b: "b \<longleftrightarrow> g = []" using queue_state_facts(4) [OF h F(2)] b by simp
  show thesis
  proof (cases "g = []")
    case True
    then obtain x l' where l: "l = x # l'" using ne F by (cases l) (auto simp: seen_queue_def)
    let ?A = "A\<lparr>ab_queue := (ab_queue A)(qt \<mapsto> l')\<rparr>"
    have "rings (txqueue_entry_erase (rh_next (tw_queue w) qt) (tw_queue w)) ((ab_queue A)(qt \<mapsto> l'))"
      using queue_entries.pop_front [OF h, of qt x l'] F l by simp
    moreover have front: "rh_next (tw_queue w) qt = x" using ring_ends(1) [OF h F(1)] l by simp
    ultimately have ex: "\<exists>w2. exec_queue_pop qt b w1 e = Some (TXLIB_QUEUE_POP qt x True, w2, e) \<and> rep w2 ?A \<and>
        same_states w w2 \<and> tw_tx w2 = tw_tx w"
      using assms True b
      by (simp add: exec_queue_pop_def queue_local_front_def queue_local_begin_def txqueue_entry_next_def rep_def)
    show thesis
    proof (rule that [OF ex])
      show "ev_step w A (TXLIB_QUEUE_POP qt x True) ?A" by (rule ev_step.queue_pop_local) (use F l True in simp_all)
      show "view w T ?A = call_view (Queue_pop qt) (view w T A)"
        using view_queue_upd(1) [OF assms(2) qt, of l'] F l True qt
          members_ends(3) [OF families_ok(1) [OF assms(1)], of qt x l'] by (simp add: view_def seen_queue_def)
    qed (use qt True b F l in \<open>simp_all add: ev_ok_def seen_queue_def\<close>)
  next
    case False
    then obtain x g' where g: "g = x # g'" by (cases g) auto
    let ?q = "queue_state_of w qt"
    let ?A = "A\<lparr>ab_queue := (ab_queue A)(?q \<mapsto> g')\<rparr>"
    have "rings (txqueue_entry_erase (rh_next (tw_queue w) ?q) (tw_queue w)) ((ab_queue A)(?q \<mapsto> g'))"
      using queue_entries.pop_front [OF h, of ?q x g'] F g by simp
    moreover have front: "rh_next (tw_queue w) ?q = x" using ring_ends(1) [OF h F(2)] g by simp
    ultimately have ex: "\<exists>w2. exec_queue_pop qt b w1 e = Some (TXLIB_QUEUE_POP qt x False, w2, e) \<and> rep w2 ?A \<and>
        same_states w w2 \<and> tw_tx w2 = tw_tx w"
      using assms False b same_statesD(1) [OF assms(4)]
      by (simp add: exec_queue_pop_def txqueue_state_pop_front_def txqueue_state_front_def txqueue_state_begin_def
          txqueue_entry_next_def rep_def)
    show thesis
    proof (rule that [OF ex])
      show "ev_step w A (TXLIB_QUEUE_POP qt x False) ?A" by (rule ev_step.queue_pop) (use F g in simp)
      show "view w T ?A = call_view (Queue_pop qt) (view w T A)"
        using view_queue_upd(2) [OF assms(2) qt, of g'] F g qt
          members_ends(3) [OF families_ok(1) [OF assms(1)], of ?q x g'] by (simp add: view_def seen_queue_def)
    qed (use qt False b F g in \<open>simp_all add: ev_ok_def seen_queue_def\<close>)
  qed
qed

lemma queue_pop_result:
  assumes "append_succeeds push_event p" and "\<not> picotm_error_is_set e" and "rep w A" and "all_txs_ok w T A"
    and "call_ok w T A (Queue_pop qt)"
  shows "\<exists>w' p' e'. exec_call push_event wt (Queue_pop qt) w p e = Some (w', p', e') \<and>
    call_result push_event p w T A (Queue_pop qt) w' p' e'"
proof -
  let ?b = "txqueue_state_is_empty (tw_queue w) (queue_state_of w qt)"
  obtain w1 e1 where rd: "txqueue_tx_try_rdlock wt qt w e = Some (w1, e1)" "only_locks w w1"
    using queue_rdlock_cases by blast
  have b: "txqueue_state_is_empty (tw_queue w1) (queue_state_of w1 qt) = ?b"
    using rd(2) same_statesD(1) [of w w1] by (simp add: only_locks_def)
  show ?thesis
  proof (cases "picotm_error_is_set e1")
    case True
    then show ?thesis using rd lock_error_result [OF rd(2) assms(3) True] by (simp add: txqueue_tx_exec_pop_def)
  next
    case ok1: False
    obtain w2 e2 where wr: "(if ?b then Some (w1, e1) else txqueue_tx_try_wrlock wt qt w1 e1) = Some (w2, e2)"
        "only_locks w w2"
    proof (cases ?b)
      case True
      then show thesis using that rd(2) by simp
    next
      case False
      obtain w2 e2 where "txqueue_tx_try_wrlock wt qt w1 e1 = Some (w2, e2)" "only_locks w1 w2"
        using queue_wrlock_cases by blast
      then show thesis using that False only_locks_trans [OF rd(2)] by simp
    qed
    show ?thesis
    proof (cases "picotm_error_is_set e2")
      case True
      then show ?thesis using rd b ok1 wr lock_error_result [OF wr(2) assms(3) True]
        by (simp add: txqueue_tx_exec_pop_def Let_def)
    next
      case ok2: False
      have same: "same_states w w2" "tw_queue w2 = tw_queue w" "tw_list w2 = tw_list w"
          "tw_stack w2 = tw_stack w" "tw_tx w2 = tw_tx w" using wr(2) by (simp_all add: only_locks_def)
      have "\<exists>w' p' e'. txlib_tx_append_events2 push_event 1 exec_queue_pop qt ?b w2 p e2 = Some (w', p', e') \<and>
          call_result push_event p w T A (Queue_pop qt) w' p' e'"
      proof (rule queue_pop_event [OF assms(3-5) same, of ?b e2])
        fix ev A'
        assume ev: "ev_step w A ev A'" "ev_ok (ts_queue T) (ts_stack T) ev"
            "view w T A' = call_view (Queue_pop qt) (view w T A)"
            "ev = TXLIB_QUEUE_POP qt (hd (seen_queue w A qt)) ?b"
            "A' = A\<lparr>ab_queue := (ab_queue A)((if ?b then qt else queue_state_of w qt) \<mapsto>
               tl (the (ab_queue A (if ?b then qt else queue_state_of w qt))))\<rparr>"
        show ?thesis unfolding event_defs
        proof (rule event_result [OF assms(1) ok2 wr(2) _ _ ev(1-3)])
          show "rep w2 A" using only_locks_rep [OF wr(2)] assms(3) by blast
          fix w3 assume w3: "same_states w2 w3" "tw_queue w3 = tw_queue w2" "tw_list w3 = tw_list w2"
            "tw_stack w3 = tw_stack w2" "tw_tx w3 = tw_tx w2"
          have "same_states w w3" by (rule same_states_trans [OF same(1) w3(1)])
          from queue_pop_event [OF assms(3-5) this, of ?b e2] ev(4,5) w3(2-5) same
          have "\<exists>w4. exec_queue_pop qt ?b w3 e2 = Some (ev, w4, e2) \<and> rep w4 A' \<and> same_states w w4 \<and> tw_tx w4 = tw_tx w"
            by (metis (no_types, lifting))
          then show "\<exists>w4. exec_queue_pop qt ?b w3 e2 = Some (ev, w4, e2) \<and> rep w4 A' \<and>
              same_states w2 w4 \<and> tw_tx w4 = tw_tx w2"
            using same by (auto simp: same_states_def)
        qed
      qed simp
      then show ?thesis using rd b ok1 wr ok2
        by (simp add: txqueue_tx_exec_pop_def Let_def)
    qed
  qed
qed

text \<open>A call that takes the lock of its container and then runs one event.\<close>

lemma locked_result:
  assumes "append_succeeds push_event p" and "rep w A" and "only_locks w w1"
    and init: "\<And>w2. only_locks w w2 \<Longrightarrow>
      \<exists>w3. init d1 d2 d3 w2 e1 = Some (ev, w3, e1) \<and> rep w3 A' \<and> same_states w w3 \<and> tw_tx w3 = tw_tx w"
    and "ev_step w A ev A'" and "ev_ok (ts_queue T) (ts_stack T) ev" and "view w T A' = call_view call (view w T A)"
  shows "\<exists>w' p' e'. (if picotm_error_is_set e1 then Some (w1, p, e1)
      else txlib_tx_append_events3 push_event 1 init d1 d2 d3 w1 p e1) = Some (w', p', e') \<and>
    call_result push_event p w T A call w' p' e'"
proof (cases "picotm_error_is_set e1")
  case True
  then show ?thesis using lock_error_result [OF assms(3,2) True] by simp
next
  case False
  have "\<exists>w' p' e'. txlib_tx_append_events3 push_event 1 init d1 d2 d3 w1 p e1 = Some (w', p', e') \<and>
      call_result push_event p w T A call w' p' e'"
  proof (rule event_result [OF assms(1) False assms(3) _ _ assms(5-7)])
    show "rep w1 A" using only_locks_rep [OF assms(3)] assms(2) by blast
    fix w2
    assume "same_states w1 w2" "tw_queue w2 = tw_queue w1" "tw_list w2 = tw_list w1"
      "tw_stack w2 = tw_stack w1" "tw_tx w2 = tw_tx w1"
    then have "only_locks w1 w2" by (simp add: only_locks_def)
    from init [OF only_locks_trans [OF assms(3) this]] assms(3)
    show "\<exists>w3. init d1 d2 d3 w2 e1 = Some (ev, w3, e1) \<and> rep w3 A' \<and> same_states w1 w3 \<and> tw_tx w3 = tw_tx w1"
      by (auto simp: only_locks_def same_states_def)
  qed
  with False show ?thesis by simp
qed

lemma list_txs:
  assumes "all_txs_ok w T A" and "lt \<in> ts_list T"
  obtains xs where "ab_list A (list_state_of w lt) = Some xs" and "seen_list w A lt = xs"
    and "vw_list (view w T A) lt = xs"
  using assms by (auto simp: all_txs_ok_def seen_list_def view_def)

text \<open>Inserting an entry into a list.\<close>

lemma list_insert_event:
  assumes "rep w A" and "all_txs_ok w T A" and "lt \<in> ts_list T" and "fresh x (ab_list A)"
    and "seen_list w A lt = xs @ ys"
  defines "A' \<equiv> A\<lparr>ab_list := (ab_list A)(list_state_of w lt \<mapsto> xs @ x # ys)\<rparr>"
  shows "ev_step w A (TXLIB_LIST_INSERT lt x) A'" and "ev_ok Q S (TXLIB_LIST_INSERT lt x)"
    and "view w T A' = (view w T A)\<lparr>vw_list := (vw_list (view w T A))(lt := xs @ x # ys),
      in_list := insert x (members (ab_list A))\<rparr>"
    and "only_locks w w2 \<Longrightarrow> \<exists>w3. exec_list_insert lt x (hd (ys @ [list_state_of w lt])) w2 e =
      Some (TXLIB_LIST_INSERT lt x, w3, e) \<and> rep w3 A' \<and> same_states w w3 \<and> tw_tx w3 = tw_tx w"
proof -
  have F: "ab_list A (list_state_of w lt) = Some (xs @ ys)"
    using list_txs [OF assms(2,3)] assms(5) by metis
  have x: "x \<noteq> 0" "x \<notin> members (ab_list A)" using assms(4) by (simp_all add: fresh_def)
  show "ev_step w A (TXLIB_LIST_INSERT lt x) A'" unfolding A'_def by (rule ev_step.list_insert [OF F x])
  show "ev_ok Q S (TXLIB_LIST_INSERT lt x)" by (simp add: ev_ok_def)
  show "view w T A' = (view w T A)\<lparr>vw_list := (vw_list (view w T A))(lt := xs @ x # ys),
      in_list := insert x (members (ab_list A))\<rparr>"
    using view_list_upd [OF assms(2,3), of "xs @ x # ys"] members_insert [OF families_ok(2) [OF assms(1)] F, of x]
    by (simp add: A'_def)
  assume w2: "only_locks w w2"
  have "rings (txlist_entry_insert x (hd (ys @ [list_state_of w lt])) (tw_list w))
      ((ab_list A)(list_state_of w lt \<mapsto> xs @ x # ys))"
    using list_entries.insert_rings [OF _ F x] assms(1) by (simp add: rep_def)
  then show "\<exists>w3. exec_list_insert lt x (hd (ys @ [list_state_of w lt])) w2 e =
      Some (TXLIB_LIST_INSERT lt x, w3, e) \<and> rep w3 A' \<and> same_states w w3 \<and> tw_tx w3 = tw_tx w"
    using w2 assms(1) by (simp add: exec_list_insert_def txlist_state_insert_def A'_def rep_def only_locks_def)
qed

text \<open>Erasing an entry from a list.\<close>

lemma list_erase_event:
  assumes "rep w A" and "all_txs_ok w T A" and "lt \<in> ts_list T" and "seen_list w A lt = xs @ x # ys"
  defines "A' \<equiv> A\<lparr>ab_list := (ab_list A)(list_state_of w lt \<mapsto> xs @ ys)\<rparr>"
    and "ev \<equiv> TXLIB_LIST_ERASE lt x (hd (ys @ [list_state_of w lt]))"
  shows "ev_step w A ev A'" and "ev_ok Q S ev"
    and "view w T A' = (view w T A)\<lparr>vw_list := (vw_list (view w T A))(lt := xs @ ys),
      in_list := members (ab_list A) - {x}\<rparr>"
    and "only_locks w w2 \<Longrightarrow> \<exists>w3. exec_list_erase lt x w2 e = Some (ev, w3, e) \<and> rep w3 A' \<and>
      same_states w w3 \<and> tw_tx w3 = tw_tx w"
proof -
  have F: "ab_list A (list_state_of w lt) = Some (xs @ x # ys)"
    using list_txs [OF assms(2,3)] assms(4) by metis
  have h: "rings (tw_list w) (ab_list A)" using assms(1) by (simp add: rep_def)
  show "ev_step w A ev A'" unfolding A'_def ev_def by (rule ev_step.list_erase [OF F])
  show "ev_ok Q S ev" by (simp add: ev_ok_def ev_def)
  show "view w T A' = (view w T A)\<lparr>vw_list := (vw_list (view w T A))(lt := xs @ ys),
      in_list := members (ab_list A) - {x}\<rparr>"
    using view_list_upd [OF assms(2,3), of "xs @ ys"] members_remove [OF families_ok(2) [OF assms(1)] F]
    by (simp add: A'_def)
  assume w2: "only_locks w w2"
  show "\<exists>w3. exec_list_erase lt x w2 e = Some (ev, w3, e) \<and> rep w3 A' \<and> same_states w w3 \<and> tw_tx w3 = tw_tx w"
    using w2 assms(1) list_entries.erase_rings [OF h F] list_entries.erase_next [OF h F]
    by (simp add: exec_list_erase_def txlist_state_erase_def txlist_entry_next_def A'_def ev_def rep_def only_locks_def)
qed

lemma list_call_result:
  assumes "append_succeeds push_event p" and "rep w A"
    and "\<And>w2 e. only_locks w w2 \<Longrightarrow>
      \<exists>w3. init d1 d2 d3 w2 e = Some (ev, w3, e) \<and> rep w3 A' \<and> same_states w w3 \<and> tw_tx w3 = tw_tx w"
    and "ev_step w A ev A'" and "ev_ok (ts_queue T) (ts_stack T) ev" and "view w T A' = call_view call (view w T A)"
  shows "\<exists>w' p' e'. (case txlist_tx_try_wrlock wt lt w e of None \<Rightarrow> None
      | Some (w, e) \<Rightarrow> if picotm_error_is_set e then Some (w, p, e)
          else txlib_tx_append_events3 push_event 1 init d1 d2 d3 w p e) = Some (w', p', e') \<and>
    call_result push_event p w T A call w' p' e'"
proof -
  obtain w1 e1 where lock: "txlist_tx_try_wrlock wt lt w e = Some (w1, e1)" "only_locks w w1"
    using list_lock_cases by blast
  have "\<exists>w' p' e'. (if picotm_error_is_set e1 then Some (w1, p, e1)
      else txlib_tx_append_events3 push_event 1 init d1 d2 d3 w1 p e1) = Some (w', p', e') \<and>
    call_result push_event p w T A call w' p' e'"
    by (rule locked_result [OF assms(1,2) lock(2) _ assms(4-6)]) (rule assms(3))
  with lock(1) show ?thesis by simp
qed

lemma insert_before_split: "p \<notin> set xs \<Longrightarrow> p = hd (ys @ [q]) \<Longrightarrow> q \<notin> set ys \<Longrightarrow> insert_before x p (xs @ ys) = xs @ x # ys"
  unfolding insert_before_def by (subst takeWhile_append2, force, subst dropWhile_append2, force) (cases ys; simp)

lemma list_insert_result:
  assumes "append_succeeds push_event p" and "rep w A" and "all_txs_ok w T A"
    and "call_ok w T A (List_insert lt x pos)"
  shows "\<exists>w' p' e'. exec_call push_event wt (List_insert lt x pos) w p e = Some (w', p', e') \<and>
    call_result push_event p w T A (List_insert lt x pos) w' p' e'"
proof -
  have lt: "lt \<in> ts_list T" "fresh x (ab_list A)" using assms(4) by simp_all
  obtain l where F: "ab_list A (list_state_of w lt) = Some l" "seen_list w A lt = l" "vw_list (view w T A) lt = l"
    using list_txs [OF assms(3) lt(1)] by blast
  note D = family_okD(1,2) [OF families_ok(2) [OF assms(2)] F(1)]
  obtain xs ys where l: "l = xs @ ys" "pos \<notin> set xs" "pos = hd (ys @ [list_state_of w lt])"
  proof (cases "pos = list_state_of w lt")
    case True
    then show thesis using that [of l "[]"] D by simp
  next
    case False
    then have "pos \<in> set l" using assms(4) F by simp
    then obtain xs ys where "l = xs @ pos # ys" "pos \<notin> set xs" by (auto dest: split_list_first)
    then show thesis using that [of xs "pos # ys"] by simp
  qed
  have seen: "seen_list w A lt = xs @ ys" using F(2) l(1) by simp
  note E = list_insert_event [OF assms(2,3) lt seen]
  show ?thesis unfolding exec_call.simps txlist_tx_exec_insert_def
    by (rule list_call_result [OF assms(1,2) _ E(1,2)])
      (use E(3,4) F l D insert_before_split [OF l(2,3)] in auto)
qed

lemma list_push_result:
  assumes "append_succeeds push_event p" and "rep w A" and "all_txs_ok w T A"
    and "call_ok w T A (List_push_front lt x)"
  shows "\<exists>w' p' e'. exec_call push_event wt (List_push_front lt x) w p e = Some (w', p', e') \<and>
      call_result push_event p w T A (List_push_front lt x) w' p' e'"
    and "\<exists>w' p' e'. exec_call push_event wt (List_push_back lt x) w p e = Some (w', p', e') \<and>
      call_result push_event p w T A (List_push_back lt x) w' p' e'"
proof -
  have lt: "lt \<in> ts_list T" "fresh x (ab_list A)" using assms(4) by simp_all
  obtain l where F: "ab_list A (list_state_of w lt) = Some l" "seen_list w A lt = l" "vw_list (view w T A) lt = l"
    using list_txs [OF assms(3) lt(1)] by blast
  have first: "txlist_state_begin (tw_list w2) (list_state_of w2 lt) = hd (l @ [list_state_of w lt])"
    if "only_locks w w2" for w2
    using list_state_facts(1) [of "tw_list w" "ab_list A" "list_state_of w lt" l] F(1) assms(2) that same_statesD(2) [of w w2] by (simp add: rep_def only_locks_def)
  have last_pos: "txlist_state_end (list_state_of w2 lt) = list_state_of w lt" if "only_locks w w2" for w2
    using that same_statesD(2) [of w w2] by (simp add: txlist_state_end_def only_locks_def)
  note E = list_insert_event [OF assms(2,3) lt]
  show "\<exists>w' p' e'. exec_call push_event wt (List_push_front lt x) w p e = Some (w', p', e') \<and>
      call_result push_event p w T A (List_push_front lt x) w' p' e'"
    unfolding exec_call.simps txlist_tx_exec_push_front_def event_defs
    by (rule list_call_result [OF assms(1,2) _ E(1) [of "[]" l] E(2) [of "[]" l]])
      (use E(3,4) [of "[]" l] F lt in \<open>simp_all add: exec_list_push_front_def first\<close>)
  show "\<exists>w' p' e'. exec_call push_event wt (List_push_back lt x) w p e = Some (w', p', e') \<and>
      call_result push_event p w T A (List_push_back lt x) w' p' e'"
    unfolding exec_call.simps txlist_tx_exec_push_back_def event_defs
    by (rule list_call_result [OF assms(1,2) _ E(1) [of l "[]"] E(2) [of l "[]"]])
      (use E(3,4) [of l "[]"] F lt in \<open>simp_all add: exec_list_push_back_def last_pos\<close>)
qed

lemma list_erase_result:
  assumes "append_succeeds push_event p" and "rep w A" and "all_txs_ok w T A"
    and "call_ok w T A (List_erase lt x)"
  shows "\<exists>w' p' e'. exec_call push_event wt (List_erase lt x) w p e = Some (w', p', e') \<and>
    call_result push_event p w T A (List_erase lt x) w' p' e'"
proof -
  have lt: "lt \<in> ts_list T" using assms(4) by simp
  obtain l where F: "ab_list A (list_state_of w lt) = Some l" "seen_list w A lt = l" "vw_list (view w T A) lt = l"
    using list_txs [OF assms(3) lt(1)] by blast
  obtain xs ys where l: "l = xs @ x # ys" "x \<notin> set xs"
    using assms(4) F by (auto dest: split_list_first)
  have seen: "seen_list w A lt = xs @ x # ys" using F(2) l(1) by simp
  note E = list_erase_event [OF assms(2,3) lt seen]
  show ?thesis unfolding exec_call.simps txlist_tx_exec_erase_def event_defs
    by (rule list_call_result [OF assms(1,2) _ E(1,2)])
      (use E(3,4) F l in \<open>auto simp: remove1_append\<close>)
qed

lemma list_pop_result:
  assumes "append_succeeds push_event p" and "rep w A" and "all_txs_ok w T A"
    and "call_ok w T A (List_pop_front lt)"
  shows "\<exists>w' p' e'. exec_call push_event wt (List_pop_front lt) w p e = Some (w', p', e') \<and>
      call_result push_event p w T A (List_pop_front lt) w' p' e'"
    and "\<exists>w' p' e'. exec_call push_event wt (List_pop_back lt) w p e = Some (w', p', e') \<and>
      call_result push_event p w T A (List_pop_back lt) w' p' e'"
proof -
  have lt: "lt \<in> ts_list T" using assms(4) by simp
  obtain l where F: "ab_list A (list_state_of w lt) = Some l" "seen_list w A lt = l" "vw_list (view w T A) lt = l"
    using list_txs [OF assms(3) lt(1)] by blast
  have ne: "l \<noteq> []" using assms(4) F by simp
  have front: "txlist_state_front (tw_list w2) (list_state_of w2 lt) = hd l" if "only_locks w w2" for w2
    using list_state_facts(2) [of "tw_list w" "ab_list A" "list_state_of w lt" l] F(1) assms(2) that ne same_statesD(2) [of w w2] by (simp add: rep_def only_locks_def)
  have final: "txlist_state_back (tw_list w2) (list_state_of w2 lt) = last l" if "only_locks w w2" for w2
    using list_state_facts(3) [of "tw_list w" "ab_list A" "list_state_of w lt" l] F(1) assms(2) that ne same_statesD(2) [of w w2] by (simp add: rep_def only_locks_def)
  note E = list_erase_event [OF assms(2,3) lt]
  have seen: "seen_list w A lt = [] @ hd l # tl l" "seen_list w A lt = butlast l @ last l # []"
    using F ne by simp_all
  show "\<exists>w' p' e'. exec_call push_event wt (List_pop_front lt) w p e = Some (w', p', e') \<and>
      call_result push_event p w T A (List_pop_front lt) w' p' e'"
    unfolding exec_call.simps txlist_tx_exec_pop_front_def event_defs
    by (rule list_call_result [OF assms(1,2) _ E(1,2) [OF seen(1)]])
      (use E(3,4) [OF seen(1)] F in \<open>simp_all add: exec_list_pop_front_def front\<close>)
  show "\<exists>w' p' e'. exec_call push_event wt (List_pop_back lt) w p e = Some (w', p', e') \<and>
      call_result push_event p w T A (List_pop_back lt) w' p' e'"
    unfolding exec_call.simps txlist_tx_exec_pop_back_def event_defs
    by (rule list_call_result [OF assms(1,2) _ E(1,2) [OF seen(2)]])
      (use E(3,4) [OF seen(2)] F in \<open>simp_all add: exec_list_pop_back_def final\<close>)
qed

lemma stack_txs:
  assumes "rep w A" and "all_txs_ok w T A" and "st \<in> ts_stack T"
  obtains l g where "ab_stack A st = Some l" and "ab_stack A (stack_state_of w st) = Some g"
    and "seen_stack w A st = l @ g" and "vw_stack (view w T A) st = l @ g" and "stacks (tw_stack w) (ab_stack A)"
    and "stack_local_is_empty w st \<longleftrightarrow> l = []"
proof -
  have txs: "txs_ok w (ts_queue T) (ts_stack T) A" using assms(2) by (simp add: all_txs_ok_def)
  obtain l g where F: "ab_stack A st = Some l" "ab_stack A (stack_state_of w st) = Some g"
    using txs_okD(4) [OF txs assms(3)] by blast
  have h: "stacks (tw_stack w) (ab_stack A)" using assms(1) by (simp add: rep_def)
  have "st \<notin> set l" using family_okD(2) [OF families_ok(3) [OF assms(1)] F(1)] .
  then have "stack_local_is_empty w st \<longleftrightarrow> l = []"
    using stack_top [OF h F(1)]
    by (cases l) (auto simp: stack_local_is_empty_def stack_local_begin_def stack_local_end_def txstack_entry_prev_def)
  then show thesis using that F h assms(3) by (simp add: seen_stack_def view_def)
qed

lemma stack_push_result:
  assumes "append_succeeds push_event p" and "\<not> picotm_error_is_set e" and "rep w A" and "all_txs_ok w T A"
    and "call_ok w T A (Stack_push st x)"
  shows "\<exists>w' p' e'. exec_call push_event wt (Stack_push st x) w p e = Some (w', p', e') \<and>
    call_result push_event p w T A (Stack_push st x) w' p' e'"
proof -
  have st: "st \<in> ts_stack T" and x: "x \<noteq> 0" "x \<notin> members (ab_stack A)"
    using assms(5) by (auto simp: fresh_def)
  obtain l g where F: "ab_stack A st = Some l" "ab_stack A (stack_state_of w st) = Some g"
      "vw_stack (view w T A) st = l @ g" "stacks (tw_stack w) (ab_stack A)"
    using stack_txs [OF assms(3,4) st] by metis
  have "x \<noteq> st" using x memberI [of "ab_stack A" st l st] F by auto
  let ?A = "A\<lparr>ab_stack := (ab_stack A)(st \<mapsto> x # l)\<rparr>"
  have rings: "stacks (txstack_entry_insert x st (tw_stack w)) ((ab_stack A)(st \<mapsto> x # l))"
    by (rule Txlib_Stack.stack_push [OF F(4,1) x])
  show ?thesis unfolding exec_call.simps txstack_tx_exec_push_def event_defs
  proof (rule event_result [OF assms(1,2) only_locks_refl assms(3)])
    show "ev_step w A (TXLIB_STACK_PUSH st x) ?A" by (rule ev_step.stack_push [OF F(1) x])
    show "ev_ok (ts_queue T) (ts_stack T) (TXLIB_STACK_PUSH st x)" using st \<open>x \<noteq> st\<close> by (simp add: ev_ok_def)
    show "view w T ?A = call_view (Stack_push st x) (view w T A)"
      using view_stack_upd(1) [OF assms(4) st, of "x # l"] F
        members_ends(1) [OF families_ok(3) [OF assms(3)] F(1), of x] by simp
    fix w1 assume "same_states w w1" "tw_queue w1 = tw_queue w" "tw_list w1 = tw_list w"
      "tw_stack w1 = tw_stack w" "tw_tx w1 = tw_tx w"
    then show "\<exists>w2. exec_stack_push st x w1 e = Some (TXLIB_STACK_PUSH st x, w2, e) \<and>
        rep w2 ?A \<and> same_states w w2 \<and> tw_tx w2 = tw_tx w"
      using rings assms(3) by (simp add: exec_stack_push_def stack_local_end_def rep_def)
  qed
qed

lemma stack_pop_event:
  assumes "rep w A" and "all_txs_ok w T A" and "call_ok w T A (Stack_pop st)"
  obtains ev A' where "\<And>w1 e. only_locks w w1 \<Longrightarrow> \<exists>w2. exec_stack_pop st (\<not> stack_local_is_empty w st) w1 e = Some (ev, w2, e) \<and>
      rep w2 A' \<and> same_states w w2 \<and> tw_tx w2 = tw_tx w"
    and "ev_step w A ev A'" and "ev_ok (ts_queue T) (ts_stack T) ev" and "view w T A' = call_view (Stack_pop st) (view w T A)"
proof -
  have st: "st \<in> ts_stack T" and ne: "seen_stack w A st \<noteq> []" using assms(3) by auto
  obtain l g where F: "ab_stack A st = Some l" "ab_stack A (stack_state_of w st) = Some g"
      "seen_stack w A st = l @ g" "vw_stack (view w T A) st = l @ g" "stacks (tw_stack w) (ab_stack A)"
      "stack_local_is_empty w st \<longleftrightarrow> l = []"
    using stack_txs [OF assms(1,2) st] by metis
  show thesis
  proof (cases l)
    case (Cons x l')
    let ?A = "A\<lparr>ab_stack := (ab_stack A)(st \<mapsto> l')\<rparr>"
    have F1: "ab_stack A st = Some (x # l')" using F Cons by simp
    have pop: "stacks (txstack_entry_erase x st (tw_stack w)) ((ab_stack A)(st \<mapsto> l'))" "tw_stack w st = x"
      using Txlib_Stack.stack_pop [OF F(5) F1] by simp_all
    show thesis
    proof (rule that)
      show "\<exists>w2. exec_stack_pop st (\<not> stack_local_is_empty w st) w1 e = Some (TXLIB_STACK_POP st x True, w2, e) \<and>
          rep w2 ?A \<and> same_states w w2 \<and> tw_tx w2 = tw_tx w" if "only_locks w w1" for w1 e
        using pop that F(6) Cons assms(1)
        by (simp add: exec_stack_pop_def stack_local_top_def stack_local_end_def txstack_entry_prev_def only_locks_def rep_def)
      show "ev_step w A (TXLIB_STACK_POP st x True) ?A" by (rule ev_step.stack_pop_local [OF F1])
      show "view w T ?A = call_view (Stack_pop st) (view w T A)"
        using view_stack_upd(1) [OF assms(2) st, of l'] F Cons
          members_ends(3) [OF families_ok(3) [OF assms(1)] F1] by simp
    qed (use st in \<open>simp add: ev_ok_def\<close>)
  next
    case Nil
    then obtain x g' where g: "g = x # g'" using ne F(3) by (cases g) auto
    let ?q = "stack_state_of w st"
    let ?A = "A\<lparr>ab_stack := (ab_stack A)(?q \<mapsto> g')\<rparr>"
    have F2: "ab_stack A ?q = Some (x # g')" using F g by simp
    have pop: "stacks (txstack_entry_erase x ?q (tw_stack w)) ((ab_stack A)(?q \<mapsto> g'))" "tw_stack w ?q = x"
      using Txlib_Stack.stack_pop [OF F(5) F2] by simp_all
    show thesis
    proof (rule that)
      show "\<exists>w2. exec_stack_pop st (\<not> stack_local_is_empty w st) w1 e = Some (TXLIB_STACK_POP st x False, w2, e) \<and>
          rep w2 ?A \<and> same_states w w2 \<and> tw_tx w2 = tw_tx w" if "only_locks w w1" for w1 e
        using pop that F(6) Nil assms(1) same_statesD(3) [of w w1]
        by (simp add: exec_stack_pop_def txstack_state_pop_def txstack_state_top_def txstack_state_end_def
            txstack_entry_prev_def only_locks_def rep_def)
      show "ev_step w A (TXLIB_STACK_POP st x False) ?A" by (rule ev_step.stack_pop [OF F2]) (use F Nil in simp)
      show "view w T ?A = call_view (Stack_pop st) (view w T A)"
        using view_stack_upd(2) [OF assms(2) st, of g'] F Nil g
          members_ends(3) [OF families_ok(3) [OF assms(1)] F2] by simp
    qed (use st in \<open>simp add: ev_ok_def\<close>)
  qed
qed

lemma stack_pop_result:
  assumes "append_succeeds push_event p" and "\<not> picotm_error_is_set e" and "rep w A" and "all_txs_ok w T A"
    and "call_ok w T A (Stack_pop st)"
  shows "\<exists>w' p' e'. exec_call push_event wt (Stack_pop st) w p e = Some (w', p', e') \<and>
    call_result push_event p w T A (Stack_pop st) w' p' e'"
proof -
  let ?b = "\<not> stack_local_is_empty w st"
  obtain w1 e1 where lock: "(if ?b then Some (w, e) else txstack_tx_try_wrlock wt st w e) = Some (w1, e1)" "only_locks w w1"
  proof (cases ?b)
    case True
    then show thesis using that by simp
  next
    case False
    then show thesis using that stack_lock_cases [of wt st w e] by auto
  qed
  show ?thesis
  proof (rule stack_pop_event [OF assms(3-5)])
    fix ev A'
    assume ev: "\<And>w1 e. only_locks w w1 \<Longrightarrow> \<exists>w2. exec_stack_pop st ?b w1 e = Some (ev, w2, e) \<and>
        rep w2 A' \<and> same_states w w2 \<and> tw_tx w2 = tw_tx w"
      "ev_step w A ev A'" "ev_ok (ts_queue T) (ts_stack T) ev" "view w T A' = call_view (Stack_pop st) (view w T A)"
    have "\<exists>w' p' e'. (if picotm_error_is_set e1 then Some (w1, p, e1)
        else txlib_tx_append_events2 push_event 1 exec_stack_pop st ?b w1 p e1) = Some (w', p', e') \<and>
        call_result push_event p w T A (Stack_pop st) w' p' e'"
      unfolding event_defs by (rule locked_result [OF assms(1,3) lock(2) _ ev(2-4)]) (rule ev(1))
    with lock(1) show ?thesis by (simp add: txstack_tx_exec_pop_def Let_def)
  qed
qed

text \<open>Every call of a correct caller returns, and does what it does on plain sequences or nothing at all.\<close>

theorem exec_call_result:
  assumes "append_succeeds push_event p" and "\<not> picotm_error_is_set e" and "rep w A" and "all_txs_ok w T A"
    and "call_ok w T A call"
  shows "\<exists>w' p' e'. exec_call push_event wt call w p e = Some (w', p', e') \<and> call_result push_event p w T A call w' p' e'"
proof (cases call)
  case (Queue_push qt x)
  show ?thesis unfolding Queue_push by (rule queue_push_result [OF assms [unfolded Queue_push]])
next
  case (Queue_pop qt)
  show ?thesis unfolding Queue_pop by (rule queue_pop_result [OF assms [unfolded Queue_pop]])
next
  case (List_insert lt x pos)
  show ?thesis unfolding List_insert by (rule list_insert_result [OF assms(1,3-5) [unfolded List_insert]])
next
  case (List_erase lt x)
  show ?thesis unfolding List_erase by (rule list_erase_result [OF assms(1,3-5) [unfolded List_erase]])
next
  case (List_push_front lt x)
  show ?thesis unfolding List_push_front by (rule list_push_result(1) [OF assms(1,3-5) [unfolded List_push_front]])
next
  case (List_push_back lt x)
  then have "call_ok w T A (List_push_front lt x)" using assms(5) by simp
  then show ?thesis unfolding List_push_back by (rule list_push_result(2) [OF assms(1,3,4)])
next
  case (List_pop_front lt)
  show ?thesis unfolding List_pop_front by (rule list_pop_result(1) [OF assms(1,3-5) [unfolded List_pop_front]])
next
  case (List_pop_back lt)
  then have "call_ok w T A (List_pop_front lt)" using assms(5) by simp
  then show ?thesis unfolding List_pop_back by (rule list_pop_result(2) [OF assms(1,3,4)])
next
  case (Stack_push st x)
  show ?thesis unfolding Stack_push by (rule stack_push_result [OF assms [unfolded Stack_push]])
next
  case (Stack_pop st)
  show ?thesis unfolding Stack_pop by (rule stack_pop_result [OF assms [unfolded Stack_pop]])
qed

end
