(* ===== verification/Txlib_Runs.thy ===== *)
theory Txlib_Runs
  imports Txlib_Calls
begin

text \<open>
  A transaction as a run of calls on its containers: after every call the shared and local entries
  together are what the calls so far make of plain sequences, the events lead from the first state to
  the present one, and the local entries wait in the order of their events.
\<close>

fun exec_calls :: "'p event_append \<Rightarrow> lock_waits \<Rightarrow> txlib_call list \<Rightarrow> ('k, 'p) tx_call" where
  "exec_calls push_event wt [] w p e = Some (w, p, e)"
| "exec_calls push_event wt (call # calls) w p e =
     (case exec_call push_event wt call w p e of
        None \<Rightarrow> None
      | Some (w, p, e) \<Rightarrow>
          if picotm_error_is_set e then Some (w, p, e) else exec_calls push_event wt calls w p e)"

text \<open>What the interface asks of the callers, in terms of the sequences.\<close>

fun view_ok :: "'k txlib_world \<Rightarrow> txlib_txs \<Rightarrow> txlib_view \<Rightarrow> txlib_call \<Rightarrow> bool" where
  "view_ok w T v (Queue_push qt x) \<longleftrightarrow> qt \<in> ts_queue T \<and> x \<noteq> 0 \<and> x \<notin> in_queue v"
| "view_ok w T v (Queue_pop qt) \<longleftrightarrow> qt \<in> ts_queue T \<and> vw_queue v qt \<noteq> []"
| "view_ok w T v (List_insert lt x p) \<longleftrightarrow> lt \<in> ts_list T \<and> x \<noteq> 0 \<and> x \<notin> in_list v \<and>
     (p = list_state_of w lt \<or> p \<in> set (vw_list v lt))"
| "view_ok w T v (List_erase lt x) \<longleftrightarrow> lt \<in> ts_list T \<and> x \<in> set (vw_list v lt)"
| "view_ok w T v (List_push_front lt x) \<longleftrightarrow> lt \<in> ts_list T \<and> x \<noteq> 0 \<and> x \<notin> in_list v"
| "view_ok w T v (List_push_back lt x) \<longleftrightarrow> lt \<in> ts_list T \<and> x \<noteq> 0 \<and> x \<notin> in_list v"
| "view_ok w T v (List_pop_front lt) \<longleftrightarrow> lt \<in> ts_list T \<and> vw_list v lt \<noteq> []"
| "view_ok w T v (List_pop_back lt) \<longleftrightarrow> lt \<in> ts_list T \<and> vw_list v lt \<noteq> []"
| "view_ok w T v (Stack_push st x) \<longleftrightarrow> st \<in> ts_stack T \<and> x \<noteq> 0 \<and> x \<notin> in_stack v"
| "view_ok w T v (Stack_pop st) \<longleftrightarrow> st \<in> ts_stack T \<and> vw_stack v st \<noteq> []"

fun calls_ok :: "'k txlib_world \<Rightarrow> txlib_txs \<Rightarrow> txlib_view \<Rightarrow> txlib_call list \<Rightarrow> bool" where
  "calls_ok w T v [] \<longleftrightarrow> True"
| "calls_ok w T v (call # calls) \<longleftrightarrow> view_ok w T v call \<and> calls_ok w T (call_view call v) calls"

lemma view_ok_call_ok: "view_ok w T (view w T A) call \<Longrightarrow> call_ok w T A call"
  by (cases call) (auto simp: view_def fresh_def split: if_splits)

text \<open>The containers of the transactions do not change, so that any state of the run will do for them.\<close>

lemma same_states_sym: "same_states w w' \<Longrightarrow> same_states w' w"
  by (simp add: same_states_def)

lemma same_states_eqs:
  assumes "same_states w w'"
  shows "ev_step w' = ev_step w" and "view w' = view w" and "all_txs_ok w' = all_txs_ok w"
    and "txs_ok w' = txs_ok w" and "view_ok w' = view_ok w"
proof -
  note D = same_statesD [OF assms]
  have "ev_step w' A ev A'" if "ev_step w A ev A'" "same_states w' w" for A ev A' and w w' :: "'a txlib_world"
  proof -
    note S = same_statesD [OF that(2)]
    show ?thesis using that(1)
    proof cases
      case (list_erase lt xs x ys)
      then show ?thesis using ev_step.list_erase [of A w' lt xs x ys] by (simp add: S)
    qed (simp_all add: S ev_step.intros)
  qed
  then show "ev_step w' = ev_step w" using assms same_states_sym [OF assms] by (auto simp: fun_eq_iff)
  show "view w' = view w"
    by (simp add: fun_eq_iff view_def seen_queue_def seen_list_def seen_stack_def D)
  show txs: "txs_ok w' = txs_ok w" by (simp add: fun_eq_iff txs_ok_def D)
  show "all_txs_ok w' = all_txs_ok w" by (simp add: fun_eq_iff all_txs_ok_def D txs)
  show "view_ok w' = view_ok w"
  proof (intro ext)
    fix T v call show "view_ok w' T v call = view_ok w T v call" by (cases call) (simp_all add: D)
  qed
qed

subsection \<open>Waiting entries\<close>

lemma queue_pushes_append: "queue_pushes qt (evs @ evs') = queue_pushes qt evs @ queue_pushes qt evs'"
  by (induction qt evs rule: queue_pushes.induct) auto

lemma stack_pushes_append: "stack_pushes st (evs @ evs') = stack_pushes st evs @ stack_pushes st evs'"
  by (induction st evs rule: stack_pushes.induct) auto

lemma subseq_tail: "subseq (x # l) ps \<Longrightarrow> subseq l ps"
  using subseq_order.trans [of l "x # l" ps] by auto

lemma subseq_end: "subseq l ps \<Longrightarrow> subseq (l @ [x]) (ps @ [x])"
  by (rule list_emb_append_mono) simp_all

lemma subseq_front: "subseq (l @ [x]) ps \<Longrightarrow> subseq l ps"
  using subseq_order.trans [of l "l @ [x]" ps] by auto

text \<open>Every event keeps the local entries a part of the pushed ones.\<close>

lemma pending_step:
  assumes "ev_step w A ev A'" and "pending Q S evs A" and "ev_ok Q S ev" and "txs_ok w Q S A"
  shows "pending Q S (evs @ [ev]) A'"
proof -
  note D = txs_okD(2,5) [OF assms(4)]
  have P: "\<And>qt. qt \<in> Q \<Longrightarrow> subseq (the (ab_queue A qt)) (queue_pushes qt evs)"
    "\<And>st. st \<in> S \<Longrightarrow> subseq (rev (the (ab_stack A st))) (stack_pushes st evs)"
    using assms(2) by (simp_all add: pending_def)
  from assms(1) show ?thesis
  proof cases
    case (queue_push qt l x)
    then show ?thesis using P subseq_end [OF P(1) [of qt], of x] assms(3)
      by (auto simp: pending_def queue_pushes_append stack_pushes_append ev_ok_def)
  next
    case (queue_pop_local qt x l)
    then show ?thesis using P subseq_tail [of x l] P(1) [of qt]
      by (auto simp: pending_def queue_pushes_append stack_pushes_append)
  next
    case (queue_pop qt x g)
    then have "qt \<in> Q" using assms(3) by (simp add: ev_ok_def)
    then show ?thesis using queue_pop P D(1) [of qt]
      by (auto simp: pending_def queue_pushes_append stack_pushes_append)
  next
    case (stack_push st l x)
    then show ?thesis using P subseq_end [OF P(2) [of st], of x] assms(3)
      by (auto simp: pending_def queue_pushes_append stack_pushes_append ev_ok_def)
  next
    case (stack_pop_local st x l)
    then show ?thesis using P subseq_front [of "rev l" x] P(2) [of st]
      by (auto simp: pending_def queue_pushes_append stack_pushes_append)
  next
    case (stack_pop st x g)
    then have "st \<in> S" using assms(3) by (simp add: ev_ok_def)
    then show ?thesis using stack_pop P D(2) [of st]
      by (auto simp: pending_def queue_pushes_append stack_pushes_append)
  qed (use P in \<open>auto simp: pending_def queue_pushes_append stack_pushes_append\<close>)
qed

lemma all_txs_ok_step:
  assumes "ev_step w A ev A'" and "all_txs_ok w T A"
  shows "all_txs_ok w T A'"
proof -
  have "ab_list A' q \<noteq> None" if "ab_list A q \<noteq> None" for q
    using assms(1) that by cases auto
  then show ?thesis
    using assms(2) txs_ok_step [OF assms(1), of "ts_queue T" "ts_stack T"] unfolding all_txs_ok_def by blast
qed

subsection \<open>The invariant of a run\<close>

definition run_inv ::
  "'k txlib_world \<Rightarrow> txlib_abs \<Rightarrow> txlib_txs \<Rightarrow> txlib_call list \<Rightarrow> 'k txlib_world \<Rightarrow> txlib_abs \<Rightarrow> bool"
where
  "run_inv w0 A0 T calls w A \<longleftrightarrow> same_states w0 w \<and> rep w A \<and> all_txs_ok w0 T A \<and>
     ev_path w0 A0 (tl_event (tw_tx w)) A \<and>
     (\<forall>ev\<in>set (tl_event (tw_tx w)). ev_ok (ts_queue T) (ts_stack T) ev) \<and>
     pending (ts_queue T) (ts_stack T) (tl_event (tw_tx w)) A \<and>
     length (tl_event (tw_tx w)) = length calls \<and> tl_module (tw_tx w) = tl_module (tw_tx w0) \<and>
     view w0 T A = fold call_view calls (view w0 T A0)"

text \<open>The transactions start with no local entries.\<close>

definition no_locals :: "txlib_txs \<Rightarrow> txlib_abs \<Rightarrow> bool" where
  "no_locals T A \<longleftrightarrow> (\<forall>qt\<in>ts_queue T. ab_queue A qt = Some []) \<and> (\<forall>st\<in>ts_stack T. ab_stack A st = Some [])"

lemma run_inv_start:
  assumes "rep w A" and "all_txs_ok w T A" and "no_locals T A" and "tl_event (tw_tx w) = []"
  shows "run_inv w A T [] w A"
  using assms by (simp add: run_inv_def no_locals_def pending_def)

lemma run_inv_call:
  assumes "run_inv w0 A0 T calls w A" and "append_succeeds push_event p" and "\<not> picotm_error_is_set e"
    and "view_ok w0 T (view w0 T A) call"
  shows "\<exists>w' p' e' A'. exec_call push_event wt call w p e = Some (w', p', e') \<and>
    (if picotm_error_is_set e' then run_inv w0 A0 T calls w' A' \<and> p' = p
     else run_inv w0 A0 T (calls @ [call]) w' A' \<and> logged push_event (tw_tx w) p p' e')"
proof -
  have same: "same_states w0 w" and A: "rep w A" "all_txs_ok w0 T A" using assms(1) by (simp_all add: run_inv_def)
  note eqs = same_states_eqs [OF same]
  have "call_ok w T A call" using view_ok_call_ok [of w T A call] assms(4) by (simp add: eqs)
  then obtain w' p' e' where call: "exec_call push_event wt call w p e = Some (w', p', e')"
      "call_result push_event p w T A call w' p' e'"
    using exec_call_result [OF assms(2,3) A(1)] A(2) unfolding eqs by blast
  then have w': "same_states w0 w'" using same_states_trans [OF same] by (simp add: call_result_def)
  show ?thesis
  proof (cases "picotm_error_is_set e'")
    case True
    then have "run_inv w0 A0 T calls w' A \<and> p' = p" using call(2) assms(1) w' by (simp add: call_result_def run_inv_def)
    with True call(1) show ?thesis by auto
  next
    case False
    obtain ev A' where ev: "tw_tx w' = (tw_tx w)\<lparr>tl_event := tl_event (tw_tx w) @ [ev]\<rparr>" "rep w' A'"
        "ev_step w0 A ev A'" "ev_ok (ts_queue T) (ts_stack T) ev" "view w0 T A' = call_view call (view w0 T A)"
      using call(2) False by (auto simp: call_result_def eqs)
    have "txs_ok w0 (ts_queue T) (ts_stack T) A" using A(2) by (simp add: all_txs_ok_def)
    then have "run_inv w0 A0 T (calls @ [call]) w' A'"
      using assms(1) w' ev all_txs_ok_step [OF ev(3) A(2)] pending_step [OF ev(3) _ ev(4)]
      by (auto simp: run_inv_def ev_path_append)
    with call False show ?thesis by (auto simp: call_result_def)
  qed
qed

subsection \<open>The log as an interface\<close>

text \<open>
  What a run needs of picotm's log: appending succeeds while there is room, and the log then holds the
  events of the module with the numbers of the transaction's own events.
\<close>

locale event_log =
  fixes push_event :: "'p event_append"
    and log_holds :: "u64 \<Rightarrow> nat \<Rightarrow> 'p \<Rightarrow> bool"
    and room :: nat
  assumes push_succeeds: "log_holds m n p \<Longrightarrow> n < room \<Longrightarrow> append_succeeds push_event p"
    and push_holds: "log_holds m n p \<Longrightarrow> n < room \<Longrightarrow> \<not> picotm_error_is_set e \<Longrightarrow>
      push_event m 0 (of_nat n) p e = (p', e') \<Longrightarrow> log_holds m (Suc n) p'"
begin

lemma logged_holds:
  "logged push_event tx p p' e' \<Longrightarrow> log_holds (tl_module tx) (length (tl_event tx)) p \<Longrightarrow>
   length (tl_event tx) < room \<Longrightarrow> log_holds (tl_module tx) (Suc (length (tl_event tx))) p'"
  by (auto simp: logged_def intro: push_holds)

lemma run_calls_inv:
  assumes "run_inv w0 A0 T done w A" and "log_holds (tl_module (tw_tx w0)) (length done) p"
    and "\<not> picotm_error_is_set e" and "calls_ok w0 T (view w0 T A) calls"
    and "length done + length calls \<le> room"
  shows "\<exists>w' p' e' n A'. exec_calls push_event wt calls w p e = Some (w', p', e') \<and> n \<le> length calls \<and>
    (\<not> picotm_error_is_set e' \<longrightarrow> n = length calls) \<and> run_inv w0 A0 T (done @ take n calls) w' A' \<and>
    log_holds (tl_module (tw_tx w0)) (length done + n) p'"
  using assms
proof (induction calls arbitrary: "done" w p e A)
  case Nil
  then show ?case by fastforce
next
  case (Cons call calls)
  have room: "length done < room" using Cons.prems(5) by simp
  have ok: "view_ok w0 T (view w0 T A) call" using Cons.prems(4) by simp
  obtain w1 p1 e1 A1 where call: "exec_call push_event wt call w p e = Some (w1, p1, e1)"
      "if picotm_error_is_set e1 then run_inv w0 A0 T done w1 A1 \<and> p1 = p
       else run_inv w0 A0 T (done @ [call]) w1 A1 \<and> logged push_event (tw_tx w) p p1 e1"
    using run_inv_call [OF Cons.prems(1) push_succeeds [OF Cons.prems(2) room] Cons.prems(3) ok] by blast
  show ?case
  proof (cases "picotm_error_is_set e1")
    case True
    then show ?thesis using call Cons.prems(2) by (auto intro!: exI [of _ "0::nat"])
  next
    case False
    have tx: "tl_module (tw_tx w) = tl_module (tw_tx w0)" "length (tl_event (tw_tx w)) = length done"
      using Cons.prems(1) by (simp_all add: run_inv_def)
    have "log_holds (tl_module (tw_tx w0)) (length (done @ [call])) p1"
      using logged_holds [of "tw_tx w" p p1 e1] call(2) False Cons.prems(2) room by (simp add: tx)
    moreover have "view w0 T A1 = call_view call (view w0 T A)"
      using call(2) False Cons.prems(1) by (simp add: run_inv_def)
    ultimately have "\<exists>w' p' e' n A'. exec_calls push_event wt calls w1 p1 e1 = Some (w', p', e') \<and>
        n \<le> length calls \<and> (\<not> picotm_error_is_set e' \<longrightarrow> n = length calls) \<and>
        run_inv w0 A0 T ((done @ [call]) @ take n calls) w' A' \<and>
        log_holds (tl_module (tw_tx w0)) (length (done @ [call]) + n) p'"
      using call(2) False Cons.prems(4,5) by (intro Cons.IH [where A = A1]) simp_all
    then obtain w' p' e' n A' where r: "exec_calls push_event wt calls w1 p1 e1 = Some (w', p', e')"
        "n \<le> length calls" "\<not> picotm_error_is_set e' \<longrightarrow> n = length calls"
        "run_inv w0 A0 T ((done @ [call]) @ take n calls) w' A'"
        "log_holds (tl_module (tw_tx w0)) (length (done @ [call]) + n) p'" by blast
    then show ?thesis using call(1) False by (intro exI [of _ w'] exI [of _ p'] exI [of _ e'] exI [of _ "Suc n"] exI [of _ A']) simp
  qed
qed

end

subsection \<open>What the end of a transaction does\<close>

text \<open>The containers as others see them: everything is shared, nothing is left to the transactions.\<close>

definition published :: "'k txlib_world \<Rightarrow> txlib_txs \<Rightarrow> txlib_view \<Rightarrow> bool" where
  "published w T v \<longleftrightarrow> (\<exists>A. rep w A \<and> no_locals T A \<and>
     (\<forall>qt\<in>ts_queue T. ab_queue A (queue_state_of w qt) = Some (vw_queue v qt)) \<and>
     (\<forall>lt\<in>ts_list T. ab_list A (list_state_of w lt) = Some (vw_list v lt)) \<and>
     (\<forall>st\<in>ts_stack T. ab_stack A (stack_state_of w st) = Some (vw_stack v st)))"

lemma no_locals_published:
  assumes "rep w A" and "all_txs_ok w T A" and "no_locals T A"
  shows "published w T (view w T A)"
proof -
  have txs: "txs_ok w (ts_queue T) (ts_stack T) A" using assms(2) by (simp add: all_txs_ok_def)
  show ?thesis unfolding published_def
  proof (intro exI [of _ A] conjI ballI)
    fix qt assume "qt \<in> ts_queue T"
    then show "ab_queue A (queue_state_of w qt) = Some (vw_queue (view w T A) qt)"
      using txs_okD(1) [OF txs, of qt] assms(3) by (auto simp: view_def seen_queue_def no_locals_def)
  next
    fix lt assume "lt \<in> ts_list T"
    then show "ab_list A (list_state_of w lt) = Some (vw_list (view w T A) lt)"
      using list_txs [OF assms(2), of lt] by metis
  next
    fix st assume "st \<in> ts_stack T"
    then show "ab_stack A (stack_state_of w st) = Some (vw_stack (view w T A) st)"
      using txs_okD(4) [OF txs, of st] assms(3) by (auto simp: view_def seen_stack_def no_locals_def)
  qed (use assms in simp_all)
qed

text \<open>Applying the events publishes what the transaction has seen; undoing them publishes what was before.\<close>

lemma run_applies:
  assumes "run_inv w0 A0 T calls w A" and "only_locks w w1"
  shows "\<exists>w2. apply_all (tl_event (tw_tx w)) w1 e = Some (w2, e) \<and> same_states w0 w2 \<and> tw_tx w2 = tw_tx w \<and>
    published w2 T (fold call_view calls (view w0 T A0))"
proof -
  let ?evs = "tl_event (tw_tx w)"
  have inv: "same_states w0 w" "rep w A" "all_txs_ok w0 T A" "pending (ts_queue T) (ts_stack T) ?evs A"
      "\<forall>ev\<in>set ?evs. ev_ok (ts_queue T) (ts_stack T) ev" "view w0 T A = fold call_view calls (view w0 T A0)"
    using assms(1) by (simp_all add: run_inv_def)
  have txs: "txs_ok w0 (ts_queue T) (ts_stack T) A" using inv(3) by (simp add: all_txs_ok_def)
  have w1: "rep w1 A" "same_states w0 w1" "tw_tx w1 = tw_tx w"
    using only_locks_rep [OF assms(2)] assms(2) inv(1,2) same_states_trans by (auto simp: only_locks_def)
  let ?A = "fold (ev_apply w0) ?evs A"
  obtain w2 where w2: "apply_all ?evs w1 e = Some (w2, e)" "rep w2 ?A" "same_states w0 w2" "tw_tx w2 = tw_tx w1"
    using apply_path [OF inv(5) txs w1(1,2)] by blast
  note D = apply_drains [OF inv(4,5) txs, unfolded Let_def]
  have lists: "ab_list ?A (list_state_of w0 lt) = Some (vw_list (view w0 T A) lt)" if "lt \<in> ts_list T" for lt
    using D list_txs [OF inv(3) that] by metis
  have "published w2 T (view w0 T A)"
    unfolding published_def
    by (intro exI [of _ ?A])
      (use D lists w2(2) same_statesD [OF w2(3)] in \<open>simp add: no_locals_def view_def\<close>)
  with w2 w1(3) inv(6) show ?thesis by auto
qed

lemma run_undoes:
  assumes "run_inv w0 A0 T calls w A" and "rep w0 A0" and "all_txs_ok w0 T A0" and "no_locals T A0" and "only_locks w w1"
  shows "\<exists>w2. undo_all (tl_event (tw_tx w)) w1 e = Some (w2, e) \<and> same_states w0 w2 \<and> tw_tx w2 = tw_tx w \<and>
    rep w2 A0 \<and> published w2 T (view w0 T A0)"
proof -
  have inv: "same_states w0 w" "rep w A" "ev_path w0 A0 (tl_event (tw_tx w)) A"
    using assms(1) by (simp_all add: run_inv_def)
  have w1: "rep w1 A" "same_states w0 w1" "tw_tx w1 = tw_tx w"
    using only_locks_rep [OF assms(5)] assms(5) inv(1,2) same_states_trans by (auto simp: only_locks_def)
  obtain w2 where w2: "undo_all (tl_event (tw_tx w)) w1 e = Some (w2, e)" "rep w2 A0" "same_states w0 w2" "tw_tx w2 = tw_tx w1"
    using undo_path [OF inv(3) families_ok [OF assms(2)] w1(1,2)] by blast
  have "published w2 T (view w2 T A0)"
    by (rule no_locals_published [OF w2(2) _ assms(4)]) (simp add: same_states_eqs(3) [OF w2(3)] assms(3))
  with w2 w1(3) show ?thesis by (auto simp: same_states_eqs(2) [OF w2(3)])
qed

end
