(* ===== verification/Txlib_Module.thy ===== *)
theory Txlib_Module
  imports Txlib_Runs Picotm_Tx
begin

text \<open>
  The module of the transactional data types as picotm sees it (\<open>modules/txlib/src/txlib_module.c\<close>): the
  call-backs of its table, its events in the log of a transaction, and a whole transaction, from the
  calls on the containers to the commit or the rollback.  The call-backs act on an optional world, with
  \<open>None\<close> for a call that does not return.
\<close>

definition tx_push ::
  "(picotm_event list, 'a) allocator \<Rightarrow> ('w picotm_tx \<times> 'a heap_env) event_append"
where
  "tx_push realloc module head tail p error =
     (case p of (tx, env) \<Rightarrow>
        (case picotm_tx_append_event realloc tx module head tail env error of
           (tx, env, error) \<Rightarrow> ((tx, env), error)))"

definition world_call ::
  "('k txlib_world \<Rightarrow> picotm_error \<Rightarrow> ('k txlib_world \<times> picotm_error) option) \<Rightarrow> 'k txlib_world option module_call"
where
  "world_call f w error =
     (case w of None \<Rightarrow> (None, error)
      | Some w \<Rightarrow> (case f w error of None \<Rightarrow> (None, error) | Some (w, error) \<Rightarrow> (Some w, error)))"

definition txlib_module_prepare_commit where
  "txlib_module_prepare_commit wt = txlib_tx_prepare_commit wt"

definition txlib_module_apply_event where
  "txlib_module_apply_event head tail = txlib_tx_apply_event head tail"

definition txlib_module_undo_event where
  "txlib_module_undo_event head tail = txlib_tx_undo_event head tail"

definition txlib_module_finish where
  "txlib_module_finish w = txlib_tx_finish w"

definition txlib_prepare_commit_cb :: "lock_waits \<Rightarrow> pointer \<Rightarrow> bool \<Rightarrow> 'k txlib_world option module_call" where
  "txlib_prepare_commit_cb wt data is_irrevocable = world_call (txlib_module_prepare_commit wt)"

definition txlib_apply_event_cb :: "u16 \<Rightarrow> u64 \<Rightarrow> pointer \<Rightarrow> 'k txlib_world option module_call" where
  "txlib_apply_event_cb head tail data = world_call (txlib_module_apply_event head tail)"

definition txlib_undo_event_cb :: "u16 \<Rightarrow> u64 \<Rightarrow> pointer \<Rightarrow> 'k txlib_world option module_call" where
  "txlib_undo_event_cb head tail data = world_call (txlib_module_undo_event head tail)"

definition txlib_finish_cb :: "pointer \<Rightarrow> 'k txlib_world option module_call" where
  "txlib_finish_cb data = world_call (\<lambda>w error. Some (txlib_module_finish w, error))"

text \<open>The table of call-backs, with a parameter for what releasing the thread's state does.\<close>

definition txlib_ops ::
  "('k txlib_world option \<Rightarrow> 'k txlib_world option) \<Rightarrow> lock_waits \<Rightarrow> 'k txlib_world option picotm_module_ops"
where
  "txlib_ops release_state wt =
     \<lparr>mop_begin = None, mop_prepare_commit = Some (txlib_prepare_commit_cb wt), mop_apply = None, mop_undo = None,
      mop_apply_event = Some txlib_apply_event_cb, mop_undo_event = Some txlib_undo_event_cb, mop_finish = Some txlib_finish_cb,
      mop_release = Some (\<lambda>data. release_state)\<rparr>"

definition init_txlib_module ::
  "('k txlib_world option \<Rightarrow> 'k txlib_world option) \<Rightarrow> lock_waits \<Rightarrow> pointer \<Rightarrow>
   'k txlib_world option picotm_tx \<Rightarrow> 'k txlib_world \<Rightarrow> picotm_error \<Rightarrow>
   'k txlib_world option picotm_tx \<times> 'k txlib_world \<times> picotm_error"
where
  "init_txlib_module release_state wt data tx w error =
     (let (module_id, tx, error) = picotm_tx_register_module tx (txlib_ops release_state wt) data error
      in if picotm_error_is_set error then (tx, w, error)
         else (tx, w\<lparr>tw_tx := txlib_tx_init (of_nat module_id)\<rparr>, error))"

subsection \<open>The log of a transaction\<close>

definition realloc_total :: "(picotm_event list, 'a) allocator \<Rightarrow> bool" where
  "realloc_total realloc \<longleftrightarrow> realloc_ok realloc \<and> (\<forall>a b bytes. fst (realloc a b bytes) \<noteq> None)"

definition tx_log_holds ::
  "(picotm_event list, 'a) allocator \<Rightarrow> 'w picotm_module list \<Rightarrow> u64 \<Rightarrow> nat \<Rightarrow>
   'w picotm_tx \<times> 'a heap_env \<Rightarrow> bool"
where
  "tx_log_holds realloc ms m n p \<longleftrightarrow> realloc_total realloc \<and> tx_module (fst p) = ms \<and> log_ok (he_lowmem (snd p)) (tx_log (fst p)) \<and>
     unat (eventtablen (tx_log (fst p))) = n \<and>
     log_events (tx_log (fst p)) = map (\<lambda>i. PICOTM_EVENT_INITIALIZER m 0 (of_nat i)) [0..<n]"

lemma log_end_alloc_total:
  assumes "realloc_total realloc" and "log_ok (he_lowmem env) self" and "unat (eventtablen self) < 2 ^ 59"
    and "picotm_log_end_alloc realloc self env e = (self', env', e')" and "\<not> picotm_error_is_set e"
  shows "\<not> picotm_error_is_set e'"
proof (cases "eventtablen self + 1 \<le> eventtabsiz self")
  case False
  define m where "m = eventtablen self + 1"
  have m: "unat m = unat (eventtablen self) + 1" unfolding m_def by (rule unat_plus_one_59 [OF assms(3)])
  have some: "\<exists>t en a'. realloc a b bytes = (Some t, en, a')" for a b bytes
    using assms(1) unfolding realloc_total_def by (metis not_None_eq prod.collapse)
  have "fst (tabresize_attempt realloc (he_lowmem env) (he_alloc env) (eventtab self) (eventtabsiz self) m 16
      (he_errno env)) \<noteq> None"
  proof (cases "he_lowmem env \<or> rndpow2 (eventtabsiz self) \<noteq> rndpow2 m")
    case True
    then show ?thesis using some by (auto simp: tabresize_attempt_def Let_def) (metis fst_conv option.distinct(1))+
  next
    case same: False
    have "unat m \<le> unat (rndpow2 m)" using rndpow2_ge [of m] m assms(3) by simp
    then have "block_of (eventtab self) \<noteq> []" using same assms(2) m by (auto simp: log_ok_def)
    then show ?thesis using same by (auto simp: tabresize_attempt_def split: option.splits)
  qed
  then obtain t en a where "tabresize_attempt realloc (he_lowmem env) (he_alloc env) (eventtab self)
      (eventtabsiz self) m 16 (he_errno env) = (Some t, en, a)" by (metis fst_conv not_None_eq prod_cases3)
  then show ?thesis using False assms(4,5)
    by (simp add: picotm_log_end_alloc_def m_def [symmetric] sizeof_picotm_event_def tabresize_def)
qed (use assms(4,5) in \<open>simp add: picotm_log_end_alloc_def\<close>)

lemma log_append_total:
  assumes "realloc_total realloc" and "log_ok (he_lowmem env) self" and "unat (eventtablen self) < 2 ^ 59"
    and "picotm_log_append realloc self ev env e = (self', env', e')" and "\<not> picotm_error_is_set e"
  shows "\<not> picotm_error_is_set e'" and "unat (eventtablen self') = Suc (unat (eventtablen self))"
proof -
  obtain self1 env1 e1 where alloc: "picotm_log_end_alloc realloc self env e = (self1, env1, e1)"
    by (rule prod_cases3)
  have ok: "\<not> picotm_error_is_set e1" by (rule log_end_alloc_total [OF assms(1-3) alloc assms(5)])
  have "eventtablen self1 = eventtablen self"
    using log_end_alloc [OF alloc _ assms(2,5,3)] assms(1) by (simp add: realloc_total_def)
  then show "\<not> picotm_error_is_set e'" "unat (eventtablen self') = Suc (unat (eventtablen self))"
    using alloc ok assms(4) unat_plus_one_59 [OF assms(3)]
    by (auto simp: picotm_log_append_def picotm_log_end_seal_def)
qed

text \<open>The log of picotm's transactions provides what the module asks of it.\<close>

interpretation tx_log: event_log "tx_push realloc" "tx_log_holds realloc ms" "2 ^ 59" for realloc ms
proof unfold_locales
  fix m n p
  assume holds: "tx_log_holds realloc ms m n p" and room: "n < 2 ^ 59"
  obtain tx env where p: "p = (tx, env)" by fastforce
  show "append_succeeds (tx_push realloc) p"
    using holds room log_append_total(1) [of realloc env "tx_log tx"]
    by (auto simp: append_succeeds_def tx_push_def p tx_log_holds_def picotm_tx_append_event_def split: prod.splits)
  fix e p' e'
  assume e: "\<not> picotm_error_is_set e" and push: "tx_push realloc m 0 (of_nat n) p e = (p', e')"
  obtain log env' where ap: "picotm_log_append realloc (tx_log tx) (PICOTM_EVENT_INITIALIZER m 0 (of_nat n)) env e =
      (log, env', e')" and p': "p' = (tx\<lparr>tx_log := log\<rparr>, env')"
    using push by (auto simp: tx_push_def p picotm_tx_append_event_def split: prod.splits)
  have h: "realloc_total realloc" "log_ok (he_lowmem env) (tx_log tx)" "unat (eventtablen (tx_log tx)) < 2 ^ 59"
      "unat (eventtablen (tx_log tx)) = n"
    using holds room by (simp_all add: p tx_log_holds_def)
  have "realloc_ok realloc" using h(1) by (simp add: realloc_total_def)
  from log_append_events [OF ap this h(2) e h(3)] log_append_total [OF h(1-3) ap e]
  show "tx_log_holds realloc ms m (Suc n) p'"
    using holds h by (simp add: p p' tx_log_holds_def)
qed

subsection \<open>The end of a transaction\<close>

lemma lock_entries_total:
  assumes "\<And>tx w e. \<exists>w' e'. lock tx w e = Some (w', e') \<and> only_locks w w'"
  shows "\<exists>w' e'. lock_entries lock txs w e = Some (w', e') \<and> only_locks w w'"
proof (induction txs arbitrary: w e)
  case (Cons tx txs)
  obtain w1 e1 where "lock tx w e = Some (w1, e1)" "only_locks w w1" using assms by blast
  then show ?case using Cons.IH [of w1 e1] only_locks_trans [of w w1] by auto
qed simp

lemma prepare_commit_total:
  "\<exists>w' e'. txlib_tx_prepare_commit wt w e = Some (w', e') \<and> only_locks w w'"
proof -
  have queue: "\<exists>w' e'. txqueue_tx_lock wt tx w e = Some (w', e') \<and> only_locks w w'" for tx and w :: "'a txlib_world" and e
    by (cases "queue_local_is_empty w tx") (auto simp: txqueue_tx_lock_def intro: queue_wrlock_cases [of wt tx w e])
  have stack: "\<exists>w' e'. txstack_tx_lock wt tx w e = Some (w', e') \<and> only_locks w w'" for tx and w :: "'a txlib_world" and e
    by (cases "stack_local_is_empty w tx") (auto simp: txstack_tx_lock_def intro: stack_lock_cases [of wt tx w e])
  obtain w1 e1 where 1: "lock_txqueue_tx_entries wt w e = Some (w1, e1)" "only_locks w w1"
    using lock_entries_total [of "txqueue_tx_lock wt", OF queue] unfolding lock_txqueue_tx_entries_def by blast
  obtain w2 e2 where 2: "lock_txstack_tx_entries wt w1 e1 = Some (w2, e2)" "only_locks w1 w2"
    using lock_entries_total [of "txstack_tx_lock wt", OF stack] unfolding lock_txstack_tx_entries_def by blast
  show ?thesis using 1 2 only_locks_trans [OF 1(2) 2(2)] by (simp add: txlib_tx_prepare_commit_def)
qed

text \<open>Applying and undoing leave the transaction's events and the error alone.\<close>

lemma event_apply_keeps:
  "txlib_event_apply ev w e = Some (w', e') \<Longrightarrow> tw_tx w' = tw_tx w \<and> e' = e"
  by (cases ev) (auto simp: txlib_event_apply_def txqueue_tx_apply_push_def txstack_tx_apply_push_def
      split: if_splits option.splits)

lemma event_undo_keeps:
  "txlib_event_undo ev w e = Some (w', e') \<Longrightarrow> tw_tx w' = tw_tx w \<and> e' = e"
  by (cases ev) (auto simp: txlib_event_undo_def txlist_tx_undo_insert_def txlist_tx_undo_erase_def
      txmultiset_tx_undo_insert_def txmultiset_tx_undo_erase_def txqueue_tx_undo_push_def txqueue_tx_undo_pop_def
      txstack_tx_undo_push_def txstack_tx_undo_pop_def split: if_splits)

definition world_result :: "('k txlib_world \<times> picotm_error) option \<Rightarrow> picotm_error \<Rightarrow> 'k txlib_world option \<times> picotm_error" where
  "world_result r e = (case r of None \<Rightarrow> (None, e) | Some (w, e) \<Rightarrow> (Some w, e))"

lemma world_call_eqs:
  "world_call f None e = (None, e)" "world_call f (Some w) e = world_result (f w e) e"
  by (simp_all add: world_call_def world_result_def split: option.splits)

lemma run_calls_world_none:
  "\<not> picotm_error_is_set e \<Longrightarrow> run_calls (map (\<lambda>i. world_call (f i)) is) None e = (None, e)"
  by (induction "is") (simp_all add: world_call_eqs)

lemma unat_cookie: "i < 2 ^ 59 \<Longrightarrow> unat (of_nat i :: u64) = i"
  by (simp add: unat_of_nat take_bit_nat_eq_self)

lemma run_apply_calls:
  assumes "\<not> picotm_error_is_set e" and "length evs < 2 ^ 59" and "\<forall>i\<in>set is. i < length evs"
    and "tl_event (tw_tx w) = evs"
  shows "run_calls (map (\<lambda>i. world_call (txlib_tx_apply_event 0 (of_nat i))) is) (Some w) e =
    world_result (apply_all (map ((!) evs) is) w e) e"
  using assms(3,4)
proof (induction "is" arbitrary: w)
  case (Cons i "is")
  have ev: "txlib_tx_apply_event 0 (of_nat i) w e = txlib_event_apply (evs ! i) w e"
    using Cons.prems assms(2) unat_cookie [of i] by (simp add: txlib_tx_apply_event_def)
  show ?case
  proof (cases "txlib_event_apply (evs ! i) w e")
    case None
    then show ?thesis using assms(1) ev by (simp add: world_call_eqs world_result_def run_calls_world_none)
  next
    case (Some r)
    then obtain w1 where w1: "txlib_event_apply (evs ! i) w e = Some (w1, e)" "tw_tx w1 = tw_tx w"
      using event_apply_keeps by (cases r) blast
    then show ?thesis using assms(1) ev Cons by (simp add: world_call_eqs) (simp add: world_result_def)
  qed
qed (simp add: world_result_def)

lemma undo_all_snoc:
  "undo_all (evs @ [ev]) w e =
    (case txlib_event_undo ev w e of None \<Rightarrow> None | Some (w, e) \<Rightarrow> undo_all evs w e)"
  by (induction evs) (auto split: option.splits)

lemma run_undo_calls:
  assumes "\<not> picotm_error_is_set e" and "length evs < 2 ^ 59" and "\<forall>i\<in>set is. i < length evs"
    and "tl_event (tw_tx w) = evs"
  shows "run_calls (map (\<lambda>i. world_call (txlib_tx_undo_event 0 (of_nat i))) (rev is)) (Some w) e =
    world_result (undo_all (map ((!) evs) is) w e) e"
  using assms(3,4)
proof (induction "is" arbitrary: w rule: rev_induct)
  case (snoc i "is")
  have ev: "txlib_tx_undo_event 0 (of_nat i) w e = txlib_event_undo (evs ! i) w e"
    using snoc.prems assms(2) unat_cookie [of i] by (simp add: txlib_tx_undo_event_def)
  show ?case
  proof (cases "txlib_event_undo (evs ! i) w e")
    case None
    then show ?thesis using assms(1) ev
      by (simp add: world_call_eqs world_result_def undo_all_snoc run_calls_world_none)
  next
    case (Some r)
    then obtain w1 where w1: "txlib_event_undo (evs ! i) w e = Some (w1, e)" "tw_tx w1 = tw_tx w"
      using event_undo_keeps by (cases r) blast
    then show ?thesis using assms(1) ev snoc by (simp add: world_call_eqs undo_all_snoc) (simp add: world_result_def)
  qed
qed (simp add: world_result_def)

text \<open>Finishing gives up the locks and the events and keeps every container.\<close>

definition same_heaps :: "'k txlib_world \<Rightarrow> 'k txlib_world \<Rightarrow> bool" where
  "same_heaps w w' \<longleftrightarrow> same_states w w' \<and> tw_queue w' = tw_queue w \<and> tw_list w' = tw_list w \<and>
     tw_stack w' = tw_stack w"

lemma same_heaps_trans: "same_heaps w1 w2 \<Longrightarrow> same_heaps w2 w3 \<Longrightarrow> same_heaps w1 w3"
  by (auto simp: same_heaps_def dest: same_states_trans)

lemma same_heaps_tx [simp]: "same_heaps w (w'\<lparr>tw_tx := t\<rparr>) = same_heaps w w'"
  by (simp add: same_heaps_def)

lemma same_heaps_published: "same_heaps w w' \<Longrightarrow> published w' T v = published w T v"
  by (simp add: published_def same_heaps_def rep_def same_statesD [of w w'])

lemma same_heaps_rep: "same_heaps w w' \<Longrightarrow> rep w' A = rep w A"
  by (simp add: same_heaps_def rep_def)

lemma container_finish_heaps:
  "same_heaps w (txlist_tx_finish tx w)" "same_heaps w (txqueue_tx_finish tx w)"
  "same_heaps w (txstack_tx_finish tx w)" "same_heaps w (txmultiset_tx_finish tx w)"
  by (auto simp: same_heaps_def txlist_tx_finish_def txqueue_tx_finish_def txstack_tx_finish_def
      txmultiset_tx_finish_def same_states_def queue_state_of_def list_state_of_def stack_state_of_def
      fun_eq_iff Let_def split: prod.splits)

lemma container_finish_tx:
  "tw_tx (txlist_tx_finish tx w) = tw_tx w" "tw_tx (txqueue_tx_finish tx w) = tw_tx w"
  "tw_tx (txstack_tx_finish tx w) = tw_tx w" "tw_tx (txmultiset_tx_finish tx w) = tw_tx w"
  by (simp_all add: txlist_tx_finish_def txqueue_tx_finish_def txstack_tx_finish_def txmultiset_tx_finish_def
      Let_def split: prod.splits)

lemma cleanup_entries_heaps:
  assumes "\<And>tx w. same_heaps w (finish tx w)" and "\<And>tx w. tw_tx (finish tx w) = tw_tx w"
  shows "same_heaps w (cleanup_entries finish txs w) \<and>
    (\<exists>as. tw_tx (cleanup_entries finish txs w) = (tw_tx w)\<lparr>tl_allocated_entries := as\<rparr>)"
proof (induction txs arbitrary: w)
  case Nil
  then show ?case by (auto simp: cleanup_entries_def same_heaps_def intro: exI [of _ "tl_allocated_entries (tw_tx w)"])
next
  case (Cons tx txs)
  let ?w = "(finish tx w)\<lparr>tw_tx := (tw_tx w)\<lparr>tl_allocated_entries := tx # tl_allocated_entries (tw_tx w)\<rparr>\<rparr>"
  have "cleanup_entries finish (tx # txs) w = cleanup_entries finish txs ?w"
    by (simp add: cleanup_entries_def Let_def assms(2))
  moreover have "same_heaps w ?w" using assms(1) by simp
  ultimately show ?case using Cons.IH [of ?w] same_heaps_trans [of w ?w] by auto
qed

theorem finish_heaps:
  "same_heaps w (txlib_tx_finish w)" "tl_event (tw_tx (txlib_tx_finish w)) = []"
  "tl_module (tw_tx (txlib_tx_finish w)) = tl_module (tw_tx w)"
proof -
  note C = cleanup_entries_heaps [of txlist_tx_finish, OF container_finish_heaps(1) container_finish_tx(1)]
    cleanup_entries_heaps [of txmultiset_tx_finish, OF container_finish_heaps(4) container_finish_tx(4)]
    cleanup_entries_heaps [of txqueue_tx_finish, OF container_finish_heaps(2) container_finish_tx(2)]
    cleanup_entries_heaps [of txstack_tx_finish, OF container_finish_heaps(3) container_finish_tx(3)]
  define w1 where "w1 = w\<lparr>tw_tx := (tw_tx w)\<lparr>tl_event := []\<rparr>\<rparr>"
  define w2 where "w2 = cleanup_entries txlist_tx_finish (tl_acquired_list_tx (tw_tx w1)) w1"
  define w3 where "w3 = w2\<lparr>tw_tx := (tw_tx w2)\<lparr>tl_acquired_list_tx := []\<rparr>\<rparr>"
  define w4 where "w4 = cleanup_entries txmultiset_tx_finish (tl_acquired_multiset_tx (tw_tx w3)) w3"
  define w5 where "w5 = w4\<lparr>tw_tx := (tw_tx w4)\<lparr>tl_acquired_multiset_tx := []\<rparr>\<rparr>"
  define w6 where "w6 = cleanup_entries txqueue_tx_finish (tl_acquired_queue_tx (tw_tx w5)) w5"
  define w7 where "w7 = w6\<lparr>tw_tx := (tw_tx w6)\<lparr>tl_acquired_queue_tx := []\<rparr>\<rparr>"
  define w8 where "w8 = cleanup_entries txstack_tx_finish (tl_acquired_stack_tx (tw_tx w7)) w7"
  have fin: "txlib_tx_finish w = w8\<lparr>tw_tx := (tw_tx w8)\<lparr>tl_acquired_stack_tx := []\<rparr>\<rparr>"
    unfolding txlib_tx_finish_def Let_def w8_def w7_def w6_def w5_def w4_def w3_def w2_def w1_def ..
  have "same_heaps w w1" by (simp add: w1_def same_heaps_def)
  moreover have "same_heaps w1 w3" using C(1) [of w1] by (simp add: w3_def w2_def)
  moreover have "same_heaps w3 w5" using C(2) [of w3] by (simp add: w5_def w4_def)
  moreover have "same_heaps w5 w7" using C(3) [of w5] by (simp add: w7_def w6_def)
  moreover have "same_heaps w7 w8" using C(4) [of w7] by (simp add: w8_def)
  ultimately show "same_heaps w (txlib_tx_finish w)" unfolding fin same_heaps_tx by (meson same_heaps_trans)
  obtain a2 where "tw_tx w2 = (tw_tx w1)\<lparr>tl_allocated_entries := a2\<rparr>" using C(1) unfolding w2_def by blast
  moreover obtain a4 where "tw_tx w4 = (tw_tx w3)\<lparr>tl_allocated_entries := a4\<rparr>" using C(2) unfolding w4_def by blast
  moreover obtain a6 where "tw_tx w6 = (tw_tx w5)\<lparr>tl_allocated_entries := a6\<rparr>" using C(3) unfolding w6_def by blast
  moreover obtain a8 where "tw_tx w8 = (tw_tx w7)\<lparr>tl_allocated_entries := a8\<rparr>" using C(4) unfolding w8_def by blast
  ultimately show "tl_event (tw_tx (txlib_tx_finish w)) = []" "tl_module (tw_tx (txlib_tx_finish w)) = tl_module (tw_tx w)"
    unfolding fin by (simp_all add: w7_def w5_def w3_def w1_def)
qed

subsection \<open>Commit and rollback\<close>

text \<open>A transaction that uses the transactional data types only, with its log.\<close>

definition txlib_only ::
  "('k txlib_world option \<Rightarrow> 'k txlib_world option) \<Rightarrow> lock_waits \<Rightarrow> pointer \<Rightarrow> 'k txlib_world option picotm_tx \<Rightarrow> bool"
where
  "txlib_only release_state wt data tx \<longleftrightarrow>
     tx_module tx = [picotm_module_init (txlib_ops release_state wt) data]"

lemma txlib_only_calls:
  assumes "txlib_only release_state wt data tx" and "log_events (tx_log tx) = map (\<lambda>i. PICOTM_EVENT_INITIALIZER 0 0 (of_nat i)) [0..<n]"
  shows "prepare_calls tx = [world_call (txlib_tx_prepare_commit wt)]"
    and "publish_calls tx = (\<lambda>w e. (w, e)) # map (\<lambda>i. world_call (txlib_tx_apply_event 0 (of_nat i))) [0..<n] @
      [world_call (\<lambda>w e. Some (txlib_tx_finish w, e))]"
    and "undo_calls tx = (\<lambda>w e. (w, e)) # map (\<lambda>i. world_call (txlib_tx_undo_event 0 (of_nat i))) (rev [0..<n]) @
      [world_call (\<lambda>w e. Some (txlib_tx_finish w, e))]"
  using assms
  by (simp_all add: txlib_only_def prepare_calls_def publish_calls_def undo_calls_def picotm_module_init_def
      txlib_ops_def fun_eq_iff picotm_module_prepare_commit_def picotm_module_apply_def picotm_module_undo_def
      picotm_module_finish_def apply_event_def undo_event_def picotm_module_apply_event_def
      picotm_module_undo_event_def PICOTM_EVENT_INITIALIZER_def txlib_prepare_commit_cb_def
      txlib_apply_event_cb_def txlib_undo_event_cb_def txlib_finish_cb_def txlib_module_prepare_commit_def
      txlib_module_apply_event_def txlib_module_undo_event_def txlib_module_finish_def rev_map comp_def)

lemma tx_log_holds_ok: "tx_log_holds realloc ms m n (tx, env) \<Longrightarrow> tx_log_ok tx"
  using log_ok_lowmem [of "he_lowmem env" "tx_log tx" True]
  by (auto simp: tx_log_holds_def tx_log_ok_def log_ok_def log_table_def word_le_nat_alt)

lemma run_inv_locks: "run_inv w0 A0 T calls w A \<Longrightarrow> only_locks w w1 \<Longrightarrow> run_inv w0 A0 T calls w1 A"
  using only_locks_rep [of w w1 A] same_states_trans [of w0 w w1] by (simp add: run_inv_def only_locks_def)

lemma events_of_run:
  assumes "run_inv w0 A0 T calls w A"
  shows "map ((!) (tl_event (tw_tx w))) [0..<length calls] = tl_event (tw_tx w)"
    and "length (tl_event (tw_tx w)) = length calls"
  using assms map_nth [of "tl_event (tw_tx w)"] by (simp_all add: run_inv_def)

theorem commit_publishes:
  assumes "run_inv w0 A0 T calls w A" and "txlib_only release_state wt data tx" and "tx_log_holds realloc ms 0 (length calls) (tx, env)"
    and "length calls < 2 ^ 59" and "\<not> picotm_error_is_set e"
  shows "\<exists>tx' lm' w' e'. picotm_tx_commit tx lm (Some w) e = Some (tx', lm', Some w', e') \<and>
    (if picotm_error_is_set e' then tx' = tx \<and> run_inv w0 A0 T calls w' A
     else published w' T (fold call_view calls (view w0 T A0)) \<and> tl_event (tw_tx w') = [])"
proof -
  note C = txlib_only_calls [OF assms(2), of "length calls"]
  note L = events_of_run [OF assms(1)]
  have events: "log_events (tx_log tx) = map (\<lambda>i. PICOTM_EVENT_INITIALIZER 0 0 (of_nat i)) [0..<length calls]"
    using assms(3) by (simp add: tx_log_holds_def)
  obtain w1 e1 where prep: "txlib_tx_prepare_commit wt w e = Some (w1, e1)" "only_locks w w1"
    using prepare_commit_total by blast
  have run1: "run_calls (prepare_calls tx) (Some w) e = (Some w1, e1)"
    using prep by (simp add: C(1) [OF events] world_call_eqs world_result_def)
  from commit_protocol [OF tx_log_holds_ok [OF assms(3)] assms(5), of lm "Some w"]
  obtain tx1 where commit: "picotm_tx_commit tx lm (Some w) e =
    Some (if picotm_error_is_set e1 then (tx, lm, Some w1, e1)
      else (case run_calls (publish_calls tx) (Some w1) e1 of (w2, e2) \<Rightarrow>
        if picotm_error_is_set e2 then (tx1, lm, w2, picotm_error_mark_as_non_recoverable e2)
        else (tx\<lparr>tx_log := picotm_log_clear (tx_log tx)\<rparr>,
              picotm_lock_manager_release_irrevocability (tx_lo tx) lm, w2, e2)))"
    unfolding run1 by auto
  show ?thesis
  proof (cases "picotm_error_is_set e1")
    case True
    then show ?thesis using commit run_inv_locks [OF assms(1) prep(2)] by simp
  next
    case False
    obtain w2 where w2: "apply_all (tl_event (tw_tx w)) w1 e1 = Some (w2, e1)"
        "published w2 T (fold call_view calls (view w0 T A0))"
      using run_applies [OF assms(1) prep(2)] by blast
    have "tl_event (tw_tx w1) = tl_event (tw_tx w)" using prep(2) by (simp add: only_locks_def)
    then have "run_calls (map (\<lambda>i. world_call (txlib_tx_apply_event 0 (of_nat i))) [0..<length calls]) (Some w1) e1 = (Some w2, e1)"
      using run_apply_calls [OF False, of "tl_event (tw_tx w)" "[0..<length calls]" w1] L w2 assms(4) by (simp add: world_result_def)
    then have "run_calls (publish_calls tx) (Some w1) e1 = (Some (txlib_tx_finish w2), e1)"
      using False by (simp add: C(2) [OF events] run_calls_append world_call_eqs world_result_def)
    then show ?thesis using False commit w2(2) finish_heaps [of w2] same_heaps_published [of w2 "txlib_tx_finish w2"] by simp
  qed
qed

theorem rollback_restores:
  assumes "run_inv w0 A0 T calls w A" and "txlib_only release_state wt data tx" and "tx_log_holds realloc ms 0 (length calls) (tx, env)"
    and "length calls < 2 ^ 59" and "\<not> picotm_error_is_set e"
    and "rep w0 A0" and "all_txs_ok w0 T A0" and "no_locals T A0"
  shows "\<exists>tx' lm' w'. picotm_tx_rollback tx lm (Some w) e = Some (tx', lm', Some w', e) \<and>
    rep w' A0 \<and> published w' T (view w0 T A0) \<and> tl_event (tw_tx w') = []"
proof -
  note C = txlib_only_calls [OF assms(2), of "length calls"]
  note L = events_of_run [OF assms(1)]
  have events: "log_events (tx_log tx) = map (\<lambda>i. PICOTM_EVENT_INITIALIZER 0 0 (of_nat i)) [0..<length calls]"
    using assms(3) by (simp add: tx_log_holds_def)
  obtain w2 where w2: "undo_all (tl_event (tw_tx w)) w e = Some (w2, e)" "rep w2 A0" "published w2 T (view w0 T A0)"
    using run_undoes [OF assms(1,6-8) only_locks_refl] by blast
  have "run_calls (map (\<lambda>i. world_call (txlib_tx_undo_event 0 (of_nat i))) (rev [0..<length calls])) (Some w) e = (Some w2, e)"
    using run_undo_calls [OF assms(5), of "tl_event (tw_tx w)" "[0..<length calls]" w] L w2(1) assms(4) by (simp add: world_result_def)
  then have run: "run_calls (undo_calls tx) (Some w) e = (Some (txlib_tx_finish w2), e)"
    using assms(5) by (simp add: C(3) [OF events] run_calls_append world_call_eqs world_result_def)
  from rollback_protocol [OF tx_log_holds_ok [OF assms(3)] assms(5), of lm "Some w"] run assms(5)
  have "\<exists>tx' lm'. picotm_tx_rollback tx lm (Some w) e = Some (tx', lm', Some (txlib_tx_finish w2), e)" by auto
  then show ?thesis
    using w2 finish_heaps [of w2] same_heaps_published [of w2 "txlib_tx_finish w2"] same_heaps_rep [of w2 "txlib_tx_finish w2"]
    by auto
qed

text \<open>A transaction that has just begun, on containers that are described by \<open>A\<close>.\<close>

definition txlib_begun ::
  "(picotm_event list, 'a) allocator \<Rightarrow> ('k txlib_world option \<Rightarrow> 'k txlib_world option) \<Rightarrow> lock_waits \<Rightarrow> pointer \<Rightarrow>
   txlib_txs \<Rightarrow> txlib_abs \<Rightarrow> 'k txlib_world \<Rightarrow> 'k txlib_world option picotm_tx \<Rightarrow> 'a heap_env \<Rightarrow> bool"
where
  "txlib_begun realloc release_state wt data T A w tx env \<longleftrightarrow> rep w A \<and> all_txs_ok w T A \<and> no_locals T A \<and>
     tl_event (tw_tx w) = [] \<and> tl_module (tw_tx w) = 0 \<and> txlib_only release_state wt data tx \<and>
     tx_log_holds realloc (tx_module tx) 0 0 (tx, env)"

lemma transaction_runs:
  assumes "txlib_begun realloc release_state wt data T A w tx env" and "calls_ok w T (view w T A) calls"
    and "length calls \<le> 2 ^ 59" and "\<not> picotm_error_is_set e"
  shows "\<exists>w1 tx1 env1 e1 n A1. exec_calls (tx_push realloc) wt calls w (tx, env) e = Some (w1, (tx1, env1), e1) \<and>
    n \<le> length calls \<and> (\<not> picotm_error_is_set e1 \<longrightarrow> n = length calls) \<and> run_inv w A T (take n calls) w1 A1 \<and>
    txlib_only release_state wt data tx1 \<and> tx_log_holds realloc (tx_module tx) 0 (length (take n calls)) (tx1, env1)"
proof -
  have b: "rep w A" "all_txs_ok w T A" "no_locals T A" "tl_event (tw_tx w) = []" "tl_module (tw_tx w) = 0"
      "txlib_only release_state wt data tx" "tx_log_holds realloc (tx_module tx) 0 0 (tx, env)"
    using assms(1) by (simp_all add: txlib_begun_def)
  have "\<exists>w1 p1 e1 n A1. exec_calls (tx_push realloc) wt calls w (tx, env) e = Some (w1, p1, e1) \<and>
      n \<le> length calls \<and> (\<not> picotm_error_is_set e1 \<longrightarrow> n = length calls) \<and> run_inv w A T ([] @ take n calls) w1 A1 \<and>
      tx_log_holds realloc (tx_module tx) (tl_module (tw_tx w)) (length ([] :: txlib_call list) + n) p1"
    by (rule tx_log.run_calls_inv [OF run_inv_start [OF b(1-4)]]) (use b assms(2-4) in simp_all)
  then obtain w1 p1 e1 n A1 where r: "exec_calls (tx_push realloc) wt calls w (tx, env) e = Some (w1, p1, e1)"
      "n \<le> length calls" "\<not> picotm_error_is_set e1 \<longrightarrow> n = length calls" "run_inv w A T ([] @ take n calls) w1 A1"
      "tx_log_holds realloc (tx_module tx) 0 n p1" using b(5) by force
  obtain tx1 env1 where p1: "p1 = (tx1, env1)" by fastforce
  have "txlib_only release_state wt data tx1"
    using b(6) r(5) by (simp add: p1 tx_log_holds_def txlib_only_def)
  with r p1 show ?thesis
    by (intro exI [of _ w1] exI [of _ tx1] exI [of _ env1] exI [of _ e1] exI [of _ n] exI [of _ A1]) simp
qed

end
