(* ===== verification/Txlib_Reads.thy ===== *)
theory Txlib_Reads
  imports Txlib_Runs
begin

text \<open>
  The calls that read a queue, list or stack: they take the reader lock where they need it and answer from
  the shared and the local entries together, so that a transaction sees its own changes.
\<close>

definition reads :: "'k txlib_world \<Rightarrow> ('a \<times> 'k txlib_world \<times> picotm_error) option \<Rightarrow> 'a \<Rightarrow> bool" where
  "reads w r x \<longleftrightarrow>
     (\<exists>y w' e'. r = Some (y, w', e') \<and> only_locks w w' \<and> (\<not> picotm_error_is_set e' \<longrightarrow> y = x))"

lemma only_locks_heaps:
  "only_locks w w' \<Longrightarrow> tw_queue w' = tw_queue w \<and> tw_list w' = tw_list w \<and> tw_stack w' = tw_stack w \<and>
     queue_state_of w' = queue_state_of w \<and> list_state_of w' = list_state_of w \<and> stack_state_of w' = stack_state_of w"
  by (simp add: only_locks_def same_statesD [of w w'])

lemma list_rdlock_cases:
  obtains w' e' where "txlist_tx_try_rdlock wt self w e = Some (w', e')" and "only_locks w w'"
proof -
  let ?tx = "tw_list_tx w self"
  obtain rw l e' where "picotm_rwstate_try_rdlock (lw_wait wt) (lw_sleep wt) (lt_list_state ?tx) (lt_state ?tx)
      (tw_lock w (lt_list_state ?tx)) e = Some (rw, l, e')" using rwstate_try_lock_total(1) by (metis prod_cases3)
  then show thesis using that
    by (auto simp: txlist_tx_try_rdlock_def only_locks_def same_states_def queue_state_of_def
        list_state_of_def stack_state_of_def fun_eq_iff Let_def)
qed

lemma stack_rdlock_cases:
  obtains w' e' where "txstack_tx_try_rdlock wt self w e = Some (w', e')" and "only_locks w w'"
proof -
  let ?tx = "tw_stack_tx w self"
  obtain rw l e' where "picotm_rwstate_try_rdlock (lw_wait wt) (lw_sleep wt) (st_stack_state ?tx) (st_state ?tx)
      (tw_lock w (st_stack_state ?tx)) e = Some (rw, l, e')" using rwstate_try_lock_total(1) by (metis prod_cases3)
  then show thesis using that
    by (auto simp: txstack_tx_try_rdlock_def only_locks_def same_states_def queue_state_of_def
        list_state_of_def stack_state_of_def fun_eq_iff Let_def)
qed

lemma queue_reads:
  assumes "rep w A" and "ab_queue A qt = Some l" and "ab_queue A (queue_state_of w qt) = Some g"
  shows "reads w (txqueue_tx_exec_empty wt qt w e) (g @ l = [])"
    and "reads w (txqueue_tx_exec_size wt qt w e) (of_nat (length (g @ l)))"
    and "g @ l \<noteq> [] \<Longrightarrow> reads w (txqueue_tx_exec_front wt qt w e) (hd (g @ l))"
    and "g @ l \<noteq> [] \<Longrightarrow> reads w (txqueue_tx_exec_back wt qt w e) (last (g @ l))"
proof -
  have h: "rings (tw_queue w) (ab_queue A)" using assms(1) by (simp add: rep_def)
  have "qt \<notin> set l" using family_okD(2) [OF families_ok(1) [OF assms(1)] assms(2)] .
  then have empty: "queue_local_is_empty w qt \<longleftrightarrow> l = []"
    using ring_ends(1) [OF h assms(2)]
    by (cases l) (auto simp: queue_local_is_empty_def queue_local_begin_def queue_local_end_def txqueue_entry_next_def)
  have front: "queue_local_front w qt = hd (l @ [qt])" and back_entry: "queue_local_back w qt = last (qt # l)"
    using ring_ends [OF h assms(2)]
    by (simp_all add: queue_local_front_def queue_local_begin_def queue_local_back_def queue_local_end_def
        txqueue_entry_next_def txqueue_entry_prev_def)
  have "txqueue_entry_next (tw_queue w) = rh_next (tw_queue w)" by (simp add: fun_eq_iff txqueue_entry_next_def)
  then have count: "txqueue_entry_distance (tw_queue w) (queue_local_begin w qt) (queue_local_end qt) = Some (of_nat (length l))"
    using ring_distance [OF h assms(2)]
    by (simp add: txqueue_entry_distance_def queue_local_begin_def queue_local_end_def)
  note S = queue_state_facts [OF h assms(3)]
  obtain w1 e1 where lock: "txqueue_tx_try_rdlock wt qt w e = Some (w1, e1)" "only_locks w w1"
    using queue_rdlock_cases by blast
  note K = only_locks_heaps [OF lock(2)]
  have [simp]: "queue_local_front w1 qt = queue_local_front w qt"
    by (simp add: queue_local_front_def queue_local_begin_def K)
  show "reads w (txqueue_tx_exec_empty wt qt w e) (g @ l = [])"
    using lock K S(4) empty by (auto simp: reads_def txqueue_tx_exec_empty_def)
  show "reads w (txqueue_tx_exec_size wt qt w e) (of_nat (length (g @ l)))"
    using lock K S(5) count by (simp add: reads_def txqueue_tx_exec_size_def)
  show "reads w (txqueue_tx_exec_front wt qt w e) (hd (g @ l))" if "g @ l \<noteq> []"
    using lock K S(2,4) front that by (auto simp: reads_def txqueue_tx_exec_front_def hd_append)
  show "reads w (txqueue_tx_exec_back wt qt w e) (last (g @ l))" if "g @ l \<noteq> []"
    using lock K S(3) back_entry empty that by (auto simp: reads_def txqueue_tx_exec_back_def)
qed

lemma list_reads:
  assumes "rep w A" and "ab_list A (list_state_of w lt) = Some g"
  shows "reads w (txlist_tx_exec_empty wt lt w e) (g = [])"
    and "reads w (txlist_tx_exec_size wt lt w e) (of_nat (length g))"
    and "g \<noteq> [] \<Longrightarrow> reads w (txlist_tx_exec_front wt lt w e) (hd g)"
    and "g \<noteq> [] \<Longrightarrow> reads w (txlist_tx_exec_back wt lt w e) (last g)"
    and "reads w (txlist_tx_exec_begin wt lt w e) (hd (g @ [txlist_tx_exec_end lt w]))"
proof -
  have h: "rings (tw_list w) (ab_list A)" using assms(1) by (simp add: rep_def)
  note S = list_state_facts [OF h assms(2)]
  obtain w1 e1 where lock: "txlist_tx_try_rdlock wt lt w e = Some (w1, e1)" "only_locks w w1"
    using list_rdlock_cases by blast
  note K = only_locks_heaps [OF lock(2)]
  show "reads w (txlist_tx_exec_empty wt lt w e) (g = [])"
    using lock K S(4) by (auto simp: reads_def txlist_tx_exec_empty_def)
  show "reads w (txlist_tx_exec_size wt lt w e) (of_nat (length g))"
    using lock K S(5) by (simp add: reads_def txlist_tx_exec_size_def)
  show "reads w (txlist_tx_exec_front wt lt w e) (hd g)" if "g \<noteq> []"
    using lock K S(2) that by (simp add: reads_def txlist_tx_exec_front_def)
  show "reads w (txlist_tx_exec_back wt lt w e) (last g)" if "g \<noteq> []"
    using lock K S(3) that by (simp add: reads_def txlist_tx_exec_back_def)
  show "reads w (txlist_tx_exec_begin wt lt w e) (hd (g @ [txlist_tx_exec_end lt w]))"
    using lock K S(1) by (simp add: reads_def txlist_tx_exec_begin_def txlist_tx_exec_end_def txlist_state_end_def)
qed

lemma stack_reads:
  assumes "rep w A" and "ab_stack A st = Some l" and "ab_stack A (stack_state_of w st) = Some g"
  shows "reads w (txstack_tx_exec_empty wt st w e) (l @ g = [])"
    and "reads w (txstack_tx_exec_size wt st w e) (of_nat (length (l @ g)))"
    and "l @ g \<noteq> [] \<Longrightarrow> reads w (txstack_tx_exec_top wt st w e) (hd (l @ g))"
proof -
  have h: "stacks (tw_stack w) (ab_stack A)" using assms(1) by (simp add: rep_def)
  note L = stack_state_facts [OF h assms(2)]
  note S = stack_state_facts [OF h assms(3)]
  have "local": "stack_local_is_empty w st \<longleftrightarrow> l = []" "stack_local_top w st = hd (l @ [st])"
      "txstack_entry_distance (tw_stack w) (stack_local_begin w st) (stack_local_end st) = Some (of_nat (length l))"
    using L(2,3,4)
    by (simp_all add: stack_local_is_empty_def stack_local_top_def stack_local_begin_def stack_local_end_def
        txstack_state_is_empty_def txstack_state_begin_def txstack_state_end_def txstack_state_top_def txstack_state_size_def)
  obtain w1 e1 where lock: "txstack_tx_try_rdlock wt st w e = Some (w1, e1)" "only_locks w w1"
    using stack_rdlock_cases by blast
  note K = only_locks_heaps [OF lock(2)]
  show "reads w (txstack_tx_exec_empty wt st w e) (l @ g = [])"
    using lock K S(3) "local" by (auto simp: reads_def txstack_tx_exec_empty_def)
  show "reads w (txstack_tx_exec_size wt st w e) (of_nat (length (l @ g)))"
    using lock K S(4) "local" by (simp add: reads_def txstack_tx_exec_size_def)
  show "reads w (txstack_tx_exec_top wt st w e) (hd (l @ g))" if "l @ g \<noteq> []"
    using lock K S(2) "local" that by (auto simp: reads_def txstack_tx_exec_top_def hd_append)
qed

text \<open>All of them during a run, in terms of the sequences that the run has made.\<close>

lemma run_reads:
  assumes "run_inv w0 A0 T calls w A"
  defines "v \<equiv> fold call_view calls (view w0 T A0)"
  shows "qt \<in> ts_queue T \<Longrightarrow> reads w (txqueue_tx_exec_empty wt qt w e) (vw_queue v qt = []) \<and>
      reads w (txqueue_tx_exec_size wt qt w e) (of_nat (length (vw_queue v qt))) \<and>
      (vw_queue v qt \<noteq> [] \<longrightarrow> reads w (txqueue_tx_exec_front wt qt w e) (hd (vw_queue v qt)) \<and>
        reads w (txqueue_tx_exec_back wt qt w e) (last (vw_queue v qt)))"
    and "lt \<in> ts_list T \<Longrightarrow> reads w (txlist_tx_exec_empty wt lt w e) (vw_list v lt = []) \<and>
      reads w (txlist_tx_exec_size wt lt w e) (of_nat (length (vw_list v lt))) \<and>
      (vw_list v lt \<noteq> [] \<longrightarrow> reads w (txlist_tx_exec_front wt lt w e) (hd (vw_list v lt)) \<and>
        reads w (txlist_tx_exec_back wt lt w e) (last (vw_list v lt)))"
    and "st \<in> ts_stack T \<Longrightarrow> reads w (txstack_tx_exec_empty wt st w e) (vw_stack v st = []) \<and>
      reads w (txstack_tx_exec_size wt st w e) (of_nat (length (vw_stack v st))) \<and>
      (vw_stack v st \<noteq> [] \<longrightarrow> reads w (txstack_tx_exec_top wt st w e) (hd (vw_stack v st)))"
proof -
  have r: "same_states w0 w" "rep w A" "all_txs_ok w0 T A" "v = view w0 T A"
    using assms by (simp_all add: run_inv_def)
  have ok: "all_txs_ok w T A" and v: "v = view w T A"
    using same_states_eqs(2,3) [OF r(1)] r(3,4) by simp_all
  have txs: "txs_ok w (ts_queue T) (ts_stack T) A" using ok by (simp add: all_txs_ok_def)
  show "reads w (txqueue_tx_exec_empty wt qt w e) (vw_queue v qt = []) \<and>
      reads w (txqueue_tx_exec_size wt qt w e) (of_nat (length (vw_queue v qt))) \<and>
      (vw_queue v qt \<noteq> [] \<longrightarrow> reads w (txqueue_tx_exec_front wt qt w e) (hd (vw_queue v qt)) \<and>
        reads w (txqueue_tx_exec_back wt qt w e) (last (vw_queue v qt)))" if qt: "qt \<in> ts_queue T"
  proof -
    obtain l g where F: "ab_queue A qt = Some l" "ab_queue A (queue_state_of w qt) = Some g"
      using txs_okD(1) [OF txs qt] by blast
    have "vw_queue v qt = g @ l" using F qt by (simp add: v view_def seen_queue_def)
    with queue_reads [OF r(2) F, of wt e] show ?thesis by simp
  qed
  show "reads w (txlist_tx_exec_empty wt lt w e) (vw_list v lt = []) \<and>
      reads w (txlist_tx_exec_size wt lt w e) (of_nat (length (vw_list v lt))) \<and>
      (vw_list v lt \<noteq> [] \<longrightarrow> reads w (txlist_tx_exec_front wt lt w e) (hd (vw_list v lt)) \<and>
        reads w (txlist_tx_exec_back wt lt w e) (last (vw_list v lt)))" if lt: "lt \<in> ts_list T"
  proof -
    obtain g where F: "ab_list A (list_state_of w lt) = Some g" "vw_list v lt = g"
      using list_txs [OF ok lt] v by metis
    with list_reads [OF r(2) F(1), of wt e] show ?thesis by simp
  qed
  show "reads w (txstack_tx_exec_empty wt st w e) (vw_stack v st = []) \<and>
      reads w (txstack_tx_exec_size wt st w e) (of_nat (length (vw_stack v st))) \<and>
      (vw_stack v st \<noteq> [] \<longrightarrow> reads w (txstack_tx_exec_top wt st w e) (hd (vw_stack v st)))" if st: "st \<in> ts_stack T"
  proof -
    obtain l g where F: "ab_stack A st = Some l" "ab_stack A (stack_state_of w st) = Some g"
      using txs_okD(4) [OF txs st] by blast
    have "vw_stack v st = l @ g" using F st by (simp add: v view_def seen_stack_def)
    with stack_reads [OF r(2) F, of wt e] show ?thesis by simp
  qed
qed

end
