(* ===== verification/Txlib_Correct.thy ===== *)
theory Txlib_Correct
  imports Txlib_Module Txlib_Reads
begin

text \<open>
  What the transactional data types promise to their users, from the calls of a transaction to its end in
  picotm's commit and rollback, with a small world of containers for the witnesses.
\<close>

subsection \<open>A small world\<close>

text \<open>
  A queue at 100 with the transaction 200, a list at 110 with the transaction 210, and a stack at 120 with
  the transaction 220; every resizing succeeds, and who cannot get a lock gives up.
\<close>

definition small_abs :: txlib_abs where
  "small_abs = \<lparr>ab_queue = [100 \<mapsto> [], 200 \<mapsto> []], ab_list = [110 \<mapsto> []], ab_stack = [120 \<mapsto> [], 220 \<mapsto> []]\<rparr>"

definition small_txs :: txlib_txs where
  "small_txs = \<lparr>ts_queue = {200}, ts_list = {210}, ts_stack = {220}\<rparr>"

definition no_rings :: ring_heap where
  "no_rings = \<lparr>rh_next = \<lambda>_. 0, rh_prev = \<lambda>_. 0\<rparr>"

definition small_world :: "unit txlib_world" where
  "small_world = \<lparr>tw_queue = new_ring 200 (new_ring 100 no_rings), tw_list = new_ring 110 no_rings,
     tw_stack = (\<lambda>_. 0)(120 := 120, 220 := 220), tw_multiset = \<lparr>ms_lt = \<lambda>_. 0, ms_ge = \<lambda>_. 0, ms_parent = \<lambda>_. 0\<rparr>,
     tw_order = \<lambda>_. \<lparr>mo_key = \<lambda>_. (), mo_compare = \<lambda>_ _. 0\<rparr>, tw_lock = \<lambda>_. 0,
     tw_queue_tx = \<lambda>_. \<lparr>qt_queue_state = 100, qt_state = \<lparr>status = PICOTM_RWSTATE_UNLOCKED\<rparr>\<rparr>,
     tw_list_tx = \<lambda>_. \<lparr>lt_list_state = 110, lt_state = \<lparr>status = PICOTM_RWSTATE_UNLOCKED\<rparr>\<rparr>,
     tw_stack_tx = \<lambda>_. \<lparr>st_stack_state = 120, st_state = \<lparr>status = PICOTM_RWSTATE_UNLOCKED\<rparr>\<rparr>,
     tw_multiset_tx = \<lambda>_. \<lparr>mt_multiset_state = 130, mt_state = \<lparr>status = PICOTM_RWSTATE_UNLOCKED\<rparr>\<rparr>,
     tw_tx = (txlib_tx_init 0)\<lparr>tl_acquired_queue_tx := [200], tl_acquired_list_tx := [210], tl_acquired_stack_tx := [220]\<rparr>,
     tw_malloc = \<lambda>_. Inr ENOMEM, tw_resize = \<lambda>_. None, tw_n = 0\<rparr>"

definition small_waits :: lock_waits where
  "small_waits = \<lparr>lw_wait = \<lambda>m e. (m, e), lw_sleep = \<lambda>m e. (m, e)\<rparr>"

definition small_tx :: "unit txlib_world option picotm_tx" where
  "small_tx = \<lparr>tx_env = None, tx_log = picotm_log_init, tx_mode = TX_MODE_REVOCABLE, tx_nretries = 0, tx_lo = 0,
     tx_module = [picotm_module_init (txlib_ops (\<lambda>w. w) small_waits) 0]\<rparr>"

definition small_env :: "unit heap_env" where
  "small_env = \<lparr>he_alloc = (), he_errno = 0, he_lowmem = False\<rparr>"

lemma no_rings_rings: "rings no_rings Map.empty"
  by (simp add: rings_def family_ok_def members_def no_rings_def)

lemma small_world_begun: "txlib_begun copy_realloc (\<lambda>w. w) small_waits 0 small_txs small_abs small_world small_tx small_env"
proof -
  have q: "rings (new_ring 100 no_rings) [100 \<mapsto> []]" "rings (new_ring 110 no_rings) [110 \<mapsto> []]"
    using new_ring_rings [OF no_rings_rings] by (simp_all add: members_def)
  have "rings (new_ring 200 (new_ring 100 no_rings)) [100 \<mapsto> [], 200 \<mapsto> []]"
    using new_ring_rings [OF q(1), of 200] by (auto simp: members_def split: if_splits)
  moreover have "stacks ((\<lambda>_. 0)(120 := 120, 220 := 220)) [120 \<mapsto> [], 220 \<mapsto> []]"
    by (auto simp: stacks_def family_ok_def members_def split: if_splits)
  ultimately have "rep small_world small_abs"
    using q(2) by (simp add: rep_def small_world_def small_abs_def)
  moreover have "all_txs_ok small_world small_txs small_abs"
    by (simp add: all_txs_ok_def txs_ok_def small_txs_def small_abs_def small_world_def queue_state_of_def
        list_state_of_def stack_state_of_def)
  moreover have "no_locals small_txs small_abs"
    by (simp add: no_locals_def small_txs_def small_abs_def)
  moreover have "tx_log_holds copy_realloc (tx_module small_tx) 0 0 (small_tx, small_env)"
    using copy_realloc_ok log_ok_init [of "he_lowmem small_env"]
    by (simp add: tx_log_holds_def realloc_total_def copy_realloc_def Let_def small_tx_def log_events_def)
      (simp add: picotm_log_init_def)
  ultimately show ?thesis
    by (simp add: txlib_begun_def txlib_only_def small_tx_def small_world_def txlib_tx_init_def)
qed




lemma clear_error: "\<not> picotm_error_is_set PICOTM_ERROR_INITIALIZER"
  by (simp add: picotm_error_is_set_def PICOTM_ERROR_INITIALIZER_def)

subsection \<open>Transactions\<close>







text \<open>
  C31: When picotm's log cannot take an event, the operation of the event has already been executed
  and nothing will undo it: a pop from a shared queue whose event cannot be logged fails with the error,
  the entry is out of the queue, and the transaction has no event to roll back.
\<close>
theorem txlib_failed_append_loses_entry:
  assumes "rep w A" and "ab_queue A (queue_state_of w qt) = Some (x # g)" and "tw_resize w (tw_n w) = None"
    and "\<not> picotm_error_is_set e" and "picotm_error_is_set e'"
    and "push_event (tl_module (tw_tx w)) 0 (of_nat (length (tl_event (tw_tx w)))) p e = (p', e')"
  shows "\<exists>w'. txlib_tx_append_events2 push_event 1 exec_queue_pop qt False w p e = Some (w', p', e') \<and>
    tl_event (tw_tx w') = tl_event (tw_tx w) \<and>
    rep w' (A\<lparr>ab_queue := (ab_queue A)(queue_state_of w qt \<mapsto> g)\<rparr>) \<and> \<not> txqueue_entry_is_enqueued (tw_queue w') x"
proof -
  let ?q = "queue_state_of w qt"
  have h: "rings (tw_queue w) (ab_queue A)" using assms(1) by (simp add: rep_def)
  let ?h = "txqueue_entry_erase (rh_next (tw_queue w) ?q) (tw_queue w)"
  have pop: "rings ?h ((ab_queue A)(?q \<mapsto> g))"
    using queue_entries.pop_front [OF h, of ?q x g] assms(2) by simp
  have "x \<notin> members ((ab_queue A)(?q \<mapsto> g))"
    using reinsert_fresh(2) [of "ab_queue A" ?q "[]" x g] families_ok(1) [OF assms(1)] assms(2) by simp
  then have out: "\<not> txqueue_entry_is_enqueued ?h x"
    using enqueued_iff [OF pop, of x] by (simp add: txqueue_entry_is_enqueued_def)
  have [simp]: "queue_state_of (w\<lparr>tw_n := n\<rparr>) qt = ?q" for n by (simp add: queue_state_of_def)
  show ?thesis
    using assms(1,3-6) pop out
    by (simp add: event_defs txlib_tx_append_events3_def numeral_eq_Suc exec_queue_pop_def txqueue_state_pop_front_def
        txqueue_state_front_def txqueue_state_begin_def txqueue_entry_next_def rep_def Let_def)
qed

theorem txlib_failed_append_loses_entry_witness:
  "\<exists>(w :: unit txlib_world) w' e'. txqueue_entry_is_enqueued (tw_queue w) 300 \<and> picotm_error_is_set e' \<and>
    txlib_tx_append_events2 (\<lambda>m h t p e. (p, picotm_error_set_errno e ENOMEM)) 1 exec_queue_pop 200 False w ()
      PICOTM_ERROR_INITIALIZER = Some (w', (), e') \<and>
    tl_event (tw_tx w') = [] \<and> \<not> txqueue_entry_is_enqueued (tw_queue w') 300"
proof -
  let ?w = "small_world\<lparr>tw_queue := txqueue_entry_insert 300 100 (tw_queue small_world)\<rparr>"
  let ?A = "small_abs\<lparr>ab_queue := (ab_queue small_abs)(100 \<mapsto> [300])\<rparr>"
  have rep0: "rep small_world small_abs" using small_world_begun by (simp add: txlib_begun_def)
  then have "rings (txqueue_entry_insert 300 100 (tw_queue small_world)) ((ab_queue small_abs)(100 \<mapsto> [] @ [300]))"
    by (intro queue_entries.push_back) (auto simp: rep_def small_abs_def members_def split: if_splits)
  then have A: "rep ?w ?A" using rep0 by (simp add: rep_def)
  have "300 \<in> members (ab_queue ?A)" by (rule memberI [of _ 100 "[300]"]) simp_all
  then have "txqueue_entry_is_enqueued (tw_queue ?w) 300"
    using enqueued_iff [of "tw_queue ?w" "ab_queue ?A" 300] A by (simp add: rep_def txqueue_entry_is_enqueued_def)
  moreover have q: "queue_state_of ?w 200 = 100" "tw_resize ?w (tw_n ?w) = None" "tl_event (tw_tx ?w) = []"
    by (simp_all add: small_world_def queue_state_of_def txlib_tx_init_def)
  moreover have error: "picotm_error_is_set (picotm_error_set_errno PICOTM_ERROR_INITIALIZER ENOMEM)"
    by (simp add: picotm_error_is_set_def picotm_error_set_errno_def)
  moreover obtain w' where "txlib_tx_append_events2 (\<lambda>m h t p e. (p, picotm_error_set_errno e ENOMEM)) 1 exec_queue_pop 200 False ?w ()
      PICOTM_ERROR_INITIALIZER = Some (w', (), picotm_error_set_errno PICOTM_ERROR_INITIALIZER ENOMEM)"
      "tl_event (tw_tx w') = tl_event (tw_tx ?w)" "\<not> txqueue_entry_is_enqueued (tw_queue w') 300"
    using txlib_failed_append_loses_entry [OF A, of 200 300 "[]" PICOTM_ERROR_INITIALIZER
        "picotm_error_set_errno PICOTM_ERROR_INITIALIZER ENOMEM" "\<lambda>m h t p e. (p, picotm_error_set_errno e ENOMEM)" "()" "()"]
      q clear_error error by auto
  ultimately show ?thesis
    using error by (intro exI [of _ ?w] exI [of _ w'] exI [of _ "picotm_error_set_errno PICOTM_ERROR_INITIALIZER ENOMEM"]) simp
qed

end
