(* ===== verification/Picotm_Shared_Find.thy ===== *)
theory Picotm_Shared_Find
  imports Picotm_Shared_Treemap
begin

text \<open>
  A call of \<open>picotm_shared_treemap_find_value\<close> (\<open>src/picotm-lib-shared-treemap.c\<close>) that runs to its end
  without interference: the atomic steps of \<open>Picotm_Shared_Treemap\<close> in a row, with the answers of
  \<open>malloc\<close> and of the creator of values computed from the state \<open>'m\<close> of the caller.  The call ends, and
  it acts on the map that the tree stores.
\<close>

type_synonym 'm dir_malloc = "picotm_shared_treemap \<Rightarrow> 'm \<Rightarrow> u64 \<times> int \<times> 'm"

definition env_answer ::
  "'m dir_malloc \<Rightarrow> u64 \<Rightarrow> 'm value_create option \<Rightarrow> picotm_shared_treemap \<Rightarrow> find_pc \<Rightarrow> 'm \<Rightarrow> picotm_error \<Rightarrow>
   find_answer \<times> 'm \<times> picotm_error"
where
  "env_answer malloc key create st pc m error =
     (case pc of
        New_dir p d \<Rightarrow>
          (case malloc st m of (a, err, m) \<Rightarrow> (if a = 0 then Errno err else Address a, m, error))
      | New_value p \<Rightarrow>
          (case create of
             None \<Rightarrow> (No_answer, m, error)
           | Some f \<Rightarrow>
               (case f key m error of (v, m, error) \<Rightarrow>
                  (if picotm_error_is_set error then Create_error error else Value v, m, error)))
      | _ \<Rightarrow> (No_answer, m, error))"

text \<open>What a call that has ended returns, and the error that it sets.\<close>

definition find_end :: "find_pc \<Rightarrow> picotm_error \<Rightarrow> (u64 \<times> picotm_error) option" where
  "find_end pc error =
     (case pc of
        Find_returns v \<Rightarrow> Some (v, error)
      | Find_fails e \<Rightarrow> Some (0, e)
      | _ \<Rightarrow> None)"

partial_function (option) find_alone ::
  "'m dir_malloc \<Rightarrow> (u64 \<Rightarrow> 'm \<Rightarrow> 'm) \<Rightarrow> u64 \<Rightarrow> 'm value_create option \<Rightarrow> picotm_shared_treemap \<Rightarrow> find_pc \<Rightarrow>
   'm \<Rightarrow> picotm_error \<Rightarrow> (u64 \<times> picotm_shared_treemap \<times> 'm \<times> picotm_error) option"
where
  "find_alone malloc destroy key create st pc m error =
     (case find_end pc error of
        Some (v, error) \<Rightarrow> Some (v, st, m, error)
      | None \<Rightarrow>
          (case env_answer malloc key create st pc m error of
             (answer, m, error) \<Rightarrow>
               (case find_value_step st key (create \<noteq> None) answer pc of
                  (st, pc, gone) \<Rightarrow>
                    find_alone malloc destroy key create st pc (fold destroy gone m) error)))"

definition shared_find_value ::
  "'m dir_malloc \<Rightarrow> (u64 \<Rightarrow> 'm \<Rightarrow> 'm) \<Rightarrow> picotm_shared_treemap \<Rightarrow> u64 \<Rightarrow> 'm value_create option \<Rightarrow> 'm \<Rightarrow>
   picotm_error \<Rightarrow> (u64 \<times> picotm_shared_treemap \<times> 'm \<times> picotm_error) option"
where
  "shared_find_value malloc destroy st key create m error =
     find_alone malloc destroy key create st (picotm_shared_treemap_find_value st) m error"

subsection \<open>Installing an entry\<close>

lemma path_store_back:
  assumes "tree_ok lev st" and "at_path st key p d" and "load_entry st p = 0"
    and "path (store_entry st p v) k m = Some q" and "m \<le> sht_depth st"
  shows "path st k m = Some q \<or> path st k (sht_depth st - d) = Some p \<and> sht_depth st - d < m"
  using assms(4,5)
proof (induction m arbitrary: q)
  case (Suc m)
  then obtain r where r: "path (store_entry st p v) k m = Some r"
      "load_entry (store_entry st p v) r \<noteq> 0"
      "q = Dir_ptr (load_entry (store_entry st p v) r)
         (shared_entry_index k (sht_depth st - Suc m) (sht_level_nbits st))"
    by (auto split: option.splits if_splits)
  note p = at_path_ok [OF assms(1,2)]
  from Suc.IH [OF r(1)] Suc.prems(2) consider "path st k m = Some r" |
    "path st k (sht_depth st - d) = Some p" "sht_depth st - d < m" by auto
  then show ?case
  proof cases
    case 1
    show ?thesis
    proof (cases "r = p")
      case True
      have "ptr_level lev st r = sht_depth st - m" using path_ok [OF assms(1) 1] Suc.prems(2) by simp
      then have "sht_depth st - d = m" using True p(2) Suc.prems(2) by simp
      with 1 True show ?thesis by auto
    next
      case False
      with r(2,3) 1 show ?thesis by (simp add: load_store [OF p(1)])
    qed
  qed simp
qed simp

lemma path_stuck: "path st k m = None \<Longrightarrow> m \<le> n \<Longrightarrow> path st k n = None"
proof (induction n)
  case (Suc n)
  then show ?case by (cases "m = Suc n") auto
qed simp

lemma shared_get_store_dir:
  assumes ok: "tree_ok lev st" and p: "at_path st key p d" "load_entry st p = 0" and "0 < d"
    and zero: "\<And>i. load_entry (store_entry st p v) (Dir_ptr v i) = 0" and "v \<noteq> 0"
  shows "shared_get (store_entry st p v) k = shared_get st k"
proof -
  let ?st = "store_entry st p v" and ?n = "sht_depth st"
  note pk = at_path_ok [OF ok p(1)]
  have ext: "extends st ?st" by (rule extends_store [OF pk(1) p(2)])
  have d: "d \<le> ?n" using p(1) by (simp add: at_path_def)
  show ?thesis
  proof (cases "path ?st k ?n")
    case None
    then have "path st k ?n = None" using path_extends [OF ext, of k ?n] by (cases "path st k ?n") auto
    with None show ?thesis by (simp add: shared_get_def)
  next
    case (Some q)
    show ?thesis
    proof (cases "path st k (?n - d) = Some p")
      case False
      then have q: "path st k ?n = Some q" using path_store_back [OF ok p Some] by simp
      then have "ptr_level lev st q = 0" using path_ok [OF ok q] by simp
      then have "q \<noteq> p" using pk(2) assms(4) by auto
      with q Some show ?thesis by (simp add: shared_get_def load_store [OF pk(1)])
    next
      case True
      then have "path ?st k (?n - d) = Some p" by (rule path_extends [OF ext])
      then have next1: "path ?st k (Suc (?n - d)) =
          Some (Dir_ptr v (shared_entry_index k (?n - Suc (?n - d)) (sht_level_nbits st)))"
        using \<open>v \<noteq> 0\<close> by (simp add: load_store [OF pk(1)])
      have "path st k (Suc (?n - d)) = None" using True p(2) by simp
      moreover have "Suc (?n - d) \<le> ?n" using d assms(4) by linarith
      ultimately have "path st k ?n = None" by (rule path_stuck)
      then have zero_st: "shared_get st k = 0" by (simp add: shared_get_def)
      show ?thesis
      proof (cases "d = 1")
        case True
        then have "Suc (?n - d) = ?n" using d by linarith
        with next1 have "path ?st k ?n = Some (Dir_ptr v (shared_entry_index k (?n - ?n) (sht_level_nbits st)))"
          by (simp only:)
        with zero_st show ?thesis by (simp add: shared_get_def zero)
      next
        case False
        have "path ?st k (Suc (Suc (?n - d))) = None"
          by (subst path.simps(2), subst next1) (simp add: zero)
        moreover have "Suc (Suc (?n - d)) \<le> ?n" using d assms(4) False by linarith
        ultimately have "path ?st k ?n = None" by (rule path_stuck)
        with Some show ?thesis by simp
      qed
    qed
  qed
qed

lemma shared_get_store_value:
  assumes ok: "tree_ok lev st" and p: "at_path st key p 0" "load_entry st p = 0"
    and bits: "sht_depth st * sht_level_nbits st < 64"
    and "unat key < 2 ^ (sht_depth st * sht_level_nbits st)" and "unat k < 2 ^ (sht_depth st * sht_level_nbits st)"
  shows "shared_get (store_entry st p v) k = (if k = key then v else shared_get st k)"
proof -
  let ?st = "store_entry st p v" and ?n = "sht_depth st"
  note pk = at_path_ok [OF ok p(1)]
  have ext: "extends st ?st" by (rule extends_store [OF pk(1) p(2)])
  have key: "path st key ?n = Some p" using p(1) by (simp add: at_path_def)
  have same: "path ?st k ?n = path st k ?n"
  proof (cases "path ?st k ?n")
    case None
    then show ?thesis using path_extends [OF ext, of k ?n] by (cases "path st k ?n") auto
  next
    case (Some q)
    then show ?thesis using path_store_back [OF ok p Some] by simp
  qed
  have "k = key" if "path st k ?n = Some p"
  proof -
    have "same_path (sht_level_nbits st) ?n k key"
      using path_injective [OF ok that key]
      by (simp add: same_path_def entry_index_def key_depth_prefix_def shared_entry_index_def)
    then show ?thesis by (rule same_path_eq [OF _ assms(6,5) bits tree_okD(5) [OF ok]])
  qed
  then show ?thesis
    using key by (cases "path st k ?n") (auto simp: shared_get_def same load_store [OF pk(1)])
qed

subsection \<open>What a call does\<close>

lemma find_alone_steps:
  "find_end pc e = None \<Longrightarrow> env_answer malloc key create st pc m e = (answer, m1, e1) \<Longrightarrow>
   find_value_step st key (create \<noteq> None) answer pc = (st1, pc1, []) \<Longrightarrow>
   find_alone malloc destroy key create st pc m e = find_alone malloc destroy key create st1 pc1 m1 e1"
  by (subst find_alone.simps) simp

lemma find_alone_ends:
  "find_alone malloc destroy key create st (Find_returns v) m e = Some (v, st, m, e)"
  "find_alone malloc destroy key create st (Find_fails e2) m e = Some (0, st, m, e2)"
  by (subst find_alone.simps, simp add: find_end_def)+

text \<open>
  \<open>P\<close> is what the caller keeps true of its state until it has created a value; \<open>malloc\<close> returns
  addresses that are not in use, the creator values that are not yet in the tree.
\<close>

definition dir_malloc_ok :: "('m \<Rightarrow> bool) \<Rightarrow> 'm dir_malloc \<Rightarrow> bool" where
  "dir_malloc_ok P malloc \<longleftrightarrow> (\<forall>st m a err m'. malloc st m = (a, err, m') \<longrightarrow> P m \<longrightarrow>
     P m' \<and> (a \<noteq> 0 \<longrightarrow> sht_dirs st a = None))"

definition creates_outside :: "('m \<Rightarrow> bool) \<Rightarrow> u64 set \<Rightarrow> u64 \<Rightarrow> 'm value_create \<Rightarrow> bool" where
  "creates_outside P V key f \<longleftrightarrow> (\<forall>m e v m' e'. f key m e = (v, m', e') \<longrightarrow> P m \<longrightarrow>
     \<not> picotm_error_is_set e \<longrightarrow> (if picotm_error_is_set e' then P m' else v \<noteq> 0 \<and> v \<notin> V))"

definition keeps_tree :: "(u64 \<Rightarrow> nat) \<Rightarrow> picotm_shared_treemap \<Rightarrow> (u64 \<Rightarrow> nat) \<Rightarrow> picotm_shared_treemap \<Rightarrow> bool" where
  "keeps_tree lev st lev' st' \<longleftrightarrow> tree_ok lev' st' \<and> sht_depth st' = sht_depth st \<and>
     sht_level_nbits st' = sht_level_nbits st \<and> cell_values lev' st' = cell_values lev st \<and>
     (\<forall>k. shared_get st' k = shared_get st k)"

definition adds_value ::
  "(u64 \<Rightarrow> nat) \<Rightarrow> picotm_shared_treemap \<Rightarrow> u64 \<Rightarrow> u64 \<Rightarrow> (u64 \<Rightarrow> nat) \<Rightarrow> picotm_shared_treemap \<Rightarrow> bool"
where
  "adds_value lev st key v lev' st' \<longleftrightarrow> tree_ok lev' st' \<and> sht_depth st' = sht_depth st \<and>
     sht_level_nbits st' = sht_level_nbits st \<and> cell_values lev' st' = insert v (cell_values lev st) \<and>
     shared_get st key = 0 \<and>
     (\<forall>k. unat k < 2 ^ (sht_depth st * sht_level_nbits st) \<longrightarrow>
        shared_get st' k = (if k = key then v else shared_get st k))"

lemma keeps_tree_trans:
  "keeps_tree lev st lev1 st1 \<Longrightarrow> keeps_tree lev1 st1 lev2 st2 \<Longrightarrow> keeps_tree lev st lev2 st2"
  by (simp add: keeps_tree_def)

lemma keeps_adds:
  "keeps_tree lev st lev1 st1 \<Longrightarrow> adds_value lev1 st1 key v lev2 st2 \<Longrightarrow> adds_value lev st key v lev2 st2"
  by (simp add: keeps_tree_def adds_value_def)

lemma path_create: "sht_dirs st a = None \<Longrightarrow> path (shared_dir_create st a) k m = path st k m"
  by (induction m) (simp_all add: load_create cong: option.case_cong if_cong)

lemma shared_get_create: "sht_dirs st a = None \<Longrightarrow> shared_get (shared_dir_create st a) k = shared_get st k"
  by (simp add: shared_get_def path_create load_create cong: option.case_cong)

lemma install_dir:
  assumes ok: "tree_ok lev st" and p: "at_path st key p (Suc d)" "load_entry st p = 0"
    and a: "a \<noteq> 0" "sht_dirs st a = None"
  defines "st1 \<equiv> shared_dir_create st a" and "lev1 \<equiv> lev(a := d)"
  shows "keeps_tree lev st lev1 (store_entry st1 p a)" and "at_path (store_entry st1 p a) key p (Suc d)"
    and "load_entry (store_entry st1 p a) p = a" and "load_entry st1 p = 0"
proof -
  have ok1: "tree_ok lev1 st1" unfolding st1_def lev1_def by (rule tree_ok_create [OF ok a])
  have load1: "load_entry st1 q = load_entry st q" for q by (simp add: st1_def load_create a)
  then show l0: "load_entry st1 p = 0" using p(2) by simp
  have p1: "at_path st1 key p (Suc d)"
    unfolding st1_def by (rule at_path_extends [OF extends_create [OF a(2)] p(1)])
  note pk = at_path_ok [OF ok1 p1]
  have dir_a: "sht_dirs st1 a \<noteq> None" by (simp add: st1_def dirs_create)
  have level: "ptr_level lev1 st1 q = ptr_level lev st q" if "load_entry st q \<noteq> 0" for q
    using ptr_level_upd_load [OF a(2) that, of lev d] by (simp add: st1_def lev1_def ptr_level_fields)
  have new: "load_entry st1 q \<noteq> a" if "(0 < ptr_level lev1 st1 q) = (0 < ptr_level lev1 st1 p)" for q
  proof
    assume "load_entry st1 q = a"
    then have q: "load_entry st q = a" "load_entry st q \<noteq> 0" using a(1) by (simp_all add: load1)
    then have "0 < ptr_level lev st q" using level [of q] that pk(2) by simp
    with tree_okD(2) [OF ok q(2)] q(1) a(2) show False by simp
  qed
  have lev1_a: "lev1 a = d" by (simp add: lev1_def)
  have ok2: "tree_ok lev1 (store_entry st1 p a)"
    by (rule tree_ok_store [OF ok1 pk(1) l0 _ new]) (simp_all add: dir_a pk(2) lev1_a)
  have "extends st1 (store_entry st1 p a)" by (rule extends_store [OF pk(1) l0])
  then show "at_path (store_entry st1 p a) key p (Suc d)" by (rule at_path_extends [OF _ p1])
  show "load_entry (store_entry st1 p a) p = a" by (simp add: load_store [OF pk(1)])
  have p_other: "p \<noteq> Dir_ptr a i" for i
    using at_path_ok [OF ok p(1)] a(2) by (auto simp: ptr_ok_def)
  have zero: "load_entry (store_entry st1 p a) (Dir_ptr a i) = 0" for i
    using p_other [of i] by (simp add: load_store [OF pk(1)] load1 load_not_fresh a)
  have get: "shared_get (store_entry st1 p a) k = shared_get st k" for k
    using shared_get_store_dir [OF ok1 p1 l0 _ zero a(1), of k] by (simp add: st1_def shared_get_create a)
  have "cell_values lev1 (store_entry st1 p a) = cell_values lev1 st1"
  proof -
    have "ptr_level lev1 st1 q = 0 \<and> load_entry (store_entry st1 p a) q = x \<longleftrightarrow>
        ptr_level lev1 st1 q = 0 \<and> load_entry st1 q = x" for q x
      using pk(2) by (auto simp: load_store [OF pk(1)])
    then show ?thesis by (simp only: cell_values_def ptr_level_fields)
  qed
  also have "\<dots> = cell_values lev st"
    by (rule cell_values_load) (simp_all add: load1 level)
  finally show "keeps_tree lev st lev1 (store_entry st1 p a)"
    using ok2 get by (simp add: keeps_tree_def st1_def)
qed

lemma install_value:
  assumes ok: "tree_ok lev st" and p: "at_path st key p 0" "load_entry st p = 0"
    and v: "v \<noteq> 0" "v \<notin> cell_values lev st"
    and bits: "sht_depth st * sht_level_nbits st < 64" "unat key < 2 ^ (sht_depth st * sht_level_nbits st)"
  shows "adds_value lev st key v lev (store_entry st p v)"
proof -
  note pk = at_path_ok [OF ok p(1)]
  have new: "load_entry st q \<noteq> v" if "(0 < ptr_level lev st q) = (0 < ptr_level lev st p)" for q
  proof
    assume q: "load_entry st q = v"
    have "ptr_level lev st q = 0" using that pk(2) by simp
    with q v(1) have "v \<in> cell_values lev st" unfolding cell_values_def by blast
    with v(2) show False by simp
  qed
  have "tree_ok lev (store_entry st p v)"
    by (rule tree_ok_store [OF ok pk(1) p(2) _ new]) (simp_all add: pk(2))
  moreover have "cell_values lev (store_entry st p v) = insert v (cell_values lev st)"
    unfolding cell_values_def ptr_level_fields using pk(2) p(2) v(1)
    by (auto simp: load_store [OF pk(1)] split: if_splits)
  moreover have "shared_get st key = 0" using at_path_get [OF p(1)] p(2) by simp
  ultimately show ?thesis
    using shared_get_store_value [OF ok p bits] by (simp add: adds_value_def)
qed

text \<open>How a call ends: the value was there, or it failed, or the creator has just made the value.\<close>

definition find_ends ::
  "('m \<Rightarrow> bool) \<Rightarrow> (u64 \<Rightarrow> nat) \<Rightarrow> picotm_shared_treemap \<Rightarrow> u64 \<Rightarrow> 'm value_create \<Rightarrow> picotm_error \<Rightarrow>
   (u64 \<times> picotm_shared_treemap \<times> 'm \<times> picotm_error) option \<Rightarrow> bool"
where
  "find_ends P lev st key f e r \<longleftrightarrow> (\<exists>v st' m' e' lev'. r = Some (v, st', m', e') \<and>
     (keeps_tree lev st lev' st' \<and> P m' \<and> (picotm_error_is_set e' \<or> e' = e \<and> v \<noteq> 0 \<and> v = shared_get st key) \<or>
      adds_value lev st key v lev' st' \<and> v \<noteq> 0 \<and> \<not> picotm_error_is_set e' \<and>
        (\<exists>m1. P m1 \<and> f key m1 e = (v, m', e'))))"

lemma find_ends_keeps:
  assumes "keeps_tree lev st lev1 st1" and "find_ends P lev1 st1 key f e r"
  shows "find_ends P lev st key f e r"
proof -
  have "shared_get st1 key = shared_get st key" using assms(1) by (simp add: keeps_tree_def)
  with assms(2) keeps_tree_trans [OF assms(1)] keeps_adds [OF assms(1)] show ?thesis
    unfolding find_ends_def by metis
qed

lemma find_ends_found:
  "\<not> picotm_error_is_set e \<Longrightarrow> tree_ok lev st \<Longrightarrow> P m \<Longrightarrow> v \<noteq> 0 \<Longrightarrow> v = shared_get st key \<Longrightarrow> find_ends P lev st key f e (Some (v, st, m, e))"
  unfolding find_ends_def
  by (intro exI [of _ lev] exI, rule conjI, rule refl, rule disjI1, simp add: keeps_tree_def)

lemma find_ends_fails:
  "keeps_tree lev st lev' st' \<Longrightarrow> P m \<Longrightarrow> picotm_error_is_set e' \<Longrightarrow>
   find_ends P lev st key f e (Some (v, st', m, e'))"
  unfolding find_ends_def by (intro exI [of _ lev'] exI, rule conjI, rule refl, rule disjI1, simp)

lemma find_ends_adds:
  "adds_value lev st key v lev' st' \<Longrightarrow> v \<noteq> 0 \<Longrightarrow> P m1 \<Longrightarrow> f key m1 e = (v, m', e') \<Longrightarrow>
   \<not> picotm_error_is_set e' \<Longrightarrow> find_ends P lev st key f e (Some (v, st', m', e'))"
  unfolding find_ends_def by (intro exI [of _ lev'] exI, rule conjI, rule refl, rule disjI2) blast

lemma keeps_tree_refl: "tree_ok lev st \<Longrightarrow> keeps_tree lev st lev st"
  by (simp add: keeps_tree_def)

lemma find_value_ends:
  assumes ok: "tree_ok lev st" and p: "at_path st key p 0" and "P m" and "\<not> picotm_error_is_set e"
    and new: "creates_outside P (cell_values lev st) key f"
    and bits: "sht_depth st * sht_level_nbits st < 64" "unat key < 2 ^ (sht_depth st * sht_level_nbits st)"
  shows "find_ends P lev st key f e (find_alone malloc destroy key (Some f) st (Retrieve_value p) m e)"
proof -
  have get: "shared_get st key = load_entry st p" by (rule at_path_get [OF p])
  show ?thesis
  proof (cases "load_entry st p = 0")
    case False
    then have "find_alone malloc destroy key (Some f) st (Retrieve_value p) m e = Some (load_entry st p, st, m, e)"
      by (subst find_alone_steps, (simp add: find_end_def env_answer_def find_value_step_def find_alone_ends)+)
    then show ?thesis using find_ends_found [where P = P, OF assms(4) ok assms(3) False get [symmetric]] by simp
  next
    case zero: True
    obtain v m' e' where create: "f key m e = (v, m', e')" by (rule prod_cases3)
    have "find_alone malloc destroy key (Some f) st (Retrieve_value p) m e =
        find_alone malloc destroy key (Some f) st (New_value p) m e"
      by (subst find_alone_steps, (simp add: find_end_def env_answer_def find_value_step_def zero)+)
    also have "find_ends P lev st key f e \<dots>"
    proof (cases "picotm_error_is_set e'")
      case True
      have "find_alone malloc destroy key (Some f) st (New_value p) m e = Some (0, st, m', e')"
        by (subst find_alone_steps, (simp add: find_end_def env_answer_def find_value_step_def create True find_alone_ends)+)
      moreover have "P m'" using new create True assms(3,4) by (auto simp: creates_outside_def)
      ultimately show ?thesis using find_ends_fails [OF keeps_tree_refl [OF ok]] True by simp
    next
      case False
      have v: "v \<noteq> 0" "v \<notin> cell_values lev st"
        using new [unfolded creates_outside_def, rule_format, OF create assms(3,4)] False by simp_all
      have "find_alone malloc destroy key (Some f) st (New_value p) m e =
          find_alone malloc destroy key (Some f) st (Cas_value p v) m' e'"
        by (subst find_alone_steps, (simp add: find_end_def env_answer_def find_value_step_def create False)+)
      also have "\<dots> = Some (v, store_entry st p v, m', e')"
        by (subst find_alone_steps, (simp add: find_end_def env_answer_def find_value_step_def cas_entry_def zero find_alone_ends)+)
      finally show ?thesis
        using find_ends_adds [where P = P and f = f, OF install_value [OF ok p zero v bits] v(1) assms(3) create False] by simp
    qed
    finally show ?thesis .
  qed
qed

lemma find_alone_from:
  assumes "dir_malloc_ok P malloc" and "tree_ok lev st" and "at_path st key p d" and "P m"
    and "\<not> picotm_error_is_set e" and "creates_outside P (cell_values lev st) key f"
    and "sht_depth st * sht_level_nbits st < 64" and "unat key < 2 ^ (sht_depth st * sht_level_nbits st)"
  shows "find_ends P lev st key f e (find_alone malloc destroy key (Some f) st (lookup_loop p d) m e)"
  using assms(2-4,6-8)
proof (induction d arbitrary: p lev st m)
  case 0
  from find_value_ends [OF 0(1,2,3) assms(5) 0(4-6)] show ?case by (simp add: lookup_loop_def)
next
  case (Suc d)
  have loop: "lookup_loop p (Suc d) = Retrieve_dir p (Suc d)" by (simp add: lookup_loop_def)
  show ?case
  proof (cases "load_entry st p = 0")
    case False
    have "find_alone malloc destroy key (Some f) st (Retrieve_dir p (Suc d)) m e =
        find_alone malloc destroy key (Some f) st
          (lookup_loop (Dir_ptr (load_entry st p) (shared_entry_index key d (sht_level_nbits st))) d) m e"
      by (subst find_alone_steps, (simp add: find_end_def env_answer_def find_value_step_def enter_dir_def False)+)
    moreover have "at_path st key (Dir_ptr (load_entry st p) (shared_entry_index key d (sht_level_nbits st))) d"
      using at_path_enter [OF Suc.prems(2) _ refl False] by simp
    ultimately show ?thesis unfolding loop using Suc.IH [OF Suc.prems(1) _ Suc.prems(3-6)] by simp
  next
    case zero: True
    obtain a err m1 where new: "malloc st m = (a, err, m1)" by (rule prod_cases3)
    have m1: "P m1" "a \<noteq> 0 \<Longrightarrow> sht_dirs st a = None"
      using assms(1) [unfolded dir_malloc_ok_def, rule_format, OF new Suc.prems(3)] by simp_all
    have step1: "find_alone malloc destroy key (Some f) st (Retrieve_dir p (Suc d)) m e =
        find_alone malloc destroy key (Some f) st (New_dir p (Suc d)) m e"
      by (subst find_alone_steps, (simp add: find_end_def env_answer_def find_value_step_def zero)+)
    show ?thesis
    proof (cases "a = 0")
      case True
      have "find_alone malloc destroy key (Some f) st (New_dir p (Suc d)) m e =
          Some (0, st, m1, picotm_error_set_errno PICOTM_ERROR_INITIALIZER err)"
        by (subst find_alone_steps, (simp add: find_end_def env_answer_def find_value_step_def new True find_alone_ends)+)
      with find_ends_fails [where P = P, OF keeps_tree_refl [OF Suc.prems(1)] m1(1)] show ?thesis
        unfolding loop step1 by simp
    next
      case False
      let ?st1 = "shared_dir_create st a"
      note in1 = install_dir [OF Suc.prems(1,2) zero False m1(2) [OF False]]
      let ?st2 = "store_entry ?st1 p a"
      have "find_alone malloc destroy key (Some f) st (New_dir p (Suc d)) m e =
          find_alone malloc destroy key (Some f) ?st1 (Cas_dir p (Suc d) a) m1 e"
        by (subst find_alone_steps, (simp add: find_end_def env_answer_def find_value_step_def new False)+)
      also have "\<dots> = find_alone malloc destroy key (Some f) ?st2
          (lookup_loop (Dir_ptr a (shared_entry_index key d (sht_level_nbits ?st2))) d) m1 e"
        by (subst find_alone_steps)
          (simp_all add: find_end_def env_answer_def find_value_step_def cas_entry_def in1(4) enter_dir_def)
      finally have steps: "find_alone malloc destroy key (Some f) st (lookup_loop p (Suc d)) m e =
        find_alone malloc destroy key (Some f) ?st2
          (lookup_loop (Dir_ptr a (shared_entry_index key d (sht_level_nbits ?st2))) d) m1 e"
        unfolding loop step1 .
      have at: "at_path ?st2 key (Dir_ptr a (shared_entry_index key d (sht_level_nbits ?st2))) d"
        using at_path_enter [OF in1(2) _ in1(3) False] by simp
      have same: "tree_ok (lev(a := d)) ?st2" "cell_values (lev(a := d)) ?st2 = cell_values lev st"
        "sht_depth ?st2 = sht_depth st" "sht_level_nbits ?st2 = sht_level_nbits st"
        using in1(1) by (simp_all add: keeps_tree_def)
      have "find_ends P (lev(a := d)) ?st2 key f e (find_alone malloc destroy key (Some f) ?st2
          (lookup_loop (Dir_ptr a (shared_entry_index key d (sht_level_nbits ?st2))) d) m1 e)"
        by (rule Suc.IH [OF same(1) at m1(1)])
          (simp_all only: same(2-4) Suc.prems(4-6))
      then show ?thesis unfolding steps by (rule find_ends_keeps [OF in1(1)])
    qed
  qed
qed

theorem shared_find_value_ends:
  assumes "dir_malloc_ok P malloc" and "tree_ok lev st" and "P m" and "\<not> picotm_error_is_set e"
    and "creates_outside P (cell_values lev st) key f"
    and "sht_depth st * sht_level_nbits st < 64" and "unat key < 2 ^ (sht_depth st * sht_level_nbits st)"
  shows "find_ends P lev st key f e (shared_find_value malloc destroy st key (Some f) m e)"
  unfolding shared_find_value_def picotm_shared_treemap_find_value_def
  by (rule find_alone_from [OF assms(1,2) at_path_root assms(3-7)])

end
