(* ===== verification/Fildes_Page_Map.thy ===== *)
theory Fildes_Page_Map
  imports Picotm_Shared_Find Picotm_Log Picotm_Rwstate
begin

text \<open>
  The pages of the region locks of seekable files (\<open>modules/libc/src/fildes/rwlockmap.c\<close> and the pages of
  \<open>rwcountermap.c\<close>).  The file's records have reader/writer locks, kept in pages of 512 that all threads
  find through a shared treemap; a transaction counts its locks in pages of its own, which it finds
  through a treemap.  Both are maps from the number of a page to its address that create missing pages;
  the locale \<open>page_map\<close> says what the region locks rely on.
\<close>

definition RWLOCKMAP_PAGE_NBITS :: nat where "RWLOCKMAP_PAGE_NBITS = 9"

definition RWLOCKMAP_PAGE_NENTRIES :: nat where "RWLOCKMAP_PAGE_NENTRIES = 2 ^ RWLOCKMAP_PAGE_NBITS"

text \<open>A counter is its 64-bit state, a lock its byte; a page of counters remembers its page of locks.\<close>

record rwcountermap_page =
  lockpg :: u64
  counter :: "u64 list"

datatype fildes_page = Counter_page rwcountermap_page | Lock_page "u8 list"

record 'a page_heap =
  ph_pages :: "u64 \<Rightarrow> fildes_page option"
  ph_env :: "'a heap_env"

text \<open>
  \<open>malloc\<close> is the environment's: given the addresses in use and its state, it returns an address, or 0
  and the \<open>errno\<close> that it sets.
\<close>

type_synonym 'a page_alloc = "(u64 \<Rightarrow> bool) \<Rightarrow> 'a \<Rightarrow> u64 \<times> int \<times> 'a"

definition malloc_ok :: "'a page_alloc \<Rightarrow> bool" where
  "malloc_ok malloc \<longleftrightarrow> (\<forall>used al a err al'. malloc used al = (a, err, al') \<longrightarrow>
     (if a = 0 then err \<noteq> 0 else \<not> used a))"

definition heap_malloc :: "'a page_alloc \<Rightarrow> (u64 \<Rightarrow> bool) \<Rightarrow> 'a page_heap \<Rightarrow> u64 \<times> 'a page_heap" where
  "heap_malloc malloc used m =
     (case malloc used (he_alloc (ph_env m)) of (a, err, al) \<Rightarrow>
        (a, m\<lparr>ph_env := (ph_env m)\<lparr>he_alloc := al,
           he_errno := if a = 0 then err else he_errno (ph_env m)\<rparr>\<rparr>))"

subsection \<open>Creating pages\<close>

definition rwlockmap_page_init :: fildes_page where
  "rwlockmap_page_init = Lock_page (replicate RWLOCKMAP_PAGE_NENTRIES picotm_rwlock_init)"

definition rwcounter_init :: u64 where "rwcounter_init = 0"

definition rwcountermap_page_init :: fildes_page where
  "rwcountermap_page_init =
     Counter_page \<lparr>lockpg = 0, counter = replicate RWLOCKMAP_PAGE_NENTRIES rwcounter_init\<rparr>"

definition page_in_use :: "'a page_heap \<Rightarrow> u64 \<Rightarrow> bool" where
  "page_in_use m a \<longleftrightarrow> ph_pages m a \<noteq> None"

definition page_put :: "u64 \<Rightarrow> fildes_page \<Rightarrow> 'a page_heap \<Rightarrow> 'a page_heap" where
  "page_put a p m = m\<lparr>ph_pages := (ph_pages m)(a \<mapsto> p)\<rparr>"

definition create_page :: "'a page_alloc \<Rightarrow> fildes_page \<Rightarrow> 'a page_heap value_create" where
  "create_page malloc init = (\<lambda>key m error.
     (let (a, m) = heap_malloc malloc (page_in_use m) m in
      if a = 0 then (0, m, picotm_error_set_errno error (he_errno (ph_env m)))
      else (a, page_put a init m, error)))"

definition rwlockmap_create_page_fn :: "'a page_alloc \<Rightarrow> 'a page_heap value_create" where
  "rwlockmap_create_page_fn malloc = create_page malloc rwlockmap_page_init"

definition rwcountermap_create_page_fn :: "'a page_alloc \<Rightarrow> 'a page_heap value_create" where
  "rwcountermap_create_page_fn malloc = create_page malloc rwcountermap_page_init"

definition destroy_page_fn :: "u64 \<Rightarrow> 'a page_heap \<Rightarrow> 'a page_heap" where
  "destroy_page_fn value m = m\<lparr>ph_pages := (ph_pages m)(value := None)\<rparr>"

text \<open>The directories of the trees come from the same \<open>malloc\<close>.\<close>

definition lock_dir_malloc :: "'a page_alloc \<Rightarrow> 'a page_heap dir_malloc" where
  "lock_dir_malloc malloc = (\<lambda>st m.
     (case heap_malloc malloc (\<lambda>a. sht_dirs st a \<noteq> None) m of (a, m) \<Rightarrow> (a, he_errno (ph_env m), m)))"

definition counter_dir_malloc :: "'a page_alloc \<Rightarrow> 'a page_heap malloc" where
  "counter_dir_malloc malloc = (\<lambda>m.
     (case heap_malloc malloc (page_in_use m) m of (a, m) \<Rightarrow> (if a = 0 then he_errno (ph_env m) else 0, m)))"

subsection \<open>The two maps\<close>

definition key_bits :: "u64 \<Rightarrow> nat \<Rightarrow> u64" where
  "key_bits offset page_nbits = drop_bit page_nbits offset"

definition rwlockmap_init :: picotm_shared_treemap where
  "rwlockmap_init = picotm_shared_treemap_init (64 - RWLOCKMAP_PAGE_NBITS) RWLOCKMAP_PAGE_NBITS"

definition rwcountermap_init :: picotm_treemap where
  "rwcountermap_init = picotm_treemap_init RWLOCKMAP_PAGE_NBITS"

definition find_lock_page ::
  "'a page_alloc \<Rightarrow> picotm_shared_treemap \<Rightarrow> u64 \<Rightarrow> 'a page_heap \<Rightarrow> picotm_error \<Rightarrow>
   (u64 \<times> picotm_shared_treemap \<times> 'a page_heap \<times> picotm_error) option"
where
  "find_lock_page malloc pagemap key m error =
     shared_find_value (lock_dir_malloc malloc) destroy_page_fn pagemap key
       (Some (rwlockmap_create_page_fn malloc)) m error"

definition find_counter_page ::
  "'a page_alloc \<Rightarrow> picotm_treemap \<Rightarrow> u64 \<Rightarrow> 'a page_heap \<Rightarrow> picotm_error \<Rightarrow>
   (u64 \<times> picotm_treemap \<times> 'a page_heap \<times> picotm_error) option"
where
  "find_counter_page malloc countermap key m error =
     Some (picotm_treemap_find_value (counter_dir_malloc malloc) countermap key
       (Some (rwcountermap_create_page_fn malloc)) m error)"

definition rwlockmap_find_page ::
  "'a page_alloc \<Rightarrow> picotm_shared_treemap \<Rightarrow> u64 \<Rightarrow> 'a page_heap \<Rightarrow> picotm_error \<Rightarrow>
   (u64 \<times> picotm_shared_treemap \<times> 'a page_heap \<times> picotm_error) option"
where
  "rwlockmap_find_page malloc self record_offset m error =
     (case find_lock_page malloc self (key_bits record_offset RWLOCKMAP_PAGE_NBITS) m error of
        None \<Rightarrow> None
      | Some (v, self, m, error) \<Rightarrow>
          if picotm_error_is_set error then Some (0, self, m, error) else Some (v, self, m, error))"

subsection \<open>The interface\<close>

text \<open>The numbers of pages: a record has a 64-bit number, of which the low 9 bits are the place in the page.\<close>

definition page_key :: "u64 \<Rightarrow> bool" where "page_key k \<longleftrightarrow> unat k < 2 ^ 55"

definition pages_kept :: "(fildes_page \<Rightarrow> bool) \<Rightarrow> 'a page_heap \<Rightarrow> 'a page_heap \<Rightarrow> bool" where
  "pages_kept good m m' \<longleftrightarrow> (\<forall>a p. ph_pages m a = Some p \<longrightarrow> good p \<longrightarrow> (\<exists>p'. ph_pages m' a = Some p' \<and> good p'))"

definition pages_extend :: "'a page_heap \<Rightarrow> 'a page_heap \<Rightarrow> bool" where
  "pages_extend m m' \<longleftrightarrow> (\<forall>a. ph_pages m a \<noteq> None \<longrightarrow> ph_pages m' a = ph_pages m a)"

lemma extend_kept: "pages_extend m m' \<Longrightarrow> pages_kept good m m'"
  by (auto simp: pages_extend_def pages_kept_def)

lemma pages_extend_refl [simp]: "pages_extend m m"
  by (simp add: pages_extend_def)

lemma pages_extend_trans: "pages_extend m m1 \<Longrightarrow> pages_extend m1 m2 \<Longrightarrow> pages_extend m m2"
  unfolding pages_extend_def by metis

locale page_map =
  fixes find :: "'t \<Rightarrow> u64 \<Rightarrow> 'a page_heap \<Rightarrow> picotm_error \<Rightarrow> (u64 \<times> 't \<times> 'a page_heap \<times> picotm_error) option"
    and page :: "'t \<Rightarrow> u64 \<Rightarrow> u64"
    and ok :: "'t \<Rightarrow> 'a page_heap \<Rightarrow> bool"
    and init :: fildes_page
    and good :: "fildes_page \<Rightarrow> bool"
  assumes find: "ok t m \<Longrightarrow> page_key k \<Longrightarrow> \<not> picotm_error_is_set e \<Longrightarrow>
      \<exists>v t' m' e'. find t k m e = Some (v, t', m', e') \<and> ok t' m' \<and> pages_extend m m' \<and>
        (\<forall>j. page_key j \<longrightarrow> j \<noteq> k \<longrightarrow> page t' j = page t j) \<and>
        (if picotm_error_is_set e' then page t' k = page t k
         else e' = e \<and> v \<noteq> 0 \<and> page t' k = v \<and>
           (page t k = v \<or> page t k = 0 \<and> ph_pages m v = None \<and> ph_pages m' v = Some init))"
    and page_good: "ok t m \<Longrightarrow> page_key k \<Longrightarrow> page t k \<noteq> 0 \<Longrightarrow> \<exists>p. ph_pages m (page t k) = Some p \<and> good p"
    and page_inj: "ok t m \<Longrightarrow> page_key j \<Longrightarrow> page_key k \<Longrightarrow> page t k \<noteq> 0 \<Longrightarrow> page t j = page t k \<Longrightarrow> j = k"
    and ok_kept: "ok t m \<Longrightarrow> pages_kept good m m' \<Longrightarrow> ok t m'"
    and good_init: "good init"
begin

text \<open>The contents of a page; a page that is missing is as good as a new one.\<close>

definition fildes_page_at :: "'t \<Rightarrow> 'a page_heap \<Rightarrow> u64 \<Rightarrow> fildes_page" where
  "fildes_page_at t m k = (if page t k = 0 then init else the (ph_pages m (page t k)))"

lemma page_at_good: "ok t m \<Longrightarrow> page_key k \<Longrightarrow> good (fildes_page_at t m k)"
  using page_good [of t m k] good_init by (auto simp: fildes_page_at_def)

lemma page_at_extend:
  "ok t m \<Longrightarrow> page_key k \<Longrightarrow> pages_extend m m' \<Longrightarrow> fildes_page_at t m' k = fildes_page_at t m k"
  using page_good [of t m k] by (auto simp: fildes_page_at_def pages_extend_def)

text \<open>To find a page does not change what the map shows.\<close>

lemma find_view:
  assumes "ok t m" and "page_key k" and "\<not> picotm_error_is_set e"
  obtains v t' m' e' where "find t k m e = Some (v, t', m', e')" and "ok t' m'" and "pages_extend m m'"
    and "\<And>j. page_key j \<Longrightarrow> fildes_page_at t' m' j = fildes_page_at t m j"
    and "\<And>j. page_key j \<Longrightarrow> page t j \<noteq> 0 \<Longrightarrow> page t' j = page t j"
    and "picotm_error_is_set e' \<or> e' = e \<and> v \<noteq> 0 \<and> page t' k = v \<and> ph_pages m' v = Some (fildes_page_at t m k)"
proof -
  obtain v t' m' e' where r: "find t k m e = Some (v, t', m', e')" "ok t' m'" "pages_extend m m'"
      "\<And>j. page_key j \<Longrightarrow> j \<noteq> k \<Longrightarrow> page t' j = page t j"
      "if picotm_error_is_set e' then page t' k = page t k
         else e' = e \<and> v \<noteq> 0 \<and> page t' k = v \<and>
           (page t k = v \<or> page t k = 0 \<and> ph_pages m v = None \<and> ph_pages m' v = Some init)"
    using find [OF assms] by blast
  have at: "fildes_page_at t' m' k = fildes_page_at t m k"
  proof (cases "page t' k = page t k")
    case True
    then have "fildes_page_at t' m' k = fildes_page_at t m' k" by (simp add: fildes_page_at_def)
    then show ?thesis using page_at_extend [OF assms(1,2) r(3)] by simp
  next
    case False
    then show ?thesis using r(5) by (auto simp: fildes_page_at_def split: if_splits)
  qed
  have same: "fildes_page_at t' m' j = fildes_page_at t m j" if "page_key j" for j
    using at r(4) [OF that] page_at_extend [OF assms(1) that r(3)] by (cases "j = k") (auto simp: fildes_page_at_def)
  have kept: "page t' j = page t j" if "page_key j" "page t j \<noteq> 0" for j
    using that r(4,5) by (cases "j = k") (auto split: if_splits)
  have "picotm_error_is_set e' \<or> e' = e \<and> v \<noteq> 0 \<and> page t' k = v \<and> ph_pages m' v = Some (fildes_page_at t m k)"
  proof (cases "picotm_error_is_set e'")
    case False
    then have v: "e' = e" "v \<noteq> 0" "page t' k = v" using r(5) by simp_all
    moreover have "ph_pages m' v = Some (fildes_page_at t' m' k)"
      using page_good [OF r(2) assms(2)] v(2,3) by (auto simp: fildes_page_at_def)
    ultimately show ?thesis by (simp only: at simp_thms)
  qed simp
  with that r(1-3) same kept show thesis by blast
qed

text \<open>Writing a page changes that page only.\<close>

lemma page_put_ok: "ok t m \<Longrightarrow> good p \<Longrightarrow> ok t (page_put a p m)"
  by (erule ok_kept) (auto simp: pages_kept_def page_put_def)

lemma page_at_put:
  assumes "ok t m" and "page_key k" and "page t k = a" and "a \<noteq> 0" and "page_key j"
  shows "fildes_page_at t (page_put a p m) j = (if j = k then p else fildes_page_at t m j)"
proof (cases "j = k")
  case True
  then show ?thesis using assms(3,4) by (simp add: fildes_page_at_def page_put_def)
next
  case False
  then have "page t j \<noteq> a" using page_inj [OF assms(1,5,2)] assms(3,4) by metis
  then show ?thesis using False by (simp add: fildes_page_at_def page_put_def)
qed

lemma page_at_put_other:
  "ok t m \<Longrightarrow> page_key j \<Longrightarrow> ph_pages m a = Some q \<Longrightarrow> \<not> good q \<Longrightarrow> fildes_page_at t (page_put a p m) j = fildes_page_at t m j"
  using page_good [of t m j] by (auto simp: fildes_page_at_def page_put_def)

end

subsection \<open>Both maps provide the interface\<close>

lemma heap_malloc_cases:
  assumes "malloc_ok malloc" and "heap_malloc malloc used m = (a, m')"
  shows "ph_pages m' = ph_pages m" and "if a = 0 then he_errno (ph_env m') \<noteq> 0 else \<not> used a"
proof -
  obtain b err al where new: "malloc used (he_alloc (ph_env m)) = (b, err, al)" by (rule prod_cases3)
  then have "if b = 0 then err \<noteq> 0 else \<not> used b" using assms(1) unfolding malloc_ok_def by blast
  with new assms(2) show "ph_pages m' = ph_pages m"
    and "if a = 0 then he_errno (ph_env m') \<noteq> 0 else \<not> used a"
    by (auto simp: heap_malloc_def split: if_splits)
qed

lemma create_page_cases:
  assumes "malloc_ok malloc" and "create_page malloc init key m e = (v, m', e')" and "\<not> picotm_error_is_set e"
  shows "if picotm_error_is_set e' then ph_pages m' = ph_pages m
    else e' = e \<and> v \<noteq> 0 \<and> ph_pages m v = None \<and> ph_pages m' = (ph_pages m)(v \<mapsto> init)"
proof -
  obtain a m1 where new: "heap_malloc malloc (page_in_use m) m = (a, m1)" by (cases "heap_malloc malloc (page_in_use m) m")
  note heap_malloc_cases [OF assms(1) new]
  with assms(2,3) new show ?thesis
    by (auto simp: create_page_def page_put_def page_in_use_def errno_set split: if_splits)
qed

definition lock_page_good :: "fildes_page \<Rightarrow> bool" where
  "lock_page_good p \<longleftrightarrow> (\<exists>ls. p = Lock_page ls \<and> length ls = RWLOCKMAP_PAGE_NENTRIES)"

definition counter_page_good :: "fildes_page \<Rightarrow> bool" where
  "counter_page_good p \<longleftrightarrow> (\<exists>c. p = Counter_page c \<and> length (counter c) = RWLOCKMAP_PAGE_NENTRIES)"

text \<open>What holds of the maps, given an allocator that keeps its promise.\<close>

definition lock_map_ok :: "picotm_shared_treemap \<Rightarrow> 'a page_heap \<Rightarrow> bool" where
  "lock_map_ok t m \<longleftrightarrow> sht_depth t = 7 \<and> sht_level_nbits t = 9 \<and>
     (\<exists>lev. tree_ok lev t \<and> (\<forall>v\<in>cell_values lev t. \<exists>p. ph_pages m v = Some p \<and> lock_page_good p))"

definition counter_map_ok :: "picotm_treemap \<Rightarrow> 'a page_heap \<Rightarrow> bool" where
  "counter_map_ok t m \<longleftrightarrow> treemap_ok t \<and> tm_level_nbits t = 9 \<and>
     (\<forall>k. page_key k \<longrightarrow> treemap_get t k \<noteq> 0 \<longrightarrow>
        (\<exists>p. ph_pages m (treemap_get t k) = Some p \<and> counter_page_good p)) \<and>
     (\<forall>j k. page_key j \<longrightarrow> page_key k \<longrightarrow> treemap_get t k \<noteq> 0 \<longrightarrow> treemap_get t j = treemap_get t k \<longrightarrow> j = k)"

lemma page_key_bits: "page_key k \<Longrightarrow> unat k < 2 ^ 63"
  unfolding page_key_def by (erule order_less_trans) simp

lemma lock_map_find:
  assumes malloc: "malloc_ok malloc" and ok: "lock_map_ok t m" and k: "page_key k" and e: "\<not> picotm_error_is_set e"
  shows "\<exists>v t' m' e'. find_lock_page malloc t k m e = Some (v, t', m', e') \<and> lock_map_ok t' m' \<and> pages_extend m m' \<and>
        (\<forall>j. page_key j \<longrightarrow> j \<noteq> k \<longrightarrow> shared_get t' j = shared_get t j) \<and>
        (if picotm_error_is_set e' then shared_get t' k = shared_get t k
         else e' = e \<and> v \<noteq> 0 \<and> shared_get t' k = v \<and>
           (shared_get t k = v \<or> shared_get t k = 0 \<and> ph_pages m v = None \<and> ph_pages m' v = Some rwlockmap_page_init))"
proof -
  obtain lev where lev: "sht_depth t = 7" "sht_level_nbits t = 9" "tree_ok lev t"
      "\<And>v. v \<in> cell_values lev t \<Longrightarrow> \<exists>p. ph_pages m v = Some p \<and> lock_page_good p"
    using ok unfolding lock_map_ok_def by blast
  define P where "P = (\<lambda>h :: 'a page_heap. ph_pages h = ph_pages m)"
  have dir: "dir_malloc_ok P (lock_dir_malloc malloc)"
    unfolding dir_malloc_ok_def
  proof (intro allI impI)
    fix st h a err h' assume go: "lock_dir_malloc malloc st h = (a, err, h')" "P h"
    then have "heap_malloc malloc (\<lambda>a. sht_dirs st a \<noteq> None) h = (a, h')"
      unfolding lock_dir_malloc_def by (auto split: prod.splits)
    from heap_malloc_cases [OF malloc this] go(2) show "P h' \<and> (a \<noteq> 0 \<longrightarrow> sht_dirs st a = None)"
      by (simp add: P_def split: if_splits)
  qed
  have new: "creates_outside P (cell_values lev t) k (rwlockmap_create_page_fn malloc)"
    unfolding creates_outside_def
  proof (intro allI impI)
    fix h er v h' er'
    assume f: "rwlockmap_create_page_fn malloc k h er = (v, h', er')" and "P h" "\<not> picotm_error_is_set er"
    from create_page_cases [OF malloc f [unfolded rwlockmap_create_page_fn_def] this(3)] this(2)
    show "if picotm_error_is_set er' then P h' else v \<noteq> 0 \<and> v \<notin> cell_values lev t"
      using lev(4) [of v] by (auto simp: P_def split: if_splits)
  qed
  have bits: "sht_depth t * sht_level_nbits t < 64" "unat k < 2 ^ (sht_depth t * sht_level_nbits t)"
    using page_key_bits [OF k] by (simp_all add: lev(1,2))
  have "find_ends P lev t k (rwlockmap_create_page_fn malloc) e (find_lock_page malloc t k m e)"
    unfolding find_lock_page_def by (rule shared_find_value_ends [OF dir lev(3) _ e new bits]) (simp add: P_def)
  then obtain v t' m' e' lev' where r: "find_lock_page malloc t k m e = Some (v, t', m', e')"
    and "keeps_tree lev t lev' t' \<and> P m' \<and> (picotm_error_is_set e' \<or> e' = e \<and> v \<noteq> 0 \<and> v = shared_get t k) \<or>
      adds_value lev t k v lev' t' \<and> v \<noteq> 0 \<and> \<not> picotm_error_is_set e' \<and>
        (\<exists>m1. P m1 \<and> rwlockmap_create_page_fn malloc k m1 e = (v, m', e'))"
    unfolding find_ends_def by blast
  then consider (kept) "keeps_tree lev t lev' t'" "P m'" "picotm_error_is_set e' \<or> e' = e \<and> v \<noteq> 0 \<and> v = shared_get t k" |
    (made) m1 where "adds_value lev t k v lev' t'" "v \<noteq> 0" "\<not> picotm_error_is_set e'" "P m1"
      "rwlockmap_create_page_fn malloc k m1 e = (v, m', e')" by blast
  then show ?thesis
  proof cases
    case kept
    then have "lock_map_ok t' m'" "pages_extend m m'" "\<And>j. shared_get t' j = shared_get t j"
      using lev unfolding lock_map_ok_def keeps_tree_def P_def pages_extend_def by metis+
    with r kept(3) e show ?thesis by auto
  next
    case made
    have m': "e' = e" "ph_pages m v = None" "ph_pages m' = (ph_pages m)(v \<mapsto> rwlockmap_page_init)"
      using create_page_cases [OF malloc made(5) [unfolded rwlockmap_create_page_fn_def] e] made(3,4)
      by (simp_all add: P_def)
    have good: "lock_page_good rwlockmap_page_init" by (simp add: lock_page_good_def rwlockmap_page_init_def)
    have t': "tree_ok lev' t'" "sht_depth t' = 7" "sht_level_nbits t' = 9"
        "cell_values lev' t' = insert v (cell_values lev t)" "shared_get t k = 0"
        "\<And>j. unat j < 2 ^ 63 \<Longrightarrow> shared_get t' j = (if j = k then v else shared_get t j)"
      using made(1) lev(1,2) by (simp_all add: adds_value_def)
    have "\<exists>p. ph_pages m' w = Some p \<and> lock_page_good p" if "w \<in> cell_values lev' t'" for w
      using that lev(4) [of w] good by (auto simp: m'(3) t'(4))
    then have "lock_map_ok t' m'" using t'(1-3) unfolding lock_map_ok_def by blast
    moreover have "pages_extend m m'" using m'(2,3) by (auto simp: pages_extend_def)
    ultimately show ?thesis
      using r t'(5) t'(6) page_key_bits page_key_bits [OF k] made(2,3) m' by auto
  qed
qed

lemma create_counter_page_ok: "create_ok (Some (rwcountermap_create_page_fn malloc))"
  by (auto simp: create_ok_def rwcountermap_create_page_fn_def create_page_def Let_def errno_set
      split: prod.splits if_splits)

lemma counter_map_find:
  assumes malloc: "malloc_ok malloc" and ok: "counter_map_ok t m" and k: "page_key k" and e: "\<not> picotm_error_is_set e"
  shows "\<exists>v t' m' e'. find_counter_page malloc t k m e = Some (v, t', m', e') \<and> counter_map_ok t' m' \<and> pages_extend m m' \<and>
        (\<forall>j. page_key j \<longrightarrow> j \<noteq> k \<longrightarrow> treemap_get t' j = treemap_get t j) \<and>
        (if picotm_error_is_set e' then treemap_get t' k = treemap_get t k
         else e' = e \<and> v \<noteq> 0 \<and> treemap_get t' k = v \<and>
           (treemap_get t k = v \<or> treemap_get t k = 0 \<and> ph_pages m v = None \<and> ph_pages m' v = Some rwcountermap_page_init))"
proof -
  have t: "treemap_ok t" "tm_level_nbits t = 9" using ok by (simp_all add: counter_map_ok_def)
  have pages: "\<exists>p. ph_pages m (treemap_get t j) = Some p \<and> counter_page_good p"
    if "page_key j" "treemap_get t j \<noteq> 0" for j using ok that unfolding counter_map_ok_def by blast
  have inj: "i = j" if "page_key i" "page_key j" "treemap_get t j \<noteq> 0" "treemap_get t i = treemap_get t j" for i j
    using ok that unfolding counter_map_ok_def by blast
  define P where "P = (\<lambda>h :: 'a page_heap. ph_pages h = ph_pages m)"
  let ?f = "rwcountermap_create_page_fn malloc"
  obtain v t' m' e' where find: "picotm_treemap_find_value (counter_dir_malloc malloc) t k (Some ?f) m e = (v, t', m', e')"
    by (rule prod_cases4)
  have made: "\<not> picotm_error_is_set er \<Longrightarrow> ?f j h er = (w, h', er') \<Longrightarrow> if picotm_error_is_set er' then ph_pages h' = ph_pages h
    else er' = er \<and> w \<noteq> 0 \<and> ph_pages h w = None \<and> ph_pages h' = (ph_pages h)(w \<mapsto> rwcountermap_page_init)" for j h er w h' er'
    using create_page_cases [OF malloc] unfolding rwcountermap_create_page_fn_def by blast
  have keep: "state_kept P (counter_dir_malloc malloc) k ?f"
    unfolding state_kept_def
  proof (intro conjI allI impI)
    fix h err h' assume "P h" "counter_dir_malloc malloc h = (err, h')"
    then show "P h'" using heap_malloc_cases(1) [OF malloc]
      by (auto simp: P_def counter_dir_malloc_def split: prod.splits)
  next
    fix h er w h' er'
    assume "P h" "\<not> picotm_error_is_set er" "?f k h er = (w, h', er')" "picotm_error_is_set er'"
    then show "P h'" using made [of er k h w h' er'] by (simp add: P_def)
  qed
  note create = create_counter_page_ok [of malloc]
  have key: "treemap_key_ok t k" using page_key_bits [OF k] by (simp add: treemap_key_ok_def t(2))
  note spec = treemap_find_value_spec [OF find t(1) key create e]
  have nbits: "tm_level_nbits t' = 9" using find t(2) by (rule treemap_find_nbits)
  have "found_or_made P k ?f (treemap_get t k) e v m' e'"
    by (rule treemap_finds_or_makes [OF find t(1) key e keep]) (simp add: P_def)
  then consider (failed) "P m'" "picotm_error_is_set e'"
    | (found) "P m'" "e' = e" "v = treemap_get t k" "v \<noteq> 0"
    | (new) m1 where "treemap_get t k = 0" "\<not> picotm_error_is_set e'" "P m1" "?f k m1 e = (v, m', e')"
    unfolding found_or_made_def by blast
  then show ?thesis
  proof cases
    case failed
    then have "treemap_get t' j = treemap_get t j" for j using spec by simp
    then have "counter_map_ok t' m'"
      using ok failed(1) spec nbits by (simp add: counter_map_ok_def P_def)
    with failed spec find show ?thesis by (simp add: find_counter_page_def pages_extend_def P_def)
  next
    case found
    then have same: "treemap_get t' j = treemap_get t j" for j using spec by simp
    then have "counter_map_ok t' m'"
      using ok found(1) spec nbits by (simp add: counter_map_ok_def P_def)
    with found spec find same e show ?thesis by (simp add: find_counter_page_def pages_extend_def P_def)
  next
    case new
    have m': "e' = e" "v \<noteq> 0" "ph_pages m v = None" "ph_pages m' = (ph_pages m)(v \<mapsto> rwcountermap_page_init)"
      using made [OF e new(4)] new(2,3) by (simp_all add: P_def)
    have get: "treemap_get t' j = (if j = k then v else treemap_get t j)" for j using spec new(2) by simp
    have good: "counter_page_good rwcountermap_page_init"
      by (simp add: counter_page_good_def rwcountermap_page_init_def)
    have fresh: "treemap_get t j \<noteq> v" if "page_key j" for j using pages [OF that] m'(2,3) by auto
    have "counter_map_ok t' m'"
      unfolding counter_map_ok_def
    proof (intro conjI allI impI)
      show "treemap_ok t'" using spec by simp
      show "tm_level_nbits t' = 9" by (rule nbits)
    next
      fix j assume "page_key j" "treemap_get t' j \<noteq> 0"
      then show "\<exists>p. ph_pages m' (treemap_get t' j) = Some p \<and> counter_page_good p"
        using pages [of j] fresh [of j] good by (auto simp: get m'(4) split: if_splits)
    next
      fix i j assume "page_key i" "page_key j" "treemap_get t' j \<noteq> 0" "treemap_get t' i = treemap_get t' j"
      then show "i = j" using inj [of i j] fresh [of i] fresh [of j] by (auto simp: get split: if_splits)
    qed
    moreover have "pages_extend m m'" using m'(3,4) by (auto simp: pages_extend_def)
    ultimately show ?thesis using find get new(1,2) m' by (simp add: find_counter_page_def)
  qed
qed

lemma find_counter_present:
  assumes "counter_map_ok t m" and "\<not> picotm_error_is_set e" and "treemap_get t k \<noteq> 0"
    and "find_counter_page malloc t k m e = Some (v, t', m', e')"
  shows "e' = e"
  using assms treemap_find_present [OF _ _ create_counter_page_ok assms(2,3)]
  by (auto simp: find_counter_page_def counter_map_ok_def)

lemma lock_map_unique:
  assumes "lock_map_ok t m" and "page_key j" and "page_key k" and "shared_get t k \<noteq> 0" and "shared_get t j = shared_get t k"
  shows "j = k"
proof -
  obtain lev where "sht_depth t = 7" "sht_level_nbits t = 9" "tree_ok lev t"
    using assms(1) unfolding lock_map_ok_def by blast
  then show ?thesis
    using shared_get_injective [of lev t j k] assms(4,5) page_key_bits [OF assms(2)] page_key_bits [OF assms(3)]
    by simp
qed

interpretation lock_map: page_map "find_lock_page malloc" shared_get
  "\<lambda>t m. malloc_ok malloc \<and> lock_map_ok t m" rwlockmap_page_init lock_page_good
  for malloc :: "'a page_alloc"
proof (unfold_locales, goal_cases)
  case (1 t m k e)
  then show ?case using lock_map_find [of malloc t m k e] by blast
next
  case (2 t m k)
  then obtain lev where "tree_ok lev t" "\<And>v. v \<in> cell_values lev t \<Longrightarrow> \<exists>p. ph_pages m v = Some p \<and> lock_page_good p"
    unfolding lock_map_ok_def by blast
  then show ?case using shared_get_cell [of lev t k] 2(3) by blast
next
  case (3 t m j k)
  then show ?case using lock_map_unique by blast
next
  case (4 t m m')
  then show ?case unfolding lock_map_ok_def pages_kept_def by blast
next
  case 5
  then show ?case by (simp add: lock_page_good_def rwlockmap_page_init_def)
qed

interpretation counter_map: page_map "find_counter_page malloc" treemap_get
  "\<lambda>t m. malloc_ok malloc \<and> counter_map_ok t m" rwcountermap_page_init counter_page_good
  for malloc :: "'a page_alloc"
proof (unfold_locales, goal_cases)
  case (1 t m k e)
  then show ?case using counter_map_find [of malloc t m k e] by blast
next
  case (2 t m k)
  then show ?case unfolding counter_map_ok_def by blast
next
  case (3 t m j k)
  then show ?case unfolding counter_map_ok_def by blast
next
  case (4 t m m')
  then show ?case unfolding counter_map_ok_def pages_kept_def by blast
next
  case 5
  then show ?case by (simp add: counter_page_good_def rwcountermap_page_init_def)
qed

end
