(* ===== verification/Fildes_Io.thy ===== *)
theory Fildes_Io
  imports Picotm_Grow Picotm_Log
begin

text \<open>
  Buffered writes to seekable files (\<open>modules/libc/src/fildes/ioop.c\<close>, \<open>iooptab.c\<close>): an I/O operation
  names a range of the file and the place of its bytes in a buffer; reading merges all operations of a
  table into the bytes that were read from the file, the newest last.  File offsets are signed 64-bit
  integers, sizes unsigned ones.
\<close>

subsection \<open>Ranges\<close>

definition llmin :: "u64 \<Rightarrow> u64 \<Rightarrow> u64" where "llmin a b = (if a <s b then a else b)"

definition llmax :: "u64 \<Rightarrow> u64 \<Rightarrow> u64" where "llmax a b = (if b <s a then a else b)"

definition rangeisect :: "u64 \<Rightarrow> u64 \<Rightarrow> u64 \<Rightarrow> u64 \<Rightarrow> (u64 \<times> u64) option" where
  "rangeisect off0 siz0 off1 siz1 =
     (if siz0 = 0 \<or> siz1 = 0 then None
      else map_option (\<lambda>(ioff, iend). (ioff, iend - ioff + 1))
        (if off0 <s off1 \<and> off1 <s off0 + siz0
         then Some (off1, if off1 + siz1 < off0 + siz0 then off1 + siz1 - 1 else off0 + siz0 - 1)
         else if off1 <s off0 \<and> off0 <s off1 + siz1
         then Some (off0, if off0 + siz0 < off1 + siz1 then off0 + siz0 - 1 else off1 + siz1 - 1)
         else if off0 = off1 then Some (off0, off0 + llmin siz0 siz1 - 1)
         else None))"

lemma sint_small: "unat z < 2 ^ 63 \<Longrightarrow> sint z = int (unat z)" for z :: u64
proof -
  assume "unat z < 2 ^ 63"
  then have "int (unat z) < int (2 ^ 63)" by (simp only: of_nat_less_iff)
  then have "uint z < 2 ^ 63" by (simp only: of_nat_power of_nat_numeral uint_nat)
  then have "sint z = uint z"
    using signed_take_bit_int_eq_self [of 63 "uint z"] uint_ge_0 [of z] by (simp add: sint_uint)
  then show "sint z = int (unat z)" by (simp only: uint_nat)
qed

lemma sless_unat: "unat x < 2 ^ 63 \<Longrightarrow> unat y < 2 ^ 63 \<Longrightarrow> x <s y \<longleftrightarrow> unat x < unat y" for x y :: u64
  by (simp only: word_sless_alt sint_small of_nat_less_iff)

text \<open>A range that lies in a file has an end that is a file offset.\<close>

definition range_ok :: "u64 \<Rightarrow> u64 \<Rightarrow> bool" where
  "range_ok off n \<longleftrightarrow> unat off + unat n < 2 ^ 63"

lemma range_end: "range_ok off n \<Longrightarrow> unat (off + n) = unat off + unat n"
  unfolding range_ok_def by (rule unat_add_lem [THEN iffD1]) simp

lemma range_small:
  assumes "range_ok off n"
  shows "unat off < 2 ^ 63" and "unat n < 2 ^ 63" and "unat (off + n) < 2 ^ 63"
  using assms range_end [OF assms] unfolding range_ok_def by linarith+

lemma rangeisect_Some:
  assumes "range_ok off0 siz0" and "range_ok off1 siz1" and "siz0 \<noteq> 0" and "siz1 \<noteq> 0"
    and "unat off0 < unat off1 + unat siz1" and "unat off1 < unat off0 + unat siz0"
  shows "\<exists>ioff isiz. rangeisect off0 siz0 off1 siz1 = Some (ioff, isiz) \<and> unat ioff = max (unat off0) (unat off1) \<and>
    unat ioff + unat isiz = min (unat off0 + unat siz0) (unat off1 + unat siz1)"
proof -
  note E = range_end [OF assms(1)] range_end [OF assms(2)]
  note S = range_small [OF assms(1)] range_small [OF assms(2)]
  have sless: "off0 <s off1 \<longleftrightarrow> unat off0 < unat off1" "off1 <s off0 \<longleftrightarrow> unat off1 < unat off0"
      "off1 <s off0 + siz0" "off0 <s off1 + siz1" "siz0 <s siz1 \<longleftrightarrow> unat siz0 < unat siz1"
    using S sless_unat [of off0 off1] sless_unat [of off1 off0] sless_unat [of off1 "off0 + siz0"]
      sless_unat [of off0 "off1 + siz1"] sless_unat [of siz0 siz1] assms(5,6) by (simp_all add: E)
  have less: "off1 + siz1 < off0 + siz0 \<longleftrightarrow> unat off1 + unat siz1 < unat off0 + unat siz0"
      "off0 + siz0 < off1 + siz1 \<longleftrightarrow> unat off0 + unat siz0 < unat off1 + unat siz1"
    by (simp_all add: word_less_nat_alt E)
  define ioff where "ioff = (if unat off0 < unat off1 then off1 else off0)"
  define iend where "iend = (if unat off1 + unat siz1 < unat off0 + unat siz0 then off1 + siz1 else off0 + siz0)"
  have same: "off0 = off1" if "\<not> unat off0 < unat off1" "\<not> unat off1 < unat off0"
    using that by (simp add: word_unat_eq_iff)
  have len: "unat off0 + unat siz0 \<le> unat off0 + unat siz1 \<longleftrightarrow> unat siz0 \<le> unat siz1" by simp
  have "rangeisect off0 siz0 off1 siz1 = Some (ioff, iend - 1 - ioff + 1)"
  proof (cases "unat off0 < unat off1")
    case True
    then show ?thesis using assms(3,4) by (simp add: rangeisect_def sless less ioff_def iend_def)
  next
    case ge: False
    show ?thesis
    proof (cases "unat off1 < unat off0")
      case True
      then show ?thesis using assms(3,4) ge
        by (auto simp: rangeisect_def sless less ioff_def iend_def word_unat_eq_iff [of "off1 + siz1"] E)
    next
      case False
      then have eq: "off1 = off0" using same [OF ge] by simp
      then have "unat siz1 = unat siz0 \<longleftrightarrow> siz1 = siz0" by (simp add: word_unat_eq_iff)
      then show ?thesis using assms(3,4) eq sless(5)
        by (auto simp: rangeisect_def ioff_def iend_def llmin_def)
    qed
  qed
  moreover have "iend - 1 - ioff + 1 = iend - ioff" by simp
  moreover have io: "unat ioff = max (unat off0) (unat off1)" by (simp add: ioff_def)
  moreover have en: "unat iend = min (unat off0 + unat siz0) (unat off1 + unat siz1)" by (simp add: iend_def E)
  moreover have le: "unat ioff \<le> unat iend"
  proof -
    have "0 < unat siz0" "0 < unat siz1" using assms(3,4) by (simp_all add: unat_gt_0)
    then show ?thesis using io en assms(5,6) by linarith
  qed
  moreover have "unat (iend - ioff) = unat iend - unat ioff"
    by (rule unat_sub) (simp add: word_le_nat_alt le)
  ultimately show ?thesis by auto
qed

lemma rangeisect_None:
  assumes "range_ok off0 siz0" and "range_ok off1 siz1"
    and "siz0 = 0 \<or> siz1 = 0 \<or> unat off1 + unat siz1 \<le> unat off0 \<or> unat off0 + unat siz0 \<le> unat off1"
  shows "rangeisect off0 siz0 off1 siz1 = None"
proof (cases "siz0 = 0 \<or> siz1 = 0")
  case False
  note E = range_end [OF assms(1)] range_end [OF assms(2)]
  note S = range_small [OF assms(1)] range_small [OF assms(2)]
  have pos: "0 < unat siz0" "0 < unat siz1" using False by (simp_all add: unat_gt_0)
  have "\<not> (off0 <s off1 \<and> off1 <s off0 + siz0)" "\<not> (off1 <s off0 \<and> off0 <s off1 + siz1)" "off0 \<noteq> off1"
    using S sless_unat [of off0 off1] sless_unat [of off1 off0] sless_unat [of off1 "off0 + siz0"]
      sless_unat [of off0 "off1 + siz1"] assms(3) False pos by (auto simp: E)
  then show ?thesis unfolding rangeisect_def by (simp only: if_False if_cancel option.map split: if_split)
qed (auto simp: rangeisect_def)

subsection \<open>Operations\<close>

record ioop =
  io_off :: u64
  io_nbyte :: u64
  io_bufoff :: u64

definition ioop_init :: "u64 \<Rightarrow> u64 \<Rightarrow> u64 \<Rightarrow> ioop" where
  "ioop_init off nbyte bufoff = \<lparr>io_off = off, io_nbyte = nbyte, io_bufoff = bufoff\<rparr>"

text \<open>\<open>memcpy\<close> to a place in a buffer.\<close>

definition memcpy_at :: "nat \<Rightarrow> 'a list \<Rightarrow> 'a list \<Rightarrow> 'a list" where
  "memcpy_at pos src buf = take pos buf @ src @ drop (pos + length src) buf"

definition ioop_read :: "ioop \<Rightarrow> u8 list \<Rightarrow> u64 \<Rightarrow> u64 \<Rightarrow> u8 list \<Rightarrow> u64 \<times> u8 list" where
  "ioop_read self buf nbyte offset iobuf =
     (case rangeisect offset nbyte (io_off self) (io_nbyte self) of
        Some (ioff, isiz) \<Rightarrow>
          (ioff + isiz - offset,
           memcpy_at (unat (ioff - offset))
             (take (unat isiz) (drop (unat (io_bufoff self + (ioff - io_off self))) iobuf)) buf)
      | None \<Rightarrow> (0, buf))"

text \<open>The table of operations grows one by one; the index of the new operation is returned.\<close>

definition sizeof_ioop :: u64 where "sizeof_ioop = 24"

definition iooptab_append ::
  "(ioop list, 'a) allocator \<Rightarrow> ioop list option \<Rightarrow> u64 \<Rightarrow> u64 \<Rightarrow> u64 \<Rightarrow> u64 \<Rightarrow> u64 \<Rightarrow> 'a heap_env \<Rightarrow> picotm_error \<Rightarrow>
   u64 \<times> ioop list option \<times> u64 \<times> u64 \<times> 'a heap_env \<times> picotm_error"
where
  "iooptab_append realloc tab nelems siz nbyte offset bufoff env error =
     (let put = (\<lambda>tab siz env error.
            (nelems, map_option (\<lambda>t. t[unat nelems := ioop_init offset nbyte bufoff]) tab, nelems + 1, siz, env, error))
      in if nelems \<ge> siz then
           (let (lowmem, a, errno, tmp, error) =
                  tabresize realloc (he_lowmem env) (he_alloc env) (he_errno env) tab siz (siz + 1) sizeof_ioop error;
                env = \<lparr>he_alloc = a, he_errno = errno, he_lowmem = lowmem\<rparr>
            in if picotm_error_is_set error then (- 1, tab, nelems, siz, env, error)
               else put tmp (siz + 1) env error)
         else put tab siz env error)"

fun iooptab_read_loop :: "ioop list \<Rightarrow> u64 \<Rightarrow> u8 list \<Rightarrow> u64 \<Rightarrow> u64 \<Rightarrow> u8 list \<Rightarrow> u64 \<times> u8 list" where
  "iooptab_read_loop [] len buf nbyte offset iobuf = (len, buf)"
| "iooptab_read_loop (ioop # tab) len buf nbyte offset iobuf =
     (let (res, buf) = ioop_read ioop buf nbyte offset iobuf
      in iooptab_read_loop tab (llmax len res) buf nbyte offset iobuf)"

definition iooptab_read :: "ioop list \<Rightarrow> u64 \<Rightarrow> u8 list \<Rightarrow> u64 \<Rightarrow> u64 \<Rightarrow> u8 list \<Rightarrow> u64 \<times> u8 list" where
  "iooptab_read tab nelems buf nbyte offset iobuf =
     iooptab_read_loop (take (unat nelems) tab) 0 buf nbyte offset iobuf"

subsection \<open>Reading merges the operations in their order\<close>

text \<open>The bytes of a file by their offsets, and a write to them.\<close>

definition file_put :: "nat \<Rightarrow> u8 list \<Rightarrow> (nat \<Rightarrow> u8) \<Rightarrow> nat \<Rightarrow> u8" where
  "file_put n bs f = (\<lambda>i. if n \<le> i \<and> i < n + length bs then bs ! (i - n) else f i)"

definition op_bytes :: "u8 list \<Rightarrow> ioop \<Rightarrow> u8 list" where
  "op_bytes iobuf op = take (unat (io_nbyte op)) (drop (unat (io_bufoff op)) iobuf)"

definition op_put :: "u8 list \<Rightarrow> ioop \<Rightarrow> (nat \<Rightarrow> u8) \<Rightarrow> nat \<Rightarrow> u8" where
  "op_put iobuf op = file_put (unat (io_off op)) (op_bytes iobuf op)"

definition ioop_ok :: "u8 list \<Rightarrow> ioop \<Rightarrow> bool" where
  "ioop_ok iobuf op \<longleftrightarrow> range_ok (io_off op) (io_nbyte op) \<and>
     unat (io_bufoff op) + unat (io_nbyte op) \<le> length iobuf \<and> unat (io_bufoff op) + unat (io_nbyte op) < 2 ^ 63"

text \<open>How far an operation reaches into the range of a read.\<close>

definition op_reach :: "nat \<Rightarrow> nat \<Rightarrow> ioop \<Rightarrow> nat" where
  "op_reach n offset op =
     (let b = unat (io_off op); e = b + unat (io_nbyte op)
      in if b < e \<and> offset < e \<and> b < offset + n then min (offset + n) e - offset else 0)"

lemma nth_memcpy_at:
  "pos + length src \<le> length buf \<Longrightarrow> i < length buf \<Longrightarrow>
   memcpy_at pos src buf ! i = (if pos \<le> i \<and> i < pos + length src then src ! (i - pos) else buf ! i)"
  by (auto simp: memcpy_at_def nth_append)

lemma length_memcpy_at: "pos + length src \<le> length buf \<Longrightarrow> length (memcpy_at pos src buf) = length buf"
  by (simp add: memcpy_at_def)

lemma op_bytes_length: "ioop_ok iobuf op \<Longrightarrow> length (op_bytes iobuf op) = unat (io_nbyte op)"
  by (auto simp: ioop_ok_def op_bytes_def)

lemma ioop_read_spec:
  assumes "ioop_ok iobuf op" and "range_ok offset nbyte" and "length buf = unat nbyte"
  shows "\<exists>len buf'. ioop_read op buf nbyte offset iobuf = (len, buf') \<and> length buf' = length buf \<and>
    unat len = op_reach (unat nbyte) (unat offset) op \<and>
    (\<forall>i<length buf. buf' ! i = op_put iobuf op (\<lambda>j. buf ! (j - unat offset)) (unat offset + i))"
proof (cases "nbyte = 0 \<or> io_nbyte op = 0 \<or> unat (io_off op) + unat (io_nbyte op) \<le> unat offset \<or>
    unat offset + unat nbyte \<le> unat (io_off op)")
  case True
  have ok: "range_ok (io_off op) (io_nbyte op)" using assms(1) by (simp add: ioop_ok_def)
  have "rangeisect offset nbyte (io_off op) (io_nbyte op) = None"
    by (rule rangeisect_None [OF assms(2) ok True])
  moreover have "op_reach (unat nbyte) (unat offset) op = 0" using True by (auto simp: op_reach_def Let_def)
  moreover have "buf ! i = op_put iobuf op (\<lambda>j. buf ! (j - unat offset)) (unat offset + i)" if "i < length buf" for i
    using True that assms(3) op_bytes_length [OF assms(1)] by (auto simp: op_put_def file_put_def)
  ultimately show ?thesis by (simp add: ioop_read_def)
next
  case False
  have ok: "range_ok (io_off op) (io_nbyte op)" "unat (io_bufoff op) + unat (io_nbyte op) \<le> length iobuf"
      "unat (io_bufoff op) + unat (io_nbyte op) < 2 ^ 63"
    using assms(1) by (simp_all add: ioop_ok_def)
  have o: "nbyte \<noteq> 0" "io_nbyte op \<noteq> 0" "unat offset < unat (io_off op) + unat (io_nbyte op)"
      "unat (io_off op) < unat offset + unat nbyte" using False by auto
  obtain ioff isiz where r: "rangeisect offset nbyte (io_off op) (io_nbyte op) = Some (ioff, isiz)"
      "unat ioff = max (unat offset) (unat (io_off op))"
      "unat ioff + unat isiz = min (unat offset + unat nbyte) (unat (io_off op) + unat (io_nbyte op))"
    using rangeisect_Some [OF assms(2) ok(1) o] by blast
  let ?pos = "unat ioff - unat offset" and ?src = "take (unat isiz) (drop (unat (io_bufoff op) + (unat ioff - unat (io_off op))) iobuf)"
  have pos: "unat (ioff - offset) = ?pos" by (rule unat_sub) (simp add: word_le_nat_alt r(2))
  have "unat (ioff - io_off op) = unat ioff - unat (io_off op)" by (rule unat_sub) (simp add: word_le_nat_alt r(2))
  moreover have "unat (io_bufoff op) + (unat ioff - unat (io_off op)) < 2 ^ 64"
  proof -
    have "unat ioff - unat (io_off op) \<le> unat (io_nbyte op)" using r(2) o(3) by simp
    then have "unat (io_bufoff op) + (unat ioff - unat (io_off op)) \<le> unat (io_bufoff op) + unat (io_nbyte op)"
      by simp
    also have "\<dots> < 2 ^ 63" by (rule ok(3))
    also have "(2::nat) ^ 63 < 2 ^ 64" by simp
    finally show ?thesis .
  qed
  ultimately have src: "unat (io_bufoff op + (ioff - io_off op)) = unat (io_bufoff op) + (unat ioff - unat (io_off op))"
    by (subst unat_add_lem [THEN iffD1]) simp_all
  have "unat isiz \<le> length iobuf - (unat (io_bufoff op) + (unat ioff - unat (io_off op)))"
    using r(2,3) ok(2) by linarith
  then have len_src: "length ?src = unat isiz" by simp
  have fits: "?pos + length ?src \<le> length buf" using r(2,3) len_src assms(3) by linarith
  have "unat (ioff + isiz) = unat ioff + unat isiz"
    using r(3) ok(1) unfolding range_ok_def by (subst unat_add_lem [THEN iffD1]) simp_all
  moreover have "unat (ioff + isiz - offset) = unat (ioff + isiz) - unat offset"
    using calculation r(2) by (intro unat_sub) (simp add: word_le_nat_alt)
  ultimately have "unat (ioff + isiz - offset) = op_reach (unat nbyte) (unat offset) op"
    using r(3) o by (auto simp: op_reach_def Let_def unat_gt_0)
  moreover have "memcpy_at ?pos ?src buf ! i = op_put iobuf op (\<lambda>j. buf ! (j - unat offset)) (unat offset + i)"
    if i: "i < length buf" for i
  proof -
    have inside: "?pos \<le> i \<and> i < ?pos + length ?src \<longleftrightarrow>
        unat (io_off op) \<le> unat offset + i \<and> unat offset + i < unat (io_off op) + unat (io_nbyte op)"
      using r(2,3) len_src i assms(3) by (auto simp: max_def min_def split: if_splits)
    have "?src ! (i - ?pos) = op_bytes iobuf op ! (unat offset + i - unat (io_off op))"
      if "?pos \<le> i \<and> i < ?pos + length ?src"
    proof -
      have d: "unat (io_bufoff op) + (unat ioff - unat (io_off op)) + (i - ?pos) =
          unat (io_bufoff op) + (unat offset + i - unat (io_off op))" using that r(2) by linarith
      have k: "i - ?pos < unat isiz" "unat offset + i - unat (io_off op) < unat (io_nbyte op)"
        using that inside len_src by linarith+
      have le: "unat (io_bufoff op) + (unat ioff - unat (io_off op)) \<le> length iobuf"
        using ok(2) r(2) o(3) by linarith
      have "?src ! (i - ?pos) = iobuf ! (unat (io_bufoff op) + (unat ioff - unat (io_off op)) + (i - ?pos))"
        using k(1) le by (simp only: nth_take nth_drop)
      moreover have "op_bytes iobuf op ! (unat offset + i - unat (io_off op)) =
          iobuf ! (unat (io_bufoff op) + (unat offset + i - unat (io_off op)))"
        using k(2) ok(2) by (simp add: op_bytes_def)
      ultimately show ?thesis using d by simp
    qed
    then show ?thesis
      using nth_memcpy_at [OF fits i] inside op_bytes_length [OF assms(1)] by (simp add: op_put_def file_put_def)
  qed
  ultimately show ?thesis using r(1) fits by (simp add: ioop_read_def pos src length_memcpy_at)
qed

lemma op_put_at: "f k = g k \<Longrightarrow> op_put iobuf op f k = op_put iobuf op g k"
  by (simp add: op_put_def file_put_def)

lemma fold_op_put_at: "f k = g k \<Longrightarrow> fold (op_put iobuf) ops f k = fold (op_put iobuf) ops g k"
proof (induction ops arbitrary: f g)
  case (Cons op ops)
  have "op_put iobuf op f k = op_put iobuf op g k" by (rule op_put_at) (rule Cons.prems)
  then show ?case using Cons.IH [of "op_put iobuf op f" "op_put iobuf op g"] by simp
qed simp

lemma op_reach_le: "op_reach n offset op \<le> n"
  by (auto simp: op_reach_def Let_def)

text \<open>How far the operations of a table reach, at least \<open>len\<close>.\<close>

definition ops_reach :: "nat \<Rightarrow> nat \<Rightarrow> ioop list \<Rightarrow> nat \<Rightarrow> nat" where
  "ops_reach n offset ops len = fold (\<lambda>op len. max len (op_reach n offset op)) ops len"

lemma unat_llmax: "unat x < 2 ^ 63 \<Longrightarrow> unat y < 2 ^ 63 \<Longrightarrow> unat (llmax x y) = max (unat x) (unat y)"
  by (simp add: llmax_def sless_unat max_def)

lemma iooptab_read_loop_spec:
  "\<forall>op\<in>set ops. ioop_ok iobuf op \<Longrightarrow> range_ok offset nbyte \<Longrightarrow> length buf = unat nbyte \<Longrightarrow> unat len < 2 ^ 63 \<Longrightarrow>
   \<exists>len' buf'. iooptab_read_loop ops len buf nbyte offset iobuf = (len', buf') \<and> length buf' = length buf \<and>
     unat len' = ops_reach (unat nbyte) (unat offset) ops (unat len) \<and>
     (\<forall>i<length buf. buf' ! i = fold (op_put iobuf) ops (\<lambda>j. buf ! (j - unat offset)) (unat offset + i))"
proof (induction ops arbitrary: len buf)
  case Nil
  then show ?case by (simp add: ops_reach_def)
next
  case (Cons op ops)
  obtain res buf1 where op: "ioop_read op buf nbyte offset iobuf = (res, buf1)" "length buf1 = length buf"
      "unat res = op_reach (unat nbyte) (unat offset) op"
      "\<forall>i<length buf. buf1 ! i = op_put iobuf op (\<lambda>j. buf ! (j - unat offset)) (unat offset + i)"
    using ioop_read_spec [of iobuf op offset nbyte buf] Cons.prems by auto
  have res: "unat res < 2 ^ 63"
    using op(3) op_reach_le [of "unat nbyte" "unat offset" op] range_small(2) [OF Cons.prems(2)] by simp
  have len1: "unat (llmax len res) = max (unat len) (unat res)" by (rule unat_llmax [OF Cons.prems(4) res])
  then have "unat (llmax len res) < 2 ^ 63" using Cons.prems(4) res by (simp only: max_less_iff_conj)
  then obtain len' buf' where IH: "iooptab_read_loop ops (llmax len res) buf1 nbyte offset iobuf = (len', buf')"
      "length buf' = length buf1" "unat len' = ops_reach (unat nbyte) (unat offset) ops (unat (llmax len res))"
      "\<forall>i<length buf1. buf' ! i = fold (op_put iobuf) ops (\<lambda>j. buf1 ! (j - unat offset)) (unat offset + i)"
    using Cons.IH [of buf1 "llmax len res"] Cons.prems op(2) by auto
  have "buf' ! i = fold (op_put iobuf) (op # ops) (\<lambda>j. buf ! (j - unat offset)) (unat offset + i)"
    if "i < length buf" for i
  proof -
    have "buf' ! i = fold (op_put iobuf) ops (\<lambda>j. buf1 ! (j - unat offset)) (unat offset + i)"
      using IH(4) that op(2) by simp
    also have "\<dots> = fold (op_put iobuf) ops (op_put iobuf op (\<lambda>j. buf ! (j - unat offset))) (unat offset + i)"
      by (rule fold_op_put_at) (use op(4) that in simp)
    finally show ?thesis by simp
  qed
  then show ?case using op IH len1 by (simp add: ops_reach_def)
qed

theorem iooptab_read_spec:
  assumes "\<forall>op\<in>set (take (unat nelems) tab). ioop_ok iobuf op" and "range_ok offset nbyte" and "length buf = unat nbyte"
  shows "\<exists>len buf'. iooptab_read tab nelems buf nbyte offset iobuf = (len, buf') \<and> length buf' = length buf \<and>
     unat len = ops_reach (unat nbyte) (unat offset) (take (unat nelems) tab) 0 \<and>
     (\<forall>i<length buf. buf' ! i =
        fold (op_put iobuf) (take (unat nelems) tab) (\<lambda>j. buf ! (j - unat offset)) (unat offset + i))"
  unfolding iooptab_read_def using iooptab_read_loop_spec [OF assms, of 0] by simp

end
