(* ===== verification/Fildes_Regions.thy ===== *)
theory Fildes_Regions
  imports Fildes_Page_Map Fildes_Io
begin

text \<open>
  The region locks of seekable files (\<open>modules/libc/src/fildes/rwcounter.c\<close>, \<open>rwcountermap.c\<close> and the region
  functions of \<open>seekbuf.c\<close>).  A transaction that reads or writes a range of bytes locks the records that
  hold them, and counts how often it has locked each record.
\<close>

subsection \<open>Counters of locks\<close>

definition RWCOUNTER_WRITTEN :: u64 where "RWCOUNTER_WRITTEN = 0x8000000"

definition RWCOUNTER_BITS :: u64 where "RWCOUNTER_BITS = 0x7ffffff"

text \<open>
  An operation on a record: the address of its lock, the counter and the byte of the lock.  \<open>waits\<close> is what
  other threads do to the byte at an address while the transaction waits for it.
\<close>

type_synonym record_call = "pointer \<Rightarrow> u64 \<Rightarrow> u8 \<Rightarrow> picotm_error \<Rightarrow> (u64 \<times> u8 \<times> picotm_error) option"

definition rwcounter_rdlock :: "(pointer \<Rightarrow> lock_wait) \<Rightarrow> (pointer \<Rightarrow> lock_wait) \<Rightarrow> record_call" where
  "rwcounter_rdlock waits sleeps rwlock self mem error =
     (let count = (\<lambda>self. (self AND RWCOUNTER_WRITTEN) OR ((self AND RWCOUNTER_BITS) + 1)) in
      if self AND RWCOUNTER_BITS = 0 then
        (case picotm_rwlock_try_rdlock (waits rwlock) (sleeps rwlock) rwlock mem error of
           None \<Rightarrow> None
         | Some (mem, error) \<Rightarrow>
             if picotm_error_is_set error then Some (self, mem, error) else Some (count self, mem, error))
      else Some (count self, mem, error))"

definition rwcounter_wrlock :: "(pointer \<Rightarrow> lock_wait) \<Rightarrow> (pointer \<Rightarrow> lock_wait) \<Rightarrow> record_call" where
  "rwcounter_wrlock waits sleeps rwlock self mem error =
     (let count = (\<lambda>self. RWCOUNTER_WRITTEN OR ((self AND RWCOUNTER_BITS) + 1)) in
      if self AND RWCOUNTER_WRITTEN = 0 then
        (let upgrade = (self AND RWCOUNTER_BITS \<noteq> 0) in
         case picotm_rwlock_try_wrlock (waits rwlock) (sleeps rwlock) rwlock mem upgrade error of
           None \<Rightarrow> None
         | Some (mem, error) \<Rightarrow>
             if picotm_error_is_set error then Some (self, mem, error) else Some (count self, mem, error))
      else Some (count self, mem, error))"

text \<open>
  Releasing the last lock; the call that wakes the waiters, if the byte names one, belongs to the lock
  manager.
\<close>

definition rwcounter_unlock :: record_call where
  "rwcounter_unlock rwlock self mem error =
     (let self = (self AND RWCOUNTER_WRITTEN) OR ((self AND RWCOUNTER_BITS) - 1) in
      if self AND RWCOUNTER_BITS \<noteq> 0 then Some (self, mem, error)
      else Some (0, snd (picotm_rwlock_unlock mem), error))"

subsection \<open>The records of a page\<close>

record 'a regions =
  rg_counters :: picotm_treemap
  rg_locks :: picotm_shared_treemap
  rg_heap :: "'a page_heap"

definition counter_page :: "'a page_heap \<Rightarrow> u64 \<Rightarrow> rwcountermap_page" where
  "counter_page m a =
     (case ph_pages m a of Some (Counter_page p) \<Rightarrow> p | _ \<Rightarrow> \<lparr>lockpg = 0, counter = []\<rparr>)"

definition lock_page :: "'a page_heap \<Rightarrow> u64 \<Rightarrow> u8 list" where
  "lock_page m a = (case ph_pages m a of Some (Lock_page ls) \<Rightarrow> ls | _ \<Rightarrow> [])"

definition rwcountermap_page_get_rwlockmap_page ::
  "'a page_alloc \<Rightarrow> u64 \<Rightarrow> u64 \<Rightarrow> 'a regions \<Rightarrow> picotm_error \<Rightarrow> (u64 \<times> 'a regions \<times> picotm_error) option"
where
  "rwcountermap_page_get_rwlockmap_page malloc self offset r error =
     (if lockpg (counter_page (rg_heap r) self) \<noteq> 0
      then Some (lockpg (counter_page (rg_heap r) self), r, error)
      else
        (case rwlockmap_find_page malloc (rg_locks r) offset (rg_heap r) error of
           None \<Rightarrow> None
         | Some (pg, locks, heap, error) \<Rightarrow>
             (let heap = page_put self (Counter_page ((counter_page heap self)\<lparr>lockpg := pg\<rparr>)) heap;
                  r = r\<lparr>rg_locks := locks, rg_heap := heap\<rparr>
              in if picotm_error_is_set error then Some (0, r, error) else Some (pg, r, error))))"

text \<open>
  The loop of \<open>call_records\<close> from index \<open>beg\<close> to index \<open>fin\<close> of a page of counters, and in step over the locks at
  the address \<open>base\<close>; the index that it reaches is returned.
\<close>

function call_records ::
  "record_call \<Rightarrow> pointer \<Rightarrow> nat \<Rightarrow> nat \<Rightarrow> u64 list \<Rightarrow> u8 list \<Rightarrow> picotm_error \<Rightarrow>
   (nat \<times> u64 list \<times> u8 list \<times> picotm_error) option"
where
  "call_records call_record base beg fin counters locks error =
     (if beg < fin then
        (case call_record (base + of_nat beg) (counters ! beg) (locks ! beg) error of
           None \<Rightarrow> None
         | Some (c, l, error) \<Rightarrow>
             (let counters = counters[beg := c]; locks = locks[beg := l] in
              if picotm_error_is_set error then Some (beg, counters, locks, error)
              else call_records call_record base (Suc beg) fin counters locks error))
      else Some (beg, counters, locks, error))"
  by pat_completeness auto
termination by (relation "measure (\<lambda>(_, _, beg, fin, _). fin - beg)") auto

declare call_records.simps [simp del]

definition rwcountermap_page_for_each_record_in_range ::
  "'a page_alloc \<Rightarrow> record_call \<Rightarrow> u64 \<Rightarrow> u64 \<Rightarrow> u64 \<Rightarrow> 'a regions \<Rightarrow> picotm_error \<Rightarrow>
   (u64 \<times> 'a regions \<times> picotm_error) option"
where
  "rwcountermap_page_for_each_record_in_range malloc call_record self record_length record_offset r error =
     (case rwcountermap_page_get_rwlockmap_page malloc self record_offset r error of
        None \<Rightarrow> None
      | Some (lockpage, r, error) \<Rightarrow>
          if picotm_error_is_set error then Some (0, r, error)
          else
            (let offset = record_offset mod of_nat RWLOCKMAP_PAGE_NENTRIES;
                 length = llmin record_length (of_nat RWLOCKMAP_PAGE_NENTRIES - offset);
                 page = counter_page (rg_heap r) self
             in case call_records call_record lockpage (unat offset) (unat (offset + length)) (counter page)
                       (lock_page (rg_heap r) lockpage) error of
                  None \<Rightarrow> None
                | Some (stop, counters, locks, error) \<Rightarrow>
                    Some (of_nat stop - offset,
                      r\<lparr>rg_heap := page_put self (Counter_page (page\<lparr>counter := counters\<rparr>))
                          (page_put lockpage (Lock_page locks) (rg_heap r))\<rparr>, error)))"

subsection \<open>The records of a range\<close>

partial_function (option) rwcountermap_for_each_record_in_range ::
  "'a page_alloc \<Rightarrow> record_call \<Rightarrow> u64 \<Rightarrow> u64 \<Rightarrow> 'a regions \<Rightarrow> picotm_error \<Rightarrow> ('a regions \<times> picotm_error) option"
where
  "rwcountermap_for_each_record_in_range malloc call_record record_length record_offset r error =
     (if record_length = 0 then Some (r, error)
      else
        (case find_counter_page malloc (rg_counters r) (key_bits record_offset RWLOCKMAP_PAGE_NBITS) (rg_heap r) error of
           None \<Rightarrow> None
         | Some (statepg, counters, heap, error) \<Rightarrow>
             (let r = r\<lparr>rg_counters := counters, rg_heap := heap\<rparr> in
              if picotm_error_is_set error then Some (r, error)
              else
                (case rwcountermap_page_for_each_record_in_range malloc call_record statepg
                        record_length record_offset r error of
                   None \<Rightarrow> None
                 | Some (diff, r, error) \<Rightarrow>
                     if picotm_error_is_set error then Some (r, error)
                     else rwcountermap_for_each_record_in_range malloc call_record
                            (record_length - diff) (record_offset + diff) r error))))"

definition rwcountermap_rdlock where
  "rwcountermap_rdlock malloc waits sleeps record_length record_offset r error =
     rwcountermap_for_each_record_in_range malloc (rwcounter_rdlock waits sleeps) record_length record_offset r error"

definition rwcountermap_wrlock where
  "rwcountermap_wrlock malloc waits sleeps record_length record_offset r error =
     rwcountermap_for_each_record_in_range malloc (rwcounter_wrlock waits sleeps) record_length record_offset r error"

text \<open>
  Unlocking starts over after an error, with a fresh error record; \<open>recover\<close> is \<open>picotm_recover_from_error\<close>,
  which may act on the state, or end the program.
\<close>

partial_function (option) rwcountermap_unlock ::
  "'a page_alloc \<Rightarrow> (picotm_error \<Rightarrow> 'a regions \<Rightarrow> 'a regions option) \<Rightarrow> u64 \<Rightarrow> u64 \<Rightarrow> 'a regions \<Rightarrow> 'a regions option"
where
  "rwcountermap_unlock malloc recover record_length record_offset r =
     (case rwcountermap_for_each_record_in_range malloc rwcounter_unlock record_length record_offset r
             PICOTM_ERROR_INITIALIZER of
        None \<Rightarrow> None
      | Some (r, error) \<Rightarrow>
          if picotm_error_is_set error then
            (case recover (picotm_error_mark_as_non_recoverable error) r of
               None \<Rightarrow> None
             | Some r \<Rightarrow> rwcountermap_unlock malloc recover record_length record_offset r)
          else Some r)"

lemmas region_loops [code] = rwcountermap_for_each_record_in_range.simps rwcountermap_unlock.simps
  find_alone.simps run_turns.simps

subsection \<open>Ranges of bytes\<close>

definition RECBITS :: nat where "RECBITS = 5"

definition RECSIZE :: u64 where "RECSIZE = push_bit RECBITS 1"

definition recoffset :: "u64 \<Rightarrow> u64" where "recoffset off = off div RECSIZE"

definition reccount :: "u64 \<Rightarrow> u64" where "reccount len = 1 + len div RECSIZE"

definition seekbuf_try_rdlock_region where
  "seekbuf_try_rdlock_region malloc waits sleeps off nbyte r error =
     rwcountermap_rdlock malloc waits sleeps (reccount nbyte) (recoffset off) r error"

definition seekbuf_try_wrlock_region where
  "seekbuf_try_wrlock_region malloc waits sleeps off nbyte r error =
     rwcountermap_wrlock malloc waits sleeps (reccount nbyte) (recoffset off) r error"

definition seekbuf_unlock_region where
  "seekbuf_unlock_region malloc recover off nbyte r =
     rwcountermap_unlock malloc recover (reccount nbyte) (recoffset off) r"

end
