(* ===== verification/Fildes_Region_Spec.thy ===== *)
theory Fildes_Region_Spec
  imports Fildes_Regions
begin

text \<open>
  What the region locks do, seen record by record: a file has a counter and a lock for each of its records,
  and the loops over pages (\<open>modules/libc/src/fildes/rwcountermap.c\<close>) apply an operation to each record of a
  range, in order, up to the first that fails.  Pages, trees and cached addresses disappear from this view.
\<close>

subsection \<open>The view\<close>

definition rec_page :: "u64 \<Rightarrow> u64" where "rec_page i = key_bits i RWLOCKMAP_PAGE_NBITS"

definition rec_slot :: "u64 \<Rightarrow> nat" where "rec_slot i = unat i mod RWLOCKMAP_PAGE_NENTRIES"

fun the_counters :: "fildes_page \<Rightarrow> rwcountermap_page" where
  "the_counters (Counter_page c) = c"
| "the_counters (Lock_page ls) = \<lparr>lockpg = 0, counter = []\<rparr>"

fun the_locks :: "fildes_page \<Rightarrow> u8 list" where
  "the_locks (Lock_page ls) = ls"
| "the_locks (Counter_page c) = []"

abbreviation counters_of :: "'a regions \<Rightarrow> u64 \<Rightarrow> rwcountermap_page" where
  "counters_of r k \<equiv> the_counters (counter_map.fildes_page_at (rg_counters r) (rg_heap r) k)"

abbreviation locks_of :: "'a regions \<Rightarrow> u64 \<Rightarrow> u8 list" where
  "locks_of r k \<equiv> the_locks (lock_map.fildes_page_at (rg_locks r) (rg_heap r) k)"

definition region_view :: "'a regions \<Rightarrow> u64 \<Rightarrow> u64 \<times> u8" where
  "region_view r i =
     (counter (counters_of r (rec_page i)) ! rec_slot i, locks_of r (rec_page i) ! rec_slot i)"

definition regions_ok :: "'a page_alloc \<Rightarrow> 'a regions \<Rightarrow> bool" where
  "regions_ok malloc r \<longleftrightarrow> malloc_ok malloc \<and> counter_map_ok (rg_counters r) (rg_heap r) \<and>
     lock_map_ok (rg_locks r) (rg_heap r) \<and>
     (\<forall>k. page_key k \<longrightarrow> lockpg (counters_of r k) \<noteq> 0 \<longrightarrow>
        shared_get (rg_locks r) k = lockpg (counters_of r k))"

lemma regions_okD:
  assumes "regions_ok malloc r"
  shows "malloc_ok malloc \<and> counter_map_ok (rg_counters r) (rg_heap r)"
    and "malloc_ok malloc \<and> lock_map_ok (rg_locks r) (rg_heap r)"
    and "page_key k \<Longrightarrow> lockpg (counters_of r k) \<noteq> 0 \<Longrightarrow> shared_get (rg_locks r) k = lockpg (counters_of r k)"
  using assms by (simp_all add: regions_ok_def)

lemma unat_rec_page: "unat (rec_page i) = unat i div 512"
  unfolding rec_page_def key_bits_def RWLOCKMAP_PAGE_NBITS_def unat_drop_bit_eq
  by (simp add: drop_bit_eq_div)

lemma rec_page_key: "page_key (rec_page i)"
proof -
  have "unat i < 2 ^ 64" using unsigned_less [of i] by simp
  then have "unat i < 2 ^ 55 * 512" by simp
  then have "unat i div 512 < 2 ^ 55" by (rule less_mult_imp_div_less)
  then show ?thesis by (simp only: page_key_def unat_rec_page)
qed

lemma rec_slot_eq: "rec_slot i = unat i mod 512"
  by (simp add: rec_slot_def RWLOCKMAP_PAGE_NENTRIES_def RWLOCKMAP_PAGE_NBITS_def)

lemma rec_slot_less: "rec_slot i < 512"
  by (simp add: rec_slot_eq)

lemma page_entries: "RWLOCKMAP_PAGE_NENTRIES = 512"
  by (simp add: RWLOCKMAP_PAGE_NENTRIES_def RWLOCKMAP_PAGE_NBITS_def)

text \<open>A page that a map knows is in the heap, and of its kind.\<close>

lemma counter_page_at:
  assumes "regions_ok malloc r" and "page_key k" and "treemap_get (rg_counters r) k = a" and "a \<noteq> 0"
  shows "ph_pages (rg_heap r) a = Some (Counter_page (counters_of r k))"
    and "length (counter (counters_of r k)) = 512" and "counter_page (rg_heap r) a = counters_of r k"
proof -
  obtain c where c: "ph_pages (rg_heap r) a = Some (Counter_page c)" "length (counter c) = 512"
    using counter_map.page_good [OF regions_okD(1) [OF assms(1)] assms(2)] assms(3,4)
    by (auto simp: counter_page_good_def page_entries)
  then have "counters_of r k = c" using assms(3,4) by (simp add: counter_map.fildes_page_at_def)
  with c show "ph_pages (rg_heap r) a = Some (Counter_page (counters_of r k))"
    "length (counter (counters_of r k)) = 512" "counter_page (rg_heap r) a = counters_of r k"
    by (simp_all add: counter_page_def)
qed

lemma lock_page_at:
  assumes "regions_ok malloc r" and "page_key k" and "shared_get (rg_locks r) k = a" and "a \<noteq> 0"
  shows "ph_pages (rg_heap r) a = Some (Lock_page (locks_of r k))"
    and "length (locks_of r k) = 512" and "lock_page (rg_heap r) a = locks_of r k"
proof -
  obtain c where c: "ph_pages (rg_heap r) a = Some (Lock_page c)" "length c = 512"
    using lock_map.page_good [OF regions_okD(2) [OF assms(1)] assms(2)] assms(3,4)
    by (auto simp: lock_page_good_def page_entries)
  then have "locks_of r k = c" using assms(3,4) by (simp add: lock_map.fildes_page_at_def)
  with c show "ph_pages (rg_heap r) a = Some (Lock_page (locks_of r k))"
    "length (locks_of r k) = 512" "lock_page (rg_heap r) a = locks_of r k"
    by (simp_all add: lock_page_def)
qed

lemma kinds_differ: "\<not> lock_page_good (Counter_page c)" "\<not> counter_page_good (Lock_page ls)"
  by (simp_all add: lock_page_good_def counter_page_good_def)

text \<open>Writing a page of counters and a page of locks.\<close>

lemma put_counters:
  assumes ok: "regions_ok malloc r" and k: "page_key k" and a: "treemap_get (rg_counters r) k = a" "a \<noteq> 0"
    and c: "length (counter c) = 512" "lockpg c \<noteq> 0 \<longrightarrow> shared_get (rg_locks r) k = lockpg c"
  defines "r' \<equiv> r\<lparr>rg_heap := page_put a (Counter_page c) (rg_heap r)\<rparr>"
  shows "regions_ok malloc r'" and "page_key j \<Longrightarrow> counters_of r' j = (if j = k then c else counters_of r j)"
    and "page_key j \<Longrightarrow> locks_of r' j = locks_of r j"
proof -
  have good: "counter_page_good (Counter_page c)" using c(1) by (simp add: counter_page_good_def page_entries)
  show cs: "counters_of r' j = (if j = k then c else counters_of r j)" if "page_key j" for j
    using counter_map.page_at_put [OF regions_okD(1) [OF ok] k a that, of "Counter_page c"]
    by (simp add: r'_def)
  show ls: "locks_of r' j = locks_of r j" if "page_key j" for j
    using lock_map.page_at_put_other [OF regions_okD(2) [OF ok] that counter_page_at(1) [OF ok k a] kinds_differ(1)]
    by (simp add: r'_def)
  have kept: "pages_kept lock_page_good (rg_heap r) (rg_heap r')"
    unfolding pages_kept_def r'_def page_put_def using counter_page_at(1) [OF ok k a] kinds_differ(1) by auto
  have "counter_map_ok (rg_counters r') (rg_heap r')"
    using counter_map.page_put_ok [OF regions_okD(1) [OF ok] good] by (simp add: r'_def)
  moreover have "lock_map_ok (rg_locks r') (rg_heap r')"
    using lock_map.ok_kept [OF regions_okD(2) [OF ok] kept] by (simp add: r'_def)
  moreover have "shared_get (rg_locks r') j = lockpg (counters_of r' j)"
    if "page_key j" "lockpg (counters_of r' j) \<noteq> 0" for j
    using regions_okD(3) [OF ok that(1)] that(2) c(2) cs [OF that(1)] by (auto simp: r'_def split: if_splits)
  ultimately show "regions_ok malloc r'" using regions_okD(1) [OF ok] by (simp add: regions_ok_def)
qed

lemma put_locks:
  assumes ok: "regions_ok malloc r" and k: "page_key k" and a: "shared_get (rg_locks r) k = a" "a \<noteq> 0"
    and ls: "length ls = 512"
  defines "r' \<equiv> r\<lparr>rg_heap := page_put a (Lock_page ls) (rg_heap r)\<rparr>"
  shows "regions_ok malloc r'" and "page_key j \<Longrightarrow> locks_of r' j = (if j = k then ls else locks_of r j)"
    and "page_key j \<Longrightarrow> counters_of r' j = counters_of r j"
proof -
  have good: "lock_page_good (Lock_page ls)" using ls by (simp add: lock_page_good_def page_entries)
  show "locks_of r' j = (if j = k then ls else locks_of r j)" if "page_key j"
    using lock_map.page_at_put [OF regions_okD(2) [OF ok] k a that, of "Lock_page ls"]
    by (simp add: r'_def)
  show cs: "counters_of r' j = counters_of r j" if "page_key j" for j
    using counter_map.page_at_put_other [OF regions_okD(1) [OF ok] that lock_page_at(1) [OF ok k a] kinds_differ(2)]
    by (simp add: r'_def)
  have kept: "pages_kept counter_page_good (rg_heap r) (rg_heap r')"
    unfolding pages_kept_def r'_def page_put_def using lock_page_at(1) [OF ok k a] kinds_differ(2) by auto
  have "lock_map_ok (rg_locks r') (rg_heap r')"
    using lock_map.page_put_ok [OF regions_okD(2) [OF ok] good] by (simp add: r'_def)
  moreover have "counter_map_ok (rg_counters r') (rg_heap r')"
    using counter_map.ok_kept [OF regions_okD(1) [OF ok] kept] by (simp add: r'_def)
  moreover have "shared_get (rg_locks r') j = lockpg (counters_of r' j)"
    if "page_key j" "lockpg (counters_of r' j) \<noteq> 0" for j
    using regions_okD(3) [OF ok that(1)] that(2) cs [OF that(1)] by (simp add: r'_def)
  ultimately show "regions_ok malloc r'" using regions_okD(1) [OF ok] by (simp add: regions_ok_def)
qed

subsection \<open>Finding pages\<close>

text \<open>Two states that look the same, record by record.\<close>

definition same_view :: "'a regions \<Rightarrow> 'a regions \<Rightarrow> bool" where
  "same_view r r' \<longleftrightarrow> (\<forall>j. page_key j \<longrightarrow> counter (counters_of r' j) = counter (counters_of r j) \<and>
     locks_of r' j = locks_of r j)"

lemma same_view_refl [simp]: "same_view r r"
  by (simp add: same_view_def)

lemma same_view_trans: "same_view r r1 \<Longrightarrow> same_view r1 r2 \<Longrightarrow> same_view r r2"
  by (simp add: same_view_def)

lemma same_view_region: "same_view r r' \<Longrightarrow> region_view r' i = region_view r i"
  using rec_page_key [of i] by (simp add: same_view_def region_view_def)

text \<open>The pages that a transaction has found stay known to it, and need no memory to be found again.\<close>

definition known :: "'a regions \<Rightarrow> u64 \<Rightarrow> bool" where
  "known r k \<longleftrightarrow> treemap_get (rg_counters r) k \<noteq> 0 \<and> lockpg (counters_of r k) \<noteq> 0"

definition known_grows :: "'a regions \<Rightarrow> 'a regions \<Rightarrow> bool" where
  "known_grows r r' \<longleftrightarrow> (\<forall>k. page_key k \<longrightarrow> known r k \<longrightarrow> known r' k)"

lemma known_grows_refl [simp]: "known_grows r r"
  by (simp add: known_grows_def)

lemma known_grows_trans: "known_grows r r1 \<Longrightarrow> known_grows r1 r2 \<Longrightarrow> known_grows r r2"
  by (simp add: known_grows_def)

lemma find_counter_view:
  assumes ok: "regions_ok malloc r" and k: "page_key k" and e: "\<not> picotm_error_is_set e"
  obtains v t h e' where "find_counter_page malloc (rg_counters r) k (rg_heap r) e = Some (v, t, h, e')"
    and "regions_ok malloc (r\<lparr>rg_counters := t, rg_heap := h\<rparr>)"
    and "same_view r (r\<lparr>rg_counters := t, rg_heap := h\<rparr>)"
    and "picotm_error_is_set e' \<or> e' = e \<and> v \<noteq> 0 \<and> treemap_get t k = v"
    and "known_grows r (r\<lparr>rg_counters := t, rg_heap := h\<rparr>)" and "known r k \<Longrightarrow> \<not> picotm_error_is_set e'"
proof -
  obtain v t h e' where f: "find_counter_page malloc (rg_counters r) k (rg_heap r) e = Some (v, t, h, e')"
      "malloc_ok malloc \<and> counter_map_ok t h" "pages_extend (rg_heap r) h"
      "\<And>j. page_key j \<Longrightarrow> counter_map.fildes_page_at t h j = counter_map.fildes_page_at (rg_counters r) (rg_heap r) j"
      "\<And>j. page_key j \<Longrightarrow> treemap_get (rg_counters r) j \<noteq> 0 \<Longrightarrow> treemap_get t j = treemap_get (rg_counters r) j"
      "picotm_error_is_set e' \<or> e' = e \<and> v \<noteq> 0 \<and> treemap_get t k = v \<and> ph_pages h v = Some (counter_map.fildes_page_at (rg_counters r) (rg_heap r) k)"
    by (rule counter_map.find_view [OF regions_okD(1) [OF ok] k e]) (rule that)
  have "lock_map_ok (rg_locks r) h"
    using lock_map.ok_kept [OF regions_okD(2) [OF ok] extend_kept [OF f(3)]] by simp
  moreover have locks: "lock_map.fildes_page_at (rg_locks r) h j = lock_map.fildes_page_at (rg_locks r) (rg_heap r) j" if "page_key j" for j
    by (rule lock_map.page_at_extend [OF regions_okD(2) [OF ok] that f(3)])
  ultimately have "regions_ok malloc (r\<lparr>rg_counters := t, rg_heap := h\<rparr>)"
    using ok f(2,4) by (simp add: regions_ok_def)
  moreover have "same_view r (r\<lparr>rg_counters := t, rg_heap := h\<rparr>)"
    using f(4) locks by (simp add: same_view_def)
  moreover have "known_grows r (r\<lparr>rg_counters := t, rg_heap := h\<rparr>)"
    using f(4,5) by (simp add: known_grows_def known_def)
  moreover have "\<not> picotm_error_is_set e'" if "known r k"
    using find_counter_present [OF conjunct2 [OF regions_okD(1) [OF ok]] e _ f(1)] that e by (simp add: known_def)
  ultimately show thesis using that [OF f(1)] f(6) by blast
qed

lemma find_lock_view:
  assumes ok: "regions_ok malloc r" and e: "\<not> picotm_error_is_set e"
  obtains v t h e' where "rwlockmap_find_page malloc (rg_locks r) i (rg_heap r) e = Some (v, t, h, e')"
    and "regions_ok malloc (r\<lparr>rg_locks := t, rg_heap := h\<rparr>)"
    and "\<And>j. page_key j \<Longrightarrow> counters_of (r\<lparr>rg_locks := t, rg_heap := h\<rparr>) j = counters_of r j"
    and "same_view r (r\<lparr>rg_locks := t, rg_heap := h\<rparr>)"
    and "if picotm_error_is_set e' then v = 0 else e' = e \<and> v \<noteq> 0 \<and> shared_get t (rec_page i) = v"
proof -
  let ?k = "rec_page i"
  obtain v t h e' where f: "find_lock_page malloc (rg_locks r) ?k (rg_heap r) e = Some (v, t, h, e')"
      "malloc_ok malloc \<and> lock_map_ok t h" "pages_extend (rg_heap r) h"
      "\<And>j. page_key j \<Longrightarrow> lock_map.fildes_page_at t h j = lock_map.fildes_page_at (rg_locks r) (rg_heap r) j"
      "\<And>j. page_key j \<Longrightarrow> shared_get (rg_locks r) j \<noteq> 0 \<Longrightarrow> shared_get t j = shared_get (rg_locks r) j"
      "picotm_error_is_set e' \<or> e' = e \<and> v \<noteq> 0 \<and> shared_get t ?k = v \<and> ph_pages h v = Some (lock_map.fildes_page_at (rg_locks r) (rg_heap r) ?k)"
    by (rule lock_map.find_view [OF regions_okD(2) [OF ok] rec_page_key [of i] e]) (rule that)
  have "counter_map_ok (rg_counters r) h"
    using counter_map.ok_kept [OF regions_okD(1) [OF ok] extend_kept [OF f(3)]] by simp
  moreover have cs: "counter_map.fildes_page_at (rg_counters r) h j = counter_map.fildes_page_at (rg_counters r) (rg_heap r) j" if "page_key j" for j
    by (rule counter_map.page_at_extend [OF regions_okD(1) [OF ok] that f(3)])
  moreover have "shared_get t j = lockpg (counters_of r j)" if "page_key j" "lockpg (counters_of r j) \<noteq> 0" for j
    using regions_okD(3) [OF ok that] f(5) [OF that(1)] that(2) by simp
  ultimately have "regions_ok malloc (r\<lparr>rg_locks := t, rg_heap := h\<rparr>)"
    using f(2) by (simp add: regions_ok_def)
  moreover have "same_view r (r\<lparr>rg_locks := t, rg_heap := h\<rparr>)"
    using f(4) cs by (simp add: same_view_def)
  moreover have "rwlockmap_find_page malloc (rg_locks r) i (rg_heap r) e =
      Some (if picotm_error_is_set e' then 0 else v, t, h, e')"
    using f(1) by (simp add: rwlockmap_find_page_def rec_page_def)
  moreover have "if picotm_error_is_set e' then (if picotm_error_is_set e' then 0 else v) = 0
      else e' = e \<and> (if picotm_error_is_set e' then 0 else v) \<noteq> 0 \<and> shared_get t ?k = (if picotm_error_is_set e' then 0 else v)"
    using f(6) by auto
  moreover have "\<And>j. page_key j \<Longrightarrow> counters_of (r\<lparr>rg_locks := t, rg_heap := h\<rparr>) j = counters_of r j"
    using cs by simp
  ultimately show thesis using that by blast
qed

lemma get_lock_page_view:
  assumes ok: "regions_ok malloc r" and a: "treemap_get (rg_counters r) (rec_page i) = a" "a \<noteq> 0"
    and e: "\<not> picotm_error_is_set e"
  obtains v r' e' where "rwcountermap_page_get_rwlockmap_page malloc a i r e = Some (v, r', e')"
    and "regions_ok malloc r'" and "same_view r r'" and "rg_counters r' = rg_counters r"
    and "picotm_error_is_set e' \<or> e' = e \<and> v \<noteq> 0 \<and> shared_get (rg_locks r') (rec_page i) = v \<and>
      lockpg (counters_of r' (rec_page i)) = v"
    and "known_grows r r'" and "known r (rec_page i) \<Longrightarrow> \<not> picotm_error_is_set e'"
proof -
  let ?k = "rec_page i"
  note k = rec_page_key [of i]
  note page = counter_page_at [OF ok k a]
  show thesis
  proof (cases "lockpg (counters_of r ?k) = 0")
    case False
    then have "rwcountermap_page_get_rwlockmap_page malloc a i r e = Some (lockpg (counters_of r ?k), r, e)"
      by (simp add: rwcountermap_page_get_rwlockmap_page_def page(3))
    then show thesis using that ok regions_okD(3) [OF ok k False] False e by simp
  next
    case True
    obtain v t h e' where f: "rwlockmap_find_page malloc (rg_locks r) i (rg_heap r) e = Some (v, t, h, e')"
        "regions_ok malloc (r\<lparr>rg_locks := t, rg_heap := h\<rparr>)"
        "\<And>j. page_key j \<Longrightarrow> counters_of (r\<lparr>rg_locks := t, rg_heap := h\<rparr>) j = counters_of r j"
        "same_view r (r\<lparr>rg_locks := t, rg_heap := h\<rparr>)"
        "if picotm_error_is_set e' then v = 0 else e' = e \<and> v \<noteq> 0 \<and> shared_get t (rec_page i) = v"
      by (rule find_lock_view [OF ok e, of i]) (rule that)
    let ?r1 = "r\<lparr>rg_locks := t, rg_heap := h\<rparr>"
    let ?c = "(counters_of r ?k)\<lparr>lockpg := v\<rparr>"
    let ?r2 = "?r1\<lparr>rg_heap := page_put a (Counter_page ?c) (rg_heap ?r1)\<rparr>"
    have a1: "treemap_get (rg_counters ?r1) ?k = a" using a(1) by simp
    note page1 = counter_page_at [OF f(2) k a1 a(2)]
    have c: "length (counter ?c) = 512" "lockpg ?c \<noteq> 0 \<longrightarrow> shared_get (rg_locks ?r1) ?k = lockpg ?c"
      using page(2) f(5) by (auto split: if_splits)
    note put = put_counters [OF f(2) k a1 a(2) c]
    have "counter_page h a = counters_of r ?k" using page1(3) f(3) [OF k] by simp
    then have "rwcountermap_page_get_rwlockmap_page malloc a i r e =
        Some (if picotm_error_is_set e' then 0 else v, ?r2, e')"
      using True f(1) by (simp add: rwcountermap_page_get_rwlockmap_page_def page(3) Let_def)
    moreover have "regions_ok malloc ?r2" by (rule put(1))
    moreover have "same_view r ?r2"
      using put(2,3) f(3,4) by (simp add: same_view_def)
    moreover have "lockpg (counters_of ?r2 ?k) = v" using put(2) [OF k] by simp
    moreover have "known ?r2 j" if "page_key j" "known r j" for j
      using put(2) [OF that(1)] f(3) [OF that(1)] that(2) True by (auto simp: known_def)
    then have "known_grows r ?r2" by (simp add: known_grows_def)
    moreover have "\<not> known r ?k" using True by (simp add: known_def)
    ultimately show thesis using that f(5) by (auto split: if_splits)
  qed
qed

subsection \<open>Records in order\<close>

text \<open>
  One successful and one failing call on a record, and a run over a range of records: the first \<open>n\<close> calls
  succeed, and the run ends at the first failure, which may have come before the call.
\<close>

definition called :: "record_call \<Rightarrow> u64 \<times> u8 \<Rightarrow> u64 \<times> u8 \<Rightarrow> bool" where
  "called f v v' \<longleftrightarrow> (\<exists>a e e'. \<not> picotm_error_is_set e \<and> f a (fst v) (snd v) e = Some (fst v', snd v', e') \<and>
     \<not> picotm_error_is_set e')"

definition call_fails :: "record_call \<Rightarrow> u64 \<times> u8 \<Rightarrow> u64 \<times> u8 \<Rightarrow> bool" where
  "call_fails f v v' \<longleftrightarrow> (\<exists>a e e'. \<not> picotm_error_is_set e \<and> f a (fst v) (snd v) e = Some (fst v', snd v', e') \<and>
     picotm_error_is_set e')"

definition total_call :: "record_call \<Rightarrow> bool" where
  "total_call f \<longleftrightarrow> (\<forall>a c l e. \<exists>c' l' e'. f a c l e = Some (c', l', e'))"

definition runs_over ::
  "record_call \<Rightarrow> (u64 \<Rightarrow> u64 \<times> u8) \<Rightarrow> (u64 \<Rightarrow> u64 \<times> u8) \<Rightarrow> nat \<Rightarrow> nat \<Rightarrow> picotm_error \<Rightarrow> bool"
where
  "runs_over f V V' off len e \<longleftrightarrow> (\<exists>n\<le>len.
     (\<forall>i. off \<le> unat i \<and> unat i < off + n \<longrightarrow> called f (V i) (V' i)) \<and>
     (\<forall>i. \<not> (off \<le> unat i \<and> unat i < off + n) \<longrightarrow>
        V' i = V i \<or> picotm_error_is_set e \<and> n < len \<and> unat i = off + n \<and> call_fails f (V i) (V' i)) \<and>
     (\<not> picotm_error_is_set e \<longrightarrow> n = len))"

lemma call_records_runs:
  assumes "total_call f"
  shows "\<not> picotm_error_is_set e \<Longrightarrow> beg \<le> fin \<Longrightarrow> fin \<le> length cs \<Longrightarrow> fin \<le> length ls \<Longrightarrow>
    \<exists>n cs' ls' e'. call_records f base beg fin cs ls e = Some (n, cs', ls', e') \<and>
      length cs' = length cs \<and> length ls' = length ls \<and> beg \<le> n \<and> n \<le> fin \<and>
      (\<forall>i. beg \<le> i \<and> i < n \<longrightarrow> called f (cs ! i, ls ! i) (cs' ! i, ls' ! i)) \<and>
      (\<forall>i. \<not> (beg \<le> i \<and> i < n) \<longrightarrow> (cs' ! i, ls' ! i) = (cs ! i, ls ! i) \<or>
         picotm_error_is_set e' \<and> n < fin \<and> i = n \<and> call_fails f (cs ! i, ls ! i) (cs' ! i, ls' ! i)) \<and>
      (\<not> picotm_error_is_set e' \<longrightarrow> n = fin)"
proof (induction "fin - beg" arbitrary: beg cs ls e)
  case 0
  then have "call_records f base beg fin cs ls e = Some (beg, cs, ls, e)" by (subst call_records.simps) simp
  with 0 show ?case by auto
next
  case (Suc k)
  then have beg: "beg < fin" by simp
  obtain c l e1 where f: "f (base + of_nat beg) (cs ! beg) (ls ! beg) e = Some (c, l, e1)"
    using assms unfolding total_call_def by blast
  let ?cs = "cs[beg := c]" and ?ls = "ls[beg := l]"
  have at: "?cs ! beg = c" "?ls ! beg = l" "\<And>i. i \<noteq> beg \<Longrightarrow> ?cs ! i = cs ! i \<and> ?ls ! i = ls ! i"
    using beg Suc.prems(3,4) by simp_all
  show ?case
  proof (cases "picotm_error_is_set e1")
    case True
    then have "call_records f base beg fin cs ls e = Some (beg, ?cs, ?ls, e1)"
      using f beg by (subst call_records.simps) simp
    moreover have "call_fails f (cs ! beg, ls ! beg) (?cs ! beg, ?ls ! beg)"
      using f True Suc.prems(1) by (auto simp: call_fails_def at)
    moreover have "(?cs ! i, ?ls ! i) = (cs ! i, ls ! i) \<or> i = beg" for i using at(3) by auto
    ultimately show ?thesis using beg True
      by (intro exI [of _ beg] exI [of _ ?cs] exI [of _ ?ls] exI [of _ e1] conjI allI impI) auto
  next
    case False
    have first: "called f (cs ! beg, ls ! beg) (c, l)"
      using f False Suc.prems(1) by (auto simp: called_def)
    have go: "call_records f base beg fin cs ls e = call_records f base (Suc beg) fin ?cs ?ls e1"
      using f beg False by (subst call_records.simps) simp
    obtain n cs' ls' e' where IH: "call_records f base (Suc beg) fin ?cs ?ls e1 = Some (n, cs', ls', e')"
        "length cs' = length cs" "length ls' = length ls" "Suc beg \<le> n" "n \<le> fin"
        "\<forall>i. Suc beg \<le> i \<and> i < n \<longrightarrow> called f (?cs ! i, ?ls ! i) (cs' ! i, ls' ! i)"
        "\<forall>i. \<not> (Suc beg \<le> i \<and> i < n) \<longrightarrow> (cs' ! i, ls' ! i) = (?cs ! i, ?ls ! i) \<or>
           picotm_error_is_set e' \<and> n < fin \<and> i = n \<and> call_fails f (?cs ! i, ?ls ! i) (cs' ! i, ls' ! i)"
        "\<not> picotm_error_is_set e' \<longrightarrow> n = fin"
      using Suc.hyps(1) [of "Suc beg" e1 ?cs ?ls] Suc.hyps(2) beg False Suc.prems(3,4) by fastforce
    have "cs' ! beg = c \<and> ls' ! beg = l" using IH(7) [rule_format, of beg] IH(4) at(1,2) by auto
    then have "called f (cs ! i, ls ! i) (cs' ! i, ls' ! i)" if "beg \<le> i" "i < n" for i
      using that first IH(6) [rule_format, of i] at(3) [of i] by (cases "i = beg") auto
    moreover have "(cs' ! i, ls' ! i) = (cs ! i, ls ! i) \<or>
         picotm_error_is_set e' \<and> n < fin \<and> i = n \<and> call_fails f (cs ! i, ls ! i) (cs' ! i, ls' ! i)"
      if "\<not> (beg \<le> i \<and> i < n)" for i
      using that IH(4) IH(7) [rule_format, of i] at(3) [of i] by auto
    ultimately show ?thesis using go IH by (intro exI [of _ n] exI [of _ cs'] exI [of _ ls'] exI [of _ e']) auto
  qed
qed

definition never_fails :: "record_call \<Rightarrow> bool" where
  "never_fails f \<longleftrightarrow> (\<forall>a c l e c' l' e'. f a c l e = Some (c', l', e') \<longrightarrow> \<not> picotm_error_is_set e \<longrightarrow>
     \<not> picotm_error_is_set e')"

lemma call_records_never_fail:
  "never_fails f \<Longrightarrow> call_records f base beg fin cs ls e = Some (n, cs', ls', e') \<Longrightarrow>
   \<not> picotm_error_is_set e \<Longrightarrow> \<not> picotm_error_is_set e'"
proof (induction f base beg fin cs ls e rule: call_records.induct)
  case (1 f base beg fin cs ls e)
  show ?case
  proof (cases "beg < fin")
    case True
    with "1.prems"(2) obtain c l e1 where f: "f (base + of_nat beg) (cs ! beg) (ls ! beg) e = Some (c, l, e1)"
      by (subst (asm) call_records.simps) (auto split: option.splits)
    then have e1: "\<not> picotm_error_is_set e1" using "1.prems"(1,3) unfolding never_fails_def by blast
    with "1.prems"(2) True f have "call_records f base (Suc beg) fin (cs[beg := c]) (ls[beg := l]) e1 = Some (n, cs', ls', e')"
      by (subst (asm) call_records.simps) simp
    from "1.IH" [OF True f refl refl refl refl e1 "1.prems"(1) this e1] show ?thesis .
  next
    case False
    with "1.prems"(2,3) show ?thesis by (subst (asm) call_records.simps) simp
  qed
qed

text \<open>Runs over neighbouring ranges make one run.\<close>

lemma runs_over_join:
  assumes "runs_over f V V1 off len e1" and "\<not> picotm_error_is_set e1" and "runs_over f V1 V2 (off + len) len2 e2"
  shows "runs_over f V V2 off (len + len2) e2"
proof -
  have 1: "called f (V i) (V1 i)" if "off \<le> unat i" "unat i < off + len" for i
    using assms(1,2) that unfolding runs_over_def by blast
  have 2: "V1 i = V i" if "\<not> (off \<le> unat i \<and> unat i < off + len)" for i
    using assms(1,2) that unfolding runs_over_def by blast
  obtain n where n: "n \<le> len2"
      "\<And>i. off + len \<le> unat i \<and> unat i < off + len + n \<Longrightarrow> called f (V1 i) (V2 i)"
      "\<And>i. \<not> (off + len \<le> unat i \<and> unat i < off + len + n) \<Longrightarrow>
        V2 i = V1 i \<or> picotm_error_is_set e2 \<and> n < len2 \<and> unat i = off + len + n \<and> call_fails f (V1 i) (V2 i)"
      "\<not> picotm_error_is_set e2 \<Longrightarrow> n = len2"
    using assms(3) unfolding runs_over_def by blast
  show ?thesis
    unfolding runs_over_def
  proof (intro exI [of _ "len + n"] conjI allI impI)
    show "len + n \<le> len + len2" using n(1) by simp
  next
    fix i :: u64 assume i: "off \<le> unat i \<and> unat i < off + (len + n)"
    show "called f (V i) (V2 i)"
    proof (cases "unat i < off + len")
      case True
      then have "V2 i = V1 i" using n(3) [of i] by auto
      with 1 [of i] i True show ?thesis by simp
    next
      case False
      with n(2) [of i] 2 [of i] i show ?thesis by simp
    qed
  next
    fix i :: u64 assume i: "\<not> (off \<le> unat i \<and> unat i < off + (len + n))"
    then have "V1 i = V i" using 2 [of i] by auto
    with n(3) [of i] i show "V2 i = V i \<or> picotm_error_is_set e2 \<and> len + n < len + len2 \<and>
        unat i = off + (len + n) \<and> call_fails f (V i) (V2 i)" by auto
  next
    assume "\<not> picotm_error_is_set e2"
    with n(4) show "len + n = len + len2" by simp
  qed
qed

lemma runs_over_nothing: "picotm_error_is_set e \<or> len = 0 \<Longrightarrow> (\<And>i. V' i = V i) \<Longrightarrow> runs_over f V V' off len e"
  unfolding runs_over_def by (intro exI [of _ 0]) auto

lemma runs_over_longer: "runs_over f V V' off len e \<Longrightarrow> picotm_error_is_set e \<Longrightarrow> len \<le> len' \<Longrightarrow> runs_over f V V' off len' e"
proof -
  assume r: "runs_over f V V' off len e" and e: "picotm_error_is_set e" and le: "len \<le> len'"
  obtain n where n: "n \<le> len" "\<And>i. off \<le> unat i \<and> unat i < off + n \<Longrightarrow> called f (V i) (V' i)"
      "\<And>i. \<not> (off \<le> unat i \<and> unat i < off + n) \<Longrightarrow>
        V' i = V i \<or> picotm_error_is_set e \<and> n < len \<and> unat i = off + n \<and> call_fails f (V i) (V' i)"
    using r unfolding runs_over_def by blast
  have "V' i = V i \<or> picotm_error_is_set e \<and> n < len' \<and> unat i = off + n \<and> call_fails f (V i) (V' i)"
    if "\<not> (off \<le> unat i \<and> unat i < off + n)" for i using n(3) [OF that] le by auto
  moreover have "n \<le> len'" using n(1) le by simp
  ultimately show "runs_over f V V' off len' e" unfolding runs_over_def using n(2) e by blast
qed

subsection \<open>A page and a range\<close>

lemma same_page_range:
  assumes "rec_page i = rec_page off"
  shows "unat off \<le> unat i \<longleftrightarrow> rec_slot off \<le> rec_slot i"
    and "unat i < unat off + n \<longleftrightarrow> rec_slot i < rec_slot off + n"
    and "unat i = unat off + n \<longleftrightarrow> rec_slot i = rec_slot off + n"
proof -
  have "unat i div 512 = unat off div 512" using assms by (metis unat_rec_page)
  moreover have "unat i = 512 * (unat i div 512) + unat i mod 512" "unat off = 512 * (unat off div 512) + unat off mod 512"
    by simp_all
  ultimately show "unat off \<le> unat i \<longleftrightarrow> rec_slot off \<le> rec_slot i"
    "unat i < unat off + n \<longleftrightarrow> rec_slot i < rec_slot off + n"
    "unat i = unat off + n \<longleftrightarrow> rec_slot i = rec_slot off + n"
    unfolding rec_slot_eq by linarith+
qed

lemma other_page_range:
  assumes "rec_page i \<noteq> rec_page off" and "rec_slot off + n \<le> 512"
  shows "\<not> (unat off \<le> unat i \<and> unat i < unat off + n)"
proof
  assume "unat off \<le> unat i \<and> unat i < unat off + n"
  moreover have "unat i div 512 \<noteq> unat off div 512"
    using assms(1) by (metis unat_rec_page word_unat_eq_iff)
  moreover have "unat i = 512 * (unat i div 512) + unat i mod 512" "unat off = 512 * (unat off div 512) + unat off mod 512"
      "unat i mod 512 < 512"
    by simp_all
  ultimately show False using assms(2) unfolding rec_slot_eq by linarith
qed

text \<open>How many records of a range lie in the page of its first record.\<close>

definition page_share :: "u64 \<Rightarrow> u64 \<Rightarrow> nat" where
  "page_share off len = min (unat len) (512 - rec_slot off)"

lemma page_share_bounds:
  "unat len \<noteq> 0 \<Longrightarrow> 0 < page_share off len" "page_share off len \<le> unat len" "rec_slot off + page_share off len \<le> 512"
  using rec_slot_less [of off] by (auto simp: page_share_def)

lemma page_loop_bounds:
  assumes "unat len < 2 ^ 63"
  shows "unat (off mod of_nat RWLOCKMAP_PAGE_NENTRIES) = rec_slot off"
    and "unat (off mod of_nat RWLOCKMAP_PAGE_NENTRIES +
      llmin len (of_nat RWLOCKMAP_PAGE_NENTRIES - off mod of_nat RWLOCKMAP_PAGE_NENTRIES)) = rec_slot off + page_share off len"
proof -
  let ?o = "off mod (512 :: u64)"
  have o: "unat ?o = rec_slot off" by (simp add: unat_mod rec_slot_eq)
  then show "unat (off mod of_nat RWLOCKMAP_PAGE_NENTRIES) = rec_slot off" by (simp add: page_entries)
  have rest: "unat (512 - ?o) = 512 - rec_slot off"
    using rec_slot_less [of off] by (simp add: unat_sub word_le_nat_alt o)
  have "(512 :: nat) < 2 ^ 63" by simp
  then have "unat (512 - ?o) < 2 ^ 63" using rest by linarith
  then have "len <s 512 - ?o \<longleftrightarrow> unat len < 512 - rec_slot off"
    using sless_unat [OF assms, of "512 - ?o"] rest by simp
  then have m: "unat (llmin len (512 - ?o)) = page_share off len"
    using rest by (auto simp: llmin_def page_share_def)
  have "unat ?o + unat (llmin len (512 - ?o)) \<le> 512" using page_share_bounds(3) [of off len] o m by simp
  then have "unat (?o + llmin len (512 - ?o)) = unat ?o + unat (llmin len (512 - ?o))"
    by (subst unat_add_lem [THEN iffD1]) simp_all
  then show "unat (off mod of_nat RWLOCKMAP_PAGE_NENTRIES +
      llmin len (of_nat RWLOCKMAP_PAGE_NENTRIES - off mod of_nat RWLOCKMAP_PAGE_NENTRIES)) = rec_slot off + page_share off len"
    by (simp add: page_entries o m)
qed

lemma page_runs:
  assumes f: "total_call f" and ok: "regions_ok malloc r" and a: "treemap_get (rg_counters r) (rec_page off) = a" "a \<noteq> 0"
    and e: "\<not> picotm_error_is_set e" and len: "unat len < 2 ^ 63"
  obtains diff r' e' where
    "rwcountermap_page_for_each_record_in_range malloc f a len off r e = Some (diff, r', e')"
    and "regions_ok malloc r'" and "runs_over f (region_view r) (region_view r') (unat off) (page_share off len) e'"
    and "\<not> picotm_error_is_set e' \<Longrightarrow> unat diff = page_share off len"
    and "known_grows r r'" and "\<not> picotm_error_is_set e' \<Longrightarrow> known r' (rec_page off)"
    and "never_fails f \<Longrightarrow> known r (rec_page off) \<Longrightarrow> \<not> picotm_error_is_set e'"
proof -
  let ?k = "rec_page off" and ?m = "page_share off len" and ?b = "rec_slot off"
  note k = rec_page_key [of off]
  obtain v r1 e1 where get: "rwcountermap_page_get_rwlockmap_page malloc a off r e = Some (v, r1, e1)"
      "regions_ok malloc r1" "same_view r r1" "rg_counters r1 = rg_counters r"
      "picotm_error_is_set e1 \<or> e1 = e \<and> v \<noteq> 0 \<and> shared_get (rg_locks r1) ?k = v \<and> lockpg (counters_of r1 ?k) = v"
      "known_grows r r1" "known r ?k \<Longrightarrow> \<not> picotm_error_is_set e1"
    by (rule get_lock_page_view [OF ok a e]) (rule that)
  note view1 = same_view_region [OF get(3)]
  show thesis
  proof (cases "picotm_error_is_set e1")
    case True
    then have "rwcountermap_page_for_each_record_in_range malloc f a len off r e = Some (0, r1, e1)"
      using get(1) by (simp add: rwcountermap_page_for_each_record_in_range_def)
    moreover have "runs_over f (region_view r) (region_view r1) (unat off) ?m e1"
      by (rule runs_over_nothing) (simp_all add: True view1)
    ultimately show thesis using that get(2,6,7) True by blast
  next
    case False
    then have v: "v \<noteq> 0" "shared_get (rg_locks r1) ?k = v" "lockpg (counters_of r1 ?k) = v" using get(5) by simp_all
    have a1: "treemap_get (rg_counters r1) ?k = a" using a(1) get(4) by simp
    note cp = counter_page_at [OF get(2) k a1 a(2)] and lp = lock_page_at [OF get(2) k v(2,1)]
    let ?cs = "counter (counters_of r1 ?k)" and ?ls = "locks_of r1 ?k"
    obtain n cs ls e' where run: "call_records f v ?b (?b + ?m) ?cs ?ls e1 = Some (n, cs, ls, e')"
        "length cs = 512" "length ls = 512" "?b \<le> n" "n \<le> ?b + ?m"
        "\<And>i. ?b \<le> i \<and> i < n \<Longrightarrow> called f (?cs ! i, ?ls ! i) (cs ! i, ls ! i)"
        "\<And>i. \<not> (?b \<le> i \<and> i < n) \<Longrightarrow> (cs ! i, ls ! i) = (?cs ! i, ?ls ! i) \<or>
           picotm_error_is_set e' \<and> n < ?b + ?m \<and> i = n \<and> call_fails f (?cs ! i, ?ls ! i) (cs ! i, ls ! i)"
        "\<not> picotm_error_is_set e' \<Longrightarrow> n = ?b + ?m"
      using call_records_runs [OF f False, of ?b "?b + ?m" ?cs ?ls v] page_share_bounds(3) [of off len] cp(2) lp(2)
      by auto
    let ?r2 = "r1\<lparr>rg_heap := page_put v (Lock_page ls) (rg_heap r1)\<rparr>"
    note put1 = put_locks [OF get(2) k v(2,1) run(3)]
    let ?c = "(counters_of r1 ?k)\<lparr>counter := cs\<rparr>"
    let ?r3 = "?r2\<lparr>rg_heap := page_put a (Counter_page ?c) (rg_heap ?r2)\<rparr>"
    have a2: "treemap_get (rg_counters ?r2) ?k = a" using a1 by simp
    have c: "length (counter ?c) = 512" "lockpg ?c \<noteq> 0 \<longrightarrow> shared_get (rg_locks ?r2) ?k = lockpg ?c"
      using run(2) v by simp_all
    note put2 = put_counters [OF put1(1) k a2 a(2) c]
    have "rwcountermap_page_for_each_record_in_range malloc f a len off r e =
        Some (of_nat n - off mod of_nat RWLOCKMAP_PAGE_NENTRIES, ?r3, e')"
      unfolding rwcountermap_page_for_each_record_in_range_def get(1)
      using run(1) False page_loop_bounds [OF len, of off] cp(3) lp(3) by (simp add: Let_def)
    moreover have "regions_ok malloc ?r3" by (rule put2(1))
    moreover have view3: "region_view ?r3 i = (if rec_page i = ?k then (cs ! rec_slot i, ls ! rec_slot i) else region_view r i)" for i
      using put2(2,3) [OF rec_page_key [of i]] put1(2,3) [OF rec_page_key [of i]] view1 [of i]
      by (simp add: region_view_def)
    have view0: "region_view r i = (?cs ! rec_slot i, ?ls ! rec_slot i)" if "rec_page i = ?k" for i
      using view1 [of i] that by (simp add: region_view_def)
    have "runs_over f (region_view r) (region_view ?r3) (unat off) ?m e'"
      unfolding runs_over_def
    proof (intro exI [of _ "n - ?b"] conjI allI impI)
      show "n - ?b \<le> ?m" using run(5) by simp
    next
      fix i :: u64 assume i: "unat off \<le> unat i \<and> unat i < unat off + (n - ?b)"
      have same: "rec_page i = ?k"
        using other_page_range [of i off "n - ?b"] i run(4,5) page_share_bounds(3) [of off len] by auto
      then have "?b \<le> rec_slot i \<and> rec_slot i < n"
        using same_page_range(1) [OF same] same_page_range(2) [OF same, of "n - ?b"] i run(4) by linarith
      from run(6) [OF this] show "called f (region_view r i) (region_view ?r3 i)"
        unfolding view3 view0 [OF same] same by simp
    next
      fix i :: u64 assume i: "\<not> (unat off \<le> unat i \<and> unat i < unat off + (n - ?b))"
      show "region_view ?r3 i = region_view r i \<or> picotm_error_is_set e' \<and> n - ?b < ?m \<and>
          unat i = unat off + (n - ?b) \<and> call_fails f (region_view r i) (region_view ?r3 i)"
      proof (cases "rec_page i = ?k")
        case same: True
        have "\<not> (?b \<le> rec_slot i \<and> rec_slot i < n)"
          using same_page_range(1) [OF same] same_page_range(2) [OF same, of "n - ?b"] i run(4) by linarith
        from run(7) [OF this] same_page_range(3) [OF same, of "n - ?b"] run(4) show ?thesis
          unfolding view3 view0 [OF same] same by auto
      next
        case False
        then show ?thesis unfolding view3 by simp
      qed
    next
      assume "\<not> picotm_error_is_set e'"
      with run(8) show "n - ?b = ?m" by simp
    qed
    moreover have "unat (of_nat n - off mod of_nat RWLOCKMAP_PAGE_NENTRIES) = ?m" if "\<not> picotm_error_is_set e'"
    proof -
      have n: "n = ?b + ?m" by (rule run(8) [OF that])
      have "n \<le> 512" using run(5) page_share_bounds(3) [of off len] by simp
      then have "unat (of_nat n :: u64) = n" by (simp add: unat_of_nat take_bit_nat_eq_self)
      then show ?thesis
        using page_loop_bounds(1) [OF len, of off] n by (subst unat_sub) (simp_all add: word_le_nat_alt)
    qed
    moreover have known3: "known ?r3 j \<longleftrightarrow> known r1 j" if "page_key j" for j
      using put2(2) [OF that] put1(3) [OF that] by (simp add: known_def)
    have "known_grows r ?r3"
      using get(6) known3 unfolding known_grows_def by blast
    moreover have "known ?r3 ?k" using known3 [OF k] a1 a(2) v(1,3) by (simp add: known_def)
    moreover have "\<not> picotm_error_is_set e'" if "never_fails f"
      by (rule call_records_never_fail [OF that run(1) False])
    ultimately show thesis using that by blast
  qed
qed

definition knows_range :: "'a regions \<Rightarrow> nat \<Rightarrow> nat \<Rightarrow> bool" where
  "knows_range r off len \<longleftrightarrow> (\<forall>i :: u64. off \<le> unat i \<and> unat i < off + len \<longrightarrow> known r (rec_page i))"

lemma knows_range_grows: "known_grows r r' \<Longrightarrow> knows_range r off len \<Longrightarrow> knows_range r' off len"
  using rec_page_key by (auto simp: knows_range_def known_grows_def)

lemma knows_page_share:
  assumes "known r (rec_page off)" shows "knows_range r (unat off) (page_share off len)"
  unfolding knows_range_def
proof (intro allI impI)
  fix i :: u64 assume i: "unat off \<le> unat i \<and> unat i < unat off + page_share off len"
  then have "rec_page i = rec_page off"
    using other_page_range [of i off "page_share off len"] page_share_bounds(3) [of off len] by blast
  then show "known r (rec_page i)" using assms by simp
qed

lemma knows_range_join:
  "knows_range r off len \<Longrightarrow> knows_range r (off + len) len2 \<Longrightarrow> knows_range r off (len + len2)"
  unfolding knows_range_def by (metis add.assoc not_le)

lemma knows_range_part:
  "knows_range r off len \<Longrightarrow> off \<le> off' \<Longrightarrow> off' + len' \<le> off + len \<Longrightarrow> knows_range r off' len'"
  unfolding knows_range_def by (meson le_trans less_le_trans)

text \<open>The loop over the pages ends, and it is a run over the records of the range.\<close>

theorem for_each_record_runs:
  assumes "total_call f"
  shows "regions_ok malloc r \<Longrightarrow> \<not> picotm_error_is_set e \<Longrightarrow> unat len < 2 ^ 63 \<Longrightarrow> unat off + unat len < 2 ^ 64 \<Longrightarrow>
    \<exists>r' e'. rwcountermap_for_each_record_in_range malloc f len off r e = Some (r', e') \<and> regions_ok malloc r' \<and>
      runs_over f (region_view r) (region_view r') (unat off) (unat len) e' \<and> known_grows r r' \<and>
      (\<not> picotm_error_is_set e' \<longrightarrow> knows_range r' (unat off) (unat len)) \<and>
      (never_fails f \<and> knows_range r (unat off) (unat len) \<longrightarrow> \<not> picotm_error_is_set e')"
proof (induction "unat len" arbitrary: len off r e rule: less_induct)
  case less
  show ?case
  proof (cases "len = 0")
    case True
    then have "rwcountermap_for_each_record_in_range malloc f len off r e = Some (r, e)"
      by (simp add: rwcountermap_for_each_record_in_range.simps)
    moreover have "runs_over f (region_view r) (region_view r) (unat off) (unat len) e"
      by (rule runs_over_nothing) (simp_all add: True)
    moreover have "knows_range r (unat off) (unat len)" by (auto simp: knows_range_def True)
    ultimately show ?thesis using less.prems(1,2) known_grows_refl by blast
  next
    case False
    obtain v t h e1 where find: "find_counter_page malloc (rg_counters r) (rec_page off) (rg_heap r) e = Some (v, t, h, e1)"
        "regions_ok malloc (r\<lparr>rg_counters := t, rg_heap := h\<rparr>)" "same_view r (r\<lparr>rg_counters := t, rg_heap := h\<rparr>)"
        "picotm_error_is_set e1 \<or> e1 = e \<and> v \<noteq> 0 \<and> treemap_get t (rec_page off) = v"
        "known_grows r (r\<lparr>rg_counters := t, rg_heap := h\<rparr>)" "known r (rec_page off) \<Longrightarrow> \<not> picotm_error_is_set e1"
      by (rule find_counter_view [OF less.prems(1) rec_page_key less.prems(2)]) (rule that)
    let ?r1 = "r\<lparr>rg_counters := t, rg_heap := h\<rparr>"
    note view1 = same_view_region [OF find(3)]
    have knows_first: "known r (rec_page off)" if "knows_range r (unat off) (unat len)"
      using that False unfolding knows_range_def by (metis le_refl less_add_same_cancel1 unat_gt_0)
    show ?thesis
    proof (cases "picotm_error_is_set e1")
      case True
      then have "rwcountermap_for_each_record_in_range malloc f len off r e = Some (?r1, e1)"
        using False find(1) by (simp add: rwcountermap_for_each_record_in_range.simps rec_page_def Let_def)
      moreover have "runs_over f (region_view r) (region_view ?r1) (unat off) (unat len) e1"
        by (rule runs_over_nothing) (simp_all only: True view1 simp_thms)
      ultimately show ?thesis using find(2,5,6) True knows_first by blast
    next
      case ok1: False
      then have v: "treemap_get (rg_counters ?r1) (rec_page off) = v" "v \<noteq> 0" using find(4) by simp_all
      obtain diff r2 e2 where page:
          "rwcountermap_page_for_each_record_in_range malloc f v len off ?r1 e1 = Some (diff, r2, e2)"
          "regions_ok malloc r2" "runs_over f (region_view ?r1) (region_view r2) (unat off) (page_share off len) e2"
          "\<not> picotm_error_is_set e2 \<Longrightarrow> unat diff = page_share off len"
        "known_grows ?r1 r2" "\<not> picotm_error_is_set e2 \<Longrightarrow> known r2 (rec_page off)"
        "never_fails f \<Longrightarrow> known ?r1 (rec_page off) \<Longrightarrow> \<not> picotm_error_is_set e2"
        by (rule page_runs [OF assms find(2) v ok1 less.prems(3)]) (rule that)
      have run: "runs_over f (region_view r) (region_view r2) (unat off) (page_share off len) e2"
        using page(3) unfolding runs_over_def view1 .
      show ?thesis
      proof (cases "picotm_error_is_set e2")
        case True
        then have "rwcountermap_for_each_record_in_range malloc f len off r e = Some (r2, e2)"
          using False find(1) ok1 page(1)
          by (subst rwcountermap_for_each_record_in_range.simps) (simp add: rec_page_def Let_def)
        moreover have "known ?r1 (rec_page off)" if "knows_range r (unat off) (unat len)"
          using knows_first [OF that] find(5) rec_page_key unfolding known_grows_def by blast
        moreover note known_grows_trans [OF find(5) page(5)]
        ultimately show ?thesis
          using page(2,7) True runs_over_longer [OF run True page_share_bounds(2)] by blast
      next
        case ok2: False
        note diff = page(4) [OF ok2]
        have pos: "0 < page_share off len" by (rule page_share_bounds(1)) (use False in \<open>simp add: unat_eq_0\<close>)
        have le: "page_share off len \<le> unat len" by (rule page_share_bounds(2))
        have len': "unat (len - diff) = unat len - page_share off len"
          using le diff by (subst unat_sub) (simp_all add: word_le_nat_alt)
        have off': "unat (off + diff) = unat off + page_share off len"
          using le diff less.prems(4) by (subst unat_add_lem [THEN iffD1]) simp_all
        have go: "rwcountermap_for_each_record_in_range malloc f len off r e =
            rwcountermap_for_each_record_in_range malloc f (len - diff) (off + diff) r2 e2"
          using False find(1) ok1 page(1) ok2
          by (subst rwcountermap_for_each_record_in_range.simps) (simp add: rec_page_def Let_def)
        have smaller: "unat (len - diff) < unat len" "unat (len - diff) < 2 ^ 63"
            "unat (off + diff) + unat (len - diff) < 2 ^ 64"
          using len' off' pos le less.prems(3,4) by linarith+
        obtain r' e' where IH: "rwcountermap_for_each_record_in_range malloc f (len - diff) (off + diff) r2 e2 = Some (r', e')"
            "regions_ok malloc r'"
            "runs_over f (region_view r2) (region_view r') (unat (off + diff)) (unat (len - diff)) e'"
            "known_grows r2 r'" "\<not> picotm_error_is_set e' \<Longrightarrow> knows_range r' (unat (off + diff)) (unat (len - diff))"
            "never_fails f \<Longrightarrow> knows_range r2 (unat (off + diff)) (unat (len - diff)) \<Longrightarrow> \<not> picotm_error_is_set e'"
          using less.hyps [OF smaller(1) page(2) ok2 smaller(2,3)] by blast
        have "runs_over f (region_view r) (region_view r') (unat off) (page_share off len + unat (len - diff)) e'"
          by (rule runs_over_join [OF run ok2]) (use IH(3) off' in simp)
        then have "runs_over f (region_view r) (region_view r') (unat off) (unat len) e'" using len' le by simp
        moreover have grows: "known_grows r r2" by (rule known_grows_trans [OF find(5) page(5)])
        then have "known_grows r r'" using known_grows_trans IH(4) by blast
        moreover have "knows_range r' (unat off) (unat len)" if "\<not> picotm_error_is_set e'"
          using knows_range_join [OF knows_range_grows [OF IH(4) knows_page_share [OF page(6) [OF ok2], of len]], of "unat (len - diff)"]
            IH(5) [OF that] off' len' le by simp
        moreover have "\<not> picotm_error_is_set e'" if "never_fails f" "knows_range r (unat off) (unat len)"
        proof -
          have "knows_range r (unat (off + diff)) (unat (len - diff))"
            by (rule knows_range_part [OF that(2)]) (use off' len' le in simp_all)
          then show ?thesis using IH(6) [OF that(1)] knows_range_grows [OF grows] by blast
        qed
        ultimately show ?thesis using go IH(1,2) by auto
      qed
    qed
  qed
qed

end
