(* ===== verification/Fildes_Region_Correct.thy ===== *)
theory Fildes_Region_Correct
  imports Fildes_Region_Spec
begin

text \<open>
  The properties of region locks (\<open>modules/libc/src/fildes/seekbuf.c\<close>, \<open>rwcountermap.c\<close>, \<open>rwcounter.c\<close>): the
  counters of a transaction agree with the bytes of the locks, locking and unlocking a range is a round trip,
  and which bytes of a range its records cover.
\<close>

subsection \<open>Counters as numbers\<close>

definition counter_is :: "u64 \<Rightarrow> bool \<Rightarrow> nat \<Rightarrow> bool" where
  "counter_is c w n \<longleftrightarrow> n < 2 ^ 27 \<and> c = (if w then RWCOUNTER_WRITTEN else 0) OR of_nat n"

lemma RWCOUNTER_BITS_mask: "RWCOUNTER_BITS = mask 27"
  by (simp add: RWCOUNTER_BITS_def mask_eq_exp_minus_1)

lemma RWCOUNTER_WRITTEN_bit: "bit RWCOUNTER_WRITTEN j \<longleftrightarrow> j = 27"
proof -
  have "RWCOUNTER_WRITTEN = push_bit 27 1" by (simp add: RWCOUNTER_WRITTEN_def push_bit_eq_mult)
  then have "bit RWCOUNTER_WRITTEN j \<longleftrightarrow> bit (push_bit 27 (1 :: u64)) j" by (rule arg_cong)
  also have "\<dots> \<longleftrightarrow> j = 27" unfolding bit_push_bit_iff bit_1_iff by auto
  finally show ?thesis .
qed

lemma of_nat_small: "n < 2 ^ 27 \<Longrightarrow> take_bit 27 (of_nat n :: u64) = of_nat n"
  by (simp add: take_bit_of_nat take_bit_nat_eq_self)

lemma counter_parts:
  assumes "counter_is c w n"
  shows "c AND RWCOUNTER_BITS = of_nat n" and "c AND RWCOUNTER_WRITTEN = (if w then RWCOUNTER_WRITTEN else 0)"
    and "c AND RWCOUNTER_BITS = 0 \<longleftrightarrow> n = 0" and "c AND RWCOUNTER_WRITTEN = 0 \<longleftrightarrow> \<not> w"
    and "c = 0 \<longleftrightarrow> \<not> w \<and> n = 0"
proof -
  define x :: u64 where "x = of_nat n"
  have n: "n < 2 ^ 27" and c: "c = (if w then RWCOUNTER_WRITTEN else 0) OR take_bit 27 x"
    using assms of_nat_small [of n] by (auto simp: counter_is_def x_def)
  have nx: "of_nat n = take_bit 27 x" using of_nat_small [OF n] by (simp add: x_def)
  show bits: "c AND RWCOUNTER_BITS = of_nat n"
    unfolding nx c RWCOUNTER_BITS_mask
    by (rule bit_word_eqI) (auto simp: bit_simps RWCOUNTER_WRITTEN_bit)
  show written: "c AND RWCOUNTER_WRITTEN = (if w then RWCOUNTER_WRITTEN else 0)"
    unfolding c by (rule bit_word_eqI) (auto simp: bit_simps RWCOUNTER_WRITTEN_bit)
  have nat: "unat (of_nat n :: u64) = n" using n by (simp add: unat_of_nat take_bit_nat_eq_self)
  then have zero: "(of_nat n :: u64) = 0 \<longleftrightarrow> n = 0" by (metis unat_eq_0)
  then show z1: "c AND RWCOUNTER_BITS = 0 \<longleftrightarrow> n = 0" unfolding bits .
  show z2: "c AND RWCOUNTER_WRITTEN = 0 \<longleftrightarrow> \<not> w"
    unfolding written by (simp add: RWCOUNTER_WRITTEN_def)
  show "c = 0 \<longleftrightarrow> \<not> w \<and> n = 0"
  proof
    assume "c = 0"
    then show "\<not> w \<and> n = 0" using z1 z2 by simp
  next
    assume "\<not> w \<and> n = 0"
    then show "c = 0" using assms by (simp add: counter_is_def)
  qed
qed

lemma counter_is_eq: "counter_is c w n \<Longrightarrow> c = (if w then RWCOUNTER_WRITTEN else 0) OR of_nat n"
  by (simp add: counter_is_def)

lemma counter_up:
  assumes "counter_is c w n" and "Suc n < 2 ^ 27"
  shows "counter_is ((c AND RWCOUNTER_WRITTEN) OR ((c AND RWCOUNTER_BITS) + 1)) w (Suc n)"
    and "counter_is (RWCOUNTER_WRITTEN OR ((c AND RWCOUNTER_BITS) + 1)) True (Suc n)"
  unfolding counter_parts(1,2) [OF assms(1)] using assms(2) by (simp_all add: counter_is_def add.commute)

lemma counter_down:
  assumes "counter_is c w (Suc n)"
  shows "counter_is ((c AND RWCOUNTER_WRITTEN) OR ((c AND RWCOUNTER_BITS) - 1)) w n"
  unfolding counter_parts(1,2) [OF assms] using assms by (simp add: counter_is_def)

subsection \<open>Counters and locks agree\<close>

text \<open>A record: the transaction holds its lock for writing, or for reading, or not at all.\<close>

definition record_ok :: "u64 \<times> u8 \<Rightarrow> bool" where
  "record_ok v \<longleftrightarrow> (\<exists>w n. counter_is (fst v) w n \<and> (n = 0 \<longrightarrow> \<not> w) \<and>
     (0 < n \<longrightarrow> (if w then unat (snd v) mod 16 = 15 else 0 < unat (snd v) mod 16 \<and> unat (snd v) mod 16 < 15)))"

definition record_room :: "u64 \<times> u8 \<Rightarrow> bool" where
  "record_room v \<longleftrightarrow> unat (fst v AND RWCOUNTER_BITS) < 2 ^ 27 - 1"



lemma record_room_less: "record_room v \<Longrightarrow> counter_is (fst v) w n \<Longrightarrow> Suc n < 2 ^ 27"
proof -
  assume "record_room v" and c: "counter_is (fst v) w n"
  then have "unat (of_nat n :: u64) < 2 ^ 27 - 1" by (simp add: record_room_def counter_parts [OF c])
  moreover have "unat (of_nat n :: u64) = n"
    using c by (simp add: counter_is_def unat_of_nat take_bit_nat_eq_self)
  ultimately show "Suc n < 2 ^ 27" by simp
qed

text \<open>What a free lock answers.\<close>

lemma try_rdlock_free: "unat mem < 14 \<Longrightarrow> picotm_rwlock_try_rdlock wait sleep a mem e = Some (mem + 1, e)"
  unfolding picotm_rwlock_try_rdlock_def try_lock_or_wait_eq [OF try_lock_eq(1)] by simp

lemma try_wrlock_free: "picotm_rwlock_try_wrlock wait sleep a 0 False e = Some (15, e)"
  unfolding picotm_rwlock_try_wrlock_def if_False try_lock_or_wait_eq [OF try_lock_eq(2)] by simp



lemma lock_calls_total:
  "total_call (rwcounter_rdlock waits sleeps)" "total_call (rwcounter_wrlock waits sleeps)"
  "total_call rwcounter_unlock" "never_fails rwcounter_unlock"
proof -
  show "total_call (rwcounter_rdlock waits sleeps)"
    unfolding total_call_def
  proof (intro allI)
    fix a c l e
    obtain m e' where "picotm_rwlock_try_rdlock (waits a) (sleeps a) a l e = Some (m, e')"
      using rwlock_try_total(1) by blast
    then show "\<exists>c' l' e'. rwcounter_rdlock waits sleeps a c l e = Some (c', l', e')"
      by (auto simp: rwcounter_rdlock_def Let_def)
  qed
  show "total_call (rwcounter_wrlock waits sleeps)"
    unfolding total_call_def
  proof (intro allI)
    fix a c l e
    obtain m e' where "picotm_rwlock_try_wrlock (waits a) (sleeps a) a l (c AND RWCOUNTER_BITS \<noteq> 0) e = Some (m, e')"
      using rwlock_try_total(2) by blast
    then show "\<exists>c' l' e'. rwcounter_wrlock waits sleeps a c l e = Some (c', l', e')"
      by (auto simp: rwcounter_wrlock_def Let_def)
  qed
  show "total_call rwcounter_unlock" by (auto simp: total_call_def rwcounter_unlock_def Let_def)
  show "never_fails rwcounter_unlock" by (auto simp: never_fails_def rwcounter_unlock_def Let_def split: if_splits)
qed

lemma record_okI:
  "counter_is (fst v) w n \<Longrightarrow> (n = 0 \<longrightarrow> \<not> w) \<Longrightarrow>
   (0 < n \<longrightarrow> (if w then unat (snd v) mod 16 = 15 else 0 < unat (snd v) mod 16 \<and> unat (snd v) mod 16 < 15)) \<Longrightarrow>
   record_ok v"
  unfolding record_ok_def by blast



lemma unlock_record:
  assumes "record_ok v" and "fst v AND RWCOUNTER_BITS \<noteq> 0"
    and f: "rwcounter_unlock a (fst v) (snd v) e = Some (fst v', snd v', e')"
  shows "record_ok v'"
proof -
  obtain w n where c: "counter_is (fst v) w n"
    and l: "0 < n \<longrightarrow> (if w then unat (snd v) mod 16 = 15 else 0 < unat (snd v) mod 16 \<and> unat (snd v) mod 16 < 15)"
    using assms(1) unfolding record_ok_def by blast
  obtain k where k: "n = Suc k" using assms(2) counter_parts(3) [OF c] by (cases n) auto
  note down = counter_down [OF c [unfolded k]]
  show ?thesis
  proof (cases "k = 0")
    case True
    with f counter_parts(3) [OF down] have "fst v' = 0" by (simp add: rwcounter_unlock_def Let_def)
    then show ?thesis by (intro record_okI [of v' False 0]) (simp_all add: counter_is_def)
  next
    case False
    with f counter_parts(3) [OF down] have "fst v' = (fst v AND RWCOUNTER_WRITTEN) OR ((fst v AND RWCOUNTER_BITS) - 1)"
      "snd v' = snd v" by (simp_all add: rwcounter_unlock_def Let_def)
    with down l k False show ?thesis by (intro record_okI [of v' w k]) simp_all
  qed
qed

subsection \<open>Locking and unlocking one record\<close>

lemma counter_unique: "counter_is c w n \<Longrightarrow> counter_is c' w n \<Longrightarrow> c = c'"
  by (simp add: counter_is_def)

lemma counter_zero: "counter_is c False 0 \<longleftrightarrow> c = 0"
  by (simp add: counter_is_def)

lemma unlock_count:
  assumes "counter_is (fst v) w (Suc n)" and "rwcounter_unlock a (fst v) (snd v) e = Some (fst v', snd v', e')"
  shows "0 < n \<Longrightarrow> counter_is (fst v') w n \<and> snd v' = snd v"
    and "n = 0 \<Longrightarrow> fst v' = 0 \<and> snd v' = unlock_sub (snd v) (snd v)"
  using counter_down [OF assms(1)] counter_parts(3) [OF counter_down [OF assms(1)]] assms(2)
  by (simp_all add: rwcounter_unlock_def Let_def picotm_rwlock_unlock_def)

definition may_read :: "u64 \<times> u8 \<Rightarrow> bool" where
  "may_read v \<longleftrightarrow> unat (snd v) < 14 \<or> fst v AND RWCOUNTER_BITS \<noteq> 0"

definition may_write :: "u64 \<times> u8 \<Rightarrow> bool" where
  "may_write v \<longleftrightarrow> v = (0, 0) \<or> fst v AND RWCOUNTER_WRITTEN \<noteq> 0"

lemma rdlock_unlock_record:
  assumes "record_ok v" and "record_room v" and "may_read v"
    and "called (rwcounter_rdlock waits sleeps) v v1" and "called rwcounter_unlock v1 v2"
  shows "v2 = v"
proof -
  obtain a e e' where f: "rwcounter_rdlock waits sleeps a (fst v) (snd v) e = Some (fst v1, snd v1, e')"
      "\<not> picotm_error_is_set e'" using assms(4) unfolding called_def by blast
  obtain b e2 e3 where g: "rwcounter_unlock b (fst v1) (snd v1) e2 = Some (fst v2, snd v2, e3)"
    using assms(5) unfolding called_def by blast
  obtain w n where c: "counter_is (fst v) w n" "n = 0 \<longrightarrow> \<not> w"
    using assms(1) unfolding record_ok_def by blast
  note up = counter_up(1) [OF c(1) record_room_less [OF assms(2) c(1)]]
  show ?thesis
  proof (cases "n = 0")
    case True
    then have "unat (snd v) < 14" using assms(3) counter_parts(3) [OF c(1)] by (simp add: may_read_def)
    moreover from this have v1: "fst v1 = (fst v AND RWCOUNTER_WRITTEN) OR ((fst v AND RWCOUNTER_BITS) + 1)" "snd v1 = snd v + 1"
      using f counter_parts(3) [OF c(1)] True
      by (auto simp: rwcounter_rdlock_def Let_def try_rdlock_free split: if_splits)
    ultimately have "unlock_sub (snd v1) (snd v1) = snd v"
      using unat_plus_1 [of "snd v"] by (simp add: unlock_sub_def WRITER_COUNTER_15 rw_counter_eq)
    with unlock_count(2) [OF up [folded v1(1)] g True] have "v2 = (0, snd v)" by (simp add: prod_eq_iff)
    moreover have "fst v = 0" using counter_parts(5) [OF c(1)] c(2) True by simp
    ultimately show ?thesis by (simp add: prod_eq_iff)
  next
    case False
    with f counter_parts(3) [OF c(1)] have v1: "fst v1 = (fst v AND RWCOUNTER_WRITTEN) OR ((fst v AND RWCOUNTER_BITS) + 1)"
        "snd v1 = snd v"
      by (simp_all add: rwcounter_rdlock_def Let_def)
    with unlock_count(1) [OF up [folded v1(1)] g] False counter_unique [OF _ c(1)] show ?thesis
      by (simp add: prod_eq_iff)
  qed
qed

lemma wrlock_unlock_record:
  assumes "record_ok v" and "record_room v" and "may_write v"
    and "called (rwcounter_wrlock waits sleeps) v v1" and "called rwcounter_unlock v1 v2"
  shows "v2 = v"
proof -
  obtain a e e' where f: "rwcounter_wrlock waits sleeps a (fst v) (snd v) e = Some (fst v1, snd v1, e')"
      "\<not> picotm_error_is_set e'" using assms(4) unfolding called_def by blast
  obtain b e2 e3 where g: "rwcounter_unlock b (fst v1) (snd v1) e2 = Some (fst v2, snd v2, e3)"
    using assms(5) unfolding called_def by blast
  obtain w n where c: "counter_is (fst v) w n" "n = 0 \<longrightarrow> \<not> w"
    using assms(1) unfolding record_ok_def by blast
  note up = counter_up(2) [OF c(1) record_room_less [OF assms(2) c(1)]]
  show ?thesis
  proof (cases w)
    case True
    with f counter_parts(4) [OF c(1)] have v1: "fst v1 = RWCOUNTER_WRITTEN OR ((fst v AND RWCOUNTER_BITS) + 1)"
        "snd v1 = snd v"
      by (simp_all add: rwcounter_wrlock_def Let_def)
    moreover have "0 < n" using True c(2) by auto
    ultimately show ?thesis
      using unlock_count(1) [OF up [folded v1(1)] g] True counter_unique [OF _ c(1)] by (simp add: prod_eq_iff)
  next
    case False
    then have v: "v = (0, 0)" using assms(3) counter_parts(4) [OF c(1)] by (simp add: may_write_def)
    then have n: "n = 0" using counter_parts(5) [OF c(1)] by simp
    have v1: "fst v1 = RWCOUNTER_WRITTEN OR ((fst v AND RWCOUNTER_BITS) + 1)" "snd v1 = 15"
      using f v by (auto simp: rwcounter_wrlock_def Let_def try_wrlock_free split: if_splits)
    have "unlock_sub (snd v1) (snd v1) = 0"
      unfolding v1(2) by (simp add: unlock_sub_def WRITER_COUNTER_15 rw_counter_eq)
    with unlock_count(2) [OF up [folded v1(1)] g n] v show ?thesis by (simp add: prod_eq_iff)
  qed
qed

subsection \<open>Ranges of records\<close>

lemma unat_recoffset: "unat (recoffset off) = unat off div 32"
  by (simp add: recoffset_def RECSIZE_def RECBITS_def unat_div push_bit_eq_mult)

lemma unat_reccount: "unat (reccount n) = 1 + unat n div 32"
proof -
  have "unat n < 2 ^ 64" using unsigned_less [of n] by simp
  then have "unat n div 32 < 2 ^ 59" by simp
  moreover have "unat (n div RECSIZE) = unat n div 32" by (simp add: RECSIZE_def RECBITS_def unat_div push_bit_eq_mult)
  ultimately show ?thesis unfolding reccount_def by (subst unat_add_lem [THEN iffD1]) simp_all
qed

lemma region_range: "unat (reccount n) < 2 ^ 63" "unat (recoffset off) + unat (reccount n) < 2 ^ 64"
proof -
  have "unat n < 2 ^ 64" "unat off < 2 ^ 64" using unsigned_less [of n] unsigned_less [of off] by simp_all
  then show "unat (reccount n) < 2 ^ 63" "unat (recoffset off) + unat (reccount n) < 2 ^ 64"
    unfolding unat_recoffset unat_reccount by simp_all
qed

text \<open>The records that a lock of \<open>n\<close> bytes at offset \<open>off\<close> covers.\<close>

definition region_records :: "u64 \<Rightarrow> u64 \<Rightarrow> nat set" where
  "region_records off n = {unat (recoffset off)..<unat (recoffset off) + unat (reccount n)}"

lemma runs_overD:
  assumes "runs_over f V V' off len e" and "\<not> picotm_error_is_set e"
  shows "unat i \<in> {off..<off + len} \<Longrightarrow> called f (V i) (V' i)" and "unat i \<notin> {off..<off + len} \<Longrightarrow> V' i = V i"
  using assms unfolding runs_over_def by (meson atLeastLessThan_iff)+


lemma unlock_runs:
  assumes "regions_ok malloc r" and "knows_range r (unat (recoffset off)) (unat (reccount n))"
  obtains r' where "seekbuf_unlock_region malloc recover off n r = Some r'" and "regions_ok malloc r'"
    and "runs_over rwcounter_unlock (region_view r) (region_view r') (unat (recoffset off)) (unat (reccount n)) PICOTM_ERROR_INITIALIZER"
proof -
  obtain r' e' where go: "rwcountermap_for_each_record_in_range malloc rwcounter_unlock (reccount n) (recoffset off) r
        PICOTM_ERROR_INITIALIZER = Some (r', e')" "regions_ok malloc r'"
      "runs_over rwcounter_unlock (region_view r) (region_view r') (unat (recoffset off)) (unat (reccount n)) e'"
      "\<not> picotm_error_is_set e'"
    using for_each_record_runs [OF lock_calls_total(3) assms(1) error_initializer_not_set region_range]
      lock_calls_total(4) assms(2) by blast
  have "seekbuf_unlock_region malloc recover off n r = Some r'"
    using go(1,4) by (simp add: seekbuf_unlock_region_def rwcountermap_unlock.simps)
  moreover have "runs_over rwcounter_unlock (region_view r) (region_view r') (unat (recoffset off)) (unat (reccount n)) PICOTM_ERROR_INITIALIZER"
    using go(3,4) by (simp add: runs_over_def)
  ultimately show thesis using that go(2) by blast
qed

subsection \<open>New maps\<close>

definition new_regions :: "'a heap_env \<Rightarrow> 'a regions" where
  "new_regions env = \<lparr>rg_counters = rwcountermap_init, rg_locks = rwlockmap_init,
     rg_heap = \<lparr>ph_pages = Map.empty, ph_env = env\<rparr>\<rparr>"

lemma tree_depth_pages: "tree_depth 55 9 = 7"
  by (simp add: tree_depth.simps)

lemma new_maps: "shared_get rwlockmap_init k = 0" "treemap_get rwcountermap_init k = 0"
proof -
  have "path rwlockmap_init k (Suc m) = None" for m
    by (induction m) (simp_all add: rwlockmap_init_def picotm_shared_treemap_init_def load_entry_def)
  from this [of 6] show "shared_get rwlockmap_init k = 0"
    by (simp add: shared_get_def rwlockmap_init_def picotm_shared_treemap_init_def RWLOCKMAP_PAGE_NBITS_def
        tree_depth_pages del: path.simps)
  show "treemap_get rwcountermap_init k = 0"
    by (simp add: treemap_get_def tree_get_def rwcountermap_init_def picotm_treemap_init_def)
qed

lemma new_pages:
  "counters_of (new_regions env) k = the_counters rwcountermap_page_init"
  "locks_of (new_regions env) k = the_locks rwlockmap_page_init"
  by (simp_all add: counter_map.fildes_page_at_def lock_map.fildes_page_at_def new_regions_def new_maps)

lemma new_regions_ok:
  assumes "malloc_ok malloc" shows "regions_ok malloc (new_regions env)"
proof -
  have inv: "find_inv (\<lambda>_. 0) (find_init 55 9)" by (rule find_init_inv) simp
  have tree: "tree_ok (\<lambda>_. 0) rwlockmap_init" and "values_ok (\<lambda>_. 0) rwlockmap_init (fc_thread (find_init 55 9)) {} []"
    using find_invD(1,4) [OF inv] by (simp_all add: find_init_def rwlockmap_init_def RWLOCKMAP_PAGE_NBITS_def)
  then have "cell_values (\<lambda>_. 0) rwlockmap_init = {}" using values_okD(3) by blast
  moreover have "sht_depth rwlockmap_init = 7" "sht_level_nbits rwlockmap_init = 9"
    by (simp_all add: rwlockmap_init_def picotm_shared_treemap_init_def RWLOCKMAP_PAGE_NBITS_def tree_depth_pages)
  ultimately have "lock_map_ok rwlockmap_init h" for h :: "'a page_heap"
    using tree unfolding lock_map_ok_def by blast
  moreover have "counter_map_ok rwcountermap_init h" for h :: "'a page_heap"
    by (simp add: counter_map_ok_def new_maps)
      (simp add: treemap_ok_def rwcountermap_init_def picotm_treemap_init_def RWLOCKMAP_PAGE_NBITS_def)
  moreover have "lockpg (counters_of (new_regions env) k) = 0" for k
    unfolding new_pages by (simp add: rwcountermap_page_init_def)
  ultimately show ?thesis using assms by (simp add: regions_ok_def) (simp add: new_regions_def)
qed

lemma new_regions_view: "region_view (new_regions env) i = (0, 0)"
  unfolding region_view_def new_pages using rec_slot_less [of i]
  by (simp add: rwcountermap_page_init_def rwlockmap_page_init_def page_entries rwcounter_init_def picotm_rwlock_init_def)

text \<open>An allocator that hands out one address after the other.\<close>

definition bump_malloc :: "u64 page_alloc" where
  "bump_malloc used a = (if used a \<or> a = 0 then (0, ENOMEM, a) else (a, 0, a + 1))"

lemma bump_malloc_ok: "malloc_ok bump_malloc"
  by (auto simp: malloc_ok_def bump_malloc_def ENOMEM_def)

definition bump_env :: "u64 heap_env" where
  "bump_env = \<lparr>he_alloc = 1, he_errno = 0, he_lowmem = False\<rparr>"

lemma region_locking_runs:
  assumes "regions_ok malloc r" and "\<not> picotm_error_is_set e"
  shows "(\<exists>r' e'. seekbuf_try_rdlock_region malloc waits sleeps off n r e = Some (r', e') \<and> regions_ok malloc r' \<and>
      runs_over (rwcounter_rdlock waits sleeps) (region_view r) (region_view r')
        (unat off div 32) (1 + unat n div 32) e' \<and>
      (\<not> picotm_error_is_set e' \<longrightarrow> knows_range r' (unat (recoffset off)) (unat (reccount n)))) \<and>
    (\<exists>r' e'. seekbuf_try_wrlock_region malloc waits sleeps off n r e = Some (r', e') \<and> regions_ok malloc r' \<and>
      runs_over (rwcounter_wrlock waits sleeps) (region_view r) (region_view r')
        (unat off div 32) (1 + unat n div 32) e' \<and>
      (\<not> picotm_error_is_set e' \<longrightarrow> knows_range r' (unat (recoffset off)) (unat (reccount n))))"
  unfolding seekbuf_try_rdlock_region_def seekbuf_try_wrlock_region_def rwcountermap_rdlock_def rwcountermap_wrlock_def
    unat_reccount [of n, symmetric] unat_recoffset [of off, symmetric]
  using for_each_record_runs [OF lock_calls_total(1) assms region_range]
    for_each_record_runs [OF lock_calls_total(2) assms region_range] by blast

lemma last_record_covered:
  assumes "0 < b"
  shows "(a + b - 1) div 32 < a div 32 + (1 + b div 32) \<longleftrightarrow> a mod 32 + b mod 32 \<le> (32 :: nat)"
proof -
  define q r p s where "q = a div 32" and "r = a mod 32" and "p = b div 32" and "s = b mod 32"
  have ab: "a = 32 * q + r" "b = 32 * p + s" by (simp_all add: q_def r_def p_def s_def)
  show ?thesis
  proof (cases "r + s = 0")
    case True
    then have "0 < p" using assms ab by simp
    then have "a + b - 1 = 31 + (q + p - 1) * 32" using ab True by simp
    then have "(a + b - 1) div 32 = q + p - 1" by simp
    with True \<open>0 < p\<close> show ?thesis by (simp add: q_def [symmetric] p_def [symmetric] r_def [symmetric] s_def [symmetric])
  next
    case False
    then obtain t where t: "r + s = Suc t" by (cases "r + s") auto
    then have "a + b = Suc (t + (q + p) * 32)" using ab by simp
    then have "a + b - 1 = (r + s - 1) + (q + p) * 32" using t by simp
    then have "(a + b - 1) div 32 = (q + p) + (r + s - 1) div 32" by (simp only: div_mult_self1)
    moreover have "(r + s - 1) div 32 = 0 \<longleftrightarrow> r + s \<le> 32" using False by auto
    ultimately show ?thesis by (auto simp: q_def [symmetric] p_def [symmetric] r_def [symmetric] s_def [symmetric])
  qed
qed

section \<open>Properties\<close>


definition no_wait :: "pointer \<Rightarrow> lock_wait" where "no_wait a mem error = (mem, error)"



lemma new_view_ok: "record_ok (region_view (new_regions env) i) \<and> record_room (region_view (new_regions env) i)"
  unfolding new_regions_view
  by (simp add: record_room_def record_okI [of "(0, 0)" False 0] counter_zero)



text \<open>
  C34: Locking a range and unlocking it again is a round trip: when every record of the range may be read
  (its lock has room for a reader, or the transaction holds it), and the range has been locked for reading,
  then unlocking the range succeeds and brings every counter and every lock byte of the file back to its
  value; likewise for writing, when every record is free or already held for writing.
\<close>
theorem region_lock_unlock:
  assumes "regions_ok malloc r" and "\<not> picotm_error_is_set e"
    and "\<And>i. record_ok (region_view r i) \<and> record_room (region_view r i)"
    and "seekbuf_try_rdlock_region malloc waits sleeps off n r e = Some (r1, e1) \<and>
          (\<forall>i. unat i \<in> region_records off n \<longrightarrow> may_read (region_view r i)) \<or>
         seekbuf_try_wrlock_region malloc waits sleeps off n r e = Some (r1, e1) \<and>
          (\<forall>i. unat i \<in> region_records off n \<longrightarrow> may_write (region_view r i))"
    and "\<not> picotm_error_is_set e1"
  shows "\<exists>r2. seekbuf_unlock_region malloc recover off n r1 = Some r2 \<and> regions_ok malloc r2 \<and>
    (\<forall>i. region_view r2 i = region_view r i)"
proof -
  let ?f = "\<lambda>wr. if wr then rwcounter_wrlock waits sleeps else rwcounter_rdlock waits sleeps"
  obtain wr where wr: "if wr
      then seekbuf_try_wrlock_region malloc waits sleeps off n r e = Some (r1, e1) \<and>
        (\<forall>i. unat i \<in> region_records off n \<longrightarrow> may_write (region_view r i))
      else seekbuf_try_rdlock_region malloc waits sleeps off n r e = Some (r1, e1) \<and>
        (\<forall>i. unat i \<in> region_records off n \<longrightarrow> may_read (region_view r i))"
    using assms(4) by (metis (full_types))
  have r1: "regions_ok malloc r1" "knows_range r1 (unat (recoffset off)) (unat (reccount n))"
      "runs_over (?f wr) (region_view r) (region_view r1) (unat off div 32) (1 + unat n div 32) e1"
    using region_locking_runs [OF assms(1,2), of waits sleeps off n] wr assms(5) by (cases wr; simp)+
  obtain r2 where r2: "seekbuf_unlock_region malloc recover off n r1 = Some r2" "regions_ok malloc r2"
      "runs_over rwcounter_unlock (region_view r1) (region_view r2) (unat off div 32) (1 + unat n div 32) PICOTM_ERROR_INITIALIZER"
    by (rule unlock_runs [OF r1(1,2), of recover]) (simp add: unat_recoffset unat_reccount that)
  have "region_view r2 i = region_view r i" for i
  proof (cases "unat i \<in> region_records off n")
    case True
    then have i: "unat i \<in> {unat off div 32..<unat off div 32 + (1 + unat n div 32)}"
      by (simp add: region_records_def unat_recoffset unat_reccount)
    from runs_overD(1) [OF r1(3) assms(5) i] runs_overD(1) [OF r2(3) error_initializer_not_set i]
    have "called (?f wr) (region_view r i) (region_view r1 i)" "called rwcounter_unlock (region_view r1 i) (region_view r2 i)" .
    then show ?thesis
      using wr True assms(3) [of i] by (cases wr) (auto intro: rdlock_unlock_record wrlock_unlock_record)
  next
    case False
    then have i: "unat i \<notin> {unat off div 32..<unat off div 32 + (1 + unat n div 32)}"
      by (simp add: region_records_def unat_recoffset unat_reccount)
    from runs_overD(2) [OF r1(3) assms(5) i] runs_overD(2) [OF r2(3) error_initializer_not_set i] show ?thesis by simp
  qed
  with r2 show ?thesis by blast
qed

lemma region_lock_unlock_witness:
  "\<exists>r1 r2. map_option fst (seekbuf_try_wrlock_region bump_malloc no_wait no_wait 100 40 (new_regions bump_env)
      PICOTM_ERROR_INITIALIZER) = Some r1 \<and>
    seekbuf_unlock_region bump_malloc (\<lambda>e r. None) 100 40 r1 = Some r2 \<and> region_view r2 4 = (0, 0)"
proof -
  let ?lock = "seekbuf_try_wrlock_region bump_malloc no_wait no_wait 100 40 (new_regions bump_env) PICOTM_ERROR_INITIALIZER"
  have "map_option (picotm_error_is_set \<circ> snd) ?lock = Some False" by code_simp
  then obtain r1 e1 where lock: "?lock = Some (r1, e1)" "\<not> picotm_error_is_set e1" by auto
  have "may_write (region_view (new_regions bump_env) i)" for i by (simp add: new_regions_view may_write_def)
  with lock(1) obtain r2 where r2: "seekbuf_unlock_region bump_malloc (\<lambda>e r. None) 100 40 r1 = Some r2"
      "\<forall>i. region_view r2 i = region_view (new_regions bump_env) i"
    using region_lock_unlock [OF new_regions_ok [OF bump_malloc_ok] error_initializer_not_set new_view_ok
      disjI2 lock(2), where recover = "\<lambda>e r. None"] by blast
  have "region_view r2 4 = (0, 0)" using r2(2) new_regions_view by simp
  with lock(1) r2(1) show ?thesis by simp
qed

text \<open>
  C35: The records that a lock of a range covers hold every byte of the range exactly when the offset and
  the length, both modulo the 32 bytes of a record, add up to at most 32: \<open>reccount\<close> counts the records
  from the length alone, so that a range that starts late in its first record leaves its last record
  unlocked.
\<close>
theorem region_covers_iff:
  assumes "0 < unat n" and "range_ok off n"
  shows "(\<forall>j. unat off \<le> j \<and> j < unat off + unat n \<longrightarrow> j div 32 \<in> region_records off n) \<longleftrightarrow>
    unat off mod 32 + unat n mod 32 \<le> 32"
proof -
  define a b where "a = unat off" and "b = unat n"
  have "(\<forall>j. a \<le> j \<and> j < a + b \<longrightarrow> a div 32 \<le> j div 32 \<and> j div 32 < a div 32 + (1 + b div 32)) \<longleftrightarrow>
      (a + b - 1) div 32 < a div 32 + (1 + b div 32)"
  proof
    assume "\<forall>j. a \<le> j \<and> j < a + b \<longrightarrow> a div 32 \<le> j div 32 \<and> j div 32 < a div 32 + (1 + b div 32)"
    then show "(a + b - 1) div 32 < a div 32 + (1 + b div 32)"
      using assms(1) by (simp add: b_def)
  next
    assume last: "(a + b - 1) div 32 < a div 32 + (1 + b div 32)"
    show "\<forall>j. a \<le> j \<and> j < a + b \<longrightarrow> a div 32 \<le> j div 32 \<and> j div 32 < a div 32 + (1 + b div 32)"
    proof (intro allI impI)
      fix j assume j: "a \<le> j \<and> j < a + b"
      then have "a \<le> j" "j \<le> a + b - 1" by linarith+
      note this [THEN div_le_mono, of 32]
      with last show "a div 32 \<le> j div 32 \<and> j div 32 < a div 32 + (1 + b div 32)" by linarith
    qed
  qed
  also have "\<dots> \<longleftrightarrow> a mod 32 + b mod 32 \<le> 32"
    by (rule last_record_covered) (use assms(1) in \<open>simp add: b_def\<close>)
  finally show ?thesis
    by (simp add: region_records_def unat_recoffset unat_reccount a_def b_def)
qed

lemma region_covers_iff_witness:
  "\<not> (\<forall>j. 31 \<le> j \<and> j < 33 \<longrightarrow> j div 32 \<in> region_records 31 2)"
  using region_covers_iff [of 2 31] by (simp add: range_ok_def)

text \<open>
  Two transactions can hold write locks for ranges that share a byte: the first locks bytes 31 and 32, the
  second, with counters of its own, bytes 32 and 33.
\<close>

lemma overlapping_writers:
  "(case seekbuf_try_wrlock_region bump_malloc no_wait no_wait 31 2 (new_regions bump_env) PICOTM_ERROR_INITIALIZER of
      None \<Rightarrow> None
    | Some (r, e) \<Rightarrow>
        map_option (\<lambda>(r2, e2). (picotm_error_is_set e, picotm_error_is_set e2))
          (seekbuf_try_wrlock_region bump_malloc no_wait no_wait 32 2
            (r\<lparr>rg_counters := rwcountermap_init\<rparr>) PICOTM_ERROR_INITIALIZER)) = Some (False, False)"
  by code_simp

end
