(* ===== verification/Fildes_Os.thy ===== *)
theory Fildes_Os
  imports Fildes_Regions "HOL-Library.Monad_Syntax"
begin

text \<open>
  Regular files and the operating system: the calls that the libc module makes for a regular file are
  parameters of the model, and this theory holds the loops around them
  (\<open>modules/libc/src/compat/temp_failure_retry.h\<close>, \<open>do_pread\<close>, \<open>do_pwrite\<close> and \<open>do_pwrite_and_lseek\<close> of
  \<open>modules/libc/src/fildes/regfile_tx.c\<close>), with what is assumed of the calls and what the loops then do.
\<close>

type_synonym u32 = "32 word"

subsection \<open>The environment of a file\<close>

record stat =
  st_mode :: u32
  st_size :: u64

text \<open>The union of arguments of \<open>fcntl\<close>; the bytes of a \<open>struct flock\<close> are not looked into.\<close>

datatype fcntl_arg = Fcntl_arg0 u32 | Fcntl_arg1 "u8 list"

text \<open>The elements of the tables that a transaction on a file keeps (\<open>region.h\<close>, \<open>seekop.h\<close>, \<open>fchmodop.h\<close>,
  \<open>fildes_event.h\<close>).\<close>

record region =
  rgn_nbyte :: u64
  rgn_offset :: u64

record seekop =
  sk_from :: u64
  sk_offset :: u64
  sk_whence :: u32

record fchmodop =
  fc_mode :: u32
  fc_old_mode :: u32

record fildes_event =
  fe_fildes :: u32
  fe_cookie :: u32

text \<open>
  The state around a transaction on a file: the operating system, the locks of the file's regions and
  fields with their pages, in the pages' heap the state of memory allocation and \<open>errno\<close>, and the flag of
  \<open>table.c\<close> that says that memory is low.
\<close>

record ('o, 'a) file_world =
  fw_os :: 'o
  fw_regions :: "'a regions"
  fw_lowmem :: bool
  fw_seekbuf_rwlock :: "u8 list"
  fw_regfile_rwlock :: "u8 list"

definition world_env :: "('o, 'a) file_world \<Rightarrow> 'a heap_env" where
  "world_env w = (ph_env (rg_heap (fw_regions w)))\<lparr>he_lowmem := fw_lowmem w\<rparr>"

definition put_env :: "'a heap_env \<Rightarrow> ('o, 'a) file_world \<Rightarrow> ('o, 'a) file_world" where
  "put_env env w =
     w\<lparr>fw_regions := (fw_regions w)\<lparr>rg_heap := (rg_heap (fw_regions w))\<lparr>ph_env := env\<rparr>\<rparr>,
       fw_lowmem := he_lowmem env\<rparr>"

definition errno_of :: "('o, 'a) file_world \<Rightarrow> int" where
  "errno_of w = he_errno (world_env w)"

text \<open>A call of the operating system returns its result, its data, the \<open>errno\<close> of a failure and the new state.\<close>

type_synonym ('o, 'l, 'r) os_call = "'o \<Rightarrow> 'l word \<times> 'r \<times> int \<times> 'o"

text \<open>What is not under the control of the code: the C library, waiting for locks, the kernel, addresses.\<close>

record ('o, 'a) file_sys =
  sys_malloc :: "'a page_alloc"
  sys_realloc_bytes :: "(u8 list, 'a) allocator"
  sys_realloc_ioops :: "(ioop list, 'a) allocator"
  sys_realloc_regions :: "(region list, 'a) allocator"
  sys_realloc_seekops :: "(seekop list, 'a) allocator"
  sys_realloc_fchmodops :: "(fchmodop list, 'a) allocator"
  sys_realloc_fildes_events :: "(fildes_event list, 'a) allocator"
  sys_realloc_events :: "(picotm_event list, 'a) allocator"
  sys_waits :: "pointer \<Rightarrow> lock_wait"
  sys_sleeps :: "pointer \<Rightarrow> lock_wait"
  sys_recover :: "picotm_error \<Rightarrow> 'a regions \<Rightarrow> 'a regions option"
  sys_seekbuf_rwlock :: pointer
  sys_regfile_rwlock :: pointer
  sys_pread :: "u32 \<Rightarrow> u64 \<Rightarrow> u64 \<Rightarrow> ('o, 64, u8 list) os_call"
  sys_pwrite :: "u32 \<Rightarrow> u8 list \<Rightarrow> u64 \<Rightarrow> ('o, 64, unit) os_call"
  sys_lseek :: "u32 \<Rightarrow> u64 \<Rightarrow> u32 \<Rightarrow> ('o, 64, unit) os_call"
  sys_fstat :: "u32 \<Rightarrow> ('o, 32, stat) os_call"
  sys_fsync :: "u32 \<Rightarrow> ('o, 32, unit) os_call"
  sys_fchmod :: "u32 \<Rightarrow> u32 \<Rightarrow> ('o, 32, unit) os_call"
  sys_fcntl :: "u32 \<Rightarrow> u32 \<Rightarrow> fcntl_arg \<Rightarrow> ('o, 32, fcntl_arg) os_call"

definition os_do :: "('o, 'l::len, 'r) os_call \<Rightarrow> ('o, 'a) file_world \<Rightarrow> 'l word \<times> 'r \<times> ('o, 'a) file_world" where
  "os_do call w =
     (case call (fw_os w) of (res, r, en, os) \<Rightarrow>
        (res, r, (if res <s 0 then put_env ((world_env w)\<lparr>he_errno := en\<rparr>) w else w)\<lparr>fw_os := os\<rparr>))"

definition EINTR :: int where "EINTR = 4"
definition EAGAIN :: int where "EAGAIN = 11"
definition EWOULDBLOCK :: int where "EWOULDBLOCK = 11"
definition EINVAL :: int where "EINVAL = 22"
definition EOVERFLOW :: int where "EOVERFLOW = 75"

definition SEEK_SET :: u32 where "SEEK_SET = 0"
definition SEEK_CUR :: u32 where "SEEK_CUR = 1"
definition SEEK_END :: u32 where "SEEK_END = 2"

subsection \<open>The loops around the calls\<close>

text \<open>An interrupted call is repeated, for as long as it is interrupted.\<close>

partial_function (option) temp_failure_retry ::
  "(('o, 'a) file_world \<Rightarrow> 'l::len word \<times> 'r \<times> ('o, 'a) file_world) \<Rightarrow> ('o, 'a) file_world \<Rightarrow>
   ('l word \<times> 'r \<times> ('o, 'a) file_world) option"
where
  "temp_failure_retry expr w =
     (let (res, r, w) = expr w
      in if res <s 0 \<and> errno_of w = EINTR then temp_failure_retry expr w else Some (res, r, w))"

definition errno_signals_blocking_io :: "int \<Rightarrow> bool" where
  "errno_signals_blocking_io errno_code \<longleftrightarrow> errno_code = EAGAIN \<or> errno_code = EWOULDBLOCK"

text \<open>
  The loop reads \<open>nbyte\<close> bytes in pieces; \<open>pos\<close> counts the bytes read so far.  It ends at the end of the file and
  at an error, which counts only if nothing has been read.
\<close>

partial_function (option) do_pread_loop ::
  "('o, 'a) file_sys \<Rightarrow> u32 \<Rightarrow> u64 \<Rightarrow> u64 \<Rightarrow> u64 \<Rightarrow> u8 list \<Rightarrow> ('o, 'a) file_world \<Rightarrow> picotm_error \<Rightarrow>
   (u64 \<times> u8 list \<times> ('o, 'a) file_world \<times> picotm_error) option"
where
  "do_pread_loop sys fildes pos nbyte off buf w error =
     (if pos < nbyte then
        do {
          (res, bytes, w) \<leftarrow> temp_failure_retry (os_do (sys_pread sys fildes (nbyte - pos) off)) w;
          if res <s 0 then
            Some (if pos \<noteq> 0 then (pos, buf, w, error)
                  else if errno_signals_blocking_io (errno_of w) then (- 1, buf, w, error)
                  else (res, buf, w, picotm_error_set_errno error (errno_of w)))
          else if res = 0 then Some (pos, buf, w, error)
          else do_pread_loop sys fildes (pos + res) nbyte (off + res) (memcpy_at (unat pos) bytes buf) w error
        }
      else Some (pos, buf, w, error))"

definition do_pread ::
  "('o, 'a) file_sys \<Rightarrow> u32 \<Rightarrow> u8 list \<Rightarrow> u64 \<Rightarrow> u64 \<Rightarrow> ('o, 'a) file_world \<Rightarrow> picotm_error \<Rightarrow>
   (u64 \<times> u8 list \<times> ('o, 'a) file_world \<times> picotm_error) option"
where
  "do_pread sys fildes buf nbyte offset w error = do_pread_loop sys fildes 0 nbyte offset buf w error"

partial_function (option) do_pwrite_loop ::
  "('o, 'a) file_sys \<Rightarrow> u32 \<Rightarrow> u64 \<Rightarrow> u8 list \<Rightarrow> u64 \<Rightarrow> u64 \<Rightarrow> ('o, 'a) file_world \<Rightarrow> picotm_error \<Rightarrow>
   (u64 \<times> ('o, 'a) file_world \<times> picotm_error) option"
where
  "do_pwrite_loop sys fildes pos buf nbyte off w error =
     (if pos < nbyte then
        do {
          (res, _, w) \<leftarrow> temp_failure_retry
             (os_do (sys_pwrite sys fildes (take (unat (nbyte - pos)) (drop (unat pos) buf)) off)) w;
          if res <s 0 then
            Some (if pos \<noteq> 0 then (pos, w, error)
                  else if errno_signals_blocking_io (errno_of w) then (- 1, w, error)
                  else (res, w, picotm_error_set_errno error (errno_of w)))
          else do_pwrite_loop sys fildes (pos + res) buf nbyte (off + res) w error
        }
      else Some (pos, w, error))"

definition do_pwrite ::
  "('o, 'a) file_sys \<Rightarrow> u32 \<Rightarrow> u8 list \<Rightarrow> u64 \<Rightarrow> u64 \<Rightarrow> ('o, 'a) file_world \<Rightarrow> picotm_error \<Rightarrow>
   (u64 \<times> ('o, 'a) file_world \<times> picotm_error) option"
where
  "do_pwrite sys fildes buf nbyte offset w error = do_pwrite_loop sys fildes 0 buf nbyte offset w error"

definition do_pwrite_and_lseek ::
  "('o, 'a) file_sys \<Rightarrow> u32 \<Rightarrow> u8 list \<Rightarrow> u64 \<Rightarrow> u64 \<Rightarrow> ('o, 'a) file_world \<Rightarrow> picotm_error \<Rightarrow>
   (u64 \<times> ('o, 'a) file_world \<times> picotm_error) option"
where
  "do_pwrite_and_lseek sys fildes buf nbyte offset w error =
     do {
       (len, w, error) \<leftarrow> do_pwrite sys fildes buf nbyte offset w error;
       if picotm_error_is_set error then Some (len, w, error)
       else
         (let (res, _, w) = os_do (sys_lseek sys fildes (offset + len) SEEK_SET) w
          in if res = - 1 then Some (- 1, w, picotm_error_set_errno error (errno_of w))
             else Some (len, w, error))
     }"

end
