(* ===== verification/Fildes_Seekbuf_Tx.thy ===== *)
theory Fildes_Seekbuf_Tx
  imports Fildes_Os
begin

text \<open>
  A transaction's view of a seekable buffer (\<open>modules/libc/src/fildes/seekbuf_tx.c\<close>, the field locks of
  \<open>seekbuf.c\<close>, and the table of regions, \<open>regiontab.c\<close>): the writes and reads that it has buffered, the size of
  the file as it sees it, and the fields and regions that it has locked.
\<close>

subsection \<open>The table of regions\<close>

definition region_init :: "u64 \<Rightarrow> u64 \<Rightarrow> region" where
  "region_init nbyte offset = \<lparr>rgn_nbyte = nbyte, rgn_offset = offset\<rparr>"

definition sizeof_region :: u64 where "sizeof_region = 16"

definition regiontab_append ::
  "(region list, 'a) allocator \<Rightarrow> region list option \<Rightarrow> u64 \<Rightarrow> u64 \<Rightarrow> u64 \<Rightarrow> u64 \<Rightarrow> 'a heap_env \<Rightarrow> picotm_error \<Rightarrow>
   u64 \<times> region list option \<times> u64 \<times> u64 \<times> 'a heap_env \<times> picotm_error"
where
  "regiontab_append realloc tab nelems siz nbyte offset env error =
     (let put = (\<lambda>tab siz env error.
            (nelems, map_option (\<lambda>t. t[unat nelems := region_init nbyte offset]) tab, nelems + 1, siz, env, error))
      in if nelems \<ge> siz then
           (let (lowmem, a, errno, tmp, error) =
                  tabresize realloc (he_lowmem env) (he_alloc env) (he_errno env) tab siz (siz + 1) sizeof_region error;
                env = \<lparr>he_alloc = a, he_errno = errno, he_lowmem = lowmem\<rparr>
            in if picotm_error_is_set error then (- 1, tab, nelems, siz, env, error)
               else put tmp (siz + 1) env error)
         else put tab siz env error)"

subsection \<open>The state\<close>

datatype picotm_libc_write_mode = PICOTM_LIBC_WRITE_BACK | PICOTM_LIBC_WRITE_THROUGH

definition SEEKBUF_FIELD_FILE_SIZE :: nat where "SEEKBUF_FIELD_FILE_SIZE = 0"
definition SEEKBUF_FIELD_STATE :: nat where "SEEKBUF_FIELD_STATE = 1"
definition NUMBER_OF_SEEKBUF_FIELDS :: nat where "NUMBER_OF_SEEKBUF_FIELDS = 2"

text \<open>
  The counters of the region locks, the field \<open>rwcountermap\<close> of the structure, are the transaction's part of
  \<open>fw_regions\<close>.  The reference count and the link in the list of transactions' buffers are left out.
\<close>

record seekbuf_tx =
  sb_wrmode :: picotm_libc_write_mode
  sb_wrbuf :: "u8 list option"
  sb_wrbuflen :: u64
  sb_wrbufsiz :: u64
  sb_wrtab :: "ioop list option"
  sb_wrtablen :: u64
  sb_wrtabsiz :: u64
  sb_rdtab :: "ioop list option"
  sb_rdtablen :: u64
  sb_rdtabsiz :: u64
  sb_file_size :: u64
  sb_rwstate :: "picotm_rwstate list"
  sb_locktab :: "region list option"
  sb_locktablen :: u64
  sb_locktabsiz :: u64

fun init_rwstates :: "picotm_rwstate list \<Rightarrow> picotm_rwstate list" where
  "init_rwstates [] = []"
| "init_rwstates (rwstate # rwstates) = picotm_rwstate_init rwstate # init_rwstates rwstates"

definition seekbuf_tx_init :: "seekbuf_tx \<Rightarrow> seekbuf_tx" where
  "seekbuf_tx_init self = self\<lparr>sb_wrmode := PICOTM_LIBC_WRITE_BACK,
     sb_wrbuf := None, sb_wrbuflen := 0, sb_wrbufsiz := 0,
     sb_wrtab := None, sb_wrtablen := 0, sb_wrtabsiz := 0,
     sb_rdtab := None, sb_rdtablen := 0, sb_rdtabsiz := 0,
     sb_file_size := 0, sb_rwstate := init_rwstates (sb_rwstate self),
     sb_locktab := None, sb_locktablen := 0, sb_locktabsiz := 0\<rparr>"

text \<open>Preparing for a new transaction empties the tables and keeps their memory.\<close>

definition seekbuf_tx_prepare :: "seekbuf_tx \<Rightarrow> seekbuf_tx" where
  "seekbuf_tx_prepare self = self\<lparr>sb_wrmode := PICOTM_LIBC_WRITE_BACK, sb_file_size := 0,
     sb_rdtablen := 0, sb_wrtablen := 0, sb_wrbuflen := 0, sb_locktablen := 0\<rparr>"

subsection \<open>Locks of fields\<close>

text \<open>A result of the functions below: a value, the transaction's view, the state around it, the error.\<close>

type_synonym ('r, 't, 'o, 'a) file_result = "('r \<times> 't \<times> ('o, 'a) file_world \<times> picotm_error) option"

definition seekbuf_field_addr :: "('o, 'a) file_sys \<Rightarrow> nat \<Rightarrow> pointer" where
  "seekbuf_field_addr sys field = sys_seekbuf_rwlock sys + of_nat field"

definition seekbuf_try_rdlock_field ::
  "('o, 'a) file_sys \<Rightarrow> nat \<Rightarrow> picotm_rwstate \<Rightarrow> ('o, 'a) file_world \<Rightarrow> picotm_error \<Rightarrow>
   (picotm_rwstate \<times> ('o, 'a) file_world \<times> picotm_error) option"
where
  "seekbuf_try_rdlock_field sys field rwstate w error =
     (let rwlock = seekbuf_field_addr sys field in do {
        (rwstate, mem, error) \<leftarrow> picotm_rwstate_try_rdlock (sys_waits sys rwlock) (sys_sleeps sys rwlock) rwlock
           rwstate (fw_seekbuf_rwlock w ! field) error;
        Some (rwstate, w\<lparr>fw_seekbuf_rwlock := (fw_seekbuf_rwlock w)[field := mem]\<rparr>, error)
      })"

definition seekbuf_try_wrlock_field ::
  "('o, 'a) file_sys \<Rightarrow> nat \<Rightarrow> picotm_rwstate \<Rightarrow> ('o, 'a) file_world \<Rightarrow> picotm_error \<Rightarrow>
   (picotm_rwstate \<times> ('o, 'a) file_world \<times> picotm_error) option"
where
  "seekbuf_try_wrlock_field sys field rwstate w error =
     (let rwlock = seekbuf_field_addr sys field in do {
        (rwstate, mem, error) \<leftarrow> picotm_rwstate_try_wrlock (sys_waits sys rwlock) (sys_sleeps sys rwlock) rwlock
           rwstate (fw_seekbuf_rwlock w ! field) error;
        Some (rwstate, w\<lparr>fw_seekbuf_rwlock := (fw_seekbuf_rwlock w)[field := mem]\<rparr>, error)
      })"

definition seekbuf_unlock_field ::
  "nat \<Rightarrow> picotm_rwstate \<Rightarrow> ('o, 'a) file_world \<Rightarrow> picotm_rwstate \<times> ('o, 'a) file_world"
where
  "seekbuf_unlock_field field rwstate w =
     (case picotm_rwstate_unlock rwstate (fw_seekbuf_rwlock w ! field) of (_, rwstate, mem) \<Rightarrow>
        (rwstate, w\<lparr>fw_seekbuf_rwlock := (fw_seekbuf_rwlock w)[field := mem]\<rparr>))"

definition seekbuf_tx_try_rdlock_field ::
  "('o, 'a) file_sys \<Rightarrow> seekbuf_tx \<Rightarrow> nat \<Rightarrow> ('o, 'a) file_world \<Rightarrow> picotm_error \<Rightarrow> (unit, seekbuf_tx, 'o, 'a) file_result"
where
  "seekbuf_tx_try_rdlock_field sys self field w error = do {
     (rwstate, w, error) \<leftarrow> seekbuf_try_rdlock_field sys field (sb_rwstate self ! field) w error;
     Some ((), self\<lparr>sb_rwstate := (sb_rwstate self)[field := rwstate]\<rparr>, w, error)
   }"

definition seekbuf_tx_try_wrlock_field ::
  "('o, 'a) file_sys \<Rightarrow> seekbuf_tx \<Rightarrow> nat \<Rightarrow> ('o, 'a) file_world \<Rightarrow> picotm_error \<Rightarrow> (unit, seekbuf_tx, 'o, 'a) file_result"
where
  "seekbuf_tx_try_wrlock_field sys self field w error = do {
     (rwstate, w, error) \<leftarrow> seekbuf_try_wrlock_field sys field (sb_rwstate self ! field) w error;
     Some ((), self\<lparr>sb_rwstate := (sb_rwstate self)[field := rwstate]\<rparr>, w, error)
   }"

subsection \<open>The size of the file\<close>

definition seekbuf_tx_get_file_size ::
  "('o, 'a) file_sys \<Rightarrow> seekbuf_tx \<Rightarrow> u32 \<Rightarrow> ('o, 'a) file_world \<Rightarrow> picotm_error \<Rightarrow> (u64, seekbuf_tx, 'o, 'a) file_result"
where
  "seekbuf_tx_get_file_size sys self fildes w error =
     (if picotm_rwstate_get_status (sb_rwstate self ! SEEKBUF_FIELD_FILE_SIZE) \<noteq> PICOTM_RWSTATE_UNLOCKED
      then Some (sb_file_size self, self, w, error)
      else do {
        (_, self, w, error) \<leftarrow> seekbuf_tx_try_rdlock_field sys self SEEKBUF_FIELD_FILE_SIZE w error;
        if picotm_error_is_set error then Some (- 1, self, w, error)
        else
          (let (res, buf, w) = os_do (sys_fstat sys fildes) w in
           if res <s 0 then Some (scast res, self, w, picotm_error_set_errno error (errno_of w))
           else (let self = self\<lparr>sb_file_size := st_size buf\<rparr> in Some (sb_file_size self, self, w, error)))
      })"

definition seekbuf_tx_set_file_size ::
  "('o, 'a) file_sys \<Rightarrow> seekbuf_tx \<Rightarrow> u64 \<Rightarrow> ('o, 'a) file_world \<Rightarrow> picotm_error \<Rightarrow> (unit, seekbuf_tx, 'o, 'a) file_result"
where
  "seekbuf_tx_set_file_size sys self siz w error = do {
     (_, self, w, error) \<leftarrow> seekbuf_tx_try_wrlock_field sys self SEEKBUF_FIELD_FILE_SIZE w error;
     if picotm_error_is_set error then Some ((), self, w, error)
     else Some ((), self\<lparr>sb_file_size := siz\<rparr>, w, error)
   }"

subsection \<open>Locks of regions\<close>

definition lock_region_append ::
  "('o, 'a) file_sys \<Rightarrow> seekbuf_tx \<Rightarrow> u64 \<Rightarrow> u64 \<Rightarrow> ('o, 'a) file_world \<Rightarrow> picotm_error \<Rightarrow> u64 \<times> seekbuf_tx \<times> ('o, 'a) file_world \<times> picotm_error"
where
  "lock_region_append sys self nbyte offset w error =
     (let (pos, tab, len, siz, env, error) =
            regiontab_append (sys_realloc_regions sys) (sb_locktab self) (sb_locktablen self) (sb_locktabsiz self)
              nbyte offset (world_env w) error
      in (pos, self\<lparr>sb_locktab := tab, sb_locktablen := len, sb_locktabsiz := siz\<rparr>, put_env env w, error))"

definition seekbuf_tx_try_rdlock_region ::
  "('o, 'a) file_sys \<Rightarrow> seekbuf_tx \<Rightarrow> u64 \<Rightarrow> u64 \<Rightarrow> ('o, 'a) file_world \<Rightarrow> picotm_error \<Rightarrow> (u32, seekbuf_tx, 'o, 'a) file_result"
where
  "seekbuf_tx_try_rdlock_region sys self nbyte offset w error = do {
     (regions, error) \<leftarrow> seekbuf_try_rdlock_region (sys_malloc sys) (sys_waits sys) (sys_sleeps sys) offset nbyte
        (fw_regions w) error;
     let w = w\<lparr>fw_regions := regions\<rparr>;
     if picotm_error_is_set error then Some (- 1, self, w, error)
     else
       (let (pos, self, w, error) = lock_region_append sys self nbyte offset w error in
        if picotm_error_is_set error then Some (- 1, self, w, error) else Some (ucast pos, self, w, error))
   }"

definition seekbuf_tx_try_wrlock_region ::
  "('o, 'a) file_sys \<Rightarrow> seekbuf_tx \<Rightarrow> u64 \<Rightarrow> u64 \<Rightarrow> ('o, 'a) file_world \<Rightarrow> picotm_error \<Rightarrow> (u32, seekbuf_tx, 'o, 'a) file_result"
where
  "seekbuf_tx_try_wrlock_region sys self nbyte offset w error = do {
     (regions, error) \<leftarrow> seekbuf_try_wrlock_region (sys_malloc sys) (sys_waits sys) (sys_sleeps sys) offset nbyte
        (fw_regions w) error;
     let w = w\<lparr>fw_regions := regions\<rparr>;
     if picotm_error_is_set error then Some (- 1, self, w, error)
     else
       (let (pos, self, w, error) = lock_region_append sys self nbyte offset w error in
        if picotm_error_is_set error then Some (- 1, self, w, error) else Some (ucast pos, self, w, error))
   }"

subsection \<open>Buffered reads and writes\<close>

text \<open>A null pointer as the buffer is \<open>None\<close>; the bytes are appended to the write buffer.\<close>

definition append_to_iobuffer ::
  "('o, 'a) file_sys \<Rightarrow> seekbuf_tx \<Rightarrow> u64 \<Rightarrow> u8 list option \<Rightarrow> ('o, 'a) file_world \<Rightarrow> picotm_error \<Rightarrow>
   u64 \<times> seekbuf_tx \<times> ('o, 'a) file_world \<times> picotm_error"
where
  "append_to_iobuffer sys self nbyte buf w error =
     (let bufoffset = sb_wrbuflen self in
      case buf of
        None \<Rightarrow> (bufoffset, self, w, error)
      | Some bs \<Rightarrow>
          if nbyte \<noteq> 0 then
            (let env = world_env w;
                 (lowmem, a, errno, tmp, error) =
                   tabresize (sys_realloc_bytes sys) (he_lowmem env) (he_alloc env) (he_errno env) (sb_wrbuf self)
                     (sb_wrbuflen self) (sb_wrbuflen self + nbyte) 1 error;
                 w = put_env \<lparr>he_alloc = a, he_errno = errno, he_lowmem = lowmem\<rparr> w
             in if picotm_error_is_set error then (- 1, self, w, error)
                else (bufoffset,
                  self\<lparr>sb_wrbuf := map_option (memcpy_at (unat (sb_wrbuflen self)) (take (unat nbyte) bs)) tmp,
                    sb_wrbuflen := sb_wrbuflen self + nbyte\<rparr>, w, error))
          else (bufoffset, self, w, error))"

definition seekbuf_tx_append_to_writeset ::
  "('o, 'a) file_sys \<Rightarrow> seekbuf_tx \<Rightarrow> u64 \<Rightarrow> u64 \<Rightarrow> u8 list option \<Rightarrow> ('o, 'a) file_world \<Rightarrow> picotm_error \<Rightarrow>
   u32 \<times> seekbuf_tx \<times> ('o, 'a) file_world \<times> picotm_error"
where
  "seekbuf_tx_append_to_writeset sys self nbyte offset buf w error =
     (let (bufoffset, self, w, error) = append_to_iobuffer sys self nbyte buf w error in
      if picotm_error_is_set error then (- 1, self, w, error)
      else
        (let (res, tab, len, siz, env, error) =
               iooptab_append (sys_realloc_ioops sys) (sb_wrtab self) (sb_wrtablen self) (sb_wrtabsiz self)
                 nbyte offset bufoffset (world_env w) error;
             self = self\<lparr>sb_wrtab := tab, sb_wrtablen := len, sb_wrtabsiz := siz\<rparr>;
             w = put_env env w
         in if picotm_error_is_set error then (- 1, self, w, error) else (ucast res, self, w, error)))"

definition seekbuf_tx_append_to_readset ::
  "('o, 'a) file_sys \<Rightarrow> seekbuf_tx \<Rightarrow> u64 \<Rightarrow> u64 \<Rightarrow> ('o, 'a) file_world \<Rightarrow> picotm_error \<Rightarrow>
   u32 \<times> seekbuf_tx \<times> ('o, 'a) file_world \<times> picotm_error"
where
  "seekbuf_tx_append_to_readset sys self nbyte offset w error =
     (let (res, tab, len, siz, env, error) =
            iooptab_append (sys_realloc_ioops sys) (sb_rdtab self) (sb_rdtablen self) (sb_rdtabsiz self)
              nbyte offset 0 (world_env w) error;
          self = self\<lparr>sb_rdtab := tab, sb_rdtablen := len, sb_rdtabsiz := siz\<rparr>;
          w = put_env env w
      in if picotm_error_is_set error then (- 1, self, w, error) else (ucast res, self, w, error))"

subsection \<open>The end of a transaction\<close>

fun unlock_regions :: "('o, 'a) file_sys \<Rightarrow> region list \<Rightarrow> ('o, 'a) file_world \<Rightarrow> ('o, 'a) file_world option" where
  "unlock_regions sys [] w = Some w"
| "unlock_regions sys (beg # rest) w = do {
     regions \<leftarrow> seekbuf_unlock_region (sys_malloc sys) (sys_recover sys) (rgn_offset beg) (rgn_nbyte beg) (fw_regions w);
     unlock_regions sys rest (w\<lparr>fw_regions := regions\<rparr>)
   }"

fun unlock_seekbuf_rwstates :: "nat \<Rightarrow> picotm_rwstate list \<Rightarrow> ('o, 'a) file_world \<Rightarrow> picotm_rwstate list \<times> ('o, 'a) file_world" where
  "unlock_seekbuf_rwstates field [] w = ([], w)"
| "unlock_seekbuf_rwstates field (beg # rest) w =
     (let (beg, w) = seekbuf_unlock_field field beg w;
          (rest, w) = unlock_seekbuf_rwstates (Suc field) rest w
      in (beg # rest, w))"

definition seekbuf_tx_finish ::
  "('o, 'a) file_sys \<Rightarrow> seekbuf_tx \<Rightarrow> ('o, 'a) file_world \<Rightarrow> (seekbuf_tx \<times> ('o, 'a) file_world) option"
where
  "seekbuf_tx_finish sys self w = do {
     w \<leftarrow> unlock_regions sys (take (unat (sb_locktablen self)) (block_of (sb_locktab self))) w;
     (let (rwstates, w) = unlock_seekbuf_rwstates 0 (sb_rwstate self) w
      in Some (self\<lparr>sb_rwstate := rwstates\<rparr>, w))
   }"

end
