(* ===== verification/Fildes_Regfile.thy ===== *)
theory Fildes_Regfile
  imports Fildes_Seekbuf_Tx
begin

text \<open>
  Transactions on regular files (\<open>modules/libc/src/fildes/regfile_tx.c\<close>, the field locks of \<open>regfile.c\<close>, and
  the tables \<open>seekoptab.c\<close> and \<open>fchmodoptab.c\<close>).  Writes are buffered and applied at commit; reads combine the
  file with the buffered writes; the file offset and the file size are those that the transaction sees.  An
  operation that leaves something to apply or to undo stores the index of its entry in \<open>cookie\<close>.
\<close>

subsection \<open>Tables\<close>

definition seekop_init :: "u64 \<Rightarrow> u64 \<Rightarrow> u32 \<Rightarrow> seekop" where
  "seekop_init from offset whence = \<lparr>sk_from = from, sk_offset = offset, sk_whence = whence\<rparr>"

definition sizeof_seekop :: u64 where "sizeof_seekop = 24"

definition seekoptab_append ::
  "(seekop list, 'a) allocator \<Rightarrow> seekop list option \<Rightarrow> u64 \<Rightarrow> u64 \<Rightarrow> u64 \<Rightarrow> u32 \<Rightarrow> 'a heap_env \<Rightarrow> picotm_error \<Rightarrow>
   u64 \<times> seekop list option \<times> u64 \<times> 'a heap_env \<times> picotm_error"
where
  "seekoptab_append realloc tab nelems from offset whence env error =
     (let (lowmem, a, errno, tmp, error) =
            tabresize realloc (he_lowmem env) (he_alloc env) (he_errno env) tab nelems (nelems + 1) sizeof_seekop error;
          env = \<lparr>he_alloc = a, he_errno = errno, he_lowmem = lowmem\<rparr>
      in if picotm_error_is_set error then (- 1, tab, nelems, env, error)
         else (nelems, map_option (\<lambda>t. t[unat nelems := seekop_init from offset whence]) tmp, nelems + 1, env, error))"

definition fchmodop_init :: "u32 \<Rightarrow> u32 \<Rightarrow> fchmodop" where
  "fchmodop_init mode old_mode = \<lparr>fc_mode = mode, fc_old_mode = old_mode\<rparr>"

definition sizeof_fchmodop :: u64 where "sizeof_fchmodop = 8"

definition fchmodoptab_append ::
  "(fchmodop list, 'a) allocator \<Rightarrow> fchmodop list option \<Rightarrow> u64 \<Rightarrow> u32 \<Rightarrow> u32 \<Rightarrow> 'a heap_env \<Rightarrow> picotm_error \<Rightarrow>
   u64 \<times> fchmodop list option \<times> u64 \<times> 'a heap_env \<times> picotm_error"
where
  "fchmodoptab_append realloc tab nelems mode old_mode env error =
     (let (lowmem, a, errno, tmp, error) =
            tabresize realloc (he_lowmem env) (he_alloc env) (he_errno env) tab nelems (nelems + 1) sizeof_fchmodop error;
          env = \<lparr>he_alloc = a, he_errno = errno, he_lowmem = lowmem\<rparr>
      in if picotm_error_is_set error then (- 1, tab, nelems, env, error)
         else (nelems, map_option (\<lambda>t. t[unat nelems := fchmodop_init mode old_mode]) tmp, nelems + 1, env, error))"

subsection \<open>The state\<close>

definition REGFILE_FIELD_FILE_MODE :: nat where "REGFILE_FIELD_FILE_MODE = 0"
definition REGFILE_FIELD_STATE :: nat where "REGFILE_FIELD_STATE = 1"
definition REGFILE_FIELD_FILE_OFFSET :: nat where "REGFILE_FIELD_FILE_OFFSET = 2"
definition NUMBER_OF_REGFILE_FIELDS :: nat where "NUMBER_OF_REGFILE_FIELDS = 3"

text \<open>
  The structure that the pointer \<open>seekbuf_tx\<close> refers to is a field here: one descriptor of the file per
  transaction.  The table of \<open>fcntl\<close> operations has no user.
\<close>

record regfile_tx =
  rf_seekbuf_tx :: seekbuf_tx
  rf_fchmodtab :: "fchmodop list option"
  rf_fchmodtablen :: u64
  rf_seektab :: "seekop list option"
  rf_seektablen :: u64
  rf_offset :: u64
  rf_rwstate :: "picotm_rwstate list"

definition regfile_tx_init :: "regfile_tx \<Rightarrow> regfile_tx" where
  "regfile_tx_init self = self\<lparr>rf_fchmodtab := None, rf_fchmodtablen := 0, rf_seektab := None, rf_seektablen := 0,
     rf_offset := 0, rf_rwstate := init_rwstates (rf_rwstate self)\<rparr>"

definition regfile_tx_op_prepare :: "regfile_tx \<Rightarrow> regfile_tx" where
  "regfile_tx_op_prepare self = self\<lparr>rf_fchmodtablen := 0, rf_seektablen := 0, rf_offset := 0\<rparr>"

text \<open>A call of a function of the transaction's seekable buffer.\<close>

definition on_seekbuf_tx ::
  "regfile_tx \<Rightarrow> (seekbuf_tx \<Rightarrow> ('r, seekbuf_tx, 'o, 'a) file_result) \<Rightarrow> ('r, regfile_tx, 'o, 'a) file_result"
where
  "on_seekbuf_tx self f = do {
     (r, seekbuf_tx, w, error) \<leftarrow> f (rf_seekbuf_tx self);
     Some (r, self\<lparr>rf_seekbuf_tx := seekbuf_tx\<rparr>, w, error)
   }"

subsection \<open>Locks of fields and the file offset\<close>

definition regfile_field_addr :: "('o, 'a) file_sys \<Rightarrow> nat \<Rightarrow> pointer" where
  "regfile_field_addr sys field = sys_regfile_rwlock sys + of_nat field"

definition regfile_try_rdlock_field ::
  "('o, 'a) file_sys \<Rightarrow> nat \<Rightarrow> picotm_rwstate \<Rightarrow> ('o, 'a) file_world \<Rightarrow> picotm_error \<Rightarrow>
   (picotm_rwstate \<times> ('o, 'a) file_world \<times> picotm_error) option"
where
  "regfile_try_rdlock_field sys field rwstate w error =
     (let rwlock = regfile_field_addr sys field in do {
        (rwstate, mem, error) \<leftarrow> picotm_rwstate_try_rdlock (sys_waits sys rwlock) (sys_sleeps sys rwlock) rwlock
           rwstate (fw_regfile_rwlock w ! field) error;
        Some (rwstate, w\<lparr>fw_regfile_rwlock := (fw_regfile_rwlock w)[field := mem]\<rparr>, error)
      })"

definition regfile_try_wrlock_field ::
  "('o, 'a) file_sys \<Rightarrow> nat \<Rightarrow> picotm_rwstate \<Rightarrow> ('o, 'a) file_world \<Rightarrow> picotm_error \<Rightarrow>
   (picotm_rwstate \<times> ('o, 'a) file_world \<times> picotm_error) option"
where
  "regfile_try_wrlock_field sys field rwstate w error =
     (let rwlock = regfile_field_addr sys field in do {
        (rwstate, mem, error) \<leftarrow> picotm_rwstate_try_wrlock (sys_waits sys rwlock) (sys_sleeps sys rwlock) rwlock
           rwstate (fw_regfile_rwlock w ! field) error;
        Some (rwstate, w\<lparr>fw_regfile_rwlock := (fw_regfile_rwlock w)[field := mem]\<rparr>, error)
      })"

definition regfile_unlock_field ::
  "nat \<Rightarrow> picotm_rwstate \<Rightarrow> ('o, 'a) file_world \<Rightarrow> picotm_rwstate \<times> ('o, 'a) file_world"
where
  "regfile_unlock_field field rwstate w =
     (case picotm_rwstate_unlock rwstate (fw_regfile_rwlock w ! field) of (_, rwstate, mem) \<Rightarrow>
        (rwstate, w\<lparr>fw_regfile_rwlock := (fw_regfile_rwlock w)[field := mem]\<rparr>))"

definition regfile_tx_try_rdlock_field ::
  "('o, 'a) file_sys \<Rightarrow> regfile_tx \<Rightarrow> nat \<Rightarrow> ('o, 'a) file_world \<Rightarrow> picotm_error \<Rightarrow> (unit, regfile_tx, 'o, 'a) file_result"
where
  "regfile_tx_try_rdlock_field sys self field w error = do {
     (rwstate, w, error) \<leftarrow> regfile_try_rdlock_field sys field (rf_rwstate self ! field) w error;
     Some ((), self\<lparr>rf_rwstate := (rf_rwstate self)[field := rwstate]\<rparr>, w, error)
   }"

definition regfile_tx_try_wrlock_field ::
  "('o, 'a) file_sys \<Rightarrow> regfile_tx \<Rightarrow> nat \<Rightarrow> ('o, 'a) file_world \<Rightarrow> picotm_error \<Rightarrow> (unit, regfile_tx, 'o, 'a) file_result"
where
  "regfile_tx_try_wrlock_field sys self field w error = do {
     (rwstate, w, error) \<leftarrow> regfile_try_wrlock_field sys field (rf_rwstate self ! field) w error;
     Some ((), self\<lparr>rf_rwstate := (rf_rwstate self)[field := rwstate]\<rparr>, w, error)
   }"

definition regfile_tx_get_file_offset ::
  "('o, 'a) file_sys \<Rightarrow> regfile_tx \<Rightarrow> u32 \<Rightarrow> ('o, 'a) file_world \<Rightarrow> picotm_error \<Rightarrow> (u64, regfile_tx, 'o, 'a) file_result"
where
  "regfile_tx_get_file_offset sys self fildes w error =
     (if picotm_rwstate_get_status (rf_rwstate self ! REGFILE_FIELD_FILE_OFFSET) \<noteq> PICOTM_RWSTATE_UNLOCKED
      then Some (rf_offset self, self, w, error)
      else do {
        (_, self, w, error) \<leftarrow> regfile_tx_try_rdlock_field sys self REGFILE_FIELD_FILE_OFFSET w error;
        if picotm_error_is_set error then Some (- 1, self, w, error)
        else
          (let (res, _, w) = os_do (sys_lseek sys fildes 0 SEEK_CUR) w in
           if res = - 1 then Some (res, self, w, picotm_error_set_errno error (errno_of w))
           else (let self = self\<lparr>rf_offset := res\<rparr> in Some (rf_offset self, self, w, error)))
      })"

definition regfile_tx_set_file_offset ::
  "('o, 'a) file_sys \<Rightarrow> regfile_tx \<Rightarrow> u64 \<Rightarrow> ('o, 'a) file_world \<Rightarrow> picotm_error \<Rightarrow> (unit, regfile_tx, 'o, 'a) file_result"
where
  "regfile_tx_set_file_offset sys self offset w error = do {
     (_, self, w, error) \<leftarrow> regfile_tx_try_wrlock_field sys self REGFILE_FIELD_FILE_OFFSET w error;
     if picotm_error_is_set error then Some ((), self, w, error)
     else Some ((), self\<lparr>rf_offset := offset\<rparr>, w, error)
   }"

subsection \<open>Finishing\<close>

fun unlock_regfile_rwstates :: "nat \<Rightarrow> picotm_rwstate list \<Rightarrow> ('o, 'a) file_world \<Rightarrow> picotm_rwstate list \<times> ('o, 'a) file_world" where
  "unlock_regfile_rwstates field [] w = ([], w)"
| "unlock_regfile_rwstates field (beg # rest) w =
     (let (beg, w) = regfile_unlock_field field beg w;
          (rest, w) = unlock_regfile_rwstates (Suc field) rest w
      in (beg # rest, w))"

definition regfile_tx_op_finish :: "regfile_tx \<Rightarrow> ('o, 'a) file_world \<Rightarrow> regfile_tx \<times> ('o, 'a) file_world" where
  "regfile_tx_op_finish self w =
     (let (rwstates, w) = unlock_regfile_rwstates 0 (rf_rwstate self) w in (self\<lparr>rf_rwstate := rwstates\<rparr>, w))"

subsection \<open>\<open>fchmod\<close>\<close>

text \<open>The results are the return value and the cookie.\<close>

definition S_IFMT :: u32 where "S_IFMT = 0xF000"

definition regfile_tx_op_fchmod_exec ::
  "('o, 'a) file_sys \<Rightarrow> regfile_tx \<Rightarrow> u32 \<Rightarrow> u32 \<Rightarrow> u32 \<Rightarrow> ('o, 'a) file_world \<Rightarrow> picotm_error \<Rightarrow>
   (u32 \<times> u32, regfile_tx, 'o, 'a) file_result"
where
  "regfile_tx_op_fchmod_exec sys self fildes mode cookie w error = do {
     (_, self, w, error) \<leftarrow> regfile_tx_try_wrlock_field sys self REGFILE_FIELD_FILE_MODE w error;
     if picotm_error_is_set error then Some ((- 1, cookie), self, w, picotm_error_set_errno error (errno_of w))
     else
       (let (res, buf, w) = os_do (sys_fstat sys fildes) w in
        if res <s 0 then Some ((res, cookie), self, w, picotm_error_set_errno error (errno_of w))
        else
          (let old_mode = st_mode buf AND NOT S_IFMT;
               (res, _, w) = os_do (sys_fchmod sys fildes mode) w
           in if res <s 0 then Some ((res, cookie), self, w, picotm_error_set_errno error (errno_of w))
              else
                (let (pos, tab, len, env, error) =
                       fchmodoptab_append (sys_realloc_fchmodops sys) (rf_fchmodtab self) (rf_fchmodtablen self)
                         mode old_mode (world_env w) error;
                     self = self\<lparr>rf_fchmodtab := tab, rf_fchmodtablen := len\<rparr>;
                     w = put_env env w;
                     error = (if picotm_error_is_set error then picotm_error_set_errno error (errno_of w) else error)
                 in Some ((res, ucast pos), self, w, error))))
   }"

definition regfile_tx_op_fchmod_undo ::
  "('o, 'a) file_sys \<Rightarrow> regfile_tx \<Rightarrow> u32 \<Rightarrow> u32 \<Rightarrow> ('o, 'a) file_world \<Rightarrow> picotm_error \<Rightarrow> ('o, 'a) file_world \<times> picotm_error"
where
  "regfile_tx_op_fchmod_undo sys self fildes cookie w error =
     (let op = block_of (rf_fchmodtab self) ! unat cookie;
          (res, _, w) = os_do (sys_fchmod sys fildes (fc_old_mode op)) w
      in if res <s 0 then (w, picotm_error_set_errno error (errno_of w)) else (w, error))"

subsection \<open>\<open>fcntl\<close>\<close>

definition F_GETFD :: u32 where "F_GETFD = 1"
definition F_SETFD :: u32 where "F_SETFD = 2"
definition F_GETFL :: u32 where "F_GETFL = 3"
definition F_SETFL :: u32 where "F_SETFL = 4"
definition F_GETLK :: u32 where "F_GETLK = 5"
definition F_SETLK :: u32 where "F_SETLK = 6"
definition F_SETLKW :: u32 where "F_SETLKW = 7"
definition F_SETOWN :: u32 where "F_SETOWN = 8"
definition F_GETOWN :: u32 where "F_GETOWN = 9"

definition fcntl_call ::
  "('o, 'a) file_sys \<Rightarrow> regfile_tx \<Rightarrow> u32 \<Rightarrow> u32 \<Rightarrow> fcntl_arg \<Rightarrow> ('o, 'a) file_world \<Rightarrow> picotm_error \<Rightarrow>
   (u32 \<times> fcntl_arg, regfile_tx, 'o, 'a) file_result"
where
  "fcntl_call sys self fildes cmd arg w error = do {
     (res, arg, w) \<leftarrow> temp_failure_retry (os_do (sys_fcntl sys fildes cmd arg)) w;
     Some ((res, arg), self, w, if res <s 0 then picotm_error_set_errno error (errno_of w) else error)
   }"

definition regfile_tx_op_fcntl_exec ::
  "('o, 'a) file_sys \<Rightarrow> regfile_tx \<Rightarrow> u32 \<Rightarrow> u32 \<Rightarrow> fcntl_arg \<Rightarrow> bool \<Rightarrow> ('o, 'a) file_world \<Rightarrow> picotm_error \<Rightarrow>
   (u32 \<times> fcntl_arg, regfile_tx, 'o, 'a) file_result"
where
  "regfile_tx_op_fcntl_exec sys self fildes cmd arg isnoundo w error =
     (if cmd = F_GETFD \<or> cmd = F_GETFL \<or> cmd = F_GETOWN then do {
        (_, self, w, error) \<leftarrow> regfile_tx_try_rdlock_field sys self REGFILE_FIELD_STATE w error;
        if picotm_error_is_set error then Some ((- 1, arg), self, w, error)
        else do {
          ((res, _), self, w, error) \<leftarrow> fcntl_call sys self fildes cmd arg w error;
          Some ((res, Fcntl_arg0 res), self, w, error)
        }
      }
      else if cmd = F_GETLK then do {
        (_, self, w, error) \<leftarrow> on_seekbuf_tx self (\<lambda>sb. seekbuf_tx_try_rdlock_field sys sb SEEKBUF_FIELD_STATE w error);
        if picotm_error_is_set error then Some ((- 1, arg), self, w, error)
        else fcntl_call sys self fildes cmd arg w error
      }
      else if cmd = F_SETFL \<or> cmd = F_SETFD \<or> cmd = F_SETOWN \<or> cmd = F_SETLK \<or> cmd = F_SETLKW then
        (if \<not> isnoundo then Some ((- 1, arg), self, w, picotm_error_set_revocable error)
         else fcntl_call sys self fildes cmd arg w error)
      else Some ((- 1, arg), self, w, picotm_error_set_errno error EINVAL))"

subsection \<open>\<open>fstat\<close> and \<open>fsync\<close>\<close>

text \<open>The buffer of the caller is the argument and the second result.\<close>

definition regfile_tx_op_fstat_exec ::
  "('o, 'a) file_sys \<Rightarrow> regfile_tx \<Rightarrow> u32 \<Rightarrow> stat \<Rightarrow> ('o, 'a) file_world \<Rightarrow> picotm_error \<Rightarrow>
   (u32 \<times> stat, regfile_tx, 'o, 'a) file_result"
where
  "regfile_tx_op_fstat_exec sys self fildes buf w error = do {
     (_, self, w, error) \<leftarrow> regfile_tx_try_rdlock_field sys self REGFILE_FIELD_FILE_MODE w error;
     if picotm_error_is_set error then Some ((- 1, buf), self, w, picotm_error_set_errno error (errno_of w))
     else do {
       (_, self, w, error) \<leftarrow> on_seekbuf_tx self (\<lambda>sb. seekbuf_tx_try_rdlock_field sys sb SEEKBUF_FIELD_FILE_SIZE w error);
       if picotm_error_is_set error then Some ((- 1, buf), self, w, error)
       else do {
         (file_size, self, w, error) \<leftarrow> on_seekbuf_tx self (\<lambda>sb. seekbuf_tx_get_file_size sys sb fildes w error);
         if picotm_error_is_set error then Some ((- 1, buf), self, w, error)
         else
           (let (res, st, w) = os_do (sys_fstat sys fildes) w in
            if res <s 0 then Some ((res, buf), self, w, picotm_error_set_errno error (errno_of w))
            else Some ((res, st\<lparr>st_size := file_size\<rparr>), self, w, error))
       }
     }
   }"

definition regfile_tx_op_fsync_exec ::
  "('o, 'a) file_sys \<Rightarrow> regfile_tx \<Rightarrow> u32 \<Rightarrow> u32 \<Rightarrow> ('o, 'a) file_world \<Rightarrow> picotm_error \<Rightarrow>
   (u32 \<times> u32, regfile_tx, 'o, 'a) file_result"
where
  "regfile_tx_op_fsync_exec sys self fildes cookie w error =
     (if sb_wrmode (rf_seekbuf_tx self) = PICOTM_LIBC_WRITE_BACK then Some ((0, 0), self, w, error)
      else
        (let (res, _, w) = os_do (sys_fsync sys fildes) w in
         Some ((res, cookie), self, w, if res <s 0 then picotm_error_set_errno error (errno_of w) else error)))"

definition regfile_tx_op_fsync_apply ::
  "('o, 'a) file_sys \<Rightarrow> regfile_tx \<Rightarrow> u32 \<Rightarrow> u32 \<Rightarrow> ('o, 'a) file_world \<Rightarrow> picotm_error \<Rightarrow>
   (('o, 'a) file_world \<times> picotm_error) option"
where
  "regfile_tx_op_fsync_apply sys self fildes cookie w error =
     (let (res, _, w) = os_do (sys_fsync sys fildes) w in
      Some (w, if res <s 0 then picotm_error_set_errno error (errno_of w) else error))"

subsection \<open>\<open>lseek\<close>\<close>

text \<open>The check of a sum of offsets against its bounds, as both relative cases of the switch have it.\<close>

definition offset_plus ::
  "u64 \<Rightarrow> u64 \<Rightarrow> regfile_tx \<Rightarrow> ('o, 'a) file_world \<Rightarrow> picotm_error \<Rightarrow> (u64, regfile_tx, 'o, 'a) file_result"
where
  "offset_plus pos offset self w error =
     Some (if offset <s 0 then
             (if pos + offset <s 0 then (- 1, self, w, picotm_error_set_errno error EINVAL)
              else (pos + offset, self, w, error))
           else if 0 <s offset then
             (if pos + offset <s pos then (- 1, self, w, picotm_error_set_errno error EOVERFLOW)
              else (pos + offset, self, w, error))
           else (pos + offset, self, w, error))"

definition file_offset_after_lseek ::
  "('o, 'a) file_sys \<Rightarrow> regfile_tx \<Rightarrow> u32 \<Rightarrow> u64 \<Rightarrow> u32 \<Rightarrow> ('o, 'a) file_world \<Rightarrow> picotm_error \<Rightarrow>
   (u64, regfile_tx, 'o, 'a) file_result"
where
  "file_offset_after_lseek sys self fildes offset whence w error =
     (if whence = SEEK_SET then
        Some (if offset <s 0 then (- 1, self, w, picotm_error_set_errno error EINVAL) else (offset, self, w, error))
      else if whence = SEEK_CUR then do {
        (pos, self, w, error) \<leftarrow> regfile_tx_get_file_offset sys self fildes w error;
        if picotm_error_is_set error then Some (pos, self, w, error) else offset_plus pos offset self w error
      }
      else if whence = SEEK_END then do {
        (siz, self, w, error) \<leftarrow> on_seekbuf_tx self (\<lambda>sb. seekbuf_tx_get_file_size sys sb fildes w error);
        if picotm_error_is_set error then Some (siz, self, w, error) else offset_plus siz offset self w error
      }
      else Some (- 1, self, w, picotm_error_set_errno error EINVAL))"

definition append_seekop ::
  "('o, 'a) file_sys \<Rightarrow> regfile_tx \<Rightarrow> u64 \<Rightarrow> u64 \<Rightarrow> u32 \<Rightarrow> ('o, 'a) file_world \<Rightarrow> picotm_error \<Rightarrow>
   u64 \<times> regfile_tx \<times> ('o, 'a) file_world \<times> picotm_error"
where
  "append_seekop sys self from offset whence w error =
     (let (pos, tab, len, env, error) =
            seekoptab_append (sys_realloc_seekops sys) (rf_seektab self) (rf_seektablen self) from offset whence
              (world_env w) error
      in (pos, self\<lparr>rf_seektab := tab, rf_seektablen := len\<rparr>, put_env env w, error))"

definition record_seek ::
  "('o, 'a) file_sys \<Rightarrow> regfile_tx \<Rightarrow> u64 \<Rightarrow> u64 \<Rightarrow> u32 \<Rightarrow> u64 \<Rightarrow> u32 option \<Rightarrow> ('o, 'a) file_world \<Rightarrow> picotm_error \<Rightarrow>
   (u64 \<times> u32 option, regfile_tx, 'o, 'a) file_result"
where
  "record_seek sys self from offset whence to cookie w error =
     (case cookie of
        None \<Rightarrow> Some ((to, cookie), self, w, error)
      | Some _ \<Rightarrow>
          (let (pos, self, w, error) = append_seekop sys self from offset whence w error in
           Some ((if picotm_error_is_set error then - 1 else to, Some (ucast pos)), self, w, error)))"

definition regfile_tx_op_lseek_exec ::
  "('o, 'a) file_sys \<Rightarrow> regfile_tx \<Rightarrow> u32 \<Rightarrow> u64 \<Rightarrow> u32 \<Rightarrow> u32 option \<Rightarrow> ('o, 'a) file_world \<Rightarrow> picotm_error \<Rightarrow>
   (u64 \<times> u32 option, regfile_tx, 'o, 'a) file_result"
where
  "regfile_tx_op_lseek_exec sys self fildes offset whence cookie w error = do {
     (from, self, w, error) \<leftarrow> regfile_tx_get_file_offset sys self fildes w error;
     if picotm_error_is_set error then Some ((from, cookie), self, w, error)
     else if offset = 0 \<and> whence = SEEK_CUR then Some ((from, cookie), self, w, error)
     else do {
       (to, self, w, error) \<leftarrow> file_offset_after_lseek sys self fildes offset whence w error;
       if picotm_error_is_set error then Some ((to, cookie), self, w, error)
       else do {
         (_, self, w, error) \<leftarrow> regfile_tx_set_file_offset sys self to w error;
         if picotm_error_is_set error then Some ((- 1, cookie), self, w, error)
         else if sb_wrmode (rf_seekbuf_tx self) = PICOTM_LIBC_WRITE_THROUGH then
           (let (res, _, w) = os_do (sys_lseek sys fildes to SEEK_SET) w
            in if res = - 1 then Some ((res, cookie), self, w, picotm_error_set_errno error (errno_of w))
               else record_seek sys self from offset whence to cookie w error)
         else record_seek sys self from offset whence to cookie w error
       }
     }
   }"

definition regfile_tx_op_lseek_apply ::
  "('o, 'a) file_sys \<Rightarrow> regfile_tx \<Rightarrow> u32 \<Rightarrow> u32 \<Rightarrow> ('o, 'a) file_world \<Rightarrow> picotm_error \<Rightarrow>
   (('o, 'a) file_world \<times> picotm_error) option"
where
  "regfile_tx_op_lseek_apply sys self fildes cookie w error =
     (if sb_wrmode (rf_seekbuf_tx self) \<noteq> PICOTM_LIBC_WRITE_BACK then Some (w, error)
      else
        (let op = block_of (rf_seektab self) ! unat cookie;
             (res, _, w) = os_do (sys_lseek sys fildes (sk_offset op) (sk_whence op)) w
         in Some (w, if res = - 1 then picotm_error_set_errno error (errno_of w) else error)))"

definition regfile_tx_op_lseek_undo ::
  "('o, 'a) file_sys \<Rightarrow> regfile_tx \<Rightarrow> u32 \<Rightarrow> u32 \<Rightarrow> ('o, 'a) file_world \<Rightarrow> picotm_error \<Rightarrow> ('o, 'a) file_world \<times> picotm_error"
where
  "regfile_tx_op_lseek_undo sys self fildes cookie w error =
     (if sb_wrmode (rf_seekbuf_tx self) \<noteq> PICOTM_LIBC_WRITE_THROUGH then (w, error)
      else
        (let (res, _, w) = os_do (sys_lseek sys fildes (sk_from (block_of (rf_seektab self) ! unat cookie)) SEEK_SET) w
         in (w, if res = - 1 then picotm_error_set_errno error (errno_of w) else error)))"

subsection \<open>\<open>pread\<close>\<close>

text \<open>
  The bytes of the file are read into the buffer, and then the buffered writes are copied over them.  The
  results are the return value and the buffer.
\<close>

definition merge_writeset :: "seekbuf_tx \<Rightarrow> u64 \<Rightarrow> u8 list \<Rightarrow> u64 \<Rightarrow> u64 \<Rightarrow> u64 \<times> u8 list" where
  "merge_writeset sb len buf nbyte offset =
     (let (len2, buf) = iooptab_read (block_of (sb_wrtab sb)) (sb_wrtablen sb) buf nbyte offset (block_of (sb_wrbuf sb))
      in (llmax len len2, buf))"

definition regfile_tx_op_pread_exec ::
  "('o, 'a) file_sys \<Rightarrow> regfile_tx \<Rightarrow> u32 \<Rightarrow> u8 list \<Rightarrow> u64 \<Rightarrow> u64 \<Rightarrow> ('o, 'a) file_world \<Rightarrow> picotm_error \<Rightarrow>
   (u64 \<times> u8 list, regfile_tx, 'o, 'a) file_result"
where
  "regfile_tx_op_pread_exec sys self fildes buf nbyte offset w error = do {
     (_, self, w, error) \<leftarrow> on_seekbuf_tx self (\<lambda>sb. seekbuf_tx_try_rdlock_region sys sb nbyte offset w error);
     if picotm_error_is_set error then Some ((- 1, buf), self, w, error)
     else do {
       (len, buf, w, error) \<leftarrow> do_pread sys fildes buf nbyte offset w error;
       if picotm_error_is_set error then Some ((len, buf), self, w, error)
       else Some (merge_writeset (rf_seekbuf_tx self) len buf nbyte offset, self, w, error)
     }
   }"

subsection \<open>\<open>pwrite\<close>\<close>

text \<open>A write that reaches behind the end of the file extends it.\<close>

definition extend_file_size ::
  "('o, 'a) file_sys \<Rightarrow> regfile_tx \<Rightarrow> u32 \<Rightarrow> u64 \<Rightarrow> u64 \<Rightarrow> u32 \<Rightarrow> ('o, 'a) file_world \<Rightarrow> picotm_error \<Rightarrow>
   (u64 \<times> u32, regfile_tx, 'o, 'a) file_result"
where
  "extend_file_size sys self fildes offset len cookie w error = do {
     (file_size, self, w, error) \<leftarrow> on_seekbuf_tx self (\<lambda>sb. seekbuf_tx_get_file_size sys sb fildes w error);
     if picotm_error_is_set error then Some ((- 1, cookie), self, w, error)
     else if file_size <s offset + len then do {
       (_, self, w, error) \<leftarrow> on_seekbuf_tx self (\<lambda>sb. seekbuf_tx_set_file_size sys sb (offset + len) w error);
       if picotm_error_is_set error then Some ((- 1, cookie), self, w, error)
       else Some ((len, cookie), self, w, error)
     }
     else Some ((len, cookie), self, w, error)
   }"

text \<open>A write is buffered, or goes to the file at once; the number of bytes and the cookie are the results.\<close>

definition write_or_buffer ::
  "('o, 'a) file_sys \<Rightarrow>
   (('o, 'a) file_sys \<Rightarrow> u32 \<Rightarrow> u8 list \<Rightarrow> u64 \<Rightarrow> u64 \<Rightarrow> ('o, 'a) file_world \<Rightarrow> picotm_error \<Rightarrow>
     (u64 \<times> ('o, 'a) file_world \<times> picotm_error) option) \<Rightarrow>
   regfile_tx \<Rightarrow> u32 \<Rightarrow> u8 list \<Rightarrow> u64 \<Rightarrow> u64 \<Rightarrow> u32 \<Rightarrow> ('o, 'a) file_world \<Rightarrow> picotm_error \<Rightarrow>
   (u64 \<times> u32, regfile_tx, 'o, 'a) file_result"
where
  "write_or_buffer sys do_write self fildes buf nbyte offset cookie w error =
     (if sb_wrmode (rf_seekbuf_tx self) = PICOTM_LIBC_WRITE_THROUGH then do {
        (len, w, error) \<leftarrow> do_write sys fildes buf nbyte offset w error;
        Some ((len, cookie), self, w, error)
      }
      else do {
        (cookie, self, w, error) \<leftarrow> on_seekbuf_tx self
           (\<lambda>sb. Some (seekbuf_tx_append_to_writeset sys sb nbyte offset (Some buf) w error));
        Some ((if picotm_error_is_set error then - 1 else nbyte, cookie), self, w, error)
      })"

definition regfile_tx_op_pwrite_exec ::
  "('o, 'a) file_sys \<Rightarrow> regfile_tx \<Rightarrow> u32 \<Rightarrow> u8 list \<Rightarrow> u64 \<Rightarrow> u64 \<Rightarrow> bool \<Rightarrow> u32 \<Rightarrow> ('o, 'a) file_world \<Rightarrow> picotm_error \<Rightarrow>
   (u64 \<times> u32, regfile_tx, 'o, 'a) file_result"
where
  "regfile_tx_op_pwrite_exec sys self fildes buf nbyte offset isnoundo cookie w error =
     (if sb_wrmode (rf_seekbuf_tx self) = PICOTM_LIBC_WRITE_THROUGH \<and> \<not> isnoundo
      then Some ((- 1, cookie), self, w, picotm_error_set_revocable error)
      else do {
        (_, self, w, error) \<leftarrow> on_seekbuf_tx self (\<lambda>sb. seekbuf_tx_try_wrlock_region sys sb nbyte offset w error);
        if picotm_error_is_set error then Some ((- 1, cookie), self, w, error)
        else do {
          ((len, cookie), self, w, error) \<leftarrow> write_or_buffer sys do_pwrite self fildes buf nbyte offset cookie w error;
          if picotm_error_is_set error then Some ((len, cookie), self, w, error)
          else extend_file_size sys self fildes offset len cookie w error
        }
      })"

definition writeset_op :: "seekbuf_tx \<Rightarrow> u32 \<Rightarrow> ioop" where
  "writeset_op sb cookie = block_of (sb_wrtab sb) ! unat cookie"

definition regfile_tx_op_pwrite_apply ::
  "('o, 'a) file_sys \<Rightarrow> regfile_tx \<Rightarrow> u32 \<Rightarrow> u32 \<Rightarrow> ('o, 'a) file_world \<Rightarrow> picotm_error \<Rightarrow>
   (('o, 'a) file_world \<times> picotm_error) option"
where
  "regfile_tx_op_pwrite_apply sys self fildes cookie w error =
     (let sb = rf_seekbuf_tx self; op = writeset_op sb cookie in
      if sb_wrmode sb \<noteq> PICOTM_LIBC_WRITE_BACK then Some (w, error)
      else do {
        (_, w, error) \<leftarrow> do_pwrite sys fildes (drop (unat (io_bufoff op)) (block_of (sb_wrbuf sb))) (io_nbyte op)
           (io_off op) w error;
        Some (w, error)
      })"

subsection \<open>\<open>read\<close> and \<open>write\<close>\<close>

text \<open>The results of reading are the return value, the buffer and the cookie.\<close>

definition regfile_tx_op_read_exec ::
  "('o, 'a) file_sys \<Rightarrow> regfile_tx \<Rightarrow> u32 \<Rightarrow> u8 list \<Rightarrow> u64 \<Rightarrow> u32 \<Rightarrow> ('o, 'a) file_world \<Rightarrow> picotm_error \<Rightarrow>
   (u64 \<times> u8 list \<times> u32, regfile_tx, 'o, 'a) file_result"
where
  "regfile_tx_op_read_exec sys self fildes buf nbyte cookie w error = do {
     (offset, self, w, error) \<leftarrow> regfile_tx_get_file_offset sys self fildes w error;
     if picotm_error_is_set error then Some ((- 1, buf, cookie), self, w, error)
     else do {
       (_, self, w, error) \<leftarrow> on_seekbuf_tx self (\<lambda>sb. seekbuf_tx_try_rdlock_region sys sb nbyte offset w error);
       if picotm_error_is_set error then Some ((- 1, buf, cookie), self, w, error)
       else do {
         (len, buf, w, error) \<leftarrow> do_pread sys fildes buf nbyte offset w error;
         if picotm_error_is_set error
         then Some ((len, buf, cookie), self, w, picotm_error_set_errno error (errno_of w))
         else
           (let (res, buf) = merge_writeset (rf_seekbuf_tx self) len buf nbyte offset in do {
              (_, self, w, error) \<leftarrow> regfile_tx_set_file_offset sys self (offset + res) w error;
              if picotm_error_is_set error then Some ((- 1, buf, cookie), self, w, error)
              else do {
                (cookie, self, w, error) \<leftarrow> on_seekbuf_tx self
                   (\<lambda>sb. Some (seekbuf_tx_append_to_readset sys sb nbyte offset w error));
                Some ((if picotm_error_is_set error then - 1 else res, buf, cookie), self, w, error)
              }
            })
       }
     }
   }"

definition regfile_tx_op_read_apply ::
  "('o, 'a) file_sys \<Rightarrow> regfile_tx \<Rightarrow> u32 \<Rightarrow> u32 \<Rightarrow> ('o, 'a) file_world \<Rightarrow> picotm_error \<Rightarrow>
   (('o, 'a) file_world \<times> picotm_error) option"
where
  "regfile_tx_op_read_apply sys self fildes cookie w error =
     (let op = block_of (sb_rdtab (rf_seekbuf_tx self)) ! unat cookie;
          (res, _, w) = os_do (sys_lseek sys fildes (io_off op + io_nbyte op) SEEK_SET) w
      in Some (w, if res = - 1 then picotm_error_set_errno error (errno_of w) else error))"

definition regfile_tx_op_write_exec ::
  "('o, 'a) file_sys \<Rightarrow> regfile_tx \<Rightarrow> u32 \<Rightarrow> u8 list \<Rightarrow> u64 \<Rightarrow> bool \<Rightarrow> u32 \<Rightarrow> ('o, 'a) file_world \<Rightarrow> picotm_error \<Rightarrow>
   (u64 \<times> u32, regfile_tx, 'o, 'a) file_result"
where
  "regfile_tx_op_write_exec sys self fildes buf nbyte isnoundo cookie w error =
     (if sb_wrmode (rf_seekbuf_tx self) = PICOTM_LIBC_WRITE_THROUGH \<and> \<not> isnoundo
      then Some ((- 1, cookie), self, w, picotm_error_set_revocable error)
      else do {
        (offset, self, w, error) \<leftarrow> regfile_tx_get_file_offset sys self fildes w error;
        if picotm_error_is_set error then Some ((- 1, cookie), self, w, error)
        else do {
          (_, self, w, error) \<leftarrow> on_seekbuf_tx self (\<lambda>sb. seekbuf_tx_try_wrlock_region sys sb nbyte offset w error);
          if picotm_error_is_set error then Some ((- 1, cookie), self, w, error)
          else do {
            ((len, cookie), self, w, error) \<leftarrow>
               write_or_buffer sys do_pwrite_and_lseek self fildes buf nbyte offset cookie w error;
            if picotm_error_is_set error then Some ((len, cookie), self, w, error)
            else do {
              (_, self, w, error) \<leftarrow> regfile_tx_set_file_offset sys self (offset + len) w error;
              if picotm_error_is_set error then Some ((- 1, cookie), self, w, error)
              else extend_file_size sys self fildes offset len cookie w error
            }
          }
        }
      })"

definition regfile_tx_op_write_apply ::
  "('o, 'a) file_sys \<Rightarrow> regfile_tx \<Rightarrow> u32 \<Rightarrow> u32 \<Rightarrow> ('o, 'a) file_world \<Rightarrow> picotm_error \<Rightarrow>
   (('o, 'a) file_world \<times> picotm_error) option"
where
  "regfile_tx_op_write_apply sys self fildes cookie w error =
     (let sb = rf_seekbuf_tx self; op = writeset_op sb cookie in
      if sb_wrmode sb \<noteq> PICOTM_LIBC_WRITE_BACK then Some (w, error)
      else do {
        (_, w, error) \<leftarrow> do_pwrite_and_lseek sys fildes (drop (unat (io_bufoff op)) (block_of (sb_wrbuf sb))) (io_nbyte op)
           (io_off op) w error;
        Some (w, error)
      })"

end
