(* ===== verification/Fildes_Tables.thy ===== *)
theory Fildes_Tables
  imports Fildes_Regfile
begin

text \<open>
  The growing tables of a transaction on a file.  All of them grow through \<open>tabresize\<close>, in one of two ways:
  with an allocation size of their own (I/O operations, regions), or by their length (seek and mode
  operations, the bytes of the write buffer).  Both are shown once, for elements of any size: the elements are
  kept, the new one is added at the end, and an error leaves the table as it was.
\<close>

abbreviation in_use :: "'e list option \<Rightarrow> u64 \<Rightarrow> 'e list" where
  "in_use tab n \<equiv> take (unat n) (block_of tab)"

subsection \<open>The two ways of growing\<close>

definition table_push ::
  "('e list, 'a) allocator \<Rightarrow> u64 \<Rightarrow> 'e \<Rightarrow> 'e list option \<Rightarrow> u64 \<Rightarrow> u64 \<Rightarrow> 'a heap_env \<Rightarrow> picotm_error \<Rightarrow>
   u64 \<times> 'e list option \<times> u64 \<times> u64 \<times> 'a heap_env \<times> picotm_error"
where
  "table_push realloc elsize x tab nelems siz env error =
     (let put = (\<lambda>tab siz env error. (nelems, map_option (\<lambda>t. t[unat nelems := x]) tab, nelems + 1, siz, env, error))
      in if nelems \<ge> siz then
           (let (lowmem, a, errno, tmp, error) =
                  tabresize realloc (he_lowmem env) (he_alloc env) (he_errno env) tab siz (siz + 1) elsize error;
                env = \<lparr>he_alloc = a, he_errno = errno, he_lowmem = lowmem\<rparr>
            in if picotm_error_is_set error then (- 1, tab, nelems, siz, env, error)
               else put tmp (siz + 1) env error)
         else put tab siz env error)"

definition table_grow_push ::
  "('e list, 'a) allocator \<Rightarrow> u64 \<Rightarrow> 'e \<Rightarrow> 'e list option \<Rightarrow> u64 \<Rightarrow> 'a heap_env \<Rightarrow> picotm_error \<Rightarrow>
   u64 \<times> 'e list option \<times> u64 \<times> 'a heap_env \<times> picotm_error"
where
  "table_grow_push realloc elsize x tab nelems env error =
     (let (lowmem, a, errno, tmp, error) =
            tabresize realloc (he_lowmem env) (he_alloc env) (he_errno env) tab nelems (nelems + 1) elsize error;
          env = \<lparr>he_alloc = a, he_errno = errno, he_lowmem = lowmem\<rparr>
      in if picotm_error_is_set error then (- 1, tab, nelems, env, error)
         else (nelems, map_option (\<lambda>t. t[unat nelems := x]) tmp, nelems + 1, env, error))"

lemma table_push_full:
  "table_push realloc elsize x tab n n env e =
     (case table_grow_push realloc elsize x tab n env e of (pos, tab', n', env', e') \<Rightarrow> (pos, tab', n', n', env', e'))"
  by (simp add: table_push_def table_grow_push_def Let_def split: prod.splits)

lemma file_tables:
  "iooptab_append realloc tab nelems siz nbyte offset bufoff env error =
     table_push realloc 24 (ioop_init offset nbyte bufoff) tab nelems siz env error"
  "regiontab_append realloc' tab' nelems siz nbyte offset env error =
     table_push realloc' 16 (region_init nbyte offset) tab' nelems siz env error"
  "seekoptab_append realloc2 tab2 nelems from offset whence env error =
     table_grow_push realloc2 24 (seekop_init from offset whence) tab2 nelems env error"
  "fchmodoptab_append realloc3 tab3 nelems mode old_mode env error =
     table_grow_push realloc3 8 (fchmodop_init mode old_mode) tab3 nelems env error"
  by (simp_all add: iooptab_append_def regiontab_append_def seekoptab_append_def fchmodoptab_append_def
      table_push_def table_grow_push_def sizeof_ioop_def sizeof_region_def sizeof_seekop_def sizeof_fchmodop_def)

text \<open>A table of \<open>n\<close> elements with room for \<open>siz\<close>, at most \<open>2 ^ k\<close>.\<close>

definition tab_ok :: "nat \<Rightarrow> bool \<Rightarrow> 'e list option \<Rightarrow> u64 \<Rightarrow> u64 \<Rightarrow> bool" where
  "tab_ok k lowmem tab n siz \<longleftrightarrow> unat n \<le> unat siz \<and> unat siz \<le> 2 ^ k \<and> k \<le> 63 \<and> block_fits lowmem tab siz"

lemma tab_ok_lowmem: "tab_ok k lm tab n siz \<Longrightarrow> lm' = lm \<or> lm' \<Longrightarrow> tab_ok k lm' tab n siz"
proof -
  assume t: "tab_ok k lm tab n siz" and l: "lm' = lm \<or> lm'"
  then have "unat siz \<le> 2 ^ k" "k \<le> 63" by (simp_all add: tab_ok_def)
  then have "unat siz \<le> 2 ^ 63" using power_increasing [of k 63 "2 :: nat"] by simp
  with t l show ?thesis using block_fits_mono [of lm tab siz lm'] by (simp add: tab_ok_def)
qed

lemma tab_ok_empty: "k \<le> 63 \<Longrightarrow> tab_ok k lm tab 0 0"
  by (simp add: tab_ok_def block_fits_def rndpow2_0)

lemma tab_ok_clear: "tab_ok k lm tab n siz \<Longrightarrow> tab_ok k lm tab 0 siz"
  by (simp add: tab_ok_def)

lemma tab_ok_length: "tab_ok k lm tab n siz \<Longrightarrow> length (in_use tab n) = unat n"
proof -
  assume t: "tab_ok k lm tab n siz"
  then have "unat siz \<le> 2 ^ k" "k \<le> 63" by (simp_all add: tab_ok_def)
  then have "unat siz \<le> 2 ^ 63" using power_increasing [of k 63 "2 :: nat"] by simp
  then have "unat siz \<le> length (block_of tab)" using t block_fits_length by (auto simp: tab_ok_def)
  then show ?thesis using t by (simp add: tab_ok_def)
qed

lemma tabresize_error:
  "tabresize realloc lm a errno b n m s e = (lm', a', en, mem, e') \<Longrightarrow> \<not> picotm_error_is_set e' \<Longrightarrow> e' = e"
  by (auto simp: tabresize_def Let_def errno_set split: prod.splits if_splits)

text \<open>The result of a step that may add an element to a table.\<close>

definition pushed :: "bool \<Rightarrow> 'e list option \<Rightarrow> u64 \<Rightarrow> 'e \<Rightarrow> u64 \<Rightarrow> 'e list option \<Rightarrow> u64 \<Rightarrow> picotm_error \<Rightarrow> picotm_error \<Rightarrow> bool" where
  "pushed failed tab n x pos tab' n' e e' \<longleftrightarrow>
     (if failed then picotm_error_is_set e' \<and> pos = - 1 \<and> tab' = tab \<and> n' = n
      else e' = e \<and> pos = n \<and> unat n' = Suc (unat n) \<and> in_use tab' n' = in_use tab n @ [x])"

lemma pushedD:
  assumes "pushed failed tab n x pos tab' n' e e'"
  shows "in_use tab' n' = in_use tab n @ (if failed then [] else [x])" and "unat n' \<le> Suc (unat n)"
    and "\<not> failed \<Longrightarrow> pos = n"
  using assms by (cases failed; auto simp: pushed_def)+

context element_size begin

lemma grown_table:
  assumes "realloc_keeps (unat s) realloc" and "unat n < 2 ^ k" and "block_fits lm tab n"
    and "tabresize realloc lm a errno tab n (n + 1) s e = (lm', a', en, mem, e')" and "\<not> picotm_error_is_set e'"
  shows "unat (n + 1) = Suc (unat n)" and "block_fits lm' mem (n + 1)" and "in_use mem n = in_use tab n"
    and "\<exists>t. mem = Some t \<and> unat n < length t"
proof -
  have le: "(2 :: nat) ^ k \<le> 2 ^ 63" using exp_bound by (rule power_increasing) simp
  show n1: "unat (n + 1) = Suc (unat n)"
    using assms(2) le by (subst unat_add_lem [THEN iffD1]) simp_all
  then have "n + 1 \<noteq> 0" by (metis nat.distinct(1) unat_0)
  from tabresize_keeps [OF assms(1,4,5) this _ _ assms(3)] n1 assms(2)
  have r: "(\<exists>t. mem = Some t) \<and> block_fits lm' mem (n + 1) \<and> in_use mem n = in_use tab n" by simp
  then show "block_fits lm' mem (n + 1)" "in_use mem n = in_use tab n" by blast+
  have "unat (n + 1) \<le> 2 ^ 63" using n1 assms(2) le by linarith
  with r have "unat (n + 1) \<le> length (block_of mem)" using block_fits_length by blast
  then show "\<exists>t. mem = Some t \<and> unat n < length t" using r n1 by auto
qed

lemma put_at_end:
  assumes "unat n < length t" and "unat (n + 1) = Suc (unat n)"
  shows "in_use (Some (t[unat n := x])) (n + 1) = take (unat n) t @ [x]"
  using assms by (simp add: take_Suc_conv_app_nth)

lemma put_fits: "block_fits lm (Some (t[i := x])) siz = block_fits lm (Some t) siz"
  by (simp add: block_fits_def)

lemma push_spec:
  assumes "realloc_keeps (unat s) realloc" and "\<not> picotm_error_is_set e"
    and "tab_ok k (he_lowmem env) tab n siz" and "unat n < 2 ^ k"
    and "table_push realloc s x tab n siz env e = (pos, tab', n', siz', env', e')"
  shows "(he_lowmem env' = he_lowmem env \<or> he_lowmem env') \<and> tab_ok k (he_lowmem env') tab' n' siz' \<and>
    pushed (picotm_error_is_set e') tab n x pos tab' n' e e'"
proof (cases "n \<ge> siz")
  case True
  then have "n = siz" using assms(3) by (simp add: tab_ok_def word_le_nat_alt word_unat_eq_iff)
  obtain lm' a' en mem e2 where r: "tabresize realloc (he_lowmem env) (he_alloc env) (he_errno env) tab n (n + 1) s e =
      (lm', a', en, mem, e2)" by (rule prod_cases5)
  have low: "lm' = he_lowmem env \<or> lm'" by (rule tabresize_lowmem [OF r])
  show ?thesis
  proof (cases "picotm_error_is_set e2")
    case True
    then show ?thesis using assms(3,5) r low tab_ok_lowmem [OF assms(3) low] \<open>n = siz\<close>
      by (auto simp: table_push_def pushed_def)
  next
    case False
    note g = grown_table [OF assms(1,4) _ r False]
    have fits: "block_fits (he_lowmem env) tab n" using assms(3) \<open>n = siz\<close> by (simp add: tab_ok_def)
    obtain t where t: "mem = Some t" "unat n < length t" using g(4) [OF fits] by blast
    have "e2 = e" by (rule tabresize_error [OF r False])
    moreover have "unat (n + 1) \<le> 2 ^ k" using g(1) [OF fits] assms(4) by simp
    ultimately show ?thesis
      using assms(2,5) r low \<open>n = siz\<close> t g(1-3) [OF fits] put_at_end [OF t(2) g(1) [OF fits]] exp_bound
      by (auto simp: table_push_def pushed_def tab_ok_def put_fits)
  qed
next
  case False
  then have lt: "unat n < unat siz" by (simp add: word_le_nat_alt)
  have t: "length (block_of tab) \<ge> unat siz"
    using assms(3) bound_63 block_fits_length by (auto simp: tab_ok_def)
  then obtain b where b: "tab = Some b" using lt by (cases tab) auto
  have "(2 :: nat) ^ k \<le> 2 ^ 63" using exp_bound by (rule power_increasing) simp
  then have n1: "unat (n + 1) = Suc (unat n)"
    using assms(4) by (subst unat_add_lem [THEN iffD1]) simp_all
  show ?thesis
    using False assms(2,3,5) b lt t n1 put_at_end [of n b x]
    by (auto simp: table_push_def pushed_def tab_ok_def put_fits)
qed

lemma grow_push_spec:
  assumes "realloc_keeps (unat s) realloc" and "\<not> picotm_error_is_set e"
    and "tab_ok k (he_lowmem env) tab n n" and "unat n < 2 ^ k"
    and "table_grow_push realloc s x tab n env e = (pos, tab', n', env', e')"
  shows "(he_lowmem env' = he_lowmem env \<or> he_lowmem env') \<and> tab_ok k (he_lowmem env') tab' n' n' \<and>
    pushed (picotm_error_is_set e') tab n x pos tab' n' e e'"
  using push_spec [OF assms(1-4) table_push_full [of realloc s x tab n env e, unfolded assms(5) prod.case]] .

end

text \<open>
  I/O and seek operations have 24 bytes, mode operations 8; regions have 16 like the events of
  \<open>Picotm_Log\<close>, whose interpretation \<open>event_size\<close> serves both.
\<close>

interpretation ioop_size: element_size 24 58 by unfold_locales simp_all
interpretation fchmodop_size: element_size 8 60 by unfold_locales simp_all
interpretation byte_size: element_size 1 63 by unfold_locales simp_all

end
