(* ===== verification/Fildes_Os_Spec.thy ===== *)
theory Fildes_Os_Spec
  imports Fildes_Os
begin

text \<open>
  What regular files promise to the loops of \<open>Fildes_Os\<close>, and what the loops then do: reading returns the
  bytes of the file, writing puts them there, in as many pieces as the kernel likes, and an interrupted
  call is repeated until it is not.
\<close>

subsection \<open>Files as lists of bytes\<close>

text \<open>Writing behind the end of a file fills the gap with zeros; writing nothing does not extend it.\<close>

definition write_at :: "nat \<Rightarrow> u8 list \<Rightarrow> u8 list \<Rightarrow> u8 list" where
  "write_at off bs f =
     (if bs = [] then f
      else take off f @ replicate (off - length f) 0 @ bs @ drop (off + length bs) f)"

lemma write_at_Nil [simp]: "write_at off [] f = f"
  by (simp add: write_at_def)

lemma length_write_at: "length (write_at off bs f) = (if bs = [] then length f else max (length f) (off + length bs))"
  by (auto simp: write_at_def max_def min_def)

lemma nth_write_at:
  "i < length (write_at off bs f) \<Longrightarrow>
   write_at off bs f ! i = (if off \<le> i \<and> i < off + length bs then bs ! (i - off) else if i < length f then f ! i else 0)"
  by (auto simp: write_at_def nth_append min_def split: if_splits)

lemma write_at_append: "write_at (off + length bs) cs (write_at off bs f) = write_at off (bs @ cs) f"
proof (cases "bs = [] \<or> cs = []")
  case False
  then show ?thesis by (intro nth_equalityI) (auto simp: length_write_at nth_write_at nth_append)
qed auto

subsection \<open>What the calls promise\<close>

text \<open>
  A view of the operating system's state: the contents of the file, the offset of its descriptor, and a
  bound on the number of interrupts, and of writes of nothing, that are still to come.
\<close>

record 'o file_view =
  vw_content :: "'o \<Rightarrow> u8 list"
  vw_position :: "'o \<Rightarrow> nat"
  vw_patience :: "'o \<Rightarrow> nat"

definition same_file :: "'o file_view \<Rightarrow> 'o \<Rightarrow> 'o \<Rightarrow> bool" where
  "same_file v os os' \<longleftrightarrow> vw_content v os' = vw_content v os \<and> vw_position v os' = vw_position v os"

definition failed_call :: "'o file_view \<Rightarrow> int \<Rightarrow> 'o \<Rightarrow> 'o \<Rightarrow> bool" where
  "failed_call v en os os' \<longleftrightarrow> same_file v os os' \<and> (en = EINTR \<longrightarrow> vw_patience v os' < vw_patience v os)"

definition preads_file :: "('o, 'a) file_sys \<Rightarrow> u32 \<Rightarrow> 'o file_view \<Rightarrow> bool" where
  "preads_file sys fd v \<longleftrightarrow> (\<forall>n off os res bytes en os'. sys_pread sys fd n off os = (res, bytes, en, os') \<longrightarrow>
     (if res <s 0 then failed_call v en os os'
      else same_file v os os' \<and> unat res \<le> unat n \<and> bytes = take (unat res) (drop (unat off) (vw_content v os)) \<and>
        length bytes = unat res \<and> (res = 0 \<longrightarrow> n = 0 \<or> length (vw_content v os) \<le> unat off)))"

definition pwrites_file :: "('o, 'a) file_sys \<Rightarrow> u32 \<Rightarrow> 'o file_view \<Rightarrow> bool" where
  "pwrites_file sys fd v \<longleftrightarrow> (\<forall>bs off os res en os'. sys_pwrite sys fd bs off os = (res, (), en, os') \<longrightarrow>
     (if res <s 0 then failed_call v en os os'
      else unat res \<le> length bs \<and> vw_content v os' = write_at (unat off) (take (unat res) bs) (vw_content v os) \<and>
        vw_position v os' = vw_position v os \<and>
        (res = 0 \<longrightarrow> bs \<noteq> [] \<longrightarrow> vw_patience v os' < vw_patience v os)))"

definition stats_file :: "('o, 'a) file_sys \<Rightarrow> u32 \<Rightarrow> 'o file_view \<Rightarrow> bool" where
  "stats_file sys fd v \<longleftrightarrow> (\<forall>os res st en os'. sys_fstat sys fd os = (res, st, en, os') \<longrightarrow>
     same_file v os os' \<and> (\<not> res <s 0 \<longrightarrow> unat (st_size st) = length (vw_content v os)))"

text \<open>The offset that a seek asks for.\<close>

definition seek_target :: "nat \<Rightarrow> nat \<Rightarrow> u64 \<Rightarrow> u32 \<Rightarrow> int option" where
  "seek_target siz pos off whence =
     (if whence = SEEK_SET then Some (sint off)
      else if whence = SEEK_CUR then Some (int pos + sint off)
      else if whence = SEEK_END then Some (int siz + sint off)
      else None)"

definition seekable :: "int option \<Rightarrow> bool" where
  "seekable target \<longleftrightarrow> (\<exists>i. target = Some i \<and> 0 \<le> i \<and> i < 2 ^ 63)"

definition seeks_file :: "('o, 'a) file_sys \<Rightarrow> u32 \<Rightarrow> 'o file_view \<Rightarrow> bool" where
  "seeks_file sys fd v \<longleftrightarrow> (\<forall>off whence os res en os'. sys_lseek sys fd off whence os = (res, (), en, os') \<longrightarrow>
     vw_content v os' = vw_content v os \<and>
     (if res = - 1 then vw_position v os' = vw_position v os
      else unat res < 2 ^ 63 \<and> vw_position v os' = unat res \<and>
        seek_target (length (vw_content v os)) (vw_position v os) off whence = Some (int (unat res))))"

text \<open>
  Reading and writing fail with an interrupt only, and seeking only if there is no such offset.
\<close>

definition reliable_file :: "('o, 'a) file_sys \<Rightarrow> u32 \<Rightarrow> bool" where
  "reliable_file sys fd \<longleftrightarrow>
     (\<forall>n off os res bytes en os'. sys_pread sys fd n off os = (res, bytes, en, os') \<longrightarrow> res <s 0 \<longrightarrow> en = EINTR) \<and>
     (\<forall>bs off os res en os'. sys_pwrite sys fd bs off os = (res, (), en, os') \<longrightarrow> res <s 0 \<longrightarrow> en = EINTR)"

definition reliable_seeks :: "('o, 'a) file_sys \<Rightarrow> u32 \<Rightarrow> 'o file_view \<Rightarrow> bool" where
  "reliable_seeks sys fd v \<longleftrightarrow> (\<forall>off whence os.
     seekable (seek_target (length (vw_content v os)) (vw_position v os) off whence) \<longrightarrow>
     fst (sys_lseek sys fd off whence os) \<noteq> - 1)"

definition regular_file :: "('o, 'a) file_sys \<Rightarrow> u32 \<Rightarrow> 'o file_view \<Rightarrow> bool" where
  "regular_file sys fd v \<longleftrightarrow> preads_file sys fd v \<and> pwrites_file sys fd v \<and> stats_file sys fd v \<and> seeks_file sys fd v"

subsection \<open>Changes of the environment only\<close>

text \<open>Regions that differ in \<open>errno\<close> only.\<close>

definition same_regions :: "'a regions \<Rightarrow> 'a regions \<Rightarrow> bool" where
  "same_regions r r' \<longleftrightarrow> rg_counters r' = rg_counters r \<and> rg_locks r' = rg_locks r \<and>
     ph_pages (rg_heap r') = ph_pages (rg_heap r) \<and>
     he_alloc (ph_env (rg_heap r')) = he_alloc (ph_env (rg_heap r))"

definition os_only :: "('o, 'a) file_world \<Rightarrow> ('o, 'a) file_world \<Rightarrow> bool" where
  "os_only w w' \<longleftrightarrow> same_regions (fw_regions w) (fw_regions w') \<and>
     fw_lowmem w' = fw_lowmem w \<and> fw_seekbuf_rwlock w' = fw_seekbuf_rwlock w \<and> fw_regfile_rwlock w' = fw_regfile_rwlock w"

lemma os_only_refl [simp]: "os_only w w"
  by (simp add: os_only_def same_regions_def)

lemma os_only_trans: "os_only w w1 \<Longrightarrow> os_only w1 w2 \<Longrightarrow> os_only w w2"
  by (simp add: os_only_def same_regions_def)

lemma os_do_only: "os_do call w = (res, r, w') \<Longrightarrow> os_only w w'"
  by (auto simp: os_do_def os_only_def same_regions_def put_env_def world_env_def split: prod.splits if_splits)

lemma os_do_os: "os_do call w = (res, r, w') \<Longrightarrow>
   \<exists>en. call (fw_os w) = (res, r, en, fw_os w') \<and> (res <s 0 \<longrightarrow> errno_of w' = en)"
  by (auto simp: os_do_def errno_of_def put_env_def world_env_def split: prod.splits)

subsection \<open>The loop around interrupted calls\<close>

text \<open>
  If interrupts end, a repeated call answers as one call would, in a state with the same property \<open>P\<close> that
  interrupted calls keep.
\<close>

lemma temp_failure_retry_ends:
  assumes "P w"
    and "\<And>w res r w'. P w \<Longrightarrow> expr w = (res, r, w') \<Longrightarrow> res <s 0 \<Longrightarrow> errno_of w' = EINTR \<Longrightarrow>
           P w' \<and> (m w' :: nat) < m w"
  shows "\<exists>w0 res r w'. P w0 \<and> m w0 \<le> m w \<and> expr w0 = (res, r, w') \<and> \<not> (res <s 0 \<and> errno_of w' = EINTR) \<and>
    temp_failure_retry expr w = Some (res, r, w')"
  using assms(1)
proof (induction "m w" arbitrary: w rule: less_induct)
  case less
  obtain res r w' where r: "expr w = (res, r, w')" by (rule prod_cases3)
  show ?case
  proof (cases "res <s 0 \<and> errno_of w' = EINTR")
    case True
    then have "P w'" "m w' < m w" using assms(2) [OF less.prems r] by auto
    then obtain w0 res' r' w2 where "P w0" "m w0 \<le> m w'" "expr w0 = (res', r', w2)" "\<not> (res' <s 0 \<and> errno_of w2 = EINTR)"
        "temp_failure_retry expr w' = Some (res', r', w2)" using less.hyps [of w'] by blast
    moreover have "temp_failure_retry expr w = temp_failure_retry expr w'"
      using True by (subst temp_failure_retry.simps) (simp add: r)
    ultimately show ?thesis using \<open>m w' < m w\<close> by (metis less_or_eq_imp_le order_trans)
  next
    case False
    then have "temp_failure_retry expr w = Some (res, r, w')"
      by (subst temp_failure_retry.simps) (auto simp: r)
    with less.prems r False show ?thesis by blast
  qed
qed

text \<open>A call of the kernel that is repeated keeps the file, and answers as it promises.\<close>

lemma retry_file_call:
  assumes "\<forall>os res r en os'. call os = (res, r, en, os') \<longrightarrow> res <s 0 \<longrightarrow> failed_call v en os os'"
  shows "\<exists>os res r w'. temp_failure_retry (os_do call) w = Some (res, r, w') \<and> same_file v (fw_os w) os \<and>
    vw_patience v os \<le> vw_patience v (fw_os w) \<and> os_only w w' \<and>
    (\<exists>en. call os = (res, r, en, fw_os w') \<and> (res <s 0 \<longrightarrow> en \<noteq> EINTR \<and> errno_of w' = en))"
proof -
  define P where "P w0 \<longleftrightarrow> same_file v (fw_os w) (fw_os w0) \<and> os_only w w0" for w0
  have "P w" by (simp add: P_def same_file_def)
  moreover have "P w2 \<and> vw_patience v (fw_os w2) < vw_patience v (fw_os w1)"
    if p: "P w1" and d: "os_do call w1 = (res, r, w2)" and neg: "res <s 0" and int: "errno_of w2 = EINTR" for w1 res r w2
  proof -
    obtain en where "call (fw_os w1) = (res, r, en, fw_os w2)" "errno_of w2 = en"
      using os_do_os [OF d] neg by blast
    then have "failed_call v EINTR (fw_os w1) (fw_os w2)" using assms neg int by metis
    with p os_do_only [OF d] show ?thesis
      by (auto simp: failed_call_def P_def same_file_def intro: os_only_trans)
  qed
  ultimately obtain w0 res r w' where r: "P w0" "vw_patience v (fw_os w0) \<le> vw_patience v (fw_os w)" "os_do call w0 = (res, r, w')"
      "\<not> (res <s 0 \<and> errno_of w' = EINTR)" "temp_failure_retry (os_do call) w = Some (res, r, w')"
    using temp_failure_retry_ends [of P w "os_do call" "\<lambda>w. vw_patience v (fw_os w)"] by blast
  have "os_only w w'" using r(1) os_do_only [OF r(3)] os_only_trans by (auto simp: P_def)
  moreover have "\<exists>en. call (fw_os w0) = (res, r, en, fw_os w') \<and> (res <s 0 \<longrightarrow> en \<noteq> EINTR \<and> errno_of w' = en)"
    using r(4) os_do_os [OF r(3)] by metis
  ultimately show ?thesis using r(1,2,5) unfolding P_def by blast
qed

subsection \<open>Reading\<close>

text \<open>
  Reading \<open>n\<close> bytes from \<open>off\<close> puts the first \<open>k\<close> bytes of the file's range into the buffer and leaves its rest;
  it reads up to the end of the range or of the file unless a call fails, and fails itself only if the
  first call does.
\<close>

definition file_bytes :: "nat \<Rightarrow> nat \<Rightarrow> u8 list \<Rightarrow> u8 list" where
  "file_bytes n off f = take n (drop off f)"

definition pread_result ::
  "bool \<Rightarrow> u8 list \<Rightarrow> nat \<Rightarrow> nat \<Rightarrow> u8 list \<Rightarrow> picotm_error \<Rightarrow> u64 \<Rightarrow> u8 list \<Rightarrow> picotm_error \<Rightarrow> bool"
where
  "pread_result reliable f off n buf e len buf' e' \<longleftrightarrow>
     (\<exists>bs. bs = file_bytes (length bs) off f \<and> length bs \<le> n \<and> buf' = bs @ drop (length bs) buf \<and>
       (reliable \<longrightarrow> bs = file_bytes n off f) \<and>
       (e' = e \<and> unat len = length bs \<or>
        \<not> reliable \<and> bs = [] \<and> len <s 0 \<and> (e' = e \<and> len = - 1 \<or> (\<exists>en. e' = picotm_error_set_errno e en))))"

lemma file_bytes_append: "file_bytes (m + n) off f = file_bytes m off f @ file_bytes n (off + m) f"
  by (simp add: file_bytes_def take_add add.commute)

lemma file_bytes_all: "length f \<le> off + m \<Longrightarrow> m \<le> n \<Longrightarrow> file_bytes n off f = file_bytes m off f"
  by (simp add: file_bytes_def)

lemma file_bytes_length: "length (file_bytes n off f) = min n (length f - off)"
  by (simp add: file_bytes_def min.commute)

lemma memcpy_at_append: "length xs = p \<Longrightarrow> memcpy_at p bs (xs @ drop p buf) = (xs @ bs) @ drop (p + length bs) buf"
  by (simp add: memcpy_at_def add.commute)

lemma unat_minus_le: "unat y \<le> unat x \<Longrightarrow> unat (x - y) = unat x - unat y" for x :: u64
  by (simp add: unat_sub word_le_nat_alt)

lemma unat_add_small: "unat x + unat y < 2 ^ 63 \<Longrightarrow> unat (x + y) = unat x + unat y" for x :: u64
  by (subst unat_add_lem [THEN iffD1]) simp_all

lemma do_pread_loop_spec:
  assumes "preads_file sys fd v" and "range_ok off n" and "unat pos \<le> unat n"
    and "length (file_bytes (unat pos) (unat off) (vw_content v (fw_os w))) = unat pos"
  shows "\<exists>len buf' w' e'. do_pread_loop sys fd pos n (off + pos)
      (file_bytes (unat pos) (unat off) (vw_content v (fw_os w)) @ drop (unat pos) buf) w e = Some (len, buf', w', e') \<and>
    pread_result (reliable_file sys fd) (vw_content v (fw_os w)) (unat off) (unat n) buf e len buf' e' \<and>
    same_file v (fw_os w) (fw_os w') \<and> os_only w w'"
  using assms(3,4)
proof (induction "unat n - unat pos" arbitrary: pos w rule: less_induct)
  case less
  define f where "f = vw_content v (fw_os w)"
  let ?done = "file_bytes (unat pos) (unat off) f"
  let ?buf = "?done @ drop (unat pos) buf"
  have range: "unat off + unat n < 2 ^ 63" using assms(2) by (simp add: range_ok_def)
  have len: "length ?done = unat pos" using less.prems(2) by (simp add: f_def)
  have here: "unat (off + pos) = unat off + unat pos"
    by (rule unat_add_small) (use range less.prems(1) in linarith)
  note simp = do_pread_loop.simps [of sys fd pos n "off + pos" ?buf w e]
  show ?case
  proof (cases "pos < n")
    case False
    then have "pos = n" using less.prems(1) by (simp add: word_less_nat_alt word_unat_eq_iff)
    then have "pread_result (reliable_file sys fd) f (unat off) (unat n) buf e pos ?buf e"
      unfolding pread_result_def using len by (intro exI [of _ ?done]) simp
    then show ?thesis using False unfolding f_def [symmetric] by (simp add: simp same_file_def)
  next
    case True
    have rest: "unat (n - pos) = unat n - unat pos" by (rule unat_minus_le) (rule less.prems(1))
    have fails: "\<forall>os res r en os'. sys_pread sys fd (n - pos) (off + pos) os = (res, r, en, os') \<longrightarrow> res <s 0 \<longrightarrow>
        failed_call v en os os'"
      using assms(1) unfolding preads_file_def by metis
    obtain os res r w1 en where r: "temp_failure_retry (os_do (sys_pread sys fd (n - pos) (off + pos))) w = Some (res, r, w1)"
      and os: "same_file v (fw_os w) os" "os_only w w1"
      and call: "sys_pread sys fd (n - pos) (off + pos) os = (res, r, en, fw_os w1)"
        "res <s 0 \<longrightarrow> en \<noteq> EINTR \<and> errno_of w1 = en"
      using retry_file_call [OF fails, of w] by blast
    have f: "vw_content v os = f" using os(1) by (simp add: same_file_def f_def)
    show ?thesis
    proof (cases "res <s 0")
      case neg: True
      have "failed_call v en os (fw_os w1)" using fails call(1) neg by blast
      then have same: "same_file v (fw_os w) (fw_os w1)" using os(1) by (simp add: failed_call_def same_file_def)
      have unrel: "\<not> reliable_file sys fd" using call neg unfolding reliable_file_def by metis
      let ?res = "if pos \<noteq> 0 then (pos, ?buf, w1, e) else if errno_signals_blocking_io (errno_of w1) then (- 1, ?buf, w1, e)
          else (res, ?buf, w1, picotm_error_set_errno e (errno_of w1))"
      have go: "do_pread_loop sys fd pos n (off + pos) ?buf w e = Some ?res"
        using True r neg by (simp add: simp)
      have m1: "(- 1 :: u64) <s 0" by simp
      have pos0: "?done = []" "?buf = buf" if "pos = 0" using that by (simp_all add: file_bytes_def)
      have "pread_result (reliable_file sys fd) f (unat off) (unat n) buf e (fst ?res) (fst (snd ?res)) (snd (snd (snd ?res)))"
        unfolding pread_result_def
      proof (intro exI conjI)
        show "?done = file_bytes (length ?done) (unat off) f" using len by simp
        show "length ?done \<le> unat n" using len less.prems(1) by simp
        show "fst (snd ?res) = ?done @ drop (length ?done) buf" using len by simp
        show "reliable_file sys fd \<longrightarrow> ?done = file_bytes (unat n) (unat off) f" using unrel by blast
        show "snd (snd (snd ?res)) = e \<and> unat (fst ?res) = length ?done \<or>
          \<not> reliable_file sys fd \<and> ?done = [] \<and> fst ?res <s 0 \<and>
          (snd (snd (snd ?res)) = e \<and> fst ?res = - 1 \<or> (\<exists>en. snd (snd (snd ?res)) = picotm_error_set_errno e en))"
          using unrel len pos0(1) neg m1 by auto
      qed
      then show ?thesis unfolding f_def [symmetric] go using same os(2) by (cases "pos \<noteq> 0") auto
    next
      case pos: False
      have "\<forall>n off os res bytes en os'. sys_pread sys fd n off os = (res, bytes, en, os') \<longrightarrow> \<not> res <s 0 \<longrightarrow>
          same_file v os os' \<and> unat res \<le> unat n \<and> bytes = take (unat res) (drop (unat off) (vw_content v os)) \<and>
          length bytes = unat res \<and> (res = 0 \<longrightarrow> n = 0 \<or> length (vw_content v os) \<le> unat off)"
        using assms(1) unfolding preads_file_def by (metis (full_types))
      from this [rule_format, OF call(1) pos]
      have a: "same_file v os (fw_os w1)" "unat res \<le> unat n - unat pos" "r = file_bytes (unat res) (unat off + unat pos) f"
          "length r = unat res" "res = 0 \<longrightarrow> n - pos = 0 \<or> length f \<le> unat off + unat pos"
        unfolding rest here f file_bytes_def by blast+
      have same: "same_file v (fw_os w) (fw_os w1)" using os(1) a(1) by (simp add: same_file_def)
      then have f1: "vw_content v (fw_os w1) = f" by (simp add: same_file_def f_def)
      show ?thesis
      proof (cases "res = 0")
        case eof: True
        have "length f \<le> unat off + unat pos" using a(5) eof True rest by (auto simp: word_less_nat_alt)
        then have "file_bytes (unat n) (unat off) f = ?done" by (rule file_bytes_all) (rule less.prems(1))
        then have "pread_result (reliable_file sys fd) f (unat off) (unat n) buf e pos ?buf e"
          unfolding pread_result_def using len less.prems(1) by (intro exI [of _ ?done]) simp
        moreover have "do_pread_loop sys fd pos n (off + pos) ?buf w e = Some (pos, ?buf, w1, e)"
          using True r eof by (simp add: simp)
        ultimately show ?thesis unfolding f_def [symmetric] using same os(2) by auto
      next
        case more: False
        have sum: "unat (pos + res) = unat pos + unat res"
          by (rule unat_add_small) (use a(2) range less.prems(1) in linarith)
        have next': "file_bytes (unat (pos + res)) (unat off) f = ?done @ r"
          unfolding sum file_bytes_append a(3) ..
        have "0 < unat res" using more by (simp add: unat_gt_0)
        then have "unat n - unat (pos + res) < unat n - unat pos" "unat (pos + res) \<le> unat n"
          unfolding sum using a(2) True by (simp_all add: word_less_nat_alt)
        moreover have "length (file_bytes (unat (pos + res)) (unat off) (vw_content v (fw_os w1))) = unat (pos + res)"
          unfolding f1 next' using len a(4) sum by simp
        ultimately obtain l b w' e' where IH: "do_pread_loop sys fd (pos + res) n (off + (pos + res))
            (file_bytes (unat (pos + res)) (unat off) f @ drop (unat (pos + res)) buf) w1 e = Some (l, b, w', e')"
            "pread_result (reliable_file sys fd) f (unat off) (unat n) buf e l b e'"
            "same_file v (fw_os w1) (fw_os w')" "os_only w1 w'"
          using less.hyps [of "pos + res" w1] unfolding f1 by blast
        have "memcpy_at (unat pos) r ?buf = (?done @ r) @ drop (unat (pos + res)) buf"
          unfolding sum using memcpy_at_append [OF len, of r buf] a(4) by simp
        then have "do_pread_loop sys fd pos n (off + pos) ?buf w e = Some (l, b, w', e')"
          using True r pos more IH(1) unfolding next' by (simp add: simp add.assoc)
        moreover have "same_file v (fw_os w) (fw_os w')" using same IH(3) by (simp add: same_file_def)
        ultimately show ?thesis unfolding f_def [symmetric] using IH(2) os_only_trans [OF os(2) IH(4)] by blast
      qed
    qed
  qed
qed

lemma do_pread_spec:
  assumes "preads_file sys fd v" and "range_ok off n"
  obtains len buf' w' e' where "do_pread sys fd buf n off w e = Some (len, buf', w', e')"
    and "pread_result (reliable_file sys fd) (vw_content v (fw_os w)) (unat off) (unat n) buf e len buf' e'"
    and "same_file v (fw_os w) (fw_os w')" and "os_only w w'"
  using do_pread_loop_spec [OF assms, of 0 w buf e] unfolding do_pread_def by (auto simp: file_bytes_def)

subsection \<open>Writing\<close>

text \<open>
  Writing puts the first \<open>k\<close> bytes of the buffer into the file: all of them unless a call fails.  A failure
  counts as an error only if it is the first call that fails, and if it does not mean that the call would
  have had to wait; otherwise the number of bytes that have been written is returned.
\<close>

definition pwrite_result :: "bool \<Rightarrow> nat \<Rightarrow> nat \<Rightarrow> picotm_error \<Rightarrow> u64 \<Rightarrow> picotm_error \<Rightarrow> bool" where
  "pwrite_result reliable k n e len e' \<longleftrightarrow>
     k \<le> n \<and> (reliable \<longrightarrow> k = n) \<and>
     (e' = e \<and> unat len = k \<or>
      \<not> reliable \<and> k = 0 \<and> len <s 0 \<and> (e' = e \<and> len = - 1 \<or> (\<exists>en. e' = picotm_error_set_errno e en)))"

abbreviation write_order :: "((nat \<times> nat) \<times> (nat \<times> nat)) set" where
  "write_order \<equiv> less_than <*lex*> less_than"

lemma do_pwrite_loop_spec:
  assumes "pwrites_file sys fd v" and "range_ok off n" and "unat n \<le> length buf" and "unat pos \<le> unat n"
    and "vw_content v (fw_os w) = write_at (unat off) (take (unat pos) buf) f"
  shows "\<exists>k len w' e'. do_pwrite_loop sys fd pos buf n (off + pos) w e = Some (len, w', e') \<and>
    pwrite_result (reliable_file sys fd) k (unat n) e len e' \<and>
    vw_content v (fw_os w') = write_at (unat off) (take k buf) f \<and>
    vw_position v (fw_os w') = vw_position v (fw_os w) \<and> os_only w w'"
  using assms(4,5)
proof (induction "(unat n - unat pos, vw_patience v (fw_os w))" arbitrary: pos w
    rule: wf_induct_rule [OF wf_lex_prod [OF wf_less_than wf_less_than]])
  case (1 pos w)
  have range: "unat off + unat n < 2 ^ 63" using assms(2) by (simp add: range_ok_def)
  have here: "unat (off + pos) = unat off + unat pos"
    by (rule unat_add_small) (use range 1(2) in linarith)
  note simp = do_pwrite_loop.simps [of sys fd pos buf n "off + pos" w e]
  show ?case
  proof (cases "pos < n")
    case False
    then have "pos = n" using 1(2) by (simp add: word_less_nat_alt word_unat_eq_iff)
    then have "pwrite_result (reliable_file sys fd) (unat pos) (unat n) e pos e" by (simp add: pwrite_result_def)
    then show ?thesis using False 1(3) by (auto simp: simp)
  next
    case True
    have lt: "unat pos < unat n" using True by (simp add: word_less_nat_alt)
    have rest: "unat (n - pos) = unat n - unat pos" by (rule unat_minus_le) (rule 1(2))
    define bs where "bs = take (unat n - unat pos) (drop (unat pos) buf)"
    have fails: "\<forall>os res r en os'. sys_pwrite sys fd bs (off + pos) os = (res, r, en, os') \<longrightarrow> res <s 0 \<longrightarrow>
        failed_call v en os os'"
      using assms(1) unfolding pwrites_file_def by (metis old.unit.exhaust)
    obtain os res r w1 en where r: "temp_failure_retry (os_do (sys_pwrite sys fd bs (off + pos))) w = Some (res, r, w1)"
      and os: "same_file v (fw_os w) os" "vw_patience v os \<le> vw_patience v (fw_os w)" "os_only w w1"
      and call: "sys_pwrite sys fd bs (off + pos) os = (res, r, en, fw_os w1)"
        "res <s 0 \<longrightarrow> en \<noteq> EINTR \<and> errno_of w1 = en"
      using retry_file_call [OF fails, of w] by blast
    show ?thesis
    proof (cases "res <s 0")
      case neg: True
      have "failed_call v en os (fw_os w1)" using fails call(1) neg by blast
      then have same: "same_file v (fw_os w) (fw_os w1)" using os(1) by (simp add: failed_call_def same_file_def)
      have unrel: "\<not> reliable_file sys fd" using call neg unfolding reliable_file_def by (metis old.unit.exhaust)
      let ?res = "if pos \<noteq> 0 then (pos, w1, e) else if errno_signals_blocking_io (errno_of w1) then (- 1, w1, e)
          else (res, w1, picotm_error_set_errno e (errno_of w1))"
      have go: "do_pwrite_loop sys fd pos buf n (off + pos) w e = Some ?res"
        using True r neg by (simp add: simp rest bs_def)
      have m1: "(- 1 :: u64) <s 0" by simp
      have "pwrite_result (reliable_file sys fd) (unat pos) (unat n) e (fst ?res) (snd (snd ?res))"
        using unrel 1(2) neg m1 by (auto simp: pwrite_result_def)
      moreover have "vw_content v (fw_os w1) = write_at (unat off) (take (unat pos) buf) f"
          "vw_position v (fw_os w1) = vw_position v (fw_os w)"
        using same 1(3) by (simp_all add: same_file_def)
      ultimately show ?thesis unfolding go using os(3) by (cases "pos \<noteq> 0") auto
    next
      case pos: False
      have "\<forall>bs off os res r en os'. sys_pwrite sys fd bs off os = (res, r, en, os') \<longrightarrow> \<not> res <s 0 \<longrightarrow>
          unat res \<le> length bs \<and> vw_content v os' = write_at (unat off) (take (unat res) bs) (vw_content v os) \<and>
          vw_position v os' = vw_position v os \<and> (res = 0 \<longrightarrow> bs \<noteq> [] \<longrightarrow> vw_patience v os' < vw_patience v os)"
        using assms(1) unfolding pwrites_file_def by (metis (full_types) old.unit.exhaust)
      from this [rule_format, OF call(1) pos]
      have a: "unat res \<le> length bs" "vw_content v (fw_os w1) = write_at (unat (off + pos)) (take (unat res) bs) (vw_content v os)"
        "vw_position v (fw_os w1) = vw_position v os" "res = 0 \<longrightarrow> bs \<noteq> [] \<longrightarrow> vw_patience v (fw_os w1) < vw_patience v os"
        by blast+
      have lenbs: "length bs = unat n - unat pos" using assms(3) by (simp add: bs_def)
      have sum: "unat (pos + res) = unat pos + unat res"
        by (rule unat_add_small) (use a(1) lenbs range lt in linarith)
      have le: "unat (pos + res) \<le> unat n" unfolding sum using a(1) lenbs lt by linarith
      have "take (unat pos + unat res) buf = take (unat pos) buf @ take (unat res) bs"
        using a(1) lenbs by (simp add: bs_def take_add)
      moreover have written: "length (take (unat pos) buf) = unat pos" using 1(2) assms(3) by simp
      ultimately have content: "vw_content v (fw_os w1) = write_at (unat off) (take (unat (pos + res)) buf) f"
        using a(2) os(1) 1(3) write_at_append [of "unat off" "take (unat pos) buf" "take (unat res) bs" f] written
        by (simp add: sum here same_file_def del: length_take)
      have "((unat n - unat (pos + res), vw_patience v (fw_os w1)), (unat n - unat pos, vw_patience v (fw_os w))) \<in> write_order"
      proof (cases "res = 0")
        case zero: True
        have "bs \<noteq> []" using lenbs lt by auto
        then have "vw_patience v (fw_os w1) < vw_patience v (fw_os w)" using a(4) zero os(2) by simp
        then show ?thesis using zero by simp
      next
        case False
        then have "0 < unat res" by (simp add: unat_gt_0)
        then have "unat n - (unat pos + unat res) < unat n - unat pos" using lt by linarith
        then show ?thesis unfolding sum by simp
      qed
      from 1(1) [OF this le content] obtain k l w' e' where
        IH: "do_pwrite_loop sys fd (pos + res) buf n (off + (pos + res)) w1 e = Some (l, w', e')"
          "pwrite_result (reliable_file sys fd) k (unat n) e l e'"
          "vw_content v (fw_os w') = write_at (unat off) (take k buf) f"
          "vw_position v (fw_os w') = vw_position v (fw_os w1)" "os_only w1 w'" by blast
      have "do_pwrite_loop sys fd pos buf n (off + pos) w e = Some (l, w', e')"
        using True r pos IH(1) by (simp add: simp rest bs_def add.assoc)
      moreover have "vw_position v (fw_os w') = vw_position v (fw_os w)"
        using IH(4) a(3) os(1) by (simp add: same_file_def)
      ultimately show ?thesis using IH(2,3) os_only_trans [OF os(3) IH(5)] by blast
    qed
  qed
qed

lemma do_pwrite_spec:
  assumes "pwrites_file sys fd v" and "range_ok off n" and "unat n \<le> length buf"
  obtains k len w' e' where "do_pwrite sys fd buf n off w e = Some (len, w', e')"
    and "pwrite_result (reliable_file sys fd) k (unat n) e len e'"
    and "vw_content v (fw_os w') = write_at (unat off) (take k buf) (vw_content v (fw_os w))"
    and "vw_position v (fw_os w') = vw_position v (fw_os w)" and "os_only w w'"
  using do_pwrite_loop_spec [OF assms, of 0 w "vw_content v (fw_os w)" e] unfolding do_pwrite_def by auto

end
