(* ===== verification/Fildes_Seekbuf_Spec.thy ===== *)
theory Fildes_Seekbuf_Spec
  imports Fildes_Tables Fildes_Os_Spec Fildes_Region_Correct
begin

text \<open>
  What the operations of a seekable buffer's transaction do: each one is described by the fields of the
  transaction that it changes and by a step of the state around it, which keeps the file, the region
  locks' structure and the number of lock bytes.
\<close>

subsection \<open>Steps of the state around a transaction\<close>

definition world_step :: "('o, 'a) file_sys \<Rightarrow> 'o file_view \<Rightarrow> ('o, 'a) file_world \<Rightarrow> ('o, 'a) file_world \<Rightarrow> bool" where
  "world_step sys v w w' \<longleftrightarrow> same_file v (fw_os w) (fw_os w') \<and> (fw_lowmem w' = fw_lowmem w \<or> fw_lowmem w') \<and>
     (regions_ok (sys_malloc sys) (fw_regions w) \<longrightarrow> regions_ok (sys_malloc sys) (fw_regions w')) \<and>
     length (fw_seekbuf_rwlock w') = length (fw_seekbuf_rwlock w) \<and>
     length (fw_regfile_rwlock w') = length (fw_regfile_rwlock w)"

lemma world_step_refl [simp]: "world_step sys v w w"
  by (simp add: world_step_def same_file_def)

lemma world_step_trans [trans]: "world_step sys v w w1 \<Longrightarrow> world_step sys v w1 w2 \<Longrightarrow> world_step sys v w w2"
  by (auto simp: world_step_def same_file_def)

lemma same_regions_ok: "same_regions r r' \<Longrightarrow> regions_ok malloc r \<Longrightarrow> regions_ok malloc r'"
  unfolding regions_ok_def counter_map_ok_def lock_map_ok_def same_regions_def
    counter_map.fildes_page_at_def lock_map.fildes_page_at_def by simp

lemma os_only_step: "os_only w w' \<Longrightarrow> same_file v (fw_os w) (fw_os w') \<Longrightarrow> world_step sys v w w'"
  using same_regions_ok by (auto simp: world_step_def os_only_def)

lemma put_env_ok: "regions_ok malloc (fw_regions (put_env env w)) = regions_ok malloc (fw_regions w)"
  by (simp add: put_env_def regions_ok_def counter_map_ok_def lock_map_ok_def
      counter_map.fildes_page_at_def lock_map.fildes_page_at_def)

lemma put_env_step: "he_lowmem env = fw_lowmem w \<or> he_lowmem env \<Longrightarrow> world_step sys v w (put_env env w)"
  unfolding world_step_def put_env_ok by (simp add: put_env_def same_file_def)

lemma put_env_lowmem [simp]: "fw_lowmem (put_env env w) = he_lowmem env" "he_lowmem (world_env w) = fw_lowmem w"
    "fw_os (put_env env w) = fw_os w"
  by (simp_all add: put_env_def world_env_def)

subsection \<open>Field locks and the file size\<close>

definition size_known :: "seekbuf_tx \<Rightarrow> bool" where
  "size_known sb \<longleftrightarrow> status (sb_rwstate sb ! SEEKBUF_FIELD_FILE_SIZE) \<noteq> PICOTM_RWSTATE_UNLOCKED"

lemma rwstate_rdlock_ends:
  obtains st mem e' where "picotm_rwstate_try_rdlock wait sleep a self mem0 e = Some (st, mem, e')"
    and "if picotm_error_is_set e' then status st = status self \<or> \<not> status self = PICOTM_RWSTATE_UNLOCKED \<and> st = self
         else status st \<noteq> PICOTM_RWSTATE_UNLOCKED"
proof -
  obtain st mem e' where r: "picotm_rwstate_try_rdlock wait sleep a self mem0 e = Some (st, mem, e')"
    using rwstate_try_lock_total(1) by (metis prod_cases3)
  have "if picotm_error_is_set e' then status st = status self \<or> \<not> status self = PICOTM_RWSTATE_UNLOCKED \<and> st = self
      else status st \<noteq> PICOTM_RWSTATE_UNLOCKED"
    using r by (auto simp: picotm_rwstate_try_rdlock_def split: option.splits if_splits)
  with r show thesis by (rule that)
qed

lemma rwstate_wrlock_ends:
  obtains st mem e' where "picotm_rwstate_try_wrlock wait sleep a self mem0 e = Some (st, mem, e')"
    and "\<not> picotm_error_is_set e' \<longrightarrow> status st = PICOTM_RWSTATE_WRLOCKED"
    and "picotm_error_is_set e' \<longrightarrow> status st = status self"
proof -
  obtain st mem e' where r: "picotm_rwstate_try_wrlock wait sleep a self mem0 e = Some (st, mem, e')"
    using rwstate_try_lock_total(2) by (metis prod_cases3)
  have "\<not> picotm_error_is_set e' \<longrightarrow> status st = PICOTM_RWSTATE_WRLOCKED"
      "picotm_error_is_set e' \<longrightarrow> status st = status self"
    using r by (auto simp: picotm_rwstate_try_wrlock_def split: option.splits if_splits)
  with r show thesis by (rule that)
qed

lemma seekbuf_rdlock_field:
  obtains st w' e' where
      "seekbuf_tx_try_rdlock_field sys sb fld w e = Some ((), sb\<lparr>sb_rwstate := (sb_rwstate sb)[fld := st]\<rparr>, w', e')"
    and "world_step sys v w w'" and "\<not> picotm_error_is_set e' \<longrightarrow> status st \<noteq> PICOTM_RWSTATE_UNLOCKED"
    and "picotm_error_is_set e' \<longrightarrow> status st = status (sb_rwstate sb ! fld)"
proof -
  let ?a = "seekbuf_field_addr sys fld"
  obtain st mem e' where r: "picotm_rwstate_try_rdlock (sys_waits sys ?a) (sys_sleeps sys ?a) ?a (sb_rwstate sb ! fld)
      (fw_seekbuf_rwlock w ! fld) e = Some (st, mem, e')"
    and s: "if picotm_error_is_set e' then status st = status (sb_rwstate sb ! fld) \<or>
         \<not> status (sb_rwstate sb ! fld) = PICOTM_RWSTATE_UNLOCKED \<and> st = sb_rwstate sb ! fld
       else status st \<noteq> PICOTM_RWSTATE_UNLOCKED"
    using rwstate_rdlock_ends by blast
  show thesis
  proof (rule that)
    show "seekbuf_tx_try_rdlock_field sys sb fld w e = Some ((), sb\<lparr>sb_rwstate := (sb_rwstate sb)[fld := st]\<rparr>,
        w\<lparr>fw_seekbuf_rwlock := (fw_seekbuf_rwlock w)[fld := mem]\<rparr>, e')"
      by (simp add: seekbuf_tx_try_rdlock_field_def seekbuf_try_rdlock_field_def r)
    show "world_step sys v w (w\<lparr>fw_seekbuf_rwlock := (fw_seekbuf_rwlock w)[fld := mem]\<rparr>)"
      by (simp add: world_step_def same_file_def)
  qed (use s in \<open>auto split: if_splits\<close>)
qed

lemma seekbuf_wrlock_field:
  obtains st w' e' where
      "seekbuf_tx_try_wrlock_field sys sb fld w e = Some ((), sb\<lparr>sb_rwstate := (sb_rwstate sb)[fld := st]\<rparr>, w', e')"
    and "world_step sys v w w'" and "\<not> picotm_error_is_set e' \<longrightarrow> status st \<noteq> PICOTM_RWSTATE_UNLOCKED"
    and "picotm_error_is_set e' \<longrightarrow> status st = status (sb_rwstate sb ! fld)"
proof -
  let ?a = "seekbuf_field_addr sys fld"
  obtain st mem e' where r: "picotm_rwstate_try_wrlock (sys_waits sys ?a) (sys_sleeps sys ?a) ?a (sb_rwstate sb ! fld)
      (fw_seekbuf_rwlock w ! fld) e = Some (st, mem, e')"
    and s: "\<not> picotm_error_is_set e' \<longrightarrow> status st = PICOTM_RWSTATE_WRLOCKED"
      "picotm_error_is_set e' \<longrightarrow> status st = status (sb_rwstate sb ! fld)"
    using rwstate_wrlock_ends by blast
  show thesis
  proof (rule that)
    show "seekbuf_tx_try_wrlock_field sys sb fld w e = Some ((), sb\<lparr>sb_rwstate := (sb_rwstate sb)[fld := st]\<rparr>,
        w\<lparr>fw_seekbuf_rwlock := (fw_seekbuf_rwlock w)[fld := mem]\<rparr>, e')"
      by (simp add: seekbuf_tx_try_wrlock_field_def seekbuf_try_wrlock_field_def r)
    show "world_step sys v w (w\<lparr>fw_seekbuf_rwlock := (fw_seekbuf_rwlock w)[fld := mem]\<rparr>)"
      by (simp add: world_step_def same_file_def)
  qed (use s in auto)
qed

text \<open>
  Asking for the size: if the transaction has not asked before, it locks the field and reads the size of the
  file; else it has it already.  A failing call of the kernel leaves the field locked.
\<close>

lemma seekbuf_get_size:
  assumes "stats_file sys fd v" and "length (sb_rwstate sb) = 2"
  obtains r rs sz w' e' where
      "seekbuf_tx_get_file_size sys sb fd w e = Some (r, sb\<lparr>sb_rwstate := rs, sb_file_size := sz\<rparr>, w', e')"
    and "length rs = 2" and "world_step sys v w w'"
    and "\<not> picotm_error_is_set e' \<longrightarrow> r = sz \<and> status (rs ! SEEKBUF_FIELD_FILE_SIZE) \<noteq> PICOTM_RWSTATE_UNLOCKED \<and>
      (if size_known sb then sz = sb_file_size sb else unat sz = length (vw_content v (fw_os w)))"
proof (cases "size_known sb")
  case True
  show thesis
  proof (rule that)
    show "seekbuf_tx_get_file_size sys sb fd w e =
        Some (sb_file_size sb, sb\<lparr>sb_rwstate := sb_rwstate sb, sb_file_size := sb_file_size sb\<rparr>, w, e)"
      using True by (simp add: seekbuf_tx_get_file_size_def size_known_def picotm_rwstate_get_status_def)
  qed (use True assms(2) in \<open>simp_all add: size_known_def\<close>)
next
  case False
  obtain st w1 e1 where l: "seekbuf_tx_try_rdlock_field sys sb SEEKBUF_FIELD_FILE_SIZE w e =
      Some ((), sb\<lparr>sb_rwstate := (sb_rwstate sb)[SEEKBUF_FIELD_FILE_SIZE := st]\<rparr>, w1, e1)"
    and w1: "world_step sys v w w1" and st: "\<not> picotm_error_is_set e1 \<longrightarrow> status st \<noteq> PICOTM_RWSTATE_UNLOCKED"
    using seekbuf_rdlock_field by blast
  let ?rs = "(sb_rwstate sb)[SEEKBUF_FIELD_FILE_SIZE := st]"
  obtain res buf w2 where f: "os_do (sys_fstat sys fd) w1 = (res, buf, w2)" by (rule prod_cases3)
  obtain en where c: "sys_fstat sys fd (fw_os w1) = (res, buf, en, fw_os w2)" using os_do_os [OF f] by blast
  have stat: "same_file v (fw_os w1) (fw_os w2)"
      "\<not> res <s 0 \<Longrightarrow> unat (st_size buf) = length (vw_content v (fw_os w1))"
    using assms(1) c unfolding stats_file_def by blast+
  have w2: "world_step sys v w w2" using w1 os_only_step [OF os_do_only [OF f] stat(1)] by (rule world_step_trans)
  have unk: "picotm_rwstate_get_status (sb_rwstate sb ! SEEKBUF_FIELD_FILE_SIZE) = PICOTM_RWSTATE_UNLOCKED"
    using False by (simp add: size_known_def picotm_rwstate_get_status_def)
  have new: "?rs ! SEEKBUF_FIELD_FILE_SIZE = st" using assms(2) by (simp add: SEEKBUF_FIELD_FILE_SIZE_def)
  note def = seekbuf_tx_get_file_size_def [of sys sb fd w e] unk l f
  consider "picotm_error_is_set e1" | "\<not> picotm_error_is_set e1" "res <s 0" | "\<not> picotm_error_is_set e1" "\<not> res <s 0"
    by blast
  then show thesis
  proof cases
    case 1
    show thesis
    proof (rule that)
      show "seekbuf_tx_get_file_size sys sb fd w e = Some (- 1, sb\<lparr>sb_rwstate := ?rs, sb_file_size := sb_file_size sb\<rparr>, w1, e1)"
        using 1 by (simp add: def)
    qed (use 1 w1 assms(2) in simp_all)
  next
    case 2
    show thesis
    proof (rule that)
      show "seekbuf_tx_get_file_size sys sb fd w e = Some (scast res, sb\<lparr>sb_rwstate := ?rs, sb_file_size := sb_file_size sb\<rparr>, w2,
          picotm_error_set_errno e1 (errno_of w2))"
        using 2 by (simp add: def)
    qed (use w2 assms(2) in \<open>simp_all add: errno_set\<close>)
  next
    case 3
    show thesis
    proof (rule that)
      show "seekbuf_tx_get_file_size sys sb fd w e = Some (st_size buf, sb\<lparr>sb_rwstate := ?rs, sb_file_size := st_size buf\<rparr>, w2, e1)"
        using 3 by (simp add: def Let_def)
    qed (use 3 w1 w2 assms(2) False new st stat(2) in \<open>simp_all add: world_step_def same_file_def\<close>)
  qed
qed

lemma seekbuf_set_size:
  assumes "length (sb_rwstate sb) = 2"
  obtains rs sz w' e' where
      "seekbuf_tx_set_file_size sys sb siz w e = Some ((), sb\<lparr>sb_rwstate := rs, sb_file_size := sz\<rparr>, w', e')"
    and "length rs = 2" and "world_step sys v w w'"
    and "\<not> picotm_error_is_set e' \<longrightarrow> sz = siz \<and> status (rs ! SEEKBUF_FIELD_FILE_SIZE) \<noteq> PICOTM_RWSTATE_UNLOCKED"
proof -
  obtain st w1 e1 where l: "seekbuf_tx_try_wrlock_field sys sb SEEKBUF_FIELD_FILE_SIZE w e =
      Some ((), sb\<lparr>sb_rwstate := (sb_rwstate sb)[SEEKBUF_FIELD_FILE_SIZE := st]\<rparr>, w1, e1)"
    and w1: "world_step sys v w w1" and st: "\<not> picotm_error_is_set e1 \<longrightarrow> status st \<noteq> PICOTM_RWSTATE_UNLOCKED"
    using seekbuf_wrlock_field by blast
  let ?rs = "(sb_rwstate sb)[SEEKBUF_FIELD_FILE_SIZE := st]"
  have new: "?rs ! SEEKBUF_FIELD_FILE_SIZE = st" using assms by (simp add: SEEKBUF_FIELD_FILE_SIZE_def)
  let ?sz = "if picotm_error_is_set e1 then sb_file_size sb else siz"
  show thesis
  proof (rule that)
    show "seekbuf_tx_set_file_size sys sb siz w e = Some ((), sb\<lparr>sb_rwstate := ?rs, sb_file_size := ?sz\<rparr>, w1, e1)"
      by (simp add: seekbuf_tx_set_file_size_def l)
  qed (use w1 assms new st in simp_all)
qed

subsection \<open>Well-formed transactions\<close>

definition allocators_ok :: "('o, 'a) file_sys \<Rightarrow> bool" where
  "allocators_ok sys \<longleftrightarrow> realloc_keeps 1 (sys_realloc_bytes sys) \<and> realloc_keeps 24 (sys_realloc_ioops sys) \<and>
     realloc_keeps 16 (sys_realloc_regions sys) \<and> realloc_keeps 24 (sys_realloc_seekops sys) \<and>
     realloc_keeps 8 (sys_realloc_fchmodops sys) \<and> realloc_keeps 8 (sys_realloc_fildes_events sys) \<and>
     realloc_ok (sys_realloc_events sys)"

abbreviation sb_bytes :: "seekbuf_tx \<Rightarrow> u8 list" where
  "sb_bytes sb \<equiv> in_use (sb_wrbuf sb) (sb_wrbuflen sb)"

abbreviation sb_ops :: "seekbuf_tx \<Rightarrow> ioop list" where
  "sb_ops sb \<equiv> in_use (sb_wrtab sb) (sb_wrtablen sb)"

abbreviation sb_reads :: "seekbuf_tx \<Rightarrow> ioop list" where
  "sb_reads sb \<equiv> in_use (sb_rdtab sb) (sb_rdtablen sb)"

definition seekbuf_wf :: "bool \<Rightarrow> seekbuf_tx \<Rightarrow> bool" where
  "seekbuf_wf lm sb \<longleftrightarrow> sb_wrmode sb = PICOTM_LIBC_WRITE_BACK \<and> length (sb_rwstate sb) = 2 \<and>
     unat (sb_wrbuflen sb) < 2 ^ 63 \<and> block_fits lm (sb_wrbuf sb) (sb_wrbuflen sb) \<and>
     tab_ok 58 lm (sb_wrtab sb) (sb_wrtablen sb) (sb_wrtabsiz sb) \<and>
     tab_ok 58 lm (sb_rdtab sb) (sb_rdtablen sb) (sb_rdtabsiz sb) \<and>
     tab_ok 59 lm (sb_locktab sb) (sb_locktablen sb) (sb_locktabsiz sb) \<and>
     (\<forall>op\<in>set (sb_ops sb). ioop_ok (sb_bytes sb) op)"

lemma seekbuf_wf_lowmem: "seekbuf_wf lm sb \<Longrightarrow> lm' = lm \<or> lm' \<Longrightarrow> seekbuf_wf lm' sb"
  unfolding seekbuf_wf_def using block_fits_mono [of lm "sb_wrbuf sb" "sb_wrbuflen sb" lm']
  by (elim conjE) (intro conjI; (assumption | erule tab_ok_lowmem)?; simp)

lemma sb_bytes_length: "seekbuf_wf lm sb \<Longrightarrow> length (sb_bytes sb) = unat (sb_wrbuflen sb)"
  using block_fits_length [of lm "sb_wrbuf sb" "sb_wrbuflen sb"] by (simp add: seekbuf_wf_def)

subsection \<open>The regions\<close>

text \<open>Locking a region locks its records and notes it in the table; an error may leave records locked.\<close>

definition region_locked :: "('o, 'a) file_sys \<Rightarrow> 'o file_view \<Rightarrow> seekbuf_tx \<Rightarrow> ('o, 'a) file_world \<Rightarrow> seekbuf_tx \<Rightarrow> ('o, 'a) file_world \<Rightarrow> bool" where
  "region_locked sys v sb w sb' w' \<longleftrightarrow> world_step sys v w w' \<and>
     (\<exists>tab n siz. sb' = sb\<lparr>sb_locktab := tab, sb_locktablen := n, sb_locktabsiz := siz\<rparr> \<and> unat n \<le> Suc (unat (sb_locktablen sb)) \<and>
        tab_ok 59 (fw_lowmem w') tab n siz)"

lemma lock_region_append_ends:
  assumes "allocators_ok sys" and "\<not> picotm_error_is_set e" and "unat (sb_locktablen sb) < 2 ^ 59"
    and "tab_ok 59 (fw_lowmem w) (sb_locktab sb) (sb_locktablen sb) (sb_locktabsiz sb)"
  obtains pos sb' w' e' where "lock_region_append sys sb n off w e = (pos, sb', w', e')" and "region_locked sys v sb w sb' w'"
proof -
  obtain pos tab len siz env e' where r: "table_push (sys_realloc_regions sys) 16 (region_init n off) (sb_locktab sb) (sb_locktablen sb)
      (sb_locktabsiz sb) (world_env w) e = (pos, tab, len, siz, env, e')" by (rule prod_cases6)
  have p: "(he_lowmem env = he_lowmem (world_env w) \<or> he_lowmem env) \<and> tab_ok 59 (he_lowmem env) tab len siz \<and>
      pushed (picotm_error_is_set e') (sb_locktab sb) (sb_locktablen sb) (region_init n off) pos tab len e e'"
    by (rule event_size.push_spec [OF _ assms(2) _ assms(3) r]) (use assms(1,4) in \<open>simp_all add: allocators_ok_def\<close>)
  show thesis
  proof (rule that)
    show "lock_region_append sys sb n off w e =
        (pos, sb\<lparr>sb_locktab := tab, sb_locktablen := len, sb_locktabsiz := siz\<rparr>, put_env env w, e')"
      by (simp add: lock_region_append_def file_tables r)
    show "region_locked sys v sb w (sb\<lparr>sb_locktab := tab, sb_locktablen := len, sb_locktabsiz := siz\<rparr>) (put_env env w)"
      unfolding region_locked_def
    proof (intro conjI exI)
      show "world_step sys v w (put_env env w)" by (rule put_env_step) (use p in simp)
      show "unat len \<le> Suc (unat (sb_locktablen sb))" by (rule pushedD(2) [OF p [THEN conjunct2, THEN conjunct2]])
      show "tab_ok 59 (fw_lowmem (put_env env w)) tab len siz" using p by simp
    qed (rule refl)
  qed
qed

lemma seekbuf_lock_region:
  assumes "allocators_ok sys" and "\<not> picotm_error_is_set e" and "unat (sb_locktablen sb) < 2 ^ 59"
    and "seekbuf_wf (fw_lowmem w) sb" and "regions_ok (sys_malloc sys) (fw_regions w)"
  shows "\<exists>r sb' w' e'. seekbuf_tx_try_rdlock_region sys sb n off w e = Some (r, sb', w', e') \<and> region_locked sys v sb w sb' w'"
    and "\<exists>r sb' w' e'. seekbuf_tx_try_wrlock_region sys sb n off w e = Some (r, sb', w', e') \<and> region_locked sys v sb w sb' w'"
proof -
  have tab: "tab_ok 59 (fw_lowmem w) (sb_locktab sb) (sb_locktablen sb) (sb_locktabsiz sb)"
    using assms(4) by (simp add: seekbuf_wf_def)
  have step: "region_locked sys v sb w sb (w\<lparr>fw_regions := r\<rparr>)" if "regions_ok (sys_malloc sys) r" for r
    unfolding region_locked_def world_step_def same_file_def using that tab
    by (intro conjI exI [of _ "sb_locktab sb"] exI [of _ "sb_locktablen sb"] exI [of _ "sb_locktabsiz sb"]) simp_all
  have app: "\<exists>pos sb' w' e'. lock_region_append sys sb n off (w\<lparr>fw_regions := r\<rparr>) e1 = (pos, sb', w', e') \<and> region_locked sys v sb w sb' w'"
    if r: "regions_ok (sys_malloc sys) r" and e1: "\<not> picotm_error_is_set e1" for r e1
  proof -
    have t: "tab_ok 59 (fw_lowmem (w\<lparr>fw_regions := r\<rparr>)) (sb_locktab sb) (sb_locktablen sb) (sb_locktabsiz sb)" using tab by simp
    obtain pos sb' w' e' where l: "lock_region_append sys sb n off (w\<lparr>fw_regions := r\<rparr>) e1 = (pos, sb', w', e')"
        "region_locked sys v sb (w\<lparr>fw_regions := r\<rparr>) sb' w'"
      using lock_region_append_ends [OF assms(1) e1 assms(3) t] by blast
    have "world_step sys v w (w\<lparr>fw_regions := r\<rparr>)" using step [OF r] by (simp add: region_locked_def)
    then have "region_locked sys v sb w sb' w'" using l(2) world_step_trans unfolding region_locked_def by blast
    with l(1) show ?thesis by blast
  qed
  have runs: "(\<exists>r' e'. seekbuf_try_rdlock_region (sys_malloc sys) (sys_waits sys) (sys_sleeps sys) off n (fw_regions w) e = Some (r', e') \<and>
        regions_ok (sys_malloc sys) r') \<and>
      (\<exists>r' e'. seekbuf_try_wrlock_region (sys_malloc sys) (sys_waits sys) (sys_sleeps sys) off n (fw_regions w) e = Some (r', e') \<and>
        regions_ok (sys_malloc sys) r')"
    using region_locking_runs [OF assms(5,2), of "sys_waits sys" "sys_sleeps sys" off n] by blast
  then obtain r1 e1 r2 e2 where
    rd: "seekbuf_try_rdlock_region (sys_malloc sys) (sys_waits sys) (sys_sleeps sys) off n (fw_regions w) e = Some (r1, e1)"
      "regions_ok (sys_malloc sys) r1"
    and wr: "seekbuf_try_wrlock_region (sys_malloc sys) (sys_waits sys) (sys_sleeps sys) off n (fw_regions w) e = Some (r2, e2)"
      "regions_ok (sys_malloc sys) r2" by blast
  show "\<exists>r sb' w' e'. seekbuf_tx_try_rdlock_region sys sb n off w e = Some (r, sb', w', e') \<and> region_locked sys v sb w sb' w'"
  proof (cases "picotm_error_is_set e1")
    case True
    then show ?thesis using rd step by (auto simp: seekbuf_tx_try_rdlock_region_def)
  next
    case False
    then show ?thesis using rd(1) app [OF rd(2) False] by (auto simp: seekbuf_tx_try_rdlock_region_def)
  qed
  show "\<exists>r sb' w' e'. seekbuf_tx_try_wrlock_region sys sb n off w e = Some (r, sb', w', e') \<and> region_locked sys v sb w sb' w'"
  proof (cases "picotm_error_is_set e2")
    case True
    then show ?thesis using wr step by (auto simp: seekbuf_tx_try_wrlock_region_def)
  next
    case False
    then show ?thesis using wr(1) app [OF wr(2) False] by (auto simp: seekbuf_tx_try_wrlock_region_def)
  qed
qed

subsection \<open>The write set and the read set\<close>

text \<open>The writes that a transaction has buffered, with their offsets, and the ranges that it has read.\<close>

definition sb_writes :: "seekbuf_tx \<Rightarrow> (nat \<times> u8 list) list" where
  "sb_writes sb = map (\<lambda>op. (unat (io_off op), op_bytes (sb_bytes sb) op)) (sb_ops sb)"

lemma take_memcpy_at:
  "p + length bs \<le> length t \<Longrightarrow> take (p + length bs) (memcpy_at p bs t) = take p t @ bs"
  by (simp add: memcpy_at_def)

lemma append_iobuffer_ends:
  assumes "allocators_ok sys" and "seekbuf_wf (fw_lowmem w) sb" and "\<not> picotm_error_is_set e"
    and "length bs = unat n" and "unat (sb_wrbuflen sb) + unat n < 2 ^ 63"
  obtains r buf len w' e' where
      "append_to_iobuffer sys sb n (Some bs) w e = (r, sb\<lparr>sb_wrbuf := buf, sb_wrbuflen := len\<rparr>, w', e')"
    and "world_step sys v w w'" and "block_fits (fw_lowmem w') buf len"
    and "if picotm_error_is_set e' then buf = sb_wrbuf sb \<and> len = sb_wrbuflen sb
         else r = sb_wrbuflen sb \<and> unat len = unat (sb_wrbuflen sb) + unat n \<and> in_use buf len = sb_bytes sb @ bs"
proof (cases "n = 0")
  case True
  then have bs: "bs = []" using assms(4) by simp
  show thesis
  proof (rule that)
    show "append_to_iobuffer sys sb n (Some bs) w e =
        (sb_wrbuflen sb, sb\<lparr>sb_wrbuf := sb_wrbuf sb, sb_wrbuflen := sb_wrbuflen sb\<rparr>, w, e)"
      using True by (simp add: append_to_iobuffer_def)
  qed (use assms(2,3) True bs in \<open>simp_all add: seekbuf_wf_def\<close>)
next
  case False
  let ?len = "sb_wrbuflen sb" and ?env = "world_env w"
  obtain lm a en tmp e' where r: "tabresize (sys_realloc_bytes sys) (fw_lowmem w) (he_alloc ?env) (he_errno ?env) (sb_wrbuf sb)
      ?len (?len + n) 1 e = (lm, a, en, tmp, e')" by (rule prod_cases5)
  let ?w = "put_env \<lparr>he_alloc = a, he_errno = en, he_lowmem = lm\<rparr> w"
  have low: "lm = fw_lowmem w \<or> lm" by (rule tabresize_lowmem [OF r])
  have step: "world_step sys v w ?w" by (rule put_env_step) (use low in simp)
  have sum: "unat (?len + n) = unat ?len + unat n" by (rule unat_add_small) (rule assms(5))
  have fits: "block_fits (fw_lowmem w) (sb_wrbuf sb) ?len" using assms(2) by (simp add: seekbuf_wf_def)
  show thesis
  proof (cases "picotm_error_is_set e'")
    case True
    show thesis
    proof (rule that)
      show "append_to_iobuffer sys sb n (Some bs) w e = (- 1, sb\<lparr>sb_wrbuf := sb_wrbuf sb, sb_wrbuflen := ?len\<rparr>, ?w, e')"
        using True False by (simp add: append_to_iobuffer_def r)
      show "block_fits (fw_lowmem ?w) (sb_wrbuf sb) ?len"
        using block_fits_mono [OF fits, of lm] low assms(5) by simp
    qed (use True step in simp_all)
  next
    case ok: False
    have "0 < unat n" using False by (simp add: unat_gt_0)
    then have "0 < unat (?len + n)" using sum by simp
    then have nz: "?len + n \<noteq> 0" by (simp add: unat_gt_0)
    have keeps: "realloc_keeps (unat (1 :: u64)) (sys_realloc_bytes sys)" using assms(1) by (simp add: allocators_ok_def)
    have bound: "unat (?len + n) \<le> 2 ^ 63" using sum assms(5) by linarith
    have le: "unat ?len \<le> unat (?len + n)" using sum by simp
    have g: "(\<exists>t. tmp = Some t) \<and> block_fits lm tmp (?len + n) \<and> in_use tmp ?len = sb_bytes sb"
      by (rule byte_size.tabresize_keeps [OF keeps r ok nz le bound fits])
    then obtain t where t: "tmp = Some t" by blast
    have "unat (?len + n) \<le> length t" using block_fits_length [of lm tmp "?len + n"] g t bound by simp
    then have tl: "unat ?len + length bs \<le> length t" using sum assms(4) by simp
    let ?buf = "Some (memcpy_at (unat ?len) bs t)"
    show thesis
    proof (rule that)
      show "append_to_iobuffer sys sb n (Some bs) w e = (?len, sb\<lparr>sb_wrbuf := ?buf, sb_wrbuflen := ?len + n\<rparr>, ?w, e')"
        using ok False assms(4) by (simp add: append_to_iobuffer_def r t)
      show "block_fits (fw_lowmem ?w) ?buf (?len + n)"
        using g t length_memcpy_at [OF tl] by (simp add: block_fits_def)
      have "in_use ?buf (?len + n) = take (unat ?len) t @ bs"
        using take_memcpy_at [OF tl] sum assms(4) by simp
      then show "if picotm_error_is_set e' then ?buf = sb_wrbuf sb \<and> ?len + n = ?len
         else ?len = ?len \<and> unat (?len + n) = unat ?len + unat n \<and> in_use ?buf (?len + n) = sb_bytes sb @ bs"
        using ok sum g t by simp
    qed (rule step)
  qed
qed

lemma op_bytes_append: "ioop_ok bytes op \<Longrightarrow> op_bytes (bytes @ rest) op = op_bytes bytes op"
  by (simp add: ioop_ok_def op_bytes_def)

lemma ioop_ok_append: "ioop_ok bytes op \<Longrightarrow> ioop_ok (bytes @ rest) op"
  by (simp add: ioop_ok_def)

lemma unat_Suc_le: "unat n' = Suc (unat n) \<Longrightarrow> unat n < b \<Longrightarrow> unat n' \<le> b" by simp

lemma append_writeset_ends:
  assumes "allocators_ok sys" and wf: "seekbuf_wf (fw_lowmem w) sb" and "\<not> picotm_error_is_set e"
    and "length bs = unat n" and "unat (sb_wrbuflen sb) + unat n < 2 ^ 63" and "range_ok off n"
    and "unat (sb_wrtablen sb) < 2 ^ 58"
  obtains r buf len tab tablen siz sb' w' e' where
      "seekbuf_tx_append_to_writeset sys sb n off (Some bs) w e = (r, sb', w', e')"
    and "sb' = sb\<lparr>sb_wrbuf := buf, sb_wrbuflen := len, sb_wrtab := tab, sb_wrtablen := tablen, sb_wrtabsiz := siz\<rparr>"
    and "world_step sys v w w'" and "seekbuf_wf (fw_lowmem w') sb'"
    and "unat tablen \<le> Suc (unat (sb_wrtablen sb))" and "unat len \<le> unat (sb_wrbuflen sb) + unat n"
    and "\<not> picotm_error_is_set e' \<longrightarrow> r = ucast (sb_wrtablen sb) \<and>
           (\<exists>b. sb_ops sb' = sb_ops sb @ [ioop_init off n b]) \<and> sb_writes sb' = sb_writes sb @ [(unat off, bs)]"
proof -
  obtain r1 buf len w1 e1 where
      a: "append_to_iobuffer sys sb n (Some bs) w e = (r1, sb\<lparr>sb_wrbuf := buf, sb_wrbuflen := len\<rparr>, w1, e1)"
    and w1: "world_step sys v w w1" and fits: "block_fits (fw_lowmem w1) buf len"
    and res: "if picotm_error_is_set e1 then buf = sb_wrbuf sb \<and> len = sb_wrbuflen sb
         else r1 = sb_wrbuflen sb \<and> unat len = unat (sb_wrbuflen sb) + unat n \<and> in_use buf len = sb_bytes sb @ bs"
    by (rule append_iobuffer_ends [OF assms(1-5)]) (rule that)
  have low1: "fw_lowmem w1 = fw_lowmem w \<or> fw_lowmem w1" using w1 by (simp add: world_step_def)
  note wf1 = seekbuf_wf_lowmem [OF wf low1]
  have bl: "length (sb_bytes sb) = unat (sb_wrbuflen sb)" by (rule sb_bytes_length [OF wf])
  show thesis
  proof (cases "picotm_error_is_set e1")
    case True
    then have "sb\<lparr>sb_wrbuf := buf, sb_wrbuflen := len\<rparr> = sb" using res by simp
    then have go: "seekbuf_tx_append_to_writeset sys sb n off (Some bs) w e = (- 1, sb, w1, e1)"
      using a True by (simp add: seekbuf_tx_append_to_writeset_def)
    show thesis
      by (rule that [OF go, where buf = "sb_wrbuf sb" and len = "sb_wrbuflen sb" and tab = "sb_wrtab sb"
            and tablen = "sb_wrtablen sb" and siz = "sb_wrtabsiz sb"]) (use True w1 wf1 in simp_all)
  next
    case ok: False
    then have b: "r1 = sb_wrbuflen sb" "unat len = unat (sb_wrbuflen sb) + unat n" "in_use buf len = sb_bytes sb @ bs"
      using res unfolding if_not_P [OF ok] by blast+
    obtain pos tab tablen siz env e2 where r: "table_push (sys_realloc_ioops sys) 24 (ioop_init off n r1) (sb_wrtab sb)
        (sb_wrtablen sb) (sb_wrtabsiz sb) (world_env w1) e1 = (pos, tab, tablen, siz, env, e2)" by (rule prod_cases6)
    have t: "tab_ok 58 (he_lowmem (world_env w1)) (sb_wrtab sb) (sb_wrtablen sb) (sb_wrtabsiz sb)"
      using wf1 by (simp add: seekbuf_wf_def)
    have keeps: "realloc_keeps (unat (24 :: u64)) (sys_realloc_ioops sys)" using assms(1) by (simp add: allocators_ok_def)
    have p: "(he_lowmem env = he_lowmem (world_env w1) \<or> he_lowmem env) \<and> tab_ok 58 (he_lowmem env) tab tablen siz \<and>
        pushed (picotm_error_is_set e2) (sb_wrtab sb) (sb_wrtablen sb) (ioop_init off n r1) pos tab tablen e1 e2"
      by (rule ioop_size.push_spec [OF keeps ok t assms(7) r])
    let ?sb = "sb\<lparr>sb_wrbuf := buf, sb_wrbuflen := len, sb_wrtab := tab, sb_wrtablen := tablen, sb_wrtabsiz := siz\<rparr>"
    let ?w = "put_env env w1"
    have step: "world_step sys v w ?w"
      by (rule world_step_trans [OF w1 put_env_step]) (use p in simp)
    have low: "he_lowmem env = fw_lowmem w1 \<or> he_lowmem env" using p by simp
    have len63: "unat len < 2 ^ 63" using b(2) assms(5) by simp
    have new_ok: "ioop_ok (sb_bytes sb @ bs) (ioop_init off n r1)"
      using assms(4-6) b(1) bl by (simp add: ioop_ok_def ioop_init_def)
    have old_ok: "\<forall>op\<in>set (sb_ops sb). ioop_ok (sb_bytes sb @ bs) op"
      using wf ioop_ok_append by (simp add: seekbuf_wf_def)
    have ops: "in_use tab tablen = sb_ops sb @ (if picotm_error_is_set e2 then [] else [ioop_init off n r1])"
      by (rule pushedD(1) [OF p [THEN conjunct2, THEN conjunct2]])
    have "\<forall>op\<in>set (in_use tab tablen). ioop_ok (in_use buf len) op"
      unfolding ops b(3) using old_ok new_ok by auto
    moreover have "block_fits (he_lowmem env) buf len" by (rule block_fits_mono [OF fits low]) (use len63 in simp)
    ultimately have wf': "seekbuf_wf (fw_lowmem ?w) ?sb"
      using seekbuf_wf_lowmem [OF wf1 low] p len63 by (simp add: seekbuf_wf_def)
    have cnt: "unat tablen \<le> Suc (unat (sb_wrtablen sb))" by (rule pushedD(2) [OF p [THEN conjunct2, THEN conjunct2]])
    have len_le: "unat len \<le> unat (sb_wrbuflen sb) + unat n" using b(2) by simp
    have go: "seekbuf_tx_append_to_writeset sys sb n off (Some bs) w e =
        (if picotm_error_is_set e2 then - 1 else ucast pos, ?sb, ?w, e2)"
      using a ok by (simp add: seekbuf_tx_append_to_writeset_def file_tables r)
    have old: "map (\<lambda>op. (unat (io_off op), op_bytes (sb_bytes sb @ bs) op)) (sb_ops sb) = sb_writes sb"
      unfolding sb_writes_def using wf op_bytes_append by (simp add: seekbuf_wf_def)
    have "op_bytes (sb_bytes sb @ bs) (ioop_init off n r1) = bs"
      using b(1) bl assms(4) by (simp add: op_bytes_def ioop_init_def)
    then have new: "sb_writes ?sb = sb_writes sb @ [(unat off, bs)]" if "\<not> picotm_error_is_set e2"
      using that b(3) ops old by (simp add: sb_writes_def [of ?sb] ioop_init_def)
    show thesis
    proof (rule that [OF go refl step wf' cnt len_le], intro impI)
      assume e2: "\<not> picotm_error_is_set e2"
      then have "pos = sb_wrtablen sb" by (rule pushedD(3) [OF p [THEN conjunct2, THEN conjunct2]])
      moreover have "sb_ops ?sb = sb_ops sb @ [ioop_init off n r1]" using ops e2 by simp
      ultimately show "(if picotm_error_is_set e2 then - 1 else ucast pos) = ucast (sb_wrtablen sb) \<and>
          (\<exists>b. sb_ops ?sb = sb_ops sb @ [ioop_init off n b]) \<and> sb_writes ?sb = sb_writes sb @ [(unat off, bs)]"
        using e2 new by auto
    qed
  qed
qed

lemma append_readset_ends:
  assumes "allocators_ok sys" and wf: "seekbuf_wf (fw_lowmem w) sb" and "\<not> picotm_error_is_set e"
    and "unat (sb_rdtablen sb) < 2 ^ 58"
  obtains r tab tablen siz sb' w' e' where
      "seekbuf_tx_append_to_readset sys sb n off w e = (r, sb', w', e')"
    and "sb' = sb\<lparr>sb_rdtab := tab, sb_rdtablen := tablen, sb_rdtabsiz := siz\<rparr>"
    and "world_step sys v w w'" and "seekbuf_wf (fw_lowmem w') sb'" and "unat tablen \<le> Suc (unat (sb_rdtablen sb))"
    and "\<not> picotm_error_is_set e' \<longrightarrow> r = ucast (sb_rdtablen sb) \<and> sb_reads sb' = sb_reads sb @ [ioop_init off n 0]"
proof -
  obtain pos tab tablen siz env e2 where r: "table_push (sys_realloc_ioops sys) 24 (ioop_init off n 0) (sb_rdtab sb)
      (sb_rdtablen sb) (sb_rdtabsiz sb) (world_env w) e = (pos, tab, tablen, siz, env, e2)" by (rule prod_cases6)
  have t: "tab_ok 58 (he_lowmem (world_env w)) (sb_rdtab sb) (sb_rdtablen sb) (sb_rdtabsiz sb)"
    using wf by (simp add: seekbuf_wf_def)
  have keeps: "realloc_keeps (unat (24 :: u64)) (sys_realloc_ioops sys)" using assms(1) by (simp add: allocators_ok_def)
  have p: "(he_lowmem env = he_lowmem (world_env w) \<or> he_lowmem env) \<and> tab_ok 58 (he_lowmem env) tab tablen siz \<and>
      pushed (picotm_error_is_set e2) (sb_rdtab sb) (sb_rdtablen sb) (ioop_init off n 0) pos tab tablen e e2"
    by (rule ioop_size.push_spec [OF keeps assms(3) t assms(4) r])
  let ?sb = "sb\<lparr>sb_rdtab := tab, sb_rdtablen := tablen, sb_rdtabsiz := siz\<rparr>" and ?w = "put_env env w"
  have go: "seekbuf_tx_append_to_readset sys sb n off w e = (if picotm_error_is_set e2 then - 1 else ucast pos, ?sb, ?w, e2)"
    by (simp add: seekbuf_tx_append_to_readset_def file_tables r)
  have step: "world_step sys v w ?w" by (rule put_env_step) (use p in simp)
  have low: "he_lowmem env = fw_lowmem w \<or> he_lowmem env" using p by simp
  have wf': "seekbuf_wf (fw_lowmem ?w) ?sb"
    using seekbuf_wf_lowmem [OF wf low] p by (simp add: seekbuf_wf_def)
  note q = pushedD [OF p [THEN conjunct2, THEN conjunct2]]
  show thesis
    by (rule that [OF go refl step wf' q(2)]) (use q(1,3) in auto)
qed

end
