(* ===== verification/Fildes_Writes.thy ===== *)
theory Fildes_Writes
  imports Fildes_Seekbuf_Spec
begin

text \<open>
  The file that a transaction sees: the file of the operating system with the buffered writes applied to it,
  in their order.  Reading the file and merging the write set gives the bytes of that file, as long as no
  write begins behind its end: bytes of a gap that a write has left are neither in the file nor in the
  write set, and stay what the caller had in the buffer.
\<close>

definition apply_writes :: "(nat \<times> u8 list) list \<Rightarrow> u8 list \<Rightarrow> u8 list" where
  "apply_writes ws f = fold (\<lambda>(off, bs). write_at off bs) ws f"

fun gapless :: "(nat \<times> u8 list) list \<Rightarrow> u8 list \<Rightarrow> bool" where
  "gapless [] f \<longleftrightarrow> True"
| "gapless ((off, bs) # ws) f \<longleftrightarrow> off \<le> length f \<and> gapless ws (write_at off bs f)"

lemma apply_writes_append: "apply_writes (ws @ [(off, bs)]) f = write_at off bs (apply_writes ws f)"
  by (simp add: apply_writes_def)

lemma gapless_append: "gapless (ws @ [(off, bs)]) f \<longleftrightarrow> gapless ws f \<and> off \<le> length (apply_writes ws f)"
  by (induction ws f rule: gapless.induct) (simp_all add: apply_writes_def)

definition op_write :: "u8 list \<Rightarrow> ioop \<Rightarrow> nat \<times> u8 list" where
  "op_write iobuf op = (unat (io_off op), op_bytes iobuf op)"

lemma op_write_Cons:
  "gapless (op_write iobuf op # ws) f \<longleftrightarrow>
     unat (io_off op) \<le> length f \<and> gapless ws (write_at (unat (io_off op)) (op_bytes iobuf op) f)"
  "apply_writes (op_write iobuf op # ws) f = apply_writes ws (write_at (unat (io_off op)) (op_bytes iobuf op) f)"
  by (simp_all add: op_write_def apply_writes_def)

lemma nth_write_gapless:
  assumes "off \<le> length f" and "j < length (write_at off bs f)"
  shows "write_at off bs f ! j = (if off \<le> j \<and> j < off + length bs then bs ! (j - off) else f ! j)"
  using assms(1) assms(2) nth_write_at [OF assms(2)] by (auto simp: length_write_at split: if_splits)

lemma merged_bytes:
  "gapless (map (op_write iobuf) ops) c \<Longrightarrow> (\<And>j. off \<le> j \<Longrightarrow> j < length c \<Longrightarrow> g j = c ! j) \<Longrightarrow> off \<le> j \<Longrightarrow>
   j < length (apply_writes (map (op_write iobuf) ops) c) \<Longrightarrow>
   fold (op_put iobuf) ops g j = apply_writes (map (op_write iobuf) ops) c ! j"
proof (induction ops arbitrary: c g)
  case (Cons op ops)
  let ?c = "write_at (unat (io_off op)) (op_bytes iobuf op) c"
  have gap: "unat (io_off op) \<le> length c" "gapless (map (op_write iobuf) ops) ?c"
    using Cons.prems(1) by (simp_all add: op_write_Cons)
  have "op_put iobuf op g i = ?c ! i" if "off \<le> i" "i < length ?c" for i
  proof (cases "unat (io_off op) \<le> i \<and> i < unat (io_off op) + length (op_bytes iobuf op)")
    case True
    then show ?thesis using nth_write_gapless [OF gap(1) that(2)] by (simp add: op_put_def file_put_def)
  next
    case False
    then have "i < length c" using that(2) gap(1) by (auto simp: length_write_at split: if_splits)
    then show ?thesis using Cons.prems(2) [OF that(1)] nth_write_gapless [OF gap(1) that(2)] False
      by (auto simp: op_put_def file_put_def)
  qed
  from Cons.IH [OF gap(2) this Cons.prems(3)] Cons.prems(4) show ?case
    by (simp add: op_write_Cons)
qed (simp add: apply_writes_def)

lemma merged_length:
  "gapless (map (op_write iobuf) ops) c \<Longrightarrow> \<forall>op\<in>set ops. ioop_ok iobuf op \<Longrightarrow>
   ops_reach n off ops (min n (length c - off)) = min n (length (apply_writes (map (op_write iobuf) ops) c) - off)"
proof (induction ops arbitrary: c)
  case (Cons op ops)
  let ?b = "unat (io_off op)" and ?n = "unat (io_nbyte op)"
  let ?c = "write_at ?b (op_bytes iobuf op) c"
  have gap: "?b \<le> length c" "gapless (map (op_write iobuf) ops) ?c"
    using Cons.prems(1) by (simp_all add: op_write_Cons)
  have len: "length (op_bytes iobuf op) = ?n" using Cons.prems(2) by (intro op_bytes_length) simp
  then have len_c: "length ?c = max (length c) (?b + ?n)" using gap(1) by (auto simp: length_write_at)
  have "max (min n (length c - off)) (op_reach n off op) = min n (length ?c - off)"
    unfolding len_c using gap(1) by (auto simp: op_reach_def Let_def min_def max_def)
  then show ?case using Cons.IH [OF gap(2)] Cons.prems(2)
    by (simp add: ops_reach_def op_write_Cons)
qed (simp add: ops_reach_def apply_writes_def)

lemma ops_reach_max: "ops_reach n off ops (max a b) = max a (ops_reach n off ops b)"
  by (induction ops arbitrary: b) (simp_all add: ops_reach_def max.assoc)

text \<open>The operations of the write set against the whole block of the write buffer.\<close>

lemma sb_writes_block:
  assumes "seekbuf_wf lm sb"
  shows "map (op_write (block_of (sb_wrbuf sb))) (sb_ops sb) = sb_writes sb"
    and "\<forall>op\<in>set (sb_ops sb). ioop_ok (block_of (sb_wrbuf sb)) op"
proof -
  have ok: "\<forall>op\<in>set (sb_ops sb). ioop_ok (sb_bytes sb) op" using assms by (simp add: seekbuf_wf_def)
  have block: "block_of (sb_wrbuf sb) = sb_bytes sb @ drop (unat (sb_wrbuflen sb)) (block_of (sb_wrbuf sb))" by simp
  have same: "op_bytes (block_of (sb_wrbuf sb)) op = op_bytes (sb_bytes sb) op" if "op \<in> set (sb_ops sb)" for op
    by (subst block, rule op_bytes_append) (use ok that in blast)
  have "ioop_ok (block_of (sb_wrbuf sb)) op" if "op \<in> set (sb_ops sb)" for op
    by (subst block, rule ioop_ok_append) (use ok that in blast)
  then show "\<forall>op\<in>set (sb_ops sb). ioop_ok (block_of (sb_wrbuf sb)) op" by blast
  show "map (op_write (block_of (sb_wrbuf sb))) (sb_ops sb) = sb_writes sb"
    unfolding sb_writes_def op_write_def using same by (intro map_cong) simp_all
qed

text \<open>The buffer after the merge holds the bytes of the transaction's file, and the result is their number.\<close>

lemma merge_writeset_reads:
  assumes "seekbuf_wf lm sb" and "gapless (sb_writes sb) c" and "f = apply_writes (sb_writes sb) c" and "range_ok off n"
    and "bs = file_bytes (unat n) (unat off) c" and "unat len = length bs" and "length buf = unat n"
  obtains res buf' where "merge_writeset sb len (bs @ drop (length bs) buf) n off = (res, buf')"
    and "take (unat res) buf' = file_bytes (unat n) (unat off) f" and "unat res = length (file_bytes (unat n) (unat off) f)"
    and "length buf' = unat n"
proof -
  let ?iobuf = "block_of (sb_wrbuf sb)" and ?buf = "bs @ drop (length bs) buf"
  note ops = sb_writes_block [OF assms(1)]
  have bs_len: "length bs = min (unat n) (length c - unat off)" unfolding assms(5) by (rule file_bytes_length)
  have buf_len: "length ?buf = unat n" using assms(7) bs_len by simp
  obtain len2 buf' where m: "iooptab_read (block_of (sb_wrtab sb)) (sb_wrtablen sb) ?buf n off ?iobuf = (len2, buf')"
      "length buf' = length ?buf" "unat len2 = ops_reach (unat n) (unat off) (sb_ops sb) 0"
      "\<forall>i<length ?buf. buf' ! i = fold (op_put ?iobuf) (sb_ops sb) (\<lambda>j. ?buf ! (j - unat off)) (unat off + i)"
    using iooptab_read_spec [OF ops(2) assms(4) buf_len] by blast
  have reach: "max (unat len) (unat len2) = min (unat n) (length f - unat off)"
    unfolding m(3) ops_reach_max [symmetric]
    using merged_length [of ?iobuf "sb_ops sb" c "unat n" "unat off"] ops assms(2,3,6) bs_len by simp
  have small: "unat n < 2 ^ 63" by (rule range_small(2) [OF assms(4)])
  have "unat len < 2 ^ 63" "unat len2 < 2 ^ 63" using reach small by linarith+
  then have res: "unat (llmax len len2) = min (unat n) (length f - unat off)"
    by (simp add: unat_llmax reach)
  have start: "?buf ! (j - unat off) = c ! j" if "unat off \<le> j" "j < length c" "j - unat off < unat n" for j
  proof -
    have "j - unat off < length bs" using that bs_len by simp
    moreover have "bs ! (j - unat off) = c ! j" using that by (simp add: assms(5) file_bytes_def)
    ultimately show ?thesis by (simp add: nth_append)
  qed
  have at: "buf' ! i = f ! (unat off + i)" if "i < min (unat n) (length f - unat off)" for i
  proof -
    define g where "g j = (if j = unat off + i then ?buf ! i else c ! j)" for j
    have "fold (op_put ?iobuf) (sb_ops sb) (\<lambda>j. ?buf ! (j - unat off)) (unat off + i) =
        fold (op_put ?iobuf) (sb_ops sb) g (unat off + i)"
      by (rule fold_op_put_at) (simp add: g_def)
    also have "\<dots> = apply_writes (map (op_write ?iobuf) (sb_ops sb)) c ! (unat off + i)"
    proof (rule merged_bytes)
      show "g j = c ! j" if "unat off \<le> j" "j < length c" for j
        using start [of j] that \<open>i < _\<close> by (auto simp: g_def)
    qed (use ops assms(2,3) that in auto)
    finally show ?thesis using m(4) buf_len that ops(1) assms(3) by simp
  qed
  show thesis
  proof (rule that)
    show "merge_writeset sb len ?buf n off = (llmax len len2, buf')" using m(1) by (simp add: merge_writeset_def)
    show "unat (llmax len len2) = length (file_bytes (unat n) (unat off) f)" by (simp add: res file_bytes_length)
    show "take (unat (llmax len len2)) buf' = file_bytes (unat n) (unat off) f"
      using at m(2) buf_len by (intro nth_equalityI) (auto simp: res file_bytes_def)
    show "length buf' = unat n" using m(2) buf_len by simp
  qed
qed

end
