(* ===== verification/Fildes_Regfile_Spec.thy ===== *)
theory Fildes_Regfile_Spec
  imports Fildes_Writes
begin

text \<open>
  Operations of transactions on regular files against the file that the transaction sees: a list of bytes
  and an offset.  Each operation keeps the transaction well-formed, whatever happens; without an error it
  returns what the same call returns for that file, and changes the file and the offset in the same way.
\<close>

subsection \<open>Well-formed transactions\<close>

definition regfile_wf :: "bool \<Rightarrow> regfile_tx \<Rightarrow> bool" where
  "regfile_wf lm self \<longleftrightarrow> seekbuf_wf lm (rf_seekbuf_tx self) \<and> length (rf_rwstate self) = 3 \<and>
     tab_ok 58 lm (rf_seektab self) (rf_seektablen self) (rf_seektablen self)"

definition tx_wf :: "('o, 'a) file_sys \<Rightarrow> regfile_tx \<Rightarrow> ('o, 'a) file_world \<Rightarrow> bool" where
  "tx_wf sys self w \<longleftrightarrow> allocators_ok sys \<and> regions_ok (sys_malloc sys) (fw_regions w) \<and> regfile_wf (fw_lowmem w) self"

lemma regfile_wf_lowmem: "regfile_wf lm self \<Longrightarrow> lm' = lm \<or> lm' \<Longrightarrow> regfile_wf lm' self"
  unfolding regfile_wf_def
  by (elim conjE) (intro conjI; (assumption | erule tab_ok_lowmem seekbuf_wf_lowmem)?; simp)

lemma tx_wf_step: "tx_wf sys self w \<Longrightarrow> world_step sys v w w' \<Longrightarrow> tx_wf sys self w'"
  using regfile_wf_lowmem unfolding tx_wf_def world_step_def by blast

lemma tx_wf_seekbuf: "tx_wf sys self w \<Longrightarrow> seekbuf_wf (fw_lowmem w) sb \<Longrightarrow> tx_wf sys (self\<lparr>rf_seekbuf_tx := sb\<rparr>) w"
  by (simp add: tx_wf_def regfile_wf_def)

lemma tx_wfD:
  assumes "tx_wf sys self w"
  shows "allocators_ok sys" and "regions_ok (sys_malloc sys) (fw_regions w)" and "seekbuf_wf (fw_lowmem w) (rf_seekbuf_tx self)"
    and "length (rf_rwstate self) = 3" and "length (sb_rwstate (rf_seekbuf_tx self)) = 2"
    and "sb_wrmode (rf_seekbuf_tx self) = PICOTM_LIBC_WRITE_BACK"
  using assms by (simp_all add: tx_wf_def regfile_wf_def seekbuf_wf_def)

text \<open>How much of its tables a transaction has used.\<close>

definition tx_used :: "nat \<Rightarrow> nat \<Rightarrow> regfile_tx \<Rightarrow> bool" where
  "tx_used k b self \<longleftrightarrow> unat (sb_wrtablen (rf_seekbuf_tx self)) \<le> k \<and> unat (sb_rdtablen (rf_seekbuf_tx self)) \<le> k \<and>
     unat (sb_locktablen (rf_seekbuf_tx self)) \<le> k \<and> unat (rf_seektablen self) \<le> k \<and>
     unat (sb_wrbuflen (rf_seekbuf_tx self)) \<le> b"

lemma tx_used_mono: "tx_used k b self \<Longrightarrow> k \<le> k' \<Longrightarrow> b \<le> b' \<Longrightarrow> tx_used k' b' self"
  by (auto simp: tx_used_def)

subsection \<open>The file that the transaction sees\<close>

definition offset_known :: "regfile_tx \<Rightarrow> bool" where
  "offset_known self \<longleftrightarrow> status (rf_rwstate self ! REGFILE_FIELD_FILE_OFFSET) \<noteq> PICOTM_RWSTATE_UNLOCKED"

definition tx_size_ok :: "seekbuf_tx \<Rightarrow> u8 list \<Rightarrow> bool" where
  "tx_size_ok sb f \<longleftrightarrow> (if size_known sb then unat (sb_file_size sb) = length f else sb_writes sb = [])"

definition tx_sees ::
  "'o file_view \<Rightarrow> regfile_tx \<Rightarrow> ('o, 'a) file_world \<Rightarrow> u8 list \<Rightarrow> nat \<Rightarrow> bool"
where
  "tx_sees v self w f p \<longleftrightarrow>
     apply_writes (sb_writes (rf_seekbuf_tx self)) (vw_content v (fw_os w)) = f \<and>
     gapless (sb_writes (rf_seekbuf_tx self)) (vw_content v (fw_os w)) \<and> length f < 2 ^ 63 \<and> p < 2 ^ 63 \<and>
     (if offset_known self then unat (rf_offset self) else vw_position v (fw_os w)) = p \<and>
     tx_size_ok (rf_seekbuf_tx self) f"

lemma tx_sees_step: "tx_sees v self w f p \<Longrightarrow> world_step sys v w w' \<Longrightarrow> tx_sees v self w' f p"
proof -
  assume sees: "tx_sees v self w f p" and "world_step sys v w w'"
  then have same: "vw_content v (fw_os w') = vw_content v (fw_os w)" "vw_position v (fw_os w') = vw_position v (fw_os w)"
    by (simp_all add: world_step_def same_file_def)
  show ?thesis using sees unfolding tx_sees_def same .
qed

lemma tx_sees_cong:
  "sb_writes (rf_seekbuf_tx self') = sb_writes (rf_seekbuf_tx self) \<Longrightarrow>
   size_known (rf_seekbuf_tx self') = size_known (rf_seekbuf_tx self) \<Longrightarrow>
   sb_file_size (rf_seekbuf_tx self') = sb_file_size (rf_seekbuf_tx self) \<Longrightarrow>
   offset_known self' = offset_known self \<Longrightarrow> rf_offset self' = rf_offset self \<Longrightarrow>
   tx_sees v self' w f p = tx_sees v self w f p"
  by (simp only: tx_sees_def tx_size_ok_def)

lemma tx_sees_size: "tx_sees v self w f p \<Longrightarrow> \<not> size_known (rf_seekbuf_tx self) \<Longrightarrow> vw_content v (fw_os w) = f"
  by (auto simp: tx_sees_def tx_size_ok_def apply_writes_def)

text \<open>What a transaction has buffered is never taken back while it runs.\<close>

definition seeks :: "regfile_tx \<Rightarrow> seekop list" where
  "seeks self = in_use (rf_seektab self) (rf_seektablen self)"

definition buffered :: "regfile_tx \<Rightarrow> (nat \<times> u8 list) list \<times> ioop list \<times> seekop list" where
  "buffered self = (sb_writes (rf_seekbuf_tx self), sb_reads (rf_seekbuf_tx self), seeks self)"

subsection \<open>The file offset\<close>

lemma regfile_rdlock_field:
  obtains st w' e' where
      "regfile_tx_try_rdlock_field sys self fld w e = Some ((), self\<lparr>rf_rwstate := (rf_rwstate self)[fld := st]\<rparr>, w', e')"
    and "world_step sys v w w'" and "\<not> picotm_error_is_set e' \<longrightarrow> status st \<noteq> PICOTM_RWSTATE_UNLOCKED"
    and "picotm_error_is_set e' \<longrightarrow> status st = status (rf_rwstate self ! fld)"
proof -
  let ?a = "regfile_field_addr sys fld"
  obtain st mem e' where r: "picotm_rwstate_try_rdlock (sys_waits sys ?a) (sys_sleeps sys ?a) ?a (rf_rwstate self ! fld)
      (fw_regfile_rwlock w ! fld) e = Some (st, mem, e')"
    and s: "if picotm_error_is_set e' then status st = status (rf_rwstate self ! fld) \<or>
         \<not> status (rf_rwstate self ! fld) = PICOTM_RWSTATE_UNLOCKED \<and> st = rf_rwstate self ! fld
       else status st \<noteq> PICOTM_RWSTATE_UNLOCKED"
    using rwstate_rdlock_ends by blast
  show thesis
  proof (rule that)
    show "regfile_tx_try_rdlock_field sys self fld w e = Some ((), self\<lparr>rf_rwstate := (rf_rwstate self)[fld := st]\<rparr>,
        w\<lparr>fw_regfile_rwlock := (fw_regfile_rwlock w)[fld := mem]\<rparr>, e')"
      by (simp add: regfile_tx_try_rdlock_field_def regfile_try_rdlock_field_def r)
    show "world_step sys v w (w\<lparr>fw_regfile_rwlock := (fw_regfile_rwlock w)[fld := mem]\<rparr>)"
      by (simp add: world_step_def same_file_def)
  qed (use s in \<open>auto split: if_splits\<close>)
qed

lemma regfile_wrlock_field:
  obtains st w' e' where
      "regfile_tx_try_wrlock_field sys self fld w e = Some ((), self\<lparr>rf_rwstate := (rf_rwstate self)[fld := st]\<rparr>, w', e')"
    and "world_step sys v w w'" and "\<not> picotm_error_is_set e' \<longrightarrow> status st \<noteq> PICOTM_RWSTATE_UNLOCKED"
    and "picotm_error_is_set e' \<longrightarrow> status st = status (rf_rwstate self ! fld)"
proof -
  let ?a = "regfile_field_addr sys fld"
  obtain st mem e' where r: "picotm_rwstate_try_wrlock (sys_waits sys ?a) (sys_sleeps sys ?a) ?a (rf_rwstate self ! fld)
      (fw_regfile_rwlock w ! fld) e = Some (st, mem, e')"
    and s: "\<not> picotm_error_is_set e' \<longrightarrow> status st = PICOTM_RWSTATE_WRLOCKED"
      "picotm_error_is_set e' \<longrightarrow> status st = status (rf_rwstate self ! fld)"
    using rwstate_wrlock_ends by blast
  show thesis
  proof (rule that)
    show "regfile_tx_try_wrlock_field sys self fld w e = Some ((), self\<lparr>rf_rwstate := (rf_rwstate self)[fld := st]\<rparr>,
        w\<lparr>fw_regfile_rwlock := (fw_regfile_rwlock w)[fld := mem]\<rparr>, e')"
      by (simp add: regfile_tx_try_wrlock_field_def regfile_try_wrlock_field_def r)
    show "world_step sys v w (w\<lparr>fw_regfile_rwlock := (fw_regfile_rwlock w)[fld := mem]\<rparr>)"
      by (simp add: world_step_def same_file_def)
  qed (use s in auto)
qed

lemma seek_nowhere:
  assumes "seeks_file sys fd v" and "sys_lseek sys fd 0 SEEK_CUR os = (res, u, en, os')"
  shows "same_file v os os'" and "res \<noteq> - 1 \<Longrightarrow> unat res = vw_position v os"
proof -
  have r: "vw_content v os' = vw_content v os \<and>
      (if res = - 1 then vw_position v os' = vw_position v os
       else unat res < 2 ^ 63 \<and> vw_position v os' = unat res \<and>
         seek_target (length (vw_content v os)) (vw_position v os) 0 SEEK_CUR = Some (int (unat res)))"
    using assms unfolding seeks_file_def by (metis old.unit.exhaust)
  then have "res \<noteq> - 1 \<longrightarrow> seek_target (length (vw_content v os)) (vw_position v os) 0 SEEK_CUR = Some (int (unat res))"
    by metis
  then have "res \<noteq> - 1 \<longrightarrow> int (vw_position v os) = int (unat res)"
    by (simp add: seek_target_def SEEK_SET_def SEEK_CUR_def)
  then have "res \<noteq> - 1 \<longrightarrow> vw_position v os = unat res" by (simp only: of_nat_eq_iff)
  then show "same_file v os os'" "res \<noteq> - 1 \<Longrightarrow> unat res = vw_position v os"
    using r by (auto simp: same_file_def split: if_splits)
qed

lemma regfile_get_offset:
  assumes "seeks_file sys fd v" and "length (rf_rwstate self) = 3"
  obtains r rs off w' e' where
      "regfile_tx_get_file_offset sys self fd w e = Some (r, self\<lparr>rf_rwstate := rs, rf_offset := off\<rparr>, w', e')"
    and "length rs = 3" and "world_step sys v w w'"
    and "\<not> picotm_error_is_set e' \<longrightarrow> r = off \<and> status (rs ! REGFILE_FIELD_FILE_OFFSET) \<noteq> PICOTM_RWSTATE_UNLOCKED \<and>
      unat off = (if offset_known self then unat (rf_offset self) else vw_position v (fw_os w))"
proof (cases "offset_known self")
  case True
  show thesis
  proof (rule that)
    show "regfile_tx_get_file_offset sys self fd w e =
        Some (rf_offset self, self\<lparr>rf_rwstate := rf_rwstate self, rf_offset := rf_offset self\<rparr>, w, e)"
      using True by (simp add: regfile_tx_get_file_offset_def offset_known_def picotm_rwstate_get_status_def)
  qed (use True assms(2) in \<open>simp_all add: offset_known_def\<close>)
next
  case False
  obtain st w1 e1 where l: "regfile_tx_try_rdlock_field sys self REGFILE_FIELD_FILE_OFFSET w e =
      Some ((), self\<lparr>rf_rwstate := (rf_rwstate self)[REGFILE_FIELD_FILE_OFFSET := st]\<rparr>, w1, e1)"
    and w1: "world_step sys v w w1" and st: "\<not> picotm_error_is_set e1 \<longrightarrow> status st \<noteq> PICOTM_RWSTATE_UNLOCKED"
    using regfile_rdlock_field by blast
  let ?rs = "(rf_rwstate self)[REGFILE_FIELD_FILE_OFFSET := st]"
  obtain res u w2 where f: "os_do (sys_lseek sys fd 0 SEEK_CUR) w1 = (res, u, w2)" by (rule prod_cases3)
  obtain en where c: "sys_lseek sys fd 0 SEEK_CUR (fw_os w1) = (res, u, en, fw_os w2)" using os_do_os [OF f] by blast
  note seek = seek_nowhere [OF assms(1) c]
  have w2: "world_step sys v w w2" using w1 os_only_step [OF os_do_only [OF f] seek(1)] by (rule world_step_trans)
  have unk: "picotm_rwstate_get_status (rf_rwstate self ! REGFILE_FIELD_FILE_OFFSET) = PICOTM_RWSTATE_UNLOCKED"
    using False by (simp add: offset_known_def picotm_rwstate_get_status_def)
  have new: "?rs ! REGFILE_FIELD_FILE_OFFSET = st" using assms(2) by (simp add: REGFILE_FIELD_FILE_OFFSET_def)
  note def = regfile_tx_get_file_offset_def [of sys self fd w e] unk l f
  consider "picotm_error_is_set e1" | "\<not> picotm_error_is_set e1" "res = - 1" | "\<not> picotm_error_is_set e1" "res \<noteq> - 1"
    by blast
  then show thesis
  proof cases
    case 1
    show thesis
    proof (rule that)
      show "regfile_tx_get_file_offset sys self fd w e = Some (- 1, self\<lparr>rf_rwstate := ?rs, rf_offset := rf_offset self\<rparr>, w1, e1)"
        using 1 by (simp add: def)
    qed (use 1 w1 assms(2) in simp_all)
  next
    case 2
    show thesis
    proof (rule that)
      show "regfile_tx_get_file_offset sys self fd w e = Some (res, self\<lparr>rf_rwstate := ?rs, rf_offset := rf_offset self\<rparr>, w2,
          picotm_error_set_errno e1 (errno_of w2))"
        using 2 by (simp add: def)
    qed (use w2 assms(2) in \<open>simp_all add: errno_set\<close>)
  next
    case 3
    show thesis
    proof (rule that)
      show "regfile_tx_get_file_offset sys self fd w e = Some (res, self\<lparr>rf_rwstate := ?rs, rf_offset := res\<rparr>, w2, e1)"
        using 3 by (simp add: def Let_def)
    qed (use 3 w1 w2 assms(2) False new st seek(2) in \<open>simp_all add: world_step_def same_file_def\<close>)
  qed
qed

lemma regfile_set_offset:
  assumes "length (rf_rwstate self) = 3"
  obtains rs off w' e' where
      "regfile_tx_set_file_offset sys self offset w e = Some ((), self\<lparr>rf_rwstate := rs, rf_offset := off\<rparr>, w', e')"
    and "length rs = 3" and "world_step sys v w w'"
    and "\<not> picotm_error_is_set e' \<longrightarrow> off = offset \<and> status (rs ! REGFILE_FIELD_FILE_OFFSET) \<noteq> PICOTM_RWSTATE_UNLOCKED"
proof -
  obtain st w1 e1 where l: "regfile_tx_try_wrlock_field sys self REGFILE_FIELD_FILE_OFFSET w e =
      Some ((), self\<lparr>rf_rwstate := (rf_rwstate self)[REGFILE_FIELD_FILE_OFFSET := st]\<rparr>, w1, e1)"
    and w1: "world_step sys v w w1" and st: "\<not> picotm_error_is_set e1 \<longrightarrow> status st \<noteq> PICOTM_RWSTATE_UNLOCKED"
    using regfile_wrlock_field by blast
  let ?rs = "(rf_rwstate self)[REGFILE_FIELD_FILE_OFFSET := st]"
  have new: "?rs ! REGFILE_FIELD_FILE_OFFSET = st" using assms by (simp add: REGFILE_FIELD_FILE_OFFSET_def)
  let ?off = "if picotm_error_is_set e1 then rf_offset self else offset"
  show thesis
  proof (rule that)
    show "regfile_tx_set_file_offset sys self offset w e = Some ((), self\<lparr>rf_rwstate := ?rs, rf_offset := ?off\<rparr>, w1, e1)"
      by (simp add: regfile_tx_set_file_offset_def l)
  qed (use w1 assms new st in simp_all)
qed

subsection \<open>Locking a region\<close>

lemma region_locked_tx:
  assumes "region_locked sys v (rf_seekbuf_tx self) w sb' w'" and "tx_wf sys self w"
  shows "world_step sys v w w'" and "tx_wf sys (self\<lparr>rf_seekbuf_tx := sb'\<rparr>) w'"
    and "tx_sees v self w f p \<Longrightarrow> tx_sees v (self\<lparr>rf_seekbuf_tx := sb'\<rparr>) w' f p"
    and "buffered (self\<lparr>rf_seekbuf_tx := sb'\<rparr>) = buffered self"
    and "tx_used k b self \<Longrightarrow> tx_used (Suc k) b (self\<lparr>rf_seekbuf_tx := sb'\<rparr>)"
    and "size_known sb' = size_known (rf_seekbuf_tx self)" and "sb_file_size sb' = sb_file_size (rf_seekbuf_tx self)"
    and "sb_wrtablen sb' = sb_wrtablen (rf_seekbuf_tx self)" and "sb_rdtablen sb' = sb_rdtablen (rf_seekbuf_tx self)"
    and "sb_wrbuflen sb' = sb_wrbuflen (rf_seekbuf_tx self)"
proof -
  obtain tab n siz where sb': "sb' = (rf_seekbuf_tx self)\<lparr>sb_locktab := tab, sb_locktablen := n, sb_locktabsiz := siz\<rparr>"
    and n: "unat n \<le> Suc (unat (sb_locktablen (rf_seekbuf_tx self)))" and tab: "tab_ok 59 (fw_lowmem w') tab n siz"
    and step: "world_step sys v w w'"
    using assms(1) unfolding region_locked_def by blast
  show "world_step sys v w w'" by (rule step)
  have wf: "tx_wf sys self w'" using assms(2) step by (rule tx_wf_step)
  then have "seekbuf_wf (fw_lowmem w') sb'" using tab unfolding sb' by (simp add: tx_wf_def regfile_wf_def seekbuf_wf_def)
  with wf show "tx_wf sys (self\<lparr>rf_seekbuf_tx := sb'\<rparr>) w'" by (rule tx_wf_seekbuf)
  have writes: "sb_writes sb' = sb_writes (rf_seekbuf_tx self)" unfolding sb' by (simp add: sb_writes_def)
  show "size_known sb' = size_known (rf_seekbuf_tx self)" "sb_file_size sb' = sb_file_size (rf_seekbuf_tx self)"
    "sb_wrtablen sb' = sb_wrtablen (rf_seekbuf_tx self)" "sb_rdtablen sb' = sb_rdtablen (rf_seekbuf_tx self)"
    "sb_wrbuflen sb' = sb_wrbuflen (rf_seekbuf_tx self)"
    unfolding sb' by (simp_all add: size_known_def)
  then show "tx_sees v (self\<lparr>rf_seekbuf_tx := sb'\<rparr>) w' f p" if "tx_sees v self w f p"
    using tx_sees_step [OF that step] tx_sees_cong [of "self\<lparr>rf_seekbuf_tx := sb'\<rparr>" self v w' f p] writes
    by (simp add: offset_known_def)
  show "buffered (self\<lparr>rf_seekbuf_tx := sb'\<rparr>) = buffered self"
    by (simp add: buffered_def writes seeks_def) (simp add: sb')
  show "tx_used (Suc k) b (self\<lparr>rf_seekbuf_tx := sb'\<rparr>)" if "tx_used k b self"
    using that n by (simp add: tx_used_def sb')
qed

lemma tx_lock_region:
  assumes "tx_wf sys self w" and "tx_used k b self" and "k < 2 ^ 31" and "\<not> picotm_error_is_set e"
  shows "\<exists>r sb' w' e'. on_seekbuf_tx self (\<lambda>sb. seekbuf_tx_try_rdlock_region sys sb n off w e) =
      Some (r, self\<lparr>rf_seekbuf_tx := sb'\<rparr>, w', e') \<and> region_locked sys v (rf_seekbuf_tx self) w sb' w'"
    and "\<exists>r sb' w' e'. on_seekbuf_tx self (\<lambda>sb. seekbuf_tx_try_wrlock_region sys sb n off w e) =
      Some (r, self\<lparr>rf_seekbuf_tx := sb'\<rparr>, w', e') \<and> region_locked sys v (rf_seekbuf_tx self) w sb' w'"
proof -
  have room: "unat (sb_locktablen (rf_seekbuf_tx self)) < 2 ^ 59" using assms(2,3) by (simp add: tx_used_def)
  note lock = seekbuf_lock_region [OF tx_wfD(1) [OF assms(1)] assms(4) room tx_wfD(3,2) [OF assms(1)], of n off v]
  show "\<exists>r sb' w' e'. on_seekbuf_tx self (\<lambda>sb. seekbuf_tx_try_rdlock_region sys sb n off w e) =
      Some (r, self\<lparr>rf_seekbuf_tx := sb'\<rparr>, w', e') \<and> region_locked sys v (rf_seekbuf_tx self) w sb' w'"
    using lock(1) by (auto simp: on_seekbuf_tx_def)
  show "\<exists>r sb' w' e'. on_seekbuf_tx self (\<lambda>sb. seekbuf_tx_try_wrlock_region sys sb n off w e) =
      Some (r, self\<lparr>rf_seekbuf_tx := sb'\<rparr>, w', e') \<and> region_locked sys v (rf_seekbuf_tx self) w sb' w'"
    using lock(2) by (auto simp: on_seekbuf_tx_def)
qed

subsection \<open>\<open>pread\<close>\<close>

text \<open>What every operation keeps.\<close>

definition keeps_tx ::
  "('o, 'a) file_sys \<Rightarrow> 'o file_view \<Rightarrow> nat \<Rightarrow> nat \<Rightarrow> ('o, 'a) file_world \<Rightarrow> regfile_tx \<Rightarrow> ('o, 'a) file_world \<Rightarrow> bool"
where
  "keeps_tx sys v k b w self' w' \<longleftrightarrow> world_step sys v w w' \<and> tx_wf sys self' w' \<and> tx_used k b self'"

text \<open>The answer of a call that reads from the file \<open>f\<close>.\<close>

definition reads_answer :: "u64 \<Rightarrow> u8 list \<Rightarrow> nat \<Rightarrow> nat \<Rightarrow> u8 list \<Rightarrow> bool" where
  "reads_answer res buf n off f \<longleftrightarrow> unat res = length (file_bytes n off f) \<and> take (unat res) buf = file_bytes n off f"

lemma pread_merged:
  assumes "regular_file sys fd v" and "tx_wf sys self w" and "range_ok off n" and "length buf = unat n"
  shows "\<exists>len buf1 w1 e1. do_pread sys fd buf n off w e = Some (len, buf1, w1, e1) \<and> world_step sys v w w1 \<and>
    (\<not> picotm_error_is_set e1 \<longrightarrow> reliable_file sys fd \<longrightarrow>
      (\<forall>f p. tx_sees v self w f p \<longrightarrow>
        (\<exists>res buf'. merge_writeset (rf_seekbuf_tx self) len buf1 n off = (res, buf') \<and> reads_answer res buf' (unat n) (unat off) f)))"
proof -
  have pr: "preads_file sys fd v" using assms(1) by (simp add: regular_file_def)
  obtain len buf1 w1 e1 where r: "do_pread sys fd buf n off w e = Some (len, buf1, w1, e1)"
      "pread_result (reliable_file sys fd) (vw_content v (fw_os w)) (unat off) (unat n) buf e len buf1 e1"
      "same_file v (fw_os w) (fw_os w1)" "os_only w w1"
    using do_pread_spec [OF pr assms(3)] by metis
  have "\<exists>res buf'. merge_writeset (rf_seekbuf_tx self) len buf1 n off = (res, buf') \<and> reads_answer res buf' (unat n) (unat off) f"
    if "reliable_file sys fd" and sees: "tx_sees v self w f p" for f p
  proof -
    let ?bs = "file_bytes (unat n) (unat off) (vw_content v (fw_os w))"
    have bs: "buf1 = ?bs @ drop (length ?bs) buf" "unat len = length ?bs"
      using r(2) that(1) unfolding pread_result_def by auto
    have w: "gapless (sb_writes (rf_seekbuf_tx self)) (vw_content v (fw_os w))"
        "f = apply_writes (sb_writes (rf_seekbuf_tx self)) (vw_content v (fw_os w))"
      using sees unfolding tx_sees_def by blast+
    obtain res buf' where "merge_writeset (rf_seekbuf_tx self) len (?bs @ drop (length ?bs) buf) n off = (res, buf')"
        "take (unat res) buf' = file_bytes (unat n) (unat off) f" "unat res = length (file_bytes (unat n) (unat off) f)"
      using merge_writeset_reads [OF tx_wfD(3) [OF assms(2)] w assms(3) refl bs(2) assms(4)] by metis
    then show ?thesis unfolding bs(1) reads_answer_def by blast
  qed
  with r(1) os_only_step [OF r(4,3)] show ?thesis by blast
qed

lemma pread_op:
  assumes "regular_file sys fd v" and "tx_wf sys self w" and "tx_used k b self" and "k < 2 ^ 31" and "\<not> picotm_error_is_set e"
    and "range_ok off n" and "length buf = unat n"
  shows "\<exists>res buf' self' w' e'. regfile_tx_op_pread_exec sys self fd buf n off w e = Some ((res, buf'), self', w', e') \<and>
    keeps_tx sys v (Suc k) b w self' w' \<and>
    (\<not> picotm_error_is_set e' \<longrightarrow> buffered self' = buffered self \<and>
      (reliable_file sys fd \<longrightarrow> (\<forall>f p. tx_sees v self w f p \<longrightarrow>
        tx_sees v self' w' f p \<and> reads_answer res buf' (unat n) (unat off) f)))"
proof -
  obtain r sb1 w1 e1 where l: "on_seekbuf_tx self (\<lambda>sb. seekbuf_tx_try_rdlock_region sys sb n off w e) =
      Some (r, self\<lparr>rf_seekbuf_tx := sb1\<rparr>, w1, e1)" "region_locked sys v (rf_seekbuf_tx self) w sb1 w1"
    using tx_lock_region(1) [OF assms(2-5)] by blast
  let ?self = "self\<lparr>rf_seekbuf_tx := sb1\<rparr>"
  note lt = region_locked_tx [OF l(2) assms(2)]
  have kept: "keeps_tx sys v (Suc k) b w ?self w1" using lt(1,2) lt(5) [OF assms(3)] by (simp add: keeps_tx_def)
  show ?thesis
  proof (cases "picotm_error_is_set e1")
    case True
    then have "regfile_tx_op_pread_exec sys self fd buf n off w e = Some ((- 1, buf), ?self, w1, e1)"
      using l(1) by (simp add: regfile_tx_op_pread_exec_def)
    with True kept show ?thesis by blast
  next
    case ok: False
    obtain len buf1 w2 e2 where d: "do_pread sys fd buf n off w1 e1 = Some (len, buf1, w2, e2)" "world_step sys v w1 w2"
      and m: "\<not> picotm_error_is_set e2 \<longrightarrow> reliable_file sys fd \<longrightarrow>
        (\<forall>f p. tx_sees v ?self w1 f p \<longrightarrow>
          (\<exists>res buf'. merge_writeset (rf_seekbuf_tx ?self) len buf1 n off = (res, buf') \<and> reads_answer res buf' (unat n) (unat off) f))"
      using pread_merged [OF assms(1) lt(2) assms(6,7), of e1] by blast
    have kept2: "keeps_tx sys v (Suc k) b w ?self w2"
      using kept d(2) world_step_trans tx_wf_step unfolding keeps_tx_def by blast
    show ?thesis
    proof (cases "picotm_error_is_set e2")
      case True
      then have "regfile_tx_op_pread_exec sys self fd buf n off w e = Some ((len, buf1), ?self, w2, e2)"
        using l(1) ok d(1) by (simp add: regfile_tx_op_pread_exec_def)
      with True kept2 show ?thesis by blast
    next
      case False
      obtain res buf' where mm: "merge_writeset (rf_seekbuf_tx ?self) len buf1 n off = (res, buf')" by fastforce
      then have go: "regfile_tx_op_pread_exec sys self fd buf n off w e = Some ((res, buf'), ?self, w2, e2)"
        using l(1) ok d(1) False by (simp add: regfile_tx_op_pread_exec_def)
      have "tx_sees v ?self w2 f p \<and> reads_answer res buf' (unat n) (unat off) f"
        if "reliable_file sys fd" "tx_sees v self w f p" for f p
      proof -
        have s1: "tx_sees v ?self w1 f p" by (rule lt(3) [OF that(2)])
        then have "reads_answer res buf' (unat n) (unat off) f" using m False that(1) mm by auto
        with tx_sees_step [OF s1 d(2)] show ?thesis by blast
      qed
      with go kept2 lt(4) show ?thesis by blast
    qed
  qed
qed

end
