(* ===== verification/Fildes_Regfile_Ops.thy ===== *)
theory Fildes_Regfile_Ops
  imports Fildes_Regfile_Spec
begin

text \<open>
  The operations of \<open>Fildes_Regfile_Spec\<close> that change what the transaction sees: writing, and those that move
  the file offset.
\<close>

subsection \<open>Offset and size\<close>

text \<open>Fields of the file's own transaction change, the buffer's does not.\<close>

lemma offset_fields:
  assumes "tx_wf sys self w" and "length rs = 3"
  shows "tx_wf sys (self\<lparr>rf_rwstate := rs, rf_offset := off\<rparr>) w"
    and "tx_used k b (self\<lparr>rf_rwstate := rs, rf_offset := off\<rparr>) = tx_used k b self"
    and "buffered (self\<lparr>rf_rwstate := rs, rf_offset := off\<rparr>) = buffered self"
  using assms by (simp_all add: tx_wf_def regfile_wf_def tx_used_def buffered_def seeks_def)

lemma tx_get_offset:
  assumes "regular_file sys fd v" and "tx_wf sys self w"
  shows "\<exists>r rs off w' e'. regfile_tx_get_file_offset sys self fd w e = Some (r, self\<lparr>rf_rwstate := rs, rf_offset := off\<rparr>, w', e') \<and>
    length rs = 3 \<and> world_step sys v w w' \<and>
    (\<not> picotm_error_is_set e' \<longrightarrow>
      (\<forall>f p. tx_sees v self w f p \<longrightarrow> tx_sees v (self\<lparr>rf_rwstate := rs, rf_offset := off\<rparr>) w' f p \<and> unat r = p))"
proof -
  have sk: "seeks_file sys fd v" using assms(1) by (simp add: regular_file_def)
  obtain r rs off w' e' where g: "regfile_tx_get_file_offset sys self fd w e = Some (r, self\<lparr>rf_rwstate := rs, rf_offset := off\<rparr>, w', e')"
    and k: "length rs = 3" "world_step sys v w w'"
    and val: "\<not> picotm_error_is_set e' \<longrightarrow> r = off \<and> status (rs ! REGFILE_FIELD_FILE_OFFSET) \<noteq> PICOTM_RWSTATE_UNLOCKED \<and>
      unat off = (if offset_known self then unat (rf_offset self) else vw_position v (fw_os w))"
    by (rule regfile_get_offset [OF sk tx_wfD(4) [OF assms(2)]])
  have "tx_sees v (self\<lparr>rf_rwstate := rs, rf_offset := off\<rparr>) w' f p \<and> unat r = p"
    if "\<not> picotm_error_is_set e'" and sees: "tx_sees v self w f p" for f p
  proof -
    have p: "(if offset_known self then unat (rf_offset self) else vw_position v (fw_os w)) = p"
      using sees unfolding tx_sees_def by blast
    have new: "r = off" "status (rs ! REGFILE_FIELD_FILE_OFFSET) \<noteq> PICOTM_RWSTATE_UNLOCKED" "unat off = p"
      using val that(1) p by metis+
    then have "offset_known (self\<lparr>rf_rwstate := rs, rf_offset := off\<rparr>)" by (simp add: offset_known_def)
    then show ?thesis using tx_sees_step [OF sees k(2)] new(1,3) by (simp add: tx_sees_def)
  qed
  with g k show ?thesis by blast
qed

lemma tx_set_offset:
  assumes "tx_wf sys self w"
  shows "\<exists>rs off w' e'. regfile_tx_set_file_offset sys self offset w e = Some ((), self\<lparr>rf_rwstate := rs, rf_offset := off\<rparr>, w', e') \<and>
    length rs = 3 \<and> world_step sys v w w' \<and>
    (\<not> picotm_error_is_set e' \<longrightarrow> unat offset < 2 ^ 63 \<longrightarrow>
      (\<forall>f p. tx_sees v self w f p \<longrightarrow> tx_sees v (self\<lparr>rf_rwstate := rs, rf_offset := off\<rparr>) w' f (unat offset)))"
proof -
  obtain rs off w' e' where g: "regfile_tx_set_file_offset sys self offset w e = Some ((), self\<lparr>rf_rwstate := rs, rf_offset := off\<rparr>, w', e')"
    and k: "length rs = 3" "world_step sys v w w'"
    and val: "\<not> picotm_error_is_set e' \<longrightarrow> off = offset \<and> status (rs ! REGFILE_FIELD_FILE_OFFSET) \<noteq> PICOTM_RWSTATE_UNLOCKED"
    by (rule regfile_set_offset [OF tx_wfD(4) [OF assms]])
  have "tx_sees v (self\<lparr>rf_rwstate := rs, rf_offset := off\<rparr>) w' f (unat offset)"
    if "\<not> picotm_error_is_set e'" "unat offset < 2 ^ 63" "tx_sees v self w f p" for f p
  proof -
    have "off = offset" "offset_known (self\<lparr>rf_rwstate := rs, rf_offset := off\<rparr>)"
      using val that(1) by (simp_all add: offset_known_def)
    then show ?thesis using tx_sees_step [OF that(3) k(2)] that(2) by (simp add: tx_sees_def)
  qed
  with g k show ?thesis by blast
qed

text \<open>The fields of the size of the file.\<close>

abbreviation with_size :: "picotm_rwstate list \<Rightarrow> u64 \<Rightarrow> regfile_tx \<Rightarrow> regfile_tx" where
  "with_size rs sz self \<equiv> self\<lparr>rf_seekbuf_tx := (rf_seekbuf_tx self)\<lparr>sb_rwstate := rs, sb_file_size := sz\<rparr>\<rparr>"

lemma size_fields:
  assumes "tx_wf sys self w" and "length rs = 2"
  shows "tx_wf sys (with_size rs sz self) w" and "tx_used k b (with_size rs sz self) = tx_used k b self"
    and "buffered (with_size rs sz self) = buffered self"
  using assms by (simp_all add: tx_wf_def regfile_wf_def seekbuf_wf_def tx_used_def buffered_def seeks_def sb_writes_def)

definition size_seen :: "'o file_view \<Rightarrow> regfile_tx \<Rightarrow> ('o, 'a) file_world \<Rightarrow> nat" where
  "size_seen v self w = (if size_known (rf_seekbuf_tx self) then unat (sb_file_size (rf_seekbuf_tx self))
     else length (vw_content v (fw_os w)))"

lemma tx_sees_size_seen: "tx_sees v self w f p \<Longrightarrow> size_seen v self w = length f"
proof -
  assume sees: "tx_sees v self w f p"
  show ?thesis
  proof (cases "size_known (rf_seekbuf_tx self)")
    case True
    then show ?thesis using sees by (simp add: size_seen_def tx_sees_def tx_size_ok_def)
  next
    case False
    show ?thesis using tx_sees_size [OF sees False] False by (simp add: size_seen_def)
  qed
qed

lemma tx_get_size:
  assumes "regular_file sys fd v" and "tx_wf sys self w"
  shows "\<exists>r rs sz w' e'. on_seekbuf_tx self (\<lambda>sb. seekbuf_tx_get_file_size sys sb fd w e) = Some (r, with_size rs sz self, w', e') \<and>
    length rs = 2 \<and> world_step sys v w w' \<and>
    (\<not> picotm_error_is_set e' \<longrightarrow> r = sz \<and> unat sz = size_seen v self w \<and>
       status (rs ! SEEKBUF_FIELD_FILE_SIZE) \<noteq> PICOTM_RWSTATE_UNLOCKED)"
proof -
  have st: "stats_file sys fd v" using assms(1) by (simp add: regular_file_def)
  obtain r rs sz w' e' where
      g: "seekbuf_tx_get_file_size sys (rf_seekbuf_tx self) fd w e =
        Some (r, (rf_seekbuf_tx self)\<lparr>sb_rwstate := rs, sb_file_size := sz\<rparr>, w', e')"
    and k: "length rs = 2" "world_step sys v w w'"
    and val: "\<not> picotm_error_is_set e' \<longrightarrow> r = sz \<and> status (rs ! SEEKBUF_FIELD_FILE_SIZE) \<noteq> PICOTM_RWSTATE_UNLOCKED \<and>
      (if size_known (rf_seekbuf_tx self) then sz = sb_file_size (rf_seekbuf_tx self)
       else unat sz = length (vw_content v (fw_os w)))"
    by (rule seekbuf_get_size [OF st tx_wfD(5) [OF assms(2)]])
  have "\<not> picotm_error_is_set e' \<longrightarrow> r = sz \<and> unat sz = size_seen v self w \<and>
       status (rs ! SEEKBUF_FIELD_FILE_SIZE) \<noteq> PICOTM_RWSTATE_UNLOCKED"
    using val by (auto simp: size_seen_def)
  with g k show ?thesis by (auto simp: on_seekbuf_tx_def)
qed

lemma size_now_known:
  assumes "length rs = 2" and "status (rs ! SEEKBUF_FIELD_FILE_SIZE) \<noteq> PICOTM_RWSTATE_UNLOCKED"
  shows "size_known (rf_seekbuf_tx (with_size rs sz self))"
  using assms by (simp add: size_known_def)

lemma tx_extend_size:
  assumes "regular_file sys fd v" and "tx_wf sys self w" and "range_ok off len" and "size_seen v self w < 2 ^ 63"
  shows "\<exists>r rs sz w' e'. extend_file_size sys self fd off len cookie w e = Some ((r, cookie), with_size rs sz self, w', e') \<and>
    length rs = 2 \<and> world_step sys v w w' \<and>
    (\<not> picotm_error_is_set e' \<longrightarrow> r = len \<and> unat sz = max (size_seen v self w) (unat off + unat len) \<and>
       status (rs ! SEEKBUF_FIELD_FILE_SIZE) \<noteq> PICOTM_RWSTATE_UNLOCKED)"
proof -
  obtain r1 rs1 sz1 w1 e1 where g: "on_seekbuf_tx self (\<lambda>sb. seekbuf_tx_get_file_size sys sb fd w e) = Some (r1, with_size rs1 sz1 self, w1, e1)"
    and k1: "length rs1 = 2" "world_step sys v w w1"
    and v1: "\<not> picotm_error_is_set e1 \<longrightarrow> r1 = sz1 \<and> unat sz1 = size_seen v self w \<and>
       status (rs1 ! SEEKBUF_FIELD_FILE_SIZE) \<noteq> PICOTM_RWSTATE_UNLOCKED"
    using tx_get_size [OF assms(1,2)] by blast
  have fin: "unat (off + len) = unat off + unat len" "unat (off + len) < 2 ^ 63"
    using range_end [OF assms(3)] range_small(3) [OF assms(3)] by simp_all
  consider "picotm_error_is_set e1" | "\<not> picotm_error_is_set e1" "\<not> sz1 <s off + len" | "\<not> picotm_error_is_set e1" "sz1 <s off + len"
    by blast
  then show ?thesis
  proof cases
    case 1
    then have "extend_file_size sys self fd off len cookie w e = Some ((- 1, cookie), with_size rs1 sz1 self, w1, e1)"
      using g by (simp add: extend_file_size_def)
    with 1 k1 show ?thesis by blast
  next
    case 2
    have sz: "r1 = sz1" "unat sz1 = size_seen v self w" using v1 2 by simp_all
    then have "extend_file_size sys self fd off len cookie w e = Some ((len, cookie), with_size rs1 sz1 self, w1, e1)"
      using g 2 by (simp add: extend_file_size_def)
    moreover have "unat sz1 = max (size_seen v self w) (unat off + unat len)"
      using 2(2) sz assms(4) fin by (simp add: sless_unat)
    ultimately show ?thesis using 2 k1 v1 by blast
  next
    case 3
    have sz: "r1 = sz1" "unat sz1 = size_seen v self w" using v1 3 by simp_all
    have l2: "length (sb_rwstate (rf_seekbuf_tx (with_size rs1 sz1 self))) = 2" using k1 by simp
    obtain rs2 sz2 w2 e2 where h: "seekbuf_tx_set_file_size sys (rf_seekbuf_tx (with_size rs1 sz1 self)) (off + len) w1 e1 =
        Some ((), (rf_seekbuf_tx (with_size rs1 sz1 self))\<lparr>sb_rwstate := rs2, sb_file_size := sz2\<rparr>, w2, e2)"
      and k2: "length rs2 = 2" "world_step sys v w1 w2"
      and v2: "\<not> picotm_error_is_set e2 \<longrightarrow> sz2 = off + len \<and> status (rs2 ! SEEKBUF_FIELD_FILE_SIZE) \<noteq> PICOTM_RWSTATE_UNLOCKED"
      by (rule seekbuf_set_size [OF l2])
    have "extend_file_size sys self fd off len cookie w e =
        Some ((if picotm_error_is_set e2 then - 1 else len, cookie), with_size rs2 sz2 self, w2, e2)"
      using g h 3 sz by (simp add: extend_file_size_def on_seekbuf_tx_def)
    moreover have "unat sz2 = max (size_seen v self w) (unat off + unat len)" if "\<not> picotm_error_is_set e2"
    proof -
      have "unat sz1 < unat (off + len)"
        using 3(2) sz assms(4) fin(2) sless_unat [of sz1 "off + len"] by simp
      then show ?thesis using v2 that sz fin(1) by simp
    qed
    moreover have "world_step sys v w w2" using k1(2) k2(2) by (rule world_step_trans)
    ultimately show ?thesis using k2(1) v2
      by (intro exI [of _ "if picotm_error_is_set e2 then - 1 else len"] exI [of _ rs2] exI [of _ sz2] exI [of _ w2] exI [of _ e2]) simp
  qed
qed

subsection \<open>Writing\<close>

lemma unat_cookie_of: "unat n < 2 ^ 31 \<Longrightarrow> unat (ucast n :: u32) = unat n" for n :: u64
  by (simp add: unsigned_ucast_eq take_bit_nat_eq_self)

lemma sb_writes_length: "seekbuf_wf lm sb \<Longrightarrow> length (sb_writes sb) = unat (sb_wrtablen sb)"
  using tab_ok_length [of 58 lm "sb_wrtab sb" "sb_wrtablen sb" "sb_wrtabsiz sb"] by (simp add: sb_writes_def seekbuf_wf_def)

lemma tx_buffer_write:
  assumes "tx_wf sys self w" and "tx_used k b self" and "k < 2 ^ 31" and "\<not> picotm_error_is_set e"
    and "length buf = unat n" and "b + unat n < 2 ^ 63" and "range_ok off n"
  shows "\<exists>r c sb' w' e'. write_or_buffer sys do_write self fd buf n off cookie w e =
      Some ((r, c), self\<lparr>rf_seekbuf_tx := sb'\<rparr>, w', e') \<and>
    keeps_tx sys v (Suc k) (b + unat n) w (self\<lparr>rf_seekbuf_tx := sb'\<rparr>) w' \<and>
    size_seen v (self\<lparr>rf_seekbuf_tx := sb'\<rparr>) w' = size_seen v self w \<and>
    (\<not> picotm_error_is_set e' \<longrightarrow> r = n \<and> unat c = length (sb_writes (rf_seekbuf_tx self)) \<and>
      sb_writes sb' = sb_writes (rf_seekbuf_tx self) @ [(unat off, buf)] \<and> sb_reads sb' = sb_reads (rf_seekbuf_tx self))"
proof -
  let ?sb = "rf_seekbuf_tx self"
  note wf = tx_wfD [OF assms(1)]
  have room: "unat (sb_wrbuflen ?sb) + unat n < 2 ^ 63" "unat (sb_wrtablen ?sb) < 2 ^ 58" "unat (sb_wrtablen ?sb) < 2 ^ 31"
    using assms(2,3,6) by (simp_all add: tx_used_def)
  obtain r bb bl tab tl siz sb' w' e' where a: "seekbuf_tx_append_to_writeset sys ?sb n off (Some buf) w e = (r, sb', w', e')"
    and sb': "sb' = ?sb\<lparr>sb_wrbuf := bb, sb_wrbuflen := bl, sb_wrtab := tab, sb_wrtablen := tl, sb_wrtabsiz := siz\<rparr>"
    and step: "world_step sys v w w'" and wf': "seekbuf_wf (fw_lowmem w') sb'"
    and le: "unat tl \<le> Suc (unat (sb_wrtablen ?sb))" "unat bl \<le> unat (sb_wrbuflen ?sb) + unat n"
    and ok: "\<not> picotm_error_is_set e' \<longrightarrow> r = ucast (sb_wrtablen ?sb) \<and>
         (\<exists>b. sb_ops sb' = sb_ops ?sb @ [ioop_init off n b]) \<and> sb_writes sb' = sb_writes ?sb @ [(unat off, buf)]"
    by (rule append_writeset_ends [OF wf(1,3) assms(4,5) room(1) assms(7) room(2)])
  let ?self = "self\<lparr>rf_seekbuf_tx := sb'\<rparr>"
  have go: "write_or_buffer sys do_write self fd buf n off cookie w e =
      Some ((if picotm_error_is_set e' then - 1 else n, r), ?self, w', e')"
    using wf(6) a by (simp add: write_or_buffer_def on_seekbuf_tx_def)
  have "tx_wf sys ?self w'" by (rule tx_wf_seekbuf [OF tx_wf_step [OF assms(1) step] wf'])
  moreover have "tx_used (Suc k) (b + unat n) ?self" using assms(2) le by (auto simp: tx_used_def sb')
  ultimately have kept: "keeps_tx sys v (Suc k) (b + unat n) w ?self w'" using step by (simp add: keeps_tx_def)
  have size: "size_seen v ?self w' = size_seen v self w"
    using step by (simp add: size_seen_def size_known_def sb' world_step_def same_file_def)
  have "unat (ucast (sb_wrtablen ?sb) :: u32) = length (sb_writes ?sb)"
    using unat_cookie_of [OF room(3)] sb_writes_length [OF wf(3)] by simp
  moreover have "sb_reads sb' = sb_reads ?sb" by (simp add: sb')
  ultimately have "\<not> picotm_error_is_set e' \<longrightarrow> (if picotm_error_is_set e' then - 1 else n) = n \<and>
      unat r = length (sb_writes ?sb) \<and> sb_writes sb' = sb_writes ?sb @ [(unat off, buf)] \<and> sb_reads sb' = sb_reads ?sb"
    using ok by simp
  with go kept size show ?thesis by blast
qed

lemma tx_sees_written:
  assumes "tx_sees v self w f p" and "unat off \<le> length f" and "range_ok off n" and "length buf = unat n"
    and "sb_writes (rf_seekbuf_tx self') = sb_writes (rf_seekbuf_tx self) @ [(unat off, buf)]"
    and "same_file v (fw_os w) (fw_os w')" and "size_known (rf_seekbuf_tx self')"
    and "unat (sb_file_size (rf_seekbuf_tx self')) = max (length f) (unat off + unat n)"
    and "(if offset_known self' then unat (rf_offset self') else vw_position v (fw_os w')) = q" and "q < 2 ^ 63"
  shows "tx_sees v self' w' (write_at (unat off) buf f) q"
proof -
  have len: "length (write_at (unat off) buf f) = max (length f) (unat off + unat n)"
    using assms(2,4) by (auto simp: length_write_at)
  have "max (length f) (unat off + unat n) < 2 ^ 63"
    using assms(1,3) unfolding tx_sees_def range_ok_def by linarith
  then show ?thesis
    using assms(1,2,6-10) len unfolding tx_sees_def assms(5) same_file_def
    by (simp add: apply_writes_append gapless_append tx_size_ok_def)
qed

lemma pwrite_op:
  assumes "regular_file sys fd v" and "tx_wf sys self w" and "tx_used k b self" and "Suc k < 2 ^ 31" and "\<not> picotm_error_is_set e"
    and "range_ok off n" and "length buf = unat n" and "b + unat n < 2 ^ 63" and "size_seen v self w < 2 ^ 63"
  shows "\<exists>res c self' w' e'. regfile_tx_op_pwrite_exec sys self fd buf n off isnoundo cookie w e = Some ((res, c), self', w', e') \<and>
    keeps_tx sys v (Suc (Suc k)) (b + unat n) w self' w' \<and>
    (\<not> picotm_error_is_set e' \<longrightarrow> res = n \<and> unat c = length (sb_writes (rf_seekbuf_tx self)) \<and>
      buffered self' = (sb_writes (rf_seekbuf_tx self) @ [(unat off, buf)], sb_reads (rf_seekbuf_tx self), seeks self) \<and>
      (\<forall>f p. tx_sees v self w f p \<longrightarrow> unat off \<le> length f \<longrightarrow> tx_sees v self' w' (write_at (unat off) buf f) p))"
proof -
  have wback: "sb_wrmode (rf_seekbuf_tx self) = PICOTM_LIBC_WRITE_BACK" by (rule tx_wfD(6) [OF assms(2)])
  note def = regfile_tx_op_pwrite_exec_def [of sys self fd buf n off isnoundo cookie w e]
  have k: "k < 2 ^ 31" using assms(4) by simp
  obtain r sb1 w1 e1 where l: "on_seekbuf_tx self (\<lambda>sb. seekbuf_tx_try_wrlock_region sys sb n off w e) =
      Some (r, self\<lparr>rf_seekbuf_tx := sb1\<rparr>, w1, e1)" "region_locked sys v (rf_seekbuf_tx self) w sb1 w1"
    using tx_lock_region(2) [OF assms(2,3) k assms(5)] by blast
  let ?self1 = "self\<lparr>rf_seekbuf_tx := sb1\<rparr>"
  note lt = region_locked_tx [OF l(2) assms(2)]
  have used1: "tx_used (Suc k) b ?self1" by (rule lt(5) [OF assms(3)])
  have size1: "size_seen v ?self1 w1 = size_seen v self w"
    using lt(1,6,7) by (simp add: size_seen_def world_step_def same_file_def)
  have buf1: "sb_writes sb1 = sb_writes (rf_seekbuf_tx self)" "sb_reads sb1 = sb_reads (rf_seekbuf_tx self)"
    using lt(4) by (simp_all add: buffered_def)
  show ?thesis
  proof (cases "picotm_error_is_set e1")
    case True
    then have "regfile_tx_op_pwrite_exec sys self fd buf n off isnoundo cookie w e = Some ((- 1, cookie), ?self1, w1, e1)"
      using l(1) wback by (simp add: def)
    moreover have "keeps_tx sys v (Suc (Suc k)) (b + unat n) w ?self1 w1"
      using lt(1,2) tx_used_mono [OF used1] by (simp add: keeps_tx_def)
    ultimately show ?thesis using True by blast
  next
    case ok1: False
    obtain r2 c sb2 w2 e2 where wr: "write_or_buffer sys do_pwrite ?self1 fd buf n off cookie w1 e1 =
        Some ((r2, c), ?self1\<lparr>rf_seekbuf_tx := sb2\<rparr>, w2, e2)"
      and kept2: "keeps_tx sys v (Suc (Suc k)) (b + unat n) w1 (?self1\<lparr>rf_seekbuf_tx := sb2\<rparr>) w2"
      and size2: "size_seen v (?self1\<lparr>rf_seekbuf_tx := sb2\<rparr>) w2 = size_seen v ?self1 w1"
      and res2: "\<not> picotm_error_is_set e2 \<longrightarrow> r2 = n \<and> unat c = length (sb_writes (rf_seekbuf_tx ?self1)) \<and>
        sb_writes sb2 = sb_writes (rf_seekbuf_tx ?self1) @ [(unat off, buf)] \<and> sb_reads sb2 = sb_reads (rf_seekbuf_tx ?self1)"
      using tx_buffer_write [OF lt(2) used1 assms(4) ok1 assms(7,8,6), of do_pwrite fd cookie v] by blast
    let ?self2 = "self\<lparr>rf_seekbuf_tx := sb2\<rparr>"
    have same2: "?self1\<lparr>rf_seekbuf_tx := sb2\<rparr> = ?self2" by simp
    note wr2 = wr [unfolded same2] and kept2 = kept2 [unfolded same2] and size2 = size2 [unfolded same2]
    show ?thesis
    proof (cases "picotm_error_is_set e2")
      case True
      then have "regfile_tx_op_pwrite_exec sys self fd buf n off isnoundo cookie w e = Some ((r2, c), ?self2, w2, e2)"
        using l(1) ok1 wr2 wback by (simp add: def)
      moreover have "keeps_tx sys v (Suc (Suc k)) (b + unat n) w ?self2 w2"
        using kept2 lt(1) world_step_trans unfolding keeps_tx_def by blast
      ultimately show ?thesis using True by blast
    next
      case ok2: False
      have wf2: "tx_wf sys ?self2 w2" using kept2 by (simp add: keeps_tx_def)
      have small: "size_seen v ?self2 w2 < 2 ^ 63" using size1 size2 assms(9) by simp
      obtain r3 rs sz w3 e3 where ex: "extend_file_size sys ?self2 fd off n c w2 e2 = Some ((r3, c), with_size rs sz ?self2, w3, e3)"
        and rs: "length rs = 2" and step3: "world_step sys v w2 w3"
        and res3: "\<not> picotm_error_is_set e3 \<longrightarrow> r3 = n \<and> unat sz = max (size_seen v ?self2 w2) (unat off + unat n) \<and>
          status (rs ! SEEKBUF_FIELD_FILE_SIZE) \<noteq> PICOTM_RWSTATE_UNLOCKED"
        using tx_extend_size [OF assms(1) wf2 assms(6) small] by blast
      let ?self3 = "with_size rs sz ?self2"
      have go: "regfile_tx_op_pwrite_exec sys self fd buf n off isnoundo cookie w e = Some ((r3, c), ?self3, w3, e3)"
        using l(1) ok1 wr2 ok2 wback ex res2 by (simp add: def)
      have step: "world_step sys v w w3"
        using lt(1) kept2 step3 world_step_trans unfolding keeps_tx_def by blast
      have kept: "keeps_tx sys v (Suc (Suc k)) (b + unat n) w ?self3 w3"
        using kept2 step tx_wf_step [OF _ step3] size_fields [OF wf2 rs] size_fields(1) [OF tx_wf_step [OF wf2 step3] rs]
        by (simp only: keeps_tx_def)
      have writes: "sb_writes (rf_seekbuf_tx ?self3) = sb_writes (rf_seekbuf_tx self) @ [(unat off, buf)]"
          "sb_reads (rf_seekbuf_tx ?self3) = sb_reads (rf_seekbuf_tx self)" "seeks ?self3 = seeks self"
        using res2 ok2 buf1 size_fields(3) [OF wf2 rs, of sz] by (simp_all add: buffered_def seeks_def)
      have "tx_sees v ?self3 w3 (write_at (unat off) buf f) p"
        if "\<not> picotm_error_is_set e3" and sees: "tx_sees v self w f p" and "unat off \<le> length f" for f p
      proof (rule tx_sees_written [OF sees that(3) assms(6,7) writes(1)])
        show "same_file v (fw_os w) (fw_os w3)" using step by (simp add: world_step_def)
        show "size_known (rf_seekbuf_tx ?self3)" using size_now_known [OF rs] res3 that(1) by blast
        show "unat (sb_file_size (rf_seekbuf_tx ?self3)) = max (length f) (unat off + unat n)"
          using res3 that(1) size1 size2 tx_sees_size_seen [OF sees] by simp
        have "(if offset_known self then unat (rf_offset self) else vw_position v (fw_os w)) = p" "p < 2 ^ 63"
          using sees unfolding tx_sees_def by blast+
        then show "(if offset_known ?self3 then unat (rf_offset ?self3) else vw_position v (fw_os w3)) = p" "p < 2 ^ 63"
          using step unfolding offset_known_def world_step_def same_file_def by auto
      qed
      then show ?thesis using go kept res2 ok2 res3 writes buf1 by (simp add: buffered_def)
    qed
  qed
qed

end
