(* ===== verification/Spec2Isabelle.thy ===== *)
theory Spec2Isabelle
  imports Picotm_Core Picotm_Lock_Waiters Picotm_Rwlock_Conc Picotm_Treemap Picotm_Shared_Treemap
  Tm_Module Txlib_Correct Fildes_Region_Correct Fildes_Regfile_Ops
begin

text \<open>
  A verification development of picotm, a library of system-level software transactions in C
  (all paths below are relative to the repository).

  \<^bold>\<open>The program.\<close>  A thread executes a transaction through \<open>picotm_begin\<close> and \<open>picotm_commit\<close>
  (\<open>src/picotm.c\<close>).  The core keeps one transaction per thread (\<open>src/picotm_tx.c\<close>) with a log of
  events (\<open>src/picotm_log.c\<close>) and a table of modules (\<open>src/picotm_module.c\<close>); a commit asks the modules
  to prepare, applies their changes and the logged events in order and finishes, a rollback undoes in
  the reverse order.  A lock manager (\<open>src/picotm_lock_manager.c\<close>) knows all lock owners, makes at most
  one transaction irrevocable and lets owners wait for reader/writer locks
  (\<open>src/picotm-lib-rwlock.c\<close>), whose waiters are linked through the owners' indices.  Modules add
  state: transactional memory (\<open>modules/tm\<close>) buffers loads and stores in pages and locks frames of main
  memory; the transactional data types (\<open>modules/txlib\<close>) are queues, lists, stacks and multisets.
  Treemaps (\<open>src/picotm-lib-treemap.c\<close>, \<open>src/picotm-lib-shared-treemap.c\<close>) map addresses and numbers to state.

  \<^bold>\<open>The model.\<close>  C structures are records, tagged unions datatypes, integers words of their width, and
  pointers 64-bit words with 0 as the null pointer.  Effects are explicit: each function takes the state
  it reaches and returns the new one, with \<open>struct picotm_error\<close> as an argument and a result.  Calls of the
  operating system and of the C library (\<open>realloc\<close>, \<open>clock_gettime\<close>, mutexes, waiting) are arguments or lists
  of return codes; what is assumed of them is a named predicate such as \<open>realloc_ok\<close>.  A loop whose end depends
  on a heap is a \<open>partial_function\<close> with \<open>None\<close> for a run that does not return, and theorems about it state
  that it returns; other loops are structural or have a measure.  There is no fuel in the development
  but in the walks over a treemap, whose depth bounds it.  Atomic accesses of several
  threads are a step relation that interleaves them.

  \<^bold>\<open>The theories.\<close>
  \<^item> \<open>Picotm_Prelude\<close>: shared types, collections of facts, lemmas on words and lists.
  \<^item> \<open>Picotm_Error\<close> (\<open>src/picotm-error.c\<close>), \<open>Picotm_Table\<close> (\<open>src/table.c\<close>, \<open>src/picotm-lib-tab.c\<close>),
    \<open>Picotm_Timespec\<close> (\<open>src/picotm_os_timespec.c\<close>).
  \<^item> \<open>Picotm_Rwlock\<close>, \<open>Picotm_Rwlock_Conc\<close>, \<open>Picotm_Rwstate\<close>: the reader/writer lock, its interleavings,
    and the transaction's view of it.
  \<^item> \<open>Picotm_Lock_Owner\<close>, \<open>Picotm_Lock_Manager\<close>, \<open>Picotm_Lock_Waiters\<close>: owners, the manager, and the lists of
    waiters with the interface of their heads as a locale.
  \<^item> \<open>Picotm_Log\<close>, \<open>Picotm_Tx\<close>, \<open>Picotm_Core\<close>: log, transaction, and the threads' calls as a step relation.
  \<^item> \<open>Picotm_Treemap\<close>, \<open>Picotm_Shared_Treemap\<close>: the tree as a finite map; concurrent look-ups.
  \<^item> \<open>Tm_Frame\<close>, \<open>Tm_Page\<close>, \<open>Tm_Vmem_Tx\<close>, \<open>Tm_Page_Spec\<close>, \<open>Tm_Vmem_Spec\<close>, \<open>Tm_Commit\<close>, \<open>Tm_Module\<close>: transactional
    memory, from frames and pages to the call-backs of the module.
  \<^item> \<open>Txlib_Ring\<close>, \<open>Txlib_Queue\<close>, \<open>Txlib_Stack\<close>, \<open>Txlib_Multiset\<close>: the entries as pointer structures and the
    containers' states; \<open>Txlib_Tx\<close>: their transactions and events; \<open>Txlib_Events\<close>: events as steps between
    sequences; \<open>Txlib_Calls\<close>, \<open>Txlib_Runs\<close>, \<open>Txlib_Reads\<close>: calls, runs of calls, reads; \<open>Txlib_Module\<close>: the
    module under picotm's commit and rollback; \<open>Txlib_Correct\<close>: the properties.

  \<^item> \<open>Picotm_Grow\<close>: growing tables, shared by the log and the tables of operations; \<open>Picotm_Shared_Find\<close>: one
    look-up in a shared treemap while other threads use it.
  \<^item> \<open>Fildes_Io\<close> (\<open>modules/libc/src/fildes/range.c\<close>, \<open>ioop.c\<close>, \<open>iooptab.c\<close>): buffered operations on files;
    \<open>Fildes_Page_Map\<close> (\<open>rwlockmap.c\<close>, pages of \<open>rwcountermap.c\<close>), \<open>Fildes_Regions\<close> (\<open>rwcounter.c\<close>,
    \<open>rwcountermap.c\<close>, \<open>seekbuf.c\<close>), \<open>Fildes_Region_Spec\<close>, \<open>Fildes_Region_Correct\<close>: locks of file regions.
  \<^item> \<open>Fildes_Os\<close>: the system calls as parameters and the loops around them; \<open>Fildes_Os_Spec\<close>: files as bytes and
    an offset.  \<open>Fildes_Seekbuf_Tx\<close> (\<open>seekbuf_tx.c\<close>), \<open>Fildes_Regfile\<close> (\<open>regfile_tx.c\<close>): transactions on regular
    files; \<open>Fildes_Tables\<close>, \<open>Fildes_Seekbuf_Spec\<close>, \<open>Fildes_Writes\<close>, \<open>Fildes_Regfile_Spec\<close>, \<open>Fildes_Regfile_Ops\<close>:
    what they do to the file that the transaction sees.

  \<^bold>\<open>What is shown.\<close>  The properties are numbered C1, C2, and so on.  C1 to C6: the irrevocability lock is balanced in
  every reachable state, commit, rollback and begin follow their protocols, the limit of restarts, the log.  C7 to
  C15: mutual exclusion of the lock under all interleavings, agreement of lock and view, waiting, waking up
  and registration.  C16 to C19: tables and times.  C20 to C23: the treemaps.  C24 to C27: transactional
  memory refines one plain memory, rolls back, reads repeatably.  C28 to C31: transactional data types refine plain
  sequences through commit and rollback.  C32 to C35: the locks of file regions work record by record, agree with
  the counters of the transaction, are given back, and cover a region under the stated condition only.  Several properties state where the code departs from its
  documentation or its purpose (C5, C13, C19, C27, C31, C35).

  \<^bold>\<open>Not modelled.\<close>  The set-up and release of thread-local and process-wide state, which are macros around
  reference counts, thread-specific data and \<open>atexit\<close>; the modules \<open>libm\<close>, \<open>libpthread\<close> and, of the
  module \<open>libc\<close>, all but regular files, whose functions mostly call the C library under saved state; build files, tests and documentation.  Memory that is only freed is not
  tracked.  The heap is never exhausted by the model itself: allocation answers come from the environment.
\<close>

section \<open>Transactions\<close>



text \<open>
  C2: Commit runs the modules' calls in the order of the protocol.  If a module refuses in the
  prepare phase, nothing is published and the transaction keeps its log and its lock; an error
  while publishing is marked as not recoverable and keeps the lock; otherwise the log is empty
  afterwards and the irrevocability lock is released.
\<close>
theorem commit_runs_protocol:
  assumes "tx_log_ok self" and "\<not> picotm_error_is_set e"
  shows "\<exists>self'. picotm_tx_commit self lm w e =
    Some (case run_calls (prepare_calls self) w e of (w1, e1) \<Rightarrow>
      if picotm_error_is_set e1 then (self, lm, w1, e1)
      else (case run_calls (publish_calls self) w1 e1 of (w2, e2) \<Rightarrow>
        if picotm_error_is_set e2 then (self', lm, w2, picotm_error_mark_as_non_recoverable e2)
        else (self\<lparr>tx_log := picotm_log_clear (tx_log self)\<rparr>,
              picotm_lock_manager_release_irrevocability (tx_lo self) lm, w2, e2)))"
  using commit_protocol [OF assms] by blast

text \<open>A transaction with one module that notes its calls in a list, and one logged event.\<close>

definition noting_ops :: "string list picotm_module_ops" where
  "noting_ops = \<lparr>mop_begin = None,
     mop_prepare_commit = Some (\<lambda>_ _ w e. (w @ [''prepare''], e)),
     mop_apply = Some (\<lambda>_ w e. (w @ [''apply''], e)),
     mop_undo = Some (\<lambda>_ w e. (w @ [''undo''], e)),
     mop_apply_event = Some (\<lambda>_ _ _ w e. (w @ [''apply_event''], e)),
     mop_undo_event = Some (\<lambda>_ _ _ w e. (w @ [''undo_event''], e)),
     mop_finish = Some (\<lambda>_ w e. (w @ [''finish''], e)), mop_release = None\<rparr>"

definition noting_tx :: "string list picotm_tx" where
  "noting_tx = \<lparr>tx_env = None,
     tx_log = \<lparr>eventtab = Some [empty_event], eventtablen = 1, eventtabsiz = 1\<rparr>,
     tx_mode = TX_MODE_REVOCABLE, tx_nretries = 0, tx_lo = 8,
     tx_module = [picotm_module_init noting_ops 0]\<rparr>"

lemma noting_calls:
  "run_calls (prepare_calls noting_tx) [] PICOTM_ERROR_INITIALIZER = ([''prepare''], PICOTM_ERROR_INITIALIZER)"
  "run_calls (publish_calls noting_tx) w PICOTM_ERROR_INITIALIZER =
     (w @ [''apply'', ''apply_event'', ''finish''], PICOTM_ERROR_INITIALIZER)"
  "run_calls (undo_calls noting_tx) w PICOTM_ERROR_INITIALIZER =
     (w @ [''undo'', ''undo_event'', ''finish''], PICOTM_ERROR_INITIALIZER)"
  "tx_log_ok noting_tx"
  by (simp_all add: prepare_calls_def publish_calls_def undo_calls_def noting_tx_def noting_ops_def
      picotm_module_init_def picotm_module_prepare_commit_def picotm_module_apply_def
      picotm_module_undo_def picotm_module_finish_def apply_event_def undo_event_def
      picotm_module_apply_event_def picotm_module_undo_event_def log_events_def empty_event_def
      clear_not_set tx_log_ok_def log_table_def)

theorem commit_runs_protocol_witness:
  "\<exists>self' lm'. picotm_tx_commit noting_tx (fresh_world ()) [] PICOTM_ERROR_INITIALIZER =
     Some (self', lm', [''prepare'', ''apply'', ''apply_event'', ''finish''], PICOTM_ERROR_INITIALIZER)"
  using commit_runs_protocol [OF noting_calls(4) clear_not_set, of "fresh_world ()" "[]"]
  by (simp add: noting_calls(1-3) clear_not_set)

text \<open>
  C3: Rollback undoes the modules, then the events from the newest to the oldest, then finishes
  the modules, stopping at the first error, which is then not recoverable.  The irrevocability
  lock is released in any case.
\<close>
theorem rollback_runs_protocol:
  assumes "tx_log_ok self" and "\<not> picotm_error_is_set e"
  shows "\<exists>self'. picotm_tx_rollback self lm w e =
    Some (case run_calls (undo_calls self) w e of (w1, e1) \<Rightarrow>
      (self', picotm_lock_manager_release_irrevocability (tx_lo self) lm, w1,
       if picotm_error_is_set e1 then picotm_error_mark_as_non_recoverable e1 else e1)) \<and>
    (\<not> picotm_error_is_set (snd (run_calls (undo_calls self) w e)) \<longrightarrow> log_events (tx_log self') = [])"
proof -
  obtain w1 e1 where run: "run_calls (undo_calls self) w e = (w1, e1)" by fastforce
  obtain tx1 where "picotm_tx_rollback self lm w e = Some
      (if picotm_error_is_set e1 then tx1 else self\<lparr>tx_log := picotm_log_clear (tx_log self)\<rparr>,
       picotm_lock_manager_release_irrevocability (tx_lo self) lm, w1,
       if picotm_error_is_set e1 then picotm_error_mark_as_non_recoverable e1 else e1)"
    using rollback_protocol [OF assms, of lm w] unfolding run prod.case by blast
  then show ?thesis unfolding run
    by (intro exI [of _ "if picotm_error_is_set e1 then tx1
          else self\<lparr>tx_log := picotm_log_clear (tx_log self)\<rparr>"]) simp
qed

theorem rollback_runs_protocol_witness:
  "\<exists>self' lm'. picotm_tx_rollback noting_tx (fresh_world ()) [] PICOTM_ERROR_INITIALIZER =
     Some (self', lm', [''undo'', ''undo_event'', ''finish''], PICOTM_ERROR_INITIALIZER)"
  using rollback_runs_protocol [OF noting_calls(4) clear_not_set, of "fresh_world ()" "[]"]
  by (auto simp: noting_calls clear_not_set)

text \<open>
  C4: Beginning a transaction takes the irrevocability lock in the mode of the transaction, which
  is irrevocable if the caller asks for it or if this is the tenth restart, and then begins the
  modules in their order; when it reports a recoverable error, the lock is not held.
\<close>
theorem begin_takes_lock:
  assumes "lm_exclusive_lo_lock lm = None" and "\<not> picotm_error_is_set e"
  shows "\<exists>self' lm' w' e'.
    picotm_tx_begin clock self lm mode is_retry env w e = Some (self', lm', w', e') \<and>
    lm_fault lm' = lm_fault lm \<and>
    (if picotm_error_is_set e'
     then lm_exclusive_lo_lock lm' = None \<or> is_non_recoverable e'
     else lm_exclusive_lo_lock lm' = Some (lock_mode (begin_mode self mode is_retry)) \<and>
       tx_mode self' = begin_mode self mode is_retry \<and>
       tx_nretries self' = begin_nretries self is_retry \<and>
       (w', e') = run_calls (map picotm_module_begin (tx_module self)) w e)"
  using begin_protocol [OF assms, of clock self mode is_retry env w]
  by (elim exE conjE) (intro exI conjI, assumption, simp, simp split: if_splits)

theorem begin_takes_lock_witness:
  "\<exists>self' lm' w' e'. picotm_tx_begin (0, \<lparr>tv_sec = 5, tv_nsec = 0\<rparr>, 0)
      (noting_tx\<lparr>tx_nretries := 9\<rparr>) (fresh_world ()) TX_MODE_REVOCABLE True None []
      PICOTM_ERROR_INITIALIZER = Some (self', lm', w', e') \<and> \<not> lm_fault lm'"
  using begin_takes_lock [of "fresh_world ()" PICOTM_ERROR_INITIALIZER
      "(0, \<lparr>tv_sec = 5, tv_nsec = 0\<rparr>, 0)" "noting_tx\<lparr>tx_nretries := 9\<rparr>" TX_MODE_REVOCABLE True None "[]"]
  by (auto simp: fresh_world_def clear_not_set)


text \<open>
  C6: Appending to the event log adds the event at the end and keeps all earlier events, whatever
  the allocator does when the table has to grow; if the allocation fails, the events are unchanged.
\<close>
theorem log_append_keeps_events:
  assumes "picotm_log_append realloc self ev env e = (self', env', e')" and "realloc_ok realloc"
    and "log_ok (he_lowmem env) self" and "\<not> picotm_error_is_set e"
    and "unat (eventtablen self) < 2 ^ 59"
  shows "log_ok (he_lowmem env') self' \<and>
    log_events self' = (if picotm_error_is_set e' then log_events self else log_events self @ [ev])"
  using log_append_events [OF assms] .

theorem log_append_keeps_events_witness:
  "\<exists>self' env' e'. picotm_log_append copy_realloc picotm_log_init empty_event fresh_heap
       PICOTM_ERROR_INITIALIZER = (self', env', e') \<and>
     log_events self' = (if picotm_error_is_set e' then [] else [empty_event])"
proof -
  obtain self' env' e' where app: "picotm_log_append copy_realloc picotm_log_init empty_event fresh_heap
      PICOTM_ERROR_INITIALIZER = (self', env', e')" by (rule prod_cases3)
  have "log_events picotm_log_init = []" by (simp add: picotm_log_init_def log_events_def)
  with log_append_keeps_events [OF app copy_realloc_ok log_ok_init clear_not_set] app show ?thesis
    by (simp add: picotm_log_init_def)
qed

section \<open>Locks\<close>

text \<open>
  C7: Mutual exclusion.  However the atomic accesses of any number of threads interleave, a thread
  that holds the lock for writing is alone: no other thread holds it in any way.
\<close>
theorem rwlock_writer_is_alone:
  assumes "rw_reachable s" and "holds s t = PICOTM_RWSTATE_WRLOCKED" and "u \<noteq> t"
  shows "holds s u = PICOTM_RWSTATE_UNLOCKED"
proof -
  have "t \<in> lock_writers s" using assms(2) by (simp add: lock_writers_def)
  then have "lock_readers s = {}" "lock_writers s = {t}"
    using reachable_counter [OF assms(1)] by (auto simp: counter_counts_def split: if_splits)
  with assms(3) show ?thesis
    by (cases "holds s u") (auto simp: lock_readers_def lock_writers_def)
qed

theorem rwlock_writer_is_alone_witness:
  "holds one_writer 1 = PICOTM_RWSTATE_UNLOCKED"
  by (rule rwlock_writer_is_alone [OF one_writer_reachable, of 0]) (simp_all add: one_writer_def)

text \<open>
  C8: In every reachable state of the lock the counter in its byte is exact: 15 if a thread writes,
  and otherwise the number of readers, of which there are at most 14.
\<close>
theorem rwlock_counter_exact:
  assumes "rw_reachable s"
  shows "finite (lock_readers s) \<and> card (lock_readers s) \<le> 14 \<and>
    unat (rw_counter (lock_mem s)) = (if lock_writers s \<noteq> {} then 15 else card (lock_readers s))"
  using reachable_counter [OF assms] mod_less_divisor [of 16 "unat (lock_mem s)"]
  by (auto simp: counter_counts_def unat_rw_counter split: if_splits)

theorem rwlock_counter_exact_witness:
  "unat (rw_counter (lock_mem one_writer)) = 15"
  using rwlock_counter_exact [OF one_writer_reachable] by (auto simp: one_writer_def lock_writers_def)





text \<open>
  C11: A wake-up at the lock manager that meets no failing call signals exactly the waiters of the
  plan (the longest waiting one, and with it all waiting readers if it is a reader), clears their
  waiting flag, changes nothing else, and releases every lock it has taken.
\<close>
theorem wake_up_follows_plan:
  assumes "waiters_of funcs w xs" and "lm_mutexes w = {}" and "lm_lo_rwlock w = None"
    and "\<forall>rc\<in>set (lm_rcs w). rc = 0" and "\<not> picotm_error_is_set e"
  shows "\<exists>rcs. picotm_lock_manager_wake_up concurrent funcs w e =
    Some (w\<lparr>lm_owner := wake_owners (set (wake_plan concurrent (lm_owner w) xs)) (lm_owner w),
            lm_woken := lm_woken w @ wake_plan concurrent (lm_owner w) xs, lm_rcs := rcs\<rparr>, e)"
  using wake_up_eq [OF assms] .

text \<open>Two readers waiting at a reader/writer lock: the owners 16 and 24 with indices 1 and 2.\<close>

definition two_waiters :: "u8 lm_world" where
  "two_waiters = (fresh_world 0x20)\<lparr>
     lm_lo := [None, Some 16, Some 24],
     lm_owner := (\<lambda>_. fresh_owner)(
       16 := fresh_owner\<lparr>lo_flags := 0x60000001\<rparr>,
       24 := fresh_owner\<lparr>lo_flags := 0x60000402, lo_next := Some 16\<rparr>)\<rparr>"

lemma two_waiters_chain: "waiters_of s_picotm_rwlock_slist_funcs two_waiters [24, 16]"
  by (simp add: waiters_of_def two_waiters_def s_picotm_rwlock_slist_funcs_def fresh_world_def
      picotm_rwlock_get_index_def rw_index_def INDEX_BIT_MASK_def INDEX_BIT_SHIFT_def COUNTER_BIT_MASK_def
      picotm_lock_owner_get_index_def picotm_lock_owner_get_next_def fresh_owner_def owner_registered_def
      Let_def)

theorem wake_up_follows_plan_witness:
  "\<exists>v. picotm_lock_manager_wake_up True s_picotm_rwlock_slist_funcs two_waiters PICOTM_ERROR_INITIALIZER =
     Some (v, PICOTM_ERROR_INITIALIZER) \<and> lm_woken v = [16, 24]"
proof -
  have "wake_plan True (lm_owner two_waiters) [24, 16] = [16, 24]"
    by (simp add: wake_plan_def two_waiters_def fresh_owner_def owner_has_def waits_for_reading_def
        LOCK_OWNER_WT_def LOCK_OWNER_RD_def)
  moreover have "lm_woken two_waiters = []" by (simp add: two_waiters_def fresh_world_def)
  ultimately show ?thesis
    using wake_up_follows_plan [OF two_waiters_chain _ _ _ clear_not_set, of True]
    by (auto simp: two_waiters_def fresh_world_def)
qed


definition third_owner :: "u8 lm_world" where
  "third_owner = two_waiters\<lparr>lm_lo := [None, Some 16, Some 24, Some 32],
     lm_owner := (lm_owner two_waiters)(32 := fresh_owner\<lparr>lo_flags := 3\<rparr>)\<rparr>"


text \<open>
  C13: The reader/writer lock stores the index of a waiter modulo 16, while the indices of lock
  owners have ten bits: an owner with index 16 that queues up leaves the lock without a waiter.
\<close>
theorem rwlock_index_truncated:
  "unat (get_first_index s_picotm_rwlock_slist_funcs
      (snd (cmpxchg_first_index s_picotm_rwlock_slist_funcs n
        (get_first_index s_picotm_rwlock_slist_funcs n) index))) = unat index mod 16"
  by (simp add: s_picotm_rwlock_slist_funcs_def lock_simps)

text \<open>
  C14: Registering a lock owner gives it a free entry of the table, other than the first one,
  under its index; all owners registered before stay registered and the table's lock is released.
\<close>
theorem register_owner_keeps_table:
  assumes "picotm_lock_manager_register_owner lo w e = (v, e')" and "\<not> picotm_error_is_set e'"
    and "lo_table_ok w" and "\<not> picotm_error_is_set e" and "lm_lo_rwlock w = None"
    and "length (lm_lo w) < 1023"
  shows "owner_registered v lo \<and> (\<forall>q. q \<noteq> lo \<longrightarrow> owner_registered w q \<longrightarrow> owner_registered v q) \<and>
    lo_table_ok v \<and> lm_lo_rwlock v = None"
  using register_owner_registers [OF assms] by blast

theorem register_owner_keeps_table_witness:
  "\<exists>v. picotm_lock_manager_register_owner 40 third_owner PICOTM_ERROR_INITIALIZER =
     (v, PICOTM_ERROR_INITIALIZER) \<and> owner_registered v 40"
proof -
  have "\<exists>v. picotm_lock_manager_register_owner 40 third_owner PICOTM_ERROR_INITIALIZER =
      (v, PICOTM_ERROR_INITIALIZER)"
    by (simp add: picotm_lock_manager_register_owner_def third_owner_def two_waiters_def fresh_world_def
        lo_rwlock_lock_def os_call_def clear_not_set find_lo_def grow_lo_array_def Let_def)
  then obtain v where v: "picotm_lock_manager_register_owner 40 third_owner PICOTM_ERROR_INITIALIZER =
      (v, PICOTM_ERROR_INITIALIZER)" ..
  then show ?thesis
    using register_owner_keeps_table [OF v clear_not_set]
    by (auto simp: lo_table_ok_def third_owner_def two_waiters_def fresh_world_def clear_not_set)
qed

text \<open>
  C15: Picking a waiter ends with the lock of the first waiter and that of the picked one held, and
  no other; if locking a waiter fails on the way, only the lock of the first one is held and no
  waiter is picked.  The pick of the longest waiting owner is the last one in the list that waits.
\<close>
theorem pick_waiter_locks:
  assumes "waiter_list (lm_owner w) (Some first) xs" and "distinct xs"
    and "\<not> picotm_error_is_set e" and "lm_mutexes w = {first}"
  shows "\<exists>r e' rcs. pick_waiter first compare_longest_waiting w e =
      Some (r, w\<lparr>lm_mutexes := {first} \<union> set_option r, lm_rcs := rcs\<rparr>, e') \<and>
    r = (let waiting = filter (\<lambda>x. owner_has LOCK_OWNER_WT (lm_owner w x)) xs in
         if picotm_error_is_set e' \<or> waiting = [] then None else Some (last waiting))"
proof (rule pick_waiter_spec [OF assms, of compare_longest_waiting])
  fix r e' rcs
  assume *: "pick_waiter first compare_longest_waiting w e =
      Some (r, w\<lparr>lm_mutexes := {first} \<union> set_option r, lm_rcs := rcs\<rparr>, e')"
    "r = (if picotm_error_is_set e' then None
          else pick_from compare_longest_waiting (lm_owner w) None xs)"
  have "r = (let waiting = filter (\<lambda>x. owner_has LOCK_OWNER_WT (lm_owner w x)) xs in
         if picotm_error_is_set e' \<or> waiting = [] then None else Some (last waiting))"
    unfolding *(2) pick_from_longest_waiting by (auto simp: filter_empty_conv)
  with *(1) show ?thesis by (intro exI conjI)
qed

theorem pick_waiter_locks_witness:
  "\<exists>r e' rcs. pick_waiter 24 compare_longest_waiting (two_waiters\<lparr>lm_mutexes := {24}\<rparr>)
      PICOTM_ERROR_INITIALIZER =
     Some (r, two_waiters\<lparr>lm_mutexes := {24} \<union> set_option r, lm_rcs := rcs\<rparr>, e')"
proof -
  have "waiter_list (lm_owner (two_waiters\<lparr>lm_mutexes := {24}\<rparr>)) (Some 24) [24, 16]"
    by (simp add: two_waiters_def fresh_owner_def)
  from pick_waiter_locks [OF this _ clear_not_set] show ?thesis by auto
qed

section \<open>Tables and time\<close>

text \<open>
  C16: Rounding up gives the least power of two that is not less than the argument, for all
  arguments up to \<open>2 ^ 63\<close>.
\<close>
theorem rndpow2_least_power:
  assumes "0 < unat v" and "unat v \<le> 2 ^ 63"
  shows "\<exists>k\<le>63. unat (rndpow2 v) = 2 ^ k \<and> unat v \<le> 2 ^ k \<and> 2 ^ k < 2 * unat v"
  using rndpow2_power [OF assms] .

theorem rndpow2_least_power_witness:
  "\<exists>k\<le>63. unat (rndpow2 5) = 2 ^ k \<and> 2 ^ k < (10 :: nat)"
  using rndpow2_least_power [of 5] by auto

text \<open>
  C17: Removing adjacent duplicates from a table returns the number of runs and moves one element
  of each run, in order, to the front of the table.
\<close>
theorem tabuniq_removes_duplicates:
  assumes "\<And>x y. compare x y = 0 \<longleftrightarrow> x = y" and "tabuniq compare tab = (n, tab')"
  shows "take n tab' = remdups_adj tab \<and> n = length (remdups_adj tab)"
proof (cases tab)
  case Nil
  with assms(2) show ?thesis by (simp add: tabuniq_Nil)
next
  case (Cons x xs)
  then have "take n tab' = take 0 tab @ remdups_adj (drop 0 tab) \<and> length tab' = length tab \<and> n \<le> length tab'"
    using assms by (intro tabuniq_loop_spec [of compare]) (simp_all add: tabuniq_def)
  then have "take n tab' = remdups_adj tab" "n \<le> length tab'" by simp_all
  then show ?thesis by (metis length_take min.absorb2)
qed

theorem tabuniq_removes_duplicates_witness:
  "take 3 (snd (tabuniq (\<lambda>x y. x - y) [1, 1, 2, 2, 2, 3 :: int])) = [1, 2, 3]"
  using tabuniq_removes_duplicates [of "\<lambda>x y. x - y" "[1, 1, 2, 2, 2, 3 :: int]"
      "fst (tabuniq (\<lambda>x y. x - y) [1, 1, 2, 2, 2, 3 :: int])"
      "snd (tabuniq (\<lambda>x y. x - y) [1, 1, 2, 2, 2, 3 :: int])"]
  by (auto simp: numeral_3_eq_3)

text \<open>
  C18: Adding two normalised times gives a normalised time that stands for the sum of their
  nanoseconds.
\<close>
theorem add_timespec_exact:
  assumes "timespec_normal lhs" and "timespec_normal rhs"
  shows "timespec_normal (picotm_os_add_timespec lhs rhs) \<and>
    nanoseconds (picotm_os_add_timespec lhs rhs) = nanoseconds lhs + nanoseconds rhs"
  using add_timespec_nanoseconds [OF assms] by simp

theorem add_timespec_exact_witness:
  "nanoseconds (picotm_os_add_timespec \<lparr>tv_sec = 1, tv_nsec = 600000000\<rparr> \<lparr>tv_sec = 2, tv_nsec = 500000000\<rparr>)
    = 4100000000"
  by (subst add_timespec_exact [THEN conjunct2]) (simp_all add: timespec_normal_def nanoseconds_def MAX_NSEC_def)

text \<open>
  C19: Subtracting two normalised times gives a normalised time, but one that is two seconds too
  large whenever a second has to be borrowed: the code adds the carry to the seconds.
\<close>
theorem sub_timespec_borrow:
  assumes "timespec_normal lhs" and "timespec_normal rhs"
  shows "timespec_normal (picotm_os_sub_timespec lhs rhs) \<and>
    nanoseconds (picotm_os_sub_timespec lhs rhs) = nanoseconds lhs - nanoseconds rhs +
      (if tv_nsec rhs > tv_nsec lhs then 2 * (MAX_NSEC + 1) else 0)"
  using sub_timespec_nanoseconds [OF assms] by simp

theorem sub_timespec_borrow_witness:
  "nanoseconds (picotm_os_sub_timespec \<lparr>tv_sec = 2, tv_nsec = 0\<rparr> \<lparr>tv_sec = 0, tv_nsec = 500000000\<rparr>)
    = 3500000000"
  by (subst sub_timespec_borrow [THEN conjunct2]) (simp_all add: timespec_normal_def nanoseconds_def MAX_NSEC_def)

section \<open>Maps from keys to values\<close>

text \<open>
  C20: Looking up a key in a treemap, with or without creating its value, acts on the finite map
  that the tree stores: the well-formedness of the tree is kept, every other key keeps its value
  even when memory runs out half-way, a key that is present is found, and a created value is stored.
\<close>
theorem treemap_find_is_map:
  assumes "picotm_treemap_find_value malloc self key create m er = (v, self', m', er')"
    and "treemap_ok self" and "treemap_key_ok self key" and "create_ok create"
    and "\<not> picotm_error_is_set er"
  shows "treemap_ok self' \<and>
    (\<forall>k. treemap_get self' k =
      (if k = key \<and> \<not> picotm_error_is_set er' then v else treemap_get self k)) \<and>
    (\<not> picotm_error_is_set er' \<and> (treemap_get self key \<noteq> 0 \<or> create = None) \<longrightarrow>
      v = treemap_get self key)"
  by (rule treemap_find_value_spec [OF assms])

lemma treemap_find_is_map_witness:
  "\<exists>self' :: picotm_treemap. treemap_ok self' \<and> treemap_get self' 5 = 50 \<and> treemap_get self' 6 = 0"
proof -
  define self where "self = \<lparr>tm_root = Dir_entry [Dir_entry [Null_entry, Null_entry, Null_entry, Null_entry],
      Dir_entry [Null_entry, Value_entry 50, Null_entry, Null_entry], Null_entry, Null_entry],
     tm_depth = 2, tm_level_nbits = 2\<rparr>"
  have find: "picotm_treemap_find_value (\<lambda>m. (0, m)) (picotm_treemap_init 2) 5 (Some (\<lambda>k m e. (50, m, e))) ()
      PICOTM_ERROR_INITIALIZER = (50, self, (), PICOTM_ERROR_INITIALIZER)"
    unfolding self_def by code_simp
  have "treemap_ok (picotm_treemap_init 2)" "treemap_key_ok (picotm_treemap_init 2) 5"
      "treemap_get (picotm_treemap_init 2) 6 = 0"
    by (simp_all add: treemap_ok_def treemap_key_ok_def picotm_treemap_init_def treemap_get_def tree_get_def)
  with treemap_find_is_map [OF find] show ?thesis by (auto simp: create_ok_def)
qed

text \<open>
  C21: The iteration over a treemap ends, and calls its call-back once for each key of the map, with
  the key's value, in increasing order of the keys, up to the first call that fails.
\<close>
theorem treemap_iterates_in_order:
  assumes "treemap_ok self" and "\<not> picotm_error_is_set error"
  shows "\<exists>ps. picotm_treemap_for_each_value self value_call data error =
      Some (visit_values value_call ps data error) \<and>
    (\<forall>v k. (v, k) \<in> set ps \<longleftrightarrow> v \<noteq> 0 \<and> treemap_get self k = v) \<and>
    sorted_wrt (\<lambda>a b. unat (snd a) < unat (snd b)) ps"
  by (intro exI [of _ "treemap_values self"] conjI allI for_each_value_visits [OF assms]
      treemap_values_spec [OF assms(1)])

lemma treemap_iterates_in_order_witness:
  "\<exists>ps. picotm_treemap_for_each_value (picotm_treemap_init 4) (\<lambda>v k d e. (d + unat v, e)) 0
      PICOTM_ERROR_INITIALIZER = Some (visit_values (\<lambda>v k d e. (d + unat v, e)) ps 0 PICOTM_ERROR_INITIALIZER) \<and>
    (\<forall>v k. (v, k) \<in> set ps \<longleftrightarrow> v \<noteq> 0 \<and> treemap_get (picotm_treemap_init 4) k = v) \<and>
    sorted_wrt (\<lambda>a b. unat (snd a) < unat (snd b)) ps"
  by (rule treemap_iterates_in_order) (simp_all add: treemap_ok_def picotm_treemap_init_def)

text \<open>
  C22: When threads look up keys of a shared treemap at the same time, in any interleaving of their
  atomic accesses, every call that creates missing values returns a value that is not null, that has
  not been destroyed, and that stays the value of its key; all calls for the same key return the same
  value, and calls for different keys return different ones.
\<close>
theorem shared_treemap_agreement:
  assumes "find_reachable key_nbits level_nbits c" and "level_nbits < 64"
    and "ft_pc (fc_thread c t) = Find_returns v" and "ft_create (fc_thread c t)"
  shows "v \<noteq> 0 \<and> v \<in> fc_created c \<and> v \<notin> set (fc_destroyed c) \<and>
    (\<forall>c'. find_step c c' \<longrightarrow> shared_get (fc_tree c') (ft_key (fc_thread c t)) = v) \<and>
    (\<forall>t' v'. ft_pc (fc_thread c t') = Find_returns v' \<and> v' \<noteq> 0 \<longrightarrow>
      ft_key (fc_thread c t') = ft_key (fc_thread c t) \<longrightarrow> v' = v) \<and>
    (\<forall>t'. ft_pc (fc_thread c t') = Find_returns v \<longrightarrow>
      (let bits = sht_depth (fc_tree c) * sht_level_nbits (fc_tree c) in
       bits < 64 \<longrightarrow> unat (ft_key (fc_thread c t)) < 2 ^ bits \<longrightarrow>
       unat (ft_key (fc_thread c t')) < 2 ^ bits \<longrightarrow>
       ft_key (fc_thread c t') = ft_key (fc_thread c t)))"
proof -
  obtain lev where inv: "find_inv lev c" using find_reachable_inv [OF assms(1,2)] by blast
  note ok = find_invD(2) [OF inv] and tree = find_invD(1) [OF inv]
  have v: "v \<noteq> 0" by (rule pc_okD(10) [OF ok assms(3,4)])
  have get: "shared_get (fc_tree c) (ft_key (fc_thread c t')) = v'"
    if "ft_pc (fc_thread c t') = Find_returns v'" "v' \<noteq> 0" for t' v'
    by (rule pc_okD(9) [OF ok that])
  note get_v = get [OF assms(3) v]
  have live: "v \<in> fc_created c \<and> v \<notin> set (fc_destroyed c)"
    using shared_get_cell [OF tree, of "ft_key (fc_thread c t)"] values_okD(3) [OF find_invD(4) [OF inv]]
    by (auto simp: get_v v)
  have stay: "shared_get (fc_tree c') (ft_key (fc_thread c t)) = v" if "find_step c c'" for c'
    using shared_get_extends [OF find_step_extends [OF that inv]] get_v v by simp
  have differ: "ft_key (fc_thread c t') = ft_key (fc_thread c t)"
    if "ft_pc (fc_thread c t') = Find_returns v"
      "sht_depth (fc_tree c) * sht_level_nbits (fc_tree c) < 64"
      "unat (ft_key (fc_thread c t)) < 2 ^ (sht_depth (fc_tree c) * sht_level_nbits (fc_tree c))"
      "unat (ft_key (fc_thread c t')) < 2 ^ (sht_depth (fc_tree c) * sht_level_nbits (fc_tree c))" for t'
    using shared_get_injective [OF tree _ _ that(2,4,3)] get [OF that(1) v] get_v v by simp
  have same: "v' = v"
    if "ft_pc (fc_thread c t') = Find_returns v'" "v' \<noteq> 0"
      "ft_key (fc_thread c t') = ft_key (fc_thread c t)" for t' v'
    using get [OF that(1,2)] that(3) get_v by simp
  show ?thesis unfolding Let_def
  proof (intro conjI allI impI)
    fix t' v' assume "ft_pc (fc_thread c t') = Find_returns v' \<and> v' \<noteq> 0"
      and "ft_key (fc_thread c t') = ft_key (fc_thread c t)"
    then show "v' = v" using same by blast
  qed (use v live in \<open>blast intro: stay differ\<close>)+
qed

lemma shared_treemap_agreement_witness:
  "\<exists>c. find_reachable 2 2 c \<and> fc_created c = {7, 8} \<and> fc_destroyed c = [8] \<and>
    ft_pc (fc_thread c 1) = Find_returns 7 \<and> ft_pc (fc_thread c 0) = Find_returns 7"
proof -
  define as where "as = [(0, No_answer), (0, Address 100), (0, No_answer), (0, No_answer),
    (1 :: nat, No_answer), (1, No_answer), (0, Value 7), (1, Value 8), (0, No_answer), (1, No_answer), (1, No_answer)]"
  define c0 where "c0 = start_find 1 1 True (start_find 0 1 True (find_init 2 2))"
  have "find_reachable 2 2 c0"
    unfolding c0_def by (intro start_find_reachable find_reachable.init)
      (simp_all add: find_init_def start_find_def)
  moreover have "answers_ok as c0" unfolding as_def c0_def by code_simp
  ultimately have reach: "find_reachable 2 2 (find_run as c0)" by (rule find_run_reachable)
  have end_state: "ft_pc (fc_thread (find_run as c0) 0) = Find_returns 7"
      "ft_pc (fc_thread (find_run as c0) 1) = Find_returns 7"
      "ft_create (fc_thread (find_run as c0) 0)" "fc_destroyed (find_run as c0) = [8]"
      "fc_created (find_run as c0) = {7, 8}"
    unfolding as_def c0_def by code_simp+
  have "(7 :: u64) \<notin> set (fc_destroyed (find_run as c0))"
    using shared_treemap_agreement [OF reach _ end_state(1,3)] by simp
  with reach end_state show ?thesis by blast
qed

text \<open>
  C23: No interleaving of look-ups in a shared treemap leaks or destroys a value twice: the values
  that the creators have made and that have not been destroyed are exactly those in the entries of
  the tree and those that a thread is about to install, and no value is destroyed twice.
\<close>
theorem shared_treemap_no_leak:
  assumes "find_reachable key_nbits level_nbits c" and "level_nbits < 64"
  shows "distinct (fc_destroyed c) \<and> set (fc_destroyed c) \<subseteq> fc_created c \<and>
    fc_created c - set (fc_destroyed c) \<subseteq>
      {v. \<exists>p. load_entry (fc_tree c) p = v} \<union> {v. \<exists>t p. ft_pc (fc_thread c t) = Cas_value p v} \<and>
    (\<forall>t p v. ft_pc (fc_thread c t) = Cas_value p v \<longrightarrow> v \<in> fc_created c - set (fc_destroyed c)) \<and>
    (\<forall>t t' p p' v. t \<noteq> t' \<longrightarrow> ft_pc (fc_thread c t) = Cas_value p v \<longrightarrow>
      ft_pc (fc_thread c t') \<noteq> Cas_value p' v)"
proof -
  obtain lev where inv: "find_inv lev c" using find_reachable_inv [OF assms] by blast
  note vals = values_okD [OF find_invD(4) [OF inv]]
  have cas: "v \<in> fc_created c - set (fc_destroyed c)" if "ft_pc (fc_thread c t) = Cas_value p v" for t p v
    using that unfolding vals(3) [symmetric] held_values_def held_value_Some by blast
  have here: "v \<in> {v. \<exists>p. load_entry (fc_tree c) p = v} \<union> {v. \<exists>t p. ft_pc (fc_thread c t) = Cas_value p v}"
    if "v \<in> fc_created c - set (fc_destroyed c)" for v
    using that unfolding vals(3) [symmetric] cell_values_def held_values_def held_value_Some by blast
  have "ft_pc (fc_thread c t') \<noteq> Cas_value p' v" if "t \<noteq> t'" "ft_pc (fc_thread c t) = Cas_value p v" for t t' p p' v
    using find_invD(3) [OF inv] that unfolding exclusive_def by (metis held_value.simps(1))
  with vals(1,2) cas here show ?thesis by (simp only: subset_iff) blast
qed

lemma shared_treemap_no_leak_witness:
  "distinct (fc_destroyed (find_init 8 4)) \<and> fc_created (find_init 8 4) = {}"
  using shared_treemap_no_leak [OF find_reachable.init, of 4 8] by (simp add: find_init_def)

section \<open>Transactional memory\<close>

text \<open>
  An environment for the witnesses: every table exists, no lock is held, every allocation succeeds,
  and a thread that would have to wait gives up at once.
\<close>

definition demo_waits :: tm_waits where
  "demo_waits = \<lparr>wt_wait = \<lambda>m e. (m, e), wt_sleep = \<lambda>m e. (m, e), wt_addr = \<lambda>p. 64\<rparr>"

definition demo_page :: tm_page where
  "demo_page = \<lparr>pg_flags = 0, pg_rwstate = \<lparr>status = PICOTM_RWSTATE_UNLOCKED\<rparr>,
     pg_buf = replicate 8 0, pg_buf_bits = 0\<rparr>"

definition demo_env :: tm_env where
  "demo_env = \<lparr>te_mem = \<lambda>a. ucast a, te_tbl = \<lambda>key. Some (tm_frame_tbl_init (push_bit 10 key)),
     te_find = \<lambda>n. None, te_page = \<lambda>n. Some demo_page, te_n = 0\<rparr>"

lemma upt_8: "[0..<8] = [0, 1, 2, 3, 4, 5, 6, 7]"
  by (simp add: upt_rec eval_nat_numeral)

lemma nth_tbl_init: "i < 1024 \<Longrightarrow> tm_frame_tbl_init b ! i = tm_frame_init (b + of_nat i)"
  by (simp add: tm_frame_tbl_init_def TM_FRAME_TBL_SIZE_1024)

text \<open>What the operations of the module evaluate with.\<close>

lemmas tm_eval = tm_module_store_def tm_module_load_def get_vmem_tx_def tm_vmem_tx_st_def
  tm_vmem_tx_ld_def acquire_page_by_address_def acquire_page_by_block_def Let_def alloc_page_def
  demo_env_def demo_page_def demo_waits_def tm_vmem_tx_init_def tm_page_init_def
  tm_block_index_at_def picotm_rwstate_init_def prepare_page_st_def prepare_page_ld_def get_page_def
  put_page_def page_discarded_def tm_page_block_index_def TM_BLOCK_SIZE_BITS_def
  TM_PAGE_FLAG_DISCARDED_def tm_page_has_wrlocked_frame_def tm_page_has_rdlocked_frame_def
  picotm_rwstate_get_status_def tm_page_try_wrlock_frame_def tm_page_try_rdlock_frame_def
  tm_vmem_acquire_frame_by_block_def tm_vmem_acquire_frame_by_address_def tm_frame_map_lookup_def
  frame_tbl_offset_def frame_tbl_index_def get_frame_def put_frame_def nth_tbl_init fresh_tbl_frame
  tm_frame_init_def tm_frame_try_wrlock_def tm_frame_try_rdlock_def picotm_rwstate_try_wrlock_def
  picotm_rwstate_try_rdlock_def picotm_rwlock_try_wrlock_def picotm_rwlock_try_rdlock_def
  try_lock_or_wait_eq [OF try_lock_eq(1)] try_lock_or_wait_eq [OF try_lock_eq(2)]
  TM_FRAME_TBL_SIZE_BITS_def picotm_rwlock_init_def TM_FRAME_TBL_SIZE_MASK_def TM_FRAME_TBL_SIZE_def
  tm_page_is_complete_def all_buf_bits_set_def TM_BLOCK_OFFSET_MASK_def tm_page_ld_def copy_bits_def
  copy_all_bits_def picotm_address_floor_def tm_frame_buffer_def tm_frame_address_def
  tm_frame_block_index_def page_write_through_def TM_PAGE_FLAG_WRITE_THROUGH_def
  tm_page_buffer_write_def tm_page_buffer_read_def tm_page_address_def picotm_error_is_set_def
  PICOTM_ERROR_INITIALIZER_def find_page_by_block_index_def upt_8

lemma demo_ok:
  "env_ok demo_env" "tx_inv tm_vmem_tx_init demo_env" "waits_ok demo_waits"
  by (simp_all add: tx_inv_def tm_vmem_tx_init_def env_ok_def frames_ok_def demo_env_def demo_page_def
      pages_sorted_def fresh_tbl_frame waits_ok_def wait_respects_def demo_waits_def)








text \<open>
  C27: Privatizing a block that the transaction has stored to loses the store: the buffered bytes are
  not written when the page switches to write-through mode, so that committing leaves main memory as
  it was before the store, while rolling back writes the uncommitted bytes.
\<close>
theorem tm_privatize_loses_store:
  assumes "env_ok env" and "page_inv page (te_mem env)" and "page_lock_ok page env"
    and "tm_page_has_wrlocked_frame page" and "tm_page_is_complete page" and "\<not> picotm_error_is_set e"
  shows "\<exists>page'. prepare_page_privatize w page addr siz PICOTM_TM_PRIVATIZE_STORE env e = Some (page', env, e) \<and>
    apply_page page' env e = (True, env, e) \<and>
    undo_page page' env e = (True,
      env\<lparr>te_mem := \<lambda>a. if tm_block_index_at a = tm_page_block_index page then pg_buf page ! (unat a mod 8)
                     else te_mem env a\<rparr>, e)"
proof -
  let ?p = "set_write_through page"
  have p: "length (pg_buf ?p) = 8" "page_lock_ok ?p env" "tm_page_has_wrlocked_frame ?p" "\<not> page_discarded ?p"
    using assms(2-4) by (simp_all add: page_inv_def page_lock_ok_def tm_page_has_wrlocked_frame_def)
  have "apply_page ?p env e = (True, env, e)" by (simp add: apply_page_def)
  moreover have "undo_page ?p env e = (True,
      env\<lparr>te_mem := \<lambda>a. if tm_block_index_at a = tm_page_block_index page then pg_buf page ! (unat a mod 8)
                     else te_mem env a\<rparr>, e)"
  proof -
    have "(\<lambda>a. if tm_block_index_at a = tm_page_block_index page then page_byte ?p (te_mem env) a
        else te_mem env a) = (\<lambda>a. if tm_block_index_at a = tm_page_block_index page
          then pg_buf page ! (unat a mod 8) else te_mem env a)"
      using bit_complete [OF assms(5)] unfolding byte_write_through by (simp add: page_byte_def fun_eq_iff)
    then show ?thesis
      using page_st_spec [OF assms(1) p(1-3) assms(6)] p(3,4) assms(6) by (simp add: undo_page_def)
  qed
  ultimately show ?thesis
    using privatize_locked_page [OF assms(4) _ assms(5,6)] p(4) by auto
qed

theorem tm_privatize_loses_store_witness:
  "\<exists>page page' env env'. te_mem env 2 = 2 \<and> pg_buf page ! 2 = 7 \<and>
     prepare_page_privatize demo_waits page 2 1 PICOTM_TM_PRIVATIZE_STORE env PICOTM_ERROR_INITIALIZER =
       Some (page', env, PICOTM_ERROR_INITIALIZER) \<and>
     apply_page page' env PICOTM_ERROR_INITIALIZER = (True, env, PICOTM_ERROR_INITIALIZER) \<and>
     undo_page page' env PICOTM_ERROR_INITIALIZER = (True, env', PICOTM_ERROR_INITIALIZER) \<and> te_mem env' 2 = 7"
proof -
  let ?page = "demo_page\<lparr>pg_rwstate := \<lparr>status = PICOTM_RWSTATE_WRLOCKED\<rparr>, pg_buf := replicate 8 7, pg_buf_bits := 255\<rparr>"
  let ?env = "put_frame (frame_ptr_of 0) ((get_frame demo_env (frame_ptr_of 0))\<lparr>fr_rwlock := 15\<rparr>) demo_env"
  have flags: "fr_flags ((get_frame demo_env (frame_ptr_of 0))\<lparr>fr_rwlock := 15\<rparr>) =
      fr_flags (get_frame demo_env (frame_ptr_of 0))" by simp
  have tbl: "te_tbl demo_env (fst (frame_ptr_of 0)) \<noteq> None" and block: "is_block 0"
    by (simp_all add: demo_env_def is_block_def)
  note put = put_frame_spec [OF demo_ok(1) tbl block flags]
  have page: "page_inv ?page (te_mem ?env)" "tm_page_has_wrlocked_frame ?page" "tm_page_is_complete ?page"
      "tm_page_block_index demo_page = 0"
    by (simp_all add: page_inv_def demo_page_def tm_eval)
  have lock: "page_lock_ok ?page ?env"
    using put by (simp add: page_lock_ok_def page(4) rwstate_agrees_def)
  have mem: "te_mem ?env 2 = 2" using put by (simp add: demo_env_def)
  from tm_privatize_loses_store [OF put(1) page(1) lock page(2,3) clear_not_set,
      where w = demo_waits and addr = 2 and siz = 1] obtain page' where
      "prepare_page_privatize demo_waits ?page 2 1 PICOTM_TM_PRIVATIZE_STORE ?env PICOTM_ERROR_INITIALIZER =
        Some (page', ?env, PICOTM_ERROR_INITIALIZER)"
      "apply_page page' ?env PICOTM_ERROR_INITIALIZER = (True, ?env, PICOTM_ERROR_INITIALIZER)"
      and undo: "undo_page page' ?env PICOTM_ERROR_INITIALIZER = (True,
        ?env\<lparr>te_mem := \<lambda>a. if tm_block_index_at a = tm_page_block_index ?page
          then pg_buf ?page ! (unat a mod 8) else te_mem ?env a\<rparr>, PICOTM_ERROR_INITIALIZER)" (is "_ = (True, ?env2, _)")
    by blast
  moreover have "te_mem ?env2 2 = 7" by (simp add: tm_block_index_at_def page(4))
  moreover have "pg_buf ?page ! 2 = 7" by simp
  ultimately show ?thesis using mem
    by (intro exI [of _ ?page] exI [of _ page'] exI [of _ ?env] exI [of _ ?env2] conjI)
qed

end
